(* ===== verification/Prelude.thy ===== *)
theory Prelude
  imports Main "HOL-Library.Word" "HOL-Library.Monad_Syntax"
begin

text \<open>
  Shared vocabulary of the development: the machine types of the C++ code, byte arrays with
  checked access, write cursors, NUL-terminated strings and the big/little endian views of
  machine words.

  A pointer into a byte array is the list of the bytes from that address to the end of the
  allocation, so \<open>p + n\<close> of the source is \<open>drop n\<close> of the model. An access outside the
  allocation is undefined behaviour in the source and \<open>None\<close> in the model; a function whose
  result is \<open>Some\<close> has made no such access.
\<close>

unbundle bit_operations_syntax

section \<open>Machine types\<close>

type_synonym byte = "8 word"
type_synonym uint16 = "16 word"
type_synonym uint32 = "32 word"
type_synonym uint64 = "64 word"
type_synonym buffer = "byte list"
type_synonym cursor = "buffer \<times> nat"

named_theorems writer_simps "what each encoder writes, as a list of bytes"
named_theorems size_simps "the lengths the size functions predict"

text \<open>The value range of a C++ \<open>int\<close>: arithmetic on it is reduced to 32 bits, two's complement.\<close>

definition int32 :: "int \<Rightarrow> int" where
  "int32 x = signed_take_bit 31 x"

lemma int32_id [simp]: "- 2147483648 \<le> x \<Longrightarrow> x < 2147483648 \<Longrightarrow> int32 x = x"
  by (simp add: int32_def signed_take_bit_int_eq_self)

text \<open>The result of an operation on \<open>int\<close>, or on \<open>long\<close> where it has 32 bits: an overflow is undefined.\<close>

definition in_int :: "int \<Rightarrow> int option" where
  "in_int x = (if - (2 ^ 31) \<le> x \<and> x < 2 ^ 31 then Some x else None)"

lemma in_int_Some_iff: "in_int x = Some y \<longleftrightarrow> y = x \<and> - (2 ^ 31) \<le> x \<and> x < 2 ^ 31"
  by (auto simp: in_int_def)

lemma in_int_ok: "- (2 ^ 31) \<le> x \<Longrightarrow> x < 2 ^ 31 \<Longrightarrow> in_int x = Some x"
  by (simp add: in_int_def)

lemma unat_of_nat32 [simp]: "m < 2 ^ 32 \<Longrightarrow> unat (of_nat m :: uint32) = m"
  by (simp add: unsigned_of_nat take_bit_nat_eq_self)

lemma of_nat32_eq_numeral:
  "m < 2 ^ 32 \<Longrightarrow> numeral k < (2 ^ 32 :: nat) \<Longrightarrow>
   (of_nat m :: uint32) = numeral k \<longleftrightarrow> m = numeral k"
  by (metis of_nat_numeral unat_of_nat32)

lemma of_nat32_less_numeral:
  "m < 2 ^ 32 \<Longrightarrow> numeral k < (2 ^ 32 :: nat) \<Longrightarrow>
   (of_nat m :: uint32) < numeral k \<longleftrightarrow> m < numeral k"
  by (metis of_nat_numeral unat_of_nat32 word_less_nat_alt)

section \<open>Checked reads\<close>

definition rd :: "buffer \<Rightarrow> int \<Rightarrow> byte option" where
  "rd buf i = (if 0 \<le> i \<and> i < int (length buf) then Some (buf ! nat i) else None)"

text \<open>A \<open>memcpy\<close> out of the array at \<open>i\<close>, of \<open>n\<close> bytes.\<close>

definition rd_bytes :: "buffer \<Rightarrow> int \<Rightarrow> int \<Rightarrow> byte list option" where
  "rd_bytes buf i n =
     (if 0 \<le> i \<and> 0 \<le> n \<and> i + n \<le> int (length buf)
      then Some (take (nat n) (drop (nat i) buf)) else None)"

lemma rd_Some_iff: "rd buf i = Some b \<longleftrightarrow> 0 \<le> i \<and> i < int (length buf) \<and> b = buf ! nat i"
  by (auto simp: rd_def)

lemma rd_append [simp]: "rd (xs @ b # ys) (int (length xs)) = Some b"
  by (simp add: rd_def)

lemma rd_at: "int (length xs) = i \<Longrightarrow> rd (xs @ b # ys) i = Some b"
  by (auto simp: rd_def)

lemma rd_bytes_at:
  "int (length xs) = i \<Longrightarrow> int (length bs) = n \<Longrightarrow> rd_bytes (xs @ bs @ ys) i n = Some bs"
  by (auto simp: rd_bytes_def)

lemma rd_bytes_length: "rd_bytes buf i n = Some bs \<Longrightarrow> length bs = nat n"
  by (auto simp: rd_bytes_def split: if_splits)

lemma rd_defined: "0 \<le> i \<Longrightarrow> i < int (length buf) \<Longrightarrow> \<exists>b. rd buf i = Some b"
  by (simp add: rd_def)

section \<open>Write cursors\<close>

text \<open>\<open>buffer[bufPos++] = b\<close>.\<close>

fun put :: "byte \<Rightarrow> cursor \<Rightarrow> cursor option" where
  "put b (buf, pos) = (if pos < length buf then Some (buf[pos := b], Suc pos) else None)"

fun put_bytes :: "byte list \<Rightarrow> cursor \<Rightarrow> cursor option" where
  "put_bytes [] c = Some c"
| "put_bytes (b # bs) c = put b c \<bind> put_bytes bs"

text \<open>The loop \<open>for (i = 0; i < n; i++) buffer[bufPos++] = src[i]\<close>.\<close>

fun put_from :: "byte list \<Rightarrow> nat \<Rightarrow> cursor \<Rightarrow> cursor option" where
  "put_from src 0 c = Some c"
| "put_from [] (Suc n) c = None"
| "put_from (b # src) (Suc n) c = put b c \<bind> put_from src n"

lemma put_bytes_append: "put_bytes (xs @ ys) c = put_bytes xs c \<bind> put_bytes ys"
  by (induction xs arbitrary: c) (auto simp: bind_assoc split: Option.bind_splits)

text \<open>The same three equations between functions: they turn a chain of writes into one
  list of bytes and back.\<close>

lemma put_fun:
  "put_bytes [] = Some"
  "put_bytes (b # bs) = (\<lambda>c. put b c \<bind> put_bytes bs)"
  "put_bytes (xs @ ys) = (\<lambda>c. put_bytes xs c \<bind> put_bytes ys)"
  by (auto simp: fun_eq_iff put_bytes_append)

lemma put_from_eq: "n \<le> length src \<Longrightarrow> put_from src n = put_bytes (take n src)"
proof
  show "n \<le> length src \<Longrightarrow> put_from src n c = put_bytes (take n src) c" for c
    by (induction src n c rule: put_from.induct) (auto split: Option.bind_splits)
qed

lemma put_from_short: "length src < n \<Longrightarrow> put_from src n c = None"
  by (induction src n c rule: put_from.induct) (auto split: Option.bind_splits)

lemma put_eq_put_bytes: "put b c = put_bytes [b] c"
  by (cases "put b c") auto

text \<open>What a run of writes does to the array: the bytes appear at the position, everything
  else is untouched.\<close>

lemma put_bytes_exact:
  "pos + length bs \<le> length buf \<Longrightarrow>
   put_bytes bs (buf, pos)
     = Some (take pos buf @ bs @ drop (pos + length bs) buf, pos + length bs)"
proof (induction bs arbitrary: buf pos)
  case Nil
  then show ?case by simp
next
  case (Cons b bs)
  then have "pos < length buf" by simp
  then have "take (Suc pos) (buf[pos := b]) = take pos buf @ [b]"
    by (simp add: take_Suc_conv_app_nth)
  with Cons show ?case by (simp add: drop_update_cancel)
qed

lemma put_bytes_overflow:
  "pos \<le> length buf \<Longrightarrow> length buf < pos + length bs \<Longrightarrow> put_bytes bs (buf, pos) = None"
  by (induction bs arbitrary: buf pos) auto

lemma put_bytes_None_iff:
  "put_bytes bs (buf, pos) = None \<longleftrightarrow> bs \<noteq> [] \<and> length buf < pos + length bs"
  by (induction bs arbitrary: buf pos) auto

lemma put_bytes_SomeD:
  "put_bytes bs (buf, pos) = Some (buf', pos') \<Longrightarrow>
   length buf' = length buf \<and> pos' = pos + length bs"
  by (induction bs arbitrary: buf pos) (fastforce split: if_splits)+

lemma put_bytes_append_buf:
  "pos = length pre \<Longrightarrow> length old = length bs \<Longrightarrow>
   put_bytes bs (pre @ old @ post, pos) = Some (pre @ bs @ post, pos + length bs)"
  by (simp add: put_bytes_exact)

text \<open>\<open>memcpy(dst, src, n)\<close>.\<close>

definition memcpy :: "byte list \<Rightarrow> byte list \<Rightarrow> nat \<Rightarrow> byte list option" where
  "memcpy dst src n =
     (if n \<le> length dst \<and> n \<le> length src then Some (take n src @ drop n dst) else None)"

lemma memcpy_SomeD: "memcpy dst src n = Some d \<Longrightarrow> length d = length dst \<and> take n d = take n src"
  by (auto simp: memcpy_def split: if_splits)

section \<open>Endianness\<close>

text \<open>\<open>(uint8_t*) &value\<close> on the little-endian targets the module is built for
  (\<open>ORDER_LITTLE_ENDIAN == 1\<close>).\<close>

definition le_bytes :: "'a::len word \<Rightarrow> byte list" where
  "le_bytes w = map (\<lambda>i. ucast (drop_bit (8 * i) w)) [0..<LENGTH('a) div 8]"

definition be_bytes :: "'a::len word \<Rightarrow> byte list" where
  "be_bytes w = rev (le_bytes w)"

lemma length_le_bytes [simp]: "length (le_bytes (w :: 'a::len word)) = LENGTH('a) div 8"
  by (simp add: le_bytes_def)

lemma length_be_bytes [simp]: "length (be_bytes (w :: 'a::len word)) = LENGTH('a) div 8"
  by (simp add: be_bytes_def)

text \<open>The number a big-endian byte string denotes.\<close>

fun be_nat :: "byte list \<Rightarrow> nat" where
  "be_nat [] = 0"
| "be_nat (b # bs) = unat b * 256 ^ length bs + be_nat bs"

lemma be_nat_append: "be_nat (xs @ ys) = be_nat xs * 256 ^ length ys + be_nat ys"
  by (induction xs) (auto simp: algebra_simps power_add)

lemma unat_byte_less [simp]: "unat (b :: byte) < 256"
  using unsigned_less [of b, where ?'a = nat] by simp

lemma unat_byte_le: "unat (b :: byte) \<le> 255"
  using unat_byte_less [of b] by linarith

lemma uint_byte_le: "uint (b :: byte) \<le> 255"
  using unsigned_less [of b, where ?'a = int] by simp

lemma be_nat_less: "be_nat bs < 256 ^ length bs"
proof (induction bs)
  case Nil
  then show ?case by simp
next
  case (Cons b bs)
  have "unat b * 256 ^ length bs + be_nat bs < (unat b + 1) * 256 ^ length bs"
    using Cons by simp
  also have "\<dots> \<le> 256 * 256 ^ length bs"
    by (rule mult_le_mono1) (use unat_byte_less [of b] in linarith)
  finally show ?case by simp
qed

lemma unat_byte_of_word:
  "unat (ucast (drop_bit k (w :: 'a::len word)) :: byte) = (unat w div 2 ^ k) mod 256"
  unfolding unsigned_ucast_eq unat_drop_bit_eq by (simp add: take_bit_eq_mod drop_bit_eq_div)

lemma be_nat_le_prefix:
  "be_nat (rev (map (\<lambda>i. ucast (drop_bit (8 * i) (w :: 'a::len word))) [0..<n]))
     = unat w mod 2 ^ (8 * n)"
proof (induction n)
  case 0
  then show ?case by simp
next
  case (Suc n)
  have "unat w mod (2 ^ (8 * n) * 256)
      = 2 ^ (8 * n) * (unat w div 2 ^ (8 * n) mod 256) + unat w mod 2 ^ (8 * n)"
    by (rule mod_mult2_eq)
  moreover have "(256 :: nat) ^ n = 2 ^ (8 * n)"
    by (simp add: power_mult)
  ultimately show ?case
    using Suc by (simp add: unat_byte_of_word power_add mult.commute)
qed

lemma be_nat_be_bytes: "LENGTH('a) mod 8 = 0 \<Longrightarrow> be_nat (be_bytes (w :: 'a::len word)) = unat w"
  using unsigned_less [of w, where ?'a = nat] mult_div_mod_eq [of 8 "LENGTH('a)"]
  by (simp add: be_bytes_def le_bytes_def be_nat_le_prefix)

text \<open>The word with the given object representation.\<close>

definition word_of_object :: "byte list \<Rightarrow> 'a::len word" where
  "word_of_object bs = of_nat (be_nat (rev bs))"

lemma word_of_object_le_bytes:
  "LENGTH('a) mod 8 = 0 \<Longrightarrow> word_of_object (le_bytes (w :: 'a::len word)) = w"
  using be_nat_be_bytes [of w] by (simp add: word_of_object_def be_bytes_def)

section \<open>NUL-terminated strings\<close>

text \<open>\<open>strlen\<close>: the index of the first zero byte; running off the allocation is \<open>None\<close>.\<close>

fun strlen :: "byte list \<Rightarrow> nat option" where
  "strlen [] = None"
| "strlen (b # bs) = (if b = 0 then Some 0 else map_option Suc (strlen bs))"

definition c_str :: "byte list \<Rightarrow> byte list" where
  "c_str s = s @ [0]"

lemma strlen_append_zero: "0 \<notin> set s \<Longrightarrow> strlen (s @ 0 # rest) = Some (length s)"
  by (induction s) auto

lemma strlen_c_str [simp]: "0 \<notin> set s \<Longrightarrow> strlen (c_str s) = Some (length s)"
  by (simp add: c_str_def strlen_append_zero)

lemma strlen_SomeD: "strlen m = Some n \<Longrightarrow> n < length m \<and> 0 \<notin> set (take n m) \<and> m ! n = 0"
  by (induction m arbitrary: n) (auto split: if_splits)

end
