(* ===== verification/Ber_Encoder.thy ===== *)
theory Ber_Encoder
  imports Prelude
begin

text \<open>
  The BER encoder, \<open>src/mms/asn1/ber_encoder.cc\<close>. Every encoder of the source writes at
  \<open>buffer[bufPos]\<close> and returns the new position: here a function from cursor to cursor. Next to
  each encoder stands the list of bytes it writes (\<open>..._bytes\<close>); the locales \<open>ber_writer\<close> and
  \<open>sized_writer\<close> state the contract (an encoder writes exactly its bytes and touches nothing
  else; the size function predicts their number) and are interpreted on every encoder.
\<close>

section \<open>Length fields\<close>

definition BerEncoder_encodeLength :: "uint32 \<Rightarrow> cursor \<Rightarrow> cursor option" where
  "BerEncoder_encodeLength len c =
     (if len < 128 then put (ucast len) c
      else if len < 256 then do {
        c \<leftarrow> put 0x81 c;
        put (ucast len) c }
      else if len < 65535 then do {
        c \<leftarrow> put 0x82 c;
        c \<leftarrow> put (ucast (len div 256)) c;
        put (ucast (len mod 256)) c }
      else do {
        c \<leftarrow> put 0x83 c;
        c \<leftarrow> put (ucast (len div 0x10000)) c;
        c \<leftarrow> put (ucast ((len AND 0xffff) div 0x100)) c;
        put (ucast (len mod 256)) c })"

definition BerEncoder_determineLengthSize :: "uint32 \<Rightarrow> nat" where
  "BerEncoder_determineLengthSize len =
     (if len < 128 then 1 else if len < 256 then 2 else if len < 65536 then 3 else 4)"

definition length_bytes :: "uint32 \<Rightarrow> byte list" where
  "length_bytes len =
     (if len < 128 then [ucast len]
      else if len < 256 then [0x81, ucast len]
      else if len < 65535 then [0x82, ucast (len div 256), ucast (len mod 256)]
      else [0x83, ucast (len div 0x10000), ucast ((len AND 0xffff) div 0x100),
            ucast (len mod 256)])"

section \<open>Tagged primitives\<close>

definition BerEncoder_encodeTL :: "byte \<Rightarrow> uint32 \<Rightarrow> cursor \<Rightarrow> cursor option" where
  "BerEncoder_encodeTL tag len c = do { c \<leftarrow> put tag c; BerEncoder_encodeLength len c }"

definition BerEncoder_encodeBoolean :: "byte \<Rightarrow> bool \<Rightarrow> cursor \<Rightarrow> cursor option" where
  "BerEncoder_encodeBoolean tag value c = do {
     c \<leftarrow> put tag c;
     c \<leftarrow> put 1 c;
     if value then put 0x01 c else put 0x00 c }"

text \<open>\<open>string\<close> is a pointer: \<open>None\<close> is \<open>NULL\<close>.\<close>

definition BerEncoder_encodeStringWithTag ::
    "byte \<Rightarrow> byte list option \<Rightarrow> cursor \<Rightarrow> cursor option" where
  "BerEncoder_encodeStringWithTag tag string c = do {
     c \<leftarrow> put tag c;
     (case string of
        Some s \<Rightarrow> do {
          len \<leftarrow> strlen s;
          c \<leftarrow> BerEncoder_encodeLength (of_nat len) c;
          put_from s len c }
      | None \<Rightarrow> put 0 c) }"

definition BerEncoder_determineEncodedStringSize :: "byte list option \<Rightarrow> nat option" where
  "BerEncoder_determineEncodedStringSize string =
     (case string of
        Some s \<Rightarrow> do {
          len \<leftarrow> strlen s;
          Some (1 + BerEncoder_determineLengthSize (of_nat len) + len) }
      | None \<Rightarrow> Some 2)"

definition BerEncoder_encodeOctetString ::
    "byte \<Rightarrow> byte list \<Rightarrow> uint32 \<Rightarrow> cursor \<Rightarrow> cursor option" where
  "BerEncoder_encodeOctetString tag octetString octetStringSize c = do {
     c \<leftarrow> put tag c;
     c \<leftarrow> BerEncoder_encodeLength octetStringSize c;
     put_from octetString (unat octetStringSize) c }"

section \<open>Bit strings\<close>

definition bit_byte_size :: "nat \<Rightarrow> nat" where
  "bit_byte_size bitStringSize = bitStringSize div 8 + (if bitStringSize mod 8 \<noteq> 0 then 1 else 0)"

definition padding_mask :: "nat \<Rightarrow> byte" where
  "padding_mask padding = NOT (fold (\<lambda>i m. m + push_bit i 1) [0..<padding] 0)"

text \<open>\<open>buffer[bufPos - 1] = buffer[bufPos - 1] & mask\<close>.\<close>

fun mask_last :: "byte \<Rightarrow> cursor \<Rightarrow> cursor option" where
  "mask_last m (buf, pos) =
     (if 0 < pos \<and> pos \<le> length buf then Some (buf[pos - 1 := buf ! (pos - 1) AND m], pos)
      else None)"

definition BerEncoder_encodeBitString ::
    "byte \<Rightarrow> nat \<Rightarrow> byte list \<Rightarrow> cursor \<Rightarrow> cursor option" where
  "BerEncoder_encodeBitString tag bitStringSize bitString c = do {
     c \<leftarrow> put tag c;
     let byteSize = bit_byte_size bitStringSize;
     let padding = byteSize * 8 - bitStringSize;
     c \<leftarrow> BerEncoder_encodeLength (of_nat (byteSize + 1)) c;
     c \<leftarrow> put (of_nat padding) c;
     c \<leftarrow> put_from bitString byteSize c;
     mask_last (padding_mask padding) c }"

definition BerEncoder_determineEncodedBitStringSize :: "nat \<Rightarrow> nat" where
  "BerEncoder_determineEncodedBitStringSize bitStringSize =
     (let byteSize = bit_byte_size bitStringSize in
      2 + BerEncoder_determineLengthSize (of_nat byteSize) + byteSize)"

section \<open>Integers\<close>

definition BerEncoder_revertByteOrder :: "byte list \<Rightarrow> nat \<Rightarrow> byte list" where
  "BerEncoder_revertByteOrder octets sz =
     fold (\<lambda>i a. a[i := a ! (sz - 1 - i), sz - 1 - i := a ! i]) [0..<sz div 2] octets"

text \<open>The scan of \<open>compressInteger\<close>: how many leading octets repeat the sign.\<close>

fun compress_scan :: "byte list \<Rightarrow> nat" where
  "compress_scan (b0 # b1 # bs) =
     (if b0 = 0x00 \<and> b1 AND 0x80 = 0 \<or> b0 = 0xff \<and> b1 AND 0x80 = 0x80
      then Suc (compress_scan (b1 # bs)) else 0)"
| "compress_scan _ = 0"

definition BerEncoder_compressInteger :: "byte list \<Rightarrow> nat \<Rightarrow> byte list \<times> nat" where
  "BerEncoder_compressInteger integer originalSize =
     (let bytesToDelete = compress_scan (take originalSize integer);
          newSize = originalSize - bytesToDelete
      in if bytesToDelete \<noteq> 0
         then (fold (\<lambda>j a. a[j := a ! (j + bytesToDelete)]) [0..<newSize] integer, newSize)
         else (integer, newSize))"

definition BerEncoder_encodeUInt32 :: "uint32 \<Rightarrow> cursor \<Rightarrow> cursor option" where
  "BerEncoder_encodeUInt32 value c =
     (let valueBuffer = 0 # BerEncoder_revertByteOrder (le_bytes value) 4;
          (valueBuffer, sz) = BerEncoder_compressInteger valueBuffer 5
      in put_from valueBuffer sz c)"

definition BerEncoder_encodeInt32 :: "uint32 \<Rightarrow> cursor \<Rightarrow> cursor option" where
  "BerEncoder_encodeInt32 value c =
     (let valueArray = le_bytes value;
          valueBuffer = fold (\<lambda>i a. a[3 - i := valueArray ! i]) [0..<4] (replicate 4 0);
          (valueBuffer, sz) = BerEncoder_compressInteger valueBuffer 4
      in put_from valueBuffer sz c)"

definition BerEncoder_encodeUInt32WithTL :: "byte \<Rightarrow> uint32 \<Rightarrow> cursor \<Rightarrow> cursor option" where
  "BerEncoder_encodeUInt32WithTL tag value c =
     (let valueBuffer = 0 # BerEncoder_revertByteOrder (le_bytes value) 4;
          (valueBuffer, sz) = BerEncoder_compressInteger valueBuffer 5
      in do {
        c \<leftarrow> put tag c;
        c \<leftarrow> put (of_nat sz) c;
        put_from valueBuffer sz c })"

definition BerEncoder_UInt32determineEncodedSize :: "uint32 \<Rightarrow> nat" where
  "BerEncoder_UInt32determineEncodedSize value =
     (let valueBuffer = 0 # BerEncoder_revertByteOrder (le_bytes value) 4
      in snd (BerEncoder_compressInteger valueBuffer 5))"

section \<open>Floats\<close>

text \<open>The value is written after the exponent width and then reversed in place.\<close>

fun revert_written :: "nat \<Rightarrow> cursor \<Rightarrow> cursor option" where
  "revert_written n (buf, pos) =
     (if n \<le> pos \<and> pos \<le> length buf
      then Some (take (pos - n) buf @ BerEncoder_revertByteOrder (drop (pos - n) buf) n, pos)
      else None)"

definition BerEncoder_encodeFloat ::
    "byte list \<Rightarrow> byte \<Rightarrow> byte \<Rightarrow> cursor \<Rightarrow> cursor option" where
  "BerEncoder_encodeFloat floatValue formatWidth exponentWidth c = do {
     let byteSize = unat formatWidth div 8;
     c \<leftarrow> put exponentWidth c;
     c \<leftarrow> put_from floatValue byteSize c;
     revert_written byteSize c }"


section \<open>The contract of an encoder\<close>

text \<open>An encoder, for the arguments it is \<open>ok\<close> to call with, writes the bytes of its argument
  and nothing else.\<close>

locale ber_writer =
  fixes enc :: "'a \<Rightarrow> cursor \<Rightarrow> cursor option"
    and bytes :: "'a \<Rightarrow> byte list"
    and ok :: "'a \<Rightarrow> bool"
  assumes writes: "ok x \<Longrightarrow> enc x c = put_bytes (bytes x) c"
begin

lemma exact:
  assumes "ok x" and "pos + length (bytes x) \<le> length buf"
  shows "enc x (buf, pos)
    = Some (take pos buf @ bytes x @ drop (pos + length (bytes x)) buf, pos + length (bytes x))"
  using assms by (simp add: writes put_bytes_exact)

lemma overflow:
  assumes "ok x" and "pos \<le> length buf" and "length buf < pos + length (bytes x)"
  shows "enc x (buf, pos) = None"
  using assms by (simp add: writes put_bytes_overflow)

lemma frame:
  assumes "ok x" and "pos \<le> length buf" and "enc x (buf, pos) = Some (buf', pos')"
  shows "length buf' = length buf \<and> take pos buf' = take pos buf \<and> drop pos' buf' = drop pos' buf"
proof -
  have fits: "pos + length (bytes x) \<le> length buf"
    using assms overflow [of x pos buf] by force
  with assms(1,3) show ?thesis
    by (auto simp: exact)
qed

end

text \<open>An encoder with a function that predicts how much it will write, right where \<open>fits\<close>.\<close>

locale sized_writer = ber_writer +
  fixes sz :: "'a \<Rightarrow> nat option"
    and fits :: "'a \<Rightarrow> bool"
  assumes predicts: "ok x \<Longrightarrow> fits x \<Longrightarrow> sz x = Some (length (bytes x))"
begin

lemma sized_exact:
  assumes "ok x" "fits x" "sz x = Some n" "pos + n \<le> length buf"
  shows "enc x (buf, pos) = Some (take pos buf @ bytes x @ drop (pos + n) buf, pos + n)"
  using assms exact [of x pos buf] predicts [of x] by simp

lemma sized_advance:
  assumes "ok x" "fits x" "sz x = Some n" "enc x (buf, pos) = Some (buf', pos')"
  shows "pos' = pos + n"
  using assms predicts [of x] put_bytes_SomeD [of "bytes x" buf pos buf' pos']
  by (simp add: writes)

end

section \<open>Lengths\<close>

lemma encodeLength_writes [writer_simps]:
  "BerEncoder_encodeLength len c = put_bytes (length_bytes len) c"
  by (simp add: BerEncoder_encodeLength_def length_bytes_def put_fun)

lemma length_length_bytes:
  "len \<noteq> 65535 \<Longrightarrow> length (length_bytes len) = BerEncoder_determineLengthSize len"
proof -
  assume "len \<noteq> 65535"
  then have "len < 65536 \<longleftrightarrow> len < 65535"
    by unat_arith
  then show ?thesis
    by (auto simp: length_bytes_def BerEncoder_determineLengthSize_def)
qed

lemma length_bytes_nonempty [simp]: "length_bytes len \<noteq> []"
  by (simp add: length_bytes_def)

interpretation length_writer: sized_writer BerEncoder_encodeLength length_bytes "\<lambda>_. True"
  "\<lambda>len. Some (BerEncoder_determineLengthSize len)" "\<lambda>len. len \<noteq> 65535"
  by unfold_locales (simp_all add: writer_simps length_length_bytes)


section \<open>Tagged primitives\<close>

lemma encodeTL_writes [writer_simps]:
  "BerEncoder_encodeTL tag len c = put_bytes (tag # length_bytes len) c"
  by (simp add: BerEncoder_encodeTL_def writer_simps)

lemma encodeBoolean_writes [writer_simps]:
  "BerEncoder_encodeBoolean tag value c = put_bytes [tag, 1, if value then 1 else 0] c"
  by (simp add: BerEncoder_encodeBoolean_def put_fun)

definition string_bytes :: "byte \<Rightarrow> byte list \<Rightarrow> byte list" where
  "string_bytes tag s = tag # length_bytes (of_nat (length s)) @ s"

lemma encodeString_writes:
  "strlen m = Some n \<Longrightarrow>
   BerEncoder_encodeStringWithTag tag (Some m) c = put_bytes (string_bytes tag (take n m)) c"
  using strlen_SomeD [of m n]
  by (simp add: BerEncoder_encodeStringWithTag_def string_bytes_def writer_simps put_fun
      put_from_eq)

lemma encodeString_c_str [writer_simps]:
  "0 \<notin> set s \<Longrightarrow>
   BerEncoder_encodeStringWithTag tag (Some (c_str s)) c = put_bytes (string_bytes tag s) c"
  by (subst encodeString_writes [where n = "length s"]) (auto simp: c_str_def strlen_append_zero)

lemma encodeString_null [writer_simps]:
  "BerEncoder_encodeStringWithTag tag None c = put_bytes [tag, 0] c"
  by (simp add: BerEncoder_encodeStringWithTag_def put_fun)

lemma determineEncodedStringSize_null [size_simps]:
  "BerEncoder_determineEncodedStringSize None = Some 2"
  by (simp add: BerEncoder_determineEncodedStringSize_def)

lemma determineEncodedStringSize_c_str [size_simps]:
  "0 \<notin> set s \<Longrightarrow> length s < 65535 \<Longrightarrow>
   BerEncoder_determineEncodedStringSize (Some (c_str s)) = Some (length (string_bytes tag s))"
proof -
  assume "0 \<notin> set s" and len: "length s < 65535"
  from len have "(of_nat (length s) :: uint32) \<noteq> 65535"
    by (simp add: of_nat32_eq_numeral)
  with \<open>0 \<notin> set s\<close> show ?thesis
    by (simp add: BerEncoder_determineEncodedStringSize_def string_bytes_def length_length_bytes)
qed

interpretation string_writer: sized_writer
  "\<lambda>(tag, s). BerEncoder_encodeStringWithTag tag (Some (c_str s))"
  "\<lambda>(tag, s). string_bytes tag s" "\<lambda>(tag, s). 0 \<notin> set s"
  "\<lambda>(tag, s). BerEncoder_determineEncodedStringSize (Some (c_str s))"
  "\<lambda>(tag, s). length s < 65535"
  by unfold_locales (auto simp: writer_simps size_simps)

definition octet_bytes :: "byte \<Rightarrow> byte list \<Rightarrow> byte list" where
  "octet_bytes tag s = tag # length_bytes (of_nat (length s)) @ s"

lemma encodeOctetString_writes [writer_simps]:
  "unat n \<le> length s \<Longrightarrow>
   BerEncoder_encodeOctetString tag s n c = put_bytes (octet_bytes tag (take (unat n) s)) c"
  by (simp add: BerEncoder_encodeOctetString_def octet_bytes_def writer_simps put_fun put_from_eq)

section \<open>Bit strings\<close>

lemma bit_byte_size_bounds: "n \<le> 8 * bit_byte_size n \<and> 8 * bit_byte_size n < n + 8"
  by (simp add: bit_byte_size_def) presburger

text \<open>The padding bits of the last octet are cleared on the wire.\<close>

definition bit_content :: "nat \<Rightarrow> byte list \<Rightarrow> byte list" where
  "bit_content n bits =
     (let content = take (bit_byte_size n) bits; padding = bit_byte_size n * 8 - n in
      of_nat padding #
      (if content = [] then []
       else butlast content @ [last content AND padding_mask padding]))"

definition bit_string_bytes :: "byte \<Rightarrow> nat \<Rightarrow> byte list \<Rightarrow> byte list" where
  "bit_string_bytes tag n bits =
     tag # length_bytes (of_nat (bit_byte_size n + 1)) @ bit_content n bits"

lemma length_bit_content:
  "bit_byte_size n \<le> length bits \<Longrightarrow> length (bit_content n bits) = bit_byte_size n + 1"
  by (auto simp: bit_content_def Let_def)

lemma mask_last_put_bytes:
  "bs \<noteq> [] \<Longrightarrow> put_bytes bs c \<bind> mask_last m = put_bytes (butlast bs @ [last bs AND m]) c"
proof (induction bs arbitrary: c rule: rev_induct)
  case Nil
  then show ?case by simp
next
  case (snoc b bs)
  have last_put: "put b c \<bind> mask_last m = put (b AND m) c" for c
    by (cases c) (auto simp: nth_list_update)
  show ?case
    by (simp add: put_fun last_put)
qed

lemma padding_mask_0 [simp]: "padding_mask 0 = - 1"
  by (simp add: padding_mask_def)

lemma encodeBitString_writes [writer_simps]:
  "bit_byte_size n \<le> length bits \<Longrightarrow>
   BerEncoder_encodeBitString tag n bits c = put_bytes (bit_string_bytes tag n bits) c"
proof -
  assume le: "bit_byte_size n \<le> length bits"
  let ?p = "bit_byte_size n * 8 - n"
  let ?pre = "tag # length_bytes (of_nat (bit_byte_size n + 1)) @ [of_nat ?p]"
  let ?content = "take (bit_byte_size n) bits"
  have all: "BerEncoder_encodeBitString tag n bits c
      = put_bytes (?pre @ ?content) c \<bind> mask_last (padding_mask ?p)"
    using le by (simp add: BerEncoder_encodeBitString_def Let_def writer_simps put_fun
        put_from_eq del: of_nat_add)
  show ?thesis
  proof (cases "?content = []")
    case True
    with le have "bit_byte_size n = 0" by auto
    with bit_byte_size_bounds [of n] have "n = 0" by simp
    with True \<open>bit_byte_size n = 0\<close> show ?thesis
      by (subst all) (simp add: mask_last_put_bytes bit_string_bytes_def bit_content_def butlast_append)
  next
    case False
    then show ?thesis
      by (subst all) (simp add: mask_last_put_bytes bit_string_bytes_def bit_content_def
          butlast_append Let_def)
  qed
qed

text \<open>The predicted size of a bit string is taken from the octet count without the padding
  octet, so it is right except where the padding octet crosses a length boundary.\<close>

definition bit_size_ok :: "nat \<Rightarrow> bool" where
  "bit_size_ok n \<longleftrightarrow> bit_byte_size n \<notin> {127, 255} \<and> bit_byte_size n < 65534"


lemma determineEncodedBitStringSize_ok [size_simps]:
  assumes "bit_byte_size n \<le> length bits" and "bit_size_ok n"
  shows "BerEncoder_determineEncodedBitStringSize n = length (bit_string_bytes tag n bits)"
proof -
  let ?b = "bit_byte_size n"
  have b: "?b < 65534" "?b \<noteq> 127" "?b \<noteq> 255"
    using assms(2) by (auto simp: bit_size_ok_def)
  then have "(of_nat (?b + 1) :: uint32) \<noteq> 65535"
    by (simp add: of_nat32_eq_numeral del: of_nat_add of_nat_Suc)
  moreover have "BerEncoder_determineLengthSize (of_nat (?b + 1))
      = BerEncoder_determineLengthSize (of_nat ?b)"
    using b by (auto simp: BerEncoder_determineLengthSize_def of_nat32_less_numeral
        simp del: of_nat_add of_nat_Suc)
  ultimately show ?thesis
    using assms(1)
    by (simp add: BerEncoder_determineEncodedBitStringSize_def bit_string_bytes_def
        length_bit_content length_length_bytes Let_def del: of_nat_add of_nat_Suc)
qed

section \<open>Integers\<close>

lemma revert_fold_nth:
  assumes "n \<le> length xs" and "k \<le> n div 2"
  defines "a \<equiv> fold (\<lambda>i a. a[i := a ! (n - Suc i), n - Suc i := a ! i]) [0..<k] xs"
  shows "length a = length xs \<and>
    (\<forall>i < length xs. a ! i = (if i < n \<and> (i < k \<or> n - Suc i < k) then xs ! (n - Suc i) else xs ! i))"
  unfolding a_def using assms(2)
proof (induction k)
  case 0
  then show ?case by simp
next
  case (Suc k)
  let ?a = "fold (\<lambda>i a. a[i := a ! (n - Suc i), n - Suc i := a ! i]) [0..<k] xs"
  have k: "k < n - Suc k" "k < length xs" "n - Suc k < length xs"
    using Suc.prems assms(1) by auto
  have len: "length ?a = length xs"
    and nth: "\<And>i. i < length xs \<Longrightarrow>
      ?a ! i = (if i < n \<and> (i < k \<or> n - Suc i < k) then xs ! (n - Suc i) else xs ! i)"
    using Suc by auto
  have ak: "?a ! k = xs ! k" "?a ! (n - Suc k) = xs ! (n - Suc k)"
    using nth [of k] nth [of "n - Suc k"] k by auto
  let ?b = "?a[k := ?a ! (n - Suc k), n - Suc k := ?a ! k]"
  have "?b ! i = (if i < n \<and> (i < Suc k \<or> n - Suc i < Suc k) then xs ! (n - Suc i) else xs ! i)"
    if i: "i < length xs" for i
  proof -
    consider "i = k" | "i = n - Suc k" | "i \<noteq> k" "i \<noteq> n - Suc k" by blast
    then show ?thesis
    proof cases
      case 1
      moreover have "k < n" using k by simp
      ultimately show ?thesis using k len ak by simp
    next
      case 2
      then have "n - Suc i = k" using k by linarith
      then show ?thesis using 2 k len ak by simp
    next
      case 3
      then have "?b ! i = ?a ! i" by simp
      moreover have "i < n \<and> (i < Suc k \<or> n - Suc i < Suc k) \<longleftrightarrow> i < n \<and> (i < k \<or> n - Suc i < k)"
        using 3 by auto
      ultimately show ?thesis by (simp only: nth [OF i])
    qed
  qed
  then show ?case using len by simp
qed

lemma revertByteOrder_rev:
  assumes "n \<le> length xs"
  shows "BerEncoder_revertByteOrder xs n = rev (take n xs) @ drop n xs"
proof (rule nth_equalityI)
  note r = revert_fold_nth [OF assms order_refl]
  show len: "length (BerEncoder_revertByteOrder xs n) = length (rev (take n xs) @ drop n xs)"
    using r assms by (simp add: BerEncoder_revertByteOrder_def)
  fix i assume "i < length (BerEncoder_revertByteOrder xs n)"
  then have i: "i < length xs" using len assms by simp
  have "BerEncoder_revertByteOrder xs n ! i = (if i < n then xs ! (n - Suc i) else xs ! i)"
  proof (cases "i < n \<and> \<not> (i < n div 2 \<or> n - Suc i < n div 2)")
    case True
    then have "n - Suc i = i" by linarith
    with True show ?thesis using r i by (simp add: BerEncoder_revertByteOrder_def)
  next
    case False
    then show ?thesis using r i by (auto simp: BerEncoder_revertByteOrder_def)
  qed
  then show "BerEncoder_revertByteOrder xs n ! i = (rev (take n xs) @ drop n xs) ! i"
    using i assms by (simp add: nth_append rev_nth)
qed

lemma revert_le_bytes [simp]:
  "BerEncoder_revertByteOrder (le_bytes (w :: uint32)) 4 = be_bytes w"
  by (simp add: revertByteOrder_rev be_bytes_def)

lemma compress_scan_less: "bs \<noteq> [] \<Longrightarrow> compress_scan bs < length bs"
  by (induction bs rule: compress_scan.induct) auto

lemma shift_down_fold:
  "k + n \<le> length xs \<Longrightarrow>
   take n (fold (\<lambda>j a. a[j := a ! (j + k)]) [0..<n] xs) = take n (drop k xs) \<and>
   drop n (fold (\<lambda>j a. a[j := a ! (j + k)]) [0..<n] xs) = drop n xs"
proof (induction n)
  case 0
  then show ?case by simp
next
  case (Suc n)
  let ?a = "fold (\<lambda>j a. a[j := a ! (j + k)]) [0..<n] xs"
  have IH: "take n ?a = take n (drop k xs)" "drop n ?a = drop n xs"
    using Suc by auto
  have len: "length ?a = length xs"
    using arg_cong [OF IH(1), of length] arg_cong [OF IH(2), of length] Suc.prems by simp
  have "?a ! (n + k) = drop n ?a ! k" using Suc.prems len by simp
  also have "\<dots> = xs ! (n + k)" using Suc.prems by (simp add: IH(2))
  finally have nth: "?a ! (n + k) = xs ! (n + k)" .
  have "drop (Suc n) ?a = drop (Suc n) xs"
    using IH(2) by (metis drop_Suc tl_drop)
  then show ?case
    using Suc.prems len IH(1) nth
    by (simp add: take_Suc_conv_app_nth add.commute)
qed

text \<open>What the compressed integer is: the input without the redundant leading octets.\<close>

lemma compressInteger_result:
  assumes "n \<le> length xs" and "0 < n"
  shows "snd (BerEncoder_compressInteger xs n) = n - compress_scan (take n xs)"
    and "take (snd (BerEncoder_compressInteger xs n)) (fst (BerEncoder_compressInteger xs n))
      = drop (compress_scan (take n xs)) (take n xs)"
proof -
  let ?k = "compress_scan (take n xs)"
  have "take n xs \<noteq> []" using assms by (metis take_eq_Nil le_zero_eq length_0_conv not_gr_zero)
  then have k: "?k < n" using assms compress_scan_less [of "take n xs"] by simp
  show "snd (BerEncoder_compressInteger xs n) = n - ?k"
    by (simp add: BerEncoder_compressInteger_def Let_def)
  have "take (n - ?k) (fold (\<lambda>j a. a[j := a ! (j + ?k)]) [0..<n - ?k] xs)
      = take (n - ?k) (drop ?k xs)"
    using shift_down_fold [of ?k "n - ?k" xs] assms k by simp
  then show "take (snd (BerEncoder_compressInteger xs n)) (fst (BerEncoder_compressInteger xs n))
      = drop ?k (take n xs)"
    using assms k by (simp add: BerEncoder_compressInteger_def Let_def drop_take)
qed

lemma length_compressInteger:
  "n \<le> length xs \<Longrightarrow> length (fst (BerEncoder_compressInteger xs n)) = length xs"
proof -
  have "length (fold (\<lambda>j a. a[j := a ! (j + k)]) js xs) = length xs" for k js
    by (induction js arbitrary: xs) auto
  then show ?thesis by (simp add: BerEncoder_compressInteger_def Let_def)
qed

text \<open>The content octets of an unsigned 32 bit integer: big endian after a zero octet, with
  the redundant leading octets removed.\<close>

definition uint32_content :: "uint32 \<Rightarrow> byte list" where
  "uint32_content v = drop (compress_scan (0 # be_bytes v)) (0 # be_bytes v)"

definition int32_content :: "uint32 \<Rightarrow> byte list" where
  "int32_content v = drop (compress_scan (be_bytes v)) (be_bytes v)"

lemma put_from_compressed:
  assumes "0 < length xs"
  shows "put_from (fst (BerEncoder_compressInteger xs (length xs)))
      (snd (BerEncoder_compressInteger xs (length xs)))
    = put_bytes (drop (compress_scan xs) xs)"
  using assms compressInteger_result [of "length xs" xs] length_compressInteger [of "length xs" xs]
  by (simp add: put_from_eq)

lemma encodeUInt32_writes [writer_simps]:
  "BerEncoder_encodeUInt32 v c = put_bytes (uint32_content v) c"
  using put_from_compressed [of "0 # be_bytes v"]
  by (simp add: BerEncoder_encodeUInt32_def uint32_content_def split_beta Let_def)


lemma encodeInt32_writes [writer_simps]:
  "BerEncoder_encodeInt32 v c = put_bytes (int32_content v) c"
proof -
  have copy: "fold (\<lambda>i a. a[3 - i := xs ! i]) [0..<4] (replicate 4 0) = rev xs"
    if "length xs = 4" for xs :: "byte list"
  proof -
    from that obtain a b c d where "xs = [a, b, c, d]"
      by (auto simp: numeral_eq_Suc length_Suc_conv)
    moreover have "replicate 4 0 = [0, 0, 0, 0 :: byte]" by (simp add: numeral_eq_Suc)
    moreover have "[0..<4] = [0, 1, 2, 3 :: nat]" by (simp add: upt_rec)
    ultimately show ?thesis by (simp add: eval_nat_numeral)
  qed
  then have "fold (\<lambda>i a. a[3 - i := le_bytes v ! i]) [0..<4] (replicate 4 0) = be_bytes v"
    by (simp add: be_bytes_def)
  then show ?thesis
    using put_from_compressed [of "be_bytes v"]
    by (simp add: BerEncoder_encodeInt32_def int32_content_def split_beta Let_def)
qed

lemma length_uint32_content:
  "length (uint32_content v) = 5 - compress_scan (0 # be_bytes v)"
  by (simp add: uint32_content_def)

lemma uint32_content_bounds: "0 < length (uint32_content v) \<and> length (uint32_content v) \<le> 5"
  using compress_scan_less [of "0 # be_bytes v"] by (simp add: length_uint32_content)

lemma UInt32determineEncodedSize_eq [size_simps]:
  "BerEncoder_UInt32determineEncodedSize v = length (uint32_content v)"
  using compressInteger_result(1) [of 5 "0 # be_bytes v"]
  by (simp add: BerEncoder_UInt32determineEncodedSize_def length_uint32_content)

definition uint32_bytes :: "byte \<Rightarrow> uint32 \<Rightarrow> byte list" where
  "uint32_bytes tag v = tag # of_nat (length (uint32_content v)) # uint32_content v"

lemma encodeUInt32WithTL_writes [writer_simps]:
  "BerEncoder_encodeUInt32WithTL tag v c = put_bytes (uint32_bytes tag v) c"
  using put_from_compressed [of "0 # be_bytes v"] compressInteger_result(1) [of 5 "0 # be_bytes v"]
  by (simp add: BerEncoder_encodeUInt32WithTL_def uint32_bytes_def split_beta Let_def put_fun
      length_uint32_content uint32_content_def)

interpretation uint32_writer: sized_writer
  "\<lambda>(tag, v). BerEncoder_encodeUInt32WithTL tag v" "\<lambda>(tag, v). uint32_bytes tag v" "\<lambda>_. True"
  "\<lambda>(tag, v). Some (2 + BerEncoder_UInt32determineEncodedSize v)" "\<lambda>_. True"
  by unfold_locales (auto simp: writer_simps size_simps uint32_bytes_def)

interpretation octet_writer: ber_writer
  "\<lambda>(tag, s). BerEncoder_encodeOctetString tag s (of_nat (length s))"
  "\<lambda>(tag, s). octet_bytes tag s" "\<lambda>(tag, s). length s < 2 ^ 32"
  by unfold_locales (auto simp: writer_simps)

interpretation bit_writer: sized_writer
  "\<lambda>(tag, n, bits). BerEncoder_encodeBitString tag n bits"
  "\<lambda>(tag, n, bits). bit_string_bytes tag n bits"
  "\<lambda>(tag, n, bits). bit_byte_size n \<le> length bits"
  "\<lambda>(tag, n, bits). Some (BerEncoder_determineEncodedBitStringSize n)"
  "\<lambda>(tag, n, bits). bit_size_ok n"
  by unfold_locales (auto simp: writer_simps intro: size_simps)

section \<open>Floats\<close>

lemma revert_written_put_bytes:
  "put_bytes (x # ys) c \<bind> revert_written (length ys) = put_bytes (x # rev ys) c"
proof (cases c)
  case (Pair buf pos)
  show ?thesis
  proof (cases "pos + length (x # ys) \<le> length buf")
    case True
    then show ?thesis
      using put_bytes_exact [of pos "x # ys" buf] put_bytes_exact [of pos "x # rev ys" buf]
      by (simp add: Pair revertByteOrder_rev del: put_bytes.simps)
  next
    case False
    then have "put_bytes (x # ys) c = None" "put_bytes (x # rev ys) c = None"
      by (simp_all add: Pair put_bytes_None_iff del: put_bytes.simps)
    then show ?thesis by simp
  qed
qed

lemma encodeFloat_writes [writer_simps]:
  "unat w div 8 \<le> length f \<Longrightarrow>
   BerEncoder_encodeFloat f w e c = put_bytes (e # rev (take (unat w div 8) f)) c"
  using revert_written_put_bytes [of e "take (unat w div 8) f" c]
  by (simp add: BerEncoder_encodeFloat_def Let_def put_from_eq)

section \<open>What the content octets denote\<close>

lemma top_bit_iff: "bit (b :: byte) 7 \<longleftrightarrow> 128 \<le> unat b"
proof -
  have "n < 256 \<Longrightarrow> odd (n div 128) \<longleftrightarrow> 128 \<le> n" for n :: nat
    by (cases "n < 128") (simp_all add: le_div_geq)
  from this [of "unat b"] have "bit (unat b) 7 \<longleftrightarrow> 128 \<le> unat b"
    by (simp add: bit_iff_odd)
  then show ?thesis by (simp add: bit_unsigned_iff)
qed

lemma top_bit_byte: "(b :: byte) AND 0x80 = 0 \<longleftrightarrow> unat b < 128"
  using and_exp_eq_0_iff_not_bit [of b 7] by (simp add: top_bit_iff not_le)

lemma top_bit_byte_set: "(b :: byte) AND 0x80 = 0x80 \<longleftrightarrow> 128 \<le> unat b"
proof -
  have "(b AND 2 ^ 7 = 2 ^ 7) = (\<forall>n < 8. bit b n \<and> n = 7 \<longleftrightarrow> n = 7)"
    unfolding bit_eq_iff bit_and_iff bit_exp_iff by auto
  moreover have "(\<forall>n < 8. bit b n \<and> n = 7 \<longleftrightarrow> n = 7) \<longleftrightarrow> bit b 7"
  proof
    assume "\<forall>n < 8. bit b n \<and> n = 7 \<longleftrightarrow> n = 7"
    then have "(7 :: nat) < 8 \<longrightarrow> bit b 7" by blast
    then show "bit b 7" by simp
  qed auto
  ultimately have "b AND 2 ^ 7 = 2 ^ 7 \<longleftrightarrow> bit b 7" by (rule trans)
  then show ?thesis by (simp add: top_bit_iff)
qed

text \<open>The two's complement value of a content octet string.\<close>

definition be_int :: "byte list \<Rightarrow> int" where
  "be_int bs =
     (if bs \<noteq> [] \<and> 128 \<le> unat (hd bs) then int (be_nat bs) - 256 ^ length bs else int (be_nat bs))"

lemma compress_scan_value:
  "be_int (drop (compress_scan bs) bs) = be_int bs"
proof (induction bs rule: compress_scan.induct)
  case (1 b0 b1 bs)
  have b1: "b1 AND 0x80 = 0 \<longleftrightarrow> unat b1 < 128" "b1 AND 0x80 = 0x80 \<longleftrightarrow> 128 \<le> unat b1"
    by (rule top_bit_byte, rule top_bit_byte_set)
  show ?case
    using 1 by (auto simp: b1 be_int_def)
qed auto


lemma be_int_nat: "bs \<noteq> [] \<Longrightarrow> unat (hd bs) < 128 \<Longrightarrow> be_int bs = int (be_nat bs)"
  by (simp add: be_int_def)

lemma hd_compress_zero:
  "bs \<noteq> [] \<Longrightarrow> unat (hd bs) < 128 \<Longrightarrow> unat (hd (drop (compress_scan bs) bs)) < 128"
proof (induction bs rule: compress_scan.induct)
  case (1 b0 b1 bs)
  have "b0 \<noteq> 0xff" using "1.prems" by auto
  then show ?case
    using 1 by (auto simp: top_bit_byte)
qed auto

lemma be_nat_uint32_content: "be_nat (uint32_content v) = unat v"
proof -
  let ?bs = "0 # be_bytes v"
  have ne: "drop (compress_scan ?bs) ?bs \<noteq> []"
    using compress_scan_less [of ?bs] by (simp del: compress_scan.simps)
  have "be_int (drop (compress_scan ?bs) ?bs) = be_int ?bs"
    by (rule compress_scan_value)
  moreover have "unat (hd (drop (compress_scan ?bs) ?bs)) < 128"
    by (rule hd_compress_zero) auto
  ultimately have "be_nat (drop (compress_scan ?bs) ?bs) = be_nat ?bs"
    using ne be_int_nat [of ?bs] be_int_nat [of "drop (compress_scan ?bs) ?bs"] by simp
  then show ?thesis
    by (simp add: uint32_content_def be_nat_be_bytes)
qed

text \<open>No shorter octet string denotes the same number: the encoding is the shortest one.\<close>

definition sbyte :: "byte \<Rightarrow> int" where
  "sbyte b = (if 128 \<le> unat b then int (unat b) - 256 else int (unat b))"

lemma be_int_Cons: "be_int (b # xs) = sbyte b * 256 ^ length xs + int (be_nat xs)"
  by (auto simp: be_int_def sbyte_def algebra_simps)

lemma int_be_nat_less: "int (be_nat xs) < 256 ^ length xs"
  using be_nat_less [of xs] by (metis of_nat_less_iff of_nat_numeral of_nat_power)

lemma sbyte_range: "- 128 \<le> sbyte b" "sbyte b \<le> 127"
  using unat_byte_le [of b] by (auto simp: sbyte_def simp del: of_nat_unat)

lemma be_int_range:
  assumes "bs \<noteq> []"
  shows "- (128 * 256 ^ (length bs - 1)) \<le> be_int bs" and "be_int bs < 128 * 256 ^ (length bs - 1)"
proof -
  obtain b xs where bs: "bs = b # xs" using assms by (cases bs) auto
  define P :: int where "P = 256 ^ length xs"
  have P: "0 < P" "int (be_nat xs) < P" using int_be_nat_less [of xs] by (auto simp: P_def)
  have "- 128 * P \<le> sbyte b * P" "sbyte b * P \<le> 127 * P"
    by (intro mult_right_mono sbyte_range less_imp_le P)+
  moreover have "be_int bs = sbyte b * P + int (be_nat xs)"
    by (simp add: bs be_int_Cons P_def)
  moreover have "(256 :: int) ^ (length bs - 1) = P" by (simp add: bs P_def)
  ultimately show "- (128 * 256 ^ (length bs - 1)) \<le> be_int bs"
    and "be_int bs < 128 * 256 ^ (length bs - 1)"
    using P by linarith+
qed

lemma compress_scan_zero_range:
  assumes "compress_scan (b0 # b1 # bs) = 0"
  shows "be_int (b0 # b1 # bs) < - (128 * 256 ^ length bs) \<or>
    128 * 256 ^ length bs \<le> be_int (b0 # b1 # bs)"
proof -
  define Q :: int where "Q = 256 ^ length bs"
  define s where "s = sbyte b0"
  define u where "u = int (unat b1)"
  define r where "r = int (be_nat bs)"
  have Q: "0 \<le> r" "r < Q" "0 < Q"
    using int_be_nat_less [of bs] by (auto simp: Q_def r_def)
  have u: "0 \<le> u * Q" "u * Q \<le> 255 * Q"
    using unat_byte_le [of b1] Q
    by (auto simp: u_def simp del: of_nat_unat intro!: mult_right_mono)
  have val: "be_int (b0 # b1 # bs) = 256 * (s * Q) + u * Q + r"
    by (simp add: be_int_Cons Q_def s_def u_def r_def algebra_simps)
  have "b0 = 0xff \<longleftrightarrow> unat b0 = 255" unfolding word_unat_eq_iff by simp
  then have b0: "b0 = 0 \<longleftrightarrow> s = 0" "b0 = 0xff \<longleftrightarrow> s = - 1"
    using unat_byte_le [of b0] unat_eq_zero [of b0]
    by (auto simp: s_def sbyte_def simp del: of_nat_unat)
  have "\<not> (s = 0 \<and> u < 128)" "\<not> (s = - 1 \<and> 128 \<le> u)"
    using assms b0 top_bit_byte [of b1] top_bit_byte_set [of b1]
    by (auto simp: u_def simp del: of_nat_unat)
  then consider "s \<le> - 2" | "s = - 1" "u \<le> 127" | "s = 0" "128 \<le> u" | "1 \<le> s"
    by linarith
  then have "be_int (b0 # b1 # bs) < - (128 * Q) \<or> 128 * Q \<le> be_int (b0 # b1 # bs)"
  proof cases
    case 1
    then have "s * Q \<le> - 2 * Q" using Q by (intro mult_right_mono) auto
    then show ?thesis using val u Q by linarith
  next
    case 2
    then have "u * Q \<le> 127 * Q" "s * Q = - Q" using Q by (auto intro: mult_right_mono)
    then show ?thesis using val Q by linarith
  next
    case 3
    then have "128 * Q \<le> u * Q" "s * Q = 0" using Q by (auto intro: mult_right_mono)
    then show ?thesis using val Q by linarith
  next
    case 4
    then have "1 * Q \<le> s * Q" using Q by (intro mult_right_mono) auto
    then show ?thesis using val u Q by linarith
  qed
  then show ?thesis by (simp add: Q_def)
qed

lemma compress_scan_drop: "compress_scan (drop (compress_scan bs) bs) = 0"
  by (induction bs rule: compress_scan.induct) auto

lemma compress_shortest:
  assumes "bs \<noteq> []" and "xs \<noteq> []" and same: "be_int xs = be_int bs"
  shows "length (drop (compress_scan bs) bs) \<le> length xs"
proof (rule ccontr)
  let ?c = "drop (compress_scan bs) bs"
  assume "\<not> ?thesis"
  then have longer: "length xs < length ?c" by simp
  then obtain b0 b1 cs where c: "?c = b0 # b1 # cs"
    using assms(2) by (cases ?c; cases "tl ?c") auto
  have scan: "compress_scan (b0 # b1 # cs) = 0"
    using compress_scan_drop [of bs] by (simp only: c)
  have val: "be_int (b0 # b1 # cs) = be_int xs"
    using compress_scan_value [of bs] same by (simp only: c)
  have "(256 :: int) ^ (length xs - 1) \<le> 256 ^ length cs"
    using longer by (intro power_increasing) (auto simp: c)
  then show False
    using compress_scan_zero_range [OF scan] be_int_range [OF assms(2)] val by linarith
qed

section \<open>Properties\<close>

text \<open>A string encoder call that has the room the size function asks for writes exactly the
  tag, the length field and the characters, and changes no other byte of the buffer.\<close>

theorem encodeString_exact:
  assumes "0 \<notin> set s" and "length s < 65535"
    and "BerEncoder_determineEncodedStringSize (Some (c_str s)) = Some n"
    and "pos + n \<le> length buf"
  shows "BerEncoder_encodeStringWithTag tag (Some (c_str s)) (buf, pos)
    = Some (take pos buf @ tag # length_bytes (of_nat (length s)) @ s @ drop (pos + n) buf, pos + n)"
  using string_writer.sized_exact [of "(tag, s)" n pos buf] assms
  by (simp add: string_bytes_def)

theorem encodeString_exact_witness:
  "BerEncoder_encodeStringWithTag 0x80 (Some (c_str [0x41, 0x42])) ([9, 9, 9, 9, 9, 9], 1)
    = Some ([9, 0x80, 2, 0x41, 0x42, 9], 5)"
  using encodeString_exact [of "[0x41, 0x42]" 4 1 "[9, 9, 9, 9, 9, 9]" "0x80"]
  by (simp add: BerEncoder_determineEncodedStringSize_def BerEncoder_determineLengthSize_def
      length_bytes_def c_str_def)

text \<open>The size predicted for a bit string is the number of bytes the encoder writes, for
  bit strings of less than 65534 content bytes, except where the padding octet carries the
  length of the content over a length-field boundary: 127 and 255 content bytes.\<close>

theorem bit_string_size_exact:
  assumes "bit_byte_size n \<le> length bits" and "bit_byte_size n < 65534"
    and "BerEncoder_encodeBitString tag n bits (buf, pos) = Some (buf', pos')"
  shows "pos' = pos + BerEncoder_determineEncodedBitStringSize n \<longleftrightarrow> bit_byte_size n \<notin> {127, 255}"
proof -
  have pos': "pos' = pos + length (bit_string_bytes tag n bits)"
    using assms(1,3) put_bytes_SomeD by (simp add: writer_simps)
  show ?thesis
  proof (cases "bit_size_ok n")
    case True
    then show ?thesis
      using pos' determineEncodedBitStringSize_ok [OF assms(1) True, of tag] by (auto simp: bit_size_ok_def)
  next
    case False
    then have b: "bit_byte_size n = 127 \<or> bit_byte_size n = 255" using assms(2) by (auto simp: bit_size_ok_def)
    then show ?thesis
      using pos' assms(1)
      by (auto simp: bit_string_bytes_def length_bit_content length_bytes_def
          BerEncoder_determineEncodedBitStringSize_def BerEncoder_determineLengthSize_def)
  qed
qed

theorem bit_string_size_exact_witness:
  "BerEncoder_encodeBitString 0x84 13 [0xab, 0xff] ([1, 1, 1, 1, 1, 1], 0)
    = Some ([0x84, 3, 3, 0xab, 0xf8, 1], 0 + BerEncoder_determineEncodedBitStringSize 13)"
proof -
  have size13: "bit_byte_size 13 = 2" by (simp add: bit_byte_size_def)
  have enc: "BerEncoder_encodeBitString 0x84 13 [0xab, 0xff] ([1, 1, 1, 1, 1, 1], 0)
      = Some ([0x84, 3, 3, 0xab, 0xf8, 1], 5)"
    by code_simp
  show ?thesis
    using bit_string_size_exact [OF _ _ enc] enc by (simp add: size13)
qed

text \<open>C26. The integer compression keeps the two's complement value and leaves the shortest octet
  string that denotes it.\<close>

theorem compressInteger_shortest:
  assumes "0 < n" and "n \<le> length integer"
  shows "let (integer', n') = BerEncoder_compressInteger integer n in
    n' \<le> n \<and> be_int (take n' integer') = be_int (take n integer) \<and>
    (\<forall>xs. xs \<noteq> [] \<longrightarrow> be_int xs = be_int (take n integer) \<longrightarrow> n' \<le> length xs)"
proof -
  let ?bs = "take n integer"
  have ne: "?bs \<noteq> []" using assms by (cases integer) auto
  have r: "snd (BerEncoder_compressInteger integer n) = n - compress_scan ?bs"
      "take (snd (BerEncoder_compressInteger integer n)) (fst (BerEncoder_compressInteger integer n))
        = drop (compress_scan ?bs) ?bs"
    using compressInteger_result [OF assms(2,1)] by auto
  have len: "length (drop (compress_scan ?bs) ?bs) = n - compress_scan ?bs" using assms by simp
  have "n - compress_scan ?bs \<le> length xs" if "xs \<noteq> []" "be_int xs = be_int ?bs" for xs
    using compress_shortest [OF ne that] len by simp
  then show ?thesis
    using r compress_scan_value [of ?bs] by (simp add: split_beta)
qed

theorem compressInteger_shortest_witness:
  "let (integer', n') = BerEncoder_compressInteger [0xff, 0xff, 0x80, 0x01] 4 in
    n' = 2 \<and> take n' integer' = [0x80, 0x01] \<and> n' \<le> 4"
proof -
  have run: "BerEncoder_compressInteger [0xff, 0xff, 0x80, 0x01] 4 = ([0x80, 0x01, 0x80, 0x01], 2)"
    by code_simp
  show ?thesis
    using compressInteger_shortest [of 4 "[0xff, 0xff, 0x80, 0x01]"] by (simp add: run)
qed

end
