(* ===== verification/Ber_Decode.thy ===== *)
theory Ber_Decode
  imports Ber_Encoder
begin

text \<open>
  The BER decoder, \<open>src/mms/asn1/ber_decode.cc\<close>. Positions are C++ \<open>int\<close>s and a failed decode
  is the position \<open>-1\<close>, as in the source; a read outside the buffer is \<open>None\<close>. The length decoder
  is shown to stay inside \<open>maxBufPos\<close> on every input, to make progress, and to invert the
  encoder's length field.
\<close>

section \<open>Length fields\<close>

text \<open>The loop over the octets of a long-form length. The position \<open>-1\<close> is its early return.\<close>

fun length_octets :: "nat \<Rightarrow> buffer \<Rightarrow> int \<Rightarrow> int \<Rightarrow> int \<Rightarrow> (int \<times> int) option" where
  "length_octets 0 buf bufPos maxBufPos len = Some (bufPos, len)"
| "length_octets (Suc i) buf bufPos maxBufPos len =
     (if maxBufPos \<le> bufPos then Some (- 1, len)
      else if maxBufPos < bufPos + len then Some (- 1, len)
      else do {
        b \<leftarrow> rd buf bufPos;
        length_octets i buf (bufPos + 1) maxBufPos (int32 (int32 (len * 256) + uint b)) })"

text \<open>
  \<open>BerDecoder_decodeLengthRecursive\<close> over an arbitrary \<open>getIndefiniteLength\<close>; the recursion is
  closed below. The argument \<open>len\<close> is the \<open>*length\<close> the caller passed in.
\<close>

definition decode_length_step ::
    "(int \<Rightarrow> int \<Rightarrow> int option) \<Rightarrow> buffer \<Rightarrow> int \<Rightarrow> int \<Rightarrow> int \<Rightarrow> (int \<times> int) option" where
  "decode_length_step indefinite buf len bufPos maxBufPos =
     (if maxBufPos \<le> bufPos then Some (- 1, len)
      else do {
        len1 \<leftarrow> rd buf bufPos;
        (bufPos, len) \<leftarrow>
          (if len1 AND 0x80 \<noteq> 0
           then let lenLength = unat (len1 AND 0x7f) in
             if lenLength = 0
             then do { l \<leftarrow> indefinite (bufPos + 1) maxBufPos; Some (bufPos + 1, l) }
             else length_octets lenLength buf (bufPos + 1) maxBufPos 0
           else Some (bufPos + 1, uint len1));
        if bufPos = - 1 then Some (- 1, len)
        else if len < 0 then Some (- 1, len)
        else if maxBufPos < len then Some (- 1, len)
        else if maxBufPos < bufPos + len then Some (- 1, len)
        else Some (bufPos, len) })"

lemma length_octets_pos:
  "length_octets n buf p m l = Some (p', l') \<Longrightarrow> p' \<noteq> - 1 \<Longrightarrow> p \<le> p'"
  by (induction n buf p m l rule: length_octets.induct)
    (fastforce split: if_splits Option.bind_splits)+

text \<open>Progress, and the element the caller will read lies below \<open>maxBufPos\<close>.\<close>

lemma decode_length_step_progress:
  assumes "decode_length_step ind buf len p m = Some (p', len')" and "p' \<noteq> - 1"
  shows "0 \<le> p \<and> p < p' \<and> 0 \<le> len' \<and> p' + len' \<le> m"
  using assms
  by (auto simp: decode_length_step_def Let_def rd_Some_iff
      split: if_splits Option.bind_splits dest!: length_octets_pos)

text \<open>The scan of an indefinite-length value up to its end-of-contents octets.\<close>

function indefinite_loop ::
    "(int \<Rightarrow> int \<Rightarrow> int option) \<Rightarrow> buffer \<Rightarrow> int \<Rightarrow> int \<Rightarrow> int \<Rightarrow> int option" where
  "indefinite_loop indefinite buf bufPos maxBufPos len =
     (if bufPos < maxBufPos then do {
        b0 \<leftarrow> rd buf bufPos;
        b1 \<leftarrow> (if b0 = 0 \<and> bufPos + 1 < maxBufPos then rd buf (bufPos + 1) else Some 0xff);
        if b0 = 0 \<and> b1 = 0 then Some (len + 2)
        else do {
          let len = len + 1;
          let (bufPos, len) =
            (if b0 AND 0x1f = 0x1f then (bufPos + 2, len + 1) else (bufPos + 1, len));
          (newBufPos, subLength) \<leftarrow> decode_length_step indefinite buf (- 1) bufPos maxBufPos;
          if newBufPos = - 1 then Some (- 1)
          else indefinite_loop indefinite buf (newBufPos + subLength) maxBufPos
                 (len + (subLength + newBufPos - bufPos)) } }
      else Some (- 1))"
  by pat_completeness auto
termination
  by (relation "measure (\<lambda>(ind, buf, p, m, l). nat (m - p))")
    (auto dest!: decode_length_step_progress split: if_splits)

declare indefinite_loop.simps [simp del]

text \<open>
  The nesting bound: the source counts \<open>depth\<close> up to \<open>maxDepth\<close>, the model counts the levels
  that are left, \<open>maxDepth - depth\<close>, down to 0.
\<close>

primrec getIndefiniteLength :: "nat \<Rightarrow> buffer \<Rightarrow> int \<Rightarrow> int \<Rightarrow> int option" where
  "getIndefiniteLength 0 buf bufPos maxBufPos = Some (- 1)"
| "getIndefiniteLength (Suc levels) buf bufPos maxBufPos =
     indefinite_loop (getIndefiniteLength levels buf) buf bufPos maxBufPos 0"

definition BerDecoder_decodeLengthRecursive ::
    "nat \<Rightarrow> buffer \<Rightarrow> int \<Rightarrow> int \<Rightarrow> int \<Rightarrow> (int \<times> int) option" where
  "BerDecoder_decodeLengthRecursive levels buf len bufPos maxBufPos =
     decode_length_step (getIndefiniteLength levels buf) buf len bufPos maxBufPos"

definition BerDecoder_decodeLength :: "buffer \<Rightarrow> int \<Rightarrow> int \<Rightarrow> int \<Rightarrow> (int \<times> int) option" where
  "BerDecoder_decodeLength buf len bufPos maxBufPos =
     BerDecoder_decodeLengthRecursive 50 buf len bufPos maxBufPos"

lemma decodeLength_progress:
  assumes "BerDecoder_decodeLength buf len p m = Some (p', len')" and "p' \<noteq> - 1"
  shows "0 \<le> p \<and> p < p' \<and> 0 \<le> len' \<and> p' + len' \<le> m"
  using assms decode_length_step_progress
  unfolding BerDecoder_decodeLength_def BerDecoder_decodeLengthRecursive_def by blast

section \<open>Values\<close>

text \<open>The loop \<open>value <<= 8; value += buffer[bufPos + i]\<close>, at the width of \<open>value\<close>.\<close>

fun shift_in :: "nat \<Rightarrow> buffer \<Rightarrow> int \<Rightarrow> 'a::len word \<Rightarrow> 'a word option" where
  "shift_in 0 buf i value = Some value"
| "shift_in (Suc n) buf i value = do {
     b \<leftarrow> rd buf i;
     shift_in n buf (i + 1) (push_bit 8 value + ucast b) }"

definition BerDecoder_decodeUint32 :: "buffer \<Rightarrow> int \<Rightarrow> int \<Rightarrow> uint32 option" where
  "BerDecoder_decodeUint32 buf intLen bufPos = shift_in (nat intLen) buf bufPos 0"

definition BerDecoder_decodeInt32 :: "buffer \<Rightarrow> int \<Rightarrow> int \<Rightarrow> uint32 option" where
  "BerDecoder_decodeInt32 buf intlen bufPos = do {
     b \<leftarrow> rd buf bufPos;
     let value = (if b AND 0x80 = 0x80 then - 1 else 0);
     shift_in (nat intlen) buf bufPos value }"

definition BerDecoder_decodeBoolean :: "buffer \<Rightarrow> int \<Rightarrow> bool option" where
  "BerDecoder_decodeBoolean buf bufPos = do { b \<leftarrow> rd buf bufPos; Some (b \<noteq> 0) }"

text \<open>
  A \<open>float\<close> or \<open>double\<close> is modelled by its object representation, the bytes of the value in
  memory order: the decoder fills them from the last to the first.
\<close>

definition BerDecoder_decodeFloat :: "buffer \<Rightarrow> int \<Rightarrow> byte list option" where
  "BerDecoder_decodeFloat buf bufPos = do {
     bs \<leftarrow> rd_bytes buf (bufPos + 1) 4;
     Some (rev bs) }"

definition BerDecoder_decodeDouble :: "buffer \<Rightarrow> int \<Rightarrow> byte list option" where
  "BerDecoder_decodeDouble buf bufPos = do {
     bs \<leftarrow> rd_bytes buf (bufPos + 1) 8;
     Some (rev bs) }"

text \<open>The outer option is the fault, the inner one the \<open>NULL\<close> result.\<close>

definition BerDecoder_decodeString ::
    "buffer \<Rightarrow> int \<Rightarrow> int \<Rightarrow> int \<Rightarrow> byte list option option" where
  "BerDecoder_decodeString buf strLen bufPos maxBufPos =
     (if maxBufPos - bufPos < 0 then Some None
      else do { bs \<leftarrow> rd_bytes buf bufPos strLen; Some (Some (bs @ [0])) })"


section \<open>The decoder never reads outside its bounds\<close>

lemma length_octets_defined:
  "0 \<le> p \<Longrightarrow> m \<le> int (length buf) \<Longrightarrow> length_octets n buf p m l \<noteq> None"
  by (induction n buf p m l rule: length_octets.induct) (auto simp: rd_def)

lemma decode_length_step_defined:
  assumes "0 \<le> p" and "m \<le> int (length buf)"
    and "\<And>q. 0 \<le> q \<Longrightarrow> ind q m \<noteq> None"
  shows "decode_length_step ind buf l p m \<noteq> None"
proof (cases "m \<le> p")
  case True
  then show ?thesis by (simp add: decode_length_step_def)
next
  case False
  then obtain b where b: "rd buf p = Some b" using assms rd_defined [of p buf] by auto
  have "\<exists>r. length_octets (unat (b AND 0x7f)) buf (p + 1) m 0 = Some r"
    using length_octets_defined [of "p + 1" m buf] assms by fastforce
  moreover have "\<exists>r. ind (p + 1) m = Some r"
    using assms(1) assms(3) [of "p + 1"] by fastforce
  ultimately show ?thesis
    using False b by (auto simp: decode_length_step_def Let_def split: prod.splits)
qed

lemma indefinite_loop_defined:
  assumes "m \<le> int (length buf)" and "\<And>q. 0 \<le> q \<Longrightarrow> ind q m \<noteq> None"
  shows "0 \<le> p \<Longrightarrow> indefinite_loop ind buf p m l \<noteq> None"
  using assms
proof (induction ind buf p m l rule: indefinite_loop.induct)
  case (1 ind buf p m l)
  show ?case
  proof (cases "p < m")
    case False
    then show ?thesis by (simp add: indefinite_loop.simps [of ind buf p m l])
  next
    case True
    then obtain b0 where b0: "rd buf p = Some b0"
      using 1 rd_defined [of p buf] by fastforce
    obtain b1 where b1: "(if b0 = 0 \<and> p + 1 < m then rd buf (p + 1) else Some 0xff) = Some b1"
      using 1 rd_defined [of "p + 1" buf] by fastforce
    define q where "q = (if b0 AND 0x1f = 0x1f then p + 2 else p + 1)"
    obtain p' l' where step: "decode_length_step ind buf (- 1) q m = Some (p', l')"
      using decode_length_step_defined [of q m buf ind "- 1"] 1 by (fastforce simp: q_def)
    show ?thesis
    proof (cases "b0 = 0 \<and> b1 = 0 \<or> p' = - 1")
      case True
      then show ?thesis
        using \<open>p < m\<close> b0 b1 step
        by (auto simp: indefinite_loop.simps [of ind buf p m l] Let_def q_def split: if_splits)
    next
      case False
      then have "0 \<le> p' + l'"
        using decode_length_step_progress [OF step] by auto
      then show ?thesis
        using False \<open>p < m\<close> b0 b1 step "1.IH" [OF \<open>p < m\<close> b0 b1] "1.prems"
        by (subst indefinite_loop.simps) (auto simp: Let_def q_def split: if_splits)
    qed
  qed
qed

lemma getIndefiniteLength_defined:
  "m \<le> int (length buf) \<Longrightarrow> 0 \<le> p \<Longrightarrow> getIndefiniteLength n buf p m \<noteq> None"
proof (induction n arbitrary: p)
  case 0
  then show ?case by simp
next
  case (Suc n)
  then show ?case
    using indefinite_loop_defined [of m buf "getIndefiniteLength n buf" p] by simp
qed

lemma decodeLength_defined:
  assumes "0 \<le> p" and "m \<le> int (length buf)"
  shows "\<exists>p' l'. BerDecoder_decodeLength buf l p m = Some (p', l')"
  using decode_length_step_defined [of p m buf "getIndefiniteLength 50 buf" l]
    getIndefiniteLength_defined [of m buf] assms
  by (fastforce simp: BerDecoder_decodeLength_def BerDecoder_decodeLengthRecursive_def)


section \<open>Overflow\<close>

text \<open>
  The sums and shifts above are on \<open>int\<close>s of the source. The same two loops with each of them checked, where an
  overflow is undefined, and why the unchecked ones stand for them: in a message of at most 4 MiB nothing overflows
  (the receivers pass messages of at most 1518 octets).
\<close>

fun length_octets_checked :: "nat \<Rightarrow> buffer \<Rightarrow> int \<Rightarrow> int \<Rightarrow> int \<Rightarrow> (int \<times> int) option" where
  "length_octets_checked 0 buf bufPos maxBufPos len = Some (bufPos, len)"
| "length_octets_checked (Suc i) buf bufPos maxBufPos len =
     (if maxBufPos \<le> bufPos then Some (- 1, len)
      else do {
        behind \<leftarrow> in_int (bufPos + len);
        if maxBufPos < behind then Some (- 1, len)
        else do {
          len \<leftarrow> in_int (len * 256);
          b \<leftarrow> rd buf bufPos;
          len \<leftarrow> in_int (len + uint b);
          bufPos \<leftarrow> in_int (bufPos + 1);
          length_octets_checked i buf bufPos maxBufPos len } })"

definition decode_length_step_checked ::
    "(int \<Rightarrow> int \<Rightarrow> int option) \<Rightarrow> buffer \<Rightarrow> int \<Rightarrow> int \<Rightarrow> int \<Rightarrow> (int \<times> int) option" where
  "decode_length_step_checked indefinite buf len bufPos maxBufPos =
     (if maxBufPos \<le> bufPos then Some (- 1, len)
      else do {
        len1 \<leftarrow> rd buf bufPos;
        start \<leftarrow> in_int (bufPos + 1);
        (bufPos, len) \<leftarrow>
          (if len1 AND 0x80 \<noteq> 0
           then let lenLength = unat (len1 AND 0x7f) in
             if lenLength = 0
             then do { l \<leftarrow> indefinite start maxBufPos; Some (start, l) }
             else length_octets_checked lenLength buf start maxBufPos 0
           else Some (start, uint len1));
        if bufPos = - 1 then Some (- 1, len)
        else if len < 0 then Some (- 1, len)
        else if maxBufPos < len then Some (- 1, len)
        else do {
          behind \<leftarrow> in_int (bufPos + len);
          if maxBufPos < behind then Some (- 1, len) else Some (bufPos, len) } })"

lemma length_octets_no_overflow:
  "0 \<le> p \<Longrightarrow> 0 \<le> l \<Longrightarrow> l < 2 ^ 31 - 2 ^ 22 \<Longrightarrow> m \<le> 2 ^ 22 \<Longrightarrow>
   length_octets_checked n buf p m l = length_octets n buf p m l"
proof (induction n arbitrary: p l)
  case (Suc n)
  show ?case
  proof (cases "m \<le> p \<or> m < p + l")
    case True
    have "p < m \<Longrightarrow> in_int (p + l) = Some (p + l)" using Suc.prems by (intro in_int_ok) simp_all
    then show ?thesis using True by (cases "p < m") simp_all
  next
    case False
    have r: "in_int (p + l) = Some (p + l)" "in_int (l * 256) = Some (l * 256)" "in_int (p + 1) = Some (p + 1)"
      using Suc.prems False by (intro in_int_ok; simp)+
    have "in_int x = Some x \<and> int32 (int32 (l * 256) + uint b) = x \<and>
        length_octets_checked n buf (p + 1) m x = length_octets n buf (p + 1) m x" if x: "x = l * 256 + uint b" for x and b :: byte
    proof -
      have b: "uint b < 256" "0 \<le> uint b" using unsigned_less [of b] by simp_all
      have "l * 256 \<le> 2 ^ 22 * 256" using Suc.prems False by simp
      then have x_range: "0 \<le> x" "x < 2 ^ 31 - 2 ^ 22" using x b Suc.prems(2) by simp_all
      have "int32 (l * 256) = l * 256" using Suc.prems False by (intro int32_id) simp_all
      moreover have "int32 x = x" using x_range by (intro int32_id) simp_all
      moreover have "in_int x = Some x" using x_range by (intro in_int_ok) simp_all
      moreover have "length_octets_checked n buf (p + 1) m x = length_octets n buf (p + 1) m x"
        by (rule Suc.IH) (use Suc.prems x_range in simp_all)
      ultimately show ?thesis using x by metis
    qed
    then show ?thesis using False r by (cases "rd buf p") simp_all
  qed
qed simp

lemma length_octets_below:
  "length_octets n buf p m l = Some (p', l') \<Longrightarrow> p \<le> m \<Longrightarrow> p' \<le> m \<or> p' = - 1"
  by (induction n buf p m l rule: length_octets.induct) (auto split: if_splits Option.bind_splits)

lemma decode_length_no_overflow:
  assumes "0 \<le> p" and "m \<le> 2 ^ 22"
  shows "decode_length_step_checked ind buf len p m = decode_length_step ind buf len p m"
proof (cases "m \<le> p")
  case False
  have start: "in_int (p + 1) = Some (p + 1)" using assms False by (intro in_int_ok) simp_all
  have octets: "length_octets_checked n buf (p + 1) m 0 = length_octets n buf (p + 1) m 0" for n
    by (rule length_octets_no_overflow) (use assms in simp_all)
  have behind: "in_int (p' + l') = Some (p' + l')" if "p' \<le> m" "0 \<le> p'" "0 \<le> l'" "l' \<le> m" for p' l'
    using that assms by (intro in_int_ok) simp_all
  have after: "length_octets n buf (p + 1) m 0 = Some (p', l') \<Longrightarrow> p' = - 1 \<or> 0 \<le> p' \<and> p' \<le> m" for n p' l'
    using length_octets_below [of n buf "p + 1" m 0 p' l'] length_octets_pos [of n buf "p + 1" m 0 p' l'] assms(1) False by auto
  show ?thesis
    using False assms(1) unfolding decode_length_step_checked_def decode_length_step_def Let_def
    by (auto simp: start octets behind split: Option.bind_splits dest!: after)
qed (simp add: decode_length_step_checked_def decode_length_step_def)

text \<open>A length field of two octets and one of a single octet, wherever they are.\<close>

lemma long_length:
  assumes "0 \<le> p" and "rd buf p = Some 0x82" and "rd buf (p + 1) = Some a" and "rd buf (p + 2) = Some b"
    and "p + 3 + (uint a * 256 + uint b) \<le> m"
  shows "BerDecoder_decodeLength buf l p m = Some (p + 3, uint a * 256 + uint b)"
proof -
  have ab: "0 \<le> uint a" "uint a < 256" "0 \<le> uint b" "uint b < 256" using unsigned_less [of a] unsigned_less [of b] by simp_all
  then have id: "int32 (uint a) = uint a" "int32 (uint a * 256) = uint a * 256" "int32 (uint a * 256 + uint b) = uint a * 256 + uint b"
      "int32 (uint b) = uint b" by (intro int32_id; linarith)+
  have m: "\<not> m \<le> p" "\<not> m \<le> p + 1" "\<not> m < p + 1" "\<not> m \<le> p + 2" "\<not> m < p + (2 + uint a)" "\<not> m < p + (3 + (uint a * 256 + uint b))"
      "\<not> m < uint a * 256 + uint b" "\<not> uint a * 256 + uint b < 0"
    using assms(1,5) ab by linarith+
  have "length_octets (Suc (Suc 0)) buf (p + 1) m 0 = Some (p + 3, uint a * 256 + uint b)"
    using assms(1-4) ab(1,3) id m by (simp add: add.assoc)
  then show ?thesis
    using assms(1-4) ab(1,3) m unfolding BerDecoder_decodeLength_def BerDecoder_decodeLengthRecursive_def decode_length_step_def
    by (simp add: numeral_2_eq_2 [symmetric] add.assoc)
qed

lemma short_length_field:
  assumes "0 \<le> p" and "rd buf p = Some c" and "c < 0x80" and "p + 1 + uint c \<le> m"
  shows "BerDecoder_decodeLength buf l p m = Some (p + 1, uint c)"
proof -
  have "c AND 0x80 = 0" using assms(3) by (simp add: top_bit_byte word_less_nat_alt)
  moreover have "0 \<le> uint c" by simp
  then have "p < m" using assms(4) by linarith
  ultimately show ?thesis
    using assms unfolding BerDecoder_decodeLength_def BerDecoder_decodeLengthRecursive_def decode_length_step_def by simp
qed

section \<open>Decoding what the encoder wrote\<close>

lemma length_octets_be:
  assumes "p = int (length pre)" and "0 \<le> l" and "m < 2 ^ 23"
    and "p + int (length bs) + (l * 256 ^ length bs + int (be_nat bs)) \<le> m"
  shows "length_octets (length bs) (pre @ bs @ rest) p m l
    = Some (p + int (length bs), l * 256 ^ length bs + int (be_nat bs))"
  using assms
proof (induction bs arbitrary: pre p l)
  case Nil
  then show ?case by simp
next
  case (Cons b bs)
  let ?l = "l * 256 + uint b"
  define P :: int where "P = 256 ^ length bs"
  have P: "1 \<le> P" by (simp add: P_def)
  have val: "l * 256 ^ length (b # bs) + int (be_nat (b # bs)) = ?l * P + int (be_nat bs)"
    by (simp add: P_def algebra_simps)
  have l: "0 \<le> ?l" using Cons.prems(2) by simp
  have "?l * 1 \<le> ?l * P" using l P by (intro mult_left_mono) auto
  then have lm: "p + 1 + ?l \<le> m"
    using Cons.prems(4) unfolding val by simp
  have ub: "0 \<le> uint b" "uint b \<le> 255"
    using uint_byte_le [of b] by simp_all
  have "m < 8388608" "0 \<le> p" using Cons.prems(1,3) by simp_all
  then have bounds: "p < m" "p + l \<le> m" "l * 256 < 2147483648" "?l < 2147483648"
    using lm Cons.prems(2) ub by linarith+
  have "rd (pre @ b # bs @ rest) p = Some b" using Cons.prems(1) by (simp add: rd_at)
  moreover have "length_octets (length bs) ((pre @ [b]) @ bs @ rest) (p + 1) m ?l
      = Some (p + 1 + int (length bs), ?l * 256 ^ length bs + int (be_nat bs))"
    by (rule Cons.IH) (use Cons.prems(1,3,4) l in \<open>auto simp: algebra_simps\<close>)
  moreover have "int32 (l * 256) = l * 256"
    by (rule int32_id) (use bounds Cons.prems(2) in linarith)+
  moreover have "int32 ?l = ?l"
    by (rule int32_id) (use bounds l in linarith)+
  ultimately show ?case
    using bounds unfolding val by (simp add: P_def)
qed

text \<open>The value the length field carries: the encoder keeps only the low 24 bits.\<close>

lemma unat_low_byte: "unat (ucast (w :: uint32) :: byte) = unat w mod 256"
  using unat_byte_of_word [of 0 w] by simp

lemma unat_and_ffff: "unat ((w :: uint32) AND 0xffff) = unat w mod 65536"
proof -
  have "w AND 0xffff = take_bit 16 w" by (simp add: take_bit_eq_mask mask_eq_exp_minus_1)
  then show ?thesis by (simp add: take_bit_eq_mod unat_mod)
qed

lemma split_24: "(N :: nat) < 16777216 \<Longrightarrow>
    N div 65536 mod 256 * 65536 + (N mod 65536 div 256 mod 256 * 256 + N mod 256) = N"
proof -
  assume N: "N < 16777216"
  have "N div 65536 < 256" using N by (simp add: less_mult_imp_div_less)
  moreover have "N mod 65536 div 256 < 256"
    using mod_less_divisor [of 65536 N] by (simp add: less_mult_imp_div_less)
  moreover have "N mod 65536 mod 256 = N mod 256" by (simp add: mod_mod_cancel)
  ultimately show ?thesis
    using div_mult_mod_eq [of N 65536] div_mult_mod_eq [of "N mod 65536" 256] by simp
qed

lemma be_nat_length_bytes:
  assumes "\<not> n < 128" and "unat n < 2 ^ 24"
  obtains k bs where "length_bytes n = (0x80 + of_nat k) # bs" and "length bs = k"
    and "1 \<le> k" and "k \<le> 3" and "be_nat bs = unat n"
proof -
  have N: "unat n < 16777216" using assms(2) by simp
  consider "n < 256" | "\<not> n < 256" "n < 65535" | "\<not> n < 256" "\<not> n < 65535" by blast
  then show thesis
  proof cases
    case 1
    with assms(1) show thesis
      by (intro that [of 1 "[ucast n]"]) (simp_all add: length_bytes_def unat_low_byte word_less_nat_alt)
  next
    case 2
    have "unat n div 256 < 256" using 2(2) by (simp add: word_less_nat_alt less_mult_imp_div_less)
    with 2 assms(1) show thesis
      by (intro that [of 2 "[ucast (n div 256), ucast (n mod 256)]"])
        (simp_all add: length_bytes_def unat_low_byte unat_div unat_mod)
  next
    case 3
    with assms(1) show thesis
      using split_24 [OF N]
      by (intro that [of 3 "[ucast (n div 0x10000), ucast ((n AND 0xffff) div 0x100), ucast (n mod 256)]"])
        (simp_all add: length_bytes_def unat_low_byte unat_div unat_mod unat_and_ffff)
  qed
qed

lemma long_form_octet:
  assumes "1 \<le> k" and "k \<le> 3"
  shows "(0x80 + of_nat k :: byte) AND 0x80 \<noteq> 0 \<and> unat ((0x80 + of_nat k :: byte) AND 0x7f) = k"
proof -
  from assms have "k = 1 \<or> k = 2 \<or> k = 3" by linarith
  then show ?thesis by (elim disjE) simp_all
qed

lemma length_bytes_decoded:
  assumes n: "unat n < 2 ^ 24"
    and p: "p = int (length pre)"
    and m: "p + int (length (length_bytes n)) + uint n \<le> m"
    and l: "m < 2 ^ 23"
  shows "BerDecoder_decodeLength (pre @ length_bytes n @ rest) len p m
    = Some (p + int (length (length_bytes n)), uint n)"
proof -
  have "0 < length (length_bytes n)" "0 \<le> uint n" by simp_all
  then have pm: "p < m" using m by linarith
  show ?thesis
  proof (cases "n < 128")
    case True
    then have "length_bytes n = [ucast n]" "unat (ucast n :: byte) = unat n"
      by (simp_all add: length_bytes_def unat_low_byte word_less_nat_alt)
    moreover from this have "(ucast n :: byte) AND 0x80 = 0" "uint (ucast n :: byte) = uint n"
      using True by (simp add: top_bit_byte word_less_nat_alt, metis of_nat_unat)
    ultimately show ?thesis
      using p m pm by (simp add: BerDecoder_decodeLength_def BerDecoder_decodeLengthRecursive_def
          decode_length_step_def)
  next
    case False
    then obtain k bs where k: "length_bytes n = (0x80 + of_nat k) # bs" "length bs = k"
        "1 \<le> k" "k \<le> 3" "be_nat bs = unat n"
      using be_nat_length_bytes [OF False n] by blast
    have b: "(0x80 + of_nat k :: byte) AND 0x80 \<noteq> 0" "unat ((0x80 + of_nat k :: byte) AND 0x7f) = k"
      using k(3,4) long_form_octet [of k] by auto
    have "length_octets (length bs) ((pre @ [0x80 + of_nat k]) @ bs @ rest) (p + 1) m 0
        = Some (p + 1 + int (length bs), 0 * 256 ^ length bs + int (be_nat bs))"
      by (rule length_octets_be) (use p m l k in \<open>auto\<close>)
    then show ?thesis
      using p m b k pm
      by (simp add: BerDecoder_decodeLength_def BerDecoder_decodeLengthRecursive_def
          decode_length_step_def Let_def)
  qed
qed


lemma shift_in_be:
  "p = int (length pre) \<Longrightarrow>
   shift_in (length bs) (pre @ bs @ rest) p (word_of_int v :: 'a::len word)
     = Some (word_of_int (v * 256 ^ length bs + int (be_nat bs)))"
proof (induction bs arbitrary: pre p v)
  case Nil
  then show ?case by simp
next
  case (Cons b bs)
  have w: "push_bit 8 (word_of_int v :: 'a word) + ucast b = word_of_int (v * 256 + int (unat b))"
  proof -
    have "push_bit 8 (word_of_int v :: 'a word) = word_of_int (v * 256)"
      by (simp add: push_bit_eq_mult)
    moreover have "(ucast b :: 'a word) = word_of_int (int (unat b))"
      by simp
    ultimately show ?thesis by (simp del: of_nat_unat)
  qed
  have "shift_in (length bs) ((pre @ [b]) @ bs @ rest) (p + 1)
      (word_of_int (v * 256 + int (unat b)) :: 'a word)
    = Some (word_of_int ((v * 256 + int (unat b)) * 256 ^ length bs + int (be_nat bs)))"
    by (rule Cons.IH) (use Cons.prems in simp)
  moreover have "rd (pre @ b # bs @ rest) p = Some b" using Cons.prems by (simp add: rd_at)
  moreover have "(v * 256 + int (unat b)) * 256 ^ length bs + int (be_nat bs)
      = v * 256 ^ length (b # bs) + int (be_nat (b # bs))"
    by (simp add: algebra_simps)
  ultimately show ?case
    by (simp add: w del: of_nat_unat)
qed

text \<open>An unsigned integer comes back from its content octets.\<close>

lemma decodeUint32_content:
  assumes "p = int (length pre)"
  shows "BerDecoder_decodeUint32 (pre @ uint32_content v @ rest) (int (length (uint32_content v))) p
    = Some v"
  using shift_in_be [OF assms, of "uint32_content v" rest 0, where ?'a = 32]
  by (simp add: BerDecoder_decodeUint32_def be_nat_uint32_content)

lemma decodeBoolean_content:
  "p = int (length pre) \<Longrightarrow> BerDecoder_decodeBoolean (pre @ b # rest) p = Some (b \<noteq> 0)"
  by (simp add: BerDecoder_decodeBoolean_def rd_at)

text \<open>Signed values: the accumulator starts with the sign of the first octet.\<close>

lemma word_of_be_int:
  "bs \<noteq> [] \<Longrightarrow>
   (word_of_int (be_int bs) :: 'a::len word)
     = word_of_int ((if 128 \<le> unat (hd bs) then - 1 else 0) * 256 ^ length bs + int (be_nat bs))"
  by (simp add: be_int_def)

lemma word_of_be_int_be_bytes:
  assumes "LENGTH('a) mod 8 = 0"
  shows "word_of_int (be_int (be_bytes w)) = (w :: 'a::len word)"
proof -
  have "8 * (LENGTH('a) div 8) = LENGTH('a)" using assms by auto
  then have "(256 :: int) ^ (LENGTH('a) div 8) = 2 ^ LENGTH('a)"
    using power_mult [of "2 :: int" 8 "LENGTH('a) div 8"] by simp
  moreover have "(word_of_int (2 ^ LENGTH('a)) :: 'a word) = 0"
    by (simp add: word_of_int_2p_len)
  ultimately have wrap: "(word_of_int (256 ^ (LENGTH('a) div 8)) :: 'a word) = 0"
    by simp
  show ?thesis
  proof (cases "be_bytes w \<noteq> [] \<and> 128 \<le> unat (hd (be_bytes w))")
    case True
    then have "(word_of_int (be_int (be_bytes w)) :: 'a word)
        = word_of_int (int (unat w)) - word_of_int (256 ^ (LENGTH('a) div 8))"
      using assms by (simp add: be_int_def be_nat_be_bytes del: of_int_power word_of_int_power_hom)
    then show ?thesis using wrap by simp
  next
    case False
    then have "be_int (be_bytes w) = int (unat w)"
      using assms by (auto simp: be_int_def be_nat_be_bytes)
    then show ?thesis by simp
  qed
qed

lemma shift_in_signed:
  assumes "bs \<noteq> []" and "p = int (length pre)"
  shows "(do { b \<leftarrow> rd (pre @ bs @ rest) p;
      shift_in (length bs) (pre @ bs @ rest) p (if b AND 0x80 = 0x80 then - 1 else 0 :: 'a::len word) })
    = Some (word_of_int (be_int bs))"
proof -
  obtain b bs' where bs: "bs = b # bs'" using assms(1) by (cases bs) auto
  have "rd (pre @ bs @ rest) p = Some b" using assms(2) by (simp add: bs rd_at)
  moreover have "(if b AND 0x80 = 0x80 then - 1 else 0 :: 'a word)
      = word_of_int (if 128 \<le> unat (hd bs) then - 1 else 0)"
    by (simp add: bs top_bit_byte_set)
  ultimately show ?thesis
    using shift_in_be [OF assms(2), of bs rest "if 128 \<le> unat (hd bs) then - 1 else 0",
        where ?'a = 'a]
    by (simp add: word_of_be_int [OF assms(1)])
qed

text \<open>A signed integer comes back from its content octets.\<close>

lemma decodeInt32_content:
  assumes "p = int (length pre)"
  shows "BerDecoder_decodeInt32 (pre @ int32_content v @ rest) (int (length (int32_content v))) p
    = Some v"
proof -
  have "length (be_bytes v) = 4" by simp
  then have "be_bytes v \<noteq> []" by fastforce
  then have "compress_scan (be_bytes v) < length (be_bytes v)" by (rule compress_scan_less)
  then have "int32_content v \<noteq> []" by (simp add: int32_content_def)
  from shift_in_signed [OF this assms, of rest, where ?'a = 32]
  show ?thesis
    by (simp add: BerDecoder_decodeInt32_def Let_def int32_content_def compress_scan_value
        word_of_be_int_be_bytes)
qed

text \<open>A float comes back as the same object representation.\<close>

lemma decodeFloat_content:
  "p = int (length pre) \<Longrightarrow> length f = 4 \<Longrightarrow>
   BerDecoder_decodeFloat (pre @ e # rev f @ rest) p = Some f"
  using rd_bytes_at [of "pre @ [e]" "p + 1" "rev f" 4 rest]
  by (simp add: BerDecoder_decodeFloat_def)

lemma decodeDouble_content:
  "p = int (length pre) \<Longrightarrow> length f = 8 \<Longrightarrow>
   BerDecoder_decodeDouble (pre @ e # rev f @ rest) p = Some f"
  using rd_bytes_at [of "pre @ [e]" "p + 1" "rev f" 8 rest]
  by (simp add: BerDecoder_decodeDouble_def)

section \<open>Properties\<close>

text \<open>C24. The length decoder is safe on every input: given a bound inside the buffer it returns, it
  reads no byte outside the buffer, and a position it returns as a success lies after the start
  with the whole element below the bound.\<close>

theorem decodeLength_safe:
  assumes "0 \<le> bufPos" and "maxBufPos \<le> int (length buf)"
  shows "\<exists>p n. BerDecoder_decodeLength buf len bufPos maxBufPos = Some (p, n) \<and>
    (p = - 1 \<or> bufPos < p \<and> 0 \<le> n \<and> p + n \<le> maxBufPos)"
proof -
  obtain p n where r: "BerDecoder_decodeLength buf len bufPos maxBufPos = Some (p, n)"
    using decodeLength_defined [OF assms] by blast
  then show ?thesis using decodeLength_progress [OF r] by auto
qed

theorem decodeLength_safe_witness:
  "\<exists>p n. BerDecoder_decodeLength [0x80, 0x30, 0x01, 0x07, 0x00, 0x00] 0 0 6 = Some (p, n) \<and>
    (p = - 1 \<or> 0 < p \<and> 0 \<le> n \<and> p + n \<le> 6)"
  using decodeLength_safe [of 0 6 "[0x80, 0x30, 0x01, 0x07, 0x00, 0x00]" 0] by simp

text \<open>A length field written by the encoder at the end of a buffer prefix is read back by the
  decoder, for every length below 2 ^ 23 whose element lies below the bound.\<close>

theorem length_roundtrip:
  assumes "BerEncoder_encodeLength n (buf, pos) = Some (buf', pos')"
    and "pos \<le> length buf" and "int pos' + uint n \<le> m" and "m < 2 ^ 23"
  shows "BerDecoder_decodeLength buf' len (int pos) m = Some (int pos', uint n)"
proof -
  have fits: "pos + length (length_bytes n) \<le> length buf"
    using length_writer.overflow [of pos buf n] assms(1,2) by force
  have eq: "buf' = take pos buf @ length_bytes n @ drop pos' buf"
      "pos' = pos + length (length_bytes n)"
    using length_writer.exact [OF _ fits] assms(1) by auto
  have "uint n < 2 ^ 23" using assms(3,4) by simp
  then have "int (unat n) < 2 ^ 23" by simp
  then have small: "unat n < 2 ^ 24" by (simp del: of_nat_unat)
  have "BerDecoder_decodeLength (take pos buf @ length_bytes n @ drop pos' buf) len (int pos) m
      = Some (int pos + int (length (length_bytes n)), uint n)"
    by (rule length_bytes_decoded) (use small assms eq(2) in auto)
  then show ?thesis unfolding eq(1) using eq(2) by simp
qed

theorem length_roundtrip_witness:
  "BerDecoder_decodeLength [0, 0x82, 0x01, 0x2c, 0] 0 1 304 = Some (4, 300)"
proof -
  have enc: "BerEncoder_encodeLength 300 ([0, 0, 0, 0, 0], 1) = Some ([0, 0x82, 0x01, 0x2c, 0], 4)"
    by code_simp
  show ?thesis using length_roundtrip [OF enc, of 304 0] by simp
qed

text \<open>An unsigned integer written with tag and length takes at most seven bytes and is read
  back, tag, length and value, wherever it stands in the buffer.\<close>

theorem uint32_roundtrip:
  assumes "pos + 7 \<le> length buf"
  shows "\<exists>buf' n. BerEncoder_encodeUInt32WithTL tag v (buf, pos) = Some (buf', pos + 2 + n) \<and>
    n \<le> 5 \<and> rd buf' (int pos) = Some tag \<and> rd buf' (int pos + 1) = Some (of_nat n) \<and>
    BerDecoder_decodeUint32 buf' (int n) (int pos + 2) = Some v"
proof -
  define n where "n = length (uint32_content v)"
  have n: "n \<le> 5" using uint32_content_bounds [of v] by (simp add: n_def)
  have len: "length (uint32_bytes tag v) = 2 + n" by (simp add: uint32_bytes_def n_def)
  define buf' where "buf' = take pos buf @ uint32_bytes tag v @ drop (pos + 2 + n) buf"
  have enc: "BerEncoder_encodeUInt32WithTL tag v (buf, pos) = Some (buf', pos + 2 + n)"
    using uint32_writer.exact [where x = "(tag, v)" and pos = pos and buf = buf] assms n len by (simp add: buf'_def add.assoc)
  have split: "buf' = (take pos buf @ [tag, of_nat n]) @ uint32_content v @ drop (pos + 2 + n) buf"
    by (simp add: buf'_def uint32_bytes_def n_def)
  have "BerDecoder_decodeUint32 buf' (int n) (int pos + 2) = Some v"
    unfolding split using decodeUint32_content [of "int pos + 2" "take pos buf @ [tag, of_nat n]" v
        "drop (pos + 2 + n) buf"] assms by (simp add: n_def)
  moreover have "rd buf' (int pos) = Some tag" "rd buf' (int pos + 1) = Some (of_nat n)"
    using assms rd_at [of "take pos buf" "int pos" tag] rd_at [of "take pos buf @ [tag]" "int pos + 1" "of_nat n"]
    by (simp_all add: split)
  ultimately show ?thesis using enc n by blast
qed

theorem uint32_roundtrip_witness:
  "BerEncoder_encodeUInt32WithTL 0x85 200 ([0, 0, 0, 0, 0, 0, 0, 0], 1)
      = Some ([0, 0x85, 2, 0, 200, 0, 0, 0], 5) \<and>
   BerDecoder_decodeUint32 [0, 0x85, 2, 0, 200, 0, 0, 0] 2 3 = Some 200"
proof -
  have enc: "BerEncoder_encodeUInt32WithTL 0x85 200 ([0, 0, 0, 0, 0, 0, 0, 0], 1)
      = Some ([0, 0x85, 2, 0, 200, 0, 0, 0], 5)"
    by code_simp
  have "1 + 7 \<le> length ([0, 0, 0, 0, 0, 0, 0, 0] :: byte list)" by simp
  from uint32_roundtrip [OF this, of "0x85" 200] obtain buf' n where
    r: "BerEncoder_encodeUInt32WithTL 0x85 200 ([0, 0, 0, 0, 0, 0, 0, 0], 1) = Some (buf', 1 + 2 + n)"
      "BerDecoder_decodeUint32 buf' (int n) (int 1 + 2) = Some 200"
    by blast
  have "buf' = [0, 0x85, 2, 0, 200, 0, 0, 0]" "n = 2" using r(1) unfolding enc by simp_all
  then show ?thesis using enc r(2) by simp
qed

text \<open>A signed integer is written in at most four content octets and read back, wherever they
  stand in the buffer.\<close>

theorem int32_roundtrip:
  assumes "pos + 4 \<le> length buf"
  shows "\<exists>buf' n. BerEncoder_encodeInt32 v (buf, pos) = Some (buf', pos + n) \<and> n \<le> 4 \<and>
    BerDecoder_decodeInt32 buf' (int n) (int pos) = Some v"
proof -
  define n where "n = length (int32_content v)"
  have n: "n \<le> 4" by (simp add: n_def int32_content_def)
  define buf' where "buf' = take pos buf @ int32_content v @ drop (pos + n) buf"
  have "BerEncoder_encodeInt32 v (buf, pos) = Some (buf', pos + n)"
    using put_bytes_exact [of pos "int32_content v" buf] assms n
    by (simp add: writer_simps buf'_def n_def)
  moreover have "BerDecoder_decodeInt32 buf' (int n) (int pos) = Some v"
    unfolding buf'_def n_def
    using decodeInt32_content [of "int pos" "take pos buf" v "drop (pos + n) buf"] assms
    by (simp add: n_def)
  ultimately show ?thesis using n by blast
qed

theorem int32_roundtrip_witness:
  "\<exists>buf' n. BerEncoder_encodeInt32 (- 129) ([0, 0, 0, 0, 0], 1) = Some (buf', 1 + n) \<and> n \<le> 4 \<and>
    BerDecoder_decodeInt32 buf' (int n) 1 = Some (- 129)"
  using int32_roundtrip [of 1 "[0, 0, 0, 0, 0]" "- 129"] by simp

end
