(* ===== verification/Ber_Integer.thy ===== *)
theory Ber_Integer
  imports Ber_Decode
begin

text \<open>
  ASN.1 integers of arbitrary size, \<open>src/mms/asn1/ber_integer.cc\<close> and
  \<open>asn1_ber_primitive_value.cc\<close>. A value holds its content octets in a buffer of fixed capacity.
  The abstraction \<open>ber_value\<close> is the number they denote in two's complement; the setters are shown
  to store that number exactly when it fits, and the getters to read it back.
\<close>

section \<open>Asn1PrimitiveValue\<close>

record Asn1PrimitiveValue =
  size8 :: byte
  maxSize :: byte
  octets :: "byte list"

definition Asn1PrimitiveValue_create :: "nat \<Rightarrow> Asn1PrimitiveValue" where
  "Asn1PrimitiveValue_create sz = \<lparr>size8 = 1, maxSize = of_nat sz, octets = replicate sz 0\<rparr>"

text \<open>The clone's buffer is fresh: its bytes are those copied, \<open>maxSize\<close> of them.\<close>

definition Asn1PrimitiveValue_clone :: "Asn1PrimitiveValue \<Rightarrow> Asn1PrimitiveValue option" where
  "Asn1PrimitiveValue_clone self = do {
     o' \<leftarrow> memcpy (replicate (unat (maxSize self)) 0) (octets self) (unat (maxSize self));
     Some \<lparr>size8 = size8 self, maxSize = maxSize self, octets = o'\<rparr> }"

definition Asn1PrimitivaValue_compare ::
    "Asn1PrimitiveValue \<Rightarrow> Asn1PrimitiveValue \<Rightarrow> bool option" where
  "Asn1PrimitivaValue_compare self otherValue =
     (if size8 self = size8 otherValue
      then do {
        a \<leftarrow> rd_bytes (octets self) 0 (uint (size8 self));
        b \<leftarrow> rd_bytes (octets otherValue) 0 (uint (size8 self));
        Some (a = b) }
      else Some False)"

definition Asn1PrimitiveValue_getSize :: "Asn1PrimitiveValue \<Rightarrow> int" where
  "Asn1PrimitiveValue_getSize self = uint (size8 self)"

definition Asn1PrimitiveValue_getMaxSize :: "Asn1PrimitiveValue \<Rightarrow> int" where
  "Asn1PrimitiveValue_getMaxSize self = uint (maxSize self)"

definition BerEncoder_encodeAsn1PrimitiveValue ::
    "byte \<Rightarrow> Asn1PrimitiveValue \<Rightarrow> cursor \<Rightarrow> cursor option" where
  "BerEncoder_encodeAsn1PrimitiveValue tag value c = do {
     c \<leftarrow> put tag c;
     c \<leftarrow> BerEncoder_encodeLength (ucast (size8 value)) c;
     put_from (octets value) (unat (size8 value)) c }"

section \<open>BerInteger: setters\<close>

definition setIntegerValue ::
    "Asn1PrimitiveValue \<Rightarrow> byte list \<Rightarrow> nat \<Rightarrow> (bool \<times> Asn1PrimitiveValue) option" where
  "setIntegerValue self valueBuffer bufferSize =
     (let valueBuffer = BerEncoder_revertByteOrder valueBuffer bufferSize;
          (valueBuffer, sz) = BerEncoder_compressInteger valueBuffer bufferSize
      in if sz \<le> unat (maxSize self)
         then do {
           o' \<leftarrow> memcpy (octets self) valueBuffer sz;
           Some (True, self\<lparr>size8 := of_nat sz, octets := o'\<rparr>) }
         else Some (False, self))"

definition BerInteger_createInt32 :: "Asn1PrimitiveValue" where
  "BerInteger_createInt32 = Asn1PrimitiveValue_create 5"

definition BerInteger_createFromBuffer :: "byte list \<Rightarrow> nat \<Rightarrow> Asn1PrimitiveValue option" where
  "BerInteger_createFromBuffer buf sz =
     (let maxSize = (if 8 < sz then sz else 8);
          self = Asn1PrimitiveValue_create maxSize
      in do {
        o' \<leftarrow> memcpy (octets self) buf sz;
        Some (self\<lparr>octets := o', size8 := of_nat sz\<rparr>) })"

definition BerInteger_setFromBerInteger ::
    "Asn1PrimitiveValue \<Rightarrow> Asn1PrimitiveValue \<Rightarrow> (bool \<times> Asn1PrimitiveValue) option" where
  "BerInteger_setFromBerInteger self value =
     (if size8 value \<le> maxSize self
      then do {
        o' \<leftarrow> memcpy (octets self) (octets value) (unat (size8 value));
        Some (True, self\<lparr>size8 := size8 value, octets := o'\<rparr>) }
      else Some (False, self))"

text \<open>\<open>value\<close> carries the bits of the \<open>int32_t\<close>, \<open>uint32_t\<close>, \<open>int64_t\<close> argument.\<close>

definition BerInteger_setInt32 ::
    "Asn1PrimitiveValue \<Rightarrow> uint32 \<Rightarrow> (bool \<times> Asn1PrimitiveValue) option" where
  "BerInteger_setInt32 self value = setIntegerValue self (le_bytes value) 4"

definition BerInteger_createFromInt32 :: "uint32 \<Rightarrow> Asn1PrimitiveValue option" where
  "BerInteger_createFromInt32 value =
     map_option snd (BerInteger_setInt32 BerInteger_createInt32 value)"

definition BerInteger_setUint16 ::
    "Asn1PrimitiveValue \<Rightarrow> uint16 \<Rightarrow> (bool \<times> Asn1PrimitiveValue) option" where
  "BerInteger_setUint16 self value = setIntegerValue self (le_bytes value @ [0]) 3"

definition BerInteger_setUint8 ::
    "Asn1PrimitiveValue \<Rightarrow> byte \<Rightarrow> (bool \<times> Asn1PrimitiveValue) option" where
  "BerInteger_setUint8 self value = setIntegerValue self [value] 1"

definition BerInteger_setUint32 ::
    "Asn1PrimitiveValue \<Rightarrow> uint32 \<Rightarrow> (bool \<times> Asn1PrimitiveValue) option" where
  "BerInteger_setUint32 self value = setIntegerValue self (le_bytes value @ [0]) 5"

definition BerInteger_createFromUint32 :: "uint32 \<Rightarrow> Asn1PrimitiveValue option" where
  "BerInteger_createFromUint32 value =
     map_option snd (BerInteger_setUint32 BerInteger_createInt32 value)"

definition BerInteger_createInt64 :: "Asn1PrimitiveValue" where
  "BerInteger_createInt64 = Asn1PrimitiveValue_create 9"

definition BerInteger_setInt64 ::
    "Asn1PrimitiveValue \<Rightarrow> uint64 \<Rightarrow> (bool \<times> Asn1PrimitiveValue) option" where
  "BerInteger_setInt64 self value = setIntegerValue self (le_bytes value) 8"

definition BerInteger_createFromInt64 :: "uint64 \<Rightarrow> Asn1PrimitiveValue option" where
  "BerInteger_createFromInt64 value =
     map_option snd (BerInteger_setInt64 BerInteger_createInt64 value)"

section \<open>BerInteger: getters\<close>

text \<open>The loop \<open>nativeValue = (nativeValue << 8) | buf[i]\<close>.\<close>

fun or_in :: "nat \<Rightarrow> buffer \<Rightarrow> int \<Rightarrow> 'a::len word \<Rightarrow> 'a word option" where
  "or_in 0 buf i nativeValue = Some nativeValue"
| "or_in (Suc n) buf i nativeValue = do {
     b \<leftarrow> rd buf i;
     or_in n buf (i + 1) (push_bit 8 nativeValue OR ucast b) }"

definition BerInteger_toInt32 :: "Asn1PrimitiveValue \<Rightarrow> uint32 option" where
  "BerInteger_toInt32 self = do {
     b \<leftarrow> rd (octets self) 0;
     let nativeValue = (if b AND 0x80 \<noteq> 0 then 0xffffffff else 0);
     or_in (unat (size8 self)) (octets self) 0 nativeValue }"

definition BerInteger_toUint32 :: "Asn1PrimitiveValue \<Rightarrow> uint32 option" where
  "BerInteger_toUint32 self = or_in (unat (size8 self)) (octets self) 0 0"

definition BerInteger_toInt64 :: "Asn1PrimitiveValue \<Rightarrow> uint64 option" where
  "BerInteger_toInt64 self = do {
     b \<leftarrow> rd (octets self) 0;
     let nativeValue = (if b AND 0x80 \<noteq> 0 then 0xffffffffffffffff else 0);
     or_in (unat (size8 self)) (octets self) 0 nativeValue }"

section \<open>What the octets denote\<close>

definition ber_content :: "Asn1PrimitiveValue \<Rightarrow> byte list" where
  "ber_content self = take (unat (size8 self)) (octets self)"

definition ber_value :: "Asn1PrimitiveValue \<Rightarrow> int" where
  "ber_value self = be_int (ber_content self)"

definition ber_wf :: "Asn1PrimitiveValue \<Rightarrow> bool" where
  "ber_wf self \<longleftrightarrow>
     length (octets self) = unat (maxSize self) \<and> 0 < unat (size8 self) \<and>
     unat (size8 self) \<le> unat (maxSize self)"

lemma ber_content_wf:
  "ber_wf self \<Longrightarrow> length (ber_content self) = unat (size8 self) \<and> ber_content self \<noteq> []"
  by (auto simp: ber_wf_def ber_content_def)

lemma or_in_eq_shift_in: "8 \<le> LENGTH('a) \<Longrightarrow> or_in n buf i (v :: 'a::len word) = shift_in n buf i v"
proof (induction n arbitrary: i v)
  case 0
  then show ?case by simp
next
  case (Suc n)
  have "push_bit 8 v OR ucast b = push_bit 8 v + ucast b" for b :: byte
  proof (rule disjunctive_add [symmetric])
    fix k
    show "\<not> bit (push_bit 8 v) k \<or> \<not> bit (ucast b :: 'a word) k"
      using bit_imp_le_length [of b k] by (auto simp: bit_push_bit_iff bit_simps)
  qed
  then show ?case using Suc by simp
qed


text \<open>The getters compute the denoted number modulo their width.\<close>

lemma rd_ber_content:
  "ber_wf self \<Longrightarrow> octets self = [] @ ber_content self @ drop (unat (size8 self)) (octets self)"
  by (simp add: ber_content_def)

lemma or_in_signed:
  assumes "ber_wf self" and "8 \<le> LENGTH('a)"
  shows "(do { b \<leftarrow> rd (octets self) 0;
      or_in (unat (size8 self)) (octets self) 0 (if b AND 0x80 \<noteq> 0 then - 1 else 0 :: 'a::len word) })
    = Some (word_of_int (ber_value self))"
proof -
  have "(b AND 0x80 \<noteq> 0) = (b AND 0x80 = 0x80)" for b :: byte
    using top_bit_byte [of b] top_bit_byte_set [of b] by auto
  then show ?thesis
    using shift_in_signed [of "ber_content self" 0 "[]" "drop (unat (size8 self)) (octets self)",
        where ?'a = 'a] rd_ber_content [OF assms(1)] ber_content_wf [OF assms(1)]
    by (simp add: or_in_eq_shift_in assms(2) ber_value_def)
qed

lemma minus_1_word32: "(0xffffffff :: uint32) = - 1"
  by simp

lemma minus_1_word64: "(0xffffffffffffffff :: uint64) = - 1"
  by simp

lemma toInt32_value: "ber_wf self \<Longrightarrow> BerInteger_toInt32 self = Some (word_of_int (ber_value self))"
  using or_in_signed [of self, where ?'a = 32]
  unfolding BerInteger_toInt32_def minus_1_word32 Let_def by simp

lemma toInt64_value: "ber_wf self \<Longrightarrow> BerInteger_toInt64 self = Some (word_of_int (ber_value self))"
  using or_in_signed [of self, where ?'a = 64]
  unfolding BerInteger_toInt64_def minus_1_word64 Let_def by simp

lemma toUint32_value:
  "ber_wf self \<Longrightarrow> BerInteger_toUint32 self = Some (word_of_int (int (be_nat (ber_content self))))"
  using shift_in_be [of 0 "[]" "ber_content self" "drop (unat (size8 self)) (octets self)" 0,
      where ?'a = 32] rd_ber_content [of self] ber_content_wf [of self]
  by (simp add: BerInteger_toUint32_def or_in_eq_shift_in)

text \<open>The encoder writes the content octets as a tag-length-value element.\<close>

lemma encodeAsn1PrimitiveValue_writes [writer_simps]:
  assumes "ber_wf v"
  shows "BerEncoder_encodeAsn1PrimitiveValue tag v c = put_bytes (octet_bytes tag (ber_content v)) c"
proof -
  have "(of_nat (length (ber_content v)) :: uint32) = ucast (size8 v)"
    using ber_content_wf [OF assms] by simp
  then show ?thesis
    using assms unfolding BerEncoder_encodeAsn1PrimitiveValue_def octet_bytes_def
    by (simp add: writer_simps put_fun put_from_eq ber_wf_def ber_content_def)
qed

section \<open>The contract of a setter\<close>

text \<open>A setter hands \<open>setIntegerValue\<close> the octets of its argument, in memory order.\<close>

lemma setIntegerValue_stores:
  assumes wf: "ber_wf self" and ne: "xs \<noteq> []"
    and fits: "length (drop (compress_scan xs) xs) \<le> unat (maxSize self)"
  obtains self' where "setIntegerValue self (rev xs) (length xs) = Some (True, self')"
    and "ber_wf self'" and "maxSize self' = maxSize self"
    and "ber_content self' = drop (compress_scan xs) xs"
proof -
  let ?k = "compress_scan xs"
  let ?r = "BerEncoder_compressInteger xs (length xs)"
  have sz: "snd ?r = length xs - ?k" "take (length xs - ?k) (fst ?r) = drop ?k xs"
      "length (fst ?r) = length xs"
    using compressInteger_result [of "length xs" xs] length_compressInteger [of "length xs" xs] ne
    by auto
  have k: "?k < length xs" using ne by (rule compress_scan_less)
  have le: "length xs - ?k \<le> unat (maxSize self)" using fits by simp
  define n where "n = length xs - ?k"
  have "n < 256" using le unat_byte_less [of "maxSize self"] unfolding n_def by linarith
  then have unat_n: "unat (of_nat n :: byte) = n"
    by (simp add: unsigned_of_nat take_bit_nat_eq_self)
  define o' where "o' = drop ?k xs @ drop n (octets self)"
  define self' where "self' = self\<lparr>size8 := of_nat n, octets := o'\<rparr>"
  have "memcpy (octets self) (fst ?r) n = Some o'"
    using wf le sz by (simp add: memcpy_def o'_def ber_wf_def n_def)
  moreover have "BerEncoder_revertByteOrder (rev xs) (length xs) = xs"
    using revertByteOrder_rev [of "length xs" "rev xs"] by simp
  ultimately have "setIntegerValue self (rev xs) (length xs) = Some (True, self')"
    using sz(1) le unfolding n_def [symmetric]
    by (simp add: setIntegerValue_def split_beta Let_def self'_def)
  moreover have "ber_wf self'"
    using wf le k by (auto simp: ber_wf_def self'_def unat_n o'_def n_def [symmetric]) (auto simp: n_def)
  moreover have "ber_content self' = drop ?k xs" "maxSize self' = maxSize self"
    using k by (auto simp: ber_content_def self'_def unat_n o'_def) (auto simp: n_def)
  ultimately show thesis using that by blast
qed

lemma setIntegerValue_refuses:
  assumes ne: "xs \<noteq> []" and "unat (maxSize self) < length (drop (compress_scan xs) xs)"
  shows "setIntegerValue self (rev xs) (length xs) = Some (False, self)"
  using assms compressInteger_result(1) [of "length xs" xs] revertByteOrder_rev [of "length xs" "rev xs"]
  by (simp add: setIntegerValue_def split_beta Let_def)

text \<open>The outcome of setting \<open>self\<close> to the number \<open>v\<close>: success exactly if some two's complement octets that fit into
  the allocated size denote it; then the value holds the number in the fewest octets that do, and otherwise it is as it
  was.\<close>

definition set_outcome :: "Asn1PrimitiveValue \<Rightarrow> int \<Rightarrow> (bool \<times> Asn1PrimitiveValue) option \<Rightarrow> bool" where
  "set_outcome self v res \<longleftrightarrow> (\<exists>ok s. res = Some (ok, s) \<and> ber_wf s \<and> maxSize s = maxSize self \<and>
     (ok \<longleftrightarrow> (\<exists>xs. xs \<noteq> [] \<and> length xs \<le> unat (maxSize self) \<and> be_int xs = v)) \<and>
     (if ok then ber_value s = v \<and> (\<forall>xs. xs \<noteq> [] \<and> be_int xs = v \<longrightarrow> unat (size8 s) \<le> length xs)
      else s = self))"

locale integer_setter =
  fixes set_value :: "Asn1PrimitiveValue \<Rightarrow> 'v \<Rightarrow> (bool \<times> Asn1PrimitiveValue) option"
    and repr :: "'v \<Rightarrow> byte list"
  assumes sets: "set_value self v = setIntegerValue self (rev (repr v)) (length (repr v))"
    and nonempty: "repr v \<noteq> []"
begin

text \<open>A successful set stores the denoted number, in the fewest octets that can denote it.\<close>

lemma stores:
  assumes "ber_wf self" and "length (repr v) \<le> unat (maxSize self)"
  shows "\<exists>self'. set_value self v = Some (True, self') \<and> ber_wf self' \<and>
    maxSize self' = maxSize self \<and> ber_content self' = drop (compress_scan (repr v)) (repr v) \<and>
    ber_value self' = be_int (repr v) \<and>
    (\<forall>xs. xs \<noteq> [] \<longrightarrow> be_int xs = ber_value self' \<longrightarrow> unat (size8 self') \<le> length xs)"
proof -
  have "length (drop (compress_scan (repr v)) (repr v)) \<le> unat (maxSize self)"
    using assms(2) by simp
  from setIntegerValue_stores [OF assms(1) nonempty this]
  obtain self' where s: "setIntegerValue self (rev (repr v)) (length (repr v)) = Some (True, self')"
      "ber_wf self'" "maxSize self' = maxSize self"
      "ber_content self' = drop (compress_scan (repr v)) (repr v)"
    by blast
  have val: "ber_value self' = be_int (repr v)"
    by (simp add: ber_value_def s(4) compress_scan_value)
  have "unat (size8 self') \<le> length xs" if "xs \<noteq> []" "be_int xs = ber_value self'" for xs
    using compress_shortest [OF nonempty that(1), of v] that(2) val s(4)
      ber_content_wf [OF s(2)] by simp
  then show ?thesis using s val sets by auto
qed

text \<open>On every value: stored if some octets within the allocated size denote the number, refused if none do.\<close>

lemma set_total:
  assumes "ber_wf self"
  shows "set_outcome self (be_int (repr v)) (set_value self v)"
proof (cases "length (drop (compress_scan (repr v)) (repr v)) \<le> unat (maxSize self)")
  case True
  from setIntegerValue_stores [OF assms nonempty this]
  obtain self' where s: "setIntegerValue self (rev (repr v)) (length (repr v)) = Some (True, self')"
      "ber_wf self'" "maxSize self' = maxSize self"
      "ber_content self' = drop (compress_scan (repr v)) (repr v)"
    by blast
  have val: "ber_value self' = be_int (repr v)"
    by (simp add: ber_value_def s(4) compress_scan_value)
  have "ber_content self' \<noteq> [] \<and> length (ber_content self') \<le> unat (maxSize self) \<and> be_int (ber_content self') = be_int (repr v)"
    using ber_content_wf [OF s(2)] True s(4) val by (simp add: ber_value_def)
  then have ex: "(\<exists>xs. xs \<noteq> [] \<and> length xs \<le> unat (maxSize self) \<and> be_int xs = be_int (repr v)) = True" by blast
  have "\<forall>xs. xs \<noteq> [] \<and> be_int xs = be_int (repr v) \<longrightarrow> unat (size8 self') \<le> length xs"
    using compress_shortest [OF nonempty, of _ v] s(4) ber_content_wf [OF s(2)] by auto
  then show ?thesis using s(1-3) val unfolding set_outcome_def sets ex by (intro exI [of _ True] exI [of _ self']) simp
next
  case False
  have "unat (maxSize self) < length xs" if "xs \<noteq> []" "be_int xs = be_int (repr v)" for xs
    using compress_shortest [OF nonempty that(1), of v] that(2) False by simp
  then have "\<nexists>xs. xs \<noteq> [] \<and> length xs \<le> unat (maxSize self) \<and> be_int xs = be_int (repr v)" by (meson not_le)
  then show ?thesis
    using assms setIntegerValue_refuses [OF nonempty, of self v] False unfolding set_outcome_def sets by auto
qed

end

lemma be_bytes_nonempty: "8 \<le> LENGTH('a) \<Longrightarrow> be_bytes (w :: 'a::len word) \<noteq> []"
proof -
  assume "8 \<le> LENGTH('a)"
  then have "0 < length (be_bytes w)" by (simp add: div_greater_zero_iff)
  then show ?thesis by fastforce
qed

lemma rev_be_bytes [simp]: "rev (be_bytes w) = le_bytes w"
  by (simp add: be_bytes_def)

interpretation set_int32: integer_setter BerInteger_setInt32 be_bytes
  by unfold_locales (simp_all add: BerInteger_setInt32_def be_bytes_nonempty)

interpretation set_int64: integer_setter BerInteger_setInt64 be_bytes
  by unfold_locales (simp_all add: BerInteger_setInt64_def be_bytes_nonempty)

interpretation set_uint32: integer_setter BerInteger_setUint32 "\<lambda>v. 0 # be_bytes v"
  by unfold_locales (simp_all add: BerInteger_setUint32_def)

interpretation set_uint16: integer_setter BerInteger_setUint16 "\<lambda>v. 0 # be_bytes v"
  by unfold_locales (simp_all add: BerInteger_setUint16_def)

interpretation set_uint8: integer_setter BerInteger_setUint8 "\<lambda>v. [v]"
  by unfold_locales (simp_all add: BerInteger_setUint8_def)

section \<open>Round trips\<close>

lemma create_wf:
  "0 < sz \<Longrightarrow> sz < 256 \<Longrightarrow> ber_wf (Asn1PrimitiveValue_create sz)
    \<and> unat (maxSize (Asn1PrimitiveValue_create sz)) = sz"
  by (simp add: ber_wf_def Asn1PrimitiveValue_create_def unsigned_of_nat take_bit_nat_eq_self)

lemma createFromInt32_ok:
  obtains self where "BerInteger_createFromInt32 v = Some self" and "ber_wf self"
    and "ber_content self = int32_content v" and "BerInteger_toInt32 self = Some v"
proof -
  have "\<exists>self. BerInteger_createFromInt32 v = Some self \<and> ber_wf self \<and>
      ber_content self = int32_content v \<and> ber_value self = be_int (be_bytes v)"
    using set_int32.stores [of BerInteger_createInt32 v] create_wf [of 5]
    by (fastforce simp: BerInteger_createFromInt32_def BerInteger_createInt32_def int32_content_def)
  then show thesis
    using that toInt32_value word_of_be_int_be_bytes [of v] by fastforce
qed

lemma createFromInt64_ok:
  obtains self where "BerInteger_createFromInt64 v = Some self" and "ber_wf self"
    and "unat (size8 self) \<le> 8" and "BerInteger_toInt64 self = Some v"
proof -
  have "\<exists>self. BerInteger_createFromInt64 v = Some self \<and> ber_wf self \<and>
      length (ber_content self) \<le> 8 \<and> ber_value self = be_int (be_bytes v)"
    using set_int64.stores [of BerInteger_createInt64 v] create_wf [of 9]
    by (fastforce simp: BerInteger_createFromInt64_def BerInteger_createInt64_def)
  then show thesis
    using that toInt64_value word_of_be_int_be_bytes [of v] ber_content_wf by fastforce
qed

lemma createFromUint32_ok:
  obtains self where "BerInteger_createFromUint32 v = Some self" and "ber_wf self"
    and "ber_content self = uint32_content v" and "BerInteger_toUint32 self = Some v"
proof -
  have "\<exists>self. BerInteger_createFromUint32 v = Some self \<and> ber_wf self \<and>
      ber_content self = uint32_content v"
    using set_uint32.stores [of BerInteger_createInt32 v] create_wf [of 5]
    by (fastforce simp: BerInteger_createFromUint32_def BerInteger_createInt32_def uint32_content_def)
  then show thesis
    using that toUint32_value be_nat_uint32_content [of v] by fastforce
qed

text \<open>Values of the other setters read back through the 64 bit getter.\<close>

lemma setUint32_value:
  assumes "ber_wf self" and "5 \<le> unat (maxSize self)"
  shows "\<exists>self'. BerInteger_setUint32 self v = Some (True, self') \<and> ber_wf self' \<and>
    maxSize self' = maxSize self \<and> ber_content self' = uint32_content v \<and>
    ber_value self' = int (unat v)"
  using set_uint32.stores [of self v] assms be_nat_be_bytes [of v]
  by (auto simp: be_int_def uint32_content_def)

lemma setUint16_value:
  assumes "ber_wf self" and "3 \<le> unat (maxSize self)"
  shows "\<exists>self'. BerInteger_setUint16 self v = Some (True, self') \<and> ber_wf self' \<and>
    maxSize self' = maxSize self \<and> ber_value self' = int (unat v)"
  using set_uint16.stores [of self v] assms be_nat_be_bytes [of v]
  by (auto simp: be_int_def)

text \<open>The 8 bit setter has no leading zero octet: from 128 on it stores a negative number.\<close>

lemma setUint8_value:
  assumes "ber_wf self"
  shows "\<exists>self'. BerInteger_setUint8 self v = Some (True, self') \<and> ber_wf self' \<and>
    maxSize self' = maxSize self \<and> ber_content self' = [v] \<and> ber_value self' = sbyte v"
proof -
  have "length [v] \<le> unat (maxSize self)" using assms by (auto simp: ber_wf_def)
  then show ?thesis
    using set_uint8.stores [of self v] assms by (auto simp: be_int_def sbyte_def)
qed

lemma setFromBerInteger_value:
  assumes "ber_wf self" and "ber_wf v"
  shows "\<exists>ok self'. BerInteger_setFromBerInteger self v = Some (ok, self') \<and> ber_wf self' \<and>
    (if ok then ber_content self' = ber_content v else self' = self) \<and>
    (ok \<longleftrightarrow> size8 v \<le> maxSize self)"
  using assms
  by (auto simp: BerInteger_setFromBerInteger_def memcpy_def ber_wf_def ber_content_def
      word_le_nat_alt)

lemma compare_iff:
  assumes "ber_wf a" and "ber_wf b"
  shows "Asn1PrimitivaValue_compare a b = Some (ber_content a = ber_content b)"
proof (cases "size8 a = size8 b")
  case True
  have "rd_bytes (octets v) 0 (uint (size8 v)) = Some (ber_content v)" if "ber_wf v" for v
  proof -
    have "uint (size8 v) \<le> int (length (octets v))"
      using that by (simp add: ber_wf_def uint_nat del: of_nat_unat)
    then show ?thesis by (simp add: rd_bytes_def ber_content_def)
  qed
  from this [OF assms(1)] this [OF assms(2)] True show ?thesis
    by (simp add: Asn1PrimitivaValue_compare_def)
next
  case False
  then have "length (ber_content a) \<noteq> length (ber_content b)"
    using ber_content_wf [OF assms(1)] ber_content_wf [OF assms(2)] by (simp add: word_unat_eq_iff)
  then show ?thesis using False by (auto simp: Asn1PrimitivaValue_compare_def)
qed

lemma clone_wf: "ber_wf self \<Longrightarrow> Asn1PrimitiveValue_clone self = Some self"
  by (simp add: Asn1PrimitiveValue_clone_def memcpy_def ber_wf_def)

lemma createFromBuffer_content:
  assumes "sz \<le> length buf" and "0 < sz" and "sz < 256"
  shows "\<exists>self. BerInteger_createFromBuffer buf sz = Some self \<and> ber_wf self \<and>
    ber_content self = take sz buf"
  using assms
  by (auto simp: BerInteger_createFromBuffer_def Let_def Asn1PrimitiveValue_create_def memcpy_def
      ber_wf_def ber_content_def unsigned_of_nat take_bit_nat_eq_self)

section \<open>Properties\<close>

text \<open>The signed constructors are total, well formed, read back exactly and use no more octets
  than necessary: 32 bit values through the 32 bit getter, 64 bit values through the 64 bit one.\<close>

theorem signed_integers_roundtrip:
  "\<exists>a b. BerInteger_createFromInt32 x = Some a \<and> ber_wf a \<and> BerInteger_toInt32 a = Some x \<and>
     unat (size8 a) \<le> 4 \<and>
     BerInteger_createFromInt64 y = Some b \<and> ber_wf b \<and> BerInteger_toInt64 b = Some y \<and>
     unat (size8 b) \<le> 8"
proof -
  obtain a where a: "BerInteger_createFromInt32 x = Some a" "ber_wf a"
      "ber_content a = int32_content x" "BerInteger_toInt32 a = Some x"
    by (rule createFromInt32_ok)
  have "unat (size8 a) \<le> 4"
    using ber_content_wf [OF a(2)] a(3) by (simp add: int32_content_def) linarith
  moreover obtain b where "BerInteger_createFromInt64 y = Some b" "ber_wf b"
      "unat (size8 b) \<le> 8" "BerInteger_toInt64 b = Some y"
    by (rule createFromInt64_ok)
  ultimately show ?thesis using a by blast
qed

text \<open>The unsigned 32 bit constructor is total and reads back exactly; its content octets carry a
  leading zero octet where needed, so the value also reads back as a signed 64 bit number.\<close>

theorem unsigned_integers_roundtrip:
  "\<exists>a. BerInteger_createFromUint32 x = Some a \<and> ber_wf a \<and> BerInteger_toUint32 a = Some x \<and>
     BerInteger_toInt64 a = Some (ucast x)"
proof -
  have "ber_wf BerInteger_createInt32 \<and> 5 \<le> unat (maxSize BerInteger_createInt32)"
    using create_wf [of 5] by (simp add: BerInteger_createInt32_def)
  then obtain b where b: "BerInteger_setUint32 BerInteger_createInt32 x = Some (True, b)" "ber_wf b"
      "ber_value b = int (unat x)"
    using setUint32_value [of BerInteger_createInt32 x] by blast
  obtain a where a: "BerInteger_createFromUint32 x = Some a" "ber_wf a" "BerInteger_toUint32 a = Some x"
    by (rule createFromUint32_ok)
  have "a = b" using a(1) b(1) by (simp add: BerInteger_createFromUint32_def)
  then show ?thesis using a toInt64_value [OF b(2)] b(3) by simp
qed

text \<open>The octets of a word are the two's complement number that the word is.\<close>

lemma be_int_doubled: "xs \<noteq> [] \<Longrightarrow> - (256 ^ length xs) \<le> 2 * be_int xs \<and> 2 * be_int xs < 256 ^ length xs"
  using be_int_range [of xs] by (cases xs) simp_all

lemma be_int_be_bytes:
  assumes "8 \<le> LENGTH('a)" and "LENGTH('a) mod 8 = 0"
  shows "be_int (be_bytes (w :: 'a::len word)) = sint w"
proof -
  let ?x = "be_int (be_bytes w)" and ?n = "LENGTH('a) - 1"
  have "(256 :: int) ^ (LENGTH('a) div 8) = 2 ^ LENGTH('a)"
    using power_mult [of "2 :: int" 8 "LENGTH('a) div 8"] assms(2) by (simp add: mult.commute [of 8] minus_mod_eq_div_mult [symmetric])
  moreover have "(2 :: int) ^ LENGTH('a) = 2 * 2 ^ ?n" by (simp flip: power_Suc)
  ultimately have "- (2 ^ ?n) \<le> ?x" "?x < 2 ^ ?n"
    using be_int_doubled [OF be_bytes_nonempty [OF assms(1)], of w] by simp_all
  then have "sint (word_of_int ?x :: 'a word) = ?x"
    by (simp add: signed_of_int signed_take_bit_int_eq_self)
  then show ?thesis by (simp only: word_of_be_int_be_bytes [OF assms(2)])
qed

text \<open>C25. Every setter stores its argument or refuses it, and says which: it succeeds exactly when two's complement octets
  that fit into the allocated size of the value denote the number, it then holds the number in the fewest octets possible,
  and a refused value is as it was. The number the 8 bit setter stores is the octet read as a signed one, so 128 and above
  come out negative.\<close>

theorem setters_store_or_refuse:
  assumes "ber_wf self"
  shows "set_outcome self (sint a) (BerInteger_setInt32 self a) \<and>
    set_outcome self (sint b) (BerInteger_setInt64 self b) \<and>
    set_outcome self (uint c) (BerInteger_setUint32 self c) \<and>
    set_outcome self (uint d) (BerInteger_setUint16 self d) \<and>
    set_outcome self (if e < 128 then uint e else uint e - 256) (BerInteger_setUint8 self e)"
proof -
  have zero: "be_int (0 # be_bytes w) = uint w" if "LENGTH('w) mod 8 = 0" for w :: "'w::len word"
    using be_nat_be_bytes [OF that, of w] by (simp add: be_int_def)
  have "be_int [e] = (if e < 128 then uint e else uint e - 256)"
    by (simp add: be_int_Cons sbyte_def word_less_nat_alt)
  then show ?thesis
    using set_int32.set_total [OF assms, of a] set_int64.set_total [OF assms, of b] set_uint32.set_total [OF assms, of c]
      set_uint16.set_total [OF assms, of d] set_uint8.set_total [OF assms, of e]
    by (simp add: be_int_be_bytes zero)
qed

text \<open>Into two octets go 32767 but not 32768.\<close>

theorem setters_store_or_refuse_witness:
  "set_outcome (Asn1PrimitiveValue_create 2) 32767 (BerInteger_setInt32 (Asn1PrimitiveValue_create 2) 32767) \<and>
   BerInteger_setInt32 (Asn1PrimitiveValue_create 2) 32767 = Some (True, \<lparr>size8 = 2, maxSize = 2, octets = [127, 255]\<rparr>) \<and>
   BerInteger_setInt32 (Asn1PrimitiveValue_create 2) 32768 = Some (False, Asn1PrimitiveValue_create 2)"
proof (intro conjI)
  have "ber_wf (Asn1PrimitiveValue_create 2)" using create_wf [of 2] by simp
  then show "set_outcome (Asn1PrimitiveValue_create 2) 32767 (BerInteger_setInt32 (Asn1PrimitiveValue_create 2) 32767)"
    using setters_store_or_refuse [of "Asn1PrimitiveValue_create 2" 32767 0 0 0 0] by simp
qed code_simp+

end
