(* ===== verification/Ber_Tlv.thy ===== *)
theory Ber_Tlv
  imports Ber_Decode
begin

text \<open>
  Elements with tag, length and content as a whole: writing one, reading it back wherever it stands,
  sequences of elements, and the 16 bit length field of the link layer headers. Shared by the GOOSE
  and the sampled values protocols.
\<close>

lemma ucast_of_nat32: "n < 2 ^ 32 \<Longrightarrow> ucast (of_nat n :: uint32) = of_nat n"
  by (metis of_nat_unat unat_of_nat32)

lemma short_length:
  "length bs < 128 \<Longrightarrow> length_bytes (of_nat (length bs)) = [of_nat (length bs)]"
  by (simp add: length_bytes_def of_nat32_less_numeral ucast_of_nat32)

lemma length_octet_bytes_short:
  "length bs < 128 \<Longrightarrow> length (octet_bytes tag bs) = 2 + length bs"
  by (simp add: octet_bytes_def short_length)

lemma octet_bytes_short:
  "length bs < 128 \<Longrightarrow> octet_bytes tag bs = tag # of_nat (length bs) # bs"
  by (simp add: octet_bytes_def short_length)

lemma uint32_bytes_octet: "uint32_bytes tag v = octet_bytes tag (uint32_content v)"
  using uint32_content_bounds [of v] by (simp add: uint32_bytes_def octet_bytes_short)

lemma length_octet_bytes_le: "length (octet_bytes tag s) \<le> length s + 5"
  by (simp add: octet_bytes_def length_bytes_def)

lemma octet_bytes_fun: "put_bytes (octet_bytes tag s)
  = (\<lambda>c. put_bytes (tag # length_bytes (of_nat (length s))) c \<bind> put_bytes s)"
  by (auto simp: octet_bytes_def put_fun intro!: ext)

lemma bind_put_bytes:
  "put_bytes xs c \<bind> (\<lambda>c. put_bytes ys c \<bind> f) = put_bytes (xs @ ys) c \<bind> f"
  by (simp add: put_fun)

lemma tlv_decode:
  assumes buf: "buf = pre @ octet_bytes tag content @ rest" and p: "p = int (length pre)"
    and len: "length content < 65535"
    and m: "p + int (length (octet_bytes tag content)) \<le> m" "m < 2 ^ 23"
  obtains pre' where "buf = pre' @ content @ rest" and "rd buf p = Some tag"
    and "BerDecoder_decodeLength buf l (p + 1) m
      = Some (int (length pre'), int (length content))"
    and "int (length pre') + int (length content) = p + int (length (octet_bytes tag content))"
proof -
  let ?n = "of_nat (length content) :: uint32"
  let ?pre = "pre @ [tag]"
  have n: "unat ?n = length content" using len by (intro unat_of_nat32) simp
  have b: "buf = ?pre @ length_bytes ?n @ content @ rest" by (simp add: buf octet_bytes_def)
  have "BerDecoder_decodeLength (?pre @ length_bytes ?n @ content @ rest) l (p + 1) m
      = Some (p + 1 + int (length (length_bytes ?n)), uint ?n)"
  proof (rule length_bytes_decoded)
    show "unat ?n < 2 ^ 24" using n len by simp
    show "p + 1 = int (length (pre @ [tag]))" by (simp add: p)
    show "p + 1 + int (length (length_bytes ?n)) + uint ?n \<le> m"
      using m(1) n by (simp add: octet_bytes_def uint_nat del: of_nat_unat)
    show "m < 2 ^ 23" by (rule m(2))
  qed
  moreover have "uint ?n = int (length content)" using n by (simp add: uint_nat del: of_nat_unat)
  moreover have "rd buf p = Some tag" by (simp add: buf octet_bytes_def rd_at p)
  ultimately show thesis
    using that [of "?pre @ length_bytes ?n"] b p by (simp add: octet_bytes_def)
qed

definition tlvs :: "(byte \<times> byte list) list \<Rightarrow> byte list" where
  "tlvs ts = concat (map (\<lambda>(t, c). octet_bytes t c) ts)"

lemma tlvs_simps [simp]: "tlvs [] = []" "tlvs ((t, c) # ts) = octet_bytes t c @ tlvs ts"
  by (simp_all add: tlvs_def)

text \<open>An element is read through pointers: only the bytes from its content on matter.\<close>

lemma rd_shift: "0 \<le> i \<Longrightarrow> rd (pre @ s) (int (length pre) + i) = rd s i"
  by (auto simp: rd_def nth_append nat_add_distrib)

lemma rd_bytes_shift: "0 \<le> i \<Longrightarrow> rd_bytes (pre @ s) (int (length pre) + i) n = rd_bytes s i n"
  by (auto simp: rd_bytes_def nat_add_distrib)

lemma shift_in_shift: "0 \<le> i \<Longrightarrow> shift_in n (pre @ s) (int (length pre) + i) v = shift_in n s i v"
proof (induction n arbitrary: i v)
  case 0
  then show ?case by simp
next
  case (Suc n)
  show ?case using Suc by (simp add: rd_shift add.assoc)
qed

lemmas shift0 = rd_shift [of 0, simplified] rd_bytes_shift [of 0, simplified]
  shift_in_shift [of 0, simplified]

definition length_octets16 :: "nat \<Rightarrow> byte list" where
  "length_octets16 n = [of_nat (n div 256), of_nat (n mod 256)]"

lemma length_field_value:
  assumes "n < 65536"
  shows "uint (ucast (of_nat (n div 256) :: byte) * 0x100 + ucast (of_nat (n mod 256) :: byte) :: uint16)
    = int n"
proof -
  have "n div 256 < 256" using assms by (simp add: less_mult_imp_div_less)
  then have "unat (of_nat (n div 256) :: byte) = n div 256"
    by (simp add: unsigned_of_nat take_bit_nat_eq_self)
  moreover have "unat (of_nat (n mod 256) :: byte) = n mod 256"
    by (simp add: unsigned_of_nat take_bit_nat_eq_self)
  ultimately have "(ucast (of_nat (n div 256) :: byte) * 0x100 + ucast (of_nat (n mod 256) :: byte) :: uint16)
      = of_nat (n div 256) * 0x100 + of_nat (n mod 256)"
    by (metis of_nat_unat)
  also have "\<dots> = of_nat (n div 256 * 256 + n mod 256)"
    by (simp only: of_nat_add of_nat_mult of_nat_numeral)
  also have "n div 256 * 256 + n mod 256 = n" by simp
  finally show ?thesis using assms by (simp add: unsigned_of_nat take_bit_nat_eq_self)
qed

end
