(* ===== verification/String_Utilities.thy ===== *)
theory String_Utilities
  imports Prelude
begin

text \<open>
  String helpers, \<open>src/common/string_utilities.cc\<close>, and byte order conversion from
  \<open>src/common/conversions.cc\<close>. A \<open>char*\<close> is the list of the bytes from its address to the end of
  the allocation; the functions that allocate return the new allocation, and allocation succeeds.
\<close>

section \<open>Copies\<close>

definition StringUtils_createStringFromBuffer :: "byte list \<Rightarrow> int \<Rightarrow> byte list option" where
  "StringUtils_createStringFromBuffer buf sz = do {
     bs \<leftarrow> rd_bytes buf 0 sz;
     Some (bs @ [0]) }"

definition StringUtils_copyString :: "byte list \<Rightarrow> byte list option" where
  "StringUtils_copyString string = do {
     n \<leftarrow> strlen string;
     rd_bytes string 0 (int (n + 1)) }"

definition StringUtils_createStringFromBufferInBuffer ::
    "byte list \<Rightarrow> byte list \<Rightarrow> nat \<Rightarrow> byte list option" where
  "StringUtils_createStringFromBufferInBuffer newString buf sz = do {
     s \<leftarrow> memcpy newString buf sz;
     if sz < length s then Some (s[sz := 0]) else None }"

definition memcpyReverseByteOrder :: "byte list \<Rightarrow> byte list \<Rightarrow> nat \<Rightarrow> byte list option" where
  "memcpyReverseByteOrder dst src sz =
     (if sz \<le> length dst \<and> sz \<le> length src
      then Some (fold (\<lambda>i d. d[i := src ! (sz - i - 1)]) [0..<sz] dst) else None)"

lemma copyString_c_str [simp]:
  "0 \<notin> set s \<Longrightarrow> StringUtils_copyString (c_str s) = Some (c_str s)"
  by (simp add: StringUtils_copyString_def rd_bytes_def c_str_def strlen_append_zero)

lemma createStringFromBufferInBuffer_ok:
  assumes "n < length dst" and "n \<le> length buf"
  shows "StringUtils_createStringFromBufferInBuffer dst buf n
    = Some (take n buf @ 0 # drop (Suc n) dst)"
proof -
  have "(take n buf @ drop n dst)[n := 0] = take n buf @ 0 # drop (Suc n) dst"
    using assms by (simp add: list_update_append Cons_nth_drop_Suc [symmetric])
  then show ?thesis using assms
    by (simp add: StringUtils_createStringFromBufferInBuffer_def memcpy_def)
qed

lemma fold_update_prefix:
  "n \<le> length dst \<Longrightarrow> fold (\<lambda>i d. d[i := f i]) [0..<n] dst = map f [0..<n] @ drop n dst"
proof (induction n)
  case 0
  then show ?case by simp
next
  case (Suc n)
  then show ?case
    by (simp add: list_update_append Cons_nth_drop_Suc [symmetric])
qed

lemma memcpyReverseByteOrder_rev:
  assumes "n \<le> length dst" and "n \<le> length src"
  shows "memcpyReverseByteOrder dst src n = Some (rev (take n src) @ drop n dst)"
proof -
  have "map (\<lambda>i. src ! (n - i - 1)) [0..<n] = rev (take n src)"
    using assms by (auto intro!: nth_equalityI simp: rev_nth)
  then show ?thesis
    using assms by (simp add: memcpyReverseByteOrder_def fold_update_prefix)
qed

lemma memcpyReverseByteOrder_le_bytes:
  "LENGTH('a) div 8 \<le> length dst \<Longrightarrow>
   memcpyReverseByteOrder dst (le_bytes (w :: 'a::len word)) (LENGTH('a) div 8)
     = Some (be_bytes w @ drop (LENGTH('a) div 8) dst)"
  by (simp add: memcpyReverseByteOrder_rev be_bytes_def)

section \<open>Bounded copy\<close>

text \<open>\<open>dst[pos] = b\<close>, checked.\<close>

definition store :: "byte list \<Rightarrow> nat \<Rightarrow> byte \<Rightarrow> byte list option" where
  "store dst pos b = (if pos < length dst then Some (dst[pos := b]) else None)"

fun copy_max :: "int \<Rightarrow> byte list \<Rightarrow> nat \<Rightarrow> byte list \<Rightarrow> byte list option" where
  "copy_max maxStringSize [] destPos res = None"
| "copy_max maxStringSize (b # str) destPos res =
     (if b \<noteq> 0
      then if int destPos < maxStringSize
           then do {
             res \<leftarrow> store res destPos b;
             copy_max maxStringSize str (destPos + 1) res }
           else store res destPos 0
      else store res destPos 0)"

text \<open>A \<open>NULL\<close> destination is replaced by a new allocation.\<close>

definition StringUtils_copyStringMax ::
    "byte list option \<Rightarrow> int \<Rightarrow> byte list \<Rightarrow> byte list option" where
  "StringUtils_copyStringMax dest maxBufferSize str1 =
     (let res = (case dest of Some d \<Rightarrow> d | None \<Rightarrow> replicate (nat maxBufferSize) 0)
      in copy_max (maxBufferSize - 1) str1 0 res)"

lemma copy_max_spec:
  assumes "0 \<notin> set s" and "length pre \<le> m" and "m < length pre + length dst"
  shows "copy_max (int m) (s @ 0 # rest) (length pre) (pre @ dst)
    = Some (pre @ take (m - length pre) s @ 0 # drop (Suc (min (m - length pre) (length s))) dst)"
  using assms
proof (induction s arbitrary: pre dst)
  case Nil
  then obtain d dst' where "dst = d # dst'" by (cases dst) auto
  then show ?case by (simp add: store_def)
next
  case (Cons b s)
  obtain d dst' where d: "dst = d # dst'" using Cons.prems by (cases dst) auto
  show ?case
  proof (cases "length pre < m")
    case True
    have "copy_max (int m) (s @ 0 # rest) (length (pre @ [b])) ((pre @ [b]) @ dst')
        = Some ((pre @ [b]) @ take (m - length (pre @ [b])) s
            @ 0 # drop (Suc (min (m - length (pre @ [b])) (length s))) dst')"
      by (rule Cons.IH) (use Cons.prems True d in auto)
    moreover obtain k where "m - length pre = Suc k"
      using True by (metis Suc_diff_Suc)
    ultimately show ?thesis
      using Cons.prems True d by (simp add: store_def min_def) (auto simp: diff_Suc split: nat.splits)
  next
    case False
    then have "m = length pre" using Cons.prems by simp
    then show ?thesis using Cons.prems d by (simp add: store_def)
  qed
qed

lemma copyStringMax_spec:
  assumes "0 \<notin> set s" and "0 < n" and "n \<le> length dst"
  shows "StringUtils_copyStringMax (Some dst) (int n) (c_str s)
    = Some (take (n - 1) s @ 0 # drop (Suc (min (n - 1) (length s))) dst)"
proof -
  have "int n - 1 = int (n - 1)" using assms(2) by simp
  then show ?thesis
    using copy_max_spec [of s "[]" "n - 1" dst "[]"] assms
    by (simp add: StringUtils_copyStringMax_def c_str_def)
qed

end
