(* ===== verification/Mms_Value.thy ===== *)
theory Mms_Value
  imports Ber_Integer Ber_Tlv String_Utilities
begin

text \<open>
  MMS values, \<open>src/mms/iso_mms/common/mms_value.cc\<close> with the structure of
  \<open>mms_value_internal.h\<close>. The tagged union is a datatype with one constructor per value of
  \<open>MmsType\<close>; reading a member of the union other than the one that was stored is \<open>None\<close>.
  Constructors, element access, bit strings and time stamps are modelled with their invariant.
\<close>

section \<open>The tagged union\<close>

datatype MmsType = MMS_ARRAY | MMS_STRUCTURE | MMS_BOOLEAN | MMS_BIT_STRING | MMS_INTEGER
  | MMS_UNSIGNED | MMS_FLOAT | MMS_OCTET_STRING | MMS_VISIBLE_STRING | MMS_GENERALIZED_TIME
  | MMS_BINARY_TIME | MMS_BCD | MMS_OBJ_ID | MMS_STRING | MMS_UTC_TIME | MMS_DATA_ACCESS_ERROR

text \<open>
  Array and structure: the \<open>components\<close> array, \<open>None\<close> for a \<open>NULL\<close> entry. Bit string: the number
  of bits and the buffer. Float: exponent width, format width, buffer. Octet string: size,
  maximal size, buffer. The string types: the buffer (\<open>None\<close> for \<open>NULL\<close>) and its size. Binary
  time: its size and buffer.
\<close>

datatype MmsValue =
    MmsArray "MmsValue option list"
  | MmsStructure "MmsValue option list"
  | MmsBoolean bool
  | MmsBitString nat "byte list"
  | MmsInteger Asn1PrimitiveValue
  | MmsUnsigned Asn1PrimitiveValue
  | MmsFloat byte byte "byte list"
  | MmsOctetString uint16 int "byte list"
  | MmsVisibleString "byte list option" int
  | MmsGeneralizedTime
  | MmsBinaryTime byte "byte list"
  | MmsBcd
  | MmsObjId
  | MmsString "byte list option" int
  | MmsUtcTime "byte list"
  | MmsDataAccessError uint32

fun MmsValue_getType :: "MmsValue \<Rightarrow> MmsType" where
  "MmsValue_getType (MmsArray _) = MMS_ARRAY"
| "MmsValue_getType (MmsStructure _) = MMS_STRUCTURE"
| "MmsValue_getType (MmsBoolean _) = MMS_BOOLEAN"
| "MmsValue_getType (MmsBitString _ _) = MMS_BIT_STRING"
| "MmsValue_getType (MmsInteger _) = MMS_INTEGER"
| "MmsValue_getType (MmsUnsigned _) = MMS_UNSIGNED"
| "MmsValue_getType (MmsFloat _ _ _) = MMS_FLOAT"
| "MmsValue_getType (MmsOctetString _ _ _) = MMS_OCTET_STRING"
| "MmsValue_getType (MmsVisibleString _ _) = MMS_VISIBLE_STRING"
| "MmsValue_getType MmsGeneralizedTime = MMS_GENERALIZED_TIME"
| "MmsValue_getType (MmsBinaryTime _ _) = MMS_BINARY_TIME"
| "MmsValue_getType MmsBcd = MMS_BCD"
| "MmsValue_getType MmsObjId = MMS_OBJ_ID"
| "MmsValue_getType (MmsString _ _) = MMS_STRING"
| "MmsValue_getType (MmsUtcTime _) = MMS_UTC_TIME"
| "MmsValue_getType (MmsDataAccessError _) = MMS_DATA_ACCESS_ERROR"

section \<open>Constructors and element access\<close>

definition MmsValue_newBoolean :: "bool \<Rightarrow> MmsValue" where
  "MmsValue_newBoolean boolean = MmsBoolean boolean"

fun MmsValue_setBoolean :: "MmsValue \<Rightarrow> bool \<Rightarrow> MmsValue option" where
  "MmsValue_setBoolean (MmsBoolean _) boolValue = Some (MmsBoolean boolValue)"
| "MmsValue_setBoolean _ _ = None"

fun MmsValue_getBoolean :: "MmsValue \<Rightarrow> bool option" where
  "MmsValue_getBoolean (MmsBoolean b) = Some b"
| "MmsValue_getBoolean _ = None"

definition MmsValue_createEmptyArray :: "nat \<Rightarrow> MmsValue" where
  "MmsValue_createEmptyArray sz = MmsArray (replicate sz None)"

definition MmsValue_createEmptyStructure :: "nat \<Rightarrow> MmsValue option" where
  "MmsValue_createEmptyStructure sz =
     (case MmsValue_createEmptyArray sz of MmsArray cs \<Rightarrow> Some (MmsStructure cs) | _ \<Rightarrow> None)"

fun MmsValue_getArraySize :: "MmsValue \<Rightarrow> nat option" where
  "MmsValue_getArraySize (MmsArray cs) = Some (length cs)"
| "MmsValue_getArraySize (MmsStructure cs) = Some (length cs)"
| "MmsValue_getArraySize _ = None"

text \<open>\<open>None\<close> of the result is \<open>NULL\<close>.\<close>

fun MmsValue_getElement :: "MmsValue \<Rightarrow> int \<Rightarrow> MmsValue option" where
  "MmsValue_getElement (MmsArray cs) i =
     (if i < 0 \<or> int (length cs) \<le> i then None else cs ! nat i)"
| "MmsValue_getElement (MmsStructure cs) i =
     (if i < 0 \<or> int (length cs) \<le> i then None else cs ! nat i)"
| "MmsValue_getElement _ i = None"

fun MmsValue_setElement :: "MmsValue \<Rightarrow> int \<Rightarrow> MmsValue option \<Rightarrow> MmsValue" where
  "MmsValue_setElement (MmsArray cs) i e =
     MmsArray (if i < 0 \<or> int (length cs) \<le> i then cs else cs[nat i := e])"
| "MmsValue_setElement (MmsStructure cs) i e =
     MmsStructure (if i < 0 \<or> int (length cs) \<le> i then cs else cs[nat i := e])"
| "MmsValue_setElement v i e = v"

definition MmsValue_newInteger :: "int \<Rightarrow> MmsValue" where
  "MmsValue_newInteger sz =
     MmsInteger (if sz \<le> 32 then BerInteger_createInt32 else BerInteger_createInt64)"

definition MmsValue_newUnsigned :: "int \<Rightarrow> MmsValue" where
  "MmsValue_newUnsigned sz =
     MmsUnsigned (if sz \<le> 32 then BerInteger_createInt32 else BerInteger_createInt64)"

definition MmsValue_newIntegerFromInt32 :: "uint32 \<Rightarrow> MmsValue option" where
  "MmsValue_newIntegerFromInt32 integer =
     map_option MmsInteger (BerInteger_createFromInt32 integer)"

fun MmsValue_toInt64 :: "MmsValue \<Rightarrow> uint64 option" where
  "MmsValue_toInt64 (MmsInteger v) = BerInteger_toInt64 v"
| "MmsValue_toInt64 (MmsUnsigned v) = BerInteger_toInt64 v"
| "MmsValue_toInt64 _ = Some 0"

fun MmsValue_toUint32 :: "MmsValue \<Rightarrow> uint32 option" where
  "MmsValue_toUint32 (MmsInteger v) = BerInteger_toUint32 v"
| "MmsValue_toUint32 (MmsUnsigned v) = BerInteger_toUint32 v"
| "MmsValue_toUint32 _ = Some 0"

definition MmsValue_newOctetString :: "int \<Rightarrow> int \<Rightarrow> MmsValue" where
  "MmsValue_newOctetString sz maxSz =
     MmsOctetString (word_of_int sz) maxSz (replicate (nat \<bar>maxSz\<bar>) 0)"

fun MmsValue_getOctetStringSize :: "MmsValue \<Rightarrow> uint16 option" where
  "MmsValue_getOctetStringSize (MmsOctetString sz _ _) = Some sz"
| "MmsValue_getOctetStringSize _ = None"

text \<open>The \<open>int16_t\<close> size of a string wraps.\<close>

definition MmsValue_newStringFromByteArray ::
    "(byte list option \<Rightarrow> int \<Rightarrow> MmsValue) \<Rightarrow> byte list \<Rightarrow> int \<Rightarrow> MmsValue option" where
  "MmsValue_newStringFromByteArray type byteArray sz = do {
     buf \<leftarrow> StringUtils_createStringFromBuffer byteArray sz;
     Some (type (Some buf) (signed_take_bit 15 sz)) }"

definition MmsValue_newVisibleStringFromByteArray :: "byte list \<Rightarrow> int \<Rightarrow> MmsValue option" where
  "MmsValue_newVisibleStringFromByteArray byteArray sz =
     MmsValue_newStringFromByteArray MmsVisibleString byteArray sz"

fun MmsValue_toString :: "MmsValue \<Rightarrow> byte list option" where
  "MmsValue_toString (MmsVisibleString buf _) = buf"
| "MmsValue_toString (MmsString buf _) = buf"
| "MmsValue_toString _ = None"

section \<open>Bit strings\<close>

text \<open>C++ integer division and remainder truncate toward zero.\<close>

definition c_div :: "int \<Rightarrow> int \<Rightarrow> int" where
  "c_div a b = sgn a * sgn b * (\<bar>a\<bar> div \<bar>b\<bar>)"

definition c_mod :: "int \<Rightarrow> int \<Rightarrow> int" where
  "c_mod a b = a - b * c_div a b"

fun bitStringByteSize :: "MmsValue \<Rightarrow> nat option" where
  "bitStringByteSize (MmsBitString bitSize _) =
     Some (bitSize div 8 + (if 0 < bitSize mod 8 then 1 else 0))"
| "bitStringByteSize _ = None"

definition MmsValue_newBitString :: "int \<Rightarrow> MmsValue option" where
  "MmsValue_newBitString bitSize =
     (let sz = nat \<bar>bitSize\<bar> in do {
        n \<leftarrow> bitStringByteSize (MmsBitString sz []);
        Some (MmsBitString sz (replicate n 0)) })"

fun MmsValue_getBitStringSize :: "MmsValue \<Rightarrow> nat option" where
  "MmsValue_getBitStringSize (MmsBitString sz _) = Some sz"
| "MmsValue_getBitStringSize _ = None"

definition bit_mask :: "int \<Rightarrow> byte" where
  "bit_mask bitPos = push_bit (nat (7 - c_mod bitPos 8)) 1"

fun MmsValue_setBitStringBit :: "MmsValue \<Rightarrow> int \<Rightarrow> bool \<Rightarrow> MmsValue option" where
  "MmsValue_setBitStringBit (MmsBitString sz buf) bitPos value =
     (if bitPos < int sz
      then do {
        let bytePos = c_div bitPos 8;
        b \<leftarrow> rd buf bytePos;
        Some (MmsBitString sz
          (buf[nat bytePos := if value then b OR bit_mask bitPos else b AND NOT (bit_mask bitPos)])) }
      else Some (MmsBitString sz buf))"
| "MmsValue_setBitStringBit _ bitPos value = None"

fun MmsValue_getBitStringBit :: "MmsValue \<Rightarrow> int \<Rightarrow> bool option" where
  "MmsValue_getBitStringBit (MmsBitString sz buf) bitPos =
     (if bitPos < int sz
      then do {
        b \<leftarrow> rd buf (c_div bitPos 8);
        Some (0 < b AND bit_mask bitPos) }
      else Some False)"
| "MmsValue_getBitStringBit _ bitPos = None"

text \<open>The loops run over the bit positions in ascending (\<open>[0..<size]\<close>) or descending order.\<close>

fun set_bits :: "nat list \<Rightarrow> uint32 \<Rightarrow> MmsValue \<Rightarrow> MmsValue option" where
  "set_bits [] intValue v = Some v"
| "set_bits (p # ps) intValue v = do {
     v \<leftarrow> MmsValue_setBitStringBit v (int p) (intValue AND 1 = 1);
     set_bits ps (drop_bit 1 intValue) v }"

definition MmsValue_setBitStringFromInteger :: "MmsValue \<Rightarrow> uint32 \<Rightarrow> MmsValue option" where
  "MmsValue_setBitStringFromInteger self intValue = do {
     sz \<leftarrow> MmsValue_getBitStringSize self;
     set_bits [0..<sz] intValue self }"

definition MmsValue_setBitStringFromIntegerBigEndian :: "MmsValue \<Rightarrow> uint32 \<Rightarrow> MmsValue option" where
  "MmsValue_setBitStringFromIntegerBigEndian self intValue = do {
     sz \<leftarrow> MmsValue_getBitStringSize self;
     set_bits (rev [0..<sz]) intValue self }"

text \<open>\<open>value += (1 << i)\<close>: a shift by the width of \<open>int\<close> or more is undefined.\<close>

fun get_bits :: "nat list \<Rightarrow> nat \<Rightarrow> uint32 \<Rightarrow> MmsValue \<Rightarrow> uint32 option" where
  "get_bits [] i value v = Some value"
| "get_bits (p # ps) i value v = do {
     b \<leftarrow> MmsValue_getBitStringBit v (int p);
     if b
     then if i < 32 then get_bits ps (i + 1) (value + push_bit i 1) v else None
     else get_bits ps (i + 1) value v }"

definition MmsValue_getBitStringAsInteger :: "MmsValue \<Rightarrow> uint32 option" where
  "MmsValue_getBitStringAsInteger self = do {
     sz \<leftarrow> MmsValue_getBitStringSize self;
     get_bits [0..<sz] 0 0 self }"

definition MmsValue_getBitStringAsIntegerBigEndian :: "MmsValue \<Rightarrow> uint32 option" where
  "MmsValue_getBitStringAsIntegerBigEndian self = do {
     sz \<leftarrow> MmsValue_getBitStringSize self;
     get_bits (rev [0..<sz]) 0 0 self }"

section \<open>Time stamps\<close>

definition setUtcTimeMs :: "MmsValue \<Rightarrow> uint64 \<Rightarrow> byte \<Rightarrow> MmsValue option" where
  "setUtcTimeMs self timeval timeQuality =
     (case self of
        MmsUtcTime valueArray \<Rightarrow> do {
          let timeval32 = (ucast (timeval div 1000) :: uint32);
          valueArray \<leftarrow> memcpyReverseByteOrder valueArray (le_bytes timeval32) 4;
          let remainder = (ucast (timeval mod 1000) :: uint32);
          let fractionOfSecond = remainder * 16777 + (remainder * 216) div 1000;
          if length valueArray = 8
          then Some (MmsUtcTime (valueArray
            [4 := ucast (drop_bit 16 fractionOfSecond AND 0xff),
             5 := ucast (drop_bit 8 fractionOfSecond AND 0xff),
             6 := ucast (fractionOfSecond AND 0xff),
             7 := timeQuality]))
          else None }
      | _ \<Rightarrow> None)"

definition MmsValue_setUtcTimeMs :: "MmsValue \<Rightarrow> uint64 \<Rightarrow> MmsValue option" where
  "MmsValue_setUtcTimeMs self timeval = setUtcTimeMs self timeval 0x0a"

definition MmsValue_newUtcTimeByMsTime :: "uint64 \<Rightarrow> MmsValue option" where
  "MmsValue_newUtcTimeByMsTime timeval =
     MmsValue_setUtcTimeMs (MmsUtcTime (replicate 8 0)) timeval"

definition MmsValue_newUtcTime :: "uint32 \<Rightarrow> MmsValue" where
  "MmsValue_newUtcTime timeval =
     (let timeArray = le_bytes timeval
      in MmsUtcTime ((replicate 8 0)[0 := timeArray ! 3, 1 := timeArray ! 2,
                                      2 := timeArray ! 1, 3 := timeArray ! 0]))"

definition MmsValue_setUtcTime :: "MmsValue \<Rightarrow> uint32 \<Rightarrow> MmsValue option" where
  "MmsValue_setUtcTime self timeval =
     (case self of
        MmsUtcTime valueArray \<Rightarrow> do {
          valueArray \<leftarrow> memcpyReverseByteOrder valueArray (le_bytes timeval) 4;
          Some (MmsUtcTime valueArray) }
      | _ \<Rightarrow> None)"

text \<open>A null \<open>buffer\<close> leaves the value alone.\<close>

definition MmsValue_setUtcTimeByBuffer :: "MmsValue \<Rightarrow> byte list option \<Rightarrow> MmsValue option" where
  "MmsValue_setUtcTimeByBuffer self buffer =
     (case (self, buffer) of
        (MmsUtcTime valueArray, Some buf) \<Rightarrow> do {
          valueArray \<leftarrow> memcpy valueArray buf 8;
          Some (MmsUtcTime valueArray) }
      | (_, Some _) \<Rightarrow> None
      | (_, None) \<Rightarrow> Some self)"

text \<open>The 32 bit word whose object representation the reversed copy fills.\<close>

definition MmsValue_getUtcTimeInMs :: "MmsValue \<Rightarrow> uint64 option" where
  "MmsValue_getUtcTimeInMs self =
     (case self of
        MmsUtcTime valueArray \<Rightarrow> do {
          timeval \<leftarrow> memcpyReverseByteOrder (replicate 4 0) valueArray 4;
          let timeval32 = (of_nat (be_nat (rev timeval)) :: uint32);
          b4 \<leftarrow> rd valueArray 4;
          b5 \<leftarrow> rd valueArray 5;
          b6 \<leftarrow> rd valueArray 6;
          let fractionOfSecond = push_bit 16 (ucast b4) + push_bit 8 (ucast b5) + (ucast b6 :: uint32);
          let remainder = fractionOfSecond div 16777;
          Some (ucast timeval32 * 1000 + ucast remainder) }
      | _ \<Rightarrow> None)"

definition MmsValue_newBinaryTime :: "bool \<Rightarrow> MmsValue" where
  "MmsValue_newBinaryTime timeOfDay = MmsBinaryTime (if timeOfDay then 4 else 6) (replicate 6 0)"

definition MmsValue_getBinaryTimeAsUtcMs :: "MmsValue \<Rightarrow> uint64 option" where
  "MmsValue_getBinaryTimeAsUtcMs self =
     (case self of
        MmsBinaryTime sz buf \<Rightarrow>
          if length buf = 6
          then let
            timestamp = (if sz = 6
              then let daysDiff = (ucast (buf ! 4) * 256 + ucast (buf ! 5) :: uint16);
                       mmsTime = ucast daysDiff * 86400000
                   in mmsTime + 441763200000
              else 0 :: uint64);
            msSinceMidnight = push_bit 24 (ucast (buf ! 0)) + push_bit 16 (ucast (buf ! 1))
              + push_bit 8 (ucast (buf ! 2)) + (ucast (buf ! 3) :: uint32)
            in Some (timestamp + ucast msSinceMidnight)
          else None
      | _ \<Rightarrow> None)"

section \<open>Floating point\<close>

text \<open>
  The conversions between \<open>float\<close> and \<open>double\<close>, on the IEEE 754 encodings: widening is exact,
  narrowing rounds to nearest, ties to even, and NaNs are made quiet.
\<close>

fun top_bit :: "nat \<Rightarrow> nat" where
  "top_bit m = (if m < 2 then 0 else Suc (top_bit (m div 2)))"

declare top_bit.simps [simp del]

definition round_shift :: "nat \<Rightarrow> nat \<Rightarrow> nat" where
  "round_shift n k =
     (let q = n div 2 ^ k; r = n mod 2 ^ k; h = 2 ^ (k - 1)
      in if h < r \<or> (r = h \<and> odd q) then q + 1 else q)"

definition quiet32 :: "nat \<Rightarrow> nat" where
  "quiet32 m = (if m < 2 ^ 22 then m + 2 ^ 22 else m)"

definition widen :: "nat \<Rightarrow> nat \<Rightarrow> nat" where
  "widen e m =
     (if e = 255 then 2047 * 2 ^ 52 + (if m = 0 then 0 else quiet32 m * 2 ^ 29)
      else if e = 0
      then if m = 0 then 0
           else let k = top_bit m in (k + 874) * 2 ^ 52 + (m - 2 ^ k) * 2 ^ (52 - k)
      else (e + 896) * 2 ^ 52 + m * 2 ^ 29)"

definition narrow :: "nat \<Rightarrow> nat \<Rightarrow> nat" where
  "narrow e m =
     (if e = 2047
      then 255 * 2 ^ 23 + (if m = 0 then 0 else quiet32 (m div 2 ^ 29))
      else if e = 0 then 0
      else if 897 \<le> e then min (round_shift ((e - 896) * 2 ^ 52 + m) 29) (255 * 2 ^ 23)
      else round_shift (2 ^ 52 + m) (926 - e))"

definition f32_to_f64 :: "uint32 \<Rightarrow> uint64" where
  "f32_to_f64 x =
     (let n = unat x
      in of_nat (n div 2 ^ 31 * 2 ^ 63 + widen (n div 2 ^ 23 mod 2 ^ 8) (n mod 2 ^ 23)))"

definition f64_to_f32 :: "uint64 \<Rightarrow> uint32" where
  "f64_to_f32 x =
     (let n = unat x
      in of_nat (n div 2 ^ 63 * 2 ^ 31 + narrow (n div 2 ^ 52 mod 2 ^ 11) (n mod 2 ^ 52)))"

text \<open>
  \<open>newFloat\<close> allocates without clearing: the four bytes of the buffer beyond the float, which no
  function reads while the format width is 32, are zero in the model.
\<close>

definition MmsValue_newFloat :: "uint32 \<Rightarrow> MmsValue" where
  "MmsValue_newFloat value = MmsFloat 8 32 (le_bytes value @ replicate 4 0)"

definition MmsValue_newDouble :: "uint64 \<Rightarrow> MmsValue" where
  "MmsValue_newDouble value = MmsFloat 11 64 (le_bytes value)"

fun MmsValue_setFloat :: "MmsValue \<Rightarrow> uint32 \<Rightarrow> MmsValue option" where
  "MmsValue_setFloat (MmsFloat exponentWidth formatWidth buf) newFloatValue =
     (if formatWidth = 32
      then do {
        b \<leftarrow> memcpy buf (le_bytes newFloatValue) 4;
        Some (MmsFloat exponentWidth formatWidth b) }
      else if formatWidth = 64
      then do {
        b \<leftarrow> memcpy buf (le_bytes (f32_to_f64 newFloatValue)) 8;
        Some (MmsFloat exponentWidth formatWidth b) }
      else Some (MmsFloat exponentWidth formatWidth buf))"
| "MmsValue_setFloat v newFloatValue = Some v"

fun MmsValue_setDouble :: "MmsValue \<Rightarrow> uint64 \<Rightarrow> MmsValue option" where
  "MmsValue_setDouble (MmsFloat exponentWidth formatWidth buf) newDoubleValue =
     (if formatWidth = 32
      then do {
        b \<leftarrow> memcpy buf (le_bytes (f64_to_f32 newDoubleValue)) 4;
        Some (MmsFloat exponentWidth formatWidth b) }
      else if formatWidth = 64
      then do {
        b \<leftarrow> memcpy buf (le_bytes newDoubleValue) 8;
        Some (MmsFloat exponentWidth formatWidth b) }
      else Some (MmsFloat exponentWidth formatWidth buf))"
| "MmsValue_setDouble v newDoubleValue = Some v"

fun MmsValue_toFloat :: "MmsValue \<Rightarrow> uint32 option" where
  "MmsValue_toFloat (MmsFloat exponentWidth formatWidth buf) =
     (if formatWidth = 32
      then do { b \<leftarrow> rd_bytes buf 0 4; Some (of_nat (be_nat (rev b))) }
      else if formatWidth = 64
      then do { b \<leftarrow> rd_bytes buf 0 8; Some (f64_to_f32 (of_nat (be_nat (rev b)))) }
      else Some 0)"
| "MmsValue_toFloat v = Some 0"

section \<open>Bit strings are arrays of bits\<close>

definition bits_of :: "nat \<Rightarrow> byte list \<Rightarrow> bool list" where
  "bits_of n buf = map (\<lambda>i. bit (buf ! (i div 8)) (7 - i mod 8)) [0..<n]"

lemma length_bits_of [simp]: "length (bits_of n buf) = n"
  by (simp add: bits_of_def)

lemma bit_mask_nat: "bit_mask (int p) = push_bit (7 - p mod 8) 1"
proof -
  have "c_div (int p) 8 = int (p div 8)"
    by (cases "p = 0") (simp_all add: c_div_def zdiv_int)
  then have "c_mod (int p) 8 = int (p mod 8)"
    by (simp add: c_mod_def minus_mult_div_eq_mod zmod_int zdiv_int)
  moreover have "nat (7 - int (p mod 8)) = 7 - p mod 8" by auto
  ultimately show ?thesis by (simp add: bit_mask_def)
qed

lemma c_div_nat: "c_div (int p) 8 = int (p div 8)"
  by (cases "p = 0") (simp_all add: c_div_def zdiv_int)

lemma bit_byte_pos:
  assumes "p < n" and "length buf = bit_byte_size n"
  shows "p div 8 < length buf"
  using assms bit_byte_size_bounds [of n] by linarith

lemma nat_int_div: "nat (int p div 8) = p div 8"
  by (metis nat_int of_nat_numeral zdiv_int)

lemma rd_byte_pos:
  assumes "p < n" and "length buf = bit_byte_size n"
  shows "rd buf (int (p div 8)) = Some (buf ! (p div 8))"
  unfolding rd_def using bit_byte_pos [OF assms] by (simp only: of_nat_less_iff nat_int) simp

lemma getBitStringBit_bits:
  assumes "p < n" and "length buf = bit_byte_size n"
  shows "MmsValue_getBitStringBit (MmsBitString n buf) (int p) = Some (bits_of n buf ! p)"
proof -
  have "(0 < b AND push_bit k (1 :: byte)) = bit b k" if "k < 8" for b k
    using that and_exp_eq_0_iff_not_bit [of b k] by (simp add: word_gt_0 push_bit_of_1)
  then show ?thesis
    using rd_byte_pos [OF assms] assms(1)
    by (simp add: bits_of_def c_div_nat bit_mask_nat)
qed

lemma getBitStringBit_outside:
  "int n \<le> p \<Longrightarrow> MmsValue_getBitStringBit (MmsBitString n buf) p = Some False"
  by simp

lemma bit_index_inj:
  "p div 8 = q div 8 \<Longrightarrow> 7 - p mod 8 = 7 - q mod 8 \<Longrightarrow> p = (q :: nat)"
proof -
  assume "p div 8 = q div 8" "7 - p mod 8 = 7 - q mod 8"
  moreover have "p mod 8 \<le> 7" "q mod 8 \<le> 7"
    using mod_less_divisor [of 8 p] mod_less_divisor [of 8 q] by linarith+
  ultimately have "p mod 8 = q mod 8" by linarith
  with \<open>p div 8 = q div 8\<close> show ?thesis by (metis div_mult_mod_eq)
qed

lemma setBitStringBit_bits:
  assumes "p < n" and "length buf = bit_byte_size n"
  obtains buf' where "MmsValue_setBitStringBit (MmsBitString n buf) (int p) v
      = Some (MmsBitString n buf')"
    and "length buf' = bit_byte_size n" and "bits_of n buf' = (bits_of n buf)[p := v]"
proof -
  define k where "k = 7 - p mod 8"
  define b where "b = buf ! (p div 8)"
  define b' where "b' = (if v then b OR push_bit k 1 else b AND NOT (push_bit k 1))"
  have pos: "p div 8 < length buf" by (rule bit_byte_pos [OF assms])
  have k: "k < 8" by (simp add: k_def)
  have b': "bit b' i = (if i = k then v else bit b i)" if "i < 8" for i
    using that k by (auto simp: b'_def bit_simps)
  have "bits_of n (buf[p div 8 := b']) = (bits_of n buf)[p := v]"
  proof (rule nth_equalityI)
    fix q assume "q < length (bits_of n (buf[p div 8 := b']))"
    then have q: "q < n" by simp
    have "bit b' (7 - q mod 8) = (if 7 - q mod 8 = k then v else bit b (7 - q mod 8))"
      by (rule b') simp
    moreover have "q div 8 = p div 8 \<Longrightarrow> 7 - q mod 8 = k \<longleftrightarrow> q = p"
      using bit_index_inj [of q p] by (auto simp: k_def)
    ultimately show "bits_of n (buf[p div 8 := b']) ! q = (bits_of n buf)[p := v] ! q"
      using q pos by (auto simp: bits_of_def nth_list_update b_def)
  qed simp
  moreover have "MmsValue_setBitStringBit (MmsBitString n buf) (int p) v
      = Some (MmsBitString n (buf[p div 8 := b']))"
    using assms(1) rd_byte_pos [OF assms]
    by (simp add: c_div_nat bit_mask_nat b_def b'_def k_def nat_int_div)
  ultimately show thesis using that [of "buf[p div 8 := b']"] assms(2) by simp
qed

lemma set_bits_bits:
  assumes "length buf = bit_byte_size n" and "set ps \<subseteq> {..<n}" and "distinct ps"
  shows "\<exists>buf'. set_bits ps w (MmsBitString n buf) = Some (MmsBitString n buf') \<and>
    length buf' = bit_byte_size n \<and>
    (\<forall>j < length ps. bits_of n buf' ! (ps ! j) = bit w j) \<and>
    (\<forall>q < n. q \<notin> set ps \<longrightarrow> bits_of n buf' ! q = bits_of n buf ! q)"
  using assms
proof (induction ps arbitrary: w buf)
  case Nil
  then show ?case by simp
next
  case (Cons p ps)
  have p: "p < n" using Cons.prems by simp
  obtain buf1 where one: "MmsValue_setBitStringBit (MmsBitString n buf) (int p) (w AND 1 = 1)
        = Some (MmsBitString n buf1)"
      "length buf1 = bit_byte_size n" "bits_of n buf1 = (bits_of n buf)[p := (w AND 1 = 1)]"
    using setBitStringBit_bits [OF p Cons.prems(1)] by blast
  have b0: "(w AND 1 = 1) = bit w 0" by (simp add: and_one_eq odd_iff_mod_2_eq_one bit_0)
  obtain buf2 where two: "set_bits ps (drop_bit 1 w) (MmsBitString n buf1) = Some (MmsBitString n buf2)"
      "length buf2 = bit_byte_size n"
      "\<forall>j < length ps. bits_of n buf2 ! (ps ! j) = bit (drop_bit 1 w) j"
      "\<forall>q < n. q \<notin> set ps \<longrightarrow> bits_of n buf2 ! q = bits_of n buf1 ! q"
    using Cons.IH [of buf1 "drop_bit 1 w"] one Cons.prems by auto
  have "bits_of n buf2 ! ((p # ps) ! j) = bit w j" if "j < length (p # ps)" for j
    using that two(3,4) one(3) p Cons.prems(3) b0
    by (cases j) (auto simp: bit_drop_bit_eq)
  moreover have "bits_of n buf2 ! q = bits_of n buf ! q" if "q < n" "q \<notin> set (p # ps)" for q
    using that two(4) one(3) by auto
  ultimately show ?case using one two by auto
qed

lemma get_bits_sum:
  assumes "length buf = bit_byte_size n" and "set ps \<subseteq> {..<n}" and "i + length ps \<le> 32"
  shows "get_bits ps i acc (MmsBitString n buf)
    = Some (acc + push_bit i (horner_sum of_bool 2 (map ((!) (bits_of n buf)) ps)))"
  using assms
proof (induction ps arbitrary: i acc)
  case Nil
  then show ?case by simp
next
  case (Cons p ps)
  have "MmsValue_getBitStringBit (MmsBitString n buf) (int p) = Some (bits_of n buf ! p)"
    using Cons.prems by (intro getBitStringBit_bits) auto
  then show ?case
    using Cons by (simp add: push_bit_add push_bit_double push_bit_Suc mult.commute)
qed

lemma bit_integer_roundtrip:
  assumes "length buf = bit_byte_size n" and "n \<le> 32" and "set ps = {..<n}" and "distinct ps"
  obtains v where "set_bits ps w (MmsBitString n buf) = Some v"
    and "MmsValue_getBitStringSize v = Some n" and "get_bits ps 0 0 v = Some (take_bit n w)"
proof -
  have len: "length ps = n" using assms(3,4) distinct_card [of ps] by simp
  obtain buf' where buf': "set_bits ps w (MmsBitString n buf) = Some (MmsBitString n buf')"
      "length buf' = bit_byte_size n" "\<forall>j < length ps. bits_of n buf' ! (ps ! j) = bit w j"
    using set_bits_bits [OF assms(1) _ assms(4), of w] assms(3) by auto
  have "map ((!) (bits_of n buf')) ps = map (bit w) [0..<n]"
    by (rule nth_equalityI) (use buf'(3) len in auto)
  then have "get_bits ps 0 0 (MmsBitString n buf') = Some (take_bit n w)"
    using get_bits_sum [OF buf'(2), of ps 0 0] assms(2,3) len
    by (simp add: horner_sum_bit_eq_take_bit)
  with buf'(1) show thesis using that by simp
qed

section \<open>Time stamps\<close>

lemma ucast_and_ff: "(ucast ((w :: 'a::len word) AND 0xff) :: byte) = ucast w"
proof -
  have "w AND 0xff = take_bit 8 w" by (simp add: take_bit_eq_mask mask_eq_exp_minus_1)
  moreover have "(ucast (take_bit 8 w) :: byte) = ucast w"
    by (rule bit_word_eqI) (auto simp: bit_simps dest: bit_imp_le_length)
  ultimately show ?thesis by simp
qed

text \<open>Three octets of a number below \<open>2 ^ 24\<close>, taken apart and put together.\<close>

lemma three_octets:
  assumes "unat (f :: uint32) < 2 ^ 24"
  shows "push_bit 16 (ucast (ucast (drop_bit 16 f) :: byte))
    + push_bit 8 (ucast (ucast (drop_bit 8 f) :: byte)) + ucast (ucast f :: byte) = f"
    (is "?w = f")
proof -
  have N: "unat f < 16777216" using assms by simp
  let ?b = "[ucast (drop_bit 16 f), ucast (drop_bit 8 f), ucast f :: byte]"
  have "be_nat ?b = unat f div 65536 mod 256 * 65536 + (unat f div 256 mod 256 * 256 + unat f mod 256)"
    using unat_byte_of_word [of 16 f] unat_byte_of_word [of 8 f] unat_low_byte [of f] by simp
  also have "unat f div 256 mod 256 = unat f mod 65536 div 256 mod 256"
    using mod_mult2_eq [of "unat f" 256 256] by simp
  also have "unat f div 65536 mod 256 * 65536 + (unat f mod 65536 div 256 mod 256 * 256 + unat f mod 256)
      = unat f"
    by (rule split_24 [OF N])
  finally have "be_nat ?b = unat f" .
  moreover have "?w = of_nat (be_nat ?b)"
    by (simp add: push_bit_eq_mult)
  ultimately show ?thesis by simp
qed

lemma list_of_4:
  assumes "length xs = 4" obtains a b c d where "xs = [a, b, c, d]"
  using assms by (auto simp: numeral_eq_Suc length_Suc_conv)

lemma ms_fraction:
  assumes "unat (r :: uint32) < 1000"
  defines "f \<equiv> r * 16777 + (r * 216) div 1000"
  shows "unat f < 2 ^ 24" and "f div 16777 = r"
proof -
  have p: "unat (r * 16777) = unat r * 16777" "unat (r * 216) = unat r * 216"
    using assms(1) by (simp_all add: unat_mult_lem [THEN iffD1])
  have q: "unat ((r * 216) div 1000) = unat r * 216 div 1000" by (simp add: unat_div p)
  have lt: "unat r * 216 div 1000 < 216"
    using assms(1) by (simp add: less_mult_imp_div_less)
  have f: "unat f = unat r * 16777 + unat r * 216 div 1000"
    unfolding f_def using assms(1) lt p(1) q by (subst unat_add_lem [THEN iffD1]) auto
  then show "unat f < 2 ^ 24" using assms(1) lt by simp
  have "unat (f div 16777) = unat r"
    using lt by (simp add: unat_div f)
  then show "f div 16777 = r" by (simp add: word_unat_eq_iff)
qed

lemma utcTimeMs_roundtrip:
  assumes len: "length a = 8" and t: "unat t < 1000 * 2 ^ 32"
  obtains a' where "setUtcTimeMs (MmsUtcTime a) t q = Some (MmsUtcTime a')"
    and "length a' = 8" and "a' ! 7 = q" and "MmsValue_getUtcTimeInMs (MmsUtcTime a') = Some t"
proof -
  define s :: uint32 where "s = ucast (t div 1000)"
  define r :: uint32 where "r = ucast (t mod 1000)"
  define f where "f = r * 16777 + (r * 216) div 1000"
  define a' where "a' = be_bytes s @ [ucast (drop_bit 16 f), ucast (drop_bit 8 f), ucast f, q]"
  have "unat t div 1000 < 2 ^ 32" using t by (simp add: less_mult_imp_div_less)
  then have us: "unat s = unat t div 1000"
    by (simp add: s_def unsigned_ucast_eq unat_div take_bit_nat_eq_self)
  have "unat t mod 1000 < 1000" by simp
  then have "unat t mod 1000 < 2 ^ 32" by (rule less_trans) simp
  then have ur: "unat r = unat t mod 1000"
    by (simp add: r_def unsigned_ucast_eq unat_mod take_bit_nat_eq_self)
  have r: "unat r < 1000" by (simp add: ur)
  have len4: "length (be_bytes s) = 4" by simp
  obtain b0 b1 b2 b3 where b: "be_bytes s = [b0, b1, b2, b3]"
    using list_of_4 [OF len4] by blast
  have "length (drop 4 a) = 4" using len by simp
  then obtain c0 c1 c2 c3 where c: "drop 4 a = [c0, c1, c2, c3]"
    by (rule list_of_4)
  have "memcpyReverseByteOrder a (le_bytes s) 4 = Some ([b0, b1, b2, b3] @ [c0, c1, c2, c3])"
    using memcpyReverseByteOrder_le_bytes [of a s] len b c by simp
  then have set: "setUtcTimeMs (MmsUtcTime a) t q = Some (MmsUtcTime a')"
    by (simp add: setUtcTimeMs_def Let_def s_def [symmetric] r_def [symmetric] f_def [symmetric]
        a'_def b ucast_and_ff)
  have "rev [b0, b1, b2, b3] = le_bytes s" using b by (metis rev_be_bytes)
  then have "memcpyReverseByteOrder (replicate 4 0) a' 4 = Some (rev (be_bytes s))"
    using memcpyReverseByteOrder_rev [of 4 "replicate 4 0" a'] by (simp add: a'_def)
  moreover have s_eq: "of_nat (be_nat [b0, b1, b2, b3]) = s"
    using be_nat_be_bytes [of s] by (simp add: b del: be_nat.simps)
  ultimately have get: "MmsValue_getUtcTimeInMs (MmsUtcTime a') = Some (ucast s * 1000 + ucast r)"
    using three_octets [OF ms_fraction(1) [OF r]] ms_fraction(2) [OF r]
      s_eq by (simp add: MmsValue_getUtcTimeInMs_def Let_def rd_def a'_def b f_def [symmetric]
        del: be_nat.simps)
  have "(ucast s * 1000 + ucast r :: uint64) = of_nat (unat s * 1000 + unat r)"
    by simp
  also have "unat s * 1000 + unat r = unat t" by (simp add: us ur)
  finally have "ucast s * 1000 + ucast r = t" by simp
  with set get show thesis using that [of a'] by (simp add: a'_def b)
qed

section \<open>Widening a float and narrowing it again\<close>

lemma round_shift_exact [simp]: "round_shift (q * 2 ^ k) k = q"
  by (simp add: round_shift_def)

lemma top_bit_bounds: "0 < m \<Longrightarrow> 2 ^ top_bit m \<le> m \<and> m < 2 ^ Suc (top_bit m)"
proof (induction m rule: top_bit.induct)
  case (1 m)
  show ?case
  proof (cases "m < 2")
    case True
    then show ?thesis using 1 by (simp add: top_bit.simps [of m])
  next
    case False
    then have "2 ^ top_bit (m div 2) \<le> m div 2 \<and> m div 2 < 2 ^ Suc (top_bit (m div 2))"
      using 1 by auto
    then show ?thesis using False by (simp add: top_bit.simps [of m]) linarith
  qed
qed

lemma div_mod_parts: "b < (d :: nat) \<Longrightarrow> (a * d + b) div d = a \<and> (a * d + b) mod d = b"
  by simp

lemma narrow_widen_subnormal:
  assumes "0 < m" and "m < 2 ^ 23"
  shows "widen 0 m < 2 ^ 63 \<and> narrow (widen 0 m div 2 ^ 52) (widen 0 m mod 2 ^ 52) = m"
proof -
  define k where "k = top_bit m"
  have k: "2 ^ k \<le> m" "m < 2 ^ Suc k" using top_bit_bounds [OF assms(1)] by (auto simp: k_def)
  have "(2 :: nat) ^ k < 2 ^ 23" using k(1) assms(2) by linarith
  then have "k < 23" by (rule power_less_imp_less_exp [rotated]) simp
  then have k22: "k \<le> 22" by simp
  have pow: "(2 :: nat) ^ 52 = 2 ^ k * 2 ^ (52 - k)" using k22 by (simp flip: power_add)
  have lt: "(m - 2 ^ k) * 2 ^ (52 - k) < 2 ^ 52"
    unfolding pow by (rule mult_strict_right_mono) (use k in auto)
  have W: "widen 0 m = (k + 874) * 2 ^ 52 + (m - 2 ^ k) * 2 ^ (52 - k)"
    using assms(1) by (simp add: widen_def k_def Let_def)
  have parts: "widen 0 m div 2 ^ 52 = k + 874"
      "widen 0 m mod 2 ^ 52 = (m - 2 ^ k) * 2 ^ (52 - k)"
    unfolding W using div_mod_parts [OF lt, of "k + 874"] by blast+
  have "(2 :: nat) ^ 52 + (m - 2 ^ k) * 2 ^ (52 - k) = m * 2 ^ (52 - k)"
    unfolding pow using k(1) by (simp flip: add_mult_distrib)
  moreover have "926 - (k + 874) = 52 - k" by simp
  ultimately have "narrow (k + 874) ((m - 2 ^ k) * 2 ^ (52 - k)) = m"
    using k22 unfolding narrow_def by (simp only: round_shift_exact) simp
  moreover have "(k + 874) * 2 ^ 52 + (m - 2 ^ k) * 2 ^ (52 - k) < (k + 875) * 2 ^ 52"
    using lt by simp
  then have "widen 0 m < (k + 875) * 2 ^ 52" by (simp only: W)
  then have "widen 0 m < 2 ^ 63" using k22 by simp
  ultimately show ?thesis using parts by simp
qed

lemma narrow_widen:
  assumes "e < 256" and "m < 2 ^ 23" and "e = 255 \<Longrightarrow> m = 0 \<or> 2 ^ 22 \<le> m"
  shows "widen e m < 2 ^ 63 \<and>
    narrow (widen e m div 2 ^ 52) (widen e m mod 2 ^ 52) = e * 2 ^ 23 + m"
proof -
  have lt: "m * 2 ^ 29 < 2 ^ 52" using assms(2) by simp
  consider "e = 0" "m = 0" | "e = 0" "0 < m" | "0 < e" "e < 255" | "e = 255"
    using assms(1) by linarith
  then show ?thesis
  proof cases
    case 1
    then show ?thesis by (simp add: widen_def narrow_def)
  next
    case 2
    then show ?thesis using narrow_widen_subnormal [of m] assms(2) by simp
  next
    case 3
    have W: "widen e m = (e + 896) * 2 ^ 52 + m * 2 ^ 29" using 3 by (simp add: widen_def)
    have parts: "widen e m div 2 ^ 52 = e + 896" "widen e m mod 2 ^ 52 = m * 2 ^ 29"
      unfolding W using div_mod_parts [OF lt, of "e + 896"] by blast+
    have "(e + 896 - 896) * 2 ^ 52 + m * 2 ^ 29 = (e * 2 ^ 23 + m) * 2 ^ 29" by simp
    then have "narrow (e + 896) (m * 2 ^ 29) = min (e * 2 ^ 23 + m) (255 * 2 ^ 23)"
      using 3 unfolding narrow_def by (simp only: round_shift_exact) simp
    moreover have "e * 2 ^ 23 + m \<le> 255 * 2 ^ 23" using 3 assms(2) by simp
    moreover have "widen e m < 2 ^ 63" unfolding W using 3 lt by simp
    ultimately show ?thesis using parts by simp
  next
    case 4
    have W: "widen e m = 2047 * 2 ^ 52 + m * 2 ^ 29"
      using 4 assms(3) by (auto simp: widen_def quiet32_def)
    have parts: "widen e m div 2 ^ 52 = 2047" "widen e m mod 2 ^ 52 = m * 2 ^ 29"
      unfolding W using div_mod_parts [OF lt, of 2047] by blast+
    have "narrow 2047 (m * 2 ^ 29) = 255 * 2 ^ 23 + m"
      using 4 assms(3) by (auto simp: narrow_def quiet32_def)
    moreover have "widen e m < 2 ^ 63" unfolding W using lt by simp
    ultimately show ?thesis using 4 parts by simp
  qed
qed

text \<open>Every float except a signalling NaN survives the conversion to double and back.\<close>

definition signalling_nan32 :: "uint32 \<Rightarrow> bool" where
  "signalling_nan32 x \<longleftrightarrow>
     unat x div 2 ^ 23 mod 2 ^ 8 = 255 \<and> 0 < unat x mod 2 ^ 23 \<and> unat x mod 2 ^ 23 < 2 ^ 22"

lemma float_double_float:
  assumes "\<not> signalling_nan32 x"
  shows "f64_to_f32 (f32_to_f64 x) = x"
proof -
  define n where "n = unat x"
  define s where "s = n div 2 ^ 31"
  define e where "e = n div 2 ^ 23 mod 2 ^ 8"
  define m where "m = n mod 2 ^ 23"
  define W where "W = widen e m"
  have n: "n < 2 ^ 32" unfolding n_def using unsigned_less [of x, where ?'a = nat] by simp
  have "n mod (2 ^ 23 * 2 ^ 8) = 2 ^ 23 * e + m"
    unfolding e_def m_def by (rule mod_mult2_eq)
  then have v: "n = s * 2 ^ 31 + (e * 2 ^ 23 + m)"
    unfolding s_def using div_mult_mod_eq [of n "2 ^ 31"] by simp
  have "e < 256" "m < 2 ^ 23" by (simp_all add: e_def m_def)
  moreover have "e = 255 \<Longrightarrow> m = 0 \<or> 2 ^ 22 \<le> m"
    using assms by (auto simp: signalling_nan32_def e_def m_def n_def)
  ultimately have W: "W < 2 ^ 63" "narrow (W div 2 ^ 52) (W mod 2 ^ 52) = e * 2 ^ 23 + m"
    using narrow_widen [of e m] by (auto simp: W_def)
  have "n < 2 * 2 ^ 31" using n by simp
  then have "s < 2" unfolding s_def by (rule less_mult_imp_div_less)
  then have "s * 2 ^ 63 + W < 2 ^ 64" using W(1) by simp
  moreover have "f32_to_f64 x = of_nat (s * 2 ^ 63 + W)"
    by (simp add: f32_to_f64_def Let_def s_def e_def m_def W_def n_def)
  ultimately have u: "unat (f32_to_f64 x) = s * 2 ^ 63 + W"
    by (simp only: unsigned_of_nat) (simp add: take_bit_nat_eq_self)
  have split: "s * 2 ^ 63 + W = W + s * 2 ^ 11 * 2 ^ 52" by simp
  have "W < 2 ^ 11 * 2 ^ 52" using W(1) by simp
  then have "W div 2 ^ 52 < 2 ^ 11" by (rule less_mult_imp_div_less)
  moreover have "(W + s * 2 ^ 11 * 2 ^ 52) div 2 ^ 52 = W div 2 ^ 52 + s * 2 ^ 11"
    using div_mult_self1 [of "2 ^ 52" W "s * 2 ^ 11"] by (simp only: add.commute) simp
  ultimately have parts: "(s * 2 ^ 63 + W) div 2 ^ 52 mod 2 ^ 11 = W div 2 ^ 52"
      "(s * 2 ^ 63 + W) mod 2 ^ 52 = W mod 2 ^ 52" "(s * 2 ^ 63 + W) div 2 ^ 63 = s"
    using div_mod_parts [OF W(1), of s] unfolding split
    by (simp_all only: mod_mult_self1 mod_less)
  have "f64_to_f32 (f32_to_f64 x) = of_nat (s * 2 ^ 31 + (e * 2 ^ 23 + m))"
    unfolding f64_to_f32_def Let_def u parts W(2) ..
  then show ?thesis unfolding v [symmetric] by (simp add: n_def)
qed

section \<open>Properties\<close>

text \<open>A new bit string of at most 32 bits, set from an integer, reads back the low bits of
  that integer, in the little endian and in the big endian order of the bits.\<close>

theorem bit_string_integer_roundtrip:
  assumes "n \<le> 32"
  shows "\<exists>s v v'. MmsValue_newBitString (int n) = Some s \<and>
    MmsValue_setBitStringFromInteger s w = Some v \<and>
    MmsValue_getBitStringAsInteger v = Some (take_bit n w) \<and>
    MmsValue_setBitStringFromIntegerBigEndian s w = Some v' \<and>
    MmsValue_getBitStringAsIntegerBigEndian v' = Some (take_bit n w)"
proof -
  define b where "b = replicate (bit_byte_size n) (0 :: byte)"
  have new: "MmsValue_newBitString (int n) = Some (MmsBitString n b)"
    by (simp add: MmsValue_newBitString_def Let_def b_def bit_byte_size_def)
  have len: "length b = bit_byte_size n" by (simp add: b_def)
  obtain v where v: "set_bits [0..<n] w (MmsBitString n b) = Some v"
      "MmsValue_getBitStringSize v = Some n" "get_bits [0..<n] 0 0 v = Some (take_bit n w)"
    by (rule bit_integer_roundtrip [OF len assms, of "[0..<n]" w]) (auto simp: atLeast0LessThan)
  obtain v' where v': "set_bits (rev [0..<n]) w (MmsBitString n b) = Some v'"
      "MmsValue_getBitStringSize v' = Some n" "get_bits (rev [0..<n]) 0 0 v' = Some (take_bit n w)"
    by (rule bit_integer_roundtrip [OF len assms, of "rev [0..<n]" w]) (auto simp: atLeast0LessThan)
  show ?thesis
    using new v v'
    by (simp add: MmsValue_setBitStringFromInteger_def MmsValue_getBitStringAsInteger_def
        MmsValue_setBitStringFromIntegerBigEndian_def MmsValue_getBitStringAsIntegerBigEndian_def)
qed

theorem bit_string_integer_roundtrip_witness:
  "\<exists>s v v'. MmsValue_newBitString 13 = Some s \<and>
    MmsValue_setBitStringFromInteger s 0x2a5b = Some v \<and>
    MmsValue_getBitStringAsInteger v = Some 0x0a5b \<and>
    MmsValue_setBitStringFromIntegerBigEndian s 0x2a5b = Some v' \<and>
    MmsValue_getBitStringAsIntegerBigEndian v' = Some 0x0a5b"
proof -
  have "take_bit 13 (0x2a5b :: uint32) = 0x0a5b" by code_simp
  then show ?thesis using bit_string_integer_roundtrip [of 13 "0x2a5b"] by simp
qed

text \<open>Setting one bit of a bit string changes that bit and no other, and reading beyond the end
  yields zero.\<close>

theorem bit_string_bit_laws:
  assumes "length buf = bit_byte_size n" and "p < n"
  shows "\<exists>buf'. MmsValue_setBitStringBit (MmsBitString n buf) (int p) b = Some (MmsBitString n buf') \<and>
    length buf' = bit_byte_size n \<and>
    (\<forall>q. MmsValue_getBitStringBit (MmsBitString n buf') (int q)
      = (if q = p then Some b else MmsValue_getBitStringBit (MmsBitString n buf) (int q)))"
proof -
  obtain buf' where s: "MmsValue_setBitStringBit (MmsBitString n buf) (int p) b = Some (MmsBitString n buf')"
      "length buf' = bit_byte_size n" "bits_of n buf' = (bits_of n buf)[p := b]"
    using setBitStringBit_bits [OF assms(2,1)] by blast
  have "MmsValue_getBitStringBit (MmsBitString n buf') (int q)
      = (if q = p then Some b else MmsValue_getBitStringBit (MmsBitString n buf) (int q))" for q
  proof (cases "q < n")
    case True
    then show ?thesis
      using getBitStringBit_bits [OF True s(2)] getBitStringBit_bits [OF True assms(1)] s(3) assms(2)
      by (auto simp: nth_list_update simp del: MmsValue_getBitStringBit.simps)
  next
    case False
    then show ?thesis using assms(2) getBitStringBit_outside [of n "int q"] by auto
  qed
  then show ?thesis using s by blast
qed

theorem bit_string_bit_laws_witness:
  "\<exists>buf'. MmsValue_setBitStringBit (MmsBitString 10 [0, 0xff]) (int 3) True = Some (MmsBitString 10 buf') \<and>
    length buf' = bit_byte_size 10 \<and>
    (\<forall>q. MmsValue_getBitStringBit (MmsBitString 10 buf') (int q)
      = (if q = 3 then Some True else MmsValue_getBitStringBit (MmsBitString 10 [0, 0xff]) (int q)))"
proof -
  have "length ([0, 0xff] :: byte list) = bit_byte_size 10" by (simp add: bit_byte_size_def)
  from bit_string_bit_laws [OF this, of 3 True] show ?thesis by simp
qed

text \<open>A time stamp set in milliseconds reads back exactly, for every time whose seconds fit the
  32 bit field, and carries the quality of the setter.\<close>

theorem utc_time_ms_roundtrip:
  assumes "unat t < 1000 * 2 ^ 32"
  shows "\<exists>v. MmsValue_newUtcTimeByMsTime t = Some v \<and> MmsValue_getUtcTimeInMs v = Some t"
proof -
  obtain a' where "setUtcTimeMs (MmsUtcTime (replicate 8 0)) t 0x0a = Some (MmsUtcTime a')"
      "MmsValue_getUtcTimeInMs (MmsUtcTime a') = Some t"
    using utcTimeMs_roundtrip [of "replicate 8 0" t] assms by auto
  then show ?thesis
    by (simp add: MmsValue_newUtcTimeByMsTime_def MmsValue_setUtcTimeMs_def)
qed

theorem utc_time_ms_roundtrip_witness:
  "\<exists>v. MmsValue_newUtcTimeByMsTime 1700000000999 = Some v \<and> MmsValue_getUtcTimeInMs v = Some 1700000000999"
  using utc_time_ms_roundtrip [of 1700000000999] by simp

text \<open>A float stored into a value of either width reads back as the same float, a signalling
  NaN apart in the 64 bit case.\<close>

theorem float_value_roundtrip:
  assumes "length buf = 8" and "w = 32 \<or> w = 64" and "\<not> signalling_nan32 x"
  shows "\<exists>v. MmsValue_setFloat (MmsFloat e w buf) x = Some v \<and> MmsValue_toFloat v = Some x"
proof -
  have bytes: "be_nat (rev (le_bytes z)) = unat z" if "LENGTH('z) mod 8 = 0" for z :: "'z::len word"
    using be_nat_be_bytes [OF that] by (simp add: be_bytes_def)
  have b4: "be_nat (rev (le_bytes x)) = unat x" "be_nat (rev (le_bytes (f32_to_f64 x))) = unat (f32_to_f64 x)"
    by (rule bytes, simp)+
  show ?thesis
    using assms b4 float_double_float [OF assms(3)]
    by (auto simp: memcpy_def rd_bytes_def)
qed

theorem float_value_roundtrip_witness:
  "\<exists>v. MmsValue_setFloat (MmsFloat 11 64 (replicate 8 0)) 0x40490fdb = Some v \<and>
    MmsValue_toFloat v = Some 0x40490fdb"
proof -
  have "\<not> signalling_nan32 0x40490fdb" by (simp add: signalling_nan32_def)
  then show ?thesis using float_value_roundtrip [of "replicate 8 0" 64 "0x40490fdb" 11] by simp
qed

end
