(* ===== verification/Mms_Access_Result.thy ===== *)
theory Mms_Access_Result
  imports Mms_Value
begin

text \<open>
  The BER encoder of MMS data, \<open>src/mms/iso_mms/server/mms_access_result.cc\<close>. One function does
  both jobs: with \<open>encode\<close> it writes the value and returns the new position, without it returns
  the encoded size. A structure is encoded in two passes, first the size of its elements, then
  their bytes, so the correctness of the length field rests on the agreement of the two: it is
  proved here for every well-formed value.
\<close>

section \<open>The encoder\<close>

text \<open>
  The second component of the result is the \<open>int\<close> the source returns: the position after the value
  with \<open>encode\<close>, the size without. \<open>elements_size\<close> and \<open>elements_encode\<close> are the two loops over the
  components; a \<open>NULL\<close> component is dereferenced.
\<close>

fun MmsValue_encodeMmsData :: "MmsValue \<Rightarrow> cursor \<Rightarrow> bool \<Rightarrow> cursor option"
and elements_size :: "MmsValue option list \<Rightarrow> nat option"
and elements_encode :: "MmsValue option list \<Rightarrow> cursor \<Rightarrow> cursor option" where
  "MmsValue_encodeMmsData (MmsBoolean b) c encode =
     (if encode then BerEncoder_encodeBoolean 0x83 b c else Some (fst c, 3))"
| "MmsValue_encodeMmsData (MmsStructure components) c encode = do {
     componentsSize \<leftarrow> elements_size components;
     if encode
     then do {
       c \<leftarrow> put 0xa2 c;
       c \<leftarrow> BerEncoder_encodeLength (of_nat componentsSize) c;
       elements_encode components c }
     else Some (fst c,
       1 + componentsSize + BerEncoder_determineLengthSize (of_nat componentsSize)) }"
| "MmsValue_encodeMmsData (MmsArray components) c encode = do {
     elementsSize \<leftarrow> elements_size components;
     if encode
     then do {
       c \<leftarrow> put 0xa1 c;
       c \<leftarrow> BerEncoder_encodeLength (of_nat elementsSize) c;
       elements_encode components c }
     else Some (fst c,
       1 + elementsSize + BerEncoder_determineLengthSize (of_nat elementsSize)) }"
| "MmsValue_encodeMmsData (MmsDataAccessError err) c encode =
     (if encode
      then do {
        c \<leftarrow> BerEncoder_encodeTL 0x80 (of_nat (BerEncoder_UInt32determineEncodedSize err)) c;
        BerEncoder_encodeUInt32 err c }
      else Some (fst c, 2 + BerEncoder_UInt32determineEncodedSize err))"
| "MmsValue_encodeMmsData (MmsVisibleString buf sz) c encode =
     (if encode then BerEncoder_encodeStringWithTag 0x8a buf c
      else do { n \<leftarrow> BerEncoder_determineEncodedStringSize buf; Some (fst c, n) })"
| "MmsValue_encodeMmsData (MmsUnsigned v) c encode =
     (if encode then BerEncoder_encodeAsn1PrimitiveValue 0x86 v c
      else Some (fst c, 2 + unat (size8 v)))"
| "MmsValue_encodeMmsData (MmsInteger v) c encode =
     (if encode then BerEncoder_encodeAsn1PrimitiveValue 0x85 v c
      else Some (fst c, 2 + unat (size8 v)))"
| "MmsValue_encodeMmsData (MmsUtcTime utcTime) c encode =
     (if encode then BerEncoder_encodeOctetString 0x91 utcTime 8 c else Some (fst c, 10))"
| "MmsValue_encodeMmsData (MmsBitString sz buf) c encode =
     (if encode then BerEncoder_encodeBitString 0x84 sz buf c
      else Some (fst c, BerEncoder_determineEncodedBitStringSize sz))"
| "MmsValue_encodeMmsData (MmsBinaryTime sz buf) c encode =
     (if encode then BerEncoder_encodeOctetString 0x8c buf (ucast sz) c
      else Some (fst c, 2 + unat sz))"
| "MmsValue_encodeMmsData (MmsOctetString sz maxSz buf) c encode =
     (if encode then BerEncoder_encodeOctetString 0x89 buf (ucast sz) c
      else Some (fst c, 1 + BerEncoder_determineLengthSize (ucast sz) + unat sz))"
| "MmsValue_encodeMmsData (MmsFloat exponentWidth formatWidth buf) c encode =
     (let floatSize = unat formatWidth div 8 + 1 in
      if encode
      then do {
        c \<leftarrow> BerEncoder_encodeTL 0x87 (of_nat floatSize) c;
        BerEncoder_encodeFloat buf formatWidth exponentWidth c }
      else Some (fst c, floatSize + 2))"
| "MmsValue_encodeMmsData (MmsString buf sz) c encode =
     (if encode then BerEncoder_encodeStringWithTag 0x90 buf c
      else do { n \<leftarrow> BerEncoder_determineEncodedStringSize buf; Some (fst c, n) })"
| "MmsValue_encodeMmsData MmsGeneralizedTime c encode = (if encode then Some c else Some (fst c, 0))"
| "MmsValue_encodeMmsData MmsBcd c encode = (if encode then Some c else Some (fst c, 0))"
| "MmsValue_encodeMmsData MmsObjId c encode = (if encode then Some c else Some (fst c, 0))"
| "elements_size [] = Some 0"
| "elements_size (None # es) = None"
| "elements_size (Some e # es) = do {
     (_, n) \<leftarrow> MmsValue_encodeMmsData e ([], 0) False;
     m \<leftarrow> elements_size es;
     Some (n + m) }"
| "elements_encode [] c = Some c"
| "elements_encode (None # es) c = None"
| "elements_encode (Some e # es) c = do {
     c \<leftarrow> MmsValue_encodeMmsData e c True;
     elements_encode es c }"

definition known_mms_tag :: "byte \<Rightarrow> bool" where
  "known_mms_tag tag \<longleftrightarrow> tag \<in> {0x80, 0xa1, 0xa2, 0x83, 0x84, 0x85, 0x86, 0x87, 0x89, 0x8a, 0x8c,
     0x91, 0x00}"

function number_loop :: "buffer \<Rightarrow> int \<Rightarrow> int \<Rightarrow> int \<Rightarrow> int \<Rightarrow> int option" where
  "number_loop buf bufPos elementEndBufPos elementLength elementIndex =
     (if bufPos < elementEndBufPos then do {
        tag \<leftarrow> rd buf bufPos;
        (bufPos', elementLength) \<leftarrow>
          BerDecoder_decodeLength buf elementLength (bufPos + 1) elementEndBufPos;
        if bufPos' < 0 then Some (- 1)
        else if known_mms_tag tag
        then number_loop buf (bufPos' + elementLength) elementEndBufPos elementLength (elementIndex + 1)
        else Some (- 1) }
      else Some elementIndex)"
  by pat_completeness auto
termination
  by (relation "measure (\<lambda>(buf, p, m, l, i). nat (m - p))") (auto dest!: decodeLength_progress)

declare number_loop.simps [simp del]

definition getNumberOfElements :: "buffer \<Rightarrow> int \<Rightarrow> int \<Rightarrow> int option" where
  "getNumberOfElements buf bufPos elementLength =
     number_loop buf bufPos (bufPos + elementLength) elementLength 0"

section \<open>What the encoder writes\<close>

fun mms_bytes :: "MmsValue \<Rightarrow> byte list"
and elements_bytes :: "MmsValue option list \<Rightarrow> byte list" where
  "mms_bytes (MmsBoolean b) = [0x83, 1, if b then 1 else 0]"
| "mms_bytes (MmsStructure es) =
     (let body = elements_bytes es in 0xa2 # length_bytes (of_nat (length body)) @ body)"
| "mms_bytes (MmsArray es) =
     (let body = elements_bytes es in 0xa1 # length_bytes (of_nat (length body)) @ body)"
| "mms_bytes (MmsDataAccessError err) = uint32_bytes 0x80 err"
| "mms_bytes (MmsVisibleString buf sz) =
     (case buf of None \<Rightarrow> [0x8a, 0]
      | Some m \<Rightarrow> string_bytes 0x8a (takeWhile (\<lambda>b. b \<noteq> 0) m))"
| "mms_bytes (MmsUnsigned v) = octet_bytes 0x86 (ber_content v)"
| "mms_bytes (MmsInteger v) = octet_bytes 0x85 (ber_content v)"
| "mms_bytes (MmsUtcTime t) = octet_bytes 0x91 t"
| "mms_bytes (MmsBitString n buf) = bit_string_bytes 0x84 n buf"
| "mms_bytes (MmsBinaryTime sz buf) = octet_bytes 0x8c (take (unat sz) buf)"
| "mms_bytes (MmsOctetString sz maxSz buf) = octet_bytes 0x89 (take (unat sz) buf)"
| "mms_bytes (MmsFloat e w buf) =
     octet_bytes 0x87 (e # rev (take (unat w div 8) buf))"
| "mms_bytes (MmsString buf sz) =
     (case buf of None \<Rightarrow> [0x90, 0]
      | Some m \<Rightarrow> string_bytes 0x90 (takeWhile (\<lambda>b. b \<noteq> 0) m))"
| "mms_bytes MmsGeneralizedTime = []"
| "mms_bytes MmsBcd = []"
| "mms_bytes MmsObjId = []"
| "elements_bytes [] = []"
| "elements_bytes (None # es) = elements_bytes es"
| "elements_bytes (Some e # es) = mms_bytes e @ elements_bytes es"

text \<open>
  Well-formed values: every buffer holds what its size says, strings end in a NUL, no component
  is \<open>NULL\<close>, and every element is short enough for the length field the size function predicts.
\<close>

definition string_ok :: "byte list option \<Rightarrow> bool" where
  "string_ok buf =
     (case buf of None \<Rightarrow> True
      | Some m \<Rightarrow> 0 \<in> set m \<and> length (takeWhile (\<lambda>b. b \<noteq> 0) m) < 65535)"

fun mms_ok :: "MmsValue \<Rightarrow> bool"
and elements_ok :: "MmsValue option list \<Rightarrow> bool" where
  "mms_ok (MmsBoolean b) = True"
| "mms_ok (MmsStructure es) = (elements_ok es \<and> length (elements_bytes es) < 65535)"
| "mms_ok (MmsArray es) = (elements_ok es \<and> length (elements_bytes es) < 65535)"
| "mms_ok (MmsDataAccessError err) = True"
| "mms_ok (MmsVisibleString buf sz) = string_ok buf"
| "mms_ok (MmsUnsigned v) = (ber_wf v \<and> unat (size8 v) < 128)"
| "mms_ok (MmsInteger v) = (ber_wf v \<and> unat (size8 v) < 128)"
| "mms_ok (MmsUtcTime t) = (length t = 8)"
| "mms_ok (MmsBitString n buf) = (length buf = bit_byte_size n \<and> bit_size_ok n)"
| "mms_ok (MmsBinaryTime sz buf) = (length buf = 6 \<and> unat sz \<le> 6)"
| "mms_ok (MmsOctetString sz maxSz buf) = (unat sz \<le> length buf \<and> sz \<noteq> 65535)"
| "mms_ok (MmsFloat e w buf) = (length buf = 8 \<and> (w = 32 \<or> w = 64))"
| "mms_ok (MmsString buf sz) = string_ok buf"
| "mms_ok MmsGeneralizedTime = True"
| "mms_ok MmsBcd = True"
| "mms_ok MmsObjId = True"
| "elements_ok [] = True"
| "elements_ok (None # es) = False"
| "elements_ok (Some e # es) = (mms_ok e \<and> elements_ok es)"


section \<open>Both passes agree\<close>

text \<open>The statement for one value, and for the components of a structure.\<close>

definition encodes_as :: "MmsValue \<Rightarrow> byte list \<Rightarrow> bool" where
  "encodes_as v bs \<longleftrightarrow>
     (\<forall>c. MmsValue_encodeMmsData v c True = put_bytes bs c) \<and>
     (\<forall>c. MmsValue_encodeMmsData v c False = Some (fst c, length bs))"

definition elements_encode_as :: "MmsValue option list \<Rightarrow> byte list \<Rightarrow> bool" where
  "elements_encode_as es bs \<longleftrightarrow>
     elements_size es = Some (length bs) \<and> elements_encode es = put_bytes bs"

lemma length_octet_bytes:
  assumes "length bs < 65535"
  shows "length (octet_bytes tag bs)
    = 1 + BerEncoder_determineLengthSize (of_nat (length bs)) + length bs"
proof -
  have "(of_nat (length bs) :: uint32) \<noteq> 65535"
    using assms by (simp add: of_nat32_eq_numeral)
  then show ?thesis by (simp add: octet_bytes_def length_length_bytes)
qed

lemma strlen_takeWhile:
  "0 \<in> set m \<Longrightarrow> strlen m = Some (length (takeWhile (\<lambda>b. b \<noteq> 0) m))"
  by (induction m) auto

lemma take_length_takeWhile: "take (length (takeWhile P xs)) xs = takeWhile P xs"
  by (induction xs) auto

lemma string_encodes:
  assumes "string_ok (Some m)"
  shows "BerEncoder_encodeStringWithTag tag (Some m) c
      = put_bytes (string_bytes tag (takeWhile (\<lambda>b. b \<noteq> 0) m)) c"
    and "BerEncoder_determineEncodedStringSize (Some m)
      = Some (length (string_bytes tag (takeWhile (\<lambda>b. b \<noteq> 0) m)))"
proof -
  let ?s = "takeWhile (\<lambda>b. b \<noteq> 0) m"
  have n: "strlen m = Some (length ?s)" "length ?s < 65535"
    using assms strlen_takeWhile [of m] by (auto simp: string_ok_def)
  show "BerEncoder_encodeStringWithTag tag (Some m) c = put_bytes (string_bytes tag ?s) c"
    using encodeString_writes [OF n(1)] by (simp add: take_length_takeWhile)
  show "BerEncoder_determineEncodedStringSize (Some m) = Some (length (string_bytes tag ?s))"
    using n length_octet_bytes [OF n(2), of tag]
    by (simp add: BerEncoder_determineEncodedStringSize_def string_bytes_def octet_bytes_def)
qed

lemma visible_string_encodes:
  "string_ok buf \<Longrightarrow> encodes_as (MmsVisibleString buf sz) (mms_bytes (MmsVisibleString buf sz))"
  by (cases buf) (simp_all add: encodes_as_def string_encodes(1) string_encodes(2) [of _ "0x8a"]
      writer_simps size_simps put_fun)

lemma string_value_encodes:
  "string_ok buf \<Longrightarrow> encodes_as (MmsString buf sz) (mms_bytes (MmsString buf sz))"
  by (cases buf) (simp_all add: encodes_as_def string_encodes(1) string_encodes(2) [of _ "0x90"]
      writer_simps size_simps put_fun)

lemma error_encodes: "encodes_as (MmsDataAccessError err) (mms_bytes (MmsDataAccessError err))"
proof -
  let ?n = "length (uint32_content err)"
  have "?n \<le> 5" using uint32_content_bounds [of err] by simp
  then have "length_bytes (of_nat ?n) = [of_nat ?n]" by (intro short_length) simp
  then show ?thesis
    by (simp add: encodes_as_def writer_simps size_simps uint32_bytes_def put_fun)
qed

lemma unsigned_encodes:
  "ber_wf v \<Longrightarrow> unat (size8 v) < 128 \<Longrightarrow> encodes_as (MmsUnsigned v) (octet_bytes 0x86 (ber_content v))"
  using ber_content_wf [of v]
  by (simp add: encodes_as_def writer_simps length_octet_bytes_short)

lemma integer_encodes:
  "ber_wf v \<Longrightarrow> unat (size8 v) < 128 \<Longrightarrow> encodes_as (MmsInteger v) (octet_bytes 0x85 (ber_content v))"
  using ber_content_wf [of v]
  by (simp add: encodes_as_def writer_simps length_octet_bytes_short)

lemma utc_encodes: "length t = 8 \<Longrightarrow> encodes_as (MmsUtcTime t) (octet_bytes 0x91 t)"
  by (simp add: encodes_as_def writer_simps length_octet_bytes_short)

lemma unat_ucast_up: "LENGTH('a) \<le> LENGTH('b) \<Longrightarrow>
    unat (ucast (w :: 'a::len word) :: 'b::len word) = unat w"
proof -
  assume "LENGTH('a) \<le> LENGTH('b)"
  then have "(2 :: nat) ^ LENGTH('a) \<le> 2 ^ LENGTH('b)" by (rule power_increasing) simp
  then have "unat w < 2 ^ LENGTH('b)" using unsigned_less [of w, where ?'a = nat] by linarith
  then show ?thesis by (simp add: unsigned_ucast_eq take_bit_nat_eq_self)
qed

lemma binary_encodes:
  assumes "length buf = 6" and "unat sz \<le> 6"
  shows "encodes_as (MmsBinaryTime sz buf) (octet_bytes 0x8c (take (unat sz) buf))"
  using assms by (simp add: encodes_as_def writer_simps unat_ucast_up length_octet_bytes_short)

lemma octet_encodes:
  assumes "unat sz \<le> length buf" and "sz \<noteq> 65535"
  shows "encodes_as (MmsOctetString sz maxSz buf) (octet_bytes 0x89 (take (unat sz) buf))"
proof -
  have "unat sz < 65536" using unsigned_less [of sz, where ?'a = nat] by simp
  moreover have "unat sz \<noteq> 65535" using assms(2) by (simp add: word_unat_eq_iff)
  ultimately have lt: "length (take (unat sz) buf) < 65535" using assms(1) by simp
  then show ?thesis
    using assms(1) length_octet_bytes [OF lt]
    by (simp add: encodes_as_def writer_simps unat_ucast_up)
qed

lemma float_encodes:
  assumes "length buf = 8" and "w = 32 \<or> w = (64 :: byte)"
  shows "encodes_as (MmsFloat e w buf) (mms_bytes (MmsFloat e w buf))"
proof -
  let ?b = "e # rev (take (unat w div 8) buf)"
  have len: "unat w div 8 \<le> length buf" "length ?b = unat w div 8 + 1" "length ?b < 128"
    using assms by auto
  have "length_bytes (of_nat (unat w div 8 + 1)) = [of_nat (unat w div 8 + 1)]"
    using short_length [OF len(3)] len(2) by simp
  then show ?thesis
    using len(1,2) short_length [OF len(3)]
    by (simp add: encodes_as_def writer_simps octet_bytes_def put_fun Let_def)
qed

lemma structure_encodes:
  assumes es: "elements_encode_as es bs" and len: "length bs < 65535"
  shows "encodes_as (MmsStructure es) (0xa2 # length_bytes (of_nat (length bs)) @ bs)"
    and "encodes_as (MmsArray es) (0xa1 # length_bytes (of_nat (length bs)) @ bs)"
  using es length_octet_bytes [OF len]
  by (simp_all add: encodes_as_def elements_encode_as_def writer_simps put_fun octet_bytes_def)

lemma elements_encode_as_Cons:
  "encodes_as e bs \<Longrightarrow> elements_encode_as es bs' \<Longrightarrow> elements_encode_as (Some e # es) (bs @ bs')"
  by (auto simp: encodes_as_def elements_encode_as_def put_fun intro!: ext)

lemmas leaf_encodes = visible_string_encodes string_value_encodes error_encodes unsigned_encodes
  integer_encodes utc_encodes binary_encodes octet_encodes float_encodes

lemma encodeMmsData_encodes:
  "mms_ok v \<Longrightarrow> encodes_as v (mms_bytes v)"
  "elements_ok es \<Longrightarrow> elements_encode_as es (elements_bytes es)"
proof (induction v and es rule: mms_bytes_elements_bytes.induct)
  case (2 es)
  then show ?case using structure_encodes(1) [of es "elements_bytes es"] by (simp add: Let_def)
next
  case (3 es)
  then show ?case using structure_encodes(2) [of es "elements_bytes es"] by (simp add: Let_def)
next
  case (9 n buf)
  then show ?case by (auto simp: encodes_as_def writer_simps intro: size_simps)
next
  case (19 e es)
  then show ?case using elements_encode_as_Cons by simp
qed (use leaf_encodes in \<open>simp_all add: encodes_as_def elements_encode_as_def writer_simps put_fun
  fun_eq_iff\<close>)

interpretation mms_writer: sized_writer
  "\<lambda>v c. MmsValue_encodeMmsData v c True" mms_bytes mms_ok
  "\<lambda>v. map_option snd (MmsValue_encodeMmsData v ([], 0) False)" "\<lambda>_. True"
  by unfold_locales (use encodeMmsData_encodes(1) in \<open>auto simp: encodes_as_def\<close>)

section \<open>Properties\<close>

text \<open>C19. The two passes of the MMS data encoder agree on every well-formed value: the size the
  first pass returns is the number of bytes the second one writes, and the second one writes the
  encoding of the value and nothing else. The length fields of nested structures rest on this.\<close>

theorem encodeMmsData_two_passes:
  assumes "mms_ok v"
  shows "\<exists>n. MmsValue_encodeMmsData v ([], 0) False = Some ([], n) \<and> n = length (mms_bytes v) \<and>
    (\<forall>buf pos. MmsValue_encodeMmsData v (buf, pos) True
      = put_bytes (mms_bytes v) (buf, pos)) \<and>
    (\<forall>buf pos. pos + n \<le> length buf \<longrightarrow>
      MmsValue_encodeMmsData v (buf, pos) True
        = Some (take pos buf @ mms_bytes v @ drop (pos + n) buf, pos + n))"
proof -
  have e: "encodes_as v (mms_bytes v)" using assms by (rule encodeMmsData_encodes(1))
  then show ?thesis by (simp add: encodes_as_def put_bytes_exact)
qed

theorem encodeMmsData_two_passes_witness:
  "MmsValue_encodeMmsData (MmsStructure [Some (MmsBoolean True), Some (MmsBitString 4 [0xc0])])
      (replicate 10 0, 1) True
    = Some ([0, 0xa2, 7, 0x83, 1, 1, 0x84, 2, 4, 0xc0], 10)"
proof -
  let ?v = "MmsStructure [Some (MmsBoolean True), Some (MmsBitString 4 [0xc0])]"
  have "elements_bytes [Some (MmsBoolean True), Some (MmsBitString 4 [0xc0])]
      = [0x83, 1, 1, 0x84, 2, 4, 0xc0]"
    by code_simp
  then have ok: "mms_ok ?v" by (simp add: bit_size_ok_def bit_byte_size_def)
  have bytes: "mms_bytes ?v = [0xa2, 7, 0x83, 1, 1, 0x84, 2, 4, 0xc0]" by code_simp
  have put: "put_bytes (mms_bytes ?v) (replicate 10 0, 1)
      = Some ([0, 0xa2, 7, 0x83, 1, 1, 0x84, 2, 4, 0xc0], 10)"
    unfolding bytes by code_simp
  have "MmsValue_encodeMmsData ?v (replicate 10 0, 1) True = put_bytes (mms_bytes ?v) (replicate 10 0, 1)"
    using encodeMmsData_two_passes [OF ok] by blast
  from this put show ?thesis by (rule trans)
qed

end
