(* ===== verification/Ethernet_Hal.thy ===== *)
theory Ethernet_Hal
  imports Prelude
begin

text \<open>
  The ns-3 Ethernet layer, \<open>hal/ethernet/ns3/ethernet.cc\<close>. What ns-3 provides is a parameter:
  \<open>devices\<close> is the lookup of a network device by its path, giving the MAC address of the device,
  and a packet that arrives is an argument of the receive function. A socket keeps the packets
  handed to \<open>Send\<close>, in order.
\<close>

type_synonym devices = "byte list \<Rightarrow> byte list option"

record EthernetSocket =
  es_remote :: "byte list option"
  es_sent :: "buffer list"

text \<open>A path without a device is a null pointer that is dereferenced.\<close>

definition Ethernet_getInterfaceMACAddress :: "devices \<Rightarrow> byte list \<Rightarrow> byte list option" where
  "Ethernet_getInterfaceMACAddress devices interfaceId = do {
     mac \<leftarrow> devices interfaceId;
     rd_bytes mac 0 6 }"

definition Ethernet_createSocket ::
    "devices \<Rightarrow> byte list \<Rightarrow> byte list option \<Rightarrow> EthernetSocket option" where
  "Ethernet_createSocket devices interfaceId destAddress = do {
     device \<leftarrow> devices interfaceId;
     Some \<lparr>es_remote = destAddress, es_sent = []\<rparr> }"

text \<open>
  The Ethernet header of the frame (addresses and EtherType, 14 octets) is cut off: ns-3 adds
  its own. A shorter frame makes the unsigned size wrap and the copy run off the buffer.
\<close>

definition Ethernet_sendPacket :: "EthernetSocket \<Rightarrow> buffer \<Rightarrow> int \<Rightarrow> EthernetSocket option" where
  "Ethernet_sendPacket ethSocket buffer packetSize = do {
     packet \<leftarrow> rd_bytes buffer 14 (packetSize - 14);
     Some (ethSocket\<lparr>es_sent := es_sent ethSocket @ [packet]\<rparr>) }"

text \<open>The packet that arrived is copied to the buffer, cut at \<open>bufferSize\<close>.\<close>

definition Ethernet_receivePacket :: "buffer \<Rightarrow> buffer \<Rightarrow> nat \<Rightarrow> (nat \<times> buffer) option" where
  "Ethernet_receivePacket packet buffer bufferSize =
     (let n = min (length packet) bufferSize in do {
        buffer \<leftarrow> memcpy buffer packet n;
        Some (n, buffer) })"

text \<open>Sets of sockets, by their addresses. Waiting for a socket is not implemented and fails.\<close>

type_synonym EthernetHandleSet = "nat set"

definition EthernetHandleSet_new :: EthernetHandleSet where
  "EthernetHandleSet_new = {}"

definition EthernetHandleSet_addSocket :: "EthernetHandleSet \<Rightarrow> nat option \<Rightarrow> EthernetHandleSet" where
  "EthernetHandleSet_addSocket self sock = (case sock of None \<Rightarrow> self | Some s \<Rightarrow> insert s self)"

definition EthernetHandleSet_removeSocket :: "EthernetHandleSet \<Rightarrow> nat option \<Rightarrow> EthernetHandleSet" where
  "EthernetHandleSet_removeSocket self sock = (case sock of None \<Rightarrow> self | Some s \<Rightarrow> self - {s})"

definition EthernetHandleSet_waitReady :: "EthernetHandleSet \<Rightarrow> uint32 \<Rightarrow> int" where
  "EthernetHandleSet_waitReady self timeoutMs = - 1"

definition Ethernet_isSupported :: bool where
  "Ethernet_isSupported = True"

lemma sendPacket_sends:
  assumes "14 \<le> n" and "n \<le> length frame"
  shows "Ethernet_sendPacket s frame (int n)
    = Some (s\<lparr>es_sent := es_sent s @ [drop 14 (take n frame)]\<rparr>)"
  using assms by (simp add: Ethernet_sendPacket_def rd_bytes_def drop_take nat_diff_distrib)

lemma receivePacket_copies:
  "length packet \<le> n \<Longrightarrow> n \<le> length buffer \<Longrightarrow>
   Ethernet_receivePacket packet buffer n
     = Some (length packet, packet @ drop (length packet) buffer)"
  by (simp add: Ethernet_receivePacket_def memcpy_def Let_def)

end
