(* ===== verification/Goose_Publisher.thy ===== *)
theory Goose_Publisher
  imports Mms_Access_Result Ethernet_Hal
begin

text \<open>
  The GOOSE publisher, \<open>src/goose/goose_publisher.cc\<close>. The publisher keeps one frame buffer: the
  Ethernet and GOOSE headers are written once, the APDU and the length field at every \<open>publish\<close>.
  A data set is the list of the values of the linked list (\<open>None\<close> for a \<open>NULL\<close> entry), the time of
  day is an argument.
\<close>

section \<open>State\<close>

record CommParameters =
  vlanPriority :: byte
  vlanId :: uint16
  appId :: uint16
  dstAddress :: "byte list"

record GoosePublisher =
  gp_buffer :: buffer
  gp_ethernetSocket :: EthernetSocket
  gp_lengthField :: nat
  gp_payloadStart :: nat
  gp_payloadLength :: int
  gp_goID :: "byte list option"
  gp_goCBRef :: "byte list option"
  gp_dataSetRef :: "byte list option"
  gp_confRev :: uint32
  gp_stNum :: uint32
  gp_sqNum :: uint32
  gp_timeAllowedToLive :: uint32
  gp_needsCommission :: bool
  gp_simulation :: bool
  gp_timestamp :: MmsValue

definition GOOSE_MAX_MESSAGE_SIZE :: nat where
  "GOOSE_MAX_MESSAGE_SIZE = 1518"

text \<open>The defaults of \<open>config/stack_config.h\<close>.\<close>

definition default_comm_parameters :: CommParameters where
  "default_comm_parameters = \<lparr>vlanPriority = 4, vlanId = 0, appId = 0x1000,
     dstAddress = [0x01, 0x0c, 0xcd, 0x01, 0x00, 0x01]\<rparr>"

text \<open>\<open>\"eth0\"\<close>.\<close>

definition CONFIG_ETHERNET_INTERFACE_ID :: "byte list" where
  "CONFIG_ETHERNET_INTERFACE_ID = c_str [0x65, 0x74, 0x68, 0x30]"

section \<open>Construction\<close>

definition vlan_bytes :: "CommParameters \<Rightarrow> byte list" where
  "vlan_bytes p =
     (let tci1 = push_bit 5 (vlanPriority p) + ucast (vlanId p div 256);
          tci2 = ucast (vlanId p mod 256)
      in [0x81, 0x00, tci1, tci2])"

definition header_bytes :: "CommParameters \<Rightarrow> byte list" where
  "header_bytes p = [0x88, 0xb8, ucast (appId p div 256), ucast (appId p mod 256)]"

text \<open>\<open>heap\<close> is the content of the freshly allocated buffer.\<close>

definition prepareGooseBuffer ::
    "devices \<Rightarrow> buffer \<Rightarrow> GoosePublisher \<Rightarrow> CommParameters option \<Rightarrow> byte list option \<Rightarrow> bool \<Rightarrow>
     GoosePublisher option" where
  "prepareGooseBuffer devices heap self parameters interfaceID useVlanTags = do {
     let interface = (case interfaceID of Some i \<Rightarrow> i | None \<Rightarrow> CONFIG_ETHERNET_INTERFACE_ID);
     srcAddr \<leftarrow> Ethernet_getInterfaceMACAddress devices interface;
     let p = (case parameters of Some p \<Rightarrow> p | None \<Rightarrow> default_comm_parameters);
     socket \<leftarrow> Ethernet_createSocket devices interface (Some (dstAddress p));
     dst \<leftarrow> rd_bytes (dstAddress p) 0 6;
     c \<leftarrow> put_bytes dst (heap, 0);
     c \<leftarrow> put_bytes srcAddr c;
     c \<leftarrow> (if useVlanTags then put_bytes (vlan_bytes p) c else Some c);
     c \<leftarrow> put_bytes (header_bytes p) c;
     let lengthField = snd c;
     (buffer, bufPos) \<leftarrow> put_bytes [0x00, 0x08, 0x00, 0x00, 0x00, 0x00] c;
     Some (self\<lparr>gp_ethernetSocket := socket, gp_buffer := buffer, gp_lengthField := lengthField,
                gp_payloadStart := bufPos\<rparr>) }"

definition GoosePublisher_reset :: "GoosePublisher \<Rightarrow> GoosePublisher" where
  "GoosePublisher_reset self = self\<lparr>gp_sqNum := 0, gp_stNum := 1\<rparr>"

text \<open>The structure as \<open>calloc\<close> leaves it; socket, buffer and time stamp are set before any use.\<close>

definition new_GoosePublisher :: "GoosePublisher" where
  "new_GoosePublisher = \<lparr>gp_buffer = [], gp_ethernetSocket = \<lparr>es_remote = None, es_sent = []\<rparr>,
     gp_lengthField = 0, gp_payloadStart = 0, gp_payloadLength = 0, gp_goID = None,
     gp_goCBRef = None, gp_dataSetRef = None, gp_confRev = 0, gp_stNum = 0, gp_sqNum = 0,
     gp_timeAllowedToLive = 0, gp_needsCommission = False, gp_simulation = False,
     gp_timestamp = MmsUtcTime (replicate 8 0)\<rparr>"

definition GoosePublisher_createEx ::
    "devices \<Rightarrow> buffer \<Rightarrow> uint64 \<Rightarrow> CommParameters option \<Rightarrow> byte list option \<Rightarrow> bool \<Rightarrow>
     GoosePublisher option" where
  "GoosePublisher_createEx devices heap now parameters interfaceID useVlanTag = do {
     self \<leftarrow> prepareGooseBuffer devices heap new_GoosePublisher parameters interfaceID useVlanTag;
     t \<leftarrow> MmsValue_newUtcTimeByMsTime now;
     Some (GoosePublisher_reset (self\<lparr>gp_timestamp := t\<rparr>)) }"

definition GoosePublisher_create ::
    "devices \<Rightarrow> buffer \<Rightarrow> uint64 \<Rightarrow> CommParameters option \<Rightarrow> byte list option \<Rightarrow>
     GoosePublisher option" where
  "GoosePublisher_create devices heap now parameters interfaceID =
     GoosePublisher_createEx devices heap now parameters interfaceID True"

section \<open>Setters\<close>

definition GoosePublisher_setGoID :: "GoosePublisher \<Rightarrow> byte list \<Rightarrow> GoosePublisher option" where
  "GoosePublisher_setGoID self goID = do {
     s \<leftarrow> StringUtils_copyString goID; Some (self\<lparr>gp_goID := Some s\<rparr>) }"

definition GoosePublisher_setGoCbRef :: "GoosePublisher \<Rightarrow> byte list \<Rightarrow> GoosePublisher option" where
  "GoosePublisher_setGoCbRef self goCbRef = do {
     s \<leftarrow> StringUtils_copyString goCbRef; Some (self\<lparr>gp_goCBRef := Some s\<rparr>) }"

definition GoosePublisher_setDataSetRef :: "GoosePublisher \<Rightarrow> byte list \<Rightarrow> GoosePublisher option" where
  "GoosePublisher_setDataSetRef self dataSetRef = do {
     s \<leftarrow> StringUtils_copyString dataSetRef; Some (self\<lparr>gp_dataSetRef := Some s\<rparr>) }"

definition GoosePublisher_setConfRev :: "GoosePublisher \<Rightarrow> uint32 \<Rightarrow> GoosePublisher" where
  "GoosePublisher_setConfRev self confRev = self\<lparr>gp_confRev := confRev\<rparr>"

definition GoosePublisher_setSimulation :: "GoosePublisher \<Rightarrow> bool \<Rightarrow> GoosePublisher" where
  "GoosePublisher_setSimulation self simulation = self\<lparr>gp_simulation := simulation\<rparr>"

definition GoosePublisher_setStNum :: "GoosePublisher \<Rightarrow> uint32 \<Rightarrow> GoosePublisher" where
  "GoosePublisher_setStNum self stNum = self\<lparr>gp_stNum := stNum\<rparr>"

definition GoosePublisher_setSqNum :: "GoosePublisher \<Rightarrow> uint32 \<Rightarrow> GoosePublisher" where
  "GoosePublisher_setSqNum self sqNum = self\<lparr>gp_sqNum := sqNum\<rparr>"

definition GoosePublisher_setNeedsCommission :: "GoosePublisher \<Rightarrow> bool \<Rightarrow> GoosePublisher" where
  "GoosePublisher_setNeedsCommission self ndsCom = self\<lparr>gp_needsCommission := ndsCom\<rparr>"

definition GoosePublisher_setTimeAllowedToLive :: "GoosePublisher \<Rightarrow> uint32 \<Rightarrow> GoosePublisher" where
  "GoosePublisher_setTimeAllowedToLive self timeAllowedToLive =
     self\<lparr>gp_timeAllowedToLive := timeAllowedToLive\<rparr>"

definition GoosePublisher_increaseStNum ::
    "uint64 \<Rightarrow> GoosePublisher \<Rightarrow> (uint64 \<times> GoosePublisher) option" where
  "GoosePublisher_increaseStNum currentTime self = do {
     t \<leftarrow> MmsValue_setUtcTimeMs (gp_timestamp self) currentTime;
     let stNum = gp_stNum self + 1;
     let stNum = (if stNum = 0 then 1 else stNum);
     Some (currentTime, self\<lparr>gp_timestamp := t, gp_stNum := stNum, gp_sqNum := 0\<rparr>) }"

section \<open>The APDU\<close>

text \<open>The two loops over the data set skip a \<open>NULL\<close> entry.\<close>

fun dataset_size :: "MmsValue option list \<Rightarrow> uint32 option" where
  "dataset_size [] = Some 0"
| "dataset_size (None # es) = dataset_size es"
| "dataset_size (Some v # es) = do {
     (_, n) \<leftarrow> MmsValue_encodeMmsData v ([], 0) False;
     m \<leftarrow> dataset_size es;
     Some (of_nat n + m) }"

fun dataset_encode :: "MmsValue option list \<Rightarrow> cursor \<Rightarrow> cursor option" where
  "dataset_encode [] c = Some c"
| "dataset_encode (None # es) c = dataset_encode es c"
| "dataset_encode (Some v # es) c = do {
     c \<leftarrow> MmsValue_encodeMmsData v c True;
     dataset_encode es c }"

fun utc_octets :: "MmsValue \<Rightarrow> byte list option" where
  "utc_octets (MmsUtcTime t) = Some t"
| "utc_octets _ = None"

text \<open>Step 1 of \<open>createGoosePayload\<close>: the length fields, in \<open>uint32_t\<close> arithmetic.\<close>

definition goose_lengths ::
    "GoosePublisher \<Rightarrow> MmsValue option list \<Rightarrow> (uint32 \<times> uint32) option" where
  "goose_lengths self dataSetValues = do {
     a \<leftarrow> BerEncoder_determineEncodedStringSize (gp_goCBRef self);
     b \<leftarrow> BerEncoder_determineEncodedStringSize (gp_dataSetRef self);
     d \<leftarrow> BerEncoder_determineEncodedStringSize
            (if gp_goID self \<noteq> None then gp_goID self else gp_goCBRef self);
     let goosePduLength = of_nat a
       + (2 + of_nat (BerEncoder_UInt32determineEncodedSize (gp_timeAllowedToLive self)))
       + of_nat b + of_nat d + (2 + 8)
       + (2 + of_nat (BerEncoder_UInt32determineEncodedSize (gp_sqNum self)))
       + (2 + of_nat (BerEncoder_UInt32determineEncodedSize (gp_stNum self)))
       + (2 + of_nat (BerEncoder_UInt32determineEncodedSize (gp_confRev self)))
       + 6
       + (2 + of_nat (BerEncoder_UInt32determineEncodedSize (of_nat (length dataSetValues))));
     dataSetSize \<leftarrow> dataset_size dataSetValues;
     let allDataSize = dataSetSize + of_nat (BerEncoder_determineLengthSize dataSetSize) + 1;
     Some (goosePduLength + allDataSize, dataSetSize) }"

text \<open>
  The result is the position the source returns, \<open>-1\<close> when the APDU does not fit; \<open>buffer\<close> is the
  rest of the frame from \<open>payloadStart\<close> on.
\<close>

definition createGoosePayload ::
    "GoosePublisher \<Rightarrow> MmsValue option list \<Rightarrow> buffer \<Rightarrow> nat \<Rightarrow> (buffer \<times> int) option" where
  "createGoosePayload self dataSetValues buffer maxPayloadSize = do {
     (goosePduLength, dataSetSize) \<leftarrow> goose_lengths self dataSetValues;
     let payloadSize = 1 + of_nat (BerEncoder_determineLengthSize goosePduLength) + goosePduLength;
     if maxPayloadSize < unat payloadSize then Some (buffer, - 1)
     else do {
       t \<leftarrow> utc_octets (gp_timestamp self);
       c \<leftarrow> BerEncoder_encodeTL 0x61 goosePduLength (buffer, 0);
       c \<leftarrow> BerEncoder_encodeStringWithTag 0x80 (gp_goCBRef self) c;
       c \<leftarrow> BerEncoder_encodeUInt32WithTL 0x81 (gp_timeAllowedToLive self) c;
       c \<leftarrow> BerEncoder_encodeStringWithTag 0x82 (gp_dataSetRef self) c;
       c \<leftarrow> BerEncoder_encodeStringWithTag 0x83
              (if gp_goID self \<noteq> None then gp_goID self else gp_goCBRef self) c;
       c \<leftarrow> BerEncoder_encodeOctetString 0x84 t 8 c;
       c \<leftarrow> BerEncoder_encodeUInt32WithTL 0x85 (gp_stNum self) c;
       c \<leftarrow> BerEncoder_encodeUInt32WithTL 0x86 (gp_sqNum self) c;
       c \<leftarrow> BerEncoder_encodeBoolean 0x87 (gp_simulation self) c;
       c \<leftarrow> BerEncoder_encodeUInt32WithTL 0x88 (gp_confRev self) c;
       c \<leftarrow> BerEncoder_encodeBoolean 0x89 (gp_needsCommission self) c;
       c \<leftarrow> BerEncoder_encodeUInt32WithTL 0x8a (of_nat (length dataSetValues)) c;
       c \<leftarrow> BerEncoder_encodeTL 0xab dataSetSize c;
       (buffer, bufPos) \<leftarrow> dataset_encode dataSetValues c;
       Some (buffer, int bufPos) } }"

section \<open>Publishing\<close>

definition GoosePublisher_publish ::
    "GoosePublisher \<Rightarrow> MmsValue option list \<Rightarrow> (int \<times> GoosePublisher) option" where
  "GoosePublisher_publish self dataSet = do {
     let start = gp_payloadStart self;
     let maxPayloadSize = GOOSE_MAX_MESSAGE_SIZE - start;
     (payload, payloadLength) \<leftarrow>
       createGoosePayload self dataSet (drop start (gp_buffer self)) maxPayloadSize;
     let buffer = take start (gp_buffer self) @ payload;
     let self = self\<lparr>gp_buffer := buffer, gp_payloadLength := payloadLength\<rparr>;
     if payloadLength = - 1 then Some (- 1, self)
     else do {
       let sqNum = gp_sqNum self + 1;
       let sqNum = (if sqNum = 0 then 1 else sqNum);
       let gooseLength = nat (payloadLength + 8);
       let lengthIndex = gp_lengthField self;
       (buffer, _) \<leftarrow> put_bytes [of_nat (gooseLength div 256), of_nat (gooseLength mod 256)]
         (buffer, lengthIndex);
       socket \<leftarrow> Ethernet_sendPacket (gp_ethernetSocket self) buffer (int start + payloadLength);
       Some (0, self\<lparr>gp_sqNum := sqNum, gp_buffer := buffer, gp_ethernetSocket := socket\<rparr>) } }"

definition GoosePublisher_publishAndDump ::
    "GoosePublisher \<Rightarrow> MmsValue option list \<Rightarrow> buffer \<Rightarrow> int \<Rightarrow>
     (int \<times> GoosePublisher \<times> buffer \<times> int option) option" where
  "GoosePublisher_publishAndDump self dataSet msgBuf bufSize = do {
     (rc, self) \<leftarrow> GoosePublisher_publish self dataSet;
     if rc = 0 then do {
       let copied = int (gp_payloadStart self) + gp_payloadLength self;
       let copied = (if bufSize < copied then bufSize else copied);
       if copied < 0 then None
       else do {
         msgBuf \<leftarrow> memcpy msgBuf (gp_buffer self) (nat copied);
         Some (rc, self, msgBuf, Some copied) } }
     else Some (rc, self, msgBuf, None) }"

section \<open>The APDU as a list of bytes\<close>

fun str_content :: "byte list option \<Rightarrow> byte list" where
  "str_content None = []"
| "str_content (Some m) = takeWhile (\<lambda>b. b \<noteq> 0) m"

definition goose_id :: "GoosePublisher \<Rightarrow> byte list option" where
  "goose_id self = (if gp_goID self \<noteq> None then gp_goID self else gp_goCBRef self)"

definition utc_content :: "GoosePublisher \<Rightarrow> byte list" where
  "utc_content self = (case utc_octets (gp_timestamp self) of Some t \<Rightarrow> t | None \<Rightarrow> [])"

definition goose_fields :: "GoosePublisher \<Rightarrow> MmsValue option list \<Rightarrow> byte list" where
  "goose_fields self ds =
     string_bytes 0x80 (str_content (gp_goCBRef self))
     @ uint32_bytes 0x81 (gp_timeAllowedToLive self)
     @ string_bytes 0x82 (str_content (gp_dataSetRef self))
     @ string_bytes 0x83 (str_content (goose_id self))
     @ octet_bytes 0x84 (utc_content self)
     @ uint32_bytes 0x85 (gp_stNum self)
     @ uint32_bytes 0x86 (gp_sqNum self)
     @ [0x87, 1, if gp_simulation self then 1 else 0]
     @ uint32_bytes 0x88 (gp_confRev self)
     @ [0x89, 1, if gp_needsCommission self then 1 else 0]
     @ uint32_bytes 0x8a (of_nat (length ds))
     @ octet_bytes 0xab (elements_bytes ds)"

definition goose_apdu :: "GoosePublisher \<Rightarrow> MmsValue option list \<Rightarrow> byte list" where
  "goose_apdu self ds = octet_bytes 0x61 (goose_fields self ds)"

definition gp_ok :: "GoosePublisher \<Rightarrow> bool" where
  "gp_ok self \<longleftrightarrow> string_ok (gp_goCBRef self) \<and> string_ok (gp_dataSetRef self) \<and>
     string_ok (gp_goID self) \<and> utc_octets (gp_timestamp self) \<noteq> None \<and>
     length (utc_content self) = 8"

fun dataset_ok :: "MmsValue option list \<Rightarrow> bool" where
  "dataset_ok [] = True"
| "dataset_ok (None # es) = dataset_ok es"
| "dataset_ok (Some v # es) = (mms_ok v \<and> dataset_ok es)"

lemma dataset_encodes:
  assumes "dataset_ok es"
  shows "dataset_size es = Some (of_nat (length (elements_bytes es)))"
    and "dataset_encode es = put_bytes (elements_bytes es)"
  using assms
proof (induction es rule: dataset_ok.induct)
  case (3 v es)
  case 1
  have "encodes_as v (mms_bytes v)" using 1 encodeMmsData_encodes(1) by simp
  then show ?case using 3 1 by (simp add: encodes_as_def)
next
  case (3 v es)
  case 2
  have "encodes_as v (mms_bytes v)" using 2 encodeMmsData_encodes(1) by simp
  then show ?case using 3 2 by (auto simp: encodes_as_def put_fun intro!: ext)
qed (auto simp: put_fun intro!: ext)

lemma string_opt_encodes:
  assumes "string_ok buf"
  shows "BerEncoder_encodeStringWithTag tag buf = put_bytes (string_bytes tag (str_content buf))"
    and "BerEncoder_determineEncodedStringSize buf
      = Some (length (string_bytes tag (str_content buf)))"
  using assms string_encodes [of _ tag]
  by (cases buf; fastforce simp: writer_simps size_simps string_bytes_def length_bytes_def put_fun)+

lemma str_content_less: "string_ok buf \<Longrightarrow> length (str_content buf) < 65535"
  by (cases buf) (simp_all add: string_ok_def)

lemma length_string_bytes_le: "length (string_bytes tag s) \<le> length s + 5"
  by (simp add: string_bytes_def length_bytes_def)

lemma length_uint32_bytes: "length (uint32_bytes tag v) = 2 + length (uint32_content v)"
  by (simp add: uint32_bytes_def)

lemma length_uint32_bytes_le: "length (uint32_bytes tag v) \<le> 7"
  using uint32_content_bounds [of v] by (simp add: length_uint32_bytes)

lemma gp_ok_strings:
  assumes "gp_ok self"
  shows "string_ok (gp_goCBRef self)" "string_ok (gp_dataSetRef self)" "string_ok (goose_id self)"
  using assms by (auto simp: gp_ok_def goose_id_def)

lemma length_goose_fields_less:
  assumes "gp_ok self" and "length (elements_bytes ds) < 65535"
  shows "length (goose_fields self ds) < 2 ^ 20"
proof -
  note s = gp_ok_strings [OF assms(1), THEN str_content_less]
  note le = length_string_bytes_le length_uint32_bytes_le length_octet_bytes_le
  have "length (utc_content self) = 8" using assms(1) by (simp add: gp_ok_def)
  then show ?thesis
    using assms(2) s le(1) [of "0x80" "str_content (gp_goCBRef self)"]
      le(1) [of "0x82" "str_content (gp_dataSetRef self)"] le(1) [of "0x83" "str_content (goose_id self)"]
      le(2) [of "0x81" "gp_timeAllowedToLive self"] le(2) [of "0x85" "gp_stNum self"]
      le(2) [of "0x86" "gp_sqNum self"] le(2) [of "0x88" "gp_confRev self"]
      le(2) [of "0x8a" "of_nat (length ds)"] le(3) [of "0x84" "utc_content self"]
      le(3) [of "0xab" "elements_bytes ds"]
    by (simp add: goose_fields_def)
qed

lemma goose_lengths_ok:
  assumes "gp_ok self" and "dataset_ok ds" and "length (elements_bytes ds) < 65535"
  shows "goose_lengths self ds
    = Some (of_nat (length (goose_fields self ds)), of_nat (length (elements_bytes ds)))"
proof -
  note s = gp_ok_strings [OF assms(1)]
  have utc: "length (octet_bytes 0x84 (utc_content self)) = 10"
    using assms(1) by (simp add: gp_ok_def length_octet_bytes_short)
  show ?thesis
    using string_opt_encodes(2) [OF s(1), of "0x80"] string_opt_encodes(2) [OF s(2), of "0x82"]
      string_opt_encodes(2) [OF s(3), of "0x83"] dataset_encodes(1) [OF assms(2)]
      length_octet_bytes [OF assms(3), of "0xab"] utc
    unfolding goose_lengths_def goose_id_def [symmetric] Let_def
    by (simp add: size_simps goose_fields_def length_uint32_bytes ac_simps)
qed

lemma goose_apdu_written:
  assumes "gp_ok self" and "dataset_ok ds" and "utc_octets (gp_timestamp self) = Some t"
  shows "(do {
       c \<leftarrow> BerEncoder_encodeTL 0x61 (of_nat (length (goose_fields self ds))) c;
       c \<leftarrow> BerEncoder_encodeStringWithTag 0x80 (gp_goCBRef self) c;
       c \<leftarrow> BerEncoder_encodeUInt32WithTL 0x81 (gp_timeAllowedToLive self) c;
       c \<leftarrow> BerEncoder_encodeStringWithTag 0x82 (gp_dataSetRef self) c;
       c \<leftarrow> BerEncoder_encodeStringWithTag 0x83 (goose_id self) c;
       c \<leftarrow> BerEncoder_encodeOctetString 0x84 t 8 c;
       c \<leftarrow> BerEncoder_encodeUInt32WithTL 0x85 (gp_stNum self) c;
       c \<leftarrow> BerEncoder_encodeUInt32WithTL 0x86 (gp_sqNum self) c;
       c \<leftarrow> BerEncoder_encodeBoolean 0x87 (gp_simulation self) c;
       c \<leftarrow> BerEncoder_encodeUInt32WithTL 0x88 (gp_confRev self) c;
       c \<leftarrow> BerEncoder_encodeBoolean 0x89 (gp_needsCommission self) c;
       c \<leftarrow> BerEncoder_encodeUInt32WithTL 0x8a (of_nat (length ds)) c;
       c \<leftarrow> BerEncoder_encodeTL 0xab (of_nat (length (elements_bytes ds))) c;
       c \<leftarrow> dataset_encode ds c;
       f c }) = put_bytes (goose_apdu self ds) c \<bind> f"
proof -
  note s = gp_ok_strings [OF assms(1), THEN string_opt_encodes(1)]
  have t: "utc_content self = t" "length t = 8"
    using assms(1,3) by (auto simp: gp_ok_def utc_content_def)
  have enc8: "BerEncoder_encodeOctetString 0x84 t 8 c = put_bytes (octet_bytes 0x84 t) c" for c
    using encodeOctetString_writes [of 8 t "0x84" c] t by simp
  have "0x61 # length_bytes (of_nat (length (goose_fields self ds))) @ goose_fields self ds
      = goose_apdu self ds"
    by (simp add: goose_apdu_def octet_bytes_def)
  then show ?thesis
    unfolding s encodeUInt32WithTL_writes encodeBoolean_writes encodeTL_writes enc8
      dataset_encodes(2) [OF assms(2)] bind_put_bytes
    by (simp add: goose_fields_def t octet_bytes_def del: put_bytes.simps)
qed

lemma payload_size:
  assumes "L < 2 ^ 20"
  shows "unat (1 + of_nat (BerEncoder_determineLengthSize (of_nat L)) + of_nat L :: uint32)
    = 1 + BerEncoder_determineLengthSize (of_nat L) + L"
proof -
  let ?d = "BerEncoder_determineLengthSize (of_nat L)"
  have "?d \<le> 4" by (simp add: BerEncoder_determineLengthSize_def)
  then have "1 + ?d + L < 2 ^ 32" using assms by simp
  then have "unat (of_nat (1 + ?d + L) :: uint32) = 1 + ?d + L" by (rule unat_of_nat32)
  then show ?thesis by (simp add: add.assoc)
qed

lemma createGoosePayload_result:
  assumes ok: "gp_ok self" "dataset_ok ds" "length (elements_bytes ds) < 65535"
    and m: "maxSz < 65535" "maxSz \<le> length buf"
  shows "createGoosePayload self ds buf maxSz =
    (if length (goose_apdu self ds) \<le> maxSz
     then Some (goose_apdu self ds @ drop (length (goose_apdu self ds)) buf,
                int (length (goose_apdu self ds)))
     else Some (buf, - 1))"
proof -
  define L where "L = length (goose_fields self ds)"
  define P where "P = 1 + BerEncoder_determineLengthSize (of_nat L) + L"
  have "L < 2 ^ 20" unfolding L_def by (rule length_goose_fields_less [OF ok(1,3)])
  then have P: "unat (1 + of_nat (BerEncoder_determineLengthSize (of_nat L)) + of_nat L :: uint32) = P"
    unfolding P_def by (rule payload_size)
  have fits: "P \<le> maxSz \<longleftrightarrow> length (goose_apdu self ds) \<le> maxSz"
  proof (cases "L < 65535")
    case True
    then show ?thesis
      using length_octet_bytes [of "goose_fields self ds" "0x61"]
      by (simp add: goose_apdu_def P_def L_def)
  next
    case False
    then have "maxSz < L" using m(1) by simp
    moreover have "L \<le> length (goose_apdu self ds)" "L \<le> P"
      by (simp_all add: goose_apdu_def octet_bytes_def L_def P_def)
    ultimately show ?thesis by simp
  qed
  obtain t where t: "utc_octets (gp_timestamp self) = Some t" using ok(1) by (auto simp: gp_ok_def)
  have "put_bytes (goose_apdu self ds) (buf, 0)
      = Some (goose_apdu self ds @ drop (length (goose_apdu self ds)) buf, length (goose_apdu self ds))"
    if "length (goose_apdu self ds) \<le> maxSz"
    using put_bytes_exact [of 0 "goose_apdu self ds" buf] that m(2) by simp
  moreover have "createGoosePayload self ds buf maxSz =
      (if maxSz < P then Some (buf, - 1)
       else put_bytes (goose_apdu self ds) (buf, 0) \<bind> (\<lambda>(buffer, bufPos). Some (buffer, int bufPos)))"
    unfolding goose_apdu_written [OF ok(1,2) t, symmetric] createGoosePayload_def
      goose_id_def [symmetric] goose_lengths_ok [OF ok]
    by (simp add: t P Let_def L_def [symmetric])
  ultimately show ?thesis using fits by (auto simp: not_less [symmetric] simp del: put_bytes.simps)
qed

section \<open>The frame\<close>

text \<open>
  The frame layout that \<open>prepareGooseBuffer\<close> establishes and every \<open>publish\<close> keeps: addresses,
  the tag and EtherType octets, application id, length field, reserved octets.
\<close>

definition frame_ok :: "GoosePublisher \<Rightarrow> bool" where
  "frame_ok self \<longleftrightarrow> length (gp_buffer self) = 1518 \<and> 14 \<le> gp_lengthField self \<and>
     gp_payloadStart self = gp_lengthField self + 6 \<and> gp_payloadStart self \<le> 26"

text \<open>The frame a publish sends: the headers with the length filled in, then the APDU.\<close>

definition goose_frame :: "GoosePublisher \<Rightarrow> MmsValue option list \<Rightarrow> byte list" where
  "goose_frame self ds =
     take (gp_lengthField self) (gp_buffer self)
     @ length_octets16 (length (goose_apdu self ds) + 8)
     @ take 4 (drop (gp_lengthField self + 2) (gp_buffer self))
     @ goose_apdu self ds"

definition next_sqNum :: "uint32 \<Rightarrow> uint32" where
  "next_sqNum n = (if n + 1 = 0 then 1 else n + 1)"

lemma publish_fits:
  assumes ok: "gp_ok self" "frame_ok self" "dataset_ok ds"
    and fits: "length (goose_apdu self ds) \<le> 1518 - gp_payloadStart self"
  obtains buf where "GoosePublisher_publish self ds = Some (0, self\<lparr>gp_sqNum := next_sqNum (gp_sqNum self),
      gp_payloadLength := int (length (goose_apdu self ds)), gp_buffer := buf,
      gp_ethernetSocket := (gp_ethernetSocket self)\<lparr>es_sent :=
        es_sent (gp_ethernetSocket self) @ [drop 14 (goose_frame self ds)]\<rparr>\<rparr>)"
    and "length buf = 1518" and "take (length (goose_frame self ds)) buf = goose_frame self ds"
proof -
  let ?a = "goose_apdu self ds"
  define l where "l = gp_lengthField self"
  define b where "b = gp_buffer self"
  define n where "n = length ?a"
  have l: "14 \<le> l" "l \<le> 20" "gp_payloadStart self = l + 6" "length b = 1518"
    using ok(2) by (auto simp: frame_ok_def l_def b_def)
  have data: "length (elements_bytes ds) < 65535"
  proof -
    have "length (elements_bytes ds) \<le> length ?a"
      by (simp add: goose_apdu_def octet_bytes_def goose_fields_def)
    then show ?thesis using fits by simp
  qed
  define buf1 where "buf1 = take (l + 6) b @ ?a @ drop (n + (l + 6)) b"
  have payload: "createGoosePayload self ds (drop (l + 6) b) (1518 - (l + 6))
      = Some (?a @ drop n (drop (l + 6) b), int n)"
    using createGoosePayload_result [OF ok(1,3) data, of "1518 - (l + 6)" "drop (l + 6) b"] fits l
    by (simp add: n_def)
  define buf2 where "buf2 = take l b @ length_octets16 (n + 8) @ take 4 (drop (l + 2) b) @ ?a
      @ drop (n + (l + 6)) b"
  have split: "take (l + 6) b = take l b @ take 2 (drop l b) @ take 4 (drop (l + 2) b)"
    using take_add [of l 6 b] take_add [of 2 4 "drop l b"] by (simp add: add.commute)
  have len2: "length (take 2 (drop l b)) = length (length_octets16 (n + 8))"
    using l by (simp add: length_octets16_def)
  have put2: "put_bytes (length_octets16 (n + 8)) (buf1, l) = Some (buf2, l + 2)"
    using put_bytes_append_buf [of l "take l b" "take 2 (drop l b)" "length_octets16 (n + 8)"
        "take 4 (drop (l + 2) b) @ ?a @ drop (n + (l + 6)) b"] l len2
    by (simp add: buf1_def buf2_def split length_octets16_def)
  have buf2: "buf2 = goose_frame self ds @ drop (n + (l + 6)) b"
    by (simp add: goose_frame_def buf2_def l_def [symmetric] b_def [symmetric] n_def)
  have flen: "length (goose_frame self ds) = l + 6 + n"
    using l by (simp add: goose_frame_def l_def [symmetric] b_def [symmetric] n_def length_octets16_def)
  then have frame: "goose_frame self ds = take (l + 6 + n) buf2" by (simp add: buf2)
  have lens: "length buf2 = 1518" "length (goose_frame self ds) = l + 6 + n"
    using l fits flen by (simp_all add: buf2 n_def)
  have "Ethernet_sendPacket (gp_ethernetSocket self) buf2 (int (l + 6 + n))
      = Some ((gp_ethernetSocket self)\<lparr>es_sent :=
          es_sent (gp_ethernetSocket self) @ [drop 14 (goose_frame self ds)]\<rparr>)"
    using sendPacket_sends [of "l + 6 + n" buf2] l lens fits by (simp add: frame n_def)
  moreover have "nat (int n + 8) = n + 8" by simp
  ultimately have "GoosePublisher_publish self ds = Some (0, self\<lparr>gp_sqNum := next_sqNum (gp_sqNum self),
      gp_payloadLength := int n, gp_buffer := buf2,
      gp_ethernetSocket := (gp_ethernetSocket self)\<lparr>es_sent :=
        es_sent (gp_ethernetSocket self) @ [drop 14 (goose_frame self ds)]\<rparr>\<rparr>)"
    using payload put2 l
    by (simp add: GoosePublisher_publish_def Let_def GOOSE_MAX_MESSAGE_SIZE_def b_def [symmetric]
        l_def [symmetric] buf1_def length_octets16_def next_sqNum_def del: put_bytes.simps)
  with lens frame show thesis using that [of buf2] by (simp add: n_def)
qed

text \<open>A data set that does not fit is refused before anything is written or sent.\<close>

lemma publish_too_large:
  assumes ok: "gp_ok self" "frame_ok self" "dataset_ok ds" "length (elements_bytes ds) < 65535"
    and big: "1518 - gp_payloadStart self < length (goose_apdu self ds)"
  shows "GoosePublisher_publish self ds = Some (- 1, self\<lparr>gp_payloadLength := - 1\<rparr>)"
proof -
  have "createGoosePayload self ds (drop (gp_payloadStart self) (gp_buffer self))
      (1518 - gp_payloadStart self) = Some (drop (gp_payloadStart self) (gp_buffer self), - 1)"
    using createGoosePayload_result [OF ok(1,3,4), of "1518 - gp_payloadStart self"
        "drop (gp_payloadStart self) (gp_buffer self)"] ok(2) big
    by (simp add: frame_ok_def)
  then show ?thesis by (simp add: GoosePublisher_publish_def GOOSE_MAX_MESSAGE_SIZE_def)
qed

definition has_header :: "byte list \<Rightarrow> GoosePublisher \<Rightarrow> bool" where
  "has_header hdr self \<longleftrightarrow> take (gp_lengthField self) (gp_buffer self) = hdr \<and>
     take 4 (drop (gp_lengthField self + 2) (gp_buffer self)) = [0, 0, 0, 0]"

lemma goose_frame_header:
  "has_header hdr self \<Longrightarrow>
   goose_frame self ds
     = hdr @ length_octets16 (length (goose_apdu self ds) + 8) @ [0, 0, 0, 0] @ goose_apdu self ds"
  by (simp add: has_header_def goose_frame_def)

text \<open>The invariant of the publisher, and the operations that keep it.\<close>

definition gp_inv :: "byte list \<Rightarrow> GoosePublisher \<Rightarrow> bool" where
  "gp_inv hdr self \<longleftrightarrow> gp_ok self \<and> frame_ok self \<and> has_header hdr self"

lemma publish_inv:
  assumes "gp_inv hdr self" and "dataset_ok ds"
    and "length (goose_apdu self ds) \<le> 1518 - gp_payloadStart self"
  obtains self' where "GoosePublisher_publish self ds = Some (0, self')" and "gp_inv hdr self'"
    and "gp_sqNum self' = next_sqNum (gp_sqNum self)" and "gp_stNum self' = gp_stNum self"
    and "es_sent (gp_ethernetSocket self')
      = es_sent (gp_ethernetSocket self) @ [drop 14 (goose_frame self ds)]"
proof -
  have ok: "gp_ok self" "frame_ok self" "has_header hdr self"
    using assms(1) by (auto simp: gp_inv_def)
  obtain buf where p: "GoosePublisher_publish self ds = Some (0, self\<lparr>gp_sqNum := next_sqNum (gp_sqNum self),
      gp_payloadLength := int (length (goose_apdu self ds)), gp_buffer := buf,
      gp_ethernetSocket := (gp_ethernetSocket self)\<lparr>es_sent :=
        es_sent (gp_ethernetSocket self) @ [drop 14 (goose_frame self ds)]\<rparr>\<rparr>)" (is "_ = Some (0, ?s)")
    and len: "length buf = 1518"
    and buf: "take (length (goose_frame self ds)) buf = goose_frame self ds"
    using publish_fits [OF ok(1,2) assms(2,3)] by blast
  define l where "l = gp_lengthField self"
  have l: "length hdr = l" using ok by (auto simp: has_header_def frame_ok_def l_def)
  obtain rest where split: "buf = hdr @ length_octets16 (length (goose_apdu self ds) + 8)
      @ [0, 0, 0, 0] @ rest"
    using buf goose_frame_header [OF ok(3), of ds]
    by (metis append.assoc append_take_drop_id)
  have "has_header hdr ?s"
    unfolding has_header_def using split l by (simp add: l_def length_octets16_def)
  moreover have "gp_ok ?s" "frame_ok ?s"
    using ok len by (auto simp: gp_ok_def frame_ok_def utc_content_def)
  ultimately show thesis using p that [of ?s] by (simp add: gp_inv_def)
qed

lemma copyString_content:
  "0 \<in> set s \<Longrightarrow> StringUtils_copyString s = Some (takeWhile (\<lambda>b. b \<noteq> 0) s @ [0])"
proof -
  assume z: "0 \<in> set s"
  let ?n = "length (takeWhile (\<lambda>b. b \<noteq> 0) s)"
  have n: "?n < length s" and "s ! ?n = 0"
    using strlen_SomeD [OF strlen_takeWhile [OF z]] by auto
  then have "take (Suc ?n) s = takeWhile (\<lambda>b. b \<noteq> 0) s @ [0]"
    using n by (simp add: take_Suc_conv_app_nth take_length_takeWhile)
  then show ?thesis
    using n z by (simp add: StringUtils_copyString_def strlen_takeWhile rd_bytes_def nat_add_distrib)
qed

lemma string_ok_copy:
  "string_ok (Some s) \<Longrightarrow>
   string_ok (Some (takeWhile (\<lambda>b. b \<noteq> 0) s @ [0])) \<and>
   str_content (Some (takeWhile (\<lambda>b. b \<noteq> 0) s @ [0])) = str_content (Some s)"
proof -
  have "takeWhile (\<lambda>b. b \<noteq> 0) (takeWhile (\<lambda>b. b \<noteq> 0) s @ [0 :: byte]) = takeWhile (\<lambda>b. b \<noteq> 0) s"
    by (induction s) auto
  then show "string_ok (Some s) \<Longrightarrow> ?thesis" by (simp add: string_ok_def)
qed

lemma setters_inv:
  assumes "gp_inv hdr self"
  shows "gp_inv hdr (GoosePublisher_setConfRev self cr)"
    and "gp_inv hdr (GoosePublisher_setSimulation self b)"
    and "gp_inv hdr (GoosePublisher_setStNum self n)"
    and "gp_inv hdr (GoosePublisher_setSqNum self n)"
    and "gp_inv hdr (GoosePublisher_setNeedsCommission self b)"
    and "gp_inv hdr (GoosePublisher_setTimeAllowedToLive self n)"
    and "gp_inv hdr (GoosePublisher_reset self)"
  using assms
  by (auto simp: gp_inv_def gp_ok_def frame_ok_def has_header_def utc_content_def
      GoosePublisher_setConfRev_def GoosePublisher_setSimulation_def GoosePublisher_setStNum_def
      GoosePublisher_setSqNum_def GoosePublisher_setNeedsCommission_def
      GoosePublisher_setTimeAllowedToLive_def GoosePublisher_reset_def)

lemma string_setters_inv:
  assumes "gp_inv hdr self" and "string_ok (Some s)"
  shows "\<exists>self'. GoosePublisher_setGoID self s = Some self' \<and> gp_inv hdr self' \<and>
      str_content (gp_goID self') = str_content (Some s)"
    and "\<exists>self'. GoosePublisher_setGoCbRef self s = Some self' \<and> gp_inv hdr self' \<and>
      str_content (gp_goCBRef self') = str_content (Some s)"
    and "\<exists>self'. GoosePublisher_setDataSetRef self s = Some self' \<and> gp_inv hdr self' \<and>
      str_content (gp_dataSetRef self') = str_content (Some s)"
proof -
  have z: "0 \<in> set s" using assms(2) by (simp add: string_ok_def)
  note copy = copyString_content [OF z] string_ok_copy [OF assms(2)]
  show "\<exists>self'. GoosePublisher_setGoID self s = Some self' \<and> gp_inv hdr self' \<and>
      str_content (gp_goID self') = str_content (Some s)"
    and "\<exists>self'. GoosePublisher_setGoCbRef self s = Some self' \<and> gp_inv hdr self' \<and>
      str_content (gp_goCBRef self') = str_content (Some s)"
    and "\<exists>self'. GoosePublisher_setDataSetRef self s = Some self' \<and> gp_inv hdr self' \<and>
      str_content (gp_dataSetRef self') = str_content (Some s)"
    using assms(1) copy
    by (simp_all add: GoosePublisher_setGoID_def GoosePublisher_setGoCbRef_def
        GoosePublisher_setDataSetRef_def gp_inv_def gp_ok_def frame_ok_def has_header_def
        utc_content_def)
qed

text \<open>A new state: the next number, never 0, the sequence restarts, the time stamp is the given time.\<close>

lemma increaseStNum_inv:
  assumes "gp_inv hdr self" and "unat now < 1000 * 2 ^ 32"
  obtains self' where "GoosePublisher_increaseStNum now self = Some (now, self')"
    and "gp_inv hdr self'" and "gp_stNum self' = next_sqNum (gp_stNum self)"
    and "gp_sqNum self' = 0" and "MmsValue_getUtcTimeInMs (gp_timestamp self') = Some now"
    and "gp_ethernetSocket self' = gp_ethernetSocket self"
proof -
  obtain t where t: "gp_timestamp self = MmsUtcTime t" "length t = 8"
    using assms(1)
    by (cases "gp_timestamp self") (auto simp: gp_inv_def gp_ok_def utc_content_def)
  obtain t' where t': "setUtcTimeMs (MmsUtcTime t) now 0x0a = Some (MmsUtcTime t')" "length t' = 8"
      "MmsValue_getUtcTimeInMs (MmsUtcTime t') = Some now"
    using utcTimeMs_roundtrip [OF t(2) assms(2)] by blast
  let ?s = "self\<lparr>gp_timestamp := MmsUtcTime t', gp_stNum := next_sqNum (gp_stNum self), gp_sqNum := 0\<rparr>"
  have "GoosePublisher_increaseStNum now self = Some (now, ?s)"
    using t t' by (simp add: GoosePublisher_increaseStNum_def MmsValue_setUtcTimeMs_def next_sqNum_def)
  moreover have "gp_inv hdr ?s"
    using assms(1) t'(2)
    by (simp add: gp_inv_def gp_ok_def frame_ok_def has_header_def utc_content_def)
  ultimately show thesis using that t' by simp
qed

lemma next_sqNum_nonzero [simp]: "next_sqNum n \<noteq> 0"
  by (simp add: next_sqNum_def)

text \<open>The headers of a new publisher.\<close>

definition goose_header :: "CommParameters \<Rightarrow> byte list \<Rightarrow> bool \<Rightarrow> byte list" where
  "goose_header p src useVlanTag =
     dstAddress p @ src @ (if useVlanTag then vlan_bytes p else []) @ header_bytes p"

lemma createEx_inv:
  assumes dev: "devices i = Some mac" "length mac = 6"
    and p: "length (dstAddress p) = 6" and heap: "length heap = 1518"
    and now: "unat now < 1000 * 2 ^ 32"
  obtains self where "GoosePublisher_createEx devices heap now (Some p) (Some i) v = Some self"
    and "gp_inv (goose_header p mac v) self" and "gp_stNum self = 1" and "gp_sqNum self = 0"
    and "es_sent (gp_ethernetSocket self) = []"
    and "MmsValue_getUtcTimeInMs (gp_timestamp self) = Some now"
    and "gp_goCBRef self = None" and "gp_dataSetRef self = None" and "gp_goID self = None"
    and "gp_timeAllowedToLive self = 0" and "gp_confRev self = 0"
proof -
  let ?h = "goose_header p mac v"
  let ?z = "[0x00, 0x08, 0x00, 0x00, 0x00, 0x00] :: byte list"
  define l where "l = length ?h"
  define buf where "buf = ?h @ ?z @ drop (l + 6) heap"
  have l: "l = (if v then 20 else 16)"
    using dev p by (simp add: l_def goose_header_def vlan_bytes_def header_bytes_def Let_def)
  have put_h: "put_bytes ?h (heap, 0) = Some (?h @ drop l heap, l)"
    using put_bytes_exact [of 0 ?h heap] heap l by (simp add: l_def [symmetric])
  have put_z: "put_bytes ?z (?h @ drop l heap, l) = Some (buf, l + 6)"
    using put_bytes_exact [of l ?z "?h @ drop l heap"] heap l
    by (simp add: l_def [symmetric] buf_def del: put_bytes.simps)
  obtain t' where t': "setUtcTimeMs (MmsUtcTime (replicate 8 0)) now 0x0a = Some (MmsUtcTime t')"
      "length t' = 8" "MmsValue_getUtcTimeInMs (MmsUtcTime t') = Some now"
    using utcTimeMs_roundtrip [of "replicate 8 0" now "0x0a"] now by auto
  have six: "rd_bytes mac 0 6 = Some mac" "rd_bytes (dstAddress p) 0 6 = Some (dstAddress p)"
    using dev(2) p by (simp_all add: rd_bytes_def)
  have chain: "(do { c \<leftarrow> put_bytes (dstAddress p) (heap, 0); c \<leftarrow> put_bytes mac c;
      c \<leftarrow> (if v then put_bytes (vlan_bytes p) c else Some c); c \<leftarrow> put_bytes (header_bytes p) c; f c })
      = f (?h @ drop l heap, l)" for f :: "cursor \<Rightarrow> GoosePublisher option"
    using put_h by (cases v) (simp_all add: bind_put_bytes goose_header_def)
  define s where "s = new_GoosePublisher\<lparr>gp_ethernetSocket := \<lparr>es_remote = Some (dstAddress p), es_sent = []\<rparr>,
      gp_buffer := buf, gp_lengthField := l, gp_payloadStart := l + 6\<rparr>"
  have prep: "prepareGooseBuffer devices heap new_GoosePublisher (Some p) (Some i) v = Some s"
    using put_z
    by (simp add: prepareGooseBuffer_def Ethernet_getInterfaceMACAddress_def
        Ethernet_createSocket_def dev(1) six chain s_def del: put_bytes.simps)
  let ?s = "s\<lparr>gp_timestamp := MmsUtcTime t', gp_sqNum := 0, gp_stNum := 1\<rparr>"
  have "GoosePublisher_createEx devices heap now (Some p) (Some i) v = Some ?s"
    using prep t'(1)
    by (simp add: GoosePublisher_createEx_def MmsValue_newUtcTimeByMsTime_def
        MmsValue_setUtcTimeMs_def GoosePublisher_reset_def)
  moreover have "gp_ok ?s"
    by (simp add: gp_ok_def string_ok_def utc_content_def s_def new_GoosePublisher_def t'(2))
  moreover have "frame_ok ?s" using heap l
    by (simp add: frame_ok_def s_def new_GoosePublisher_def buf_def l_def [symmetric])
  moreover have "has_header ?h ?s"
    by (simp add: has_header_def s_def new_GoosePublisher_def buf_def l_def)
  ultimately show thesis
    using that [of ?s] t'(3) by (simp add: gp_inv_def s_def new_GoosePublisher_def)
qed

lemma length_goose_apdu_le:
  assumes "gp_ok self"
  shows "length (goose_apdu self ds) \<le> 100 + length (str_content (gp_goCBRef self))
    + length (str_content (gp_dataSetRef self)) + length (str_content (goose_id self))
    + length (elements_bytes ds)"
proof -
  have "length (utc_content self) = 8" using assms by (simp add: gp_ok_def)
  note le = length_string_bytes_le length_uint32_bytes_le length_octet_bytes_le
  show ?thesis
    using \<open>length (utc_content self) = 8\<close>
      le(1) [of "0x80" "str_content (gp_goCBRef self)"]
      le(1) [of "0x82" "str_content (gp_dataSetRef self)"] le(1) [of "0x83" "str_content (goose_id self)"]
      le(2) [of "0x81" "gp_timeAllowedToLive self"] le(2) [of "0x85" "gp_stNum self"]
      le(2) [of "0x86" "gp_sqNum self"] le(2) [of "0x88" "gp_confRev self"]
      le(2) [of "0x8a" "of_nat (length ds)"] le(3) [of "0x84" "utc_content self"]
      le(3) [of "0xab" "elements_bytes ds"] le(3) [of "0x61" "goose_fields self ds"]
    by (simp add: goose_apdu_def goose_fields_def)
qed

section \<open>A run of messages\<close>

text \<open>A client that publishes one data set after the other.\<close>

fun publish_all :: "GoosePublisher \<Rightarrow> MmsValue option list list \<Rightarrow> GoosePublisher option" where
  "publish_all self [] = Some self"
| "publish_all self (ds # dss) = do {
     (rc, self) \<leftarrow> GoosePublisher_publish self ds;
     if rc = 0 then publish_all self dss else None }"

definition goose_packet :: "byte list \<Rightarrow> GoosePublisher \<Rightarrow> MmsValue option list \<Rightarrow> byte list" where
  "goose_packet hdr self ds =
     drop 14 (hdr @ length_octets16 (length (goose_apdu self ds) + 8) @ [0, 0, 0, 0] @ goose_apdu self ds)"

definition at_sqNum :: "GoosePublisher \<Rightarrow> uint32 \<Rightarrow> GoosePublisher" where
  "at_sqNum self n = self\<lparr>gp_sqNum := n\<rparr>"

text \<open>The APDU depends on the message fields only, not on the buffer.\<close>

definition same_message :: "GoosePublisher \<Rightarrow> GoosePublisher \<Rightarrow> bool" where
  "same_message a b \<longleftrightarrow> gp_goID a = gp_goID b \<and> gp_goCBRef a = gp_goCBRef b \<and>
     gp_dataSetRef a = gp_dataSetRef b \<and> gp_confRev a = gp_confRev b \<and> gp_stNum a = gp_stNum b \<and>
     gp_timeAllowedToLive a = gp_timeAllowedToLive b \<and> gp_needsCommission a = gp_needsCommission b \<and>
     gp_simulation a = gp_simulation b \<and> gp_timestamp a = gp_timestamp b"

lemma same_message_apdu:
  "same_message a b \<Longrightarrow> gp_sqNum a = gp_sqNum b \<Longrightarrow> goose_apdu a ds = goose_apdu b ds"
  by (simp add: same_message_def goose_apdu_def goose_fields_def goose_id_def utc_content_def)

lemma publish_step:
  assumes inv: "gp_inv hdr self" and ds: "dataset_ok ds"
    and fits: "length (goose_apdu self ds) \<le> 1518 - gp_payloadStart self"
  obtains self' where "GoosePublisher_publish self ds = Some (0, self')" and "gp_inv hdr self'"
    and "gp_sqNum self' = next_sqNum (gp_sqNum self)" and "same_message self' self"
    and "gp_payloadStart self' = gp_payloadStart self"
    and "es_sent (gp_ethernetSocket self') = es_sent (gp_ethernetSocket self) @ [goose_packet hdr self ds]"
proof -
  have ok: "gp_ok self" "frame_ok self" "has_header hdr self" using inv by (auto simp: gp_inv_def)
  obtain buf where p: "GoosePublisher_publish self ds = Some (0, self\<lparr>gp_sqNum := next_sqNum (gp_sqNum self),
      gp_payloadLength := int (length (goose_apdu self ds)), gp_buffer := buf,
      gp_ethernetSocket := (gp_ethernetSocket self)\<lparr>es_sent :=
        es_sent (gp_ethernetSocket self) @ [drop 14 (goose_frame self ds)]\<rparr>\<rparr>)" (is "_ = Some (0, ?s)")
    by (rule publish_fits [OF ok(1,2) ds fits])
  moreover obtain self' where "GoosePublisher_publish self ds = Some (0, self')" "gp_inv hdr self'"
    by (rule publish_inv [OF inv ds fits])
  moreover have "drop 14 (goose_frame self ds) = goose_packet hdr self ds"
    by (simp only: goose_packet_def goose_frame_header [OF ok(3)])
  ultimately show thesis
    using that [of ?s] by (simp add: same_message_def)
qed

lemma publish_all_sends:
  assumes "gp_inv hdr self" and "list_all dataset_ok dss"
    and "\<forall>i < length dss. length (goose_apdu (at_sqNum self ((next_sqNum ^^ i) (gp_sqNum self))) (dss ! i))
      \<le> 1518 - gp_payloadStart self"
  shows "\<exists>self'. publish_all self dss = Some self' \<and> gp_inv hdr self' \<and>
    gp_sqNum self' = (next_sqNum ^^ length dss) (gp_sqNum self) \<and>
    es_sent (gp_ethernetSocket self') = es_sent (gp_ethernetSocket self)
      @ map (\<lambda>i. goose_packet hdr (at_sqNum self ((next_sqNum ^^ i) (gp_sqNum self))) (dss ! i))
          [0..<length dss]"
  using assms
proof (induction dss arbitrary: self)
  case Nil
  then show ?case by simp
next
  case (Cons ds dss)
  have apdu0: "goose_apdu (at_sqNum self (gp_sqNum self)) ds = goose_apdu self ds"
    by (rule same_message_apdu) (simp_all add: same_message_def at_sqNum_def)
  have "length (goose_apdu self ds) \<le> 1518 - gp_payloadStart self"
    using Cons.prems(3) [rule_format, of 0] apdu0 by simp
  then obtain s where s: "GoosePublisher_publish self ds = Some (0, s)" "gp_inv hdr s"
      "gp_sqNum s = next_sqNum (gp_sqNum self)" "same_message s self"
      "gp_payloadStart s = gp_payloadStart self"
      "es_sent (gp_ethernetSocket s) = es_sent (gp_ethernetSocket self) @ [goose_packet hdr self ds]"
    using publish_step [of hdr self ds] Cons.prems by auto
  have apdu: "goose_apdu (at_sqNum s n) d = goose_apdu (at_sqNum self n) d" for n d
    by (rule same_message_apdu) (use s(4) in \<open>auto simp: same_message_def at_sqNum_def\<close>)
  have step: "(next_sqNum ^^ i) (gp_sqNum s) = (next_sqNum ^^ Suc i) (gp_sqNum self)" for i
    by (simp add: s(3) funpow_swap1)
  obtain self' where self': "publish_all s dss = Some self'" "gp_inv hdr self'"
      "gp_sqNum self' = (next_sqNum ^^ length dss) (gp_sqNum s)"
      "es_sent (gp_ethernetSocket self') = es_sent (gp_ethernetSocket s)
        @ map (\<lambda>i. goose_packet hdr (at_sqNum s ((next_sqNum ^^ i) (gp_sqNum s))) (dss ! i)) [0..<length dss]"
  proof -
    have "\<forall>i < length dss. length (goose_apdu (at_sqNum s ((next_sqNum ^^ i) (gp_sqNum s))) (dss ! i))
        \<le> 1518 - gp_payloadStart s"
      using Cons.prems(3) unfolding apdu step s(5) by fastforce
    then show thesis using that Cons.IH [OF s(2)] Cons.prems(2) by auto
  qed
  have "map (\<lambda>i. goose_packet hdr (at_sqNum self ((next_sqNum ^^ i) (gp_sqNum self))) ((ds # dss) ! i))
      [0..<length (ds # dss)]
    = goose_packet hdr self ds
      # map (\<lambda>i. goose_packet hdr (at_sqNum s ((next_sqNum ^^ i) (gp_sqNum s))) (dss ! i)) [0..<length dss]"
    unfolding goose_packet_def apdu step
    by (simp add: upt_conv_Cons apdu0 map_Suc_upt [symmetric] del: upt_Suc)
  then show ?case
    using s self' by (simp add: step funpow_swap1)
qed

lemma sqNum_count:
  "k < 2 ^ 32 \<Longrightarrow> (next_sqNum ^^ k) 0 = of_nat k"
proof (induction k)
  case 0
  then show ?case by simp
next
  case (Suc k)
  have "unat (of_nat (Suc k) :: uint32) = Suc k" using Suc.prems by (rule unat_of_nat32)
  then have "(of_nat (Suc k) :: uint32) \<noteq> 0" by (metis nat.distinct(1) unsigned_0)
  then show ?case using Suc by (simp add: next_sqNum_def add.commute)
qed

section \<open>Properties\<close>

text \<open>A new publisher is in its invariant: the frame buffer carries the headers for its
  parameters, the state number is 1, the sequence number 0, nothing has been sent and the time
  stamp is the time of creation.\<close>

theorem publisher_created:
  assumes "devices i = Some mac" and "length mac = 6" and "length (dstAddress p) = 6"
    and "length heap = 1518" and "unat now < 1000 * 2 ^ 32"
  shows "\<exists>self. GoosePublisher_createEx devices heap now (Some p) (Some i) v = Some self \<and>
    gp_inv (goose_header p mac v) self \<and> gp_stNum self = 1 \<and> gp_sqNum self = 0 \<and>
    es_sent (gp_ethernetSocket self) = [] \<and>
    MmsValue_getUtcTimeInMs (gp_timestamp self) = Some now"
  by (rule createEx_inv [of devices i mac p heap now v]) (use assms in blast)+

theorem publisher_created_witness:
  "\<exists>self. GoosePublisher_createEx (\<lambda>_. Some [2, 0, 0, 0, 0, 1]) (replicate 1518 7) 1000
      (Some default_comm_parameters) (Some [0x30, 0]) True = Some self \<and>
    gp_inv (goose_header default_comm_parameters [2, 0, 0, 0, 0, 1] True) self \<and>
    gp_stNum self = 1 \<and> gp_sqNum self = 0 \<and> es_sent (gp_ethernetSocket self) = [] \<and>
    MmsValue_getUtcTimeInMs (gp_timestamp self) = Some 1000"
  by (rule publisher_created) (simp_all add: default_comm_parameters_def)

text \<open>C15. Publishing one data set after the other sends one packet per data set, in order: each is
  the headers with the length of its APDU and the APDU, and carries the next sequence number; the
  publisher stays in its invariant.\<close>

theorem publish_sequence:
  assumes "gp_inv hdr self" and "list_all dataset_ok dss"
    and "\<forall>i < length dss. length (goose_apdu (at_sqNum self ((next_sqNum ^^ i) (gp_sqNum self))) (dss ! i))
      \<le> 1518 - gp_payloadStart self"
  shows "\<exists>self'. publish_all self dss = Some self' \<and> gp_inv hdr self' \<and>
    gp_sqNum self' = (next_sqNum ^^ length dss) (gp_sqNum self) \<and>
    es_sent (gp_ethernetSocket self') = es_sent (gp_ethernetSocket self)
      @ map (\<lambda>i. goose_packet hdr (at_sqNum self ((next_sqNum ^^ i) (gp_sqNum self))) (dss ! i))
          [0..<length dss]"
  by (rule publish_all_sends [OF assms])

lemma example_publisher:
  obtains self where "gp_inv (goose_header default_comm_parameters [2, 0, 0, 0, 0, 1] True) self"
    and "\<forall>n ds. length (goose_apdu (at_sqNum self n) ds) \<le> 100 + length (elements_bytes ds)"
    and "gp_payloadStart self \<le> 26" and "es_sent (gp_ethernetSocket self) = []" and "gp_sqNum self = 0"
    and "gp_stNum self = 1" and "gp_goCBRef self = None" and "gp_dataSetRef self = None" and "gp_goID self = None"
proof -
  obtain self where s: "gp_inv (goose_header default_comm_parameters [2, 0, 0, 0, 0, 1] True) self"
      "gp_goCBRef self = None" "gp_dataSetRef self = None" "gp_goID self = None"
      "es_sent (gp_ethernetSocket self) = []" "gp_sqNum self = 0" "gp_stNum self = 1"
    by (rule createEx_inv [of "\<lambda>_. Some [2, 0, 0, 0, 0, 1]" "[]" "[2, 0, 0, 0, 0, 1]"
        default_comm_parameters "replicate 1518 0" 0 True])
      (simp_all add: default_comm_parameters_def)
  have "gp_ok (at_sqNum self n)" for n
    using s(1) by (simp add: gp_inv_def gp_ok_def at_sqNum_def utc_content_def)
  from length_goose_apdu_le [OF this]
  have "length (goose_apdu (at_sqNum self n) ds) \<le> 100 + length (elements_bytes ds)" for n ds
    using s(2-4) by (simp add: at_sqNum_def goose_id_def)
  moreover have "gp_payloadStart self \<le> 26" using s(1) by (simp add: gp_inv_def frame_ok_def)
  ultimately show thesis using that [OF s(1)] s by simp
qed

theorem publish_sequence_witness:
  "\<exists>self self'. publish_all self [[Some (MmsBoolean True)], [None]] = Some self' \<and>
    gp_sqNum self = 0 \<and> gp_sqNum self' = 2 \<and>
    es_sent (gp_ethernetSocket self') =
      map (\<lambda>i. goose_packet (goose_header default_comm_parameters [2, 0, 0, 0, 0, 1] True)
        (at_sqNum self (of_nat i)) ([[Some (MmsBoolean True)], [None]] ! i)) [0..<2]"
proof -
  obtain self where s: "gp_inv (goose_header default_comm_parameters [2, 0, 0, 0, 0, 1] True) self"
      "\<forall>n ds. length (goose_apdu (at_sqNum self n) ds) \<le> 100 + length (elements_bytes ds)"
      "gp_payloadStart self \<le> 26" "es_sent (gp_ethernetSocket self) = []" "gp_sqNum self = 0"
    by (rule example_publisher)
  let ?dss = "[[Some (MmsBoolean True)], [None]]"
  have sq: "(next_sqNum ^^ 2) 0 = 2" "(next_sqNum ^^ i) 0 = of_nat i" if "i < 2" for i
    using sqNum_count [of 2] sqNum_count [of i] that by simp_all
  have fits: "\<forall>i < length ?dss. length (goose_apdu (at_sqNum self ((next_sqNum ^^ i) (gp_sqNum self))) (?dss ! i))
      \<le> 1518 - gp_payloadStart self"
  proof (intro allI impI)
    fix i assume i: "i < length ?dss"
    then have "length (elements_bytes (?dss ! i)) \<le> 3" by (cases i) auto
    then show "length (goose_apdu (at_sqNum self ((next_sqNum ^^ i) (gp_sqNum self))) (?dss ! i))
        \<le> 1518 - gp_payloadStart self"
      using s(2) [rule_format, of "(next_sqNum ^^ i) (gp_sqNum self)" "?dss ! i"] s(3) by linarith
  qed
  obtain self' where r: "publish_all self ?dss = Some self'"
      "gp_sqNum self' = (next_sqNum ^^ length ?dss) (gp_sqNum self)"
      "es_sent (gp_ethernetSocket self') = es_sent (gp_ethernetSocket self)
        @ map (\<lambda>i. goose_packet (goose_header default_comm_parameters [2, 0, 0, 0, 0, 1] True)
            (at_sqNum self ((next_sqNum ^^ i) (gp_sqNum self))) (?dss ! i)) [0..<length ?dss]"
    using publish_sequence [OF s(1) _ fits] by auto
  have "gp_sqNum self' = 2" using r(2) s(5) sq(1) [of 0] by (simp add: numeral_2_eq_2)
  moreover have "es_sent (gp_ethernetSocket self') =
      map (\<lambda>i. goose_packet (goose_header default_comm_parameters [2, 0, 0, 0, 0, 1] True)
        (at_sqNum self (of_nat i)) (?dss ! i)) [0..<2]"
    unfolding r(3) s(4,5) using sq(2) [of 1] by (simp add: numeral_2_eq_2)
  ultimately show ?thesis using r(1) s(5) by blast
qed

text \<open>C27. A data set whose APDU exceeds the maximal frame is refused with -1: nothing is sent, the
  frame buffer and the sequence number stay as they are.\<close>

theorem publish_refuses_large:
  assumes "gp_inv hdr self" and "dataset_ok ds" and "length (elements_bytes ds) < 65535"
    and "1518 - gp_payloadStart self < length (goose_apdu self ds)"
  shows "GoosePublisher_publish self ds = Some (- 1, self\<lparr>gp_payloadLength := - 1\<rparr>)"
  using assms publish_too_large [of self ds] by (simp add: gp_inv_def)

theorem publish_refuses_large_witness:
  "\<exists>self. GoosePublisher_publish self [Some (MmsOctetString 2000 2000 (replicate 2000 0))]
    = Some (- 1, self\<lparr>gp_payloadLength := - 1\<rparr>)"
proof -
  let ?ds = "[Some (MmsOctetString 2000 2000 (replicate 2000 0))]"
  obtain self where s: "gp_inv (goose_header default_comm_parameters [2, 0, 0, 0, 0, 1] True) self"
    by (rule example_publisher)
  have len: "length (elements_bytes ?ds) = 2004"
    by (simp add: octet_bytes_def length_bytes_def)
  have "length (elements_bytes ?ds) \<le> length (goose_apdu self ?ds)"
    by (simp add: goose_apdu_def octet_bytes_def goose_fields_def)
  then have large: "1518 - gp_payloadStart self < length (goose_apdu self ?ds)"
    unfolding len by linarith
  have "GoosePublisher_publish self ?ds = Some (- 1, self\<lparr>gp_payloadLength := - 1\<rparr>)"
    by (rule publish_refuses_large [OF s _ _ large]) (simp_all add: len del: elements_bytes.simps)
  then show ?thesis by blast
qed

text \<open>A new state takes the next state number, skipping 0 on wrap-around, restarts the
  sequence at 0 and stamps the current time.\<close>

theorem increaseStNum_new_state:
  assumes "gp_inv hdr self" and "unat now < 1000 * 2 ^ 32"
  shows "\<exists>self'. GoosePublisher_increaseStNum now self = Some (now, self') \<and> gp_inv hdr self' \<and>
    gp_stNum self' = (if gp_stNum self = - 1 then 1 else gp_stNum self + 1) \<and> gp_stNum self' \<noteq> 0 \<and>
    gp_sqNum self' = 0 \<and> MmsValue_getUtcTimeInMs (gp_timestamp self') = Some now"
proof -
  obtain self' where s: "GoosePublisher_increaseStNum now self = Some (now, self')" "gp_inv hdr self'"
      "gp_stNum self' = next_sqNum (gp_stNum self)" "gp_sqNum self' = 0"
      "MmsValue_getUtcTimeInMs (gp_timestamp self') = Some now"
    by (rule increaseStNum_inv [OF assms])
  have "next_sqNum n = (if n = - 1 then 1 else n + 1)" for n
    by (auto simp: next_sqNum_def eq_neg_iff_add_eq_0)
  then show ?thesis using s next_sqNum_nonzero by metis
qed

theorem increaseStNum_new_state_witness:
  "\<exists>self self'. GoosePublisher_increaseStNum 5000 self = Some (5000, self') \<and>
    gp_stNum self' \<noteq> 0 \<and> gp_sqNum self' = 0 \<and>
    MmsValue_getUtcTimeInMs (gp_timestamp self') = Some 5000"
proof -
  obtain self where "gp_inv (goose_header default_comm_parameters [2, 0, 0, 0, 0, 1] True) self"
    by (rule example_publisher)
  from increaseStNum_new_state [OF this, of 5000] show ?thesis by auto
qed

end
