(* ===== verification/Goose_Subscriber.thy ===== *)
theory Goose_Subscriber
  imports Mms_Access_Result
begin

text \<open>
  GOOSE subscribers, \<open>src/goose/goose_subscriber.cc\<close> with the structure of
  \<open>goose_receiver_internal.h\<close>. The time of day is an argument; \<open>gs_listener\<close> says whether a listener
  is installed.
\<close>

datatype GooseParseError =
    GOOSE_PARSE_ERROR_NO_ERROR
  | GOOSE_PARSE_ERROR_UNKNOWN_TAG
  | GOOSE_PARSE_ERROR_TAGDECODE
  | GOOSE_PARSE_ERROR_SUBLEVEL
  | GOOSE_PARSE_ERROR_OVERFLOW
  | GOOSE_PARSE_ERROR_UNDERFLOW
  | GOOSE_PARSE_ERROR_TYPE_MISMATCH
  | GOOSE_PARSE_ERROR_LENGTH_MISMATCH

record GooseSubscriber =
  gs_goCBRef :: "byte list"
  gs_datSet :: "byte list"
  gs_goId :: "byte list"
  gs_goCBRefLen :: int
  gs_timeAllowedToLive :: uint32
  gs_stNum :: uint32
  gs_sqNum :: uint32
  gs_confRev :: uint32
  gs_timestamp :: MmsValue
  gs_simulation :: bool
  gs_ndsCom :: bool
  gs_invalidityTime :: uint64
  gs_stateValid :: bool
  gs_parseError :: GooseParseError
  gs_srcMac :: "byte list"
  gs_dstMac :: "byte list"
  gs_appId :: int
  gs_dataSetValues :: "MmsValue option"
  gs_dataSetValuesSelfAllocated :: bool
  gs_dstMacSet :: bool
  gs_isObserver :: bool
  gs_vlanSet :: bool
  gs_listener :: bool

definition GooseSubscriber_create :: "byte list \<Rightarrow> MmsValue option \<Rightarrow> GooseSubscriber option" where
  "GooseSubscriber_create goCbRef dataSetValues = do {
     ref \<leftarrow> StringUtils_copyStringMax (Some (replicate 130 0)) 130 goCbRef;
     n \<leftarrow> strlen goCbRef;
     Some \<lparr>gs_goCBRef = ref, gs_datSet = replicate 130 0, gs_goId = replicate 130 0,
       gs_goCBRefLen = int n, gs_timeAllowedToLive = 0, gs_stNum = 0, gs_sqNum = 0,
       gs_confRev = 0, gs_timestamp = MmsValue_newUtcTime 0, gs_simulation = False,
       gs_ndsCom = False, gs_invalidityTime = 0, gs_stateValid = False,
       gs_parseError = GOOSE_PARSE_ERROR_NO_ERROR, gs_srcMac = replicate 6 0,
       gs_dstMac = replicate 6 0xff, gs_appId = - 1, gs_dataSetValues = dataSetValues,
       gs_dataSetValuesSelfAllocated = (dataSetValues = None), gs_dstMacSet = False,
       gs_isObserver = False, gs_vlanSet = False, gs_listener = False\<rparr> }"

definition GooseSubscriber_isValid :: "uint64 \<Rightarrow> GooseSubscriber \<Rightarrow> bool" where
  "GooseSubscriber_isValid now self =
     (if gs_stateValid self = False then False
      else if gs_invalidityTime self < now then False
      else True)"

definition GooseSubscriber_setDstMac :: "GooseSubscriber \<Rightarrow> byte list \<Rightarrow> GooseSubscriber option" where
  "GooseSubscriber_setDstMac self dstMac = do {
     m \<leftarrow> memcpy (gs_dstMac self) dstMac 6;
     Some (self\<lparr>gs_dstMac := m, gs_dstMacSet := True\<rparr>) }"

definition GooseSubscriber_setAppId :: "GooseSubscriber \<Rightarrow> uint16 \<Rightarrow> GooseSubscriber" where
  "GooseSubscriber_setAppId self app = self\<lparr>gs_appId := uint app\<rparr>"

definition GooseSubscriber_setListener :: "GooseSubscriber \<Rightarrow> bool \<Rightarrow> GooseSubscriber" where
  "GooseSubscriber_setListener self listener = self\<lparr>gs_listener := listener\<rparr>"

definition GooseSubscriber_setObserver :: "GooseSubscriber \<Rightarrow> GooseSubscriber" where
  "GooseSubscriber_setObserver self = self\<lparr>gs_isObserver := True\<rparr>"

definition GooseSubscriber_getTimestamp :: "GooseSubscriber \<Rightarrow> uint64 option" where
  "GooseSubscriber_getTimestamp self = MmsValue_getUtcTimeInMs (gs_timestamp self)"

text \<open>Validity is lost for good once the time allowed to live has passed.\<close>

lemma isValid_antimono:
  "GooseSubscriber_isValid now self \<Longrightarrow> t \<le> now \<Longrightarrow> GooseSubscriber_isValid t self"
  by (auto simp: GooseSubscriber_isValid_def split: if_splits)

text \<open>The buffers of a subscriber.\<close>

definition gs_ok :: "GooseSubscriber \<Rightarrow> bool" where
  "gs_ok s \<longleftrightarrow> length (gs_goCBRef s) = 130 \<and> length (gs_datSet s) = 130 \<and>
     length (gs_goId s) = 130 \<and> length (gs_srcMac s) = 6 \<and> length (gs_dstMac s) = 6 \<and>
     (case gs_timestamp s of MmsUtcTime t \<Rightarrow> length t = 8 | _ \<Rightarrow> False)"

lemma create_ok:
  assumes "0 \<notin> set ref"
  obtains s where "GooseSubscriber_create (c_str ref) ds = Some s" and "gs_ok s"
    and "gs_goCBRefLen s = int (length ref)" and "length ref \<le> 129 \<Longrightarrow> take (length ref) (gs_goCBRef s) = ref"
    and "gs_isObserver s = False" and "gs_dataSetValues s = ds" and "gs_appId s = - 1"
    and "gs_stNum s = 0" and "gs_sqNum s = 0" and "gs_dstMacSet s = False"
    and "gs_dataSetValuesSelfAllocated s = (ds = None)"
proof -
  have "StringUtils_copyStringMax (Some (replicate 130 0)) 130 (c_str ref)
      = Some (take 129 ref @ 0 # replicate (129 - min 129 (length ref)) 0)"
    using copyStringMax_spec [OF assms, of 130 "replicate 130 0"] by simp
  then show thesis
    using that assms by (simp add: GooseSubscriber_create_def gs_ok_def MmsValue_newUtcTime_def Let_def)
qed

end
