(* ===== verification/Goose_Receiver.thy ===== *)
theory Goose_Receiver
  imports Goose_Subscriber Ethernet_Hal
begin

text \<open>
  The GOOSE receiver, \<open>src/goose/goose_receiver.cc\<close>: the two parsers of the data set (into an
  existing value, and into a new one built from the message), the APDU parser with the delivery
  to the matching subscriber, the frame parser and the receiver. The subscriber list is the list of
  the subscribers; a call of a listener is the index of the subscriber in the result.
  \<open>buffer + bufPos\<close> is \<open>drop bufPos buffer\<close>.
\<close>

section \<open>Parsing into an existing data set\<close>

definition createNewStringFromBufferElement :: "buffer \<Rightarrow> int \<Rightarrow> int \<Rightarrow> MmsValue option" where
  "createNewStringFromBufferElement buf bufPos elementLength = do {
     bs \<leftarrow> rd_bytes buf bufPos elementLength;
     Some (MmsVisibleString (Some (bs @ [0])) (signed_take_bit 15 elementLength)) }"

text \<open>The integer cases, tags 0x85 and 0x86.\<close>

definition parse_integer ::
    "buffer \<Rightarrow> int \<Rightarrow> int \<Rightarrow> Asn1PrimitiveValue \<Rightarrow> (GooseParseError \<times> Asn1PrimitiveValue) option" where
  "parse_integer buf bufPos elementLength v =
     (if elementLength \<le> uint (maxSize v)
      then do {
        bs \<leftarrow> rd_bytes buf bufPos elementLength;
        o' \<leftarrow> memcpy (octets v) bs (nat elementLength);
        Some (GOOSE_PARSE_ERROR_NO_ERROR, v\<lparr>size8 := word_of_int elementLength, octets := o'\<rparr>) }
      else Some (GOOSE_PARSE_ERROR_LENGTH_MISMATCH, v))"

text \<open>The cases of \<open>switch (tag)\<close> that do not recurse.\<close>

definition parse_scalar ::
    "byte \<Rightarrow> buffer \<Rightarrow> int \<Rightarrow> int \<Rightarrow> MmsValue \<Rightarrow> (GooseParseError \<times> MmsValue) option" where
  "parse_scalar tag buf bufPos elementLength value =
     (let mismatch = Some (GOOSE_PARSE_ERROR_TYPE_MISMATCH, value) in
      if tag = 0x80 then Some (GOOSE_PARSE_ERROR_NO_ERROR, value)
      else if tag = 0x83 then
        (case value of
           MmsBoolean _ \<Rightarrow> do {
             b \<leftarrow> BerDecoder_decodeBoolean buf bufPos;
             v \<leftarrow> MmsValue_setBoolean value b;
             Some (GOOSE_PARSE_ERROR_NO_ERROR, v) }
         | _ \<Rightarrow> mismatch)
      else if tag = 0x84 then
        (case value of
           MmsBitString sz b \<Rightarrow> do {
             padding \<leftarrow> rd buf bufPos;
             let bitStringLength = 8 * (elementLength - 1) - uint padding;
             if bitStringLength = int sz
             then do {
               bs \<leftarrow> rd_bytes buf (bufPos + 1) (elementLength - 1);
               b' \<leftarrow> memcpy b bs (nat (elementLength - 1));
               Some (GOOSE_PARSE_ERROR_NO_ERROR, MmsBitString sz b') }
             else Some (GOOSE_PARSE_ERROR_LENGTH_MISMATCH, value) }
         | _ \<Rightarrow> mismatch)
      else if tag = 0x85 then
        (case value of
           MmsInteger v \<Rightarrow> map_option (map_prod id MmsInteger) (parse_integer buf bufPos elementLength v)
         | _ \<Rightarrow> mismatch)
      else if tag = 0x86 then
        (case value of
           MmsUnsigned v \<Rightarrow> map_option (map_prod id MmsUnsigned) (parse_integer buf bufPos elementLength v)
         | _ \<Rightarrow> mismatch)
      else if tag = 0x87 then
        (case value of
           MmsFloat _ _ _ \<Rightarrow>
             if elementLength = 9 then do {
               d \<leftarrow> BerDecoder_decodeDouble buf bufPos;
               v \<leftarrow> MmsValue_setDouble value (word_of_object d);
               Some (GOOSE_PARSE_ERROR_NO_ERROR, v) }
             else if elementLength = 5 then do {
               f \<leftarrow> BerDecoder_decodeFloat buf bufPos;
               v \<leftarrow> MmsValue_setFloat value (word_of_object f);
               Some (GOOSE_PARSE_ERROR_NO_ERROR, v) }
             else Some (GOOSE_PARSE_ERROR_LENGTH_MISMATCH, value)
         | _ \<Rightarrow> mismatch)
      else if tag = 0x89 then
        (case value of
           MmsOctetString sz maxSz b \<Rightarrow>
             if elementLength \<le> \<bar>maxSz\<bar> then do {
               bs \<leftarrow> rd_bytes buf bufPos elementLength;
               b' \<leftarrow> memcpy b bs (nat elementLength);
               Some (GOOSE_PARSE_ERROR_NO_ERROR, MmsOctetString (word_of_int elementLength) maxSz b') }
             else do {
               newBuf \<leftarrow> rd_bytes buf bufPos elementLength;
               Some (GOOSE_PARSE_ERROR_NO_ERROR,
                 MmsOctetString (word_of_int elementLength) (- elementLength) newBuf) }
         | _ \<Rightarrow> mismatch)
      else if tag = 0x8a then
        (case value of
           MmsVisibleString (Some b) sz \<Rightarrow>
             if elementLength \<le> sz then do {
               bs \<leftarrow> rd_bytes buf bufPos elementLength;
               b' \<leftarrow> memcpy b bs (nat elementLength);
               b'' \<leftarrow> store b' (nat elementLength) 0;
               Some (GOOSE_PARSE_ERROR_NO_ERROR, MmsVisibleString (Some b'') sz) }
             else do {
               v \<leftarrow> createNewStringFromBufferElement buf bufPos elementLength;
               Some (GOOSE_PARSE_ERROR_NO_ERROR, v) }
         | MmsVisibleString None sz \<Rightarrow> do {
             v \<leftarrow> createNewStringFromBufferElement buf bufPos elementLength;
             Some (GOOSE_PARSE_ERROR_NO_ERROR, v) }
         | _ \<Rightarrow> mismatch)
      else if tag = 0x8c then
        (case value of
           MmsBinaryTime sz b \<Rightarrow>
             if elementLength = 4 \<or> elementLength = 6 then do {
               bs \<leftarrow> rd_bytes buf bufPos elementLength;
               b' \<leftarrow> memcpy b bs (nat elementLength);
               Some (GOOSE_PARSE_ERROR_NO_ERROR, MmsBinaryTime sz b') }
             else Some (GOOSE_PARSE_ERROR_NO_ERROR, value)
         | _ \<Rightarrow> mismatch)
      else if tag = 0x91 then
        (if elementLength = 8 then
           (case value of
              MmsUtcTime _ \<Rightarrow> do {
                v \<leftarrow> MmsValue_setUtcTimeByBuffer value (Some (drop (nat bufPos) buf));
                Some (GOOSE_PARSE_ERROR_NO_ERROR, v) }
            | _ \<Rightarrow> mismatch)
         else Some (GOOSE_PARSE_ERROR_LENGTH_MISMATCH, value))
      else Some (GOOSE_PARSE_ERROR_UNKNOWN_TAG, value))"

text \<open>
  After the loop: elements that are left (the index is not past the last one) make the result
  \<open>UNDERFLOW\<close>, whatever the loop had found.
\<close>

definition after_loop :: "GooseParseError \<Rightarrow> MmsValue option list \<Rightarrow> GooseParseError" where
  "after_loop pe left = (if left \<noteq> [] then GOOSE_PARSE_ERROR_UNDERFLOW else pe)"

text \<open>
  The loop over the components that are left, \<open>components[elementIndex..maxIndex]\<close>; the result
  carries them as they are afterwards.
\<close>

fun parse_element ::
    "byte \<Rightarrow> buffer \<Rightarrow> int \<Rightarrow> int \<Rightarrow> MmsValue \<Rightarrow> (GooseParseError \<times> MmsValue) option"
and parse_elements ::
    "buffer \<Rightarrow> int \<Rightarrow> int \<Rightarrow> MmsValue option list \<Rightarrow>
     (GooseParseError \<times> MmsValue option list) option" where
  "parse_element tag buf bufPos elementLength value =
     (if tag = 0xa1 then
        (case value of
           MmsArray components \<Rightarrow> do {
             (pe, components) \<leftarrow> parse_elements (drop (nat bufPos) buf) 0 elementLength components;
             Some (if pe \<noteq> GOOSE_PARSE_ERROR_NO_ERROR then GOOSE_PARSE_ERROR_SUBLEVEL
                   else GOOSE_PARSE_ERROR_NO_ERROR, MmsArray components) }
         | _ \<Rightarrow> Some (GOOSE_PARSE_ERROR_TYPE_MISMATCH, value))
      else if tag = 0xa2 then
        (case value of
           MmsStructure components \<Rightarrow> do {
             (pe, components) \<leftarrow> parse_elements (drop (nat bufPos) buf) 0 elementLength components;
             Some (if pe \<noteq> GOOSE_PARSE_ERROR_NO_ERROR then GOOSE_PARSE_ERROR_SUBLEVEL
                   else GOOSE_PARSE_ERROR_NO_ERROR, MmsStructure components) }
         | _ \<Rightarrow> Some (GOOSE_PARSE_ERROR_TYPE_MISMATCH, value))
      else parse_scalar tag buf bufPos elementLength value)"
| "parse_elements buf bufPos allDataLength [] =
     (if bufPos < allDataLength
      then do { tag \<leftarrow> rd buf bufPos; Some (GOOSE_PARSE_ERROR_OVERFLOW, []) }
      else Some (after_loop GOOSE_PARSE_ERROR_NO_ERROR [], []))"
| "parse_elements buf bufPos allDataLength (None # es) =
     (if bufPos < allDataLength
      then do { tag \<leftarrow> rd buf bufPos; Some (GOOSE_PARSE_ERROR_TYPE_MISMATCH, None # es) }
      else Some (after_loop GOOSE_PARSE_ERROR_NO_ERROR (None # es), None # es))"
| "parse_elements buf bufPos allDataLength (Some value # es) =
     (if bufPos < allDataLength
      then do {
        tag \<leftarrow> rd buf bufPos;
        (bufPos, elementLength) \<leftarrow> BerDecoder_decodeLength buf 0 (bufPos + 1) allDataLength;
        if bufPos < 0
        then Some (after_loop GOOSE_PARSE_ERROR_TAGDECODE (Some value # es), Some value # es)
        else do {
          (pe, value) \<leftarrow> parse_element tag buf bufPos elementLength value;
          if pe \<noteq> GOOSE_PARSE_ERROR_NO_ERROR
          then Some (after_loop pe (Some value # es), Some value # es)
          else do {
            (pe, es) \<leftarrow> parse_elements buf (bufPos + elementLength) allDataLength es;
            Some (pe, Some value # es) } } }
      else Some (after_loop GOOSE_PARSE_ERROR_NO_ERROR (Some value # es), Some value # es))"

declare parse_element.simps [simp del]

definition parseAllData ::
    "buffer \<Rightarrow> int \<Rightarrow> MmsValue \<Rightarrow> (GooseParseError \<times> MmsValue) option" where
  "parseAllData buf allDataLength dataSetValues =
     (case dataSetValues of
        MmsArray components \<Rightarrow>
          map_option (map_prod id MmsArray) (parse_elements buf 0 allDataLength components)
      | MmsStructure components \<Rightarrow>
          map_option (map_prod id MmsStructure) (parse_elements buf 0 allDataLength components)
      | _ \<Rightarrow> None)"

section \<open>Parsing into a new data set\<close>

definition known_data_tag :: "byte \<Rightarrow> bool" where
  "known_data_tag tag \<longleftrightarrow>
     tag \<in> {0x80, 0xa1, 0xa2, 0x83, 0x84, 0x85, 0x86, 0x87, 0x89, 0x8a, 0x8c, 0x91}"

text \<open>The first loop counts; its inner \<open>None\<close> is the \<open>NULL\<close> result.\<close>

function count_elements :: "buffer \<Rightarrow> int \<Rightarrow> int \<Rightarrow> nat \<Rightarrow> nat option option" where
  "count_elements buf bufPos allDataLength elementIndex =
     (if bufPos < allDataLength then do {
        tag \<leftarrow> rd buf bufPos;
        (bufPos', elementLength) \<leftarrow> BerDecoder_decodeLength buf 0 (bufPos + 1) allDataLength;
        if bufPos' < 0 then Some None
        else if known_data_tag tag
        then count_elements buf (bufPos' + elementLength) allDataLength (elementIndex + 1)
        else Some None }
      else Some (Some elementIndex))"
  by pat_completeness auto
termination
  by (relation "measure (\<lambda>(buf, p, m, i). nat (m - p))") (auto dest!: decodeLength_progress)

declare count_elements.simps [simp del]

datatype element_result = Exit_with_error | Element "MmsValue option"

definition new_integer :: "MmsValue \<Rightarrow> byte list \<Rightarrow> int \<Rightarrow> MmsValue option" where
  "new_integer value bs elementLength =
     (case value of
        MmsInteger v \<Rightarrow> do {
          o' \<leftarrow> memcpy (octets v) bs (nat elementLength);
          Some (MmsInteger (v\<lparr>octets := o', size8 := word_of_int elementLength\<rparr>)) }
      | MmsUnsigned v \<Rightarrow> do {
          o' \<leftarrow> memcpy (octets v) bs (nat elementLength);
          Some (MmsUnsigned (v\<lparr>octets := o', size8 := word_of_int elementLength\<rparr>)) }
      | _ \<Rightarrow> None)"

text \<open>The cases of the second \<open>switch\<close> that do not recurse.\<close>

definition new_scalar :: "byte \<Rightarrow> buffer \<Rightarrow> int \<Rightarrow> int \<Rightarrow> element_result option" where
  "new_scalar tag buf bufPos elementLength =
     (if tag = 0x83 then do {
        b \<leftarrow> BerDecoder_decodeBoolean buf bufPos;
        Some (Element (Some (MmsValue_newBoolean b))) }
      else if tag = 0x84 then
        (if 1 < elementLength then do {
           padding \<leftarrow> rd buf bufPos;
           let rawBitLength = (elementLength - 1) * 8;
           if 7 < padding then Some Exit_with_error
           else do {
             value \<leftarrow> MmsValue_newBitString (rawBitLength - uint padding);
             bs \<leftarrow> rd_bytes buf (bufPos + 1) (elementLength - 1);
             (case value of
                MmsBitString sz b \<Rightarrow> do {
                  b' \<leftarrow> memcpy b bs (nat (elementLength - 1));
                  Some (Element (Some (MmsBitString sz b'))) }
              | _ \<Rightarrow> None) } }
         else Some Exit_with_error)
      else if tag = 0x85 then
        (if 8 < elementLength then Some Exit_with_error
         else do {
           bs \<leftarrow> rd_bytes buf bufPos elementLength;
           v \<leftarrow> new_integer (MmsValue_newInteger (elementLength * 8)) bs elementLength;
           Some (Element (Some v)) })
      else if tag = 0x86 then
        (if 8 < elementLength then Some Exit_with_error
         else do {
           bs \<leftarrow> rd_bytes buf bufPos elementLength;
           v \<leftarrow> new_integer (MmsValue_newUnsigned (elementLength * 8)) bs elementLength;
           Some (Element (Some v)) })
      else if tag = 0x87 then
        (if elementLength = 9 then do {
           d \<leftarrow> BerDecoder_decodeDouble buf bufPos;
           Some (Element (Some (MmsValue_newDouble (word_of_object d)))) }
         else if elementLength = 5 then do {
           f \<leftarrow> BerDecoder_decodeFloat buf bufPos;
           Some (Element (Some (MmsValue_newFloat (word_of_object f)))) }
         else Some (Element None))
      else if tag = 0x89 then do {
        bs \<leftarrow> rd_bytes buf bufPos elementLength;
        (case MmsValue_newOctetString elementLength elementLength of
           MmsOctetString sz maxSz b \<Rightarrow> do {
             b' \<leftarrow> memcpy b bs (nat elementLength);
             Some (Element (Some (MmsOctetString sz maxSz b'))) }
         | _ \<Rightarrow> None) }
      else if tag = 0x8a then do {
        v \<leftarrow> MmsValue_newVisibleStringFromByteArray (drop (nat bufPos) buf) elementLength;
        Some (Element (Some v)) }
      else if tag = 0x8c then
        (if elementLength = 4 \<or> elementLength = 6 then do {
           bs \<leftarrow> rd_bytes buf bufPos elementLength;
           (case MmsValue_newBinaryTime (elementLength = 4) of
              MmsBinaryTime sz b \<Rightarrow> do {
                b' \<leftarrow> memcpy b bs (nat elementLength);
                Some (Element (Some (MmsBinaryTime sz b'))) }
            | _ \<Rightarrow> None) }
         else Some (Element None))
      else if tag = 0x91 then
        (if elementLength = 8 then do {
           v \<leftarrow> MmsValue_setUtcTimeByBuffer (MmsValue_newUtcTime 0) (Some (drop (nat bufPos) buf));
           Some (Element (Some v)) }
         else Some (Element None))
      else Some Exit_with_error)"

text \<open>
  The first component of the result says whether \<open>dataSetValuesSelfAllocated\<close> was set: it is by
  every call that succeeds, nested ones included.
\<close>

function parseAllDataUnknownValue :: "buffer \<Rightarrow> int \<Rightarrow> bool \<Rightarrow> (bool \<times> MmsValue option) option"
and unknown_loop ::
    "buffer \<Rightarrow> int \<Rightarrow> int \<Rightarrow> nat \<Rightarrow> bool \<Rightarrow> MmsValue \<Rightarrow> (bool \<times> MmsValue option) option" where
  "parseAllDataUnknownValue buf allDataLength isStructure = do {
     count \<leftarrow> count_elements buf 0 allDataLength 0;
     (case count of
        None \<Rightarrow> Some (False, None)
      | Some n \<Rightarrow> do {
          dataSetValues \<leftarrow> (if isStructure then MmsValue_createEmptyStructure n
                            else Some (MmsValue_createEmptyArray n));
          unknown_loop buf 0 allDataLength 0 False dataSetValues }) }"
| "unknown_loop buf bufPos allDataLength elementIndex selfAllocated dataSetValues =
     (if bufPos < allDataLength then do {
        tag \<leftarrow> rd buf bufPos;
        (bufPos', elementLength) \<leftarrow> BerDecoder_decodeLength buf 0 (bufPos + 1) allDataLength;
        if bufPos' < 0 then Some (selfAllocated, None)
        else do {
          (selfAllocated, r) \<leftarrow>
            (if tag = 0xa1 \<or> tag = 0xa2 then do {
               (f, v) \<leftarrow> parseAllDataUnknownValue (drop (nat bufPos') buf) elementLength (tag = 0xa2);
               Some (selfAllocated \<or> f,
                 case v of None \<Rightarrow> Exit_with_error | Some v \<Rightarrow> Element (Some v)) }
             else do {
               r \<leftarrow> new_scalar tag buf bufPos' elementLength;
               Some (selfAllocated, r) });
          (case r of
             Exit_with_error \<Rightarrow> Some (selfAllocated, None)
           | Element None \<Rightarrow>
               unknown_loop buf (bufPos' + elementLength) allDataLength elementIndex selfAllocated
                 dataSetValues
           | Element (Some v) \<Rightarrow>
               unknown_loop buf (bufPos' + elementLength) allDataLength (elementIndex + 1) selfAllocated
                 (MmsValue_setElement dataSetValues (int elementIndex) (Some v))) } }
      else Some (True, Some dataSetValues))"
  by pat_completeness auto
termination
  by (relation "measure (\<lambda>x. case x of Inl (buf, m, s) \<Rightarrow> 2 * nat m + 1
        | Inr (buf, p, m, i, f, d) \<Rightarrow> 2 * nat (m - p))")
    (auto dest!: decodeLength_progress)

declare parseAllDataUnknownValue.simps [simp del]
declare unknown_loop.simps [simp del]

section \<open>The APDU\<close>

text \<open>The local variables of \<open>parseGoosePayload\<close>; a pointer that is not set yet is \<open>None\<close>.\<close>

record goose_locals =
  gl_timeAllowedToLive :: uint32
  gl_stNum :: uint32
  gl_sqNum :: uint32
  gl_confRev :: uint32
  gl_simulation :: bool
  gl_ndsCom :: bool
  gl_matchingSubscriber :: "nat option"
  gl_timestampBufPos :: "buffer option"
  gl_dataSetBufferAddress :: "buffer option"
  gl_dataSetBufferLength :: int
  gl_numberOfDatSetEntries :: uint32

definition init_locals :: goose_locals where
  "init_locals = \<lparr>gl_timeAllowedToLive = 0, gl_stNum = 0, gl_sqNum = 0, gl_confRev = 0,
     gl_simulation = False, gl_ndsCom = False, gl_matchingSubscriber = None,
     gl_timestampBufPos = None, gl_dataSetBufferAddress = None, gl_dataSetBufferLength = 0,
     gl_numberOfDatSetEntries = 0\<rparr>"

text \<open>\<open>memcpy(field, buffer + bufPos, elementLength); field[elementLength] = 0;\<close> on a \<open>char[130]\<close>.\<close>

definition store_string :: "byte list \<Rightarrow> buffer \<Rightarrow> int \<Rightarrow> int \<Rightarrow> byte list option" where
  "store_string field buf bufPos elementLength = do {
     bs \<leftarrow> rd_bytes buf bufPos elementLength;
     f \<leftarrow> memcpy field bs (nat elementLength);
     store f (nat elementLength) 0 }"

text \<open>The search for the subscriber of a control block reference (tag 0x80).\<close>

fun find_subscriber ::
    "buffer \<Rightarrow> int \<Rightarrow> int \<Rightarrow> GooseSubscriber list \<Rightarrow> (GooseSubscriber list \<times> nat option) option" where
  "find_subscriber buf bufPos elementLength [] = Some ([], None)"
| "find_subscriber buf bufPos elementLength (s # ss) =
     (let next = do {
        (ss', i) \<leftarrow> find_subscriber buf bufPos elementLength ss;
        Some (s # ss', map_option Suc i) }
      in if gs_isObserver s
         then if 129 < elementLength then Some (s # ss, Some 0)
              else do {
                ref \<leftarrow> store_string (gs_goCBRef s) buf bufPos elementLength;
                Some (s\<lparr>gs_goCBRef := ref\<rparr> # ss, Some 0) }
         else if gs_goCBRefLen s = elementLength
         then do {
           a \<leftarrow> rd_bytes (gs_goCBRef s) 0 elementLength;
           b \<leftarrow> rd_bytes buf bufPos elementLength;
           if a = b then Some (s # ss, Some 0) else next }
         else next)"

text \<open>A string field of the matching subscriber (tags 0x82 and 0x83); a longer one is ignored.\<close>

definition update_string ::
    "(GooseSubscriber \<Rightarrow> byte list) \<Rightarrow> (byte list \<Rightarrow> GooseSubscriber \<Rightarrow> GooseSubscriber) \<Rightarrow>
     buffer \<Rightarrow> int \<Rightarrow> int \<Rightarrow> goose_locals \<Rightarrow> GooseSubscriber list \<Rightarrow> GooseSubscriber list option" where
  "update_string get set_field buf bufPos elementLength l subs =
     (case gl_matchingSubscriber l of
        None \<Rightarrow> Some subs
      | Some i \<Rightarrow>
          if 129 < elementLength then Some subs
          else do {
            f \<leftarrow> store_string (get (subs ! i)) buf bufPos elementLength;
            Some (subs[i := set_field f (subs ! i)]) })"

text \<open>One element of the APDU; the inner \<open>None\<close> is the early \<open>return 0\<close>.\<close>

definition goose_element ::
    "byte \<Rightarrow> buffer \<Rightarrow> int \<Rightarrow> int \<Rightarrow> goose_locals \<Rightarrow> GooseSubscriber list \<Rightarrow>
     (goose_locals option \<times> GooseSubscriber list) option" where
  "goose_element tag buf bufPos elementLength l subs =
     (if tag = 0x80 then do {
        (subs, i) \<leftarrow> find_subscriber buf bufPos elementLength subs;
        let m = (if i = None then gl_matchingSubscriber l else i);
        Some (if m = None then None else Some (l\<lparr>gl_matchingSubscriber := m\<rparr>), subs) }
      else if tag = 0x81 then do {
        v \<leftarrow> BerDecoder_decodeUint32 buf elementLength bufPos;
        Some (Some (l\<lparr>gl_timeAllowedToLive := v\<rparr>), subs) }
      else if tag = 0x82 then do {
        subs \<leftarrow> update_string gs_datSet (\<lambda>f. gs_datSet_update (\<lambda>_. f)) buf bufPos elementLength l subs;
        Some (Some l, subs) }
      else if tag = 0x83 then do {
        subs \<leftarrow> update_string gs_goId (\<lambda>f. gs_goId_update (\<lambda>_. f)) buf bufPos elementLength l subs;
        Some (Some l, subs) }
      else if tag = 0x84 then Some (Some (l\<lparr>gl_timestampBufPos := Some (drop (nat bufPos) buf)\<rparr>), subs)
      else if tag = 0x85 then do {
        v \<leftarrow> BerDecoder_decodeUint32 buf elementLength bufPos;
        Some (Some (l\<lparr>gl_stNum := v\<rparr>), subs) }
      else if tag = 0x86 then do {
        v \<leftarrow> BerDecoder_decodeUint32 buf elementLength bufPos;
        Some (Some (l\<lparr>gl_sqNum := v\<rparr>), subs) }
      else if tag = 0x87 then do {
        b \<leftarrow> BerDecoder_decodeBoolean buf bufPos;
        Some (Some (l\<lparr>gl_simulation := b\<rparr>), subs) }
      else if tag = 0x88 then do {
        v \<leftarrow> BerDecoder_decodeUint32 buf elementLength bufPos;
        Some (Some (l\<lparr>gl_confRev := v\<rparr>), subs) }
      else if tag = 0x89 then do {
        b \<leftarrow> BerDecoder_decodeBoolean buf bufPos;
        Some (Some (l\<lparr>gl_ndsCom := b\<rparr>), subs) }
      else if tag = 0x8a then do {
        v \<leftarrow> BerDecoder_decodeUint32 buf elementLength bufPos;
        Some (Some (l\<lparr>gl_numberOfDatSetEntries := v\<rparr>), subs) }
      else if tag = 0xab then
        Some (Some (l\<lparr>gl_dataSetBufferAddress := Some (drop (nat bufPos) buf),
                      gl_dataSetBufferLength := elementLength\<rparr>), subs)
      else Some (Some l, subs))"

function goose_loop ::
    "buffer \<Rightarrow> int \<Rightarrow> int \<Rightarrow> int \<Rightarrow> goose_locals \<Rightarrow> GooseSubscriber list \<Rightarrow>
     (goose_locals option \<times> GooseSubscriber list) option" where
  "goose_loop buf bufPos gooseEnd apduLength l subs =
     (if bufPos < gooseEnd then do {
        tag \<leftarrow> rd buf bufPos;
        (bufPos', elementLength) \<leftarrow> BerDecoder_decodeLength buf 0 (bufPos + 1) apduLength;
        if bufPos' < 0 then Some (None, subs)
        else do {
          (r, subs) \<leftarrow> goose_element tag buf bufPos' elementLength l subs;
          (case r of
             None \<Rightarrow> Some (None, subs)
           | Some l \<Rightarrow> goose_loop buf (bufPos' + elementLength) gooseEnd apduLength l subs) } }
      else Some (Some l, subs))"
  by pat_completeness auto
termination
  by (relation "measure (\<lambda>(buf, p, e, m, l, s). nat (e - p))") (auto dest!: decodeLength_progress)

declare goose_loop.simps [simp del]

text \<open>The delivery to the matching subscriber, after the loop.\<close>

definition deliver_dataset ::
    "goose_locals \<Rightarrow> GooseSubscriber \<Rightarrow> (bool \<times> GooseSubscriber) option" where
  "deliver_dataset l s =
     (let buf = (case gl_dataSetBufferAddress l of Some b \<Rightarrow> b | None \<Rightarrow> []);
          n = gl_dataSetBufferLength l
      in case gs_dataSetValues s of
           None \<Rightarrow> do {
             (f, v) \<leftarrow> parseAllDataUnknownValue buf n False;
             Some (True, s\<lparr>gs_dataSetValues := v,
               gs_dataSetValuesSelfAllocated := gs_dataSetValuesSelfAllocated s \<or> f\<rparr>) }
         | Some v \<Rightarrow> do {
             (parseError, v) \<leftarrow> parseAllData buf n v;
             Some (parseError = GOOSE_PARSE_ERROR_NO_ERROR,
               s\<lparr>gs_dataSetValues := Some v, gs_parseError := parseError\<rparr>) })"

definition deliver :: "uint64 \<Rightarrow> goose_locals \<Rightarrow> GooseSubscriber \<Rightarrow> GooseSubscriber option" where
  "deliver now l s = do {
     let s = s\<lparr>gs_timeAllowedToLive := gl_timeAllowedToLive l, gs_ndsCom := gl_ndsCom l,
               gs_simulation := gl_simulation l\<rparr>;
     let s = (if gs_dataSetValuesSelfAllocated s \<and> gs_dataSetValues s \<noteq> None \<and>
                gs_confRev s \<noteq> gl_confRev l then s\<lparr>gs_dataSetValues := None\<rparr> else s);
     let s = s\<lparr>gs_confRev := gl_confRev l\<rparr>;
     t \<leftarrow> (case gl_timestampBufPos l of
            Some p \<Rightarrow> MmsValue_setUtcTimeByBuffer (gs_timestamp s) (Some p)
          | None \<Rightarrow> MmsValue_setUtcTime (gs_timestamp s) 0);
     let s = s\<lparr>gs_timestamp := t\<rparr>;
     let s = (if gs_isObserver s \<and> gs_dataSetValues s \<noteq> None then s\<lparr>gs_dataSetValues := None\<rparr> else s);
     (isValid, s) \<leftarrow> deliver_dataset l s;
     let isValid =
       (if gs_stNum s = gl_stNum l \<and> gl_sqNum l \<le> gs_sqNum s then False else isValid);
     Some (s\<lparr>gs_stateValid := isValid, gs_stNum := gl_stNum l, gs_sqNum := gl_sqNum l,
             gs_invalidityTime := now + ucast (gl_timeAllowedToLive l)\<rparr>) }"

text \<open>
  The result: the returned \<open>int\<close>, the subscribers, and the index of the subscriber whose listener
  is called.
\<close>

definition parseGoosePayload ::
    "uint64 \<Rightarrow> GooseSubscriber list \<Rightarrow> buffer \<Rightarrow> int \<Rightarrow>
     (int \<times> GooseSubscriber list \<times> nat option) option" where
  "parseGoosePayload now subs buf apduLength = do {
     tag \<leftarrow> rd buf 0;
     if tag = 0x61 then do {
       (bufPos, gooseLength) \<leftarrow> BerDecoder_decodeLength buf 0 1 apduLength;
       if bufPos < 0 then Some (0, subs, None)
       else do {
         (r, subs) \<leftarrow> goose_loop buf bufPos (bufPos + gooseLength) apduLength init_locals subs;
         (case r of
            None \<Rightarrow> Some (0, subs, None)
          | Some l \<Rightarrow>
              (case gl_matchingSubscriber l of
                 None \<Rightarrow> Some (0, subs, None)
               | Some i \<Rightarrow> do {
                   s \<leftarrow> deliver now l (subs ! i);
                   Some (1, subs[i := s], if gs_listener s then Some i else None) })) } }
     else Some (- 1, subs, None) }"

section \<open>The frame and the receiver\<close>

text \<open>The loop that looks for an interested subscriber; only an observer is changed by it.\<close>

fun interested ::
    "uint16 \<Rightarrow> byte list \<Rightarrow> byte list \<Rightarrow> GooseSubscriber list \<Rightarrow> bool \<times> GooseSubscriber list" where
  "interested app srcMac dstMac [] = (False, [])"
| "interested app srcMac dstMac (s # ss) =
     (if gs_isObserver s
      then (True, s\<lparr>gs_appId := uint app, gs_srcMac := srcMac, gs_dstMac := dstMac\<rparr> # ss)
      else if (gs_appId s = - 1 \<or> gs_appId s = uint app) \<and>
              (\<not> gs_dstMacSet s \<or> gs_dstMac s = dstMac)
      then (True, s # ss)
      else let (f, ss') = interested app srcMac dstMac ss in (f, s # ss'))"

text \<open>The APDU is parsed whether or not an interested subscriber was found (\<open>if (1)\<close>).\<close>

definition parseGooseMessage ::
    "uint64 \<Rightarrow> GooseSubscriber list \<Rightarrow> buffer \<Rightarrow> int \<Rightarrow> (GooseSubscriber list \<times> nat option) option" where
  "parseGooseMessage now subs buf numbytes =
     (if numbytes < 22 then Some (subs, None)
      else do {
        b2 \<leftarrow> rd buf 2;
        b3 \<leftarrow> (if b2 = 0x88 then rd buf 3 else Some 0);
        if b2 \<noteq> 0x88 then Some (subs, None)
        else if b3 \<noteq> 0xb8 then Some (subs, None)
        else do {
          srcMac \<leftarrow> rd_bytes buf 6 6;
          dstMac \<leftarrow> rd_bytes buf 0 6;
          a1 \<leftarrow> rd buf 4;
          a2 \<leftarrow> rd buf 5;
          let app = (ucast a1 * 0x100 + ucast a2 :: uint16);
          l1 \<leftarrow> rd buf 6;
          l2 \<leftarrow> rd buf 7;
          let len = (ucast l1 * 0x100 + ucast l2 :: uint16);
          let apduLength = uint len - 8;
          let (subscriberFound, subs) = interested app srcMac dstMac subs;
          (rc, subs, event) \<leftarrow> parseGoosePayload now subs (drop 12 buf) apduLength;
          Some (subs, event) } })"

record GooseReceiver =
  gr_running :: bool
  gr_stop :: bool
  gr_interfaceId :: "byte list option"
  gr_buffer :: buffer
  gr_ethSocket :: "EthernetSocket option"
  gr_subscriberList :: "GooseSubscriber list"

definition GooseReceiver_createEx :: "buffer \<Rightarrow> GooseReceiver" where
  "GooseReceiver_createEx buffer = \<lparr>gr_running = False, gr_stop = False, gr_interfaceId = None,
     gr_buffer = buffer, gr_ethSocket = None, gr_subscriberList = []\<rparr>"

text \<open>\<open>heap\<close> is the content of the freshly allocated buffer of \<open>ETH_BUFFER_LENGTH\<close> octets.\<close>

definition GooseReceiver_create :: "buffer \<Rightarrow> GooseReceiver" where
  "GooseReceiver_create heap = (GooseReceiver_createEx [])\<lparr>gr_buffer := heap\<rparr>"

definition GooseReceiver_addSubscriber :: "GooseReceiver \<Rightarrow> GooseSubscriber \<Rightarrow> GooseReceiver" where
  "GooseReceiver_addSubscriber self subscriber =
     self\<lparr>gr_subscriberList := gr_subscriberList self @ [subscriber]\<rparr>"

text \<open>The subscriber is given by its position in the list; a position behind the end stands for a subscriber that is not
  in the list.\<close>

definition GooseReceiver_removeSubscriber :: "GooseReceiver \<Rightarrow> nat \<Rightarrow> GooseReceiver" where
  "GooseReceiver_removeSubscriber self i =
     self\<lparr>gr_subscriberList := take i (gr_subscriberList self) @ drop (Suc i) (gr_subscriberList self)\<rparr>"

definition GooseReceiver_setInterfaceId :: "GooseReceiver \<Rightarrow> byte list \<Rightarrow> GooseReceiver option" where
  "GooseReceiver_setInterfaceId self interfaceId = do {
     s \<leftarrow> StringUtils_copyString interfaceId;
     Some (self\<lparr>gr_interfaceId := Some s\<rparr>) }"

definition GooseReceiver_getInterfaceId :: "GooseReceiver \<Rightarrow> byte list" where
  "GooseReceiver_getInterfaceId self = (case gr_interfaceId self of Some i \<Rightarrow> i | None \<Rightarrow> c_str [0x65, 0x74, 0x68, 0x30])"

text \<open>The mode, filter and multicast calls of the source have empty bodies in the ns-3 layer.\<close>

definition GooseReceiver_startThreadless :: "devices \<Rightarrow> GooseReceiver \<Rightarrow> GooseReceiver option" where
  "GooseReceiver_startThreadless devices self = do {
     let interface = (case gr_interfaceId self of None \<Rightarrow> c_str [0x65, 0x74, 0x68, 0x30] | Some i \<Rightarrow> i);
     socket \<leftarrow> Ethernet_createSocket devices interface None;
     Some (self\<lparr>gr_ethSocket := Some socket, gr_running := True\<rparr>) }"

text \<open>The callback that is given to the socket is \<open>GooseReceiver_tick\<close>; the socket is not \<open>NULL\<close>.\<close>

definition GooseReceiver_start :: "devices \<Rightarrow> GooseReceiver \<Rightarrow> GooseReceiver option" where
  "GooseReceiver_start devices self = GooseReceiver_startThreadless devices self"

definition GooseReceiver_stop :: "GooseReceiver \<Rightarrow> GooseReceiver" where
  "GooseReceiver_stop self = self"

definition GooseReceiver_stopThreadless :: "GooseReceiver \<Rightarrow> GooseReceiver" where
  "GooseReceiver_stopThreadless self = self\<lparr>gr_running := False\<rparr>"

definition GooseReceiver_isRunning :: "GooseReceiver \<Rightarrow> bool" where
  "GooseReceiver_isRunning self = gr_running self"

definition GooseReceiver_handleMessage ::
    "uint64 \<Rightarrow> GooseReceiver \<Rightarrow> buffer \<Rightarrow> int \<Rightarrow> (GooseReceiver \<times> nat option) option" where
  "GooseReceiver_handleMessage now self buffer sz = do {
     (subs, event) \<leftarrow> parseGooseMessage now (gr_subscriberList self) buffer sz;
     Some (self\<lparr>gr_subscriberList := subs\<rparr>, event) }"

text \<open>\<open>packet\<close> is the packet that arrived at the socket.\<close>

definition GooseReceiver_tick ::
    "uint64 \<Rightarrow> buffer \<Rightarrow> GooseReceiver \<Rightarrow> (bool \<times> GooseReceiver \<times> nat option) option" where
  "GooseReceiver_tick now packet self = do {
     (packetSize, buffer) \<leftarrow> Ethernet_receivePacket packet (gr_buffer self) 1518;
     let self = self\<lparr>gr_buffer := buffer\<rparr>;
     if 0 < packetSize then do {
       (subs, event) \<leftarrow> parseGooseMessage now (gr_subscriberList self) buffer (int packetSize);
       Some (True, self\<lparr>gr_subscriberList := subs\<rparr>, event) }
     else Some (False, self, None) }"

end
