(* ===== verification/Goose_Data.thy ===== *)
theory Goose_Data
  imports Goose_Receiver Goose_Publisher
begin

text \<open>
  The data set on the wire: what the encoder of MMS data writes, the receiver's parsers read back.
  A value read back is the value sent up to the slack of its buffers, which is stated as equality
  of the encodings. The second part shows that the parser that builds a new data set is safe and
  total on arbitrary input.
\<close>

section \<open>Tag and content of an encoded value\<close>

fun mms_tag :: "MmsValue \<Rightarrow> byte" where
  "mms_tag (MmsBoolean b) = 0x83"
| "mms_tag (MmsStructure es) = 0xa2"
| "mms_tag (MmsArray es) = 0xa1"
| "mms_tag (MmsVisibleString buf sz) = 0x8a"
| "mms_tag (MmsUnsigned v) = 0x86"
| "mms_tag (MmsInteger v) = 0x85"
| "mms_tag (MmsUtcTime t) = 0x91"
| "mms_tag (MmsBitString n buf) = 0x84"
| "mms_tag (MmsBinaryTime sz buf) = 0x8c"
| "mms_tag (MmsOctetString sz maxSz buf) = 0x89"
| "mms_tag (MmsFloat e w buf) = 0x87"
| "mms_tag _ = 0"

fun mms_content :: "MmsValue \<Rightarrow> byte list" where
  "mms_content (MmsBoolean b) = [if b then 1 else 0]"
| "mms_content (MmsStructure es) = elements_bytes es"
| "mms_content (MmsArray es) = elements_bytes es"
| "mms_content (MmsVisibleString buf sz) =
     (case buf of None \<Rightarrow> [] | Some m \<Rightarrow> takeWhile (\<lambda>b. b \<noteq> 0) m)"
| "mms_content (MmsUnsigned v) = ber_content v"
| "mms_content (MmsInteger v) = ber_content v"
| "mms_content (MmsUtcTime t) = t"
| "mms_content (MmsBitString n buf) = bit_content n buf"
| "mms_content (MmsBinaryTime sz buf) = take (unat sz) buf"
| "mms_content (MmsOctetString sz maxSz buf) = take (unat sz) buf"
| "mms_content (MmsFloat e w buf) = e # rev (take (unat w div 8) buf)"
| "mms_content _ = []"

text \<open>
  The values the receiver can rebuild: the types it knows, integers of at most eight octets,
  bit strings that are not empty, IEEE single and double floats.
\<close>

fun goose_scalar :: "MmsValue \<Rightarrow> bool" where
  "goose_scalar (MmsBoolean b) = True"
| "goose_scalar (MmsVisibleString buf sz) = string_ok buf"
| "goose_scalar (MmsUnsigned v) = (ber_wf v \<and> unat (size8 v) \<le> 8)"
| "goose_scalar (MmsInteger v) = (ber_wf v \<and> unat (size8 v) \<le> 8)"
| "goose_scalar (MmsUtcTime t) = (length t = 8)"
| "goose_scalar (MmsBitString n buf) = (length buf = bit_byte_size n \<and> 0 < n \<and> n < 2 ^ 18)"
| "goose_scalar (MmsBinaryTime sz buf) = (length buf = 6 \<and> (sz = 4 \<or> sz = 6))"
| "goose_scalar (MmsOctetString sz maxSz buf) = (unat sz \<le> length buf \<and> sz \<noteq> 65535)"
| "goose_scalar (MmsFloat e w buf) = (length buf = 8 \<and> (w = 32 \<and> e = 8 \<or> w = 64 \<and> e = 11))"
| "goose_scalar _ = False"

fun goose_value :: "MmsValue \<Rightarrow> bool"
and goose_values :: "MmsValue option list \<Rightarrow> bool" where
  "goose_value (MmsStructure es) = (goose_values es \<and> length (elements_bytes es) < 65535)"
| "goose_value (MmsArray es) = (goose_values es \<and> length (elements_bytes es) < 65535)"
| "goose_value v = goose_scalar v"
| "goose_values [] = True"
| "goose_values (None # es) = False"
| "goose_values (Some e # es) = (goose_value e \<and> goose_values es)"

lemma bit_byte_size_less: "n < 2 ^ 18 \<Longrightarrow> bit_byte_size n < 65534"
  using bit_byte_size_bounds [of n] by simp

lemma unat_less_65535: "sz \<noteq> 65535 \<Longrightarrow> unat (sz :: uint16) < 65535"
proof -
  assume "sz \<noteq> 65535"
  moreover have "unat sz < 65536" using unsigned_less [of sz, where ?'a = nat] by simp
  moreover have "unat sz \<noteq> 65535" if "sz \<noteq> 65535" using that by (simp add: word_unat_eq_iff)
  ultimately show ?thesis by simp
qed

lemma goose_scalar_tlv:
  assumes "goose_scalar v"
  shows "mms_bytes v = octet_bytes (mms_tag v) (mms_content v)"
    and "known_data_tag (mms_tag v)" and "mms_tag v \<noteq> 0xa1" and "mms_tag v \<noteq> 0xa2"
    and "length (mms_content v) < 65535"
proof -
  show "mms_bytes v = octet_bytes (mms_tag v) (mms_content v)"
    using assms
    by (cases v) (auto simp: octet_bytes_short string_bytes_def octet_bytes_def length_bytes_def
        bit_string_bytes_def length_bit_content split: option.splits)
  show "known_data_tag (mms_tag v)" "mms_tag v \<noteq> 0xa1" "mms_tag v \<noteq> 0xa2"
    using assms by (cases v; simp add: known_data_tag_def)+
  show "length (mms_content v) < 65535"
    using assms ber_content_wf bit_byte_size_less unat_less_65535
    by (cases v) (auto simp: length_bit_content string_ok_def split: option.splits)
qed

lemma goose_value_tlv:
  assumes "goose_value v"
  shows "mms_bytes v = octet_bytes (mms_tag v) (mms_content v)"
    and "known_data_tag (mms_tag v)" and "length (mms_content v) < 65535"
  using assms goose_scalar_tlv [of v]
  by (cases v; simp add: octet_bytes_def Let_def known_data_tag_def)+

section \<open>Reading one element\<close>

text \<open>The numeric conversions of the parser on the sizes it meets.\<close>

lemma unat_of_int_length:
  "n < 2 ^ LENGTH('a) \<Longrightarrow> unat (word_of_int (int n) :: 'a::len word) = n"
  by (simp add: unsigned_of_nat take_bit_nat_eq_self)

lemma new_integer_content:
  assumes v: "ber_wf v" "unat (size8 v) \<le> 8"
  shows "\<exists>w. new_integer (MmsValue_newInteger (int (unat (size8 v)) * 8)) (ber_content v) (int (unat (size8 v)))
      = Some (MmsInteger w) \<and> ber_wf w \<and> ber_content w = ber_content v \<and> size8 w = size8 v"
    and "\<exists>w. new_integer (MmsValue_newUnsigned (int (unat (size8 v)) * 8)) (ber_content v) (int (unat (size8 v)))
      = Some (MmsUnsigned w) \<and> ber_wf w \<and> ber_content w = ber_content v \<and> size8 w = size8 v"
proof -
  let ?n = "unat (size8 v)"
  let ?c = "if int ?n * 8 \<le> 32 then BerInteger_createInt32 else BerInteger_createInt64"
  let ?w = "?c\<lparr>octets := ber_content v @ drop ?n (octets ?c), size8 := size8 v\<rparr>"
  have cap: "ber_wf ?c" "?n \<le> unat (maxSize ?c)"
    using create_wf [of 5] create_wf [of 9] v(2)
    by (auto simp: BerInteger_createInt32_def BerInteger_createInt64_def simp del: of_nat_unat)
  have len: "length (ber_content v) = ?n" "0 < ?n"
    using ber_content_wf [OF v(1)] v(1) by (auto simp: ber_wf_def)
  have mem: "memcpy (octets ?c) (ber_content v) ?n = Some (ber_content v @ drop ?n (octets ?c))"
    using cap len by (simp add: memcpy_def ber_wf_def)
  have sz: "of_nat ?n = size8 v" by simp
  have "ber_wf ?w" "ber_content ?w = ber_content v" "size8 ?w = size8 v"
    using cap len by (auto simp: ber_wf_def ber_content_def simp del: of_nat_unat)
  then show "\<exists>w. new_integer (MmsValue_newInteger (int ?n * 8)) (ber_content v) (int ?n)
      = Some (MmsInteger w) \<and> ber_wf w \<and> ber_content w = ber_content v \<and> size8 w = size8 v"
    and "\<exists>w. new_integer (MmsValue_newUnsigned (int ?n * 8)) (ber_content v) (int ?n)
      = Some (MmsUnsigned w) \<and> ber_wf w \<and> ber_content w = ber_content v \<and> size8 w = size8 v"
    using mem by (auto simp: new_integer_def MmsValue_newInteger_def MmsValue_newUnsigned_def sz
        simp del: of_nat_unat split del: if_split)
qed


text \<open>A bit string whose content octets were masked once is not changed by masking again.\<close>

lemma bit_content_parts:
  assumes "length buf = bit_byte_size n" and "0 < n"
  obtains cs where "bit_content n buf = of_nat (bit_byte_size n * 8 - n) # cs"
    and "length cs = bit_byte_size n" and "bit_content n cs = bit_content n buf"
proof -
  have "0 < bit_byte_size n" using bit_byte_size_bounds [of n] assms(2) by simp
  then have ne: "buf \<noteq> []" using assms(1) by auto
  let ?m = "padding_mask (bit_byte_size n * 8 - n)"
  let ?cs = "butlast buf @ [last buf AND ?m]"
  have "bit_content n buf = of_nat (bit_byte_size n * 8 - n) # ?cs"
    using ne assms(1) by (simp add: bit_content_def Let_def)
  moreover have len: "length ?cs = bit_byte_size n" using ne assms(1) by (cases buf) auto
  moreover have "take (bit_byte_size n) ?cs = ?cs" using len by (intro take_all) simp
  then have "bit_content n ?cs = of_nat (bit_byte_size n * 8 - n) # ?cs"
    unfolding bit_content_def by (simp add: Let_def and.assoc)
  ultimately show thesis using that by metis
qed

lemma new_bit_string:
  assumes "length buf = bit_byte_size n" and "0 < n" and "p = int (length pre)"
  shows "\<exists>cs. new_scalar 0x84 (pre @ bit_content n buf @ rest) p (int (length (bit_content n buf)))
      = Some (Element (Some (MmsBitString n cs))) \<and> length cs = bit_byte_size n \<and>
    bit_content n cs = bit_content n buf"
proof -
  obtain cs where cs: "bit_content n buf = of_nat (bit_byte_size n * 8 - n) # cs"
      "length cs = bit_byte_size n" "bit_content n cs = bit_content n buf"
    by (rule bit_content_parts [OF assms(1,2)])
  define k where "k = bit_byte_size n * 8 - n"
  have k: "k < 8" "int (bit_byte_size n) * 8 - int k = int n" "1 \<le> bit_byte_size n"
    using bit_byte_size_bounds [of n] assms(2) by (auto simp: k_def)
  have uk: "uint (of_nat k :: byte) = int k"
    using k(1) by (simp add: unsigned_of_nat take_bit_nat_eq_self)
  have le7: "\<not> 7 < (of_nat k :: byte)"
    using k(1) by (simp add: word_less_nat_alt unsigned_of_nat take_bit_nat_eq_self)
  have sz: "n div 8 + (if 0 < n mod 8 then 1 else 0) = bit_byte_size n"
    by (simp add: bit_byte_size_def)
  have rd: "rd (pre @ of_nat k # cs @ rest) p = Some (of_nat k)" using assms(3) by (simp add: rd_at)
  have bytes: "rd_bytes (pre @ of_nat k # cs @ rest) (p + 1) (int (bit_byte_size n)) = Some cs"
    using rd_bytes_at [of "pre @ [of_nat k]" "p + 1" cs "int (bit_byte_size n)" rest] assms(3) cs(2)
    by simp
  have "MmsValue_newBitString (int n) = Some (MmsBitString n (replicate (bit_byte_size n) 0))"
    using sz by (simp add: MmsValue_newBitString_def Let_def)
  moreover have "memcpy (replicate (bit_byte_size n) 0) cs (bit_byte_size n) = Some cs"
    using cs(2) by (simp add: memcpy_def)
  ultimately have "new_scalar 0x84 (pre @ of_nat k # cs @ rest) p (int (length (of_nat k # cs)))
      = Some (Element (Some (MmsBitString n cs)))"
    using rd bytes le7 uk k cs(2) by (simp add: new_scalar_def Let_def)
  then show ?thesis using cs by (metis append_Cons k_def)
qed


lemma rd_bytes_content:
  "p = int (length pre) \<Longrightarrow> n = int (length bs) \<Longrightarrow> rd_bytes (pre @ bs @ rest) p n = Some bs"
  by (rule rd_bytes_at) simp_all

lemma be_nat_digit: "i < length bs \<Longrightarrow> be_nat (rev bs) div 256 ^ i mod 256 = unat (bs ! i)"
proof (induction bs arbitrary: i)
  case Nil
  then show ?case by simp
next
  case (Cons b bs)
  have val: "be_nat (rev (b # bs)) = be_nat (rev bs) * 256 + unat b"
    by (simp add: be_nat_append)
  show ?case
  proof (cases i)
    case 0
    then show ?thesis unfolding val by simp
  next
    case (Suc k)
    have "(be_nat (rev bs) * 256 + unat b) div (256 * 256 ^ k) = be_nat (rev bs) div 256 ^ k"
      by (simp add: div_mult2_eq)
    then show ?thesis using Cons Suc unfolding val by simp
  qed
qed

lemma le_bytes_word_of_object:
  assumes "8 * length bs = LENGTH('a)"
  shows "le_bytes (word_of_object bs :: 'a::len word) = bs"
proof (rule nth_equalityI)
  show len: "length (le_bytes (word_of_object bs :: 'a word)) = length bs"
    using assms by (metis length_le_bytes nonzero_mult_div_cancel_left zero_neq_numeral)
  fix i assume "i < length (le_bytes (word_of_object bs :: 'a word))"
  then have i: "i < length bs" using len by simp
  have "be_nat (rev bs) < 256 ^ length bs" using be_nat_less [of "rev bs"] by simp
  also have "(256 :: nat) ^ length bs = 2 ^ LENGTH('a)"
    using power_mult [of "2 :: nat" 8 "length bs"] assms by simp
  finally have "unat (word_of_object bs :: 'a word) = be_nat (rev bs)"
    by (simp add: word_of_object_def unsigned_of_nat take_bit_nat_eq_self)
  moreover have "(2 :: nat) ^ (8 * i) = 256 ^ i" by (simp add: power_mult)
  ultimately have "unat (ucast (drop_bit (8 * i) (word_of_object bs :: 'a word)) :: byte) = unat (bs ! i)"
    by (simp add: unat_byte_of_word be_nat_digit [OF i])
  then have "ucast (drop_bit (8 * i) (word_of_object bs :: 'a word)) = bs ! i"
    by (simp add: word_unat_eq_iff)
  then show "le_bytes (word_of_object bs :: 'a word) ! i = bs ! i"
    using i len by (simp add: le_bytes_def)
qed

lemma takeWhile_c_str: "takeWhile (\<lambda>b. b \<noteq> 0) (takeWhile (\<lambda>b. b \<noteq> 0) m @ [0 :: byte]) = takeWhile (\<lambda>b. b \<noteq> 0) m"
  by (induction m) auto


text \<open>The value that is read has the same encoding, and the encoder writes it as well when it could write the first.\<close>

abbreviation same_encoding :: "MmsValue \<Rightarrow> MmsValue \<Rightarrow> bool" where
  "same_encoding v w \<equiv> mms_bytes w = mms_bytes v \<and> (mms_ok v \<longrightarrow> mms_ok w)"

abbreviation same_encodings :: "MmsValue option list \<Rightarrow> MmsValue option list \<Rightarrow> bool" where
  "same_encodings vs ws \<equiv> elements_bytes ws = elements_bytes vs \<and> (elements_ok vs \<longrightarrow> elements_ok ws)"

lemma new_scalar_rebuilds:
  assumes v: "goose_scalar v" and p: "p = int (length pre)"
  shows "\<exists>w. new_scalar (mms_tag v) (pre @ mms_content v @ rest) p (int (length (mms_content v)))
      = Some (Element (Some w)) \<and> same_encoding v w"
proof (cases v)
  case (MmsBoolean b)
  then show ?thesis
    using p by (simp add: new_scalar_def BerDecoder_decodeBoolean_def rd_at MmsValue_newBoolean_def)
next
  case (MmsBitString n buf)
  then show ?thesis
    using v new_bit_string [of buf n p pre rest] p by (auto simp: bit_string_bytes_def)
next
  case (MmsInteger i)
  then show ?thesis
    using v new_integer_content(1) [of i] ber_content_wf [of i]
      rd_bytes_content [OF p, of "int (unat (size8 i))" "ber_content i" rest]
    by (auto simp: new_scalar_def simp del: of_nat_unat)
next
  case (MmsUnsigned i)
  then show ?thesis
    using v new_integer_content(2) [of i] ber_content_wf [of i]
      rd_bytes_content [OF p, of "int (unat (size8 i))" "ber_content i" rest]
    by (auto simp: new_scalar_def simp del: of_nat_unat)
next
  case (MmsFloat e w buf)
  then consider "w = 32" "e = 8" "length buf = 8" | "w = 64" "e = 11" "length buf = 8" using v by auto
  then show ?thesis
  proof cases
    case 1
    then show ?thesis
      using MmsFloat decodeFloat_content [OF p, of "take 4 buf" e rest]
        le_bytes_word_of_object [of "take 4 buf", where ?'a = 32]
      by (simp add: new_scalar_def MmsValue_newFloat_def octet_bytes_short)
  next
    case 2
    then show ?thesis
      using MmsFloat decodeDouble_content [OF p, of buf e rest]
        le_bytes_word_of_object [of buf, where ?'a = 64]
      by (simp add: new_scalar_def MmsValue_newDouble_def octet_bytes_short)
  qed
next
  case (MmsOctetString sz maxSz buf)
  define bs where "bs = take (unat sz) buf"
  have bs: "length bs = unat sz" using v MmsOctetString by (simp add: bs_def)
  have sz: "of_nat (unat sz) = sz" by simp
  show ?thesis
    using rd_bytes_content [OF p, of "int (unat sz)" bs rest] bs
    by (simp add: MmsOctetString bs_def [symmetric] new_scalar_def MmsValue_newOctetString_def
        memcpy_def sz del: of_nat_unat)
next
  case (MmsVisibleString buf sz)
  let ?c = "mms_content v"
  have "StringUtils_createStringFromBuffer (?c @ rest) (int (length ?c)) = Some (?c @ [0])"
    using rd_bytes_content [of 0 "[]" "int (length ?c)" ?c rest]
    by (simp add: StringUtils_createStringFromBuffer_def)
  then show ?thesis
    using MmsVisibleString p
    by (cases buf) (simp_all add: new_scalar_def MmsValue_newVisibleStringFromByteArray_def
        MmsValue_newStringFromByteArray_def takeWhile_c_str string_bytes_def length_bytes_def string_ok_def)
next
  case (MmsBinaryTime sz buf)
  then have "sz = 4 \<or> sz = 6" "length buf = 6" using v by auto
  then show ?thesis
    using MmsBinaryTime rd_bytes_content [OF p, of "int (unat sz)" "take (unat sz) buf" rest]
    by (auto simp: new_scalar_def MmsValue_newBinaryTime_def memcpy_def)
next
  case (MmsUtcTime t)
  then show ?thesis
    using v p by (simp add: new_scalar_def MmsValue_newUtcTime_def MmsValue_setUtcTimeByBuffer_def
        memcpy_def Let_def)
qed (use v in simp_all)


section \<open>Rebuilding a data set\<close>

lemma count_elements_values:
  assumes "goose_values es" and "buf = pre @ elements_bytes es @ rest" and "p = int (length pre)"
    and "m = p + int (length (elements_bytes es))" and "m < 2 ^ 23"
  shows "count_elements buf p m i = Some (Some (i + length es))"
  using assms
proof (induction es arbitrary: pre p i rule: list.induct)
  case Nil
  then show ?case by (simp add: count_elements.simps)
next
  case (Cons e es)
  obtain v where e: "e = Some v" "goose_value v" "goose_values es"
    using Cons.prems(1) by (cases e) auto
  note tlv = goose_value_tlv [OF e(2)]
  have buf: "buf = pre @ octet_bytes (mms_tag v) (mms_content v) @ (elements_bytes es @ rest)"
    using Cons.prems(2) e tlv by simp
  have le: "p + int (length (octet_bytes (mms_tag v) (mms_content v))) \<le> m"
    using Cons.prems(4) e tlv by simp
  obtain pre' where pre': "buf = pre' @ mms_content v @ elements_bytes es @ rest"
      "rd buf p = Some (mms_tag v)"
      "BerDecoder_decodeLength buf 0 (p + 1) m = Some (int (length pre'), int (length (mms_content v)))"
      "int (length pre') + int (length (mms_content v)) = p + int (length (mms_bytes v))"
    using tlv_decode [OF buf Cons.prems(3) tlv(3) le Cons.prems(5), where l = 0] tlv(1) by auto
  have "count_elements buf (int (length pre') + int (length (mms_content v))) m (i + 1)
      = Some (Some (i + 1 + length es))"
    by (rule Cons.IH [of "pre' @ mms_content v"])
      (use e pre' Cons.prems in \<open>auto simp: algebra_simps\<close>)
  moreover have "p < m" using le by (simp add: octet_bytes_def)
  ultimately show ?case
    using pre' tlv(2) by (subst count_elements.simps) simp
qed

text \<open>The body of the second loop: one element, scalar or nested.\<close>

definition rebuild :: "byte \<Rightarrow> buffer \<Rightarrow> int \<Rightarrow> int \<Rightarrow> bool \<Rightarrow> (bool \<times> element_result) option" where
  "rebuild tag buf bufPos elementLength selfAllocated =
     (if tag = 0xa1 \<or> tag = 0xa2 then do {
        (f, v) \<leftarrow> parseAllDataUnknownValue (drop (nat bufPos) buf) elementLength (tag = 0xa2);
        Some (selfAllocated \<or> f, case v of None \<Rightarrow> Exit_with_error | Some v \<Rightarrow> Element (Some v)) }
      else do {
        r \<leftarrow> new_scalar tag buf bufPos elementLength;
        Some (selfAllocated, r) })"

lemma unknown_loop_rebuild:
  "unknown_loop buf p m i f ds =
     (if p < m then do {
        tag \<leftarrow> rd buf p;
        (p', n) \<leftarrow> BerDecoder_decodeLength buf 0 (p + 1) m;
        if p' < 0 then Some (f, None)
        else do {
          (f, r) \<leftarrow> rebuild tag buf p' n f;
          (case r of
             Exit_with_error \<Rightarrow> Some (f, None)
           | Element None \<Rightarrow> unknown_loop buf (p' + n) m i f ds
           | Element (Some v) \<Rightarrow>
               unknown_loop buf (p' + n) m (i + 1) f (MmsValue_setElement ds (int i) (Some v))) } }
      else Some (True, Some ds))"
  unfolding rebuild_def by (rule unknown_loop.simps)

text \<open>\<open>mk\<close> is the constructor of the data set, array or structure.\<close>

definition rebuilds_list :: "MmsValue option list \<Rightarrow> bool" where
  "rebuilds_list es \<longleftrightarrow>
     (\<forall>mk pre rest done f. mk = MmsArray \<or> mk = MmsStructure \<longrightarrow>
        length pre + length (elements_bytes es) < 2 ^ 23 \<longrightarrow>
        (\<exists>ws. unknown_loop (pre @ elements_bytes es @ rest) (int (length pre))
             (int (length pre) + int (length (elements_bytes es))) (length done) f
             (mk (done @ replicate (length es) None)) = Some (True, Some (mk (done @ ws))) \<and>
           same_encodings es ws \<and> length ws = length es \<and> None \<notin> set ws))"

definition rebuilds :: "MmsValue \<Rightarrow> bool" where
  "rebuilds v \<longleftrightarrow>
     (\<forall>pre rest f. length pre + length (mms_content v) < 2 ^ 23 \<longrightarrow>
        (\<exists>f' w. rebuild (mms_tag v) (pre @ mms_content v @ rest) (int (length pre))
             (int (length (mms_content v))) f = Some (f', Element (Some w)) \<and>
           same_encoding v w))"

lemma rebuilds_listD:
  assumes "rebuilds_list es" and "mk = MmsArray \<or> mk = MmsStructure"
    and "length pre + length (elements_bytes es) < 2 ^ 23"
  shows "\<exists>ws. unknown_loop (pre @ elements_bytes es @ rest) (int (length pre))
      (int (length pre) + int (length (elements_bytes es))) (length done) f
      (mk (done @ replicate (length es) None)) = Some (True, Some (mk (done @ ws))) \<and>
    same_encodings es ws \<and> length ws = length es \<and> None \<notin> set ws"
  using assms unfolding rebuilds_list_def by blast

lemma parse_rebuilds:
  assumes "rebuilds_list es" and "goose_values es" and "length (elements_bytes es) < 2 ^ 23"
  shows "\<exists>ws. parseAllDataUnknownValue (elements_bytes es @ rest) (int (length (elements_bytes es))) isStructure
      = Some (True, Some ((if isStructure then MmsStructure else MmsArray) ws)) \<and>
    same_encodings es ws \<and> length ws = length es \<and> None \<notin> set ws"
proof -
  let ?mk = "if isStructure then MmsStructure else MmsArray"
  have cnt: "count_elements (elements_bytes es @ rest) 0 (int (length (elements_bytes es))) 0
      = Some (Some (length es))"
    using count_elements_values [OF assms(2), of "elements_bytes es @ rest" "[]" rest 0] assms(3)
    by simp
  have mk: "?mk = MmsArray \<or> ?mk = MmsStructure" by simp
  obtain ws where "unknown_loop (elements_bytes es @ rest) 0 (int (length (elements_bytes es)))
        0 False (?mk (replicate (length es) None)) = Some (True, Some (?mk ws))"
      "same_encodings es ws \<and> length ws = length es \<and> None \<notin> set ws"
    using rebuilds_listD [OF assms(1) mk, of "[]" rest "[]" False] assms(3) by auto
  with cnt show ?thesis
    by (subst parseAllDataUnknownValue.simps)
      (auto simp: MmsValue_createEmptyStructure_def MmsValue_createEmptyArray_def)
qed

lemma rebuilds_nested:
  assumes "rebuilds_list es" and "goose_values es" and "length (elements_bytes es) < 65535"
  shows "rebuilds (MmsStructure es)" and "rebuilds (MmsArray es)"
proof -
  have len: "length (elements_bytes es) < 2 ^ 23" using assms(3) by simp
  show "rebuilds (MmsStructure es)"
    unfolding rebuilds_def
  proof (intro allI)
    fix pre rest f
    obtain ws where "parseAllDataUnknownValue (elements_bytes es @ rest)
          (int (length (elements_bytes es))) True = Some (True, Some (MmsStructure ws))"
        "same_encodings es ws"
      using parse_rebuilds [OF assms(1,2) len, of rest True] by auto
    then show "length pre + length (mms_content (MmsStructure es)) < 2 ^ 23 \<longrightarrow>
        (\<exists>f' w. rebuild (mms_tag (MmsStructure es)) (pre @ mms_content (MmsStructure es) @ rest)
           (int (length pre)) (int (length (mms_content (MmsStructure es)))) f
           = Some (f', Element (Some w)) \<and> same_encoding (MmsStructure es) w)"
      by (auto simp: rebuild_def)
  qed
  show "rebuilds (MmsArray es)"
    unfolding rebuilds_def
  proof (intro allI)
    fix pre rest f
    obtain ws where "parseAllDataUnknownValue (elements_bytes es @ rest)
          (int (length (elements_bytes es))) False = Some (True, Some (MmsArray ws))"
        "same_encodings es ws"
      using parse_rebuilds [OF assms(1,2) len, of rest False] by auto
    then show "length pre + length (mms_content (MmsArray es)) < 2 ^ 23 \<longrightarrow>
        (\<exists>f' w. rebuild (mms_tag (MmsArray es)) (pre @ mms_content (MmsArray es) @ rest)
           (int (length pre)) (int (length (mms_content (MmsArray es)))) f
           = Some (f', Element (Some w)) \<and> same_encoding (MmsArray es) w)"
      by (auto simp: rebuild_def)
  qed
qed

lemma rebuilds_scalar:
  assumes "goose_scalar v"
  shows "rebuilds v"
proof -
  note tag = goose_scalar_tlv(3,4) [OF assms]
  have "\<exists>f' w. rebuild (mms_tag v) (pre @ mms_content v @ rest) (int (length pre))
      (int (length (mms_content v))) f = Some (f', Element (Some w)) \<and> same_encoding v w"
    for pre rest f
    using new_scalar_rebuilds [OF assms, of "int (length pre)" pre rest] tag
    by (auto simp: rebuild_def)
  then show ?thesis by (simp add: rebuilds_def)
qed

lemma rebuilds_Nil: "rebuilds_list []"
  by (simp add: rebuilds_list_def unknown_loop.simps)

lemma setElement_next:
  "mk = MmsArray \<or> mk = MmsStructure \<Longrightarrow>
   MmsValue_setElement (mk (done @ replicate (Suc n) None)) (int (length done)) (Some w)
     = mk ((done @ [Some w]) @ replicate n None)"
  by (auto simp: list_update_append)

lemma rebuilds_Cons:
  assumes v: "rebuilds v" "goose_value v" and es: "rebuilds_list es"
  shows "rebuilds_list (Some v # es)"
  unfolding rebuilds_list_def
proof (intro allI impI)
  fix mk and pre rest :: "byte list" and "done" f
  assume mk: "mk = MmsArray \<or> mk = MmsStructure"
    and len: "length pre + length (elements_bytes (Some v # es)) < 2 ^ 23"
  note tlv = goose_value_tlv [OF v(2)]
  let ?buf = "pre @ elements_bytes (Some v # es) @ rest"
  let ?p = "int (length pre)"
  let ?m = "?p + int (length (elements_bytes (Some v # es)))"
  have buf: "?buf = pre @ octet_bytes (mms_tag v) (mms_content v) @ (elements_bytes es @ rest)"
    using tlv by simp
  have m: "?p + int (length (octet_bytes (mms_tag v) (mms_content v))) \<le> ?m" "?m < 2 ^ 23"
    using len tlv(1) by simp_all
  obtain pre' where pre': "?buf = pre' @ mms_content v @ elements_bytes es @ rest"
      "rd ?buf ?p = Some (mms_tag v)"
      "BerDecoder_decodeLength ?buf 0 (?p + 1) ?m = Some (int (length pre'), int (length (mms_content v)))"
      "int (length pre') + int (length (mms_content v)) = ?p + int (length (mms_bytes v))"
    using tlv_decode [OF buf refl tlv(3) m, where l = 0] tlv(1) by auto
  have "length pre' + length (mms_content v) < 2 ^ 23" using pre'(4) len by simp
  then obtain f' w where w: "rebuild (mms_tag v) ?buf (int (length pre')) (int (length (mms_content v))) f
        = Some (f', Element (Some w))" "same_encoding v w"
    using v(1) unfolding rebuilds_def pre'(1) by blast
  define pre2 where "pre2 = pre' @ mms_content v"
  have pre2: "?buf = pre2 @ elements_bytes es @ rest" "int (length pre2) = ?p + int (length (mms_bytes v))"
    using pre' by (simp_all add: pre2_def)
  have "length pre2 + length (elements_bytes es) < 2 ^ 23" using pre2(2) len by simp
  then obtain ws where ws: "unknown_loop (pre2 @ elements_bytes es @ rest) (int (length pre2))
        (int (length pre2) + int (length (elements_bytes es))) (length (done @ [Some w])) f'
        (mk ((done @ [Some w]) @ replicate (length es) None)) = Some (True, Some (mk ((done @ [Some w]) @ ws)))"
      "same_encodings es ws" "length ws = length es" "None \<notin> set ws"
    using es mk unfolding rebuilds_list_def by blast
  have end2: "int (length pre2) + int (length (elements_bytes es)) = ?m" using pre2(2) by simp
  have "?p < ?m" using m(1) by (simp add: octet_bytes_def)
  then have "unknown_loop ?buf ?p ?m (length done) f (mk (done @ replicate (length (Some v # es)) None))
      = unknown_loop ?buf (int (length pre') + int (length (mms_content v))) ?m (length done + 1) f'
          (mk ((done @ [Some w]) @ replicate (length es) None))"
    using pre'(2,3) w(1) setElement_next [OF mk, of "done" "length es" w]
    by (subst unknown_loop_rebuild) simp
  then have "unknown_loop ?buf ?p ?m (length done) f (mk (done @ replicate (length (Some v # es)) None))
      = Some (True, Some (mk (done @ (Some w # ws))))"
    unfolding pre'(4) pre2(2) [symmetric] using ws(1) [unfolded end2, folded pre2(1)] by simp
  then show "\<exists>ws. unknown_loop ?buf ?p ?m (length done) f (mk (done @ replicate (length (Some v # es)) None))
        = Some (True, Some (mk (done @ ws))) \<and>
      same_encodings (Some v # es) ws \<and> length ws = length (Some v # es) \<and> None \<notin> set ws"
    using ws w(2) by (intro exI [of _ "Some w # ws"]) simp
qed

lemma rebuilds_all:
  "goose_value v \<Longrightarrow> rebuilds v"
  "goose_values es \<Longrightarrow> rebuilds_list es"
  by (induction v and es rule: goose_value_goose_values.induct)
    (use rebuilds_nested rebuilds_scalar rebuilds_Nil rebuilds_Cons in auto)

section \<open>Arbitrary input\<close>

lemma rd_bytes_defined:
  "0 \<le> i \<Longrightarrow> 0 \<le> n \<Longrightarrow> i + n \<le> int (length buf) \<Longrightarrow>
   rd_bytes buf i n = Some (take (nat n) (drop (nat i) buf))"
  by (simp add: rd_bytes_def)

lemma new_bits_defined:
  assumes "0 \<le> p" and "1 < n" and "p + n \<le> int (length buf)"
  shows "\<exists>r. new_scalar 0x84 buf p n = Some r"
proof -
  have r: "0 \<le> p" "p < int (length buf)" "0 \<le> p + 1" "0 \<le> n - 1" "p + 1 + (n - 1) \<le> int (length buf)"
    using assms by linarith+
  obtain b where b: "rd buf p = Some b" using rd_defined [OF r(1,2)] by blast
  note bs = rd_bytes_defined [OF r(3-5)]
  show ?thesis
  proof (cases "7 < b")
    case True
    then show ?thesis using assms b by (simp add: new_scalar_def)
  next
    case False
    then have "unat b \<le> 7" by (simp add: word_less_nat_alt)
    then have b7: "0 \<le> uint b" "uint b \<le> 7" by (simp_all add: uint_nat del: of_nat_unat)
    define k where "k = nat \<bar>(n - 1) * 8 - uint b\<bar>"
    have k: "int k = (n - 1) * 8 - uint b" using b7 assms(2) by (simp add: k_def)
    define c where "c = k div 8 + (if 0 < k mod 8 then 1 else 0)"
    have "k \<le> 8 * c" unfolding c_def by presburger
    then have "8 * (n - 1) \<le> 8 * int c + 7" using k b7 by linarith
    then have "n - 1 \<le> int c" by presburger
    then have c: "nat (n - 1) \<le> c" by simp
    have "MmsValue_newBitString ((n - 1) * 8 - uint b) = Some (MmsBitString k (replicate c 0))"
      by (simp add: MmsValue_newBitString_def Let_def k_def c_def)
    moreover have "nat (n - 1) \<le> length (take (nat (n - 1)) (drop (nat (p + 1)) buf))"
      using assms by simp
    ultimately show ?thesis
      using False b bs c assms(2) by (simp add: new_scalar_def Let_def memcpy_def)
  qed
qed

lemma new_integer_defined:
  assumes "n \<le> 8" and "nat n \<le> length bs"
  shows "\<exists>v. new_integer (MmsValue_newInteger (n * 8)) bs n = Some v"
    and "\<exists>v. new_integer (MmsValue_newUnsigned (n * 8)) bs n = Some v"
  using assms
  by (auto simp: new_integer_def MmsValue_newInteger_def MmsValue_newUnsigned_def memcpy_def
      BerInteger_createInt32_def BerInteger_createInt64_def Asn1PrimitiveValue_create_def)

lemma new_scalar_defined:
  assumes p: "0 \<le> p" "0 \<le> n" "p + n < int (length buf)"
  shows "\<exists>r. new_scalar tag buf p n = Some r"
proof -
  have le: "p + n \<le> int (length buf)" "p < int (length buf)" using p by linarith+
  obtain b where b: "rd buf p = Some b" using rd_defined [OF p(1) le(2)] by blast
  define bs where "bs = take (nat n) (drop (nat p) buf)"
  have bs: "rd_bytes buf p n = Some bs" "length bs = nat n"
    using rd_bytes_defined [OF p(1,2) le(1)] p by (auto simp: bs_def)
  consider "tag = 0x84" | "tag = 0x85 \<or> tag = 0x86" | "tag = 0x87" | "tag = 0x89"
    | "tag = 0x8a" | "tag = 0x91" | "tag \<notin> {0x84, 0x85, 0x86, 0x87, 0x89, 0x8a, 0x91}" by blast
  then show ?thesis
  proof cases
    case 1
    then show ?thesis
      using new_bits_defined [OF p(1) _ le(1)] by (cases "1 < n") (auto simp: new_scalar_def)
  next
    case 2
    then show ?thesis
      using new_integer_defined [of n bs] bs by (cases "n \<le> 8") (auto simp: new_scalar_def)
  next
    case 3
    then show ?thesis
      using rd_bytes_defined [of "p + 1" 4 buf] rd_bytes_defined [of "p + 1" 8 buf] p
      by (auto simp: new_scalar_def BerDecoder_decodeFloat_def BerDecoder_decodeDouble_def)
  next
    case 4
    then show ?thesis
      using bs p by (simp add: new_scalar_def MmsValue_newOctetString_def memcpy_def)
  next
    case 5
    have "rd_bytes (drop (nat p) buf) 0 n = Some (take (nat n) (drop (nat p) buf))"
      using rd_bytes_defined [of 0 n "drop (nat p) buf"] p by simp
    then show ?thesis
      using 5 by (simp add: new_scalar_def MmsValue_newVisibleStringFromByteArray_def
          MmsValue_newStringFromByteArray_def StringUtils_createStringFromBuffer_def)
  next
    case 6
    have "n = 8 \<Longrightarrow> 8 \<le> length (drop (nat p) buf)" using p by simp
    then show ?thesis
      using 6 by (auto simp: new_scalar_def MmsValue_newUtcTime_def MmsValue_setUtcTimeByBuffer_def
          memcpy_def Let_def)
  next
    case 7
    then show ?thesis
      using b bs p by (auto simp: new_scalar_def BerDecoder_decodeBoolean_def
          MmsValue_newBinaryTime_def memcpy_def)
  qed
qed

lemma count_elements_defined:
  "0 \<le> p \<Longrightarrow> m \<le> int (length buf) \<Longrightarrow> count_elements buf p m i \<noteq> None"
proof (induction buf p m i rule: count_elements.induct)
  case (1 buf p m i)
  show ?case
  proof (cases "p < m")
    case False
    then show ?thesis by (simp add: count_elements.simps)
  next
    case True
    obtain b where b: "rd buf p = Some b" using rd_defined [of p buf] True "1.prems" by auto
    obtain p' n where d: "BerDecoder_decodeLength buf 0 (p + 1) m = Some (p', n)"
      using decodeLength_defined [of "p + 1" m buf 0] "1.prems" by auto
    have "0 \<le> p' + n" if "\<not> p' < 0" using decodeLength_progress [OF d] that by auto
    then show ?thesis
      using "1.IH" [OF True b d refl] "1.prems" True b d
      by (subst count_elements.simps) auto
  qed
qed

lemma parseAllDataUnknownValue_defined:
  "m < int (length buf) \<Longrightarrow> parseAllDataUnknownValue buf m s \<noteq> None"
  "0 \<le> p \<Longrightarrow> m < int (length buf) \<Longrightarrow> unknown_loop buf p m i f ds \<noteq> None"
proof (induction buf m s and buf p m i f ds rule: parseAllDataUnknownValue_unknown_loop.induct)
  case (1 buf m s)
  obtain c where c: "count_elements buf 0 m 0 = Some c"
    using count_elements_defined [of 0 m buf 0] "1.prems" by auto
  show ?case
  proof (cases c)
    case None
    then show ?thesis using c by (simp add: parseAllDataUnknownValue.simps)
  next
    case (Some k)
    obtain d where d: "(if s then MmsValue_createEmptyStructure k
        else Some (MmsValue_createEmptyArray k)) = Some d"
      by (cases s) (auto simp: MmsValue_createEmptyStructure_def MmsValue_createEmptyArray_def)
    show ?thesis
      using "1.IH" [OF c Some d] "1.prems" c Some d
      by (subst parseAllDataUnknownValue.simps) auto
  qed
next
  case (2 buf p m i f ds)
  show ?case
  proof (cases "p < m")
    case False
    then show ?thesis by (simp add: unknown_loop.simps)
  next
    case True
    obtain tag where tag: "rd buf p = Some tag" using rd_defined [of p buf] True "2.prems" by auto
    obtain p' n where d: "BerDecoder_decodeLength buf 0 (p + 1) m = Some (p', n)"
      using decodeLength_defined [of "p + 1" m buf 0] "2.prems" by auto
    show ?thesis
    proof (cases "p' < 0")
      case True
      then show ?thesis using \<open>p < m\<close> tag d by (simp add: unknown_loop.simps)
    next
      case False
      then have r: "0 \<le> p'" "0 \<le> n" "p' + n \<le> m" using decodeLength_progress [OF d] by auto
      have nested: "tag = 0xa1 \<or> tag = 0xa2 \<Longrightarrow>
          parseAllDataUnknownValue (drop (nat p') buf) n (tag = 0xa2) \<noteq> None"
        using "2.IH"(1) [OF True tag d refl False] r "2.prems" by auto
      obtain f' res where res: "rebuild tag buf p' n f = Some (f', res)"
        using nested new_scalar_defined [of p' n buf tag] r "2.prems"
        by (cases "tag = 0xa1 \<or> tag = 0xa2") (auto simp: rebuild_def)
      show ?thesis
        using "2.IH"(2,3) [OF True tag d refl False res [unfolded rebuild_def] refl] r "2.prems"
          True tag d False res
        by (subst unknown_loop_rebuild) (auto split: element_result.splits option.splits)
    qed
  qed
qed

section \<open>The octets of the publisher\<close>

lemma dataset_elements_ok: "goose_values es \<Longrightarrow> dataset_ok es \<Longrightarrow> elements_ok es"
  by (induction es rule: dataset_ok.induct) auto

lemma elements_dataset_ok: "elements_ok es \<Longrightarrow> dataset_ok es"
  by (induction es rule: dataset_ok.induct) auto

lemma dataset_written:
  assumes "dataset_ok es" and "dataset_encode es (buf, pos) = Some (buf', pos')"
  shows "pos' = pos + length (elements_bytes es) \<and> length (elements_bytes es) \<le> length buf \<and>
    (\<exists>rest. drop pos buf' = elements_bytes es @ rest)"
proof (cases "elements_bytes es = []")
  case True
  then show ?thesis using assms dataset_encodes(2) [OF assms(1)] by simp
next
  case False
  have put: "put_bytes (elements_bytes es) (buf, pos) = Some (buf', pos')" using assms dataset_encodes(2) by simp
  then have "\<not> length buf < pos + length (elements_bytes es)" using False put_bytes_None_iff [of "elements_bytes es" buf pos] by auto
  then show ?thesis using put put_bytes_exact [of pos "elements_bytes es" buf] by auto
qed

section \<open>Properties\<close>

text \<open>C9. Round trip of a data set of unknown type: from the octets that the publisher's loop of MmsValue_encodeMmsData writes
  at any position of a buffer for a data set of the types the receiver knows, nested ones included, the parser builds a new
  data set with the same number of elements, for which the same loop predicts the same size and writes the same octets.\<close>

theorem new_dataset_roundtrip:
  assumes "goose_values es" and "dataset_ok es" and "dataset_encode es (buf, pos) = Some (buf', pos')" and "length buf < 2 ^ 23"
  shows "\<exists>ws. parseAllDataUnknownValue (drop pos buf') (int pos' - int pos) isStructure
      = Some (True, Some ((if isStructure then MmsStructure else MmsArray) ws)) \<and>
    length ws = length es \<and> None \<notin> set ws \<and> dataset_size ws = dataset_size es \<and> dataset_encode ws = dataset_encode es"
proof -
  have out: "int pos' - int pos = int (length (elements_bytes es))" "length (elements_bytes es) < 2 ^ 23"
      "\<exists>rest. drop pos buf' = elements_bytes es @ rest"
    using dataset_written [OF assms(2,3)] assms(4) by auto
  then obtain rest where rest: "drop pos buf' = elements_bytes es @ rest" by blast
  from parse_rebuilds [OF rebuilds_all(2) [OF assms(1)] assms(1) out(2), of rest isStructure]
  obtain ws where ws: "parseAllDataUnknownValue (drop pos buf') (int pos' - int pos) isStructure
      = Some (True, Some ((if isStructure then MmsStructure else MmsArray) ws))"
      "same_encodings es ws" "length ws = length es" "None \<notin> set ws"
    unfolding out(1) rest by blast
  have "elements_ok es" using dataset_elements_ok assms(1,2) by simp
  then have "dataset_ok ws" using ws(2) elements_dataset_ok by blast
  then show ?thesis using ws dataset_encodes [OF assms(2)] dataset_encodes [of ws] by (intro exI [of _ ws]) simp
qed

theorem new_dataset_roundtrip_witness:
  "\<exists>buf' ws. dataset_encode [Some (MmsBoolean True), Some (MmsStructure [Some (MmsBoolean False)])] (replicate 20 7, 2) = Some (buf', 10) \<and>
    parseAllDataUnknownValue (drop 2 buf') 8 False = Some (True, Some (MmsArray ws)) \<and> length ws = Suc (Suc 0) \<and>
    dataset_encode ws = dataset_encode [Some (MmsBoolean True), Some (MmsStructure [Some (MmsBoolean False)])]"
proof -
  let ?es = "[Some (MmsBoolean True), Some (MmsStructure [Some (MmsBoolean False)])]"
  have ok: "goose_values ?es" "dataset_ok ?es" by simp_all
  have "elements_bytes ?es = [0x83, 1, 1, 0xa2, 3, 0x83, 1, 0]" by (simp add: length_bytes_def)
  then have e: "dataset_encode ?es (replicate 20 7, 2)
      = Some (take 2 (replicate 20 7) @ [0x83, 1, 1, 0xa2, 3, 0x83, 1, 0] @ drop 10 (replicate 20 7), 10)"
    using dataset_encodes(2) [OF ok(2)] put_bytes_exact [of 2 "elements_bytes ?es" "replicate 20 7"] by (simp del: elements_bytes.simps)
  have "int 10 - int 2 = 8" by simp
  from new_dataset_roundtrip [OF ok e, of False, unfolded this]
  obtain ws where "parseAllDataUnknownValue (drop 2 (take 2 (replicate 20 7) @ [0x83, 1, 1, 0xa2, 3, 0x83, 1, 0] @ drop 10 (replicate 20 7))) 8 False
      = Some (True, Some (MmsArray ws))" "length ws = Suc (Suc 0)" "dataset_encode ws = dataset_encode ?es" by auto
  then show ?thesis using e by blast
qed

text \<open>C20. Safety on arbitrary input: whatever octets it is given, the parser that builds a new data set returns, never writes
  past a value it has allocated and reads at most one octet behind the length it is called with. The one octet can be needed:
  the content of a Boolean is read without a look at its length, so one of no octets at the end is read behind the length,
  and outside the buffer when the buffer ends there.\<close>

theorem new_dataset_safe:
  assumes "allDataLength < int (length buf)"
  shows "(\<exists>r. parseAllDataUnknownValue buf allDataLength isStructure = Some r) \<and>
    parseAllDataUnknownValue [0x83, 0] 2 isStructure = None"
proof
  show "\<exists>r. parseAllDataUnknownValue buf allDataLength isStructure = Some r"
    using parseAllDataUnknownValue_defined(1) [OF assms] by auto
  have "parseAllDataUnknownValue [0x83, 0] 2 True = None" "parseAllDataUnknownValue [0x83, 0] 2 False = None" by code_simp+
  then show "parseAllDataUnknownValue [0x83, 0] 2 isStructure = None" by (cases isStructure) simp_all
qed

theorem new_dataset_safe_witness:
  "\<exists>r. parseAllDataUnknownValue [0xa2, 0x80, 0x84, 0x02, 0x09, 0xff, 0x00] 6 False = Some r"
  using new_dataset_safe [of 6 "[0xa2, 0x80, 0x84, 0x02, 0x09, 0xff, 0x00]" False] by simp

end
