(* ===== verification/Goose_Update.thy ===== *)
theory Goose_Update
  imports Goose_Data
begin

text \<open>
  Parsing into an existing data set, \<open>parseAllData\<close> of \<open>src/goose/goose_receiver.cc\<close>: a data set that
  has room for the values of a message takes them over exactly, and keeps its room for the next
  message; the errors the function can report.
\<close>

section \<open>Room for a value\<close>

text \<open>When an element of the data set can take over a value that arrives: the same type, the same
  number of bits, enough octets; octet strings and visible strings grow as needed.\<close>

definition accepts_scalar :: "MmsValue \<Rightarrow> MmsValue \<Rightarrow> bool" where
  "accepts_scalar dst src =
     (case src of
        MmsBoolean _ \<Rightarrow> (case dst of MmsBoolean _ \<Rightarrow> True | _ \<Rightarrow> False)
      | MmsBitString n _ \<Rightarrow> (case dst of MmsBitString m b \<Rightarrow> m = n \<and> length b = bit_byte_size n | _ \<Rightarrow> False)
      | MmsInteger w \<Rightarrow> (case dst of MmsInteger v \<Rightarrow> ber_wf v \<and> size8 w \<le> maxSize v | _ \<Rightarrow> False)
      | MmsUnsigned w \<Rightarrow> (case dst of MmsUnsigned v \<Rightarrow> ber_wf v \<and> size8 w \<le> maxSize v | _ \<Rightarrow> False)
      | MmsFloat e w _ \<Rightarrow> (case dst of MmsFloat e' w' b \<Rightarrow> e' = e \<and> w' = w \<and> length b = 8 | _ \<Rightarrow> False)
      | MmsOctetString _ _ _ \<Rightarrow>
          (case dst of MmsOctetString _ m b \<Rightarrow> nat \<bar>m\<bar> \<le> length b | _ \<Rightarrow> False)
      | MmsVisibleString _ _ \<Rightarrow>
          (case dst of MmsVisibleString (Some b) m \<Rightarrow> m < int (length b)
           | MmsVisibleString None _ \<Rightarrow> True | _ \<Rightarrow> False)
      | MmsBinaryTime k _ \<Rightarrow> (case dst of MmsBinaryTime k' b \<Rightarrow> k' = k \<and> length b = 6 | _ \<Rightarrow> False)
      | MmsUtcTime _ \<Rightarrow> (case dst of MmsUtcTime t \<Rightarrow> length t = 8 | _ \<Rightarrow> False)
      | _ \<Rightarrow> False)"

fun accepts :: "MmsValue \<Rightarrow> MmsValue \<Rightarrow> bool"
and accepts_all :: "MmsValue option list \<Rightarrow> MmsValue option list \<Rightarrow> bool" where
  "accepts dst (MmsStructure es) = (case dst of MmsStructure ds \<Rightarrow> accepts_all ds es | _ \<Rightarrow> False)"
| "accepts dst (MmsArray es) = (case dst of MmsArray ds \<Rightarrow> accepts_all ds es | _ \<Rightarrow> False)"
| "accepts dst v = accepts_scalar dst v"
| "accepts_all ds [] = (ds = [])"
| "accepts_all ds (e # es) =
     (case ds of Some d # ds' \<Rightarrow> (case e of Some v \<Rightarrow> accepts d v \<and> accepts_all ds' es | None \<Rightarrow> False)
      | _ \<Rightarrow> False)"

text \<open>The room that is left after an update is at least the room before.\<close>

definition keeps_room :: "MmsValue \<Rightarrow> MmsValue \<Rightarrow> bool" where
  "keeps_room d w \<longleftrightarrow> (\<forall>x. accepts d x \<longrightarrow> accepts w x)"

definition updates_to :: "MmsValue \<Rightarrow> MmsValue \<Rightarrow> MmsValue \<Rightarrow> bool" where
  "updates_to d v w \<longleftrightarrow> same_encoding v w \<and> keeps_room d w"

section \<open>Scalars\<close>

lemma keeps_room_scalar:
  assumes "\<And>x. accepts_scalar d x \<Longrightarrow> accepts_scalar w x"
    and "\<And>es. d \<noteq> MmsStructure es" and "\<And>es. d \<noteq> MmsArray es"
  shows "keeps_room d w"
  unfolding keeps_room_def
proof (intro allI impI)
  fix x assume "accepts d x"
  then show "accepts w x" using assms by (cases x) (auto split: MmsValue.splits)
qed

lemma memcpy_front: "n = length bs \<Longrightarrow> n \<le> length dst \<Longrightarrow> memcpy dst bs n = Some (bs @ drop n dst)"
  by (simp add: memcpy_def)

lemma integer_update:
  assumes v: "ber_wf v" and w: "ber_wf w" "size8 w \<le> maxSize v" and p: "p = int (length pre)"
  obtains v' where "parse_integer (pre @ ber_content w @ rest) p (int (length (ber_content w))) v
      = Some (GOOSE_PARSE_ERROR_NO_ERROR, v')"
    and "ber_wf v'" and "maxSize v' = maxSize v" and "ber_content v' = ber_content w"
    and "size8 v' = size8 w"
proof -
  let ?n = "unat (size8 w)"
  have len: "length (ber_content w) = ?n" "0 < ?n" using ber_content_wf [OF w(1)] w(1) by (auto simp: ber_wf_def)
  have le: "?n \<le> unat (maxSize v)" using w(2) by (simp add: word_le_nat_alt)
  have o: "length (octets v) = unat (maxSize v)" using v by (simp add: ber_wf_def)
  let ?v = "v\<lparr>size8 := size8 w, octets := ber_content w @ drop ?n (octets v)\<rparr>"
  have "parse_integer (pre @ ber_content w @ rest) p (int ?n) v = Some (GOOSE_PARSE_ERROR_NO_ERROR, ?v)"
    using le o len rd_bytes_content [OF p, of "int ?n" "ber_content w" rest]
      memcpy_front [of ?n "ber_content w" "octets v"]
    by (simp add: parse_integer_def word_le_nat_alt uint_nat del: of_nat_unat) simp
  moreover have "ber_wf ?v" "ber_content ?v = ber_content w"
    using le o len by (auto simp: ber_wf_def ber_content_def)
  ultimately show thesis using that [of ?v] len by (simp del: of_nat_unat)
qed

lemma bit_string_update:
  assumes "length buf = bit_byte_size n" and "0 < n" and "length b = bit_byte_size n"
    and "p = int (length pre)"
  obtains cs where "parse_scalar 0x84 (pre @ bit_content n buf @ rest) p (int (length (bit_content n buf)))
      (MmsBitString n b) = Some (GOOSE_PARSE_ERROR_NO_ERROR, MmsBitString n cs)"
    and "length cs = bit_byte_size n" and "bit_content n cs = bit_content n buf"
proof -
  obtain cs where cs: "bit_content n buf = of_nat (bit_byte_size n * 8 - n) # cs"
      "length cs = bit_byte_size n" "bit_content n cs = bit_content n buf"
    by (rule bit_content_parts [OF assms(1,2)])
  define k where "k = bit_byte_size n * 8 - n"
  have k: "k < 8" "8 * int (bit_byte_size n) - int k = int n"
    using bit_byte_size_bounds [of n] assms(2) by (auto simp: k_def)
  have uk: "uint (of_nat k :: byte) = int k"
    using k(1) by (simp add: unsigned_of_nat take_bit_nat_eq_self)
  have "rd (pre @ of_nat k # cs @ rest) p = Some (of_nat k)" using assms(4) by (simp add: rd_at)
  moreover have "rd_bytes (pre @ of_nat k # cs @ rest) (p + 1) (int (bit_byte_size n)) = Some cs"
    using rd_bytes_at [of "pre @ [of_nat k]" "p + 1" cs "int (bit_byte_size n)" rest] assms(4) cs(2)
    by simp
  moreover have "memcpy b cs (bit_byte_size n) = Some cs"
    using cs(2) assms(3) by (simp add: memcpy_def)
  ultimately have "parse_scalar 0x84 (pre @ of_nat k # cs @ rest) p (int (length (of_nat k # cs)))
      (MmsBitString n b) = Some (GOOSE_PARSE_ERROR_NO_ERROR, MmsBitString n cs)"
    using uk k(2) cs(2) by (simp add: parse_scalar_def Let_def)
  then show thesis using that [of cs] cs by (metis append_Cons k_def)
qed

lemma takeWhile_nul: "0 \<notin> set c \<Longrightarrow> takeWhile (\<lambda>b. b \<noteq> 0) (c @ 0 # x) = (c :: byte list)"
  by (induction c) auto

lemma visible_content_no_nul: "0 \<notin> set (mms_content (MmsVisibleString buf sz))"
  by (cases buf) (auto dest: set_takeWhileD)

lemma visible_bytes:
  "0 \<notin> set c \<Longrightarrow> c = mms_content (MmsVisibleString buf sz) \<Longrightarrow>
   same_encoding (MmsVisibleString buf sz) (MmsVisibleString (Some (c @ 0 # x)) m)"
  by (cases buf) (simp_all add: takeWhile_nul string_bytes_def length_bytes_def string_ok_def)

lemma visible_update:
  assumes acc: "accepts_scalar (MmsVisibleString b m) (MmsVisibleString buf sz)"
    and p: "p = int (length pre)" and c: "c = mms_content (MmsVisibleString buf sz)"
  shows "\<exists>w. parse_scalar 0x8a (pre @ c @ rest) p (int (length c)) (MmsVisibleString b m)
      = Some (GOOSE_PARSE_ERROR_NO_ERROR, w) \<and>
    updates_to (MmsVisibleString b m) (MmsVisibleString buf sz) w"
proof -
  have nul: "0 \<notin> set c" using visible_content_no_nul c by simp
  have rd: "rd_bytes (pre @ c @ rest) p (int (length c)) = Some c" by (rule rd_bytes_content [OF p refl])
  have room: "keeps_room (MmsVisibleString b m) (MmsVisibleString (Some b') m')"
    if "m' < int (length b')" for b' m'
    using that by (intro keeps_room_scalar) (auto simp: accepts_scalar_def split: MmsValue.splits)
  have le: "signed_take_bit 15 (int (length c)) < int (length (c @ [0]))"
    using signed_take_bit_int_less_eq_self_iff [of 15 "int (length c)"] by simp
  have new: "createNewStringFromBufferElement (pre @ c @ rest) p (int (length c))
      = Some (MmsVisibleString (Some (c @ [0])) (signed_take_bit 15 (int (length c))))"
    using rd by (simp add: createNewStringFromBufferElement_def)
  have new_ok: "updates_to (MmsVisibleString b m) (MmsVisibleString buf sz)
      (MmsVisibleString (Some (c @ [0])) (signed_take_bit 15 (int (length c))))"
    using room [OF le] visible_bytes [OF nul c, of "[]"] by (simp add: updates_to_def)
  show ?thesis
  proof (cases "\<exists>a. b = Some a \<and> int (length c) \<le> m")
    case True
    then obtain a where a: "b = Some a" "int (length c) \<le> m" by blast
    then have len: "length c < length a" using acc by (simp add: accepts_scalar_def)
    let ?a = "c @ 0 # drop (Suc (length c)) a"
    have "memcpy a c (length c) = Some (c @ drop (length c) a)" using len by (simp add: memcpy_def)
    moreover have "store (c @ drop (length c) a) (length c) 0 = Some ?a"
      using len by (simp add: store_def list_update_append Cons_nth_drop_Suc [symmetric])
    moreover have "keeps_room (MmsVisibleString b m) (MmsVisibleString (Some ?a) m)"
      using len acc a(1) by (intro room) (simp add: accepts_scalar_def)
    ultimately show ?thesis
      using rd a visible_bytes [OF nul c] by (simp add: parse_scalar_def updates_to_def)
  next
    case False
    then show ?thesis using new new_ok by (cases b) (auto simp: parse_scalar_def)
  qed
qed

lemma octet_update:
  assumes acc: "nat \<bar>m\<bar> \<le> length b" and v: "unat sz \<le> length buf" "sz \<noteq> 65535"
    and p: "p = int (length pre)" and c: "c = take (unat sz) buf"
  shows "\<exists>w. parse_scalar 0x89 (pre @ c @ rest) p (int (length c)) (MmsOctetString k m b)
      = Some (GOOSE_PARSE_ERROR_NO_ERROR, w) \<and>
    updates_to (MmsOctetString k m b) (MmsOctetString sz maxSz buf) w"
proof -
  have len: "length c = unat sz" using v(1) c by simp
  have rd: "rd_bytes (pre @ c @ rest) p (int (length c)) = Some c" by (rule rd_bytes_content [OF p refl])
  have room: "keeps_room (MmsOctetString k m b) (MmsOctetString k' m' b')"
    if "nat \<bar>m'\<bar> \<le> length b'" for k' m' b'
    using that by (intro keeps_room_scalar) (auto simp: accepts_scalar_def split: MmsValue.splits)
  have sz: "word_of_int (int (length c)) = sz" using len by simp
  have bytes: "mms_bytes (MmsOctetString sz m' (c @ x)) = mms_bytes (MmsOctetString sz maxSz buf)" for m' x
    using len c by simp
  show ?thesis
  proof (cases "int (length c) \<le> \<bar>m\<bar>")
    case True
    then have le: "length c \<le> length b" using acc by simp
    have "keeps_room (MmsOctetString k m b) (MmsOctetString sz m (c @ drop (length c) b))"
      using acc le by (intro room) simp
    then show ?thesis
      using True rd memcpy_front [OF refl le] sz bytes len by (simp add: parse_scalar_def updates_to_def)
  next
    case False
    have "keeps_room (MmsOctetString k m b) (MmsOctetString sz (- int (length c)) c)" by (intro room) simp
    then show ?thesis
      using False rd sz bytes [of _ "[]"] len by (simp add: parse_scalar_def updates_to_def)
  qed
qed

lemma float_update:
  assumes "length b = 8" and "length buf = 8" and "w = 32 \<and> e = 8 \<or> w = 64 \<and> e = 11"
    and p: "p = int (length pre)"
  shows "\<exists>w'. parse_scalar 0x87 (pre @ mms_content (MmsFloat e w buf) @ rest) p
      (int (length (mms_content (MmsFloat e w buf)))) (MmsFloat e w b) = Some (GOOSE_PARSE_ERROR_NO_ERROR, w') \<and>
    updates_to (MmsFloat e w b) (MmsFloat e w buf) w'"
proof -
  have room: "keeps_room (MmsFloat e w b) (MmsFloat e w b')" if "length b' = 8" for b'
    using that by (intro keeps_room_scalar) (auto simp: accepts_scalar_def split: MmsValue.splits)
  consider "w = 32" "e = 8" | "w = 64" "e = 11" using assms(3) by auto
  then show ?thesis
  proof cases
    case 1
    then show ?thesis
      using assms(1,2) decodeFloat_content [OF p, of "take 4 buf" e rest] room [of "take 4 buf @ drop 4 b"]
        le_bytes_word_of_object [of "take 4 buf", where ?'a = 32] memcpy_front [of 4 "take 4 buf" b]
      by (simp add: parse_scalar_def updates_to_def)
  next
    case 2
    then show ?thesis
      using assms(1,2) decodeDouble_content [OF p, of buf e rest] room [of buf]
        le_bytes_word_of_object [of buf, where ?'a = 64] memcpy_front [of 8 buf b]
      by (simp add: parse_scalar_def updates_to_def)
  qed
qed

lemma integer_room:
  "ber_wf v' \<Longrightarrow> maxSize v' = maxSize v \<Longrightarrow> keeps_room (MmsInteger v) (MmsInteger v')"
  "ber_wf v' \<Longrightarrow> maxSize v' = maxSize v \<Longrightarrow> keeps_room (MmsUnsigned v) (MmsUnsigned v')"
  by (intro keeps_room_scalar; auto simp: accepts_scalar_def split: MmsValue.splits)+

lemma scalar_update:
  assumes v: "goose_scalar v" and acc: "accepts_scalar d v" and p: "p = int (length pre)"
  shows "\<exists>w. parse_scalar (mms_tag v) (pre @ mms_content v @ rest) p (int (length (mms_content v))) d
      = Some (GOOSE_PARSE_ERROR_NO_ERROR, w) \<and> updates_to d v w"
proof (cases v)
  case (MmsBoolean b)
  then obtain b' where d: "d = MmsBoolean b'" using acc by (auto simp: accepts_scalar_def split: MmsValue.splits)
  have "keeps_room d (MmsBoolean b)"
    by (intro keeps_room_scalar) (auto simp: d accepts_scalar_def split: MmsValue.splits)
  then show ?thesis
    using MmsBoolean d p
    by (cases b) (simp_all add: parse_scalar_def BerDecoder_decodeBoolean_def rd_at updates_to_def)
next
  case (MmsBitString n buf)
  then obtain b where d: "d = MmsBitString n b" "length b = bit_byte_size n"
    using acc by (auto simp: accepts_scalar_def split: MmsValue.splits)
  obtain cs where cs: "parse_scalar 0x84 (pre @ bit_content n buf @ rest) p (int (length (bit_content n buf)))
      (MmsBitString n b) = Some (GOOSE_PARSE_ERROR_NO_ERROR, MmsBitString n cs)"
      "length cs = bit_byte_size n" "bit_content n cs = bit_content n buf"
    using bit_string_update [of buf n b p pre rest] MmsBitString v d(2) p by auto
  have "keeps_room d (MmsBitString n cs)"
    using cs(2) by (intro keeps_room_scalar) (auto simp: d accepts_scalar_def split: MmsValue.splits)
  then show ?thesis using MmsBitString d cs by (simp add: updates_to_def bit_string_bytes_def)
next
  case (MmsInteger i)
  then obtain u where d: "d = MmsInteger u" "ber_wf u" "size8 i \<le> maxSize u"
    using acc by (auto simp: accepts_scalar_def split: MmsValue.splits)
  obtain u' where "parse_integer (pre @ ber_content i @ rest) p (int (length (ber_content i))) u
      = Some (GOOSE_PARSE_ERROR_NO_ERROR, u')" "ber_wf u'" "maxSize u' = maxSize u"
      "ber_content u' = ber_content i" "size8 u' = size8 i"
    using integer_update [OF d(2) _ d(3) p, of rest] MmsInteger v by auto
  then show ?thesis
    using MmsInteger d(1) integer_room(1) [of u' u] by (simp add: parse_scalar_def updates_to_def)
next
  case (MmsUnsigned i)
  then obtain u where d: "d = MmsUnsigned u" "ber_wf u" "size8 i \<le> maxSize u"
    using acc by (auto simp: accepts_scalar_def split: MmsValue.splits)
  obtain u' where "parse_integer (pre @ ber_content i @ rest) p (int (length (ber_content i))) u
      = Some (GOOSE_PARSE_ERROR_NO_ERROR, u')" "ber_wf u'" "maxSize u' = maxSize u"
      "ber_content u' = ber_content i" "size8 u' = size8 i"
    using integer_update [OF d(2) _ d(3) p, of rest] MmsUnsigned v by auto
  then show ?thesis
    using MmsUnsigned d(1) integer_room(2) [of u' u] by (simp add: parse_scalar_def updates_to_def)
next
  case (MmsFloat e w buf)
  then obtain b where d: "d = MmsFloat e w b" "length b = 8"
    using acc by (auto simp: accepts_scalar_def split: MmsValue.splits)
  then show ?thesis using float_update [OF d(2) _ _ p, of buf w e rest] MmsFloat v by simp
next
  case (MmsOctetString sz maxSz buf)
  then obtain k m b where d: "d = MmsOctetString k m b" "nat \<bar>m\<bar> \<le> length b"
    using acc by (auto simp: accepts_scalar_def split: MmsValue.splits)
  then show ?thesis
    using octet_update [OF d(2) _ _ p refl, of sz buf rest k maxSz] MmsOctetString v by simp
next
  case (MmsVisibleString buf sz)
  then obtain b m where d: "d = MmsVisibleString b m"
    using acc by (auto simp: accepts_scalar_def split: MmsValue.splits option.splits)
  then show ?thesis
    using visible_update [OF acc [unfolded d MmsVisibleString] p refl, of rest] MmsVisibleString by simp
next
  case (MmsBinaryTime k buf)
  then obtain b where d: "d = MmsBinaryTime k b" "length b = 6"
    using acc by (auto simp: accepts_scalar_def split: MmsValue.splits)
  have k: "k = 4 \<or> k = 6" "length buf = 6" using v MmsBinaryTime by auto
  let ?c = "take (unat k) buf"
  have "keeps_room d (MmsBinaryTime k (?c @ drop (unat k) b))"
    using k d(2) by (intro keeps_room_scalar) (auto simp: d accepts_scalar_def split: MmsValue.splits)
  then show ?thesis
    using MmsBinaryTime d k rd_bytes_content [OF p, of "int (unat k)" ?c rest] memcpy_front [of "unat k" ?c b]
    by (auto simp: parse_scalar_def updates_to_def)
next
  case (MmsUtcTime t)
  then obtain u where d: "d = MmsUtcTime u" "length u = 8"
    using acc by (auto simp: accepts_scalar_def split: MmsValue.splits)
  have "keeps_room d (MmsUtcTime t)"
    using v MmsUtcTime by (intro keeps_room_scalar) (auto simp: d accepts_scalar_def split: MmsValue.splits)
  then show ?thesis
    using MmsUtcTime d v p by (simp add: parse_scalar_def updates_to_def MmsValue_setUtcTimeByBuffer_def memcpy_def)
qed (use v in simp_all)

section \<open>Data sets\<close>

definition element_updates :: "MmsValue \<Rightarrow> bool" where
  "element_updates v \<longleftrightarrow>
     (\<forall>d pre rest. accepts d v \<longrightarrow> length pre + length (mms_content v) < 2 ^ 23 \<longrightarrow>
        (\<exists>w. parse_element (mms_tag v) (pre @ mms_content v @ rest) (int (length pre))
             (int (length (mms_content v))) d = Some (GOOSE_PARSE_ERROR_NO_ERROR, w) \<and> updates_to d v w))"

definition list_updates :: "MmsValue option list \<Rightarrow> bool" where
  "list_updates es \<longleftrightarrow>
     (\<forall>ds pre rest. accepts_all ds es \<longrightarrow> length pre + length (elements_bytes es) < 2 ^ 23 \<longrightarrow>
        (\<exists>ws. parse_elements (pre @ elements_bytes es @ rest) (int (length pre))
             (int (length pre) + int (length (elements_bytes es))) ds
             = Some (GOOSE_PARSE_ERROR_NO_ERROR, ws) \<and>
           same_encodings es ws \<and> (\<forall>xs. accepts_all ds xs \<longrightarrow> accepts_all ws xs)))"

lemma accepts_structure:
  "accepts (MmsStructure ds) x \<longleftrightarrow> (\<exists>es. x = MmsStructure es \<and> accepts_all ds es)"
  "accepts (MmsArray ds) x \<longleftrightarrow> (\<exists>es. x = MmsArray es \<and> accepts_all ds es)"
  by (cases x; simp add: accepts_scalar_def)+

lemma accepts_nested:
  "accepts d (MmsStructure es) \<longleftrightarrow> (\<exists>ds. d = MmsStructure ds \<and> accepts_all ds es)"
  "accepts d (MmsArray es) \<longleftrightarrow> (\<exists>ds. d = MmsArray ds \<and> accepts_all ds es)"
  by (auto split: MmsValue.splits)

lemma list_updates_at_0:
  assumes "list_updates es" and "accepts_all ds es" and "length (elements_bytes es) < 2 ^ 23"
  obtains ws where "parse_elements (elements_bytes es @ rest) 0 (int (length (elements_bytes es))) ds
      = Some (GOOSE_PARSE_ERROR_NO_ERROR, ws)" and "same_encodings es ws"
    and "\<forall>xs. accepts_all ds xs \<longrightarrow> accepts_all ws xs"
proof -
  have "\<exists>ws. parse_elements ([] @ elements_bytes es @ rest) (int (length ([] :: byte list)))
        (int (length ([] :: byte list)) + int (length (elements_bytes es))) ds
        = Some (GOOSE_PARSE_ERROR_NO_ERROR, ws) \<and>
      same_encodings es ws \<and> (\<forall>xs. accepts_all ds xs \<longrightarrow> accepts_all ws xs)"
    by (rule assms(1) [unfolded list_updates_def, rule_format, OF assms(2)]) (use assms(3) in simp)
  then show thesis using that by auto
qed

lemma element_updates_nested:
  assumes "list_updates es"
  shows "element_updates (MmsStructure es)" and "element_updates (MmsArray es)"
proof -
  show "element_updates (MmsStructure es)"
    unfolding element_updates_def updates_to_def keeps_room_def accepts_nested
  proof (intro allI impI, elim exE conjE)
    fix d and pre rest :: "byte list" and ds
    assume a: "d = MmsStructure ds" "accepts_all ds es"
      "length pre + length (mms_content (MmsStructure es)) < 2 ^ 23"
    obtain ws where "parse_elements (elements_bytes es @ rest) 0 (int (length (elements_bytes es))) ds
        = Some (GOOSE_PARSE_ERROR_NO_ERROR, ws)" "same_encodings es ws"
        "\<forall>xs. accepts_all ds xs \<longrightarrow> accepts_all ws xs"
      using list_updates_at_0 [OF assms a(2), of rest] a(3) by auto
    then show "\<exists>w. parse_element (mms_tag (MmsStructure es)) (pre @ mms_content (MmsStructure es) @ rest)
          (int (length pre)) (int (length (mms_content (MmsStructure es)))) d
          = Some (GOOSE_PARSE_ERROR_NO_ERROR, w) \<and>
        same_encoding (MmsStructure es) w \<and> (\<forall>x. accepts d x \<longrightarrow> accepts w x)"
      unfolding a(1) by (intro exI [of _ "MmsStructure ws"]) (auto simp: parse_element.simps accepts_structure)
  qed
  show "element_updates (MmsArray es)"
    unfolding element_updates_def updates_to_def keeps_room_def accepts_nested
  proof (intro allI impI, elim exE conjE)
    fix d and pre rest :: "byte list" and ds
    assume a: "d = MmsArray ds" "accepts_all ds es"
      "length pre + length (mms_content (MmsArray es)) < 2 ^ 23"
    obtain ws where "parse_elements (elements_bytes es @ rest) 0 (int (length (elements_bytes es))) ds
        = Some (GOOSE_PARSE_ERROR_NO_ERROR, ws)" "same_encodings es ws"
        "\<forall>xs. accepts_all ds xs \<longrightarrow> accepts_all ws xs"
      using list_updates_at_0 [OF assms a(2), of rest] a(3) by auto
    then show "\<exists>w. parse_element (mms_tag (MmsArray es)) (pre @ mms_content (MmsArray es) @ rest)
          (int (length pre)) (int (length (mms_content (MmsArray es)))) d
          = Some (GOOSE_PARSE_ERROR_NO_ERROR, w) \<and>
        same_encoding (MmsArray es) w \<and> (\<forall>x. accepts d x \<longrightarrow> accepts w x)"
      unfolding a(1) by (intro exI [of _ "MmsArray ws"]) (auto simp: parse_element.simps accepts_structure)
  qed
qed

lemma accepts_scalar_iff: "goose_scalar v \<Longrightarrow> accepts d v = accepts_scalar d v"
  by (cases v) simp_all

lemma element_updates_scalar:
  assumes "goose_scalar v"
  shows "element_updates v"
proof -
  note tag = goose_scalar_tlv(3,4) [OF assms]
  show ?thesis
    unfolding element_updates_def accepts_scalar_iff [OF assms]
    using scalar_update [OF assms] tag by (auto simp: parse_element.simps)
qed

lemma list_updates_Nil: "list_updates []"
  by (simp add: list_updates_def after_loop_def)

lemma list_updates_Cons:
  assumes v: "element_updates v" "goose_value v" and es: "list_updates es"
  shows "list_updates (Some v # es)"
  unfolding list_updates_def
proof (intro allI impI)
  fix ds0 and pre rest :: "byte list"
  assume acc: "accepts_all ds0 (Some v # es)"
    and len: "length pre + length (elements_bytes (Some v # es)) < 2 ^ 23"
  obtain d ds where ds0: "ds0 = Some d # ds" "accepts d v" "accepts_all ds es"
    using acc by (auto split: list.splits option.splits)
  note tlv = goose_value_tlv [OF v(2)]
  let ?buf = "pre @ elements_bytes (Some v # es) @ rest"
  let ?p = "int (length pre)"
  let ?m = "?p + int (length (elements_bytes (Some v # es)))"
  have buf: "?buf = pre @ octet_bytes (mms_tag v) (mms_content v) @ (elements_bytes es @ rest)"
    using tlv by simp
  have m: "?p + int (length (octet_bytes (mms_tag v) (mms_content v))) \<le> ?m" "?m < 2 ^ 23"
    using len tlv(1) by simp_all
  obtain pre' where pre': "?buf = pre' @ mms_content v @ elements_bytes es @ rest"
      "rd ?buf ?p = Some (mms_tag v)"
      "BerDecoder_decodeLength ?buf 0 (?p + 1) ?m = Some (int (length pre'), int (length (mms_content v)))"
      "int (length pre') + int (length (mms_content v)) = ?p + int (length (mms_bytes v))"
    using tlv_decode [OF buf refl tlv(3) m, where l = 0] tlv(1) by auto
  have "length pre' + length (mms_content v) < 2 ^ 23" using pre'(4) len by simp
  then obtain w where w: "parse_element (mms_tag v) ?buf (int (length pre')) (int (length (mms_content v))) d
        = Some (GOOSE_PARSE_ERROR_NO_ERROR, w)" "updates_to d v w"
    using v(1) ds0(2) unfolding element_updates_def pre'(1) by blast
  define pre2 where "pre2 = pre' @ mms_content v"
  have pre2: "?buf = pre2 @ elements_bytes es @ rest" "int (length pre2) = ?p + int (length (mms_bytes v))"
      "int (length pre') + int (length (mms_content v)) = int (length pre2)"
    using pre' by (simp_all add: pre2_def)
  have "length pre2 + length (elements_bytes es) < 2 ^ 23" using pre2(2) len by simp
  then obtain ws where ws: "parse_elements (pre2 @ elements_bytes es @ rest) (int (length pre2))
        (int (length pre2) + int (length (elements_bytes es))) ds = Some (GOOSE_PARSE_ERROR_NO_ERROR, ws)"
      "same_encodings es ws" "\<forall>xs. accepts_all ds xs \<longrightarrow> accepts_all ws xs"
    using es ds0(3) unfolding list_updates_def by blast
  have end2: "int (length pre2) + int (length (elements_bytes es)) = ?m" using pre2(2) by simp
  have "?p < ?m" using m(1) by (simp add: octet_bytes_def)
  then have "parse_elements ?buf ?p ?m ds0 = Some (GOOSE_PARSE_ERROR_NO_ERROR, Some w # ws)"
    using pre'(2,3) w(1) ws(1) [unfolded end2, folded pre2(1)]
    unfolding ds0(1) by (simp add: pre2(3))
  moreover have "\<forall>xs. accepts_all ds0 xs \<longrightarrow> accepts_all (Some w # ws) xs"
  proof (intro allI impI)
    fix xs assume "accepts_all ds0 xs"
    then show "accepts_all (Some w # ws) xs"
      using ws(3) w(2) unfolding ds0(1)
      by (cases xs) (auto simp: updates_to_def keeps_room_def split: option.splits)
  qed
  ultimately show "\<exists>ws. parse_elements ?buf ?p ?m ds0 = Some (GOOSE_PARSE_ERROR_NO_ERROR, ws) \<and>
      same_encodings (Some v # es) ws \<and>
      (\<forall>xs. accepts_all ds0 xs \<longrightarrow> accepts_all ws xs)"
    using ws(2) w(2) by (intro exI [of _ "Some w # ws"]) (simp add: updates_to_def)
qed

lemma updates_all:
  "goose_value v \<Longrightarrow> element_updates v"
  "goose_values es \<Longrightarrow> list_updates es"
  by (induction v and es rule: goose_value_goose_values.induct)
    (use element_updates_nested element_updates_scalar list_updates_Nil list_updates_Cons in auto)

lemma parseAllData_updates:
  assumes "goose_values es" and "accepts_all ds es" and "length (elements_bytes es) < 2 ^ 23"
  obtains ws where "parseAllData (elements_bytes es @ rest) (int (length (elements_bytes es))) (MmsArray ds)
      = Some (GOOSE_PARSE_ERROR_NO_ERROR, MmsArray ws)"
    and "same_encodings es ws" and "\<forall>xs. accepts_all ds xs \<longrightarrow> accepts_all ws xs"
proof -
  obtain ws where "parse_elements (elements_bytes es @ rest) 0 (int (length (elements_bytes es))) ds
        = Some (GOOSE_PARSE_ERROR_NO_ERROR, ws)" "same_encodings es ws"
      "\<forall>xs. accepts_all ds xs \<longrightarrow> accepts_all ws xs"
    by (rule list_updates_at_0 [OF updates_all(2) [OF assms(1)] assms(2,3), of rest])
  then show thesis using that by (simp add: parseAllData_def)
qed

section \<open>Arbitrary messages\<close>

text \<open>A data set whose elements have the buffers their sizes promise. Bit strings are left out:
  the parser does not check the padding octet of one, see \<open>padding_overflow\<close> below.\<close>

fun sound :: "MmsValue \<Rightarrow> bool"
and sound_all :: "MmsValue option list \<Rightarrow> bool" where
  "sound (MmsArray es) = sound_all es"
| "sound (MmsStructure es) = sound_all es"
| "sound (MmsBitString n b) = False"
| "sound (MmsInteger v) = (length (octets v) = unat (maxSize v))"
| "sound (MmsUnsigned v) = (length (octets v) = unat (maxSize v))"
| "sound (MmsFloat e w b) = (length b = 8)"
| "sound (MmsOctetString k m b) = (nat \<bar>m\<bar> \<le> length b)"
| "sound (MmsVisibleString b m) = (case b of None \<Rightarrow> True | Some a \<Rightarrow> m < int (length a))"
| "sound (MmsBinaryTime k b) = (length b = 6)"
| "sound (MmsUtcTime t) = (length t = 8)"
| "sound v = True"
| "sound_all [] = True"
| "sound_all (None # es) = sound_all es"
| "sound_all (Some e # es) = (sound e \<and> sound_all es)"

lemma length_memcpy: "memcpy dst src n = Some d \<Longrightarrow> length d = length dst"
  by (auto simp: memcpy_def split: if_splits)

lemma memcpy_defined: "n \<le> length dst \<Longrightarrow> n \<le> length src \<Longrightarrow> \<exists>d. memcpy dst src n = Some d \<and> length d = length dst"
  by (simp add: memcpy_def)

lemma length_rd_bytes: "rd_bytes buf p n = Some bs \<Longrightarrow> length bs = nat n"
  by (auto simp: rd_bytes_def split: if_splits)

lemma rd_bytes_ok:
  assumes "0 \<le> p" and "0 \<le> n" and "p + n \<le> int (length buf)"
  obtains bs where "rd_bytes buf p n = Some bs" and "length bs = nat n"
  by (rule that [OF rd_bytes_defined [OF assms] length_rd_bytes [OF rd_bytes_defined [OF assms]]])

lemma integer_sound:
  assumes "length (octets v) = unat (maxSize v)" and "0 \<le> p" and "0 \<le> n" and "p + n \<le> int (length buf)"
  shows "\<exists>pe v'. parse_integer buf p n v = Some (pe, v') \<and> length (octets v') = unat (maxSize v')"
proof -
  obtain bs where bs: "rd_bytes buf p n = Some bs" "length bs = nat n" by (rule rd_bytes_ok [OF assms(2-4)])
  show ?thesis
  proof (cases "n \<le> uint (maxSize v)")
    case True
    then have "nat n \<le> length (octets v)" using assms(1,3) by (simp add: nat_le_iff)
    then obtain d where "memcpy (octets v) bs (nat n) = Some d" "length d = length (octets v)"
      using memcpy_defined [of "nat n" "octets v" bs] bs(2) by auto
    then show ?thesis using True bs(1) assms(1) by (simp add: parse_integer_def)
  next
    case False
    then show ?thesis using assms(1) by (simp add: parse_integer_def)
  qed
qed

text \<open>The element types with a buffer, one by one.\<close>

lemma float_sound:
  assumes "length b = 8" and "0 \<le> p" and "0 \<le> n" and "p + n \<le> int (length buf)"
  shows "\<exists>pe w'. parse_scalar 0x87 buf p n (MmsFloat e w b) = Some (pe, w') \<and> sound w'"
proof -
  have set: "\<exists>w'. MmsValue_setFloat (MmsFloat e w b) x = Some w' \<and> sound w'"
      "\<exists>w'. MmsValue_setDouble (MmsFloat e w b) y = Some w' \<and> sound w'" for x y
    using assms(1) by (auto simp: memcpy_def)
  consider "n = 9" | "n = 5" | "n \<noteq> 9" "n \<noteq> 5" by blast
  then show ?thesis
  proof cases
    case 1
    then obtain d where "BerDecoder_decodeDouble buf p = Some d"
      using rd_bytes_defined [of "p + 1" 8 buf] assms by (auto simp: BerDecoder_decodeDouble_def)
    then show ?thesis using 1 set(2) [of "word_of_object d"]
      by (auto simp: parse_scalar_def Let_def simp del: MmsValue_setDouble.simps)
  next
    case 2
    then obtain d where "BerDecoder_decodeFloat buf p = Some d"
      using rd_bytes_defined [of "p + 1" 4 buf] assms by (auto simp: BerDecoder_decodeFloat_def)
    then show ?thesis using 2 set(1) [of "word_of_object d"]
      by (auto simp: parse_scalar_def Let_def simp del: MmsValue_setFloat.simps)
  next
    case 3
    then show ?thesis using assms(1) by (simp add: parse_scalar_def Let_def)
  qed
qed

lemma octet_sound:
  assumes "nat \<bar>m\<bar> \<le> length b" and "0 \<le> p" and "0 \<le> n" and "p + n \<le> int (length buf)"
  shows "\<exists>pe w. parse_scalar 0x89 buf p n (MmsOctetString k m b) = Some (pe, w) \<and> sound w"
proof -
  obtain bs where bs: "rd_bytes buf p n = Some bs" "length bs = nat n" by (rule rd_bytes_ok [OF assms(2-4)])
  show ?thesis
  proof (cases "n \<le> \<bar>m\<bar>")
    case True
    then have "nat n \<le> length b" using assms(1) by linarith
    then obtain d where "memcpy b bs (nat n) = Some d" "length d = length b"
      using memcpy_defined [of "nat n" b bs] bs(2) by auto
    then show ?thesis using True bs(1) assms(1) by (simp add: parse_scalar_def)
  next
    case False
    then show ?thesis using bs assms(3) by (simp add: parse_scalar_def)
  qed
qed

lemma visible_sound:
  assumes "sound (MmsVisibleString b m)" and "0 \<le> p" and "0 \<le> n" and "p + n \<le> int (length buf)"
  shows "\<exists>pe w. parse_scalar 0x8a buf p n (MmsVisibleString b m) = Some (pe, w) \<and> sound w"
proof -
  obtain bs where bs: "rd_bytes buf p n = Some bs" "length bs = nat n" by (rule rd_bytes_ok [OF assms(2-4)])
  have "signed_take_bit 15 n < int (length (bs @ [0]))"
    using signed_take_bit_int_less_eq_self_iff [of 15 n] bs(2) assms(3) by simp
  then have new: "\<exists>w. createNewStringFromBufferElement buf p n = Some w \<and> sound w"
    using bs(1) by (simp add: createNewStringFromBufferElement_def)
  show ?thesis
  proof (cases "\<exists>a. b = Some a \<and> n \<le> m")
    case True
    then obtain a where a: "b = Some a" "n \<le> m" "nat n < length a" using assms(1,3) by auto
    then obtain d where d: "memcpy a bs (nat n) = Some d" "length d = length a"
      using memcpy_defined [of "nat n" a bs] bs(2) by auto
    moreover have "store d (nat n) 0 = Some (d[nat n := 0])" using a d by (simp add: store_def)
    ultimately show ?thesis using a bs(1) assms(1) by (simp add: parse_scalar_def)
  next
    case False
    then show ?thesis using new by (cases b) (auto simp: parse_scalar_def)
  qed
qed

lemma time_sound:
  assumes "0 \<le> p" and "0 \<le> n" and "p + n \<le> int (length buf)"
  shows "length b = 6 \<Longrightarrow> \<exists>pe w. parse_scalar 0x8c buf p n (MmsBinaryTime k b) = Some (pe, w) \<and> sound w"
    and "length t = 8 \<Longrightarrow> \<exists>pe w. parse_scalar 0x91 buf p n (MmsUtcTime t) = Some (pe, w) \<and> sound w"
proof -
  obtain bs where bs: "rd_bytes buf p n = Some bs" "length bs = nat n" by (rule rd_bytes_ok [OF assms])
  show "\<exists>pe w. parse_scalar 0x8c buf p n (MmsBinaryTime k b) = Some (pe, w) \<and> sound w" if "length b = 6"
    using bs that memcpy_defined [of "nat n" b bs] by (auto simp: parse_scalar_def)
  show "\<exists>pe w. parse_scalar 0x91 buf p n (MmsUtcTime t) = Some (pe, w) \<and> sound w" if "length t = 8"
  proof (cases "n = 8")
    case True
    then have "8 \<le> length (drop (nat p) buf)" using assms by simp
    then obtain d where "memcpy t (drop (nat p) buf) 8 = Some d" "length d = 8"
      using memcpy_defined [of 8 t "drop (nat p) buf"] \<open>length t = 8\<close> by auto
    then show ?thesis using True by (simp add: parse_scalar_def MmsValue_setUtcTimeByBuffer_def)
  next
    case False
    then show ?thesis using that by (simp add: parse_scalar_def Let_def)
  qed
qed

lemma parse_scalar_sound:
  assumes v: "sound v" and r: "0 \<le> p" "0 \<le> n" "p + n < int (length buf)"
  shows "\<exists>pe w. parse_scalar tag buf p n v = Some (pe, w) \<and> sound w"
proof -
  have le: "p + n \<le> int (length buf)" using r(3) by simp
  obtain b where b: "BerDecoder_decodeBoolean buf p = Some b"
    using rd_defined [of p buf] r by (auto simp: BerDecoder_decodeBoolean_def)
  note leaf = integer_sound [OF _ r(1,2) le] float_sound [OF _ r(1,2) le] octet_sound [OF _ r(1,2) le]
    visible_sound [OF _ r(1,2) le] time_sound [OF r(1,2) le]
  consider (bits) "tag = 0x84" | (int) "tag = 0x85 \<or> tag = 0x86" | (float) "tag = 0x87" | (octet) "tag = 0x89"
    | (str) "tag = 0x8a" | (bin) "tag = 0x8c" | (utc) "tag = 0x91" | (boole) "tag = 0x83"
    | (other) "tag \<notin> {0x83, 0x84, 0x85, 0x86, 0x87, 0x89, 0x8a, 0x8c, 0x91}" by blast
  then show ?thesis
  proof cases
    case bits
    then show ?thesis using v by (cases v) (simp_all add: parse_scalar_def Let_def)
  next
    case int
    then show ?thesis
    proof (cases v)
      case (MmsInteger i)
      then show ?thesis using int v leaf(1) [of i] by (auto simp: parse_scalar_def)
    next
      case (MmsUnsigned i)
      then show ?thesis using int v leaf(1) [of i] by (auto simp: parse_scalar_def)
    qed (use int v in \<open>auto simp: parse_scalar_def\<close>)
  next
    case float
    then show ?thesis
    proof (cases v)
      case (MmsFloat e w b)
      then show ?thesis using float v leaf(2) by simp
    qed (use float v in \<open>simp_all add: parse_scalar_def Let_def\<close>)
  next
    case octet
    then show ?thesis
    proof (cases v)
      case (MmsOctetString k m b)
      then show ?thesis using octet v leaf(3) by simp
    qed (use octet v in \<open>simp_all add: parse_scalar_def Let_def\<close>)
  next
    case str
    then show ?thesis
    proof (cases v)
      case (MmsVisibleString b m)
      then show ?thesis using str v leaf(4) by simp
    qed (use str v in \<open>simp_all add: parse_scalar_def Let_def\<close>)
  next
    case bin
    then show ?thesis
    proof (cases v)
      case (MmsBinaryTime k b)
      then show ?thesis using bin v leaf(5) by simp
    qed (use bin v in \<open>simp_all add: parse_scalar_def Let_def\<close>)
  next
    case utc
    then show ?thesis
    proof (cases v)
      case (MmsUtcTime t)
      then show ?thesis using utc v leaf(6) by simp
    qed (use utc v in \<open>simp_all add: parse_scalar_def Let_def\<close>)
  next
    case boole
    then show ?thesis using v b by (cases v) (simp_all add: parse_scalar_def Let_def)
  next
    case other
    then show ?thesis using v by (simp add: parse_scalar_def Let_def)
  qed
qed

lemma parse_elements_sound:
  "sound v \<Longrightarrow> 0 \<le> p \<Longrightarrow> 0 \<le> n \<Longrightarrow> p + n < int (length buf) \<Longrightarrow>
     \<exists>pe w. parse_element tag buf p n v = Some (pe, w) \<and> sound w"
  "sound_all ds \<Longrightarrow> 0 \<le> p \<Longrightarrow> m < int (length buf) \<Longrightarrow>
     \<exists>pe ws. parse_elements buf p m ds = Some (pe, ws) \<and> sound_all ws"
proof (induction tag buf p n v and buf p m ds rule: parse_element_parse_elements.induct)
  case (1 tag buf p n v)
  have sub: "\<exists>pe ws. parse_elements (drop (nat p) buf) 0 n cs = Some (pe, ws) \<and> sound_all ws"
    if "tag = 0xa1 \<and> v = MmsArray cs \<or> tag = 0xa2 \<and> v = MmsStructure cs" for cs
    using that "1.IH" "1.prems" by auto
  show ?case
  proof (cases "tag = 0xa1 \<or> tag = 0xa2")
    case True
    then show ?thesis
      using sub "1.prems"(1) by (cases v) (fastforce simp: parse_element.simps)+
  next
    case False
    then show ?thesis using parse_scalar_sound [OF "1.prems"] by (simp add: parse_element.simps)
  qed
next
  case (2 buf p m)
  then show ?case using rd_defined [of p buf] by auto
next
  case (3 buf p m es)
  then show ?case using rd_defined [of p buf] by auto
next
  case (4 buf p m v es)
  show ?case
  proof (cases "p < m")
    case False
    then show ?thesis using "4.prems" by simp
  next
    case True
    obtain tag where tag: "rd buf p = Some tag" using rd_defined [of p buf] True "4.prems" by auto
    obtain p' n where d: "BerDecoder_decodeLength buf 0 (p + 1) m = Some (p', n)"
      using decodeLength_defined [of "p + 1" m buf 0] "4.prems" by auto
    show ?thesis
    proof (cases "p' < 0")
      case True
      then show ?thesis using \<open>p < m\<close> tag d "4.prems"(1) by simp
    next
      case False
      then have r: "0 \<le> p'" "0 \<le> n" "p' + n \<le> m" using decodeLength_progress [OF d] by auto
      obtain pe w where w: "parse_element tag buf p' n v = Some (pe, w)" "sound w"
        using "4.IH"(1) [OF True tag d refl False] "4.prems" r by auto
      show ?thesis
      proof (cases "pe = GOOSE_PARSE_ERROR_NO_ERROR")
        case False
        then show ?thesis using \<open>p < m\<close> tag d \<open>\<not> p' < 0\<close> w "4.prems"(1) by simp
      next
        case nopb: True
        then obtain pe' ws where "parse_elements buf (p' + n) m es = Some (pe', ws)" "sound_all ws"
          using "4.IH"(2) [OF True tag d refl False w(1) refl] "4.prems" r by auto
        then show ?thesis using \<open>p < m\<close> tag d \<open>\<not> p' < 0\<close> w nopb by simp
      qed
    qed
  qed
qed

lemma parse_elements_errors:
  "parse_elements buf p m ds = Some (pe, ws) \<Longrightarrow> None \<notin> set ds \<Longrightarrow>
   pe = GOOSE_PARSE_ERROR_NO_ERROR \<or> pe = GOOSE_PARSE_ERROR_OVERFLOW \<or> pe = GOOSE_PARSE_ERROR_UNDERFLOW"
proof (induction ds arbitrary: p pe ws)
  case Nil
  then show ?case by (auto simp: after_loop_def Option.bind_eq_Some_conv split: if_splits)
next
  case (Cons d ds)
  then obtain v where "d = Some v" by (cases d) auto
  then show ?case
    using Cons by (auto simp: after_loop_def Option.bind_eq_Some_conv split: if_splits prod.splits)
qed

section \<open>Properties\<close>

text \<open>C10. Updating a data set: the octets that the publisher's loop of MmsValue_encodeMmsData writes for a data set are
  parsed into a data set that has room for its values without an error; the result is a data set for which the loop predicts
  the same size and writes the same octets, so it holds the values that were sent, and it still has room for every data set it
  had room for.\<close>

theorem update_roundtrip:
  assumes "goose_values es" and "dataset_ok es" and "dataset_encode es (buf, pos) = Some (buf', pos')" and "length buf < 2 ^ 23"
    and "accepts_all ds es"
  shows "\<exists>ws. parseAllData (drop pos buf') (int pos' - int pos) (MmsArray ds) = Some (GOOSE_PARSE_ERROR_NO_ERROR, MmsArray ws) \<and>
    dataset_size ws = dataset_size es \<and> dataset_encode ws = dataset_encode es \<and>
    (\<forall>xs. accepts_all ds xs \<longrightarrow> accepts_all ws xs)"
proof -
  have out: "int pos' - int pos = int (length (elements_bytes es))" "length (elements_bytes es) < 2 ^ 23"
      "\<exists>rest. drop pos buf' = elements_bytes es @ rest"
    using dataset_written [OF assms(2,3)] assms(4) by auto
  then obtain rest where rest: "drop pos buf' = elements_bytes es @ rest" by blast
  from parseAllData_updates [OF assms(1,5) out(2), of rest]
  obtain ws where ws: "parseAllData (drop pos buf') (int pos' - int pos) (MmsArray ds) = Some (GOOSE_PARSE_ERROR_NO_ERROR, MmsArray ws)"
      "same_encodings es ws" "\<forall>xs. accepts_all ds xs \<longrightarrow> accepts_all ws xs"
    unfolding out(1) rest by blast
  have "elements_ok es" using dataset_elements_ok assms(1,2) by simp
  then have "dataset_ok ws" using ws(2) elements_dataset_ok by blast
  then show ?thesis using ws dataset_encodes [OF assms(2)] dataset_encodes [of ws] by (intro exI [of _ ws]) simp
qed

theorem update_roundtrip_witness:
  "\<exists>buf' ws. dataset_encode [Some (MmsBoolean True), Some (MmsBitString 2 [0x40])] (replicate 9 0, 1) = Some (buf', 8) \<and>
    parseAllData (drop 1 buf') 7 (MmsArray [Some (MmsBoolean False), Some (MmsBitString 2 [0x80])])
      = Some (GOOSE_PARSE_ERROR_NO_ERROR, MmsArray ws) \<and>
    dataset_encode ws = dataset_encode [Some (MmsBoolean True), Some (MmsBitString 2 [0x40])]"
proof -
  let ?es = "[Some (MmsBoolean True), Some (MmsBitString 2 [0x40])]" and ?ds = "[Some (MmsBoolean False), Some (MmsBitString 2 [0x80])]"
  have ok: "goose_values ?es" "dataset_ok ?es" "accepts_all ?ds ?es"
    by (simp_all add: bit_byte_size_def accepts_scalar_def bit_size_ok_def)
  have "elements_bytes ?es = [0x83, 1, 1, 0x84, 2, 6, 0x40]"
    by (simp add: bit_string_bytes_def bit_content_def bit_byte_size_def length_bytes_def padding_mask_def Let_def upt_rec)
  then have e: "dataset_encode ?es (replicate 9 0, 1) = Some (take 1 (replicate 9 0) @ [0x83, 1, 1, 0x84, 2, 6, 0x40] @ drop 8 (replicate 9 0), 8)"
    using dataset_encodes(2) [OF ok(2)] put_bytes_exact [of 1 "elements_bytes ?es" "replicate 9 0"] by (simp del: elements_bytes.simps)
  have "int 8 - int 1 = 7" by simp
  from update_roundtrip [OF ok(1,2) e _ ok(3), unfolded this]
  obtain ws where "parseAllData (drop 1 (take 1 (replicate 9 0) @ [0x83, 1, 1, 0x84, 2, 6, 0x40] @ drop 8 (replicate 9 0))) 7 (MmsArray ?ds)
      = Some (GOOSE_PARSE_ERROR_NO_ERROR, MmsArray ws)" "dataset_encode ws = dataset_encode ?es" by auto
  then show ?thesis using e by blast
qed

text \<open>C21. Safety on arbitrary messages: whatever octets arrive, parsing them into a data set without bit strings returns, stays
  inside the buffers of the values, leaves the data set sound and reads at most one octet behind the message. The one octet can
  be needed: the content of a Boolean is read without a look at its length, so one of no octets at the end of a message is read
  behind the message, and outside the buffer when the buffer ends there.\<close>

theorem update_safe:
  assumes "sound_all ds" and "allDataLength < int (length buf)"
  shows "(\<exists>pe ws. parseAllData buf allDataLength (MmsArray ds) = Some (pe, MmsArray ws) \<and> sound_all ws) \<and>
    parseAllData [0x83, 0] 2 (MmsArray (Some (MmsBoolean b) # ds)) = None"
proof
  show "\<exists>pe ws. parseAllData buf allDataLength (MmsArray ds) = Some (pe, MmsArray ws) \<and> sound_all ws"
    using parse_elements_sound(2) [OF assms(1) _ assms(2), of 0] by (auto simp: parseAllData_def)
  have "rd [0x83, 0 :: byte] 0 = Some 0x83" "BerDecoder_decodeLength [0x83, 0] 0 1 2 = Some (2, 0)" "rd [0x83, 0 :: byte] 2 = None"
    by code_simp+
  then show "parseAllData [0x83, 0] 2 (MmsArray (Some (MmsBoolean b) # ds)) = None"
    by (simp add: parseAllData_def parse_element.simps parse_scalar_def BerDecoder_decodeBoolean_def)
qed

theorem update_safe_witness:
  "\<exists>pe ws. parseAllData [0x85, 0x09, 1, 2, 3, 4, 5, 6, 7, 8, 9, 0] 11
      (MmsArray [Some (MmsInteger BerInteger_createInt32)]) = Some (pe, MmsArray ws) \<and> sound_all ws"
  using update_safe [of "[Some (MmsInteger BerInteger_createInt32)]" 11 "[0x85, 0x09, 1, 2, 3, 4, 5, 6, 7, 8, 9, 0]"]
  by (simp add: BerInteger_createInt32_def Asn1PrimitiveValue_create_def)



text \<open>C28. Of the errors of the enumeration only overflow and underflow are ever reported for a
  data set without missing elements: any other error is replaced by underflow.\<close>

theorem reported_errors:
  assumes "parseAllData buf allDataLength (MmsArray ds) = Some (pe, w)" and "None \<notin> set ds"
  shows "pe = GOOSE_PARSE_ERROR_NO_ERROR \<or> pe = GOOSE_PARSE_ERROR_OVERFLOW \<or>
    pe = GOOSE_PARSE_ERROR_UNDERFLOW"
  using assms parse_elements_errors [of buf 0 allDataLength ds] by (auto simp: parseAllData_def)

theorem reported_errors_witness:
  "\<exists>pe w. parseAllData [0x85, 1, 7] 3 (MmsArray [Some (MmsBoolean True)]) = Some (pe, w) \<and>
    (pe = GOOSE_PARSE_ERROR_NO_ERROR \<or> pe = GOOSE_PARSE_ERROR_OVERFLOW \<or> pe = GOOSE_PARSE_ERROR_UNDERFLOW)"
proof -
  have "parseAllData [0x85, 1, 7] 3 (MmsArray [Some (MmsBoolean True)])
      = Some (GOOSE_PARSE_ERROR_UNDERFLOW, MmsArray [Some (MmsBoolean True)])"
    by code_simp
  with reported_errors [OF this] show ?thesis by auto
qed

end
