(* ===== verification/Goose_Link.thy ===== *)
theory Goose_Link
  imports Goose_Publisher Goose_Update
begin

text \<open>
  From publisher to subscriber: the APDU that \<open>createGoosePayload\<close> writes, read by
  \<open>parseGoosePayload\<close>, and the frame that \<open>publish\<close> hands to the network, read by
  \<open>parseGooseMessage\<close>.
\<close>

section \<open>The APDU parser on a sequence of elements\<close>

lemma store_string_shift:
  "store_string field (pre @ s) (int (length pre)) n = store_string field s 0 n"
  by (simp add: store_string_def shift0)

lemma find_subscriber_shift:
  "find_subscriber (pre @ s) (int (length pre)) n subs = find_subscriber s 0 n subs"
proof (induction subs)
  case (Cons a subs)
  show ?case unfolding find_subscriber.simps Cons.IH store_string_shift shift0 ..
qed simp

lemma goose_element_shift:
  "goose_element tag (pre @ s) (int (length pre)) n l subs = goose_element tag s 0 n l subs"
  unfolding goose_element_def find_subscriber_shift update_string_def store_string_shift shift0
    BerDecoder_decodeUint32_def BerDecoder_decodeBoolean_def by simp

text \<open>What the loop does with a sequence of elements; \<open>rest\<close> is what follows them.\<close>

fun run_tlvs ::
    "(byte \<times> byte list) list \<Rightarrow> byte list \<Rightarrow> goose_locals \<Rightarrow> GooseSubscriber list \<Rightarrow>
     (goose_locals option \<times> GooseSubscriber list) option" where
  "run_tlvs [] rest l subs = Some (Some l, subs)"
| "run_tlvs ((t, c) # ts) rest l subs = do {
     (r, subs) \<leftarrow> goose_element t (c @ tlvs ts @ rest) 0 (int (length c)) l subs;
     (case r of None \<Rightarrow> Some (None, subs) | Some l \<Rightarrow> run_tlvs ts rest l subs) }"

lemma goose_loop_run:
  assumes "\<forall>(t, c) \<in> set ts. length c < 65535"
    and "buf = pre @ tlvs ts @ rest" and "p = int (length pre)"
    and "e = p + int (length (tlvs ts))" and "e \<le> m" and "m < 2 ^ 23"
  shows "goose_loop buf p e m l subs = run_tlvs ts rest l subs"
  using assms
proof (induction ts arbitrary: pre p l subs)
  case Nil
  then show ?case by (simp add: goose_loop.simps)
next
  case (Cons tc ts)
  obtain t c where tc: "tc = (t, c)" by (cases tc)
  have buf: "buf = pre @ octet_bytes t c @ (tlvs ts @ rest)" using Cons.prems(2) by (simp add: tc)
  have c: "length c < 65535" using Cons.prems(1) by (simp add: tc)
  have le: "p + int (length (octet_bytes t c)) \<le> m" using Cons.prems(4,5) by (simp add: tc)
  obtain pre' where pre': "buf = pre' @ c @ tlvs ts @ rest" "rd buf p = Some t"
      "BerDecoder_decodeLength buf 0 (p + 1) m = Some (int (length pre'), int (length c))"
      "int (length pre') + int (length c) = p + int (length (octet_bytes t c))"
    using tlv_decode [OF buf Cons.prems(3) c le Cons.prems(6), where l = 0] by blast
  have IH: "goose_loop buf (int (length pre') + int (length c)) e m l' subs' = run_tlvs ts rest l' subs'"
    for l' subs'
    by (rule Cons.IH [of "pre' @ c"]) (use Cons.prems pre' in \<open>auto simp: tc\<close>)
  have "p < e" using Cons.prems(4) by (simp add: tc octet_bytes_def)
  moreover have "goose_element t buf (int (length pre')) (int (length c)) l subs
      = goose_element t (c @ tlvs ts @ rest) 0 (int (length c)) l subs"
    unfolding pre'(1) by (rule goose_element_shift)
  ultimately show ?case
    using pre'(2,3) IH
    by (subst goose_loop.simps) (simp add: tc cong: option.case_cong)
qed

section \<open>The elements the publisher writes\<close>

definition goose_tlvs :: "GoosePublisher \<Rightarrow> MmsValue option list \<Rightarrow> (byte \<times> byte list) list" where
  "goose_tlvs self ds =
     [(0x80, str_content (gp_goCBRef self)), (0x81, uint32_content (gp_timeAllowedToLive self)),
      (0x82, str_content (gp_dataSetRef self)), (0x83, str_content (goose_id self)),
      (0x84, utc_content self), (0x85, uint32_content (gp_stNum self)),
      (0x86, uint32_content (gp_sqNum self)), (0x87, [if gp_simulation self then 1 else 0]),
      (0x88, uint32_content (gp_confRev self)), (0x89, [if gp_needsCommission self then 1 else 0]),
      (0x8a, uint32_content (of_nat (length ds))), (0xab, elements_bytes ds)]"

lemma goose_fields_tlvs: "goose_fields self ds = tlvs (goose_tlvs self ds)"
  by (simp add: goose_fields_def goose_tlvs_def uint32_bytes_octet string_bytes_def octet_bytes_def
      length_bytes_def)

lemma goose_tlvs_short:
  assumes "gp_ok self" and "length (elements_bytes ds) < 65535"
  shows "\<forall>(t, c) \<in> set (goose_tlvs self ds). length c < 65535"
proof -
  have "length (uint32_content v) < 65535" for v using uint32_content_bounds [of v] by simp
  then show ?thesis
    using assms gp_ok_strings [OF assms(1), THEN str_content_less]
    by (auto simp: goose_tlvs_def gp_ok_def)
qed

text \<open>A fixed-size string field after a string was stored in it.\<close>

definition c_field :: "byte list \<Rightarrow> byte list \<Rightarrow> byte list" where
  "c_field old s = s @ 0 # drop (Suc (length s)) old"

lemma store_string_field:
  "length s < length old \<Longrightarrow> store_string old (s @ x) 0 (int (length s)) = Some (c_field old s)"
proof -
  assume len: "length s < length old"
  have "memcpy old s (length s) = Some (s @ drop (length s) old)"
    using len by (simp add: memcpy_def)
  moreover have "store (s @ drop (length s) old) (length s) 0 = Some (c_field old s)"
    using len by (simp add: store_def c_field_def list_update_append Cons_nth_drop_Suc [symmetric])
  ultimately show ?thesis
    using rd_bytes_content [of 0 "[]" "int (length s)" s x] by (simp add: store_string_def)
qed

lemma decodeUint32_at_0:
  "BerDecoder_decodeUint32 (uint32_content v @ x) (int (length (uint32_content v))) 0 = Some v"
  using decodeUint32_content [of 0 "[]" v x] by simp

lemma decodeBoolean_at_0:
  "BerDecoder_decodeBoolean ((if b then 1 else 0) # x) 0 = Some b"
  using decodeBoolean_content [of 0 "[]" "if b then 1 else 0" x] by simp

text \<open>The local variables after the loop.\<close>

definition sent_locals ::
    "GoosePublisher \<Rightarrow> MmsValue option list \<Rightarrow> nat \<Rightarrow> byte list \<Rightarrow> byte list \<Rightarrow> goose_locals" where
  "sent_locals self ds i ts rest = \<lparr>
     gl_timeAllowedToLive = gp_timeAllowedToLive self, gl_stNum = gp_stNum self,
     gl_sqNum = gp_sqNum self, gl_confRev = gp_confRev self, gl_simulation = gp_simulation self,
     gl_ndsCom = gp_needsCommission self, gl_matchingSubscriber = Some i,
     gl_timestampBufPos = Some (utc_content self @ ts),
     gl_dataSetBufferAddress = Some (elements_bytes ds @ rest),
     gl_dataSetBufferLength = int (length (elements_bytes ds)),
     gl_numberOfDatSetEntries = of_nat (length ds)\<rparr>"

definition named :: "GoosePublisher \<Rightarrow> GooseSubscriber \<Rightarrow> GooseSubscriber" where
  "named self s = s\<lparr>gs_datSet := c_field (gs_datSet s) (str_content (gp_dataSetRef self)),
                     gs_goId := c_field (gs_goId s) (str_content (goose_id self))\<rparr>"

lemma run_goose_tlvs:
  assumes find: "\<And>x. find_subscriber (str_content (gp_goCBRef self) @ x) 0
      (int (length (str_content (gp_goCBRef self)))) subs = Some (subs', Some i)"
    and i: "i < length subs'" "gs_ok (subs' ! i)"
    and len: "length (str_content (gp_dataSetRef self)) \<le> 129" "length (str_content (goose_id self)) \<le> 129"
  shows "\<exists>ts. run_tlvs (goose_tlvs self ds) rest init_locals subs
      = Some (Some (sent_locals self ds i ts rest), subs'[i := named self (subs' ! i)])"
proof -
  have strs: "store_string (gs_datSet (subs' ! i)) (str_content (gp_dataSetRef self) @ x) 0
        (int (length (str_content (gp_dataSetRef self))))
        = Some (c_field (gs_datSet (subs' ! i)) (str_content (gp_dataSetRef self)))"
      "store_string (gs_goId (subs' ! i)) (str_content (goose_id self) @ x) 0
        (int (length (str_content (goose_id self))))
        = Some (c_field (gs_goId (subs' ! i)) (str_content (goose_id self)))" for x
    using i(2) len by (auto simp: gs_ok_def intro!: store_string_field)
  show ?thesis
    using i(1) len
    by (simp add: goose_tlvs_def goose_element_def find decodeUint32_at_0 decodeBoolean_at_0
        update_string_def strs init_locals_def sent_locals_def named_def)
qed

section \<open>Delivery\<close>

text \<open>The subscriber a control block reference selects: the first one that matches.\<close>

definition gs_matches :: "byte list \<Rightarrow> GooseSubscriber \<Rightarrow> bool" where
  "gs_matches ref s \<longleftrightarrow> gs_goCBRefLen s = int (length ref) \<and> take (length ref) (gs_goCBRef s) = ref"

definition selects :: "byte list \<Rightarrow> GooseSubscriber list \<Rightarrow> nat \<Rightarrow> bool" where
  "selects ref subs i \<longleftrightarrow> i < length subs \<and> length ref \<le> 129 \<and>
     list_all (\<lambda>s. gs_ok s \<and> \<not> gs_isObserver s) subs \<and> gs_matches ref (subs ! i) \<and>
     list_all (\<lambda>s. \<not> gs_matches ref s) (take i subs)"

lemma find_subscriber_selects:
  "selects ref subs i \<Longrightarrow> find_subscriber (ref @ x) 0 (int (length ref)) subs = Some (subs, Some i)"
proof (induction subs arbitrary: i)
  case Nil
  then show ?case by (simp add: selects_def)
next
  case (Cons s subs)
  have s: "gs_ok s" "\<not> gs_isObserver s" "length ref \<le> 129" using Cons.prems by (auto simp: selects_def)
  have rds: "rd_bytes (gs_goCBRef s) 0 (int (length ref)) = Some (take (length ref) (gs_goCBRef s))"
      "rd_bytes (ref @ x) 0 (int (length ref)) = Some ref"
    using s rd_bytes_content [of 0 "[]" "int (length ref)" ref x]
    by (auto simp: gs_ok_def rd_bytes_def)
  show ?case
  proof (cases i)
    case 0
    then show ?thesis using Cons.prems s rds by (simp add: selects_def gs_matches_def)
  next
    case (Suc k)
    then have "selects ref subs k" "\<not> gs_matches ref s" using Cons.prems by (auto simp: selects_def)
    then show ?thesis using Cons.IH [of k] s rds Suc by (auto simp: gs_matches_def Let_def)
  qed
qed

text \<open>What a delivery leaves in the subscriber, beside the data set.\<close>

definition delivered :: "uint64 \<Rightarrow> GoosePublisher \<Rightarrow> GooseSubscriber \<Rightarrow> GooseSubscriber \<Rightarrow> bool" where
  "delivered now self s s' \<longleftrightarrow>
     gs_stNum s' = gp_stNum self \<and> gs_sqNum s' = gp_sqNum self \<and>
     gs_confRev s' = gp_confRev self \<and> gs_ndsCom s' = gp_needsCommission self \<and>
     gs_simulation s' = gp_simulation self \<and>
     gs_timeAllowedToLive s' = gp_timeAllowedToLive self \<and>
     gs_timestamp s' = MmsUtcTime (utc_content self) \<and>
     gs_invalidityTime s' = now + ucast (gp_timeAllowedToLive self) \<and>
     takeWhile (\<lambda>b. b \<noteq> 0) (gs_datSet s') = str_content (gp_dataSetRef self) \<and>
     takeWhile (\<lambda>b. b \<noteq> 0) (gs_goId s') = str_content (goose_id self) \<and>
     gs_goCBRef s' = gs_goCBRef s \<and> gs_goCBRefLen s' = gs_goCBRefLen s \<and> gs_ok s'"

definition repeated :: "GoosePublisher \<Rightarrow> GooseSubscriber \<Rightarrow> bool" where
  "repeated self s \<longleftrightarrow> gs_stNum s = gp_stNum self \<and> gp_sqNum self \<le> gs_sqNum s"

lemma str_content_no_nul: "0 \<notin> set (str_content b)"
  by (cases b) (auto dest: set_takeWhileD)

lemma takeWhile_c_field: "0 \<notin> set s \<Longrightarrow> takeWhile (\<lambda>b. b \<noteq> 0) (c_field old s) = s"
proof -
  have "takeWhile (\<lambda>b. b \<noteq> 0) (s @ 0 # x) = s" if "0 \<notin> set s" for x :: "byte list"
    using that by (induction s) auto
  then show "0 \<notin> set s \<Longrightarrow> ?thesis" by (simp add: c_field_def)
qed

text \<open>
  A subscriber is ready for a data set when it has none, when a change of the configuration revision
  makes it drop the one it has allocated, or when the one it has has room for the values.
\<close>

definition drops :: "GoosePublisher \<Rightarrow> GooseSubscriber \<Rightarrow> bool" where
  "drops self s \<longleftrightarrow> gs_dataSetValuesSelfAllocated s \<and> gs_confRev s \<noteq> gp_confRev self"

definition ready :: "GoosePublisher \<Rightarrow> MmsValue option list \<Rightarrow> GooseSubscriber \<Rightarrow> bool" where
  "ready self ds s \<longleftrightarrow>
     (case gs_dataSetValues s of
        None \<Rightarrow> True
      | Some d \<Rightarrow> drops self s \<or> (case d of MmsArray dst \<Rightarrow> accepts_all dst ds | _ \<Rightarrow> False))"

text \<open>The data set of a subscriber: the values have the same encoding as the ones sent, a data
  set that was updated in place has the room it had, and a new one is the one the message builds.\<close>

definition built_from :: "MmsValue option list \<Rightarrow> MmsValue option list \<Rightarrow> bool" where
  "built_from ds ws \<longleftrightarrow> (\<exists>rest. parseAllDataUnknownValue (elements_bytes ds @ rest)
     (int (length (elements_bytes ds))) False = Some (True, Some (MmsArray ws)))"

definition holds_data :: "GoosePublisher \<Rightarrow> MmsValue option list \<Rightarrow> GooseSubscriber \<Rightarrow> GooseSubscriber \<Rightarrow> bool" where
  "holds_data self ds s s' \<longleftrightarrow>
     (\<exists>ws. gs_dataSetValues s' = Some (MmsArray ws) \<and> elements_bytes ws = elements_bytes ds \<and>
        (\<forall>dst. gs_dataSetValues s = Some (MmsArray dst) \<longrightarrow> \<not> drops self s \<longrightarrow>
           (\<forall>xs. accepts_all dst xs \<longrightarrow> accepts_all ws xs)) \<and>
        (gs_dataSetValues s = None \<or> drops self s \<longrightarrow> built_from ds ws))"

lemma deliver_dataset_ready:
  assumes ds: "goose_values ds" "length (elements_bytes ds) < 65535"
    and l: "gl_dataSetBufferAddress l = Some (elements_bytes ds @ rest)"
      "gl_dataSetBufferLength l = int (length (elements_bytes ds))"
    and s: "gs_dataSetValues s = None \<or> (\<exists>dst. gs_dataSetValues s = Some (MmsArray dst) \<and> accepts_all dst ds)"
  obtains s' ws pe sa where "deliver_dataset l s = Some (True, s')"
    and "s' = s\<lparr>gs_dataSetValues := Some (MmsArray ws), gs_dataSetValuesSelfAllocated := sa,
      gs_parseError := pe\<rparr>" and "elements_bytes ws = elements_bytes ds"
    and "\<forall>dst xs. gs_dataSetValues s = Some (MmsArray dst) \<longrightarrow> accepts_all dst xs \<longrightarrow> accepts_all ws xs"
    and "gs_dataSetValues s \<noteq> None \<longrightarrow> sa = gs_dataSetValuesSelfAllocated s"
    and "gs_dataSetValues s = None \<longrightarrow> sa" and "gs_dataSetValues s = None \<longrightarrow> built_from ds ws"
proof (cases "gs_dataSetValues s")
  case None
  obtain ws where "parseAllDataUnknownValue (elements_bytes ds @ rest)
        (int (length (elements_bytes ds))) False = Some (True, Some (MmsArray ws))"
      "elements_bytes ws = elements_bytes ds"
    using parse_rebuilds [OF rebuilds_all(2) [OF ds(1)] ds(1), of rest False] ds(2) by auto
  then show thesis
    using that [of _ "gs_parseError s" True ws] None l by (auto simp: deliver_dataset_def built_from_def)
next
  case (Some d)
  then obtain dst where dst: "gs_dataSetValues s = Some (MmsArray dst)" "accepts_all dst ds" using s by auto
  have "length (elements_bytes ds) < 2 ^ 23" using ds(2) by simp
  from parseAllData_updates [OF ds(1) dst(2) this]
  obtain ws where "parseAllData (elements_bytes ds @ rest) (int (length (elements_bytes ds))) (MmsArray dst)
        = Some (GOOSE_PARSE_ERROR_NO_ERROR, MmsArray ws)" "elements_bytes ws = elements_bytes ds"
      "\<forall>xs. accepts_all dst xs \<longrightarrow> accepts_all ws xs"
    by metis
  then show thesis
    using that [of _ GOOSE_PARSE_ERROR_NO_ERROR "gs_dataSetValuesSelfAllocated s" ws] dst(1) l
    by (simp add: deliver_dataset_def)
qed

text \<open>The delivery of what the publisher sent.\<close>

lemma deliver_sent:
  assumes ok: "gs_ok s" "\<not> gs_isObserver s" "ready self ds s"
    and len: "length (str_content (gp_dataSetRef self)) \<le> 129" "length (str_content (goose_id self)) \<le> 129"
    and ds: "goose_values ds" "length (elements_bytes ds) < 65535" and pub: "gp_ok self"
  obtains s' where "deliver now (sent_locals self ds i ts rest) (named self s) = Some s'"
    and "delivered now self s s'" and "holds_data self ds s s'"
    and "gs_stateValid s' \<longleftrightarrow> \<not> repeated self s" and "gs_listener s' = gs_listener s"
    and "gs_isObserver s' = gs_isObserver s"
    and "gs_dataSetValues s \<noteq> None \<Longrightarrow> gs_dataSetValuesSelfAllocated s' \<longleftrightarrow> gs_dataSetValuesSelfAllocated s"
proof -
  define l where "l = sent_locals self ds i ts rest"
  obtain t where t: "gs_timestamp s = MmsUtcTime t" "length t = 8"
    using ok(1) by (cases "gs_timestamp s") (auto simp: gs_ok_def)
  have u: "length (utc_content self) = 8" using pub by (simp add: gp_ok_def)
  have upd: "MmsValue_setUtcTimeByBuffer (MmsUtcTime t) (Some (utc_content self @ ts))
      = Some (MmsUtcTime (utc_content self))"
    using t u by (simp add: MmsValue_setUtcTimeByBuffer_def memcpy_def)
  define base where "base = (named self s)\<lparr>gs_timeAllowedToLive := gp_timeAllowedToLive self,
      gs_ndsCom := gp_needsCommission self, gs_simulation := gp_simulation self\<rparr>"
  define s0 where "s0 = (if drops self s \<and> gs_dataSetValues s \<noteq> None then base\<lparr>gs_dataSetValues := None\<rparr>
      else base)\<lparr>gs_confRev := gp_confRev self, gs_timestamp := MmsUtcTime (utc_content self)\<rparr>"
  have s0_data: "gs_dataSetValues s0 = (if drops self s then None else gs_dataSetValues s)"
    by (simp add: s0_def base_def named_def)
  have l: "gl_dataSetBufferAddress l = Some (elements_bytes ds @ rest)"
      "gl_dataSetBufferLength l = int (length (elements_bytes ds))"
      "gl_timeAllowedToLive l = gp_timeAllowedToLive self" "gl_ndsCom l = gp_needsCommission self"
      "gl_simulation l = gp_simulation self" "gl_confRev l = gp_confRev self"
      "gl_timestampBufPos l = Some (utc_content self @ ts)" "gl_stNum l = gp_stNum self"
      "gl_sqNum l = gp_sqNum self"
    by (simp_all add: l_def sent_locals_def)
  have s0: "gs_dataSetValues s0 = None \<or>
      (\<exists>dst. gs_dataSetValues s0 = Some (MmsArray dst) \<and> accepts_all dst ds)"
    using ok(3) by (auto simp: s0_data ready_def split: option.splits MmsValue.splits)
  obtain s1 ws pe sa where s1: "deliver_dataset l s0 = Some (True, s1)"
      "s1 = s0\<lparr>gs_dataSetValues := Some (MmsArray ws), gs_dataSetValuesSelfAllocated := sa,
        gs_parseError := pe\<rparr>" "elements_bytes ws = elements_bytes ds"
      "\<forall>dst xs. gs_dataSetValues s0 = Some (MmsArray dst) \<longrightarrow> accepts_all dst xs \<longrightarrow> accepts_all ws xs"
      "gs_dataSetValues s0 \<noteq> None \<longrightarrow> sa = gs_dataSetValuesSelfAllocated s0"
      "gs_dataSetValues s0 = None \<longrightarrow> sa" "gs_dataSetValues s0 = None \<longrightarrow> built_from ds ws"
    by (rule deliver_dataset_ready [OF ds l(1,2) s0])
  define s' where "s' = s1\<lparr>gs_stateValid := \<not> repeated self s, gs_stNum := gp_stNum self,
      gs_sqNum := gp_sqNum self, gs_invalidityTime := now + ucast (gp_timeAllowedToLive self)\<rparr>"
  have old: "gs_stNum s1 = gs_stNum s" "gs_sqNum s1 = gs_sqNum s"
    unfolding s1(2) by (simp_all add: s0_def base_def named_def)
  have flen: "length (c_field old x) = 130" if "length old = 130" "length x \<le> 129" for old x
    using that by (simp add: c_field_def)
  have strs: "takeWhile (\<lambda>b. b \<noteq> 0) (c_field old (str_content b)) = str_content b" for old b
    by (rule takeWhile_c_field [OF str_content_no_nul])
  show thesis
  proof
    show "deliver now (sent_locals self ds i ts rest) (named self s) = Some s'"
    proof -
      have "deliver now l (named self s) = do {
          (isValid, s) \<leftarrow> deliver_dataset l s0;
          let isValid = (if gs_stNum s = gl_stNum l \<and> gl_sqNum l \<le> gs_sqNum s then False else isValid);
          Some (s\<lparr>gs_stateValid := isValid, gs_stNum := gl_stNum l, gs_sqNum := gl_sqNum l,
             gs_invalidityTime := now + ucast (gl_timeAllowedToLive l)\<rparr>) }"
        using ok(2) t(1) upd
        by (cases "gs_dataSetValues s")
          (simp_all add: deliver_def Let_def l s0_def base_def drops_def named_def cong: if_cong)
      then show ?thesis
        unfolding l_def [symmetric] s'_def using s1(1) old l by (simp add: Let_def repeated_def)
    qed
    show "delivered now self s s'"
      using ok(1) u flen len unfolding s'_def s1(2) s0_def
      by (simp add: delivered_def base_def named_def strs gs_ok_def)
    show "holds_data self ds s s'"
      using s1(3,4,7) unfolding s'_def s1(2) holds_data_def by (auto simp: s0_data)
    show "gs_stateValid s' \<longleftrightarrow> \<not> repeated self s" by (simp add: s'_def)
    show "gs_listener s' = gs_listener s" "gs_isObserver s' = gs_isObserver s"
      unfolding s'_def s1(2) s0_def by (simp_all add: base_def named_def)
    show "gs_dataSetValuesSelfAllocated s' \<longleftrightarrow> gs_dataSetValuesSelfAllocated s"
      if "gs_dataSetValues s \<noteq> None"
      using that s1(5,6) unfolding s'_def s1(2) s0_data
      by (cases "drops self s") (auto simp: s0_def base_def named_def drops_def)
  qed
qed

text \<open>The whole APDU.\<close>

lemma apdu_loop:
  assumes pub: "gp_ok self" and ds: "length (elements_bytes ds) < 65535"
    and sel: "selects (str_content (gp_goCBRef self)) subs i"
    and len: "length (str_content (gp_dataSetRef self)) \<le> 129" "length (str_content (goose_id self)) \<le> 129"
    and fits: "length (goose_fields self ds) < 65535"
  obtains p ts where "rd (goose_apdu self ds @ rest) 0 = Some 0x61"
    and "BerDecoder_decodeLength (goose_apdu self ds @ rest) 0 1 (int (length (goose_apdu self ds)))
      = Some (p, int (length (goose_fields self ds)))" and "0 \<le> p"
    and "goose_loop (goose_apdu self ds @ rest) p (p + int (length (goose_fields self ds)))
        (int (length (goose_apdu self ds))) init_locals subs
      = Some (Some (sent_locals self ds i ts rest), subs[i := named self (subs ! i)])"
proof -
  let ?b = "goose_apdu self ds @ rest"
  let ?m = "int (length (goose_apdu self ds))"
  have m: "?m < 2 ^ 23"
    using fits length_octet_bytes_le [of "0x61" "goose_fields self ds"] by (simp add: goose_apdu_def)
  have buf: "?b = [] @ octet_bytes 0x61 (goose_fields self ds) @ rest" by (simp add: goose_apdu_def)
  have zero: "(0 :: int) = int (length ([] :: byte list))" by simp
  have le: "0 + int (length (octet_bytes 0x61 (goose_fields self ds))) \<le> ?m" by (simp add: goose_apdu_def)
  obtain pre' where dec: "?b = pre' @ goose_fields self ds @ rest" "rd ?b 0 = Some 0x61"
      "BerDecoder_decodeLength ?b 0 (0 + 1) ?m = Some (int (length pre'), int (length (goose_fields self ds)))"
      "int (length pre') + int (length (goose_fields self ds))
        = 0 + int (length (octet_bytes 0x61 (goose_fields self ds)))"
    by (rule tlv_decode [OF buf zero fits le m, where l = 0])
  have at1: "BerDecoder_decodeLength ?b 0 1 ?m
      = Some (int (length pre'), int (length (goose_fields self ds)))"
    using dec(3) by simp
  have total: "int (length pre') + int (length (goose_fields self ds)) = ?m"
    using dec(4) by (simp add: goose_apdu_def)
  have i: "i < length subs" "gs_ok (subs ! i)"
    using sel by (auto simp: selects_def list_all_length)
  obtain ts where "run_tlvs (goose_tlvs self ds) rest init_locals subs
      = Some (Some (sent_locals self ds i ts rest), subs[i := named self (subs ! i)])"
    using run_goose_tlvs [OF find_subscriber_selects [OF sel] i len] by blast
  moreover have "goose_loop ?b (int (length pre')) (int (length pre') + int (length (goose_fields self ds)))
      ?m init_locals subs = run_tlvs (goose_tlvs self ds) rest init_locals subs"
    by (rule goose_loop_run [OF goose_tlvs_short [OF pub ds] dec(1) [unfolded goose_fields_tlvs] refl])
      (use total m in \<open>simp_all add: goose_fields_tlvs\<close>)
  ultimately show thesis
    by (intro that [of "int (length pre')" ts, OF dec(2) at1]) simp_all
qed

lemma apdu_delivered:
  assumes pub: "gp_ok self" and ds: "goose_values ds"
    and sel: "selects (str_content (gp_goCBRef self)) subs i"
    and rdy: "ready self ds (subs ! i)"
    and len: "length (str_content (gp_dataSetRef self)) \<le> 129" "length (str_content (goose_id self)) \<le> 129"
    and fits: "length (goose_fields self ds) < 65535"
  obtains s' where "parseGoosePayload now subs (goose_apdu self ds @ rest) (int (length (goose_apdu self ds)))
      = Some (1, subs[i := s'], if gs_listener (subs ! i) then Some i else None)"
    and "delivered now self (subs ! i) s'" and "holds_data self ds (subs ! i) s'"
    and "gs_stateValid s' \<longleftrightarrow> \<not> repeated self (subs ! i)" and "gs_listener s' = gs_listener (subs ! i)"
    and "gs_isObserver s' = gs_isObserver (subs ! i)"
    and "gs_dataSetValues (subs ! i) \<noteq> None \<longrightarrow>
      gs_dataSetValuesSelfAllocated s' = gs_dataSetValuesSelfAllocated (subs ! i)"
proof -
  have "length (elements_bytes ds) \<le> length (goose_fields self ds)"
    by (simp add: goose_fields_def octet_bytes_def)
  then have dl: "length (elements_bytes ds) < 65535" using fits by simp
  obtain p ts where p: "rd (goose_apdu self ds @ rest) 0 = Some 0x61"
      "BerDecoder_decodeLength (goose_apdu self ds @ rest) 0 1 (int (length (goose_apdu self ds)))
        = Some (p, int (length (goose_fields self ds)))" "0 \<le> p"
      "goose_loop (goose_apdu self ds @ rest) p (p + int (length (goose_fields self ds)))
        (int (length (goose_apdu self ds))) init_locals subs
        = Some (Some (sent_locals self ds i ts rest), subs[i := named self (subs ! i)])"
    using apdu_loop [OF pub dl sel len fits] by blast
  have i: "i < length subs" "gs_ok (subs ! i)" "\<not> gs_isObserver (subs ! i)"
    using sel by (auto simp: selects_def list_all_length)
  obtain s' where s': "deliver now (sent_locals self ds i ts rest) (named self (subs ! i)) = Some s'"
      "delivered now self (subs ! i) s'" "holds_data self ds (subs ! i) s'"
      "gs_stateValid s' \<longleftrightarrow> \<not> repeated self (subs ! i)" "gs_listener s' = gs_listener (subs ! i)"
      "gs_isObserver s' = gs_isObserver (subs ! i)"
      "gs_dataSetValues (subs ! i) \<noteq> None \<longrightarrow>
        gs_dataSetValuesSelfAllocated s' = gs_dataSetValuesSelfAllocated (subs ! i)"
    using deliver_sent [OF i(2,3) rdy len ds dl pub] by metis
  have m: "gl_matchingSubscriber (sent_locals self ds i ts rest) = Some i"
    by (simp add: sent_locals_def)
  show thesis
    using that [of s'] s' p i(1) m by (simp add: parseGoosePayload_def)
qed

section \<open>The frame\<close>

lemma interested_no_observer:
  "list_all (\<lambda>s. \<not> gs_isObserver s) subs \<Longrightarrow> snd (interested app src dst subs) = subs"
  by (induction subs) (auto split: prod.splits)

text \<open>A packet: two octets of the tag, the EtherType, the application id, the length, four
  reserved octets and the APDU.\<close>

lemma parseGooseMessage_packet:
  assumes pkt: "pkt = [t1, t2, 0x88, 0xb8, a1, a2] @ length_octets16 (length apdu + 8) @ [0, 0, 0, 0] @ apdu"
    and apdu: "10 \<le> length apdu" "length apdu + 8 < 65536"
    and subs: "list_all (\<lambda>s. \<not> gs_isObserver s) subs"
    and payload: "parseGoosePayload now subs (apdu @ rest) (int (length apdu)) = Some (rc, subs', ev)"
  shows "parseGooseMessage now subs (pkt @ rest) (int (length pkt)) = Some (subs', ev)"
proof -
  let ?l = "length apdu + 8"
  have buf: "pkt @ rest = [t1, t2, 0x88, 0xb8, a1, a2, of_nat (?l div 256), of_nat (?l mod 256),
      0, 0, 0, 0] @ apdu @ rest"
    by (simp add: pkt length_octets16_def)
  have n: "\<not> int (length pkt) < 22" using apdu by (simp add: pkt length_octets16_def)
  have rds: "rd (pkt @ rest) 2 = Some 0x88" "rd (pkt @ rest) 3 = Some 0xb8"
      "rd (pkt @ rest) 4 = Some a1" "rd (pkt @ rest) 5 = Some a2"
      "rd (pkt @ rest) 6 = Some (of_nat (?l div 256))" "rd (pkt @ rest) 7 = Some (of_nat (?l mod 256))"
      "\<exists>m. rd_bytes (pkt @ rest) 6 6 = Some m" "\<exists>m. rd_bytes (pkt @ rest) 0 6 = Some m"
    unfolding buf by (simp_all add: rd_def rd_bytes_def)
  then obtain m1 m2 where ms: "rd_bytes (pkt @ rest) 6 6 = Some m1" "rd_bytes (pkt @ rest) 0 6 = Some m2"
    by blast
  have d: "drop 12 pkt = apdu" "12 \<le> length pkt" by (simp_all add: pkt length_octets16_def)
  have "uint (ucast (of_nat (?l div 256) :: byte) * 0x100 + ucast (of_nat (?l mod 256) :: byte) :: uint16) - 8
      = int (length apdu)"
    using length_field_value [OF apdu(2)] by simp
  then show ?thesis
    using rds(1-6) ms n payload interested_no_observer [OF subs]
    by (simp add: parseGooseMessage_def Let_def d split_beta)
qed

lemma packet_of_frame:
  assumes inv: "has_header (goose_header p mac True) self" and "length (dstAddress p) = 6" "length mac = 6"
  shows "\<exists>t1 t2 a1 a2. drop 14 (goose_frame self ds)
    = [t1, t2, 0x88, 0xb8, a1, a2] @ length_octets16 (length (goose_apdu self ds) + 8) @ [0, 0, 0, 0]
      @ goose_apdu self ds"
  using assms(2,3)
  by (simp add: goose_frame_header [OF inv] goose_header_def vlan_bytes_def header_bytes_def Let_def)

lemma length_apdu_ge: "10 \<le> length (goose_apdu self ds)"
  by (simp add: goose_apdu_def octet_bytes_def goose_fields_def uint32_bytes_def string_bytes_def)

section \<open>From the publisher to the subscriber\<close>

text \<open>What sender and receiver agree on: the frame headers, and names that fit the fixed buffers.\<close>

definition linked :: "CommParameters \<Rightarrow> byte list \<Rightarrow> GoosePublisher \<Rightarrow> bool" where
  "linked p mac self \<longleftrightarrow> length (dstAddress p) = 6 \<and> length mac = 6 \<and>
     gp_inv (goose_header p mac True) self \<and>
     length (str_content (gp_dataSetRef self)) \<le> 129 \<and> length (str_content (goose_id self)) \<le> 129"

lemma tick_packet:
  assumes pub: "linked p mac self" and ds: "goose_values ds"
    and fits: "length (goose_apdu self ds) \<le> 1518 - gp_payloadStart self"
    and r: "length (gr_buffer r) = 1518" "selects (str_content (gp_goCBRef self)) (gr_subscriberList r) i"
      "ready self ds (gr_subscriberList r ! i)"
  obtains r' s' where "GooseReceiver_tick now (goose_packet (goose_header p mac True) self ds) r
      = Some (True, r', if gs_listener (gr_subscriberList r ! i) then Some i else None)"
    and "gr_subscriberList r' = (gr_subscriberList r)[i := s']" and "length (gr_buffer r') = 1518"
    and "delivered now self (gr_subscriberList r ! i) s'" and "holds_data self ds (gr_subscriberList r ! i) s'"
    and "gs_stateValid s' \<longleftrightarrow> \<not> repeated self (gr_subscriberList r ! i)"
    and "gs_listener s' = gs_listener (gr_subscriberList r ! i)" and "\<not> gs_isObserver s'"
    and "gs_dataSetValues (gr_subscriberList r ! i) \<noteq> None \<longrightarrow>
      gs_dataSetValuesSelfAllocated s' = gs_dataSetValuesSelfAllocated (gr_subscriberList r ! i)"
proof -
  let ?subs = "gr_subscriberList r"
  let ?pkt = "goose_packet (goose_header p mac True) self ds"
  let ?apdu = "goose_apdu self ds"
  have inv: "gp_ok self" "has_header (goose_header p mac True) self" "frame_ok self"
    and macs: "length (dstAddress p) = 6" "length mac = 6"
    and len: "length (str_content (gp_dataSetRef self)) \<le> 129" "length (str_content (goose_id self)) \<le> 129"
    using pub by (auto simp: linked_def gp_inv_def)
  obtain t1 t2 a1 a2 where pkt: "?pkt = [t1, t2, 0x88, 0xb8, a1, a2] @ length_octets16 (length ?apdu + 8)
      @ [0, 0, 0, 0] @ ?apdu"
    using packet_of_frame [OF inv(2) macs, of ds] goose_frame_header [OF inv(2), of ds]
    by (auto simp: goose_packet_def)
  have a: "length ?apdu \<le> 1518" "length (goose_fields self ds) < 65535"
    using fits by (auto simp: goose_apdu_def octet_bytes_def)
  have size: "length ?pkt = length ?apdu + 12" by (simp add: pkt length_octets16_def)
  have start: "20 \<le> gp_payloadStart self" using inv(3) by (simp add: frame_ok_def)
  have le: "length ?pkt \<le> 1518" using size fits start by linarith
  let ?rest = "drop (length ?pkt) (gr_buffer r)"
  have rcv: "Ethernet_receivePacket ?pkt (gr_buffer r) 1518 = Some (length ?pkt, ?pkt @ ?rest)"
    using receivePacket_copies [OF le, of "gr_buffer r"] r(1) by simp
  obtain s' where s': "parseGoosePayload now ?subs (?apdu @ ?rest) (int (length ?apdu))
        = Some (1, ?subs[i := s'], if gs_listener (?subs ! i) then Some i else None)"
      "delivered now self (?subs ! i) s'" "holds_data self ds (?subs ! i) s'"
      "gs_stateValid s' \<longleftrightarrow> \<not> repeated self (?subs ! i)" "gs_listener s' = gs_listener (?subs ! i)"
      "gs_isObserver s' = gs_isObserver (?subs ! i)"
      "gs_dataSetValues (?subs ! i) \<noteq> None \<longrightarrow>
        gs_dataSetValuesSelfAllocated s' = gs_dataSetValuesSelfAllocated (?subs ! i)"
    by (rule apdu_delivered [OF inv(1) ds r(2,3) len a(2), of now ?rest])
  have obs: "list_all (\<lambda>s. \<not> gs_isObserver s) ?subs" "\<not> gs_isObserver (?subs ! i)"
    using r(2) by (auto simp: selects_def list_all_length)
  have "parseGooseMessage now ?subs (?pkt @ ?rest) (int (length ?pkt))
      = Some (?subs[i := s'], if gs_listener (?subs ! i) then Some i else None)"
    by (rule parseGooseMessage_packet [OF pkt length_apdu_ge _ obs(1) s'(1)]) (use a in simp)
  then show thesis
    using that [of "r\<lparr>gr_buffer := ?pkt @ ?rest, gr_subscriberList := ?subs[i := s']\<rparr>" s'] rcv s' obs(2) le r(1) size
    by (simp add: GooseReceiver_tick_def)
qed

text \<open>A receiver that is polled once per packet; the result is the state of the subscriber at each
  call of a listener.\<close>

fun tick_all :: "(uint64 \<times> buffer) list \<Rightarrow> GooseReceiver \<Rightarrow> (GooseSubscriber option list \<times> GooseReceiver) option" where
  "tick_all [] r = Some ([], r)"
| "tick_all ((now, packet) # ps) r = do {
     (_, r, event) \<leftarrow> GooseReceiver_tick now packet r;
     (events, r') \<leftarrow> tick_all ps r;
     Some (map_option (\<lambda>i. gr_subscriberList r ! i) event # events, r') }"

text \<open>A receiver waiting for the messages of a publisher: subscriber \<open>i\<close> is the one the control block
  reference selects, has a data set with room for every message, and has not seen the
  next sequence number yet.\<close>

definition awaits :: "GoosePublisher \<Rightarrow> MmsValue option list list \<Rightarrow> nat \<Rightarrow> GooseReceiver \<Rightarrow> bool" where
  "awaits self dss i r \<longleftrightarrow>
     (let s = gr_subscriberList r ! i in
      length (gr_buffer r) = 1518 \<and> selects (str_content (gp_goCBRef self)) (gr_subscriberList r) i \<and>
      gs_listener s \<and> \<not> gs_dataSetValuesSelfAllocated s \<and>
      (\<exists>dst. gs_dataSetValues s = Some (MmsArray dst) \<and> list_all (accepts_all dst) dss) \<and>
      (gs_stNum s = gp_stNum self \<longrightarrow> gs_sqNum s < gp_sqNum self))"

text \<open>What the listener sees of the message with the sequence number \<open>n\<close>.\<close>

definition sees :: "uint64 \<Rightarrow> GoosePublisher \<Rightarrow> uint32 \<Rightarrow> MmsValue option list \<Rightarrow> GooseSubscriber \<Rightarrow> bool" where
  "sees now self n ds s \<longleftrightarrow>
     gs_stateValid s \<and> gs_stNum s = gp_stNum self \<and> gs_sqNum s = n \<and> gs_confRev s = gp_confRev self \<and>
     gs_timestamp s = MmsUtcTime (utc_content self) \<and>
     gs_invalidityTime s = now + ucast (gp_timeAllowedToLive self) \<and>
     (\<exists>ws. gs_dataSetValues s = Some (MmsArray ws) \<and> elements_bytes ws = elements_bytes ds)"

lemma selects_update:
  assumes "selects ref subs i" and "delivered now self (subs ! i) s'" and "\<not> gs_isObserver s'"
  shows "selects ref (subs[i := s']) i"
  using assms
  by (auto simp: selects_def gs_matches_def delivered_def list_all_length nth_list_update)

lemma same_message_link:
  assumes "same_message a b"
  shows "str_content (gp_goCBRef a) = str_content (gp_goCBRef b)" and "gp_stNum a = gp_stNum b"
    and "goose_id a = goose_id b" and "gp_dataSetRef a = gp_dataSetRef b" and "gp_confRev a = gp_confRev b"
    and "gp_timeAllowedToLive a = gp_timeAllowedToLive b" and "utc_content a = utc_content b"
  using assms by (auto simp: same_message_def goose_id_def utc_content_def)

lemma sq_next:
  assumes "n < (- 1 :: uint32)"
  shows "next_sqNum n = n + 1" and "n < n + 1"
proof -
  have "unat n < 2 ^ 32 - 1" using assms by (simp add: word_less_nat_alt unsigned_minus_1_eq_mask mask_eq_exp_minus_1)
  then have u: "unat (n + 1) = unat n + 1" by (simp add: unat_word_ariths)
  then show "n < n + 1" by (simp add: word_less_nat_alt)
  from u have "n + 1 \<noteq> 0" by (metis Suc_eq_plus1 nat.distinct(1) unsigned_0)
  then show "next_sqNum n = n + 1" by (simp add: next_sqNum_def)
qed

text \<open>One message: published, received, and the receiver waits for the next one.\<close>

lemma stream_step:
  assumes pub: "linked p mac self" and ds: "goose_values ds" "dataset_ok ds"
    and fits: "length (goose_apdu self ds) \<le> 1518 - gp_payloadStart self"
    and r: "awaits self (ds # dss) i r" and sq: "gp_sqNum self < - 1"
  obtains self' r' s pkt where "GoosePublisher_publish self ds = Some (0, self')" and "linked p mac self'"
    and "same_message self' self" and "gp_sqNum self' = gp_sqNum self + 1"
    and "gp_payloadStart self' = gp_payloadStart self"
    and "es_sent (gp_ethernetSocket self') = es_sent (gp_ethernetSocket self) @ [pkt]"
    and "GooseReceiver_tick now pkt r = Some (True, r', Some i)" and "gr_subscriberList r' ! i = s"
    and "sees now self (gp_sqNum self) ds s" and "awaits self' dss i r'"
proof -
  let ?s = "gr_subscriberList r ! i"
  obtain dst where a: "length (gr_buffer r) = 1518"
      "selects (str_content (gp_goCBRef self)) (gr_subscriberList r) i" "gs_listener ?s"
      "\<not> gs_dataSetValuesSelfAllocated ?s" "gs_dataSetValues ?s = Some (MmsArray dst)"
      "accepts_all dst ds" "list_all (accepts_all dst) dss"
      "gs_stNum ?s = gp_stNum self \<longrightarrow> gs_sqNum ?s < gp_sqNum self"
    using r by (auto simp: awaits_def Let_def)
  have inv: "gp_inv (goose_header p mac True) self" using pub by (simp add: linked_def)
  obtain self' where s': "GoosePublisher_publish self ds = Some (0, self')"
      "gp_inv (goose_header p mac True) self'" "gp_sqNum self' = next_sqNum (gp_sqNum self)"
      "same_message self' self" "gp_payloadStart self' = gp_payloadStart self"
      "es_sent (gp_ethernetSocket self') = es_sent (gp_ethernetSocket self)
        @ [goose_packet (goose_header p mac True) self ds]"
    by (rule publish_step [OF inv ds(2) fits])
  note same = same_message_link [OF s'(4)]
  have rdy: "ready self ds ?s" using a(5,6) by (simp add: ready_def)
  obtain r' s where t: "GooseReceiver_tick now (goose_packet (goose_header p mac True) self ds) r
        = Some (True, r', if gs_listener ?s then Some i else None)"
      "gr_subscriberList r' = (gr_subscriberList r)[i := s]" "length (gr_buffer r') = 1518"
      "delivered now self ?s s" "holds_data self ds ?s s" "gs_stateValid s \<longleftrightarrow> \<not> repeated self ?s"
      "gs_listener s = gs_listener ?s" "\<not> gs_isObserver s"
      "gs_dataSetValues ?s \<noteq> None \<longrightarrow> gs_dataSetValuesSelfAllocated s = gs_dataSetValuesSelfAllocated ?s"
    by (rule tick_packet [OF pub ds(1) fits a(1,2) rdy, of now])
  have i: "gr_subscriberList r' ! i = s" using t(2) a(2) by (simp add: selects_def)
  have drops: "\<not> drops self ?s" using a(4) by (simp add: drops_def)
  obtain ws where ws: "gs_dataSetValues s = Some (MmsArray ws)" "elements_bytes ws = elements_bytes ds"
      "\<forall>xs. accepts_all dst xs \<longrightarrow> accepts_all ws xs"
    using t(5) a(5) drops by (auto simp: holds_data_def)
  have "list_all (accepts_all ws) dss" using a(7) ws(3) by (auto simp: list_all_iff)
  have nx: "gp_sqNum self' = gp_sqNum self + 1" "gp_sqNum self < gp_sqNum self + 1"
    using s'(3) sq_next [OF sq] by simp_all
  have d: "gs_stNum s = gp_stNum self" "gs_sqNum s = gp_sqNum self" "gs_confRev s = gp_confRev self"
      "gs_timestamp s = MmsUtcTime (utc_content self)"
      "gs_invalidityTime s = now + ucast (gp_timeAllowedToLive self)"
    using t(4) by (auto simp: delivered_def)
  have "awaits self' dss i r'"
    unfolding awaits_def Let_def i
    using t(3,7,9) a(3,4,5) selects_update [OF a(2) t(4,8)] ws(1) \<open>list_all (accepts_all ws) dss\<close> nx d
    by (simp add: same t(2))
  moreover have "sees now self (gp_sqNum self) ds s"
    using t(6) a(8) d ws by (auto simp: sees_def repeated_def)
  moreover have "linked p mac self'" using pub s'(2) by (simp add: linked_def same)
  ultimately show thesis using that s' nx(1) t(1) a(3) i by simp
qed

lemma stream_run:
  assumes "linked p mac self" and "list_all (\<lambda>ds. goose_values ds \<and> dataset_ok ds) dss"
    and "\<forall>ds \<in> set dss. \<forall>n. length (goose_apdu (at_sqNum self n) ds) \<le> 1518 - gp_payloadStart self"
    and "awaits self dss i r" and "unat (gp_sqNum self) + length dss < 2 ^ 32" and "length nows = length dss"
  shows "\<exists>self' packets ss r'. publish_all self dss = Some self' \<and>
    es_sent (gp_ethernetSocket self') = es_sent (gp_ethernetSocket self) @ packets \<and>
    tick_all (zip nows packets) r = Some (map Some ss, r') \<and> length packets = length dss \<and>
    length ss = length dss \<and>
    (\<forall>k < length dss. sees (nows ! k) self (gp_sqNum self + of_nat k) (dss ! k) (ss ! k))"
  using assms
proof (induction dss arbitrary: self r nows)
  case Nil
  then show ?case by auto
next
  case (Cons ds dss)
  obtain now nows' where nows: "nows = now # nows'" "length nows' = length dss"
    using Cons.prems(6) by (cases nows) auto
  have ds: "goose_values ds" "dataset_ok ds" using Cons.prems(2) by auto
  have sq: "gp_sqNum self < - 1"
    using Cons.prems(5) by (simp add: word_less_nat_alt unsigned_minus_1_eq_mask mask_eq_exp_minus_1)
  have "goose_apdu (at_sqNum self (gp_sqNum self)) ds = goose_apdu self ds"
    by (rule same_message_apdu) (simp_all add: same_message_def at_sqNum_def)
  then have fits: "length (goose_apdu self ds) \<le> 1518 - gp_payloadStart self"
    using Cons.prems(3) by (metis list.set_intros(1))
  obtain s1 r1 s pkt where st: "GoosePublisher_publish self ds = Some (0, s1)" "linked p mac s1"
      "same_message s1 self" "gp_sqNum s1 = gp_sqNum self + 1" "gp_payloadStart s1 = gp_payloadStart self"
      "es_sent (gp_ethernetSocket s1) = es_sent (gp_ethernetSocket self) @ [pkt]"
      "GooseReceiver_tick now pkt r = Some (True, r1, Some i)" "gr_subscriberList r1 ! i = s"
      "sees now self (gp_sqNum self) ds s" "awaits s1 dss i r1"
    by (rule stream_step [OF Cons.prems(1) ds fits Cons.prems(4) sq, of now])
  have apdu: "goose_apdu (at_sqNum s1 n) d = goose_apdu (at_sqNum self n) d" for n d
    by (rule same_message_apdu) (use st(3) in \<open>auto simp: same_message_def at_sqNum_def\<close>)
  have "unat (gp_sqNum self + 1) = unat (gp_sqNum self) + 1"
    using sq by (simp add: unat_word_ariths word_less_nat_alt unsigned_minus_1_eq_mask mask_eq_exp_minus_1)
  then have "unat (gp_sqNum s1) + length dss < 2 ^ 32" using Cons.prems(5) st(4) by simp
  moreover have "\<forall>d \<in> set dss. \<forall>n. length (goose_apdu (at_sqNum s1 n) d) \<le> 1518 - gp_payloadStart s1"
    unfolding apdu st(5) using Cons.prems(3) by simp
  ultimately obtain self' packets ss r' where ih: "publish_all s1 dss = Some self'"
      "es_sent (gp_ethernetSocket self') = es_sent (gp_ethernetSocket s1) @ packets"
      "tick_all (zip nows' packets) r1 = Some (map Some ss, r')" "length packets = length dss"
      "length ss = length dss"
      "\<forall>k < length dss. sees (nows' ! k) s1 (gp_sqNum s1 + of_nat k) (dss ! k) (ss ! k)"
    using Cons.IH [OF st(2) _ _ st(10) _ nows(2)] Cons.prems(2) by auto
  have "sees t s1 = sees t self" for t
    using same_message_link [OF st(3)] by (simp add: sees_def fun_eq_iff)
  then have "\<forall>k < Suc (length dss). sees (nows ! k) self (gp_sqNum self + of_nat k) ((ds # dss) ! k) ((s # ss) ! k)"
    using ih(6) st(4,9) by (auto simp: nows(1) less_Suc_eq_0_disj add.assoc)
  then show ?case
    using st ih nows(1)
    by (intro exI [of _ self'] exI [of _ "pkt # packets"] exI [of _ "s # ss"] exI [of _ r']) simp
qed

end
