(* ===== verification/Ns3_Simulator.thy ===== *)
theory Ns3_Simulator
  imports Prelude
begin

text \<open>
  What the applications use of the ns-3 simulator, which is not part of this module: its operations are
  arguments of the handlers, and \<open>simulates\<close> states their documented behaviour. \<open>'sim\<close> is the state of
  the simulator, \<open>'h\<close> names the handlers of an application. Times are in nanoseconds.
\<close>

section \<open>The interface\<close>

record ('h, 'sim) simulator =
  sim_Now :: "'sim \<Rightarrow> int"
  sim_Schedule :: "int \<Rightarrow> 'h \<Rightarrow> 'sim \<Rightarrow> nat \<times> 'sim"
  sim_ScheduleNow :: "'h \<Rightarrow> 'sim \<Rightarrow> nat \<times> 'sim"
  sim_Cancel :: "nat option \<Rightarrow> 'sim \<Rightarrow> 'sim"

text \<open>The clock of \<open>hal/time/ns3/time.cc\<close>; the simulation time is not negative.\<close>

definition Hal_getTimeInMs :: "('h, 'sim) simulator \<Rightarrow> 'sim \<Rightarrow> uint64" where
  "Hal_getTimeInMs S sim = word_of_int (sim_Now S sim div 1000000)"

definition Hal_getTimeInNs :: "('h, 'sim) simulator \<Rightarrow> 'sim \<Rightarrow> uint64" where
  "Hal_getTimeInNs S sim = word_of_int (sim_Now S sim)"

section \<open>The documented behaviour\<close>

text \<open>The pending events of an application, the event ids that were given out, and the time.\<close>

record 'h sim_view =
  v_now :: int
  v_pending :: "nat \<rightharpoonup> int \<times> 'h"
  v_issued :: "nat set"

text \<open>Scheduling gives out a new id; a cancelled event does not run; cancelling an event that ran
  already, was cancelled or was never scheduled does nothing.\<close>

definition adds_event :: "'h sim_view \<Rightarrow> int \<Rightarrow> 'h \<Rightarrow> nat \<Rightarrow> 'h sim_view \<Rightarrow> bool" where
  "adds_event v t h e v' \<longleftrightarrow> e \<notin> v_issued v \<and>
     v' = v\<lparr>v_pending := (v_pending v)(e \<mapsto> (t, h)), v_issued := insert e (v_issued v)\<rparr>"

definition simulates :: "('h, 'sim) simulator \<Rightarrow> ('sim \<Rightarrow> 'h sim_view) \<Rightarrow> bool" where
  "simulates S view \<longleftrightarrow>
     (\<forall>sim. sim_Now S sim = v_now (view sim)) \<and>
     (\<forall>sim d h. adds_event (view sim) (v_now (view sim) + d) h (fst (sim_Schedule S d h sim))
        (view (snd (sim_Schedule S d h sim)))) \<and>
     (\<forall>sim h. adds_event (view sim) (v_now (view sim)) h (fst (sim_ScheduleNow S h sim))
        (view (snd (sim_ScheduleNow S h sim)))) \<and>
     (\<forall>sim. view (sim_Cancel S None sim) = view sim) \<and>
     (\<forall>sim e. view (sim_Cancel S (Some e) sim)
        = (view sim)\<lparr>v_pending := (v_pending (view sim))(e := None)\<rparr>)"

text \<open>The simulator takes an event with the smallest time and runs its handler at that time.\<close>

definition takes_event :: "'h sim_view \<Rightarrow> nat \<Rightarrow> 'h \<Rightarrow> 'h sim_view \<Rightarrow> bool" where
  "takes_event v e h v' \<longleftrightarrow>
     (\<exists>t. v_pending v e = Some (t, h) \<and> (\<forall>e' t' h'. v_pending v e' = Some (t', h') \<longrightarrow> t \<le> t') \<and>
        v' = v\<lparr>v_now := t, v_pending := (v_pending v)(e := None)\<rparr>)"

lemma schedule_view:
  assumes "simulates S view"
  obtains e sim' where "sim_Schedule S d h sim = (e, sim')" and "e \<notin> v_issued (view sim)"
    and "v_pending (view sim') = (v_pending (view sim))(e \<mapsto> (v_now (view sim) + d, h))"
    and "v_issued (view sim') = insert e (v_issued (view sim))" and "v_now (view sim') = v_now (view sim)"
proof -
  obtain e sim' where s: "sim_Schedule S d h sim = (e, sim')" by fastforce
  then have "adds_event (view sim) (v_now (view sim) + d) h e (view sim')"
    using assms unfolding simulates_def by (metis fst_conv snd_conv)
  then show thesis using that [OF s] by (simp add: adds_event_def)
qed

lemma schedule_now_view:
  assumes "simulates S view"
  obtains e sim' where "sim_ScheduleNow S h sim = (e, sim')" and "e \<notin> v_issued (view sim)"
    and "v_pending (view sim') = (v_pending (view sim))(e \<mapsto> (v_now (view sim), h))"
    and "v_issued (view sim') = insert e (v_issued (view sim))" and "v_now (view sim') = v_now (view sim)"
proof -
  obtain e sim' where s: "sim_ScheduleNow S h sim = (e, sim')" by fastforce
  then have "adds_event (view sim) (v_now (view sim)) h e (view sim')"
    using assms unfolding simulates_def by (metis fst_conv snd_conv)
  then show thesis using that [OF s] by (simp add: adds_event_def)
qed

lemma cancel_view:
  assumes "simulates S view"
  shows "v_pending (view (sim_Cancel S (Some e) sim)) = (v_pending (view sim))(e := None)"
    and "v_issued (view (sim_Cancel S (Some e) sim)) = v_issued (view sim)"
    and "v_now (view (sim_Cancel S (Some e) sim)) = v_now (view sim)"
  using assms by (simp_all add: simulates_def)

lemma cancel_none_view: "simulates S view \<Longrightarrow> view (sim_Cancel S None sim) = view sim"
  by (simp add: simulates_def)

lemma now_view: "simulates S view \<Longrightarrow> sim_Now S sim = v_now (view sim)"
  by (simp add: simulates_def)

lemma schedule_now: "simulates S view \<Longrightarrow> v_now (view (snd (sim_Schedule S d h sim))) = v_now (view sim)"
  by (rule schedule_view [of S view d h sim]) simp_all

text \<open>Some pending event has the smallest time.\<close>

lemma earliest_event:
  assumes "finite (dom (v_pending v))" and "v_pending v \<noteq> Map.empty"
  obtains e h v' where "takes_event v e h v'"
proof -
  let ?time = "\<lambda>e. fst (the (v_pending v e))"
  have "dom (v_pending v) \<noteq> {}" using assms(2) by simp
  then obtain e where "is_arg_min ?time (\<lambda>x. x \<in> dom (v_pending v)) e"
    using ex_is_arg_min_if_finite [OF assms(1), of ?time] by blast
  then have e: "e \<in> dom (v_pending v)" "\<forall>x \<in> dom (v_pending v). ?time e \<le> ?time x"
    by (auto simp: is_arg_min_linorder)
  then obtain t h where "v_pending v e = Some (t, h)" by auto
  then show thesis
    using that [of e h] e(2) unfolding takes_event_def by force
qed

section \<open>A reference queue\<close>

text \<open>The documented behaviour is that of a queue that numbers its events.\<close>

record 'h event_queue =
  q_now :: int
  q_events :: "(nat \<times> int \<times> 'h) list"
  q_next :: nat

definition enqueue :: "int \<Rightarrow> 'h \<Rightarrow> 'h event_queue \<Rightarrow> nat \<times> 'h event_queue" where
  "enqueue t h q = (q_next q, q\<lparr>q_events := (q_next q, t, h) # q_events q, q_next := Suc (q_next q)\<rparr>)"

definition queue_simulator :: "('h, 'h event_queue) simulator" where
  "queue_simulator = \<lparr>sim_Now = q_now, sim_Schedule = (\<lambda>d h q. enqueue (q_now q + d) h q),
     sim_ScheduleNow = (\<lambda>h q. enqueue (q_now q) h q),
     sim_Cancel = (\<lambda>e q. case e of None \<Rightarrow> q
       | Some e \<Rightarrow> q\<lparr>q_events := filter (\<lambda>x. fst x \<noteq> e) (q_events q)\<rparr>)\<rparr>"

definition queue_view :: "'h event_queue \<Rightarrow> 'h sim_view" where
  "queue_view q = \<lparr>v_now = q_now q, v_pending = map_of (q_events q), v_issued = {..<q_next q}\<rparr>"

lemma map_of_filter_key: "map_of (filter (\<lambda>x. fst x \<noteq> e) xs) = (map_of xs)(e := None)"
  by (induction xs) auto

lemma queue_simulates: "simulates queue_simulator queue_view"
  by (auto simp: simulates_def queue_simulator_def queue_view_def enqueue_def adds_event_def
      map_of_filter_key lessThan_Suc)

end
