(* ===== verification/Device_Util.thy ===== *)
theory Device_Util
  imports Ethernet_Hal
begin

text \<open>
  Device paths, \<open>src/util/device-util.cc\<close>, with what it uses of \<open>std::string\<close>, and the addresses of
  \<open>src/util/address-util.cc\<close>. The applications build the path of their device from the index of the
  node and of the device. ns-3 provides the lookup by index, a parameter here. A \<open>std::string\<close> is the
  list of its characters, without a terminating zero; a thrown exception is a value.
\<close>

section \<open>Strings\<close>

datatype cpp_exception = Invalid_argument | Out_of_range

definition ascii :: "string \<Rightarrow> byte list" where
  "ascii s = map of_char s"

text \<open>\<open>std::to_string\<close> of an unsigned number.\<close>

fun to_string :: "nat \<Rightarrow> byte list" where
  "to_string n = (if n < 10 then [] else to_string (n div 10)) @ [48 + of_nat (n mod 10)]"

declare to_string.simps [simp del]

text \<open>\<open>find\<close> from a position on and \<open>find_last_of\<close>; \<open>npos\<close> becomes \<open>- 1\<close> in an \<open>int\<close>.\<close>

definition str_find :: "byte list \<Rightarrow> byte \<Rightarrow> nat \<Rightarrow> int" where
  "str_find s c from =
     (let i = length (takeWhile (\<lambda>b. b \<noteq> c) (drop from s))
      in if from + i < length s then int (from + i) else - 1)"

definition str_find_last_of :: "byte list \<Rightarrow> byte \<Rightarrow> int" where
  "str_find_last_of s c =
     (let i = length (takeWhile (\<lambda>b. b \<noteq> c) (rev s))
      in if i < length s then int (length s - 1 - i) else - 1)"

text \<open>The length argument of \<open>substr\<close> is a \<open>size_t\<close>: a negative one is larger than any string.\<close>

definition str_substr :: "byte list \<Rightarrow> int \<Rightarrow> int option \<Rightarrow> cpp_exception + byte list" where
  "str_substr s from n =
     (if from < 0 \<or> int (length s) < from then Inl Out_of_range
      else Inr (case n of
        None \<Rightarrow> drop (nat from) s
      | Some n \<Rightarrow> if n < 0 then drop (nat from) s else take (nat n) (drop (nat from) s)))"

definition is_digit :: "byte \<Rightarrow> bool" where
  "is_digit b \<longleftrightarrow> 48 \<le> b \<and> b \<le> 57"

definition is_space :: "byte \<Rightarrow> bool" where
  "is_space b \<longleftrightarrow> b = 32 \<or> (9 \<le> b \<and> b \<le> 13)"

definition digits_value :: "byte list \<Rightarrow> int" where
  "digits_value ds = foldl (\<lambda>a d. 10 * a + uint (d - 48)) 0 ds"

text \<open>\<open>std::stoi\<close>: white space, a sign, digits; the rest is ignored.\<close>

definition stoi :: "byte list \<Rightarrow> cpp_exception + int" where
  "stoi s =
     (let s = dropWhile is_space s;
          neg = (case s of b # _ \<Rightarrow> b = 45 | [] \<Rightarrow> False);
          s = (case s of b # s' \<Rightarrow> if b = 43 \<or> b = 45 then s' else s | [] \<Rightarrow> []);
          ds = takeWhile is_digit s;
          v = (if neg then - digits_value ds else digits_value ds)
      in if ds = [] then Inl Invalid_argument
         else if v < - (2 ^ 31) \<or> 2 ^ 31 \<le> v then Inl Out_of_range
         else Inr v)"

section \<open>Lookup\<close>

text \<open>\<open>nodes n\<close> is \<open>NodeList::GetNode(n)\<close>, the devices of the node by index.\<close>

type_synonym 'd nodes = "int \<Rightarrow> int \<Rightarrow> 'd option"

definition GetNetDevice :: "'d nodes \<Rightarrow> byte list \<Rightarrow> cpp_exception + 'd option" where
  "GetNetDevice nodes path =
     (let firstSlash = str_find path 47 1;
          secondSlash = str_find path 47 (nat (firstSlash + 1))
      in case str_substr path (firstSlash + 1) (Some (secondSlash - firstSlash - 1)) of
           Inl e \<Rightarrow> Inl e
         | Inr s \<Rightarrow> (case stoi s of
             Inl e \<Rightarrow> Inl e
           | Inr nodeIndex \<Rightarrow>
               (case str_substr path (str_find_last_of path 47 + 1) None of
                  Inl e \<Rightarrow> Inl e
                | Inr s' \<Rightarrow> (case stoi s' of
                    Inl e \<Rightarrow> Inl e
                  | Inr deviceIndex \<Rightarrow> Inr (nodes nodeIndex deviceIndex)))))"

text \<open>\<open>GetNode\<close> for a path \<open>/NodeList/n\<close>; the result is the index that is looked up.\<close>

definition GetNode :: "byte list \<Rightarrow> cpp_exception + int" where
  "GetNode path =
     (case str_substr path (str_find path 47 1 + 1) None of
        Inl e \<Rightarrow> Inl e
      | Inr s \<Rightarrow> stoi s)"

text \<open>The path the applications build.\<close>

definition device_path :: "uint32 \<Rightarrow> uint64 \<Rightarrow> byte list" where
  "device_path nodeId deviceIndex =
     ascii ''/NodeList/'' @ to_string (unat nodeId) @ ascii ''/DeviceList/'' @ to_string (unat deviceIndex)"

text \<open>The device behind an interface id, a C string. An exception that nobody catches ends the program.\<close>

definition devices_of :: "byte list nodes \<Rightarrow> devices" where
  "devices_of nodes interfaceId =
     (case GetNetDevice nodes (takeWhile (\<lambda>b. b \<noteq> 0) interfaceId) of Inl _ \<Rightarrow> None | Inr d \<Rightarrow> d)"

section \<open>Addresses\<close>

definition hex_digit :: "byte \<Rightarrow> byte" where
  "hex_digit d = (if d < 10 then 48 + d else 87 + d)"

text \<open>\<open>sprintf\<close> with six times \<open>%02x\<close>, into a fresh array of 18 characters.\<close>

definition formatMacAddress :: "byte list \<Rightarrow> byte list option" where
  "formatMacAddress mac = do {
     m \<leftarrow> rd_bytes mac 0 6;
     Some (butlast (concat (map (\<lambda>b. [hex_digit (b div 16), hex_digit (b mod 16), 58]) m)) @ [0]) }"

section \<open>Printing and reading numbers\<close>

lemma of_nat_digit [simp]:
  "n < 10 \<Longrightarrow> is_digit (48 + of_nat n)" "n < 10 \<Longrightarrow> uint (of_nat n :: byte) = int n"
proof -
  assume n: "n < 10"
  then have u: "unat (of_nat n :: byte) = n" by (simp add: unat_of_nat)
  then have "unat (48 + of_nat n :: byte) = 48 + n" using n by (simp add: unat_word_ariths)
  then show "is_digit (48 + of_nat n)" using n by (simp add: is_digit_def word_le_nat_alt)
  show "uint (of_nat n :: byte) = int n" using u by (simp add: uint_nat)
qed

lemma digits_value_snoc: "digits_value (ds @ [d]) = 10 * digits_value ds + uint (d - 48)"
  by (simp add: digits_value_def)

lemma to_string_correct:
  "to_string n \<noteq> []" "list_all is_digit (to_string n)" "digits_value (to_string n) = int n"
proof (induction n rule: to_string.induct)
  case (1 n)
  { case 1 show ?case by (simp add: to_string.simps [of n]) }
  { case 2 show ?case using 1 by (simp add: to_string.simps [of n]) }
  { case 3
    have "digits_value [] = 0" by (simp add: digits_value_def)
    then show ?case using 1 by (simp add: to_string.simps [of n] digits_value_snoc [of "[]", simplified] digits_value_snoc zdiv_int zmod_int) }
qed

lemma not_space_digit: "is_digit b \<Longrightarrow> \<not> is_space b \<and> b \<noteq> 43 \<and> b \<noteq> 45 \<and> b \<noteq> 47"
  by (auto simp: is_digit_def is_space_def word_le_nat_alt)

lemma stoi_to_string:
  "stoi (to_string n) = (if n < 2 ^ 31 then Inr (int n) else Inl Out_of_range)"
proof -
  obtain d ds where ds: "to_string n = d # ds" using to_string_correct(1) by (cases "to_string n") auto
  have digits: "list_all is_digit (d # ds)" "digits_value (d # ds) = int n"
    using to_string_correct [of n] by (simp_all add: ds)
  then have "takeWhile is_digit (d # ds) = d # ds" by (simp add: list_all_iff)
  moreover have "\<not> is_space d" "d \<noteq> 43" "d \<noteq> 45" using not_space_digit digits(1) by auto
  moreover have "2 ^ 31 \<le> int n \<longleftrightarrow> 2 ^ 31 \<le> n" by simp
  ultimately show ?thesis using digits(2) by (auto simp: stoi_def ds Let_def)
qed

lemma no_slash: "47 \<notin> set (to_string n)"
  using to_string_correct(2) [of n] not_space_digit by (auto simp: list_all_iff)

lemma takeWhile_stop: "c \<notin> set xs \<Longrightarrow> takeWhile (\<lambda>b. b \<noteq> c) (xs @ c # ys) = xs"
  by (induction xs) auto

text \<open>The positions of the separators.\<close>

lemma str_find_at:
  "c \<notin> set xs \<Longrightarrow> length pre = from \<Longrightarrow> str_find (pre @ xs @ c # ys) c from = int (from + length xs)"
  by (simp add: str_find_def takeWhile_stop)

lemma str_find_last_of_at:
  "c \<notin> set ys \<Longrightarrow> str_find_last_of (xs @ c # ys) c = int (length xs)"
  by (simp add: str_find_last_of_def takeWhile_stop)

section \<open>The path of an application\<close>

lemma GetNetDevice_path:
  "GetNetDevice nodes (device_path n d) =
     (if unat n < 2 ^ 31 \<and> unat d < 2 ^ 31 then Inr (nodes (uint n) (uint d)) else Inl Out_of_range)"
proof -
  let ?n = "to_string (unat n)" and ?d = "to_string (unat d)"
  let ?list = "ascii ''NodeList''" and ?devs = "ascii ''DeviceList''"
  let ?p = "device_path n d"
  have lits: "ascii ''/NodeList/'' = 47 # ?list @ [47]" "ascii ''/DeviceList/'' = 47 # ?devs @ [47]"
      "47 \<notin> set ?list" "length ?list = 8"
    by code_simp+
  have p1: "?p = [47] @ ?list @ 47 # (?n @ 47 # ?devs @ 47 # ?d)"
    by (simp add: device_path_def lits(1,2))
  then have first: "str_find ?p 47 (Suc 0) = 9"
    using str_find_at [OF lits(3), of "[47]" 1] lits(4) by simp
  have p2: "?p = (47 # ?list @ [47]) @ ?n @ 47 # (?devs @ 47 # ?d)" by (simp add: p1)
  have second: "str_find ?p 47 10 = int (10 + length ?n)"
    unfolding p2 by (rule str_find_at [OF no_slash]) (simp add: lits(4))
  define pre where "pre = 47 # ?list @ [47] @ ?n @ 47 # ?devs"
  have p3: "?p = pre @ 47 # ?d" by (simp add: p1 pre_def)
  have last: "str_find_last_of ?p 47 = int (length pre)"
    unfolding p3 by (rule str_find_last_of_at [OF no_slash])
  have "str_substr ?p 10 (Some (int (10 + length ?n) - 10)) = Inr ?n"
    using lits(4) by (simp add: str_substr_def p2)
  moreover have "str_substr ?p (str_find_last_of ?p 47 + 1) None = Inr ?d"
    unfolding last by (simp add: str_substr_def p3 nat_add_distrib)
  ultimately show ?thesis
    by (simp add: GetNetDevice_def first second stoi_to_string Let_def)
qed

lemma no_nul_path: "0 \<notin> set (device_path n d)"
proof -
  have "0 \<notin> set (to_string k)" for k
    using to_string_correct(2) [of k] by (auto simp: list_all_iff is_digit_def)
  moreover have "0 \<notin> set (ascii ''/NodeList/'')" "0 \<notin> set (ascii ''/DeviceList/'')" by code_simp+
  ultimately show ?thesis by (simp add: device_path_def)
qed

lemma devices_of_path:
  assumes "unat n < 2 ^ 31" and "unat d < 2 ^ 31"
  shows "devices_of nodes (c_str (device_path n d)) = nodes (uint n) (uint d)"
proof -
  have "takeWhile (\<lambda>b. b \<noteq> 0) (c_str (device_path n d)) = device_path n d"
    using no_nul_path [of n d] by (simp add: c_str_def takeWhile_stop)
  then show ?thesis using assms by (simp add: devices_of_def GetNetDevice_path)
qed

section \<open>Properties\<close>

text \<open>The path that an application builds from the index of its node and of its device is read back by
  GetNetDevice: the device found is the one with these indices. The indices are printed as unsigned
  numbers of 32 and 64 bits but read as int: from 2147483648 on, either of them makes std::stoi throw.\<close>

theorem device_path_roundtrip:
  "GetNetDevice nodes (device_path n d) =
     (if unat n < 2 ^ 31 \<and> unat d < 2 ^ 31 then Inr (nodes (uint n) (uint d)) else Inl Out_of_range)"
  by (rule GetNetDevice_path)

text \<open>Two addresses with the same text are the same.\<close>

lemma hex_digit_inj: "a < 16 \<Longrightarrow> b < 16 \<Longrightarrow> hex_digit a = hex_digit b \<Longrightarrow> a = b"
proof -
  assume ab: "a < 16" "b < 16"
  have u: "unat (hex_digit x) = (if unat x < 10 then 48 + unat x else 87 + unat x)" if "x < 16" for x
  proof -
    have "unat x < 16" using that by (simp add: word_less_nat_alt)
    then show ?thesis by (simp add: hex_digit_def word_less_nat_alt unat_word_ariths)
  qed
  assume "hex_digit a = hex_digit b"
  then have "unat (hex_digit a) = unat (hex_digit b)" by simp
  then have "unat a = unat b"
    using ab unfolding u [OF ab(1)] u [OF ab(2)] by (auto simp: word_less_nat_alt split: if_splits)
  then show "a = b" by (simp add: word_unat_eq_iff)
qed

lemma octet_digits:
  fixes a b :: byte
  assumes "hex_digit (a div 16) = hex_digit (b div 16)" and "hex_digit (a mod 16) = hex_digit (b mod 16)"
  shows "a = b"
proof -
  have lt: "x div 16 < 16" "x mod 16 < 16" for x :: byte
    using unsigned_less [of x] by (auto simp: word_less_nat_alt unat_div unat_mod less_mult_imp_div_less)
  have "a div 16 = b div 16" "a mod 16 = b mod 16" using assms hex_digit_inj lt by blast+
  then show ?thesis by (metis div_mult_mod_eq)
qed

lemma formatMacAddress_inj:
  assumes "formatMacAddress a = Some t" and "formatMacAddress b = Some t"
  shows "take 6 a = take 6 b" and "length t = 18"
proof -
  have len: "6 \<le> length a" "6 \<le> length b"
    using assms by (auto simp: formatMacAddress_def rd_bytes_def split: if_splits)
  have "\<exists>x1 x2 x3 x4 x5 x6 xs. x = [x1, x2, x3, x4, x5, x6] @ xs" if "6 \<le> length x" for x :: "byte list"
    using that by (auto simp: numeral_eq_Suc Suc_le_length_iff)
  then obtain a1 a2 a3 a4 a5 a6 as b1 b2 b3 b4 b5 b6 bs
    where ab: "a = [a1, a2, a3, a4, a5, a6] @ as" "b = [b1, b2, b3, b4, b5, b6] @ bs"
    using len by meson
  have t: "t = butlast (concat (map (\<lambda>b. [hex_digit (b div 16), hex_digit (b mod 16), 58]) (take 6 x))) @ [0]"
    if "formatMacAddress x = Some t" for x
    using that by (auto simp: formatMacAddress_def rd_bytes_def split: if_splits)
  show "length t = 18" using t [OF assms(1)] by (simp add: ab)
  show "take 6 a = take 6 b"
    using t [OF assms(1)] t [OF assms(2)] by (auto simp: ab intro: octet_digits)
qed

text \<open>One node with one device, for the examples.\<close>

definition example_devices :: devices where
  "example_devices = devices_of (\<lambda>n d. if n = 3 \<and> d = 0 then Some [2, 0, 0, 0, 0, 1] else None)"

end
