(* ===== verification/Goose_App.thy ===== *)
theory Goose_App
  imports Goose_Link Ns3_Simulator Device_Util "HOL-Library.Signed_Division"
begin

text \<open>
  The GOOSE applications, \<open>src/model/goose-publisher-app.cc\<close> and \<open>src/model/goose-receiver-app.cc\<close>.
  The publisher application is a state machine driven by the simulator: \<open>Send\<close> repeats the message
  every \<open>t0\<close>; every \<open>eventInterval\<close> a series of \<open>SendEvent\<close> takes over, at times that grow from
  \<open>t1\<close> to \<open>t0\<close>. A pointer is \<open>None\<close> before it is set and after the object was destroyed. \<open>backoff\<close>
  stands for the floating point part of \<open>T\<close>: the product of \<open>t1\<close> and the power of the rate, as a time.
\<close>

section \<open>The publisher application\<close>

datatype handler = Send | SendEvent

record GOOSEPublisher =
  ga_dataSetValues :: "MmsValue option list option"
  ga_publisher :: "GoosePublisher option"
  ga_deviceIndex :: uint64
  ga_count :: uint64
  ga_eventMessages :: byte
  ga_eventCount :: byte
  ga_sendEvents :: bool
  ga_appId :: uint16
  ga_eventId :: "nat option"
  ga_gooseEventId :: "nat option"
  ga_t0 :: int
  ga_t1 :: int
  ga_eventInterval :: int
  ga_sent :: uint64

text \<open>The attributes and their defaults; fields without a default are zero before \<open>StartApplication\<close>.\<close>

definition GOOSEPublisher_GetTypeId :: GOOSEPublisher where
  "GOOSEPublisher_GetTypeId = \<lparr>ga_dataSetValues = None, ga_publisher = None, ga_deviceIndex = 0,
     ga_count = 0, ga_eventMessages = 5, ga_eventCount = 0, ga_sendEvents = False, ga_appId = 1000,
     ga_eventId = None, ga_gooseEventId = None, ga_t0 = 20000000, ga_t1 = 3000000,
     ga_eventInterval = 0, ga_sent = 0\<rparr>"

definition goCbRef :: "byte list" where
  "goCbRef = ascii ''simpleIOGenericIO/LLN0$GO$gcbAnalogValues''"

definition dataSetRef :: "byte list" where
  "dataSetRef = ascii ''simpleIOGenericIO/LLN0$AnalogValues''"

definition app_parameters :: "uint16 \<Rightarrow> CommParameters" where
  "app_parameters app = \<lparr>vlanPriority = 4, vlanId = 0, appId = app,
     dstAddress = [0x01, 0x0c, 0xcd, 0x01, 0x00, 0x01]\<rparr>"

definition app_values :: "MmsValue option list option" where
  "app_values = do {
     a \<leftarrow> MmsValue_newIntegerFromInt32 1234;
     b \<leftarrow> MmsValue_newIntegerFromInt32 5678;
     Some [Some a, Some (MmsValue_newBinaryTime False), Some b] }"

text \<open>\<open>nodeId\<close> is the index of the node of the application.\<close>

definition GOOSEPublisher_StartApplication ::
    "(handler, 'sim) simulator \<Rightarrow> devices \<Rightarrow> buffer \<Rightarrow> uint32 \<Rightarrow> 'sim \<Rightarrow> GOOSEPublisher \<Rightarrow>
     ('sim \<times> GOOSEPublisher) option" where
  "GOOSEPublisher_StartApplication S devices heap nodeId sim self = do {
     let path = device_path nodeId (ga_deviceIndex self);
     values \<leftarrow> app_values;
     let self = self\<lparr>ga_dataSetValues := Some values, ga_sendEvents := (ga_eventInterval self \<noteq> 0),
       ga_eventCount := 1\<rparr>;
     publisher \<leftarrow> GoosePublisher_create devices heap (Hal_getTimeInMs S sim)
       (Some (app_parameters (ga_appId self))) (Some (c_str path));
     publisher \<leftarrow> GoosePublisher_setGoCbRef publisher (c_str goCbRef);
     let publisher = GoosePublisher_setConfRev publisher 1;
     publisher \<leftarrow> GoosePublisher_setDataSetRef publisher (c_str dataSetRef);
     let publisher = GoosePublisher_setTimeAllowedToLive publisher 500;
     let self = self\<lparr>ga_publisher := Some publisher, ga_sent := 0,
       ga_count := (if ga_count self \<le> 0 then - 1 else ga_count self)\<rparr>;
     let (sim, self) =
       (if ga_sendEvents self
        then let (e, sim) = sim_Schedule S (ga_eventInterval self) SendEvent sim
             in (sim, self\<lparr>ga_gooseEventId := Some e\<rparr>)
        else (sim, self));
     let (e, sim) = sim_ScheduleNow S Send sim;
     Some (sim, self\<lparr>ga_eventId := Some e\<rparr>) }"

text \<open>The part that \<open>Send\<close> and \<open>SendEvent\<close> share: a new state number, the message, the counters.\<close>

definition send_message ::
    "(handler, 'sim) simulator \<Rightarrow> 'sim \<Rightarrow> GOOSEPublisher \<Rightarrow> GOOSEPublisher option" where
  "send_message S sim self = do {
     publisher \<leftarrow> ga_publisher self;
     values \<leftarrow> ga_dataSetValues self;
     (_, publisher) \<leftarrow> GoosePublisher_increaseStNum (Hal_getTimeInMs S sim) publisher;
     (_, publisher) \<leftarrow> GoosePublisher_publish publisher values;
     Some (self\<lparr>ga_publisher := Some publisher, ga_sent := ga_sent self + 1,
       ga_count := ga_count self - 1\<rparr>) }"

definition GOOSEPublisher_Send ::
    "(handler, 'sim) simulator \<Rightarrow> 'sim \<Rightarrow> GOOSEPublisher \<Rightarrow> ('sim \<times> GOOSEPublisher) option" where
  "GOOSEPublisher_Send S sim self =
     (if ga_count self = 0 then Some (sim, self)
      else do {
        self \<leftarrow> send_message S sim self;
        let (e, sim) = sim_Schedule S (ga_t0 self) Send sim;
        Some (sim, self\<lparr>ga_eventId := Some e\<rparr>) })"

text \<open>The quotient of the two times is computed in every call, as an integer.\<close>

definition GOOSEPublisher_T ::
    "(int \<Rightarrow> int \<Rightarrow> byte \<Rightarrow> byte \<Rightarrow> int) \<Rightarrow> GOOSEPublisher \<Rightarrow> byte \<Rightarrow> int option" where
  "GOOSEPublisher_T backoff self n =
     (if ga_t1 self = 0 \<or> (ga_t0 self = - (2 ^ 63) \<and> ga_t1 self = - 1) then None
      else let q = ga_t0 self sdiv ga_t1 self
           in Some (if n = 0 then ga_t0 self
                    else if n = 1 then ga_t1 self
                    else backoff (ga_t1 self) q (ga_eventMessages self) n))"

definition GOOSEPublisher_SendEvent ::
    "(handler, 'sim) simulator \<Rightarrow> (int \<Rightarrow> int \<Rightarrow> byte \<Rightarrow> byte \<Rightarrow> int) \<Rightarrow> 'sim \<Rightarrow> GOOSEPublisher \<Rightarrow>
     ('sim \<times> GOOSEPublisher) option" where
  "GOOSEPublisher_SendEvent S backoff sim self =
     (if ga_count self = 0 then Some (sim, self)
      else do {
        let sim = sim_Cancel S (ga_eventId self) sim;
        if ga_eventMessages self < ga_eventCount self then do {
          let self = self\<lparr>ga_eventCount := 1\<rparr>;
          let (e, sim) = sim_Schedule S (ga_eventInterval self) SendEvent sim;
          let self = self\<lparr>ga_gooseEventId := Some e\<rparr>;
          GOOSEPublisher_Send S sim self }
        else do {
          self \<leftarrow> send_message S sim self;
          t \<leftarrow> GOOSEPublisher_T backoff self (ga_eventCount self);
          let (e, sim) = sim_Schedule S t SendEvent sim;
          let self = self\<lparr>ga_eventId := Some e\<rparr>;
          Some (sim, self\<lparr>ga_eventCount := ga_eventCount self + 1\<rparr>) } })"

definition GOOSEPublisher_StopApplication ::
    "(handler, 'sim) simulator \<Rightarrow> 'sim \<Rightarrow> GOOSEPublisher \<Rightarrow> ('sim \<times> GOOSEPublisher) option" where
  "GOOSEPublisher_StopApplication S sim self = do {
     let sim = sim_Cancel S (ga_eventId self) sim;
     let sim = (if ga_sendEvents self then sim_Cancel S (ga_gooseEventId self) sim else sim);
     publisher \<leftarrow> ga_publisher self;
     values \<leftarrow> ga_dataSetValues self;
     Some (sim, self\<lparr>ga_publisher := None, ga_dataSetValues := None\<rparr>) }"

definition run_handler ::
    "(handler, 'sim) simulator \<Rightarrow> (int \<Rightarrow> int \<Rightarrow> byte \<Rightarrow> byte \<Rightarrow> int) \<Rightarrow> handler \<Rightarrow> 'sim \<Rightarrow> GOOSEPublisher \<Rightarrow>
     ('sim \<times> GOOSEPublisher) option" where
  "run_handler S backoff h =
     (case h of Send \<Rightarrow> GOOSEPublisher_Send S | SendEvent \<Rightarrow> GOOSEPublisher_SendEvent S backoff)"

text \<open>One step of a simulation: the simulator takes the next event and runs its handler.\<close>

inductive app_step ::
    "(handler, 'sim) simulator \<Rightarrow> ('sim \<Rightarrow> handler sim_view) \<Rightarrow> (int \<Rightarrow> int \<Rightarrow> byte \<Rightarrow> byte \<Rightarrow> int) \<Rightarrow>
     'sim \<times> GOOSEPublisher \<Rightarrow> 'sim \<times> GOOSEPublisher \<Rightarrow> bool"
  for S view backoff where
  fire: "takes_event (view sim) e h (view sim1) \<Longrightarrow>
    run_handler S backoff h sim1 self = Some (sim2, self2) \<Longrightarrow>
    app_step S view backoff (sim, self) (sim2, self2)"

inductive_cases app_stepE: "app_step S view backoff (sim, self) s'"

section \<open>The receiver application\<close>

text \<open>The subscriber the application created is the first of the receiver. Times are in milliseconds.\<close>

record GOOSEReceiver =
  gra_receiver :: "GooseReceiver option"
  gra_deviceIndex :: uint64
  gra_lastReceivedTime :: uint64
  gra_lastStNum :: uint16
  gra_received :: uint64

definition GOOSEReceiver_StartApplication ::
    "devices \<Rightarrow> buffer \<Rightarrow> uint32 \<Rightarrow> GOOSEReceiver \<Rightarrow> GOOSEReceiver option" where
  "GOOSEReceiver_StartApplication devices heap nodeId self = do {
     let path = device_path nodeId (gra_deviceIndex self);
     receiver \<leftarrow> GooseReceiver_setInterfaceId (GooseReceiver_create heap) (c_str path);
     subscriber \<leftarrow> GooseSubscriber_create (c_str goCbRef) None;
     subscriber \<leftarrow> GooseSubscriber_setDstMac subscriber [0x01, 0x0c, 0xcd, 0x01, 0x00, 0x01];
     let subscriber = GooseSubscriber_setAppId subscriber 1000;
     let subscriber = GooseSubscriber_setListener subscriber True;
     let self = self\<lparr>gra_received := 0\<rparr>;
     let receiver = GooseReceiver_addSubscriber receiver subscriber;
     receiver \<leftarrow> GooseReceiver_start devices receiver;
     Some (self\<lparr>gra_receiver := Some receiver\<rparr>) }"

definition GOOSEReceiver_Receive :: "GOOSEReceiver \<Rightarrow> GOOSEReceiver option" where
  "GOOSEReceiver_Receive self = do {
     receiver \<leftarrow> gra_receiver self;
     (case gr_subscriberList receiver of
        [] \<Rightarrow> None
      | subscriber # _ \<Rightarrow> do {
          t \<leftarrow> GooseSubscriber_getTimestamp subscriber;
          Some (self\<lparr>gra_lastReceivedTime := t, gra_lastStNum := ucast (gs_stNum subscriber),
            gra_received := gra_received self + 1\<rparr>) }) }"

text \<open>The socket calls \<open>goose_receiveCallback\<close> for a packet; the listener is the last thing that runs.\<close>

definition goose_receiveCallback :: "uint64 \<Rightarrow> buffer \<Rightarrow> GOOSEReceiver \<Rightarrow> GOOSEReceiver option" where
  "goose_receiveCallback now packet self = do {
     receiver \<leftarrow> gra_receiver self;
     (_, receiver, event) \<leftarrow> GooseReceiver_tick now packet receiver;
     let self = self\<lparr>gra_receiver := Some receiver\<rparr>;
     (case event of None \<Rightarrow> Some self | Some i \<Rightarrow> GOOSEReceiver_Receive self) }"

definition GOOSEReceiver_StopApplication :: "GOOSEReceiver \<Rightarrow> GOOSEReceiver option" where
  "GOOSEReceiver_StopApplication self = do {
     receiver \<leftarrow> gra_receiver self;
     Some (self\<lparr>gra_receiver := None\<rparr>) }"

fun receive_all :: "(uint64 \<times> buffer) list \<Rightarrow> GOOSEReceiver \<Rightarrow> GOOSEReceiver option" where
  "receive_all [] self = Some self"
| "receive_all ((now, packet) # ps) self = do {
     self \<leftarrow> goose_receiveCallback now packet self;
     receive_all ps self }"

end
