(* ===== verification/Goose_App_Run.thy ===== *)
theory Goose_App_Run
  imports Goose_App
begin

text \<open>
  Runs of the GOOSE publisher application: the invariant of its publisher and of its timers, how many
  messages a run sends, that no handler faults, and that a stopped application has no pending event.
\<close>

section \<open>The messages\<close>

definition the_values :: "MmsValue option list" where
  "the_values = [Some (MmsInteger \<lparr>size8 = 2, maxSize = 5, octets = [4, 210, 0, 0, 0]\<rparr>),
     Some (MmsBinaryTime 6 [0, 0, 0, 0, 0, 0]),
     Some (MmsInteger \<lparr>size8 = 2, maxSize = 5, octets = [22, 46, 0, 0, 0]\<rparr>)]"

lemma app_values_eq: "app_values = Some the_values"
  by code_simp

lemma the_values_ok: "dataset_ok the_values" "goose_values the_values"
    "length (elements_bytes the_values) = 16" "accepts_all the_values the_values"
  by code_simp+

lemma references_ok:
  "length goCbRef = 41" "length dataSetRef = 35" "0 \<notin> set goCbRef" "0 \<notin> set dataSetRef"
  by code_simp+

text \<open>The publisher of a started application.\<close>

definition app_pub :: "uint16 \<Rightarrow> byte list \<Rightarrow> GoosePublisher \<Rightarrow> bool" where
  "app_pub app mac pub \<longleftrightarrow> linked (app_parameters app) mac pub \<and> gp_payloadStart pub \<le> 26 \<and>
     str_content (gp_goCBRef pub) = goCbRef \<and> str_content (gp_dataSetRef pub) = dataSetRef \<and>
     gp_goID pub = None \<and> gp_confRev pub = 1"

abbreviation app_header :: "uint16 \<Rightarrow> byte list \<Rightarrow> byte list" where
  "app_header app mac \<equiv> goose_header (app_parameters app) mac True"

lemma app_pub_fits:
  assumes "app_pub app mac pub"
  shows "length (goose_apdu pub the_values) \<le> 1518 - gp_payloadStart pub"
proof -
  have "gp_ok pub" using assms by (simp add: app_pub_def linked_def gp_inv_def)
  moreover have "goose_id pub = gp_goCBRef pub" using assms by (simp add: app_pub_def goose_id_def)
  ultimately show ?thesis
    using length_goose_apdu_le [of pub the_values] assms
    by (auto simp: app_pub_def references_ok the_values_ok)
qed

lemma increaseStNum_app:
  assumes "app_pub app mac pub" and "unat now < 1000 * 2 ^ 32"
  obtains pub' where "GoosePublisher_increaseStNum now pub = Some (now, pub')" and "app_pub app mac pub'"
    and "gp_stNum pub' = next_sqNum (gp_stNum pub)" and "gp_sqNum pub' = 0"
    and "MmsValue_getUtcTimeInMs (gp_timestamp pub') = Some now"
    and "gp_ethernetSocket pub' = gp_ethernetSocket pub"
proof -
  have inv: "gp_inv (app_header app mac) pub" using assms(1) by (simp add: app_pub_def linked_def)
  obtain pub' where p: "GoosePublisher_increaseStNum now pub = Some (now, pub')"
      "gp_inv (app_header app mac) pub'" "gp_stNum pub' = next_sqNum (gp_stNum pub)" "gp_sqNum pub' = 0"
      "MmsValue_getUtcTimeInMs (gp_timestamp pub') = Some now"
      "gp_ethernetSocket pub' = gp_ethernetSocket pub"
    by (rule increaseStNum_inv [OF inv assms(2)])
  have "gp_goCBRef pub' = gp_goCBRef pub" "gp_dataSetRef pub' = gp_dataSetRef pub"
      "gp_goID pub' = gp_goID pub" "gp_confRev pub' = gp_confRev pub" "gp_payloadStart pub' = gp_payloadStart pub"
    using p(1) by (auto simp: GoosePublisher_increaseStNum_def Let_def bind_eq_Some_conv)
  then have "app_pub app mac pub'"
    using assms(1) p(2) by (simp add: app_pub_def linked_def goose_id_def references_ok)
  then show thesis using that p by blast
qed

lemma publish_app:
  assumes "app_pub app mac pub"
  obtains pub' where "GoosePublisher_publish pub the_values = Some (0, pub')" and "app_pub app mac pub'"
    and "gp_stNum pub' = gp_stNum pub" and "utc_content pub' = utc_content pub"
    and "es_sent (gp_ethernetSocket pub')
      = es_sent (gp_ethernetSocket pub) @ [goose_packet (app_header app mac) pub the_values]"
proof -
  have inv: "gp_inv (app_header app mac) pub" using assms(1) by (simp add: app_pub_def linked_def)
  obtain pub' where p: "GoosePublisher_publish pub the_values = Some (0, pub')"
      "gp_inv (app_header app mac) pub'" "same_message pub' pub"
      "gp_payloadStart pub' = gp_payloadStart pub"
      "es_sent (gp_ethernetSocket pub')
        = es_sent (gp_ethernetSocket pub) @ [goose_packet (app_header app mac) pub the_values]"
    by (rule publish_step [OF inv the_values_ok(1) app_pub_fits [OF assms]])
  have "app_pub app mac pub'"
    using assms p(2,4) same_message_link [OF p(3)] p(3)
    by (simp add: app_pub_def linked_def same_message_def references_ok)
  then show thesis using that p same_message_link [OF p(3)] by blast
qed

text \<open>One message: a new state number, sequence number 0, the time of the call.\<close>

definition message_of :: "uint64 \<Rightarrow> GoosePublisher \<Rightarrow> GoosePublisher \<Rightarrow> bool" where
  "message_of now pub msg \<longleftrightarrow> gp_stNum msg = next_sqNum (gp_stNum pub) \<and> gp_sqNum msg = 0 \<and>
     MmsValue_getUtcTimeInMs (gp_timestamp msg) = Some now"

lemma send_message_sends:
  assumes "ga_publisher self = Some pub" and "ga_dataSetValues self = Some the_values"
    and "app_pub app mac pub" and "unat (Hal_getTimeInMs S sim) < 1000 * 2 ^ 32"
  obtains msg pub' where "send_message S sim self = Some (self\<lparr>ga_publisher := Some pub',
      ga_sent := ga_sent self + 1, ga_count := ga_count self - 1\<rparr>)"
    and "app_pub app mac pub'" and "app_pub app mac msg" and "message_of (Hal_getTimeInMs S sim) pub msg"
    and "gp_stNum pub' = gp_stNum msg"
    and "es_sent (gp_ethernetSocket pub')
      = es_sent (gp_ethernetSocket pub) @ [goose_packet (app_header app mac) msg the_values]"
proof -
  obtain msg where msg: "GoosePublisher_increaseStNum (Hal_getTimeInMs S sim) pub = Some (Hal_getTimeInMs S sim, msg)"
      "app_pub app mac msg" "gp_stNum msg = next_sqNum (gp_stNum pub)" "gp_sqNum msg = 0"
      "MmsValue_getUtcTimeInMs (gp_timestamp msg) = Some (Hal_getTimeInMs S sim)"
      "gp_ethernetSocket msg = gp_ethernetSocket pub"
    by (rule increaseStNum_app [OF assms(3,4)])
  obtain pub' where pub': "GoosePublisher_publish msg the_values = Some (0, pub')" "app_pub app mac pub'"
      "gp_stNum pub' = gp_stNum msg" "utc_content pub' = utc_content msg"
      "es_sent (gp_ethernetSocket pub')
        = es_sent (gp_ethernetSocket msg) @ [goose_packet (app_header app mac) msg the_values]"
    by (rule publish_app [OF msg(2)])
  show thesis
    by (rule that [of pub' msg]) (simp_all add: send_message_def assms msg pub' message_of_def)
qed

section \<open>The invariant\<close>

text \<open>Counters and publisher: what was sent and what is left add up to \<open>N\<close>, every message sent is a
  packet at the socket, and the times of an application with events allow the quotient of \<open>T\<close>.\<close>

definition app_base :: "uint16 \<Rightarrow> byte list \<Rightarrow> uint64 \<Rightarrow> GOOSEPublisher \<Rightarrow> bool" where
  "app_base app mac N self \<longleftrightarrow>
     (\<exists>pub. ga_publisher self = Some pub \<and> app_pub app mac pub \<and>
        length (es_sent (gp_ethernetSocket pub)) = unat (ga_sent self)) \<and>
     ga_dataSetValues self = Some the_values \<and>
     unat (ga_sent self) + unat (ga_count self) = unat N \<and>
     (ga_sendEvents self \<longrightarrow> ga_t1 self \<noteq> 0 \<and> \<not> (ga_t0 self = - (2 ^ 63) \<and> ga_t1 self = - 1))"

text \<open>The timers: without events the repetition; with events either the repetition and the next
  event, or the repetitions of an event.\<close>

definition timers :: "GOOSEPublisher \<Rightarrow> (nat \<rightharpoonup> int \<times> handler) \<Rightarrow> bool" where
  "timers self p \<longleftrightarrow>
     (\<exists>e t. ga_eventId self = Some e \<and>
        (if ga_sendEvents self
         then p = [e \<mapsto> (t, SendEvent)] \<or>
           (\<exists>g t'. ga_gooseEventId self = Some g \<and> g \<noteq> e \<and> p = [e \<mapsto> (t, Send), g \<mapsto> (t', SendEvent)])
         else p = [e \<mapsto> (t, Send)]))"

definition app_inv ::
    "('sim \<Rightarrow> handler sim_view) \<Rightarrow> uint16 \<Rightarrow> byte list \<Rightarrow> uint64 \<Rightarrow> 'sim \<times> GOOSEPublisher \<Rightarrow> bool" where
  "app_inv view app mac N s \<longleftrightarrow>
     (let v = view (fst s); self = snd s in
      app_base app mac N self \<and> set_option (ga_eventId self) \<subseteq> v_issued v \<and>
      set_option (ga_gooseEventId self) \<subseteq> v_issued v \<and>
      (\<exists>p. timers self p \<and> v_pending v \<subseteq>\<^sub>m p \<and> (ga_count self \<noteq> 0 \<longrightarrow> v_pending v = p)))"

text \<open>The time stamps of a message count seconds in 32 bits.\<close>

definition in_time :: "'h sim_view \<Rightarrow> bool" where
  "in_time v \<longleftrightarrow> 0 \<le> v_now v \<and> v_now v < 1000 * 2 ^ 32 * 1000000"

lemma in_time_ms:
  assumes "simulates S view" and "in_time (view sim)"
  shows "unat (Hal_getTimeInMs S sim) < 1000 * 2 ^ 32"
    and "Hal_getTimeInMs S sim = word_of_int (v_now (view sim) div 1000000)"
proof -
  have "0 \<le> v_now (view sim) div 1000000" "v_now (view sim) div 1000000 < 1000 * 2 ^ 32"
    using assms(2) unfolding in_time_def by linarith+
  then show "unat (Hal_getTimeInMs S sim) < 1000 * 2 ^ 32"
    by (simp add: Hal_getTimeInMs_def now_view [OF assms(1)] unat_eq_nat_uint uint_word_of_int nat_less_iff)
  show "Hal_getTimeInMs S sim = word_of_int (v_now (view sim) div 1000000)"
    by (simp add: Hal_getTimeInMs_def now_view [OF assms(1)])
qed

text \<open>The effect of one message on the application.\<close>

definition sent_one :: "uint16 \<Rightarrow> byte list \<Rightarrow> uint64 \<Rightarrow> GOOSEPublisher \<Rightarrow> GOOSEPublisher \<Rightarrow> bool" where
  "sent_one app mac now self self' \<longleftrightarrow>
     (\<exists>pub msg pub'. ga_publisher self = Some pub \<and> ga_publisher self' = Some pub' \<and>
        app_pub app mac msg \<and> message_of now pub msg \<and> gp_stNum pub' = gp_stNum msg \<and>
        es_sent (gp_ethernetSocket pub')
          = es_sent (gp_ethernetSocket pub) @ [goose_packet (app_header app mac) msg the_values]) \<and>
     unat (ga_sent self') = unat (ga_sent self) + 1"

lemma send_message_base:
  assumes base: "app_base app mac N self" and count: "ga_count self \<noteq> 0"
    and time: "unat (Hal_getTimeInMs S sim) < 1000 * 2 ^ 32"
  obtains self' pub' where "send_message S sim self = Some self'" and "app_base app mac N self'"
    and "sent_one app mac (Hal_getTimeInMs S sim) self self'"
    and "self' = self\<lparr>ga_publisher := Some pub', ga_sent := ga_sent self + 1, ga_count := ga_count self - 1\<rparr>"
proof -
  obtain pub where pub: "ga_publisher self = Some pub" "app_pub app mac pub"
      "length (es_sent (gp_ethernetSocket pub)) = unat (ga_sent self)"
    using base by (auto simp: app_base_def)
  have vals: "ga_dataSetValues self = Some the_values"
    and sum: "unat (ga_sent self) + unat (ga_count self) = unat N"
    using base by (auto simp: app_base_def)
  have c: "unat (ga_count self - 1) = unat (ga_count self) - 1" "0 < unat (ga_count self)"
    using count by (auto simp: unat_minus_one unat_gt_0)
  have "unat (ga_sent self) + 1 \<le> unat N" using sum c(2) by linarith
  moreover have "unat N < 2 ^ LENGTH(64)" by (rule unsigned_less)
  ultimately have s: "unat (ga_sent self + 1) = unat (ga_sent self) + 1" by (simp add: unat_word_ariths)
  obtain msg pub' where m: "send_message S sim self = Some (self\<lparr>ga_publisher := Some pub',
        ga_sent := ga_sent self + 1, ga_count := ga_count self - 1\<rparr>)"
      "app_pub app mac pub'" "app_pub app mac msg" "message_of (Hal_getTimeInMs S sim) pub msg"
      "gp_stNum pub' = gp_stNum msg"
      "es_sent (gp_ethernetSocket pub')
        = es_sent (gp_ethernetSocket pub) @ [goose_packet (app_header app mac) msg the_values]"
    by (rule send_message_sends [OF pub(1) vals pub(2) time])
  show thesis
    by (rule that [OF m(1) _ _ refl])
      (use base m pub c s sum vals in \<open>auto simp: app_base_def sent_one_def\<close>)
qed

section \<open>The handlers keep the invariant\<close>

text \<open>Only the next event is pending, if there are events.\<close>

definition awaits_event :: "GOOSEPublisher \<Rightarrow> (nat \<rightharpoonup> int \<times> handler) \<Rightarrow> bool" where
  "awaits_event self p \<longleftrightarrow>
     (if ga_sendEvents self then \<exists>g t. ga_gooseEventId self = Some g \<and> p = [g \<mapsto> (t, SendEvent)]
      else p = Map.empty)"

lemma timers_repetition:
  assumes "awaits_event self p" and "set_option (ga_gooseEventId self) \<subseteq> I" and "e \<notin> I"
    and "ga_eventId self' = Some e" and "ga_sendEvents self' = ga_sendEvents self"
    and "ga_gooseEventId self' = ga_gooseEventId self"
  shows "timers self' (p(e \<mapsto> (t, Send)))"
proof (cases "ga_sendEvents self")
  case True
  then obtain g t' where g: "ga_gooseEventId self = Some g" "p = [g \<mapsto> (t', SendEvent)]"
    using assms(1) by (auto simp: awaits_event_def)
  then have "g \<noteq> e" using assms(2,3) by auto
  then have "p(e \<mapsto> (t, Send)) = [e \<mapsto> (t, Send), g \<mapsto> (t', SendEvent)]"
    using g(2) by (simp add: fun_upd_twist)
  then show ?thesis using True g(1) \<open>g \<noteq> e\<close> assms(4-6) by (auto simp: timers_def)
qed (use assms in \<open>auto simp: timers_def awaits_event_def\<close>)

text \<open>\<open>Send\<close>, when the next event is all that is pending.\<close>

lemma Send_step:
  assumes sim: "simulates S view" and base: "app_base app mac N self" and count: "ga_count self \<noteq> 0"
    and time: "in_time (view sim)" and iss: "set_option (ga_gooseEventId self) \<subseteq> v_issued (view sim)"
    and pend: "awaits_event self (v_pending (view sim))"
  obtains sim' self' where "GOOSEPublisher_Send S sim self = Some (sim', self')"
    and "app_inv view app mac N (sim', self')" and "v_now (view sim') = v_now (view sim)"
    and "sent_one app mac (Hal_getTimeInMs S sim) self self'"
proof -
  obtain self1 pub1 where m: "send_message S sim self = Some self1" "app_base app mac N self1"
      "sent_one app mac (Hal_getTimeInMs S sim) self self1"
      "self1 = self\<lparr>ga_publisher := Some pub1, ga_sent := ga_sent self + 1, ga_count := ga_count self - 1\<rparr>"
    by (rule send_message_base [OF base count in_time_ms(1) [OF sim time]])
  obtain e sim' where e: "sim_Schedule S (ga_t0 self1) Send sim = (e, sim')" "e \<notin> v_issued (view sim)"
      "v_pending (view sim') = (v_pending (view sim))(e \<mapsto> (v_now (view sim) + ga_t0 self1, Send))"
      "v_issued (view sim') = insert e (v_issued (view sim))" "v_now (view sim') = v_now (view sim)"
    by (rule schedule_view [OF sim])
  let ?self = "self1\<lparr>ga_eventId := Some e\<rparr>"
  have base': "app_base app mac N ?self" and one: "sent_one app mac (Hal_getTimeInMs S sim) self ?self"
    using m(2,3) by (simp_all add: app_base_def sent_one_def)
  have "timers ?self (v_pending (view sim'))"
    unfolding e(3) by (rule timers_repetition [OF pend iss e(2)]) (simp_all add: m(4))
  then have "app_inv view app mac N (sim', ?self)"
    using base' iss e(4) by (auto simp: app_inv_def Let_def m(4))
  then show thesis using that [OF _ _ e(5) one] m(1) e(1) count by (simp add: GOOSEPublisher_Send_def)
qed

text \<open>\<open>SendEvent\<close>: after the cancellation of the repetition nothing is pending.\<close>

lemma SendEvent_step:
  assumes sim: "simulates S view" and base: "app_base app mac N self" and count: "ga_count self \<noteq> 0"
    and time: "in_time (view sim)" and ev: "ga_sendEvents self" "ga_eventId self = Some e0"
    and iss: "set_option (ga_gooseEventId self) \<subseteq> v_issued (view sim)"
    and pend: "(v_pending (view sim))(e0 := None) = Map.empty"
  obtains sim' self' where "GOOSEPublisher_SendEvent S backoff sim self = Some (sim', self')"
    and "app_inv view app mac N (sim', self')" and "v_now (view sim') = v_now (view sim)"
    and "sent_one app mac (Hal_getTimeInMs S sim) self self'"
proof -
  let ?sim = "sim_Cancel S (Some e0) sim"
  note c = cancel_view [OF sim, of e0 sim]
  have ms: "Hal_getTimeInMs S ?sim = Hal_getTimeInMs S sim"
    by (simp add: Hal_getTimeInMs_def now_view [OF sim] c(3))
  have time': "in_time (view ?sim)" using time c(3) by (simp add: in_time_def)
  show thesis
  proof (cases "ga_eventMessages self < ga_eventCount self")
    case True
    obtain g sim1 where g: "sim_Schedule S (ga_eventInterval self) SendEvent ?sim = (g, sim1)"
        "g \<notin> v_issued (view ?sim)"
        "v_pending (view sim1) = (v_pending (view ?sim))(g \<mapsto> (v_now (view ?sim) + ga_eventInterval self, SendEvent))"
        "v_issued (view sim1) = insert g (v_issued (view ?sim))" "v_now (view sim1) = v_now (view ?sim)"
      by (rule schedule_view [OF sim])
    let ?self = "self\<lparr>ga_eventCount := 1, ga_gooseEventId := Some g\<rparr>"
    have ms1: "Hal_getTimeInMs S sim1 = Hal_getTimeInMs S sim"
      by (simp add: Hal_getTimeInMs_def now_view [OF sim] c(3) g(5))
    have base': "app_base app mac N ?self" using base by (simp add: app_base_def)
    have time1: "in_time (view sim1)" using time c(3) g(5) by (simp add: in_time_def)
    obtain sim' self' where s: "GOOSEPublisher_Send S sim1 ?self = Some (sim', self')"
        "app_inv view app mac N (sim', self')" "v_now (view sim') = v_now (view sim1)"
        "sent_one app mac (Hal_getTimeInMs S sim1) ?self self'"
      by (rule Send_step [OF sim base' _ time1]) (use count ev g(3,4) c(1) pend in \<open>auto simp: awaits_event_def\<close>)
    have "sent_one app mac (Hal_getTimeInMs S sim) self self'" using s(4) ms1 by (simp add: sent_one_def)
    moreover have "GOOSEPublisher_SendEvent S backoff sim self = Some (sim', self')"
      using True count ev(2) g(1) s(1) by (simp add: GOOSEPublisher_SendEvent_def Let_def)
    ultimately show thesis using that s(2,3) c(3) g(5) by simp
  next
    case False
    have time2: "unat (Hal_getTimeInMs S ?sim) < 1000 * 2 ^ 32" by (rule in_time_ms(1) [OF sim time'])
    obtain self1 pub1 where m: "send_message S ?sim self = Some self1" "app_base app mac N self1"
        "sent_one app mac (Hal_getTimeInMs S ?sim) self self1"
        "self1 = self\<lparr>ga_publisher := Some pub1, ga_sent := ga_sent self + 1, ga_count := ga_count self - 1\<rparr>"
      by (rule send_message_base [OF base count time2])
    have "ga_sendEvents self1" using ev(1) by (simp add: m(4))
    then obtain t where t: "GOOSEPublisher_T backoff self1 (ga_eventCount self1) = Some t"
      using m(2) by (auto simp: GOOSEPublisher_T_def app_base_def Let_def)
    obtain e sim' where e: "sim_Schedule S t SendEvent ?sim = (e, sim')" "e \<notin> v_issued (view ?sim)"
        "v_pending (view sim') = (v_pending (view ?sim))(e \<mapsto> (v_now (view ?sim) + t, SendEvent))"
        "v_issued (view sim') = insert e (v_issued (view ?sim))" "v_now (view sim') = v_now (view ?sim)"
      by (rule schedule_view [OF sim])
    let ?self = "self1\<lparr>ga_eventId := Some e, ga_eventCount := ga_eventCount self1 + 1\<rparr>"
    have base': "app_base app mac N ?self" and one: "sent_one app mac (Hal_getTimeInMs S sim) self ?self"
      using m(2,3) by (simp_all add: app_base_def sent_one_def ms)
    have "timers ?self (v_pending (view sim'))"
      using pend ev e(3) c(1) by (auto simp: timers_def m(4))
    then have "app_inv view app mac N (sim', ?self)"
      using base' iss e(4) c(2) by (auto simp: app_inv_def Let_def m(4))
    moreover have "GOOSEPublisher_SendEvent S backoff sim self = Some (sim', ?self)"
      using False count ev(2) m(1) t e(1) by (simp add: GOOSEPublisher_SendEvent_def Let_def)
    ultimately show thesis using that one c(3) e(5) by simp
  qed
qed

text \<open>A step of the simulation: the handler returns, keeps the invariant and sends one message, or
  does nothing when the maximum number of messages is reached.\<close>

lemma event_pending:
  assumes "timers self p" and "p e = Some (t, h)"
  shows "h = Send \<Longrightarrow> awaits_event self (p(e := None))"
    and "h = SendEvent \<Longrightarrow> ga_sendEvents self \<and>
      (\<exists>e0. ga_eventId self = Some e0 \<and> p(e := None, e0 := None) = Map.empty)"
proof -
  obtain e0 t0 where e0: "ga_eventId self = Some e0"
    and p: "(ga_sendEvents self \<and> p = [e0 \<mapsto> (t0, SendEvent)]) \<or>
      (\<exists>g t'. ga_sendEvents self \<and> ga_gooseEventId self = Some g \<and> g \<noteq> e0 \<and>
        p = [e0 \<mapsto> (t0, Send), g \<mapsto> (t', SendEvent)]) \<or>
      (\<not> ga_sendEvents self \<and> p = [e0 \<mapsto> (t0, Send)])"
    using assms(1) by (auto simp: timers_def split: if_splits)
  show "awaits_event self (p(e := None))" if "h = Send"
    using p assms(2) that by (auto simp: awaits_event_def fun_upd_twist split: if_splits)
  show "ga_sendEvents self \<and> (\<exists>e0. ga_eventId self = Some e0 \<and> p(e := None, e0 := None) = Map.empty)"
    if "h = SendEvent"
    using p assms(2) that e0 by (auto simp: fun_upd_twist split: if_splits)
qed

lemma handler_step:
  assumes sim: "simulates S view" and inv: "app_inv view app mac N (sim, self)"
    and takes: "takes_event (view sim) e h (view sim1)" and time: "in_time (view sim1)"
  obtains sim2 self2 where "run_handler S backoff h sim1 self = Some (sim2, self2)"
    and "app_inv view app mac N (sim2, self2)" and "v_now (view sim2) = v_now (view sim1)"
    and "ga_count self = 0 \<longrightarrow> self2 = self \<and> dom (v_pending (view sim2)) \<subset> dom (v_pending (view sim))"
    and "ga_count self \<noteq> 0 \<longrightarrow> sent_one app mac (Hal_getTimeInMs S sim1) self self2"
proof -
  obtain p t where base: "app_base app mac N self"
      and iss: "set_option (ga_eventId self) \<subseteq> v_issued (view sim)"
        "set_option (ga_gooseEventId self) \<subseteq> v_issued (view sim)"
      and p: "timers self p" "v_pending (view sim) \<subseteq>\<^sub>m p" "ga_count self \<noteq> 0 \<longrightarrow> v_pending (view sim) = p"
    using inv by (auto simp: app_inv_def Let_def)
  obtain t where t: "v_pending (view sim) e = Some (t, h)"
      "v_pending (view sim1) = (v_pending (view sim))(e := None)" "v_issued (view sim1) = v_issued (view sim)"
    using takes by (auto simp: takes_event_def)
  have iss1: "set_option (ga_gooseEventId self) \<subseteq> v_issued (view sim1)" using iss t(3) by simp
  show thesis
  proof (cases "ga_count self = 0")
    case True
    then have "run_handler S backoff h sim1 self = Some (sim1, self)"
      by (cases h) (simp_all add: run_handler_def GOOSEPublisher_Send_def GOOSEPublisher_SendEvent_def)
    moreover have "v_pending (view sim1) \<subseteq>\<^sub>m p" using p(2) t(2) by (auto simp: map_le_def)
    then have "app_inv view app mac N (sim1, self)"
      using base iss p(1) t(3) True by (auto simp: app_inv_def Let_def)
    moreover have "dom (v_pending (view sim1)) \<subset> dom (v_pending (view sim))" using t(1,2) by auto
    ultimately show thesis using that True by simp
  next
    case count: False
    then have pe: "p e = Some (t, h)" "v_pending (view sim1) = p(e := None)" using p(3) t by auto
    show thesis
    proof (cases h)
      case Send
      have "awaits_event self (v_pending (view sim1))"
        unfolding pe(2) by (rule event_pending(1) [OF p(1) pe(1) Send])
      then show thesis
        using Send_step [OF sim base count time iss1] that count Send by (metis handler.simps(3) run_handler_def)
    next
      case SendEvent
      obtain e0 where e0: "ga_sendEvents self" "ga_eventId self = Some e0" "p(e := None, e0 := None) = Map.empty"
        using event_pending(2) [OF p(1) pe(1) SendEvent] by blast
      then have "(v_pending (view sim1))(e0 := None) = Map.empty" using pe(2) by simp
      then show thesis
        using SendEvent_step [OF sim base count time e0(1,2) iss1] that count SendEvent
        by (metis handler.simps(4) run_handler_def)
    qed
  qed
qed

section \<open>Start and stop\<close>

text \<open>An application as configured: its node and device exist, and the times allow the quotient of \<open>T\<close>
  when events are enabled.\<close>

definition app_configured :: "devices \<Rightarrow> byte list \<Rightarrow> uint32 \<Rightarrow> GOOSEPublisher \<Rightarrow> bool" where
  "app_configured devices mac nodeId self \<longleftrightarrow>
     devices (c_str (device_path nodeId (ga_deviceIndex self))) = Some mac \<and> length mac = 6 \<and>
     (ga_eventInterval self \<noteq> 0 \<longrightarrow>
        ga_t1 self \<noteq> 0 \<and> \<not> (ga_t0 self = - (2 ^ 63) \<and> ga_t1 self = - 1)) \<and>
     ga_gooseEventId self = None"

text \<open>The number of messages: the attribute \<open>MaxPackets\<close>, where 0 becomes the largest number.\<close>

definition max_packets :: "GOOSEPublisher \<Rightarrow> uint64" where
  "max_packets self = (if ga_count self = 0 then - 1 else ga_count self)"

lemma create_app:
  assumes "devices i = Some mac" and "length mac = 6" and "length heap = 1518" and "unat now < 1000 * 2 ^ 32"
  obtains p0 p1 p2 where "GoosePublisher_create devices heap now (Some (app_parameters app)) (Some i) = Some p0"
    and "GoosePublisher_setGoCbRef p0 (c_str goCbRef) = Some p1"
    and "GoosePublisher_setDataSetRef (GoosePublisher_setConfRev p1 1) (c_str dataSetRef) = Some p2"
    and "app_pub app mac (GoosePublisher_setTimeAllowedToLive p2 500)"
    and "es_sent (gp_ethernetSocket p2) = []" and "gp_stNum p2 = 1"
proof -
  let ?p = "app_parameters app"
  have d: "length (dstAddress ?p) = 6" by (simp add: app_parameters_def)
  obtain p0 where p0: "GoosePublisher_createEx devices heap now (Some ?p) (Some i) True = Some p0"
      "gp_inv (goose_header ?p mac True) p0" "gp_stNum p0 = 1" "es_sent (gp_ethernetSocket p0) = []"
      "gp_goID p0 = None"
    by (rule createEx_inv [of devices i mac ?p heap now True]) (use assms d in auto)
  have ok: "string_ok (Some (c_str goCbRef))" "string_ok (Some (c_str dataSetRef))"
    using references_ok by (simp_all add: string_ok_def c_str_def takeWhile_stop)
  obtain p1 where p1: "GoosePublisher_setGoCbRef p0 (c_str goCbRef) = Some p1"
      "gp_inv (goose_header ?p mac True) p1"
    using string_setters_inv(2) [OF p0(2) ok(1)] by blast
  have c: "gp_inv (goose_header ?p mac True) (GoosePublisher_setConfRev p1 1)" by (rule setters_inv(1) [OF p1(2)])
  obtain p2 where p2: "GoosePublisher_setDataSetRef (GoosePublisher_setConfRev p1 1) (c_str dataSetRef) = Some p2"
      "gp_inv (goose_header ?p mac True) p2"
    using string_setters_inv(3) [OF c ok(2)] by blast
  let ?p3 = "GoosePublisher_setTimeAllowedToLive p2 500"
  have inv: "gp_inv (goose_header ?p mac True) ?p3" by (rule setters_inv(6) [OF p2(2)])
  have p1': "p1 = p0\<lparr>gp_goCBRef := Some (c_str goCbRef)\<rparr>"
    using p1(1) references_ok(3) by (simp add: GoosePublisher_setGoCbRef_def)
  have p2': "p2 = p1\<lparr>gp_confRev := 1, gp_dataSetRef := Some (c_str dataSetRef)\<rparr>"
    using p2(1) references_ok(4) by (simp add: GoosePublisher_setDataSetRef_def GoosePublisher_setConfRev_def)
  have "gp_payloadStart ?p3 \<le> 26" using inv by (simp add: gp_inv_def frame_ok_def)
  then have "app_pub app mac ?p3"
    using inv d assms(2) p0(5) references_ok
    by (simp add: app_pub_def linked_def p2' p1' GoosePublisher_setTimeAllowedToLive_def goose_id_def
        c_str_def takeWhile_stop)
  then show thesis
    using that [OF _ p1(1) p2(1)] p0 by (simp add: GoosePublisher_create_def p2' p1')
qed

lemma start_inv:
  assumes sim: "simulates S view" and conf: "app_configured devices mac nodeId self"
    and heap: "length heap = 1518" and time: "in_time (view sim)" and idle: "v_pending (view sim) = Map.empty"
  obtains sim' self' pub where "GOOSEPublisher_StartApplication S devices heap nodeId sim self = Some (sim', self')"
    and "app_inv view (ga_appId self) mac (max_packets self) (sim', self')" and "ga_sent self' = 0"
    and "ga_publisher self' = Some pub" and "gp_stNum pub = 1" and "v_now (view sim') = v_now (view sim)"
proof -
  obtain p0 p1 p2 where pub: "GoosePublisher_create devices heap (Hal_getTimeInMs S sim)
        (Some (app_parameters (ga_appId self))) (Some (c_str (device_path nodeId (ga_deviceIndex self)))) = Some p0"
      "GoosePublisher_setGoCbRef p0 (c_str goCbRef) = Some p1"
      "GoosePublisher_setDataSetRef (GoosePublisher_setConfRev p1 1) (c_str dataSetRef) = Some p2"
      "app_pub (ga_appId self) mac (GoosePublisher_setTimeAllowedToLive p2 500)"
      "es_sent (gp_ethernetSocket p2) = []" "gp_stNum p2 = 1"
    by (rule create_app [of devices _ mac heap "Hal_getTimeInMs S sim" "ga_appId self"])
      (use conf heap in_time_ms(1) [OF sim time] in \<open>auto simp: app_configured_def\<close>)
  let ?pub = "GoosePublisher_setTimeAllowedToLive p2 500"
  define self1 where "self1 = self\<lparr>ga_dataSetValues := Some the_values,
      ga_sendEvents := (ga_eventInterval self \<noteq> 0), ga_eventCount := 1, ga_publisher := Some ?pub,
      ga_sent := 0, ga_count := max_packets self\<rparr>"
  define sg where "sg = (if ga_sendEvents self1
      then let (e, sim) = sim_Schedule S (ga_eventInterval self1) SendEvent sim
           in (sim, self1\<lparr>ga_gooseEventId := Some e\<rparr>)
      else (sim, self1))"
  obtain sim1 self2 where sg: "sg = (sim1, self2)" by fastforce
  have base: "app_base (ga_appId self) mac (max_packets self) self1"
    using pub conf
    by (auto simp: app_base_def self1_def app_configured_def GoosePublisher_setTimeAllowedToLive_def)
  obtain go where self2: "self2 = self1\<lparr>ga_gooseEventId := go\<rparr>" "set_option go \<subseteq> v_issued (view sim1)"
      "v_now (view sim1) = v_now (view sim)"
      "awaits_event self2 (v_pending (view sim1))"
  proof (cases "ga_sendEvents self1")
    case True
    obtain g s where g: "sim_Schedule S (ga_eventInterval self1) SendEvent sim = (g, s)"
        "v_pending (view s) = (v_pending (view sim))(g \<mapsto> (v_now (view sim) + ga_eventInterval self1, SendEvent))"
        "v_issued (view s) = insert g (v_issued (view sim))" "v_now (view s) = v_now (view sim)"
      by (rule schedule_view [OF sim])
    have "sg = (s, self1\<lparr>ga_gooseEventId := Some g\<rparr>)" using True g(1) by (simp add: sg_def)
    then have "sim1 = s" "self2 = self1\<lparr>ga_gooseEventId := Some g\<rparr>" using sg by simp_all
    then show thesis using that [of "Some g"] True g(2-4) idle by (auto simp: awaits_event_def)
  next
    case False
    have "ga_gooseEventId self1 = None" using conf by (simp add: self1_def app_configured_def)
    then have "self1 = self1\<lparr>ga_gooseEventId := None\<rparr>" by (cases self1) simp
    moreover have "sim1 = sim" "self2 = self1" using False sg by (simp_all add: sg_def)
    ultimately show thesis using that [of None] False idle by (simp add: awaits_event_def)
  qed
  obtain e sim' where e: "sim_ScheduleNow S Send sim1 = (e, sim')" "e \<notin> v_issued (view sim1)"
      "v_pending (view sim') = (v_pending (view sim1))(e \<mapsto> (v_now (view sim1), Send))"
      "v_issued (view sim') = insert e (v_issued (view sim1))" "v_now (view sim') = v_now (view sim1)"
    by (rule schedule_now_view [OF sim])
  let ?self = "self2\<lparr>ga_eventId := Some e\<rparr>"
  have "timers ?self (v_pending (view sim'))"
    unfolding e(3) by (rule timers_repetition [OF self2(4) _ e(2)]) (use self2(1,2) in simp_all)
  then have "app_inv view (ga_appId self) mac (max_packets self) (sim', ?self)"
    using base self2(2) e(4) by (auto simp: app_inv_def Let_def self2(1) app_base_def)
  moreover have "GOOSEPublisher_StartApplication S devices heap nodeId sim self = Some (sim', ?self)"
  proof -
    have "GOOSEPublisher_StartApplication S devices heap nodeId sim self = (let (sim, self) = sg;
        (e, sim) = sim_ScheduleNow S Send sim in Some (sim, self\<lparr>ga_eventId := Some e\<rparr>))"
      using pub(1-3) unfolding sg_def self1_def max_packets_def
      by (simp add: GOOSEPublisher_StartApplication_def app_values_eq Let_def)
    then show ?thesis by (simp add: sg e(1))
  qed
  ultimately show thesis
    using that [of sim' ?self ?pub] pub(6) e(5) self2(3)
    by (simp add: self2(1) self1_def GoosePublisher_setTimeAllowedToLive_def)
qed

lemma stop_idle:
  assumes sim: "simulates S view" and inv: "app_inv view app mac N (sim, self)"
  obtains sim' self' where "GOOSEPublisher_StopApplication S sim self = Some (sim', self')"
    and "v_pending (view sim') = Map.empty"
proof -
  obtain p e where p: "timers self p" "v_pending (view sim) \<subseteq>\<^sub>m p" "ga_eventId self = Some e"
    using inv by (auto simp: app_inv_def Let_def timers_def)
  let ?s1 = "sim_Cancel S (Some e) sim"
  let ?s2 = "if ga_sendEvents self then sim_Cancel S (ga_gooseEventId self) ?s1 else ?s1"
  have "v_pending (view ?s2) x = None" for x
  proof (cases "v_pending (view sim) x")
    case None
    then show ?thesis
      using cancel_view(1) [OF sim] cancel_none_view [OF sim] by (cases "ga_gooseEventId self") auto
  next
    case (Some th)
    then have "p x = Some th" using p(2) by (auto simp: map_le_def dom_def)
    then have "x = e \<or> (ga_sendEvents self \<and> ga_gooseEventId self = Some x)"
      using p(1,3) by (auto simp: timers_def split: if_splits)
    then show ?thesis
      using cancel_view(1) [OF sim] cancel_none_view [OF sim] by (cases "ga_gooseEventId self") auto
  qed
  moreover have "GOOSEPublisher_StopApplication S sim self
      = Some (?s2, self\<lparr>ga_publisher := None, ga_dataSetValues := None\<rparr>)"
    using inv p(3) by (auto simp: GOOSEPublisher_StopApplication_def Let_def app_inv_def app_base_def)
  ultimately show thesis using that by (meson ext)
qed

section \<open>Runs\<close>

text \<open>Steps within the range of the time stamps.\<close>

definition timed_step ::
    "(handler, 'sim) simulator \<Rightarrow> ('sim \<Rightarrow> handler sim_view) \<Rightarrow> (int \<Rightarrow> int \<Rightarrow> byte \<Rightarrow> byte \<Rightarrow> int) \<Rightarrow>
     'sim \<times> GOOSEPublisher \<Rightarrow> 'sim \<times> GOOSEPublisher \<Rightarrow> bool" where
  "timed_step S view backoff s s' \<longleftrightarrow> app_step S view backoff s s' \<and> in_time (view (fst s'))"

lemma Send_now:
  assumes "simulates S view" and "GOOSEPublisher_Send S sim self = Some (sim', self')"
  shows "v_now (view sim') = v_now (view sim)"
  using assms(2) schedule_now [OF assms(1)]
  by (auto simp: GOOSEPublisher_Send_def bind_eq_Some_conv Let_def split_beta split: if_splits)

lemma handler_now:
  assumes "simulates S view" and "run_handler S backoff h sim self = Some (sim', self')"
  shows "v_now (view sim') = v_now (view sim)"
proof (cases h)
  case Send
  then show ?thesis using assms(2) Send_now [OF assms(1)] by (auto simp: run_handler_def)
next
  case SendEvent
  have "v_now (view (sim_Cancel S e sim)) = v_now (view sim)" for e
    using cancel_view(3) [OF assms(1)] cancel_none_view [OF assms(1)] by (cases e) auto
  then show ?thesis
    using assms(2) SendEvent schedule_now [OF assms(1)] Send_now [OF assms(1)]
    by (auto simp: run_handler_def GOOSEPublisher_SendEvent_def bind_eq_Some_conv Let_def split_beta
        split: if_splits)
qed

lemma step_inv:
  assumes sim: "simulates S view" and inv: "app_inv view app mac N s" and step: "timed_step S view backoff s s'"
  shows "app_inv view app mac N s'"
    and "ga_count (snd s) = 0 \<Longrightarrow>
      snd s' = snd s \<and> dom (v_pending (view (fst s'))) \<subset> dom (v_pending (view (fst s)))"
    and "ga_count (snd s) \<noteq> 0 \<Longrightarrow>
      sent_one app mac (word_of_int (v_now (view (fst s')) div 1000000)) (snd s) (snd s')"
proof -
  obtain sim self sim2 self2 where s: "s = (sim, self)" "s' = (sim2, self2)" by (cases s; cases s') auto
  obtain e h sim1 where f: "takes_event (view sim) e h (view sim1)"
      "run_handler S backoff h sim1 self = Some (sim2, self2)"
    using step by (auto simp: timed_step_def s elim: app_stepE)
  have now: "v_now (view sim2) = v_now (view sim1)" by (rule handler_now [OF sim f(2)])
  then have time: "in_time (view sim1)" using step by (simp add: timed_step_def s in_time_def)
  obtain sim3 self3 where h: "run_handler S backoff h sim1 self = Some (sim3, self3)"
      "app_inv view app mac N (sim3, self3)" "v_now (view sim3) = v_now (view sim1)"
      "ga_count self = 0 \<longrightarrow> self3 = self \<and> dom (v_pending (view sim3)) \<subset> dom (v_pending (view sim))"
      "ga_count self \<noteq> 0 \<longrightarrow> sent_one app mac (Hal_getTimeInMs S sim1) self self3"
    by (rule handler_step [OF sim inv [unfolded s(1)] f(1) time, of backoff])
  have eq: "sim3 = sim2" "self3 = self2" using f(2) h(1) by auto
  show "app_inv view app mac N s'" using h(2) by (simp add: eq s)
  show "snd s' = snd s \<and> dom (v_pending (view (fst s'))) \<subset> dom (v_pending (view (fst s)))"
    if "ga_count (snd s) = 0"
    using h(4) that by (simp add: eq s)
  show "sent_one app mac (word_of_int (v_now (view (fst s')) div 1000000)) (snd s) (snd s')"
    if "ga_count (snd s) \<noteq> 0"
    using h(5) that in_time_ms(2) [OF sim time] by (simp add: eq s now)
qed

lemma timers_card: "timers self p \<Longrightarrow> finite (dom p) \<and> 0 < card (dom p) \<and> card (dom p) \<le> 2"
  by (auto simp: timers_def card_insert_if split: if_splits)

lemma pending_card:
  assumes "app_inv view app mac N s"
  shows "finite (dom (v_pending (view (fst s))))" and "card (dom (v_pending (view (fst s)))) \<le> 2"
proof -
  obtain p where p: "timers (snd s) p" "v_pending (view (fst s)) \<subseteq>\<^sub>m p"
    using assms by (auto simp: app_inv_def Let_def)
  have d: "dom (v_pending (view (fst s))) \<subseteq> dom p" by (rule map_le_implies_dom_le [OF p(2)])
  show "finite (dom (v_pending (view (fst s))))" using d timers_card [OF p(1)] finite_subset by blast
  show "card (dom (v_pending (view (fst s)))) \<le> 2"
    using card_mono [OF _ d] timers_card [OF p(1)] by linarith
qed

lemma base_count:
  assumes "app_inv view app mac N s"
  shows "ga_count (snd s) = 0 \<longleftrightarrow> unat (ga_sent (snd s)) = unat N" and "unat (ga_sent (snd s)) \<le> unat N"
  using assms by (auto simp: app_inv_def app_base_def Let_def unat_eq_0)

text \<open>A run of \<open>k\<close> steps sends \<open>k\<close> messages, at most \<open>N\<close>; once \<open>N\<close> messages are sent, the events that
  are left run out.\<close>

lemma run_inv:
  assumes "simulates S view" and "app_inv view app mac N s" and "ga_sent (snd s) = 0"
    and "(timed_step S view backoff ^^ k) s s'"
  shows "app_inv view app mac N s' \<and> unat (ga_sent (snd s')) = min k (unat N) \<and>
    (unat N \<le> k \<longrightarrow> k - unat N + card (dom (v_pending (view (fst s')))) \<le> 2)"
  using assms(4)
proof (induction k arbitrary: s')
  case 0
  then show ?case using assms(2,3) pending_card [OF assms(2)] by auto
next
  case (Suc k)
  then obtain m where m: "(timed_step S view backoff ^^ k) s m" "timed_step S view backoff m s'"
    by (auto elim: relpowp_Suc_E)
  have inv: "app_inv view app mac N m" "unat (ga_sent (snd m)) = min k (unat N)"
      "unat N \<le> k \<longrightarrow> k - unat N + card (dom (v_pending (view (fst m)))) \<le> 2"
    using Suc.IH [OF m(1)] by auto
  note st = step_inv [OF assms(1) inv(1) m(2)]
  show ?case
  proof (cases "ga_count (snd m) = 0")
    case True
    then have k: "unat N \<le> k" using base_count(1) [OF inv(1)] inv(2) by simp
    have "card (dom (v_pending (view (fst s')))) < card (dom (v_pending (view (fst m))))"
      using st(2) [OF True] pending_card(1) [OF inv(1)] psubset_card_mono by blast
    then show ?thesis using k inv st(1) st(2) [OF True] by auto
  next
    case False
    then have k: "k < unat N" using base_count [OF inv(1)] inv(2) by (cases "k < unat N") auto
    then have "unat (ga_sent (snd s')) = min (Suc k) (unat N)"
      using st(3) [OF False] inv(2) by (auto simp: sent_one_def)
    then show ?thesis using k st(1) pending_card(2) [OF st(1)] by auto
  qed
qed

lemma next_event:
  assumes "app_inv view app mac N s" and "unat (ga_sent (snd s)) < unat N"
  shows "\<exists>e h v'. takes_event (view (fst s)) e h v'"
proof -
  have "ga_count (snd s) \<noteq> 0" using assms base_count by (metis less_irrefl)
  then obtain p where p: "timers (snd s) p" "v_pending (view (fst s)) = p"
    using assms(1) by (auto simp: app_inv_def Let_def)
  have "p \<noteq> Map.empty" using timers_card [OF p(1)] by auto
  then show ?thesis using earliest_event [OF pending_card(1) [OF assms(1)]] p(2) by blast
qed

section \<open>Properties\<close>

lemma started_run:
  assumes "simulates S view" and "app_configured devices mac nodeId self" and "length heap = 1518"
    and "in_time (view sim)" and "v_pending (view sim) = Map.empty"
  obtains s where "GOOSEPublisher_StartApplication S devices heap nodeId sim self = Some s"
    and "\<And>k s'. (timed_step S view backoff ^^ k) s s' \<Longrightarrow>
      app_inv view (ga_appId self) mac (max_packets self) s' \<and>
      unat (ga_sent (snd s')) = min k (unat (max_packets self)) \<and>
      k \<le> unat (max_packets self) + 2"
proof -
  obtain sim' self' pub where s: "GOOSEPublisher_StartApplication S devices heap nodeId sim self = Some (sim', self')"
      "app_inv view (ga_appId self) mac (max_packets self) (sim', self')" "ga_sent self' = 0"
      "ga_publisher self' = Some pub" "gp_stNum pub = 1" "v_now (view sim') = v_now (view sim)"
    by (rule start_inv [OF assms])
  show thesis
    by (rule that [OF s(1)]) (use run_inv [OF assms(1) s(2), where backoff = backoff] s(3) in fastforce)
qed

text \<open>C5. The publisher application sends as many messages as it is told to: it starts without a fault,
  and after k steps of the simulation it has sent k messages, at most the configured maximum (0
  stands for 18446744073709551615), each one a packet at its socket. As long as the maximum is not
  reached an event is pending; a run ends after at most two steps more than the maximum.\<close>

theorem goose_app_sends:
  assumes "simulates S view" and "app_configured devices mac nodeId self" and "length heap = 1518"
    and "in_time (view sim)" and "v_pending (view sim) = Map.empty"
  shows "\<exists>s. GOOSEPublisher_StartApplication S devices heap nodeId sim self = Some s \<and>
    (\<forall>k s'. (timed_step S view backoff ^^ k) s s' \<longrightarrow>
      unat (ga_sent (snd s')) = min k (unat (max_packets self)) \<and>
      (\<exists>pub. ga_publisher (snd s') = Some pub \<and>
        length (es_sent (gp_ethernetSocket pub)) = min k (unat (max_packets self))) \<and>
      (k < unat (max_packets self) \<longrightarrow> (\<exists>e h v'. takes_event (view (fst s')) e h v')) \<and>
      k \<le> unat (max_packets self) + 2)"
proof (rule started_run [OF assms, of backoff])
  fix s assume start: "GOOSEPublisher_StartApplication S devices heap nodeId sim self = Some s"
    and run: "\<And>k s'. (timed_step S view backoff ^^ k) s s' \<Longrightarrow>
      app_inv view (ga_appId self) mac (max_packets self) s' \<and>
      unat (ga_sent (snd s')) = min k (unat (max_packets self)) \<and> k \<le> unat (max_packets self) + 2"
  have "unat (ga_sent (snd s')) = min k (unat (max_packets self)) \<and>
      (\<exists>pub. ga_publisher (snd s') = Some pub \<and>
        length (es_sent (gp_ethernetSocket pub)) = min k (unat (max_packets self))) \<and>
      (k < unat (max_packets self) \<longrightarrow> (\<exists>e h v'. takes_event (view (fst s')) e h v')) \<and>
      k \<le> unat (max_packets self) + 2"
    if "(timed_step S view backoff ^^ k) s s'" for k s'
    using run [OF that] next_event by (fastforce simp: app_inv_def app_base_def Let_def)
  then show ?thesis using start by blast
qed

text \<open>C6. No handler of the publisher application faults: in every state a run reaches, the handler of
  every event the simulator may take returns, and stopping the application cancels every event
  that is pending, so that no handler uses the destroyed publisher.\<close>

theorem goose_app_safe:
  assumes "simulates S view" and "app_configured devices mac nodeId self" and "length heap = 1518"
    and "in_time (view sim)" and "v_pending (view sim) = Map.empty"
  shows "\<exists>s. GOOSEPublisher_StartApplication S devices heap nodeId sim self = Some s \<and>
    (\<forall>k s'. (timed_step S view backoff ^^ k) s s' \<longrightarrow>
      (\<forall>e h sim1. takes_event (view (fst s')) e h (view sim1) \<longrightarrow> in_time (view sim1) \<longrightarrow>
        run_handler S backoff h sim1 (snd s') \<noteq> None) \<and>
      (\<exists>sim2 self2. GOOSEPublisher_StopApplication S (fst s') (snd s') = Some (sim2, self2) \<and>
        v_pending (view sim2) = Map.empty))"
proof (rule started_run [OF assms, of backoff])
  fix s assume start: "GOOSEPublisher_StartApplication S devices heap nodeId sim self = Some s"
    and run: "\<And>k s'. (timed_step S view backoff ^^ k) s s' \<Longrightarrow>
      app_inv view (ga_appId self) mac (max_packets self) s' \<and>
      unat (ga_sent (snd s')) = min k (unat (max_packets self)) \<and> k \<le> unat (max_packets self) + 2"
  have "(\<forall>e h sim1. takes_event (view (fst s')) e h (view sim1) \<longrightarrow> in_time (view sim1) \<longrightarrow>
        run_handler S backoff h sim1 (snd s') \<noteq> None) \<and>
      (\<exists>sim2 self2. GOOSEPublisher_StopApplication S (fst s') (snd s') = Some (sim2, self2) \<and>
        v_pending (view sim2) = Map.empty)"
    if "(timed_step S view backoff ^^ k) s s'" for k s'
  proof -
    have inv: "app_inv view (ga_appId self) mac (max_packets self) (fst s', snd s')" using run [OF that] by simp
    show ?thesis using handler_step [OF assms(1) inv] stop_idle [OF assms(1) inv] by (metis option.distinct(1))
  qed
  then show ?thesis using start by blast
qed

text \<open>C7. The timers of the publisher application never get out of step: as long as messages are left, the
  pending events are the repetition alone when events are disabled; otherwise either the repetition and
  the next event, or only the next repetition of the event that is going on. No event is pending that
  the application has lost track of.\<close>

theorem goose_app_timers:
  assumes "simulates S view" and "app_configured devices mac nodeId self" and "length heap = 1518"
    and "in_time (view sim)" and "v_pending (view sim) = Map.empty"
  shows "\<exists>s. GOOSEPublisher_StartApplication S devices heap nodeId sim self = Some s \<and>
    (\<forall>k s'. (timed_step S view backoff ^^ k) s s' \<longrightarrow> k < unat (max_packets self) \<longrightarrow>
      timers (snd s') (v_pending (view (fst s'))))"
proof (rule started_run [OF assms, of backoff])
  fix s assume start: "GOOSEPublisher_StartApplication S devices heap nodeId sim self = Some s"
    and run: "\<And>k s'. (timed_step S view backoff ^^ k) s s' \<Longrightarrow>
      app_inv view (ga_appId self) mac (max_packets self) s' \<and>
      unat (ga_sent (snd s')) = min k (unat (max_packets self)) \<and> k \<le> unat (max_packets self) + 2"
  have "timers (snd s') (v_pending (view (fst s')))"
    if "(timed_step S view backoff ^^ k) s s'" "k < unat (max_packets self)" for k s'
    using run [OF that(1)] base_count(1) that(2) by (fastforce simp: app_inv_def Let_def)
  then show ?thesis using start by blast
qed

text \<open>An application on the reference queue that sends two messages and has an event every second.\<close>

definition example_app :: GOOSEPublisher where
  "example_app = GOOSEPublisher_GetTypeId\<lparr>ga_count := 2, ga_eventInterval := 1000000000\<rparr>"

definition example_queue :: "handler event_queue" where
  "example_queue = \<lparr>q_now = 0, q_events = [], q_next = 0\<rparr>"

lemma example_started:
  "app_configured example_devices [2, 0, 0, 0, 0, 1] 3 example_app"
  "in_time (queue_view example_queue)" "v_pending (queue_view example_queue) = Map.empty"
  "max_packets example_app = 2"
  by (simp_all add: app_configured_def example_app_def GOOSEPublisher_GetTypeId_def example_devices_def
      devices_of_path in_time_def queue_view_def example_queue_def max_packets_def)

theorem goose_app_sends_witness:
  "\<exists>s. GOOSEPublisher_StartApplication queue_simulator example_devices (replicate 1518 0) 3 example_queue example_app
      = Some s \<and>
    (\<forall>k s'. (timed_step queue_simulator queue_view (\<lambda>_ _ _ _. 1) ^^ k) s s' \<longrightarrow>
      unat (ga_sent (snd s')) = min k 2 \<and> k \<le> 4)"
  using goose_app_sends [OF queue_simulates example_started(1) _ example_started(2,3),
      of "replicate 1518 0" "\<lambda>_ _ _ _. 1"]
  by (fastforce simp: example_started(4))

theorem goose_app_safe_witness:
  "\<exists>s sim2 self2. GOOSEPublisher_StartApplication queue_simulator example_devices (replicate 1518 0) 3
      example_queue example_app = Some s \<and>
    GOOSEPublisher_StopApplication queue_simulator (fst s) (snd s) = Some (sim2, self2) \<and>
    v_pending (queue_view sim2) = Map.empty"
  using goose_app_safe [OF queue_simulates example_started(1) _ example_started(2,3),
      of "replicate 1518 0" "\<lambda>_ _ _ _. 1"]
  by (metis length_replicate relpowp_0_I)

theorem goose_app_timers_witness:
  "\<exists>s. GOOSEPublisher_StartApplication queue_simulator example_devices (replicate 1518 0) 3
      example_queue example_app = Some s \<and> timers (snd s) (v_pending (queue_view (fst s)))"
proof -
  have "0 < unat (max_packets example_app)" by (simp add: example_started(4))
  then show ?thesis
    using goose_app_timers [OF queue_simulates example_started(1) _ example_started(2,3),
        of "replicate 1518 0" "\<lambda>_ _ _ _. 1"]
    by (metis length_replicate relpowp_0_I)
qed

end
