(* ===== verification/Goose_App_Link.thy ===== *)
theory Goose_App_Link
  imports Goose_App_Run
begin

text \<open>
  From the GOOSE publisher application to the GOOSE receiver application: every packet that a run of the
  publisher application hands to the network is accepted by the receiver application.
\<close>

section \<open>The data set of the application\<close>

text \<open>The data set that the first message builds has room for the next ones: it is the one that was sent.\<close>

definition app_octets :: "byte list \<Rightarrow> byte list" where
  "app_octets rest = [133, 2, 4, 210, 140, 6, 0, 0, 0, 0, 0, 0, 133, 2, 22, 46] @ rest"

lemma app_octets_values: "elements_bytes the_values @ rest = app_octets rest"
proof -
  have "elements_bytes the_values = [133, 2, 4, 210, 140, 6, 0, 0, 0, 0, 0, 0, 133, 2, 22, 46]" by code_simp
  then show ?thesis by (simp add: app_octets_def)
qed

lemma app_octets_read:
  "rd (app_octets rest) 0 = Some 133" "rd (app_octets rest) 4 = Some 140" "rd (app_octets rest) 12 = Some 133"
  "BerDecoder_decodeLength (app_octets rest) 0 1 16 = Some (2, 2)"
  "BerDecoder_decodeLength (app_octets rest) 0 5 16 = Some (6, 6)"
  "BerDecoder_decodeLength (app_octets rest) 0 13 16 = Some (14, 2)"
  by (simp_all add: app_octets_def rd_def BerDecoder_decodeLength_def BerDecoder_decodeLengthRecursive_def
      decode_length_step_def)

lemma app_octets_scalars:
  "new_scalar 133 (app_octets rest) 2 2
    = Some (Element (Some (MmsInteger \<lparr>size8 = 2, maxSize = 5, octets = [4, 210, 0, 0, 0]\<rparr>)))"
  "new_scalar 140 (app_octets rest) 6 6 = Some (Element (Some (MmsBinaryTime 6 [0, 0, 0, 0, 0, 0])))"
  "new_scalar 133 (app_octets rest) 14 2
    = Some (Element (Some (MmsInteger \<lparr>size8 = 2, maxSize = 5, octets = [22, 46, 0, 0, 0]\<rparr>)))"
proof -
  have n: "new_integer (MmsValue_newInteger 16) [4, 210] 2
      = Some (MmsInteger \<lparr>size8 = 2, maxSize = 5, octets = [4, 210, 0, 0, 0]\<rparr>)"
    "new_integer (MmsValue_newInteger 16) [22, 46] 2
      = Some (MmsInteger \<lparr>size8 = 2, maxSize = 5, octets = [22, 46, 0, 0, 0]\<rparr>)"
    "MmsValue_newBinaryTime False = MmsBinaryTime 6 [0, 0, 0, 0, 0, 0]"
    by code_simp+
  show "new_scalar 133 (app_octets rest) 2 2
      = Some (Element (Some (MmsInteger \<lparr>size8 = 2, maxSize = 5, octets = [4, 210, 0, 0, 0]\<rparr>)))"
    "new_scalar 140 (app_octets rest) 6 6 = Some (Element (Some (MmsBinaryTime 6 [0, 0, 0, 0, 0, 0])))"
    "new_scalar 133 (app_octets rest) 14 2
      = Some (Element (Some (MmsInteger \<lparr>size8 = 2, maxSize = 5, octets = [22, 46, 0, 0, 0]\<rparr>)))"
    by (simp_all add: app_octets_def new_scalar_def rd_bytes_def n memcpy_def)
qed

lemma app_octets_parse: "parseAllDataUnknownValue (app_octets rest) 16 False = Some (True, Some (MmsArray the_values))"
  by (simp add: parseAllDataUnknownValue.simps count_elements.simps [of _ 0] count_elements.simps [of _ 4]
      count_elements.simps [of _ 12] count_elements.simps [of _ 16] unknown_loop.simps [of _ 0]
      unknown_loop.simps [of _ 4] unknown_loop.simps [of _ 12] unknown_loop.simps [of _ 16]
      app_octets_read app_octets_scalars known_data_tag_def MmsValue_createEmptyArray_def the_values_def)

lemma built_values: "built_from the_values ws \<Longrightarrow> ws = the_values"
  by (auto simp: built_from_def app_octets_values app_octets_parse the_values_ok)

section \<open>The receiver application\<close>

text \<open>A started receiver application: one subscriber, for the control block of the publisher application,
  without a data set or with one that has room for its messages.\<close>

definition rcv_ok :: "GOOSEReceiver \<Rightarrow> bool" where
  "rcv_ok self \<longleftrightarrow>
     (\<exists>r s. gra_receiver self = Some r \<and> length (gr_buffer r) = 1518 \<and> gr_subscriberList r = [s] \<and>
        selects goCbRef [s] 0 \<and> gs_listener s \<and>
        (gs_dataSetValues s = None \<or>
          gs_confRev s = 1 \<and> (\<exists>dst. gs_dataSetValues s = Some (MmsArray dst) \<and> accepts_all dst the_values)))"

lemma getUtcTimeInMs_defined: "length u = 8 \<Longrightarrow> \<exists>t. MmsValue_getUtcTimeInMs (MmsUtcTime u) = Some t"
  by (simp add: MmsValue_getUtcTimeInMs_def memcpyReverseByteOrder_def memcpy_def rd_def Let_def)

lemma receive_message:
  assumes rcv: "rcv_ok self" and pub: "app_pub app mac msg"
  obtains self' where "goose_receiveCallback now (goose_packet (app_header app mac) msg the_values) self = Some self'"
    and "rcv_ok self'" and "gra_received self' = gra_received self + 1"
    and "gra_lastStNum self' = ucast (gp_stNum msg)"
    and "\<forall>t. MmsValue_getUtcTimeInMs (gp_timestamp msg) = Some t \<longrightarrow> gra_lastReceivedTime self' = t"
proof -
  obtain r s where r: "gra_receiver self = Some r" "length (gr_buffer r) = 1518" "gr_subscriberList r = [s]"
      "selects goCbRef [s] 0" "gs_listener s" "gs_dataSetValues s = None \<or>
        gs_confRev s = 1 \<and> (\<exists>dst. gs_dataSetValues s = Some (MmsArray dst) \<and> accepts_all dst the_values)"
    using rcv by (auto simp: rcv_ok_def)
  have link: "linked (app_parameters app) mac msg" and ref: "str_content (gp_goCBRef msg) = goCbRef"
    and rev: "gp_confRev msg = 1"
    using pub by (simp_all add: app_pub_def)
  have rdy: "ready msg the_values (gr_subscriberList r ! 0)" using r(3,6) by (auto simp: ready_def)
  have sel: "selects (str_content (gp_goCBRef msg)) (gr_subscriberList r) 0" using r(3,4) ref by simp
  obtain r' s' where t: "GooseReceiver_tick now (goose_packet (app_header app mac) msg the_values) r
        = Some (True, r', if gs_listener (gr_subscriberList r ! 0) then Some 0 else None)"
      "gr_subscriberList r' = (gr_subscriberList r)[0 := s']" "length (gr_buffer r') = 1518"
      "delivered now msg (gr_subscriberList r ! 0) s'" "holds_data msg the_values (gr_subscriberList r ! 0) s'"
      "gs_stateValid s' \<longleftrightarrow> \<not> repeated msg (gr_subscriberList r ! 0)"
      "gs_listener s' = gs_listener (gr_subscriberList r ! 0)" "\<not> gs_isObserver s'"
      "gs_dataSetValues (gr_subscriberList r ! 0) \<noteq> None \<longrightarrow>
        gs_dataSetValuesSelfAllocated s' = gs_dataSetValuesSelfAllocated (gr_subscriberList r ! 0)"
    by (rule tick_packet [OF link the_values_ok(2) app_pub_fits [OF pub] r(2) sel rdy, of now])
  have r': "gr_subscriberList r' = [s']" using t(2) r(3) by simp
  obtain u where u: "gp_timestamp msg = MmsUtcTime u" "length u = 8"
    using pub by (cases "gp_timestamp msg") (auto simp: app_pub_def linked_def gp_inv_def gp_ok_def utc_content_def)
  have ts: "gs_timestamp s' = gp_timestamp msg" "gs_stNum s' = gp_stNum msg" "gs_confRev s' = 1"
    using t(4) u rev by (simp_all add: delivered_def utc_content_def)
  obtain ms where ms: "MmsValue_getUtcTimeInMs (gp_timestamp msg) = Some ms"
    using getUtcTimeInMs_defined [OF u(2)] by (auto simp: u(1))
  obtain ws where ws: "gs_dataSetValues s' = Some (MmsArray ws)"
      "\<forall>dst. gs_dataSetValues s = Some (MmsArray dst) \<longrightarrow> \<not> drops msg s \<longrightarrow>
        (\<forall>xs. accepts_all dst xs \<longrightarrow> accepts_all ws xs)"
      "gs_dataSetValues s = None \<or> drops msg s \<longrightarrow> built_from the_values ws"
    using t(5) r(3) by (auto simp: holds_data_def)
  have "accepts_all ws the_values"
    using r(6) ws(2,3) built_values the_values_ok(4) rev by (auto simp: drops_def)
  moreover have "selects goCbRef [s'] 0"
    using selects_update [OF r(4), of now msg s'] t(4,8) r(3) by simp
  ultimately have ok: "rcv_ok (self\<lparr>gra_receiver := Some r', gra_lastReceivedTime := ms,
      gra_lastStNum := ucast (gp_stNum msg), gra_received := gra_received self + 1\<rparr>)"
    using t(3,7) r' ws(1) ts(3) r(3,5) by (auto simp: rcv_ok_def)
  show thesis
    by (rule that [OF _ ok]) (use r t(1) r' ts ms in \<open>auto simp: goose_receiveCallback_def GOOSEReceiver_Receive_def
        GooseSubscriber_getTimestamp_def\<close>)
qed

lemma receive_messages:
  assumes "rcv_ok self" and "list_all (app_pub app mac) msgs" and "length nows = length msgs"
  shows "\<exists>self'. receive_all (zip nows (map (\<lambda>m. goose_packet (app_header app mac) m the_values) msgs)) self = Some self' \<and>
    rcv_ok self' \<and> gra_received self' = gra_received self + of_nat (length msgs) \<and>
    (msgs \<noteq> [] \<longrightarrow> gra_lastStNum self' = ucast (gp_stNum (last msgs)) \<and>
      (\<forall>t. MmsValue_getUtcTimeInMs (gp_timestamp (last msgs)) = Some t \<longrightarrow> gra_lastReceivedTime self' = t))"
  using assms
proof (induction msgs arbitrary: self nows)
  case (Cons m msgs)
  obtain n nows' where nows: "nows = n # nows'" "length nows' = length msgs" using Cons.prems(3) by (cases nows) auto
  have m: "app_pub app mac m" "list_all (app_pub app mac) msgs" using Cons.prems(2) by simp_all
  obtain self1 where s1: "goose_receiveCallback n (goose_packet (app_header app mac) m the_values) self = Some self1"
      "rcv_ok self1" "gra_received self1 = gra_received self + 1" "gra_lastStNum self1 = ucast (gp_stNum m)"
      "\<forall>t. MmsValue_getUtcTimeInMs (gp_timestamp m) = Some t \<longrightarrow> gra_lastReceivedTime self1 = t"
    by (rule receive_message [OF Cons.prems(1) m(1)])
  obtain self' where s': "receive_all (zip nows' (map (\<lambda>m. goose_packet (app_header app mac) m the_values) msgs)) self1 = Some self'"
      "rcv_ok self'" "gra_received self' = gra_received self1 + of_nat (length msgs)"
      "msgs \<noteq> [] \<longrightarrow> gra_lastStNum self' = ucast (gp_stNum (last msgs)) \<and>
        (\<forall>t. MmsValue_getUtcTimeInMs (gp_timestamp (last msgs)) = Some t \<longrightarrow> gra_lastReceivedTime self' = t)"
    using Cons.IH [OF s1(2) m(2) nows(2)] by blast
  show ?case
  proof (cases "msgs = []")
    case True
    then show ?thesis using s1 by (simp add: nows(1))
  next
    case False
    then show ?thesis using s1(1,3) s' by (intro exI [of _ self']) (simp add: nows(1))
  qed
qed simp

lemma receiver_started:
  assumes "devices (c_str (device_path nodeId (gra_deviceIndex self))) = Some mac" and "length heap = 1518"
  shows "\<exists>self'. GOOSEReceiver_StartApplication devices heap nodeId self = Some self' \<and> rcv_ok self' \<and>
    gra_received self' = 0"
proof -
  obtain s where s: "GooseSubscriber_create (c_str goCbRef) None = Some s" "gs_ok s"
      "gs_goCBRefLen s = int (length goCbRef)" "take (length goCbRef) (gs_goCBRef s) = goCbRef"
      "gs_isObserver s = False" "gs_dataSetValues s = None"
    by (rule create_ok [OF references_ok(3), of None]) (simp add: references_ok)
  let ?s = "s\<lparr>gs_dstMac := [0x01, 0x0c, 0xcd, 0x01, 0x00, 0x01], gs_dstMacSet := True, gs_appId := 1000, gs_listener := True\<rparr>"
  have "GooseSubscriber_setDstMac s [0x01, 0x0c, 0xcd, 0x01, 0x00, 0x01]
      = Some (s\<lparr>gs_dstMac := [0x01, 0x0c, 0xcd, 0x01, 0x00, 0x01], gs_dstMacSet := True\<rparr>)"
    using s(2) by (simp add: GooseSubscriber_setDstMac_def memcpy_def gs_ok_def)
  moreover have "selects goCbRef [?s] 0"
    using s references_ok by (simp add: selects_def gs_matches_def gs_ok_def)
  ultimately show ?thesis
    using s(1,6) assms no_nul_path
    by (auto simp: GOOSEReceiver_StartApplication_def GooseReceiver_setInterfaceId_def GooseReceiver_create_def
        GooseReceiver_createEx_def GooseReceiver_addSubscriber_def GooseReceiver_start_def GooseReceiver_startThreadless_def
        Ethernet_createSocket_def GooseSubscriber_setAppId_def GooseSubscriber_setListener_def rcv_ok_def Let_def)
qed

section \<open>The messages of a run\<close>

lemma next_sqNum_pow: "k + 1 < 2 ^ 32 \<Longrightarrow> (next_sqNum ^^ k) 1 = of_nat (k + 1)"
  using sqNum_count [of "k + 1"] by (simp add: funpow_swap1 next_sqNum_def)

definition sent_messages :: "uint16 \<Rightarrow> byte list \<Rightarrow> GOOSEPublisher \<Rightarrow> GoosePublisher list \<Rightarrow> bool" where
  "sent_messages app mac self msgs \<longleftrightarrow> list_all (app_pub app mac) msgs \<and>
     (\<exists>pub. ga_publisher self = Some pub \<and>
        es_sent (gp_ethernetSocket pub) = map (\<lambda>m. goose_packet (app_header app mac) m the_values) msgs \<and>
        gp_stNum pub = (next_sqNum ^^ length msgs) 1 \<and>
        (msgs \<noteq> [] \<longrightarrow> gp_stNum (last msgs) = gp_stNum pub))"

lemma sent_messages_step:
  assumes "sent_messages app mac self msgs" and "sent_one app mac t self self'"
  obtains m where "sent_messages app mac self' (msgs @ [m])" and "MmsValue_getUtcTimeInMs (gp_timestamp m) = Some t"
  using assms by (fastforce simp: sent_messages_def sent_one_def message_of_def)

lemma run_messages:
  assumes sim: "simulates S view" and inv: "app_inv view app mac N s" "ga_sent (snd s) = 0"
    and start: "sent_messages app mac (snd s) []" and run: "(timed_step S view backoff ^^ k) s s'"
  shows "\<exists>msgs. sent_messages app mac (snd s') msgs \<and> length msgs = min k (unat N) \<and>
    (0 < k \<longrightarrow> k \<le> unat N \<longrightarrow>
      MmsValue_getUtcTimeInMs (gp_timestamp (last msgs)) = Some (word_of_int (v_now (view (fst s')) div 1000000)))"
  using run
proof (induction k arbitrary: s')
  case 0
  then show ?case using start by (intro exI [of _ "[]"]) simp
next
  case (Suc k)
  then obtain m where m: "(timed_step S view backoff ^^ k) s m" "timed_step S view backoff m s'"
    by (auto elim: relpowp_Suc_E)
  obtain msgs where msgs: "sent_messages app mac (snd m) msgs" "length msgs = min k (unat N)"
    using Suc.IH [OF m(1)] by blast
  have inv': "app_inv view app mac N m" "unat (ga_sent (snd m)) = min k (unat N)"
    using run_inv [OF sim inv m(1)] by simp_all
  note st = step_inv [OF sim inv'(1) m(2)]
  show ?case
  proof (cases "ga_count (snd m) = 0")
    case True
    then have "unat N \<le> k" using base_count(1) [OF inv'(1)] inv'(2) by simp
    then show ?thesis using msgs st(2) [OF True] by auto
  next
    case False
    then have "k < unat N" using base_count [OF inv'(1)] inv'(2) by (cases "k < unat N") auto
    then show ?thesis using sent_messages_step [OF msgs(1) st(3) [OF False]] msgs(2) by (metis
        Suc_leI last_snoc length_append_singleton min_absorb1 less_imp_le_nat)
  qed
qed

lemma run_received:
  assumes sim: "simulates S view" and inv: "app_inv view app mac N s" "ga_sent (snd s) = 0"
    and start: "sent_messages app mac (snd s) []" and rcv: "rcv_ok r" "gra_received r = 0"
    and run: "(timed_step S view backoff ^^ k) s s'" and pub: "ga_publisher (snd s') = Some pub"
    and nows: "length nows = length (es_sent (gp_ethernetSocket pub))"
  shows "\<exists>r'. receive_all (zip nows (es_sent (gp_ethernetSocket pub))) r = Some r' \<and>
    gra_received r' = ga_sent (snd s') \<and>
    (0 < k \<longrightarrow> k \<le> unat N \<longrightarrow> k + 1 < 2 ^ 32 \<longrightarrow> gra_lastStNum r' = of_nat (k + 1) \<and>
      gra_lastReceivedTime r' = word_of_int (v_now (view (fst s')) div 1000000))"
proof -
  obtain msgs where msgs: "sent_messages app mac (snd s') msgs" "length msgs = min k (unat N)"
      "0 < k \<longrightarrow> k \<le> unat N \<longrightarrow>
        MmsValue_getUtcTimeInMs (gp_timestamp (last msgs)) = Some (word_of_int (v_now (view (fst s')) div 1000000))"
    using run_messages [OF sim inv start run] by blast
  have ms: "list_all (app_pub app mac) msgs"
      "es_sent (gp_ethernetSocket pub) = map (\<lambda>m. goose_packet (app_header app mac) m the_values) msgs"
      "msgs \<noteq> [] \<longrightarrow> gp_stNum (last msgs) = (next_sqNum ^^ length msgs) 1"
    using msgs(1) pub by (auto simp: sent_messages_def)
  have n: "length nows = length msgs" using nows ms(2) by simp
  obtain r' where r': "receive_all (zip nows (map (\<lambda>m. goose_packet (app_header app mac) m the_values) msgs)) r = Some r'"
      "gra_received r' = of_nat (length msgs)"
      "msgs \<noteq> [] \<longrightarrow> gra_lastStNum r' = ucast (gp_stNum (last msgs)) \<and>
        (\<forall>t. MmsValue_getUtcTimeInMs (gp_timestamp (last msgs)) = Some t \<longrightarrow> gra_lastReceivedTime r' = t)"
    using receive_messages [OF rcv(1) ms(1) n] rcv(2) by auto
  have "unat (ga_sent (snd s')) = length msgs" using run_inv [OF sim inv run] msgs(2) by simp
  then have "gra_received r' = ga_sent (snd s')" using r'(2) by (metis of_nat_unat ucast_id)
  moreover have "gra_lastStNum r' = of_nat (k + 1) \<and>
      gra_lastReceivedTime r' = word_of_int (v_now (view (fst s')) div 1000000)"
    if k: "0 < k" "k \<le> unat N" "k + 1 < 2 ^ 32"
  proof -
    have len: "length msgs = k" "msgs \<noteq> []" using msgs(2) k by auto
    have "ucast (of_nat n :: uint32) = (of_nat n :: uint16)" for n
      by (simp add: word_unat_eq_iff unat_of_nat unsigned_ucast_eq take_bit_eq_mod mod_mod_cancel)
    moreover have "gp_stNum (last msgs) = of_nat (k + 1)" using ms(3) len next_sqNum_pow [OF k(3)] by simp
    ultimately have "gra_lastStNum r' = of_nat (k + 1)" using r'(3) len(2) by metis
    then show ?thesis using r'(3) msgs(3) k len by simp
  qed
  ultimately show ?thesis using r'(1) ms(2) by auto
qed

lemma started_messages:
  assumes "app_inv view app mac N (sim, self)" and "ga_sent self = 0" and "ga_publisher self = Some pub"
    and "gp_stNum pub = 1"
  shows "sent_messages app mac self []"
  using assms by (auto simp: sent_messages_def app_inv_def app_base_def Let_def)

end
