(* ===== verification/Iec61850_Common.thy ===== *)
theory Iec61850_Common
  imports Mms_Value
begin

text \<open>
  Quality, double point positions, functional constraints and time stamps,
  \<open>src/iec61850/common/iec61850_common.cc\<close>. A \<open>Quality\<close> is the 16 bit word it is in the source, a
  time stamp the record of its eight octets. In a result of type \<open>'a option option\<close> the outer
  \<open>None\<close> is undefined behaviour or a failed assertion and the inner one a \<open>NULL\<close> result.
\<close>

section \<open>Quality\<close>

type_synonym Quality = uint16
type_synonym Validity = uint16

definition Quality_getValidity :: "Quality \<Rightarrow> Validity" where
  "Quality_getValidity self = self AND 0x3"

definition Quality_setValidity :: "Quality \<Rightarrow> Validity \<Rightarrow> Quality" where
  "Quality_setValidity self validity = (self AND 0xfffc) OR validity"

text \<open>\<open>flag\<close> is an \<open>int\<close>: the operations are done on \<open>int\<close> and the result is cut to 16 bits.\<close>

definition Quality_isFlagSet :: "Quality \<Rightarrow> int \<Rightarrow> bool" where
  "Quality_isFlagSet self flag \<longleftrightarrow> 0 < uint self AND flag"

definition Quality_setFlag :: "Quality \<Rightarrow> int \<Rightarrow> Quality" where
  "Quality_setFlag self flag = word_of_int (uint self OR flag)"

definition Quality_unsetFlag :: "Quality \<Rightarrow> int \<Rightarrow> Quality" where
  "Quality_unsetFlag self flag = word_of_int (uint self AND NOT flag)"

definition Quality_fromMmsValue :: "MmsValue \<Rightarrow> Quality option" where
  "Quality_fromMmsValue mmsValue = map_option ucast (MmsValue_getBitStringAsInteger mmsValue)"

definition Quality_toMmsValue :: "Quality \<Rightarrow> MmsValue option \<Rightarrow> MmsValue option" where
  "Quality_toMmsValue self mmsValue = do {
     v \<leftarrow> (case mmsValue of None \<Rightarrow> MmsValue_newBitString 13 | Some v \<Rightarrow> Some v);
     MmsValue_setBitStringFromInteger v (ucast self) }"

section \<open>Double point position\<close>

definition Dbpos_fromMmsValue :: "MmsValue \<Rightarrow> uint32 option" where
  "Dbpos_fromMmsValue mmsValue = MmsValue_getBitStringAsIntegerBigEndian mmsValue"

definition Dbpos_toMmsValue :: "MmsValue option \<Rightarrow> int \<Rightarrow> MmsValue option option" where
  "Dbpos_toMmsValue mmsValue dbpos = do {
     target \<leftarrow>
       (case mmsValue of
          None \<Rightarrow> map_option Some (MmsValue_newBitString 2)
        | Some v \<Rightarrow>
            if MmsValue_getType v \<noteq> MMS_BIT_STRING then Some None
            else if MmsValue_getBitStringSize v \<noteq> Some 2 then Some None
            else Some (Some v));
     (case target of
        None \<Rightarrow> Some None
      | Some v \<Rightarrow>
          if 0 \<le> dbpos \<and> dbpos < 4
          then map_option Some (MmsValue_setBitStringFromIntegerBigEndian v (word_of_int dbpos))
          else None) }"

section \<open>Functional constraints\<close>

datatype FunctionalConstraint = IEC61850_FC_ST | IEC61850_FC_MX | IEC61850_FC_SP | IEC61850_FC_SV
  | IEC61850_FC_CF | IEC61850_FC_DC | IEC61850_FC_SG | IEC61850_FC_SE | IEC61850_FC_SR
  | IEC61850_FC_OR | IEC61850_FC_BL | IEC61850_FC_EX | IEC61850_FC_CO | IEC61850_FC_US
  | IEC61850_FC_MS | IEC61850_FC_RP | IEC61850_FC_BR | IEC61850_FC_LG | IEC61850_FC_GO
  | IEC61850_FC_ALL | IEC61850_FC_NONE

definition ascii :: "string \<Rightarrow> byte list" where
  "ascii s = map (\<lambda>c. of_nat (of_char c)) s"

fun FunctionalConstraint_toString :: "FunctionalConstraint \<Rightarrow> byte list option" where
  "FunctionalConstraint_toString IEC61850_FC_ST = Some (c_str (ascii ''ST''))"
| "FunctionalConstraint_toString IEC61850_FC_MX = Some (c_str (ascii ''MX''))"
| "FunctionalConstraint_toString IEC61850_FC_SP = Some (c_str (ascii ''SP''))"
| "FunctionalConstraint_toString IEC61850_FC_SV = Some (c_str (ascii ''SV''))"
| "FunctionalConstraint_toString IEC61850_FC_CF = Some (c_str (ascii ''CF''))"
| "FunctionalConstraint_toString IEC61850_FC_DC = Some (c_str (ascii ''DC''))"
| "FunctionalConstraint_toString IEC61850_FC_SG = Some (c_str (ascii ''SG''))"
| "FunctionalConstraint_toString IEC61850_FC_SE = Some (c_str (ascii ''SE''))"
| "FunctionalConstraint_toString IEC61850_FC_SR = Some (c_str (ascii ''SR''))"
| "FunctionalConstraint_toString IEC61850_FC_OR = Some (c_str (ascii ''OR''))"
| "FunctionalConstraint_toString IEC61850_FC_BL = Some (c_str (ascii ''BL''))"
| "FunctionalConstraint_toString IEC61850_FC_EX = Some (c_str (ascii ''EX''))"
| "FunctionalConstraint_toString IEC61850_FC_CO = Some (c_str (ascii ''CO''))"
| "FunctionalConstraint_toString IEC61850_FC_US = Some (c_str (ascii ''US''))"
| "FunctionalConstraint_toString IEC61850_FC_MS = Some (c_str (ascii ''MS''))"
| "FunctionalConstraint_toString IEC61850_FC_RP = Some (c_str (ascii ''RP''))"
| "FunctionalConstraint_toString IEC61850_FC_BR = Some (c_str (ascii ''BR''))"
| "FunctionalConstraint_toString IEC61850_FC_LG = Some (c_str (ascii ''LG''))"
| "FunctionalConstraint_toString IEC61850_FC_GO = Some (c_str (ascii ''GO''))"
| "FunctionalConstraint_toString _ = None"

definition second_char :: "byte list \<Rightarrow> (byte \<times> FunctionalConstraint) list \<Rightarrow> FunctionalConstraint option" where
  "second_char fcString table = do {
     c \<leftarrow> rd fcString 1;
     Some (case map_of table c of Some fc \<Rightarrow> fc | None \<Rightarrow> IEC61850_FC_NONE) }"

text \<open>The second character is read only when the first one is known.\<close>

definition FunctionalConstraint_fromString :: "byte list \<Rightarrow> FunctionalConstraint option" where
  "FunctionalConstraint_fromString fcString = do {
     c0 \<leftarrow> rd fcString 0;
     if c0 = 0x53 then second_char fcString [(0x54, IEC61850_FC_ST), (0x50, IEC61850_FC_SP),
       (0x56, IEC61850_FC_SV), (0x47, IEC61850_FC_SG), (0x45, IEC61850_FC_SE), (0x52, IEC61850_FC_SR)]
     else if c0 = 0x4d then second_char fcString [(0x58, IEC61850_FC_MX), (0x53, IEC61850_FC_MS)]
     else if c0 = 0x43 then second_char fcString [(0x46, IEC61850_FC_CF), (0x4f, IEC61850_FC_CO)]
     else if c0 = 0x44 then second_char fcString [(0x43, IEC61850_FC_DC)]
     else if c0 = 0x4f then second_char fcString [(0x52, IEC61850_FC_OR)]
     else if c0 = 0x42 then second_char fcString [(0x4c, IEC61850_FC_BL), (0x52, IEC61850_FC_BR)]
     else if c0 = 0x45 then second_char fcString [(0x58, IEC61850_FC_EX)]
     else if c0 = 0x55 then second_char fcString [(0x53, IEC61850_FC_US)]
     else if c0 = 0x52 then second_char fcString [(0x50, IEC61850_FC_RP)]
     else if c0 = 0x4c then second_char fcString [(0x47, IEC61850_FC_LG)]
     else if c0 = 0x47 then second_char fcString [(0x4f, IEC61850_FC_GO)]
     else Some IEC61850_FC_NONE }"

section \<open>Time stamps\<close>

record Timestamp =
  val :: "byte list"

definition Timestamp_create :: Timestamp where
  "Timestamp_create = \<lparr>val = replicate 8 0\<rparr>"

definition Timestamp_createFromByteArray :: "byte list \<Rightarrow> Timestamp option" where
  "Timestamp_createFromByteArray byteArray = do {
     v \<leftarrow> memcpy (val Timestamp_create) byteArray 8;
     Some \<lparr>val = v\<rparr> }"

definition upd7 :: "(byte \<Rightarrow> byte) \<Rightarrow> Timestamp \<Rightarrow> Timestamp" where
  "upd7 f self = self\<lparr>val := (val self)[7 := f (val self ! 7)]\<rparr>"

definition Timestamp_clearFlags :: "Timestamp \<Rightarrow> Timestamp" where
  "Timestamp_clearFlags self = upd7 (\<lambda>_. 0) self"

definition Timestamp_isLeapSecondKnown :: "Timestamp \<Rightarrow> bool" where
  "Timestamp_isLeapSecondKnown self \<longleftrightarrow> val self ! 7 AND 0x80 \<noteq> 0"

definition Timestamp_setLeapSecondKnown :: "Timestamp \<Rightarrow> bool \<Rightarrow> Timestamp" where
  "Timestamp_setLeapSecondKnown self value =
     (if value then upd7 (\<lambda>b. b OR 0x80) self else upd7 (\<lambda>b. b AND 0x7f) self)"

definition Timestamp_hasClockFailure :: "Timestamp \<Rightarrow> bool" where
  "Timestamp_hasClockFailure self \<longleftrightarrow> val self ! 7 AND 0x40 \<noteq> 0"

definition Timestamp_setClockFailure :: "Timestamp \<Rightarrow> bool \<Rightarrow> Timestamp" where
  "Timestamp_setClockFailure self value =
     (if value then upd7 (\<lambda>b. b OR 0x40) self else upd7 (\<lambda>b. b AND 0xbf) self)"

definition Timestamp_isClockNotSynchronized :: "Timestamp \<Rightarrow> bool" where
  "Timestamp_isClockNotSynchronized self \<longleftrightarrow> val self ! 7 AND 0x20 \<noteq> 0"

definition Timestamp_setClockNotSynchronized :: "Timestamp \<Rightarrow> bool \<Rightarrow> Timestamp" where
  "Timestamp_setClockNotSynchronized self value =
     (if value then upd7 (\<lambda>b. b OR 0x20) self else upd7 (\<lambda>b. b AND 0xdf) self)"

definition Timestamp_getSubsecondPrecision :: "Timestamp \<Rightarrow> int" where
  "Timestamp_getSubsecondPrecision self = uint (val self ! 7 AND 0x1f)"

definition Timestamp_setSubsecondPrecision :: "Timestamp \<Rightarrow> int \<Rightarrow> Timestamp" where
  "Timestamp_setSubsecondPrecision self subsecondPrecision =
     (let ssp = word_of_int (subsecondPrecision AND 0x1f) in upd7 (\<lambda>b. (b AND 0xe0) + ssp) self)"

text \<open>The four octets of the seconds and the three octets of the fraction.\<close>

definition put_seconds :: "uint32 \<Rightarrow> byte list \<Rightarrow> byte list" where
  "put_seconds timeval32 valueArray = valueArray
     [0 := ucast (timeval32 div 0x1000000 AND 0xff), 1 := ucast (timeval32 div 0x10000 AND 0xff),
      2 := ucast (timeval32 div 0x100 AND 0xff), 3 := ucast (timeval32 AND 0xff)]"

definition put_fraction :: "uint32 \<Rightarrow> byte list \<Rightarrow> byte list" where
  "put_fraction fractionOfSecond valueArray = valueArray
     [4 := ucast (drop_bit 16 fractionOfSecond AND 0xff), 5 := ucast (drop_bit 8 fractionOfSecond AND 0xff),
      6 := ucast (fractionOfSecond AND 0xff)]"

definition get_seconds :: "byte list \<Rightarrow> uint32" where
  "get_seconds valueArray = ucast (valueArray ! 3) + ucast (valueArray ! 2) * 0x100
     + ucast (valueArray ! 1) * 0x10000 + ucast (valueArray ! 0) * 0x1000000"

definition get_fraction :: "byte list \<Rightarrow> uint32" where
  "get_fraction valueArray = ucast (valueArray ! 6) + ucast (valueArray ! 5) * 0x100
     + ucast (valueArray ! 4) * 0x10000"

definition Timestamp_setTimeInSeconds :: "Timestamp \<Rightarrow> uint32 \<Rightarrow> Timestamp" where
  "Timestamp_setTimeInSeconds self secondsSinceEpoch =
     self\<lparr>val := (put_seconds secondsSinceEpoch (val self))[4 := 0, 5 := 0, 6 := 0]\<rparr>"

definition Timestamp_setTimeInMilliseconds :: "Timestamp \<Rightarrow> uint64 \<Rightarrow> Timestamp" where
  "Timestamp_setTimeInMilliseconds self millisSinceEpoch =
     (let timeval32 = ucast (millisSinceEpoch div 1000);
          remainder = (ucast (millisSinceEpoch mod 1000) :: uint32);
          fractionOfSecond = remainder * 16777 + (remainder * 216) div 1000
      in self\<lparr>val := put_fraction fractionOfSecond (put_seconds timeval32 (val self))\<rparr>)"

definition Timestamp_setTimeInNanoseconds :: "Timestamp \<Rightarrow> uint64 \<Rightarrow> Timestamp" where
  "Timestamp_setTimeInNanoseconds self nsTime =
     (let timeval32 = ucast (nsTime div 1000000000);
          remainder = push_bit 24 (nsTime mod 1000000000) div 1000000000;
          fractionOfSecond = (ucast remainder :: uint32)
      in self\<lparr>val := put_fraction fractionOfSecond (put_seconds timeval32 (val self))\<rparr>)"

definition Timestamp_getTimeInSeconds :: "Timestamp \<Rightarrow> uint32" where
  "Timestamp_getTimeInSeconds self = get_seconds (val self)"

definition Timestamp_getTimeInMs :: "Timestamp \<Rightarrow> uint64" where
  "Timestamp_getTimeInMs self =
     (let timeval32 = get_seconds (val self);
          fractionOfSecond = (push_bit 16 (ucast (val self ! 4)) + push_bit 8 (ucast (val self ! 5))
            + ucast (val self ! 6) :: uint32);
          remainder = fractionOfSecond div 16777
      in ucast timeval32 * 1000 + ucast remainder)"

definition Timestamp_getTimeInNs :: "Timestamp \<Rightarrow> uint64" where
  "Timestamp_getTimeInNs self =
     (let timeval32 = get_seconds (val self);
          nsVal = drop_bit 24 (ucast (get_fraction (val self)) * 1000000000 :: uint64)
      in ucast timeval32 * 1000000000 + nsVal)"

definition Timestamp_setByMmsUtcTime :: "Timestamp \<Rightarrow> MmsValue \<Rightarrow> Timestamp option" where
  "Timestamp_setByMmsUtcTime self mmsValue =
     (case mmsValue of
        MmsUtcTime t \<Rightarrow> do { v \<leftarrow> memcpy (val self) t 8; Some (self\<lparr>val := v\<rparr>) }
      | _ \<Rightarrow> Some self)"

definition Timestamp_toMmsValue :: "Timestamp \<Rightarrow> MmsValue option \<Rightarrow> MmsValue option" where
  "Timestamp_toMmsValue self mmsValue =
     (case (case mmsValue of None \<Rightarrow> MmsValue_newUtcTime 0 | Some v \<Rightarrow> v) of
        MmsUtcTime t \<Rightarrow> do { t \<leftarrow> memcpy t (val self) 8; Some (MmsUtcTime t) }
      | _ \<Rightarrow> None)"

definition Timestamp_fromMmsValue :: "Timestamp option \<Rightarrow> MmsValue \<Rightarrow> Timestamp option option" where
  "Timestamp_fromMmsValue self mmsValue =
     (case mmsValue of
        MmsUtcTime t \<Rightarrow> do {
          let s = (case self of None \<Rightarrow> Timestamp_create | Some s \<Rightarrow> s);
          v \<leftarrow> memcpy (val s) t 8;
          Some (Some (s\<lparr>val := v\<rparr>)) }
      | _ \<Rightarrow> Some None)"

section \<open>The octets of a time stamp\<close>

lemma be_bytes32:
  "be_bytes (w :: uint32) = [ucast (drop_bit 24 w), ucast (drop_bit 16 w), ucast (drop_bit 8 w), ucast w]"
  by (simp add: be_bytes_def le_bytes_def upt_rec)

lemma get_seconds_be: "get_seconds (be_bytes s @ x) = s"
proof -
  let ?b = "be_bytes s"
  have "get_seconds (?b @ x) = of_nat (be_nat ?b)"
    unfolding get_seconds_def be_bytes32 by (simp add: algebra_simps)
  also have "\<dots> = s" using be_nat_be_bytes [of s] by simp
  finally show ?thesis .
qed

lemma put_seconds_be:
  assumes "length v = 8"
  shows "put_seconds s v = be_bytes s @ drop 4 v"
proof -
  obtain a b c d x where v: "v = a # b # c # d # x"
    using assms by (auto simp: numeral_eq_Suc length_Suc_conv)
  have "s div 0x1000000 = drop_bit 24 s" "s div 0x10000 = drop_bit 16 s" "s div 0x100 = drop_bit 8 s"
    by (simp_all add: drop_bit_eq_div)
  then show ?thesis by (simp add: put_seconds_def v be_bytes32 ucast_and_ff numeral_eq_Suc)
qed

lemma list_of_8:
  assumes "length v = 8" obtains a b c d e f g h where "v = [a, b, c, d, e, f, g, h]"
  using assms by (auto simp: numeral_eq_Suc length_Suc_conv)

lemma put_fraction_be:
  assumes "length v = 8"
  shows "put_fraction f v = take 4 v @ [ucast (drop_bit 16 f), ucast (drop_bit 8 f), ucast f, v ! 7]"
  using assms by (rule list_of_8) (simp add: put_fraction_def ucast_and_ff numeral_eq_Suc)

text \<open>The octets after a time was set: the seconds, the fraction, and the quality as before.\<close>

lemma time_octets:
  assumes "length v = 8"
  shows "put_fraction f (put_seconds s v)
    = be_bytes s @ [ucast (drop_bit 16 f), ucast (drop_bit 8 f), ucast f, v ! 7]"
  using assms by (simp add: put_fraction_be put_seconds_be nth_append)

lemma get_fraction_three:
  assumes "unat f < 2 ^ 24" and "length p = 4"
  shows "get_fraction (p @ [ucast (drop_bit 16 f), ucast (drop_bit 8 f), ucast f, q]) = f"
    and "push_bit 16 (ucast ((p @ [ucast (drop_bit 16 f), ucast (drop_bit 8 f), ucast f, q]) ! 4))
      + push_bit 8 (ucast ((p @ [ucast (drop_bit 16 f), ucast (drop_bit 8 f), ucast f, q]) ! 5))
      + ucast ((p @ [ucast (drop_bit 16 f), ucast (drop_bit 8 f), ucast f, q]) ! 6) = f"
proof -
  note three = three_octets [OF assms(1)]
  then show "get_fraction (p @ [ucast (drop_bit 16 f), ucast (drop_bit 8 f), ucast f, q]) = f"
    by (simp add: get_fraction_def nth_append assms(2) push_bit_eq_mult algebra_simps)
  show "push_bit 16 (ucast ((p @ [ucast (drop_bit 16 f), ucast (drop_bit 8 f), ucast f, q]) ! 4))
      + push_bit 8 (ucast ((p @ [ucast (drop_bit 16 f), ucast (drop_bit 8 f), ucast f, q]) ! 5))
      + ucast ((p @ [ucast (drop_bit 16 f), ucast (drop_bit 8 f), ucast f, q]) ! 6) = f"
    using three by (simp add: nth_append assms(2))
qed

definition ts_ok :: "Timestamp \<Rightarrow> bool" where
  "ts_ok self \<longleftrightarrow> length (val self) = 8"

lemma ns_fraction:
  assumes "r < (1000000000 :: nat)"
  shows "r * 2 ^ 24 div 1000000000 < 2 ^ 24" and "(r * 2 ^ 24 div 1000000000) * 1000000000 div 2 ^ 24 \<le> r"
    and "r \<le> (r * 2 ^ 24 div 1000000000) * 1000000000 div 2 ^ 24 + 60"
proof -
  define q where "q = r * 16777216 div 1000000000"
  define b where "b = q * 1000000000 div 16777216"
  have q: "q * 1000000000 \<le> r * 16777216" "r * 16777216 < q * 1000000000 + 1000000000"
    by (simp_all add: q_def)
  have b: "b * 16777216 \<le> q * 1000000000" "q * 1000000000 < b * 16777216 + 16777216"
    by (simp_all add: b_def)
  have "q < 16777216" using q assms by linarith
  moreover have "b \<le> r" using q b by linarith
  moreover have "r \<le> b + 60" using q b by linarith
  ultimately show "r * 2 ^ 24 div 1000000000 < 2 ^ 24"
    and "(r * 2 ^ 24 div 1000000000) * 1000000000 div 2 ^ 24 \<le> r"
    and "r \<le> (r * 2 ^ 24 div 1000000000) * 1000000000 div 2 ^ 24 + 60"
    by (simp_all add: q_def b_def)
qed

lemma unat_small64: "n < 2 ^ 64 \<Longrightarrow> unat (of_nat n :: uint64) = n"
  by (simp add: unsigned_of_nat take_bit_nat_eq_self)

lemma ns_roundtrip:
  assumes ok: "ts_ok self" and t: "unat t < 1000000000 * 2 ^ 32"
  defines "s \<equiv> Timestamp_setTimeInNanoseconds self t"
  shows "ts_ok s" and "val s ! 7 = val self ! 7"
    and "unat (Timestamp_getTimeInNs s) \<le> unat t" and "unat t \<le> unat (Timestamp_getTimeInNs s) + 60"
proof -
  define sec where "sec = unat t div 1000000000"
  define r where "r = unat t mod 1000000000"
  define q where "q = r * 2 ^ 24 div 1000000000"
  have r: "r < 1000000000" by (simp add: r_def)
  note fr = ns_fraction [OF r, folded q_def]
  have sec: "sec < 2 ^ 32" using t by (simp add: sec_def less_mult_imp_div_less)
  have ur: "unat (push_bit 24 (t mod 1000000000)) = r * 2 ^ 24"
  proof -
    have "r * 2 ^ 24 < 2 ^ 64" using r by simp
    then show ?thesis
      by (simp add: r_def push_bit_eq_mult unat_word_ariths unat_mod)
  qed
  have f: "unat (ucast (push_bit 24 (t mod 1000000000) div 1000000000) :: uint32) = q"
    using fr(1) by (simp add: unsigned_ucast_eq unat_div ur q_def take_bit_nat_eq_self)
  have us: "unat (ucast (t div 1000000000) :: uint32) = sec"
    using sec by (simp add: unsigned_ucast_eq unat_div sec_def take_bit_nat_eq_self)
  have len: "length (val self) = 8" using ok by (simp add: ts_ok_def)
  let ?f = "ucast (push_bit 24 (t mod 1000000000) div 1000000000) :: uint32"
  have s: "val s = be_bytes (ucast (t div 1000000000) :: uint32) @
      [ucast (drop_bit 16 ?f), ucast (drop_bit 8 ?f), ucast ?f, val self ! 7]"
    unfolding s_def Timestamp_setTimeInNanoseconds_def Let_def by (simp add: time_octets [OF len])
  show "ts_ok s" "val s ! 7 = val self ! 7" by (simp_all add: ts_ok_def s nth_append)
  have uf: "unat ?f < 2 ^ 24" using f fr(1) by simp
  have gf: "get_fraction (val s) = ?f" unfolding s by (rule get_fraction_three(1) [OF uf]) simp
  have gs: "get_seconds (val s) = ucast (t div 1000000000)" unfolding s by (rule get_seconds_be)
  have "Timestamp_getTimeInNs s = of_nat (sec * 1000000000) + drop_bit 24 (of_nat (q * 1000000000))"
  proof -
    have "(ucast (get_seconds (val s)) :: uint64) = of_nat sec" using us gs by (metis of_nat_unat)
    moreover have "(ucast (get_fraction (val s)) :: uint64) = of_nat q" using f gf by (metis of_nat_unat)
    ultimately show ?thesis by (simp add: Timestamp_getTimeInNs_def Let_def)
  qed
  also have "drop_bit 24 (of_nat (q * 1000000000) :: uint64) = of_nat (q * 1000000000 div 2 ^ 24)"
  proof -
    have "q * 1000000000 < 2 ^ 64" using fr(1) by simp
    then have "unat (drop_bit 24 (of_nat (q * 1000000000) :: uint64)) = q * 1000000000 div 2 ^ 24"
      unfolding unat_drop_bit_eq by (simp only: unat_small64 drop_bit_eq_div)
    then show ?thesis by (metis of_nat_unat ucast_id)
  qed
  also have "of_nat (sec * 1000000000) + of_nat (q * 1000000000 div 2 ^ 24)
      = (of_nat (sec * 1000000000 + q * 1000000000 div 2 ^ 24) :: uint64)" by simp
  finally have "unat (Timestamp_getTimeInNs s) = sec * 1000000000 + q * 1000000000 div 2 ^ 24"
  proof -
    assume a: "Timestamp_getTimeInNs s = of_nat (sec * 1000000000 + q * 1000000000 div 2 ^ 24)"
    have "sec * 1000000000 + q * 1000000000 div 2 ^ 24 < 2 ^ 64" using sec fr(2) r by simp
    then show ?thesis unfolding a by (rule unat_small64)
  qed
  moreover have "unat t = sec * 1000000000 + r" by (simp add: sec_def r_def)
  ultimately show "unat (Timestamp_getTimeInNs s) \<le> unat t" "unat t \<le> unat (Timestamp_getTimeInNs s) + 60"
    using fr(2,3) by simp_all
qed

lemma ms_roundtrip:
  assumes ok: "ts_ok self" and t: "unat t < 1000 * 2 ^ 32"
  shows "ts_ok (Timestamp_setTimeInMilliseconds self t)"
    and "val (Timestamp_setTimeInMilliseconds self t) ! 7 = val self ! 7"
    and "Timestamp_getTimeInMs (Timestamp_setTimeInMilliseconds self t) = t"
proof -
  define s :: uint32 where "s = ucast (t div 1000)"
  define r :: uint32 where "r = ucast (t mod 1000)"
  define f where "f = r * 16777 + (r * 216) div 1000"
  have us: "unat s = unat t div 1000"
    using t by (simp add: s_def unsigned_ucast_eq unat_div take_bit_nat_eq_self less_mult_imp_div_less)
  have "unat t mod 1000 < 1000" by simp
  then have "unat t mod 1000 < 2 ^ 32" by (rule less_trans) simp
  then have ur: "unat r = unat t mod 1000"
    by (simp add: r_def unsigned_ucast_eq unat_mod take_bit_nat_eq_self)
  have r: "unat r < 1000" by (simp add: ur)
  note fr = ms_fraction [OF r, folded f_def]
  have len: "length (val self) = 8" using ok by (simp add: ts_ok_def)
  have set: "val (Timestamp_setTimeInMilliseconds self t)
      = be_bytes s @ [ucast (drop_bit 16 f), ucast (drop_bit 8 f), ucast f, val self ! 7]"
    by (simp add: Timestamp_setTimeInMilliseconds_def Let_def s_def [symmetric] r_def [symmetric]
        f_def [symmetric] time_octets [OF len])
  show "ts_ok (Timestamp_setTimeInMilliseconds self t)"
    and "val (Timestamp_setTimeInMilliseconds self t) ! 7 = val self ! 7"
    by (simp_all add: ts_ok_def set nth_append)
  have "Timestamp_getTimeInMs (Timestamp_setTimeInMilliseconds self t) = ucast s * 1000 + ucast r"
    unfolding Timestamp_getTimeInMs_def set Let_def get_seconds_be
    using get_fraction_three(2) [OF fr(1), of "be_bytes s" "val self ! 7"] fr(2) by simp
  also have "\<dots> = of_nat (unat s * 1000 + unat r)" by simp
  also have "unat s * 1000 + unat r = unat t" by (simp add: us ur)
  finally show "Timestamp_getTimeInMs (Timestamp_setTimeInMilliseconds self t) = t" by simp
qed

section \<open>The quality octet of a time stamp\<close>

lemma mask_bits:
  fixes b :: byte
  shows "b AND 0x80 = 0 \<longleftrightarrow> \<not> bit b 7" and "b AND 0x40 = 0 \<longleftrightarrow> \<not> bit b 6"
    and "b AND 0x20 = 0 \<longleftrightarrow> \<not> bit b 5" and "b AND 0x1f = take_bit 5 b"
  using and_exp_eq_0_iff_not_bit [of b 7] and_exp_eq_0_iff_not_bit [of b 6] and_exp_eq_0_iff_not_bit [of b 5]
  by (simp_all add: take_bit_eq_mask mask_eq_exp_minus_1)

lemma upd7_simps [simp]:
  "ts_ok self \<Longrightarrow> val (upd7 f self) ! 7 = f (val self ! 7)"
  "ts_ok self \<Longrightarrow> ts_ok (upd7 f self)"
  "get_seconds (val (upd7 f self)) = get_seconds (val self)"
  "get_fraction (val (upd7 f self)) = get_fraction (val self)"
  by (simp_all add: upd7_def ts_ok_def get_seconds_def get_fraction_def)

lemma flag_octets:
  fixes b :: byte
  shows "bit (b OR 0x80) k = (bit b k \<or> k = 7)" "bit (b AND 0x7f) k = (bit b k \<and> k \<noteq> 7)"
    "bit (b OR 0x40) k = (bit b k \<or> k = 6)" "bit (b AND 0xbf) k = (bit b k \<and> k \<noteq> 6)"
    "bit (b OR 0x20) k = (bit b k \<or> k = 5)" "bit (b AND 0xdf) k = (bit b k \<and> k \<noteq> 5)"
proof -
  have e: "bit (0x80 :: byte) k \<longleftrightarrow> k = 7" "bit (0x40 :: byte) k \<longleftrightarrow> k = 6" "bit (0x20 :: byte) k \<longleftrightarrow> k = 5"
    using bit_exp_iff [of 7 k, where ?'a = byte] bit_exp_iff [of 6 k, where ?'a = byte]
      bit_exp_iff [of 5 k, where ?'a = byte] by auto
  have n: "(0x7f :: byte) = NOT 0x80" "(0xbf :: byte) = NOT 0x40" "(0xdf :: byte) = NOT 0x20"
    by simp_all
  have lt: "bit b k \<Longrightarrow> k < 8" using bit_imp_le_length [of b k] by simp
  show "bit (b OR 0x80) k = (bit b k \<or> k = 7)" "bit (b AND 0x7f) k = (bit b k \<and> k \<noteq> 7)"
    "bit (b OR 0x40) k = (bit b k \<or> k = 6)" "bit (b AND 0xbf) k = (bit b k \<and> k \<noteq> 6)"
    "bit (b OR 0x20) k = (bit b k \<or> k = 5)" "bit (b AND 0xdf) k = (bit b k \<and> k \<noteq> 5)"
    unfolding n bit_or_iff bit_and_iff bit_not_iff e using lt by auto
qed

lemma precision_octet:
  fixes b :: byte and p :: int
  assumes "0 \<le> p" and "p < 32"
  shows "(b AND 0xe0) + word_of_int (p AND 0x1f) = (b AND 0xe0) OR word_of_int p"
    and "bit ((b AND 0xe0) OR word_of_int p) k = (if k < 5 then bit p k else bit b k)"
proof -
  have p: "p AND 0x1f = p"
    using assms take_bit_int_eq_self [of p 5] by (simp add: take_bit_eq_mask mask_eq_exp_minus_1)
  have e: "(0xe0 :: byte) = NOT (mask 5)" by code_simp
  have hi: "bit p k \<Longrightarrow> k < 5" for k
  proof (rule ccontr)
    assume "bit p k" "\<not> k < 5"
    moreover have "take_bit 5 p = p" using assms by (simp add: take_bit_int_eq_self)
    ultimately show False by (metis bit_take_bit_iff)
  qed
  have disj: "(b AND 0xe0) AND word_of_int p = 0"
    unfolding e by (rule bit_word_eqI) (auto simp: bit_simps dest: hi)
  then show "(b AND 0xe0) + word_of_int (p AND 0x1f) = (b AND 0xe0) OR word_of_int p"
    unfolding p by (rule disjunctive_add_eq_or)
  show "bit ((b AND 0xe0) OR word_of_int p) k = (if k < 5 then bit p k else bit b k)"
    unfolding e using hi bit_imp_le_length [of b k] by (auto simp: bit_simps)
qed

section \<open>The setters change what they say, nothing else\<close>

lemma time_of_upd7 [simp]: "Timestamp_getTimeInNs (upd7 f self) = Timestamp_getTimeInNs self"
  by (simp add: Timestamp_getTimeInNs_def)

text \<open>The contract of a one-bit flag of the quality octet: a setter and its getter.\<close>

locale timestamp_flag =
  fixes set_flag :: "Timestamp \<Rightarrow> bool \<Rightarrow> Timestamp" and get_flag :: "Timestamp \<Rightarrow> bool" and k :: nat
  assumes get: "get_flag self = bit (val self ! 7) k"
    and set_bit: "ts_ok self \<Longrightarrow> bit (val (set_flag self v) ! 7) j = (if j = k then v else bit (val self ! 7) j)"
    and set_ok: "ts_ok self \<Longrightarrow> ts_ok (set_flag self v)"
    and set_time: "Timestamp_getTimeInNs (set_flag self v) = Timestamp_getTimeInNs self"
    and high: "5 \<le> k"
begin

lemma get_set: "ts_ok self \<Longrightarrow> get_flag (set_flag self v) = v"
  by (simp add: get set_bit)

lemma other_bit: "ts_ok self \<Longrightarrow> j \<noteq> k \<Longrightarrow> bit (val (set_flag self v) ! 7) j = bit (val self ! 7) j"
  by (simp add: set_bit)

lemma precision: "ts_ok self \<Longrightarrow> take_bit 5 (val (set_flag self v) ! 7) = take_bit 5 (val self ! 7)"
  using high by (intro bit_word_eqI) (auto simp: bit_simps set_bit)

end

interpretation leap_second: timestamp_flag Timestamp_setLeapSecondKnown Timestamp_isLeapSecondKnown 7
  by unfold_locales
    (auto simp: Timestamp_isLeapSecondKnown_def Timestamp_setLeapSecondKnown_def mask_bits flag_octets)

interpretation clock_failure: timestamp_flag Timestamp_setClockFailure Timestamp_hasClockFailure 6
  by unfold_locales
    (auto simp: Timestamp_hasClockFailure_def Timestamp_setClockFailure_def mask_bits flag_octets)

interpretation not_synchronized: timestamp_flag Timestamp_setClockNotSynchronized Timestamp_isClockNotSynchronized 5
  by unfold_locales
    (auto simp: Timestamp_isClockNotSynchronized_def Timestamp_setClockNotSynchronized_def mask_bits flag_octets)

lemmas flag_bits = leap_second.get clock_failure.get not_synchronized.get

lemma precision_set:
  assumes "ts_ok self" and "0 \<le> p" and "p < 32"
  shows "bit (val (Timestamp_setSubsecondPrecision self p) ! 7) j = (if j < 5 then bit p j else bit (val self ! 7) j)"
    and "Timestamp_getSubsecondPrecision (Timestamp_setSubsecondPrecision self p) = p"
proof -
  show b: "bit (val (Timestamp_setSubsecondPrecision self p) ! 7) j = (if j < 5 then bit p j else bit (val self ! 7) j)" for j
    using assms(1) precision_octet [OF assms(2,3), of "val self ! 7"]
    by (simp add: Timestamp_setSubsecondPrecision_def Let_def)
  have "take_bit 5 (val (Timestamp_setSubsecondPrecision self p) ! 7) = word_of_int p"
  proof (rule bit_word_eqI)
    fix j
    have "take_bit 5 p = p" using assms(2,3) by (simp add: take_bit_int_eq_self)
    then have "bit p j \<Longrightarrow> j < 5" by (metis bit_take_bit_iff)
    then show "bit (take_bit 5 (val (Timestamp_setSubsecondPrecision self p) ! 7)) j = bit (word_of_int p :: byte) j"
      by (auto simp: bit_take_bit_iff b bit_simps)
  qed
  then show "Timestamp_getSubsecondPrecision (Timestamp_setSubsecondPrecision self p) = p"
    using assms(2,3) by (simp add: Timestamp_getSubsecondPrecision_def mask_bits unsigned_of_int take_bit_int_eq_self)
qed

lemma quality_bits:
  assumes "length b = bit_byte_size 13"
  shows "\<exists>v. Quality_toMmsValue q (Some (MmsBitString 13 b)) = Some v \<and>
    Quality_fromMmsValue v = Some (q AND 0x1fff)"
proof -
  obtain v where v: "set_bits [0..<13] (ucast q) (MmsBitString 13 b) = Some v"
      "MmsValue_getBitStringSize v = Some 13" "get_bits [0..<13] 0 0 v = Some (take_bit 13 (ucast q))"
    by (rule bit_integer_roundtrip [OF assms, of "[0..<13]" "ucast q"]) (auto simp: atLeast0LessThan)
  have "(ucast (take_bit 13 (ucast q :: uint32)) :: uint16) = q AND 0x1fff"
  proof -
    have "(0x1fff :: uint16) = mask 13" by (simp add: mask_eq_exp_minus_1)
    then have "q AND 0x1fff = take_bit 13 q" by (simp add: take_bit_eq_mask)
    moreover have "(ucast (take_bit 13 (ucast q :: uint32)) :: uint16) = take_bit 13 q"
      by (rule bit_word_eqI) (auto simp: bit_simps)
    ultimately show ?thesis by simp
  qed
  then show ?thesis
    using v by (simp add: Quality_toMmsValue_def Quality_fromMmsValue_def
        MmsValue_setBitStringFromInteger_def MmsValue_getBitStringAsInteger_def)
qed

lemma dbpos_bits:
  assumes "0 \<le> d" and "d < 4"
  shows "\<exists>v. Dbpos_toMmsValue None d = Some (Some v) \<and> Dbpos_fromMmsValue v = Some (word_of_int d)"
proof -
  have new: "MmsValue_newBitString 2 = Some (MmsBitString 2 [0])" by code_simp
  have len: "length [0 :: byte] = bit_byte_size 2" by (simp add: bit_byte_size_def)
  obtain v where v: "set_bits (rev [0..<2]) (word_of_int d) (MmsBitString 2 [0]) = Some v"
      "MmsValue_getBitStringSize v = Some 2" "get_bits (rev [0..<2]) 0 0 v = Some (take_bit 2 (word_of_int d))"
    by (rule bit_integer_roundtrip [OF len, of "rev [0..<2]" "word_of_int d"]) (auto simp: atLeast0LessThan)
  have "take_bit 2 (word_of_int d :: uint32) = word_of_int d"
    using assms by (intro word_uint_eqI)
      (simp add: unsigned_take_bit_eq unsigned_of_int take_bit_int_eq_self)
  then show ?thesis
    using assms v new
    by (simp add: Dbpos_toMmsValue_def Dbpos_fromMmsValue_def
        MmsValue_setBitStringFromIntegerBigEndian_def MmsValue_getBitStringAsIntegerBigEndian_def)
qed

lemma fc_table:
  "FunctionalConstraint_fromString s = Some fc \<Longrightarrow> fc \<noteq> IEC61850_FC_NONE \<Longrightarrow>
   \<exists>t. FunctionalConstraint_toString fc = Some t \<and> take 2 s = take 2 t"
proof -
  assume a: "FunctionalConstraint_fromString s = Some fc" "fc \<noteq> IEC61850_FC_NONE"
  then obtain c0 s' where s: "s = c0 # s'" by (cases s) (auto simp: FunctionalConstraint_fromString_def rd_def)
  show ?thesis
  proof (cases s')
    case Nil
    then show ?thesis
      using a by (auto simp: s FunctionalConstraint_fromString_def second_char_def rd_def split: if_splits)
  next
    case (Cons c1 s'')
    then show ?thesis
      using a by (auto simp: s FunctionalConstraint_fromString_def second_char_def rd_def ascii_def c_str_def
          split: if_splits)
  qed
qed

section \<open>Properties\<close>

text \<open>A time in nanoseconds that is stored in a time stamp is read back at most 60 nanoseconds
  early and never late, for every time of the 32 bit epoch; the quality octet is untouched.\<close>

theorem timestamp_ns_roundtrip:
  assumes "ts_ok self" and "unat t < 1000000000 * 2 ^ 32"
  shows "unat (Timestamp_getTimeInNs (Timestamp_setTimeInNanoseconds self t)) \<le> unat t \<and>
    unat t \<le> unat (Timestamp_getTimeInNs (Timestamp_setTimeInNanoseconds self t)) + 60 \<and>
    val (Timestamp_setTimeInNanoseconds self t) ! 7 = val self ! 7"
  using ns_roundtrip [OF assms] by simp

theorem timestamp_ns_roundtrip_witness:
  "unat (Timestamp_getTimeInNs (Timestamp_setTimeInNanoseconds Timestamp_create 1700000000123456789))
      \<le> 1700000000123456789 \<and>
    1700000000123456789
      \<le> unat (Timestamp_getTimeInNs (Timestamp_setTimeInNanoseconds Timestamp_create 1700000000123456789)) + 60"
  using timestamp_ns_roundtrip [of Timestamp_create 1700000000123456789]
  by (simp add: ts_ok_def Timestamp_create_def)

text \<open>A time in milliseconds is read back exactly; the flags and the precision of the time
  quality can be set and read independently of each other and of the time.\<close>

theorem timestamp_fields_independent:
  assumes "ts_ok self" and "unat t < 1000 * 2 ^ 32" and "0 \<le> p" and "p < 32"
  shows "Timestamp_getTimeInMs (Timestamp_setTimeInMilliseconds self t) = t \<and>
    val (Timestamp_setTimeInMilliseconds self t) ! 7 = val self ! 7 \<and>
    Timestamp_isLeapSecondKnown (Timestamp_setClockFailure (Timestamp_setLeapSecondKnown self a) b) = a \<and>
    Timestamp_hasClockFailure (Timestamp_setClockNotSynchronized (Timestamp_setClockFailure self b) c) = b \<and>
    Timestamp_isClockNotSynchronized (Timestamp_setSubsecondPrecision (Timestamp_setClockNotSynchronized self c) p) = c \<and>
    Timestamp_getSubsecondPrecision (Timestamp_setLeapSecondKnown (Timestamp_setSubsecondPrecision self p) a) = p \<and>
    Timestamp_getTimeInNs (Timestamp_setSubsecondPrecision (Timestamp_setLeapSecondKnown self a) p)
      = Timestamp_getTimeInNs self"
proof -
  have ok: "ts_ok (Timestamp_setSubsecondPrecision self p)"
    using assms(1) by (simp add: Timestamp_setSubsecondPrecision_def Let_def)
  have "Timestamp_getSubsecondPrecision (Timestamp_setLeapSecondKnown (Timestamp_setSubsecondPrecision self p) a) = p"
    using leap_second.precision [OF ok, of a] precision_set(2) [OF assms(1,3,4)]
    by (simp add: Timestamp_getSubsecondPrecision_def mask_bits)
  moreover have "Timestamp_getTimeInNs (Timestamp_setSubsecondPrecision s p) = Timestamp_getTimeInNs s" for s
    by (simp add: Timestamp_setSubsecondPrecision_def Let_def)
  ultimately show ?thesis
    using assms ms_roundtrip [OF assms(1,2)]
    by (simp add: flag_bits leap_second.set_ok clock_failure.set_ok not_synchronized.set_ok
        leap_second.set_bit clock_failure.set_bit not_synchronized.set_bit precision_set(1)
        leap_second.set_time)
qed

theorem timestamp_fields_independent_witness:
  "Timestamp_getTimeInMs (Timestamp_setTimeInMilliseconds Timestamp_create 1700000000999) = 1700000000999 \<and>
    Timestamp_isLeapSecondKnown (Timestamp_setClockFailure (Timestamp_setLeapSecondKnown Timestamp_create True) False)"
  using timestamp_fields_independent [of Timestamp_create 1700000000999 10 True False True]
  by (simp add: ts_ok_def Timestamp_create_def)

text \<open>A quality converted to an MMS bit string and back keeps its 13 lowest bits; a double point
  position converted to an MMS value and back is unchanged. The derived flag (0x2000)
  is the one above: it is lost.\<close>

theorem quality_dbpos_roundtrip:
  assumes "0 \<le> d" and "d < 4"
  shows "(\<exists>v. Quality_toMmsValue q None = Some v \<and> Quality_fromMmsValue v = Some (q AND 0x1fff)) \<and>
    (\<exists>v. Dbpos_toMmsValue None d = Some (Some v) \<and> Dbpos_fromMmsValue v = Some (word_of_int d))"
proof -
  have new: "MmsValue_newBitString 13 = Some (MmsBitString 13 [0, 0])" by code_simp
  have "length [0, 0 :: byte] = bit_byte_size 13" by (simp add: bit_byte_size_def)
  from quality_bits [OF this, of q] show ?thesis
    using new dbpos_bits [OF assms] by (simp add: Quality_toMmsValue_def)
qed

theorem quality_dbpos_roundtrip_witness:
  "(\<exists>v. Quality_toMmsValue 0x2803 None = Some v \<and> Quality_fromMmsValue v = Some 0x0803) \<and>
    (\<exists>v. Dbpos_toMmsValue None 2 = Some (Some v) \<and> Dbpos_fromMmsValue v = Some 2)"
proof -
  have "(0x2803 AND 0x1fff :: Quality) = 0x0803" by code_simp
  then show ?thesis using quality_dbpos_roundtrip [of 2 "0x2803"] by simp
qed

text \<open>Functional constraints and their two-letter names: every constraint that has a name is found
  again from it, exactly the pseudo constraints ALL and NONE have no name, and a constraint is found
  only for a string that begins with its name.\<close>

theorem functional_constraint_names:
  "(case FunctionalConstraint_toString fc of
      Some s \<Rightarrow> FunctionalConstraint_fromString s = Some fc
    | None \<Rightarrow> fc = IEC61850_FC_ALL \<or> fc = IEC61850_FC_NONE) \<and>
   (FunctionalConstraint_fromString s = Some fc \<longrightarrow> fc \<noteq> IEC61850_FC_NONE \<longrightarrow>
      (\<exists>t. FunctionalConstraint_toString fc = Some t \<and> take 2 s = take 2 t))"
proof
  show "case FunctionalConstraint_toString fc of Some s \<Rightarrow> FunctionalConstraint_fromString s = Some fc
      | None \<Rightarrow> fc = IEC61850_FC_ALL \<or> fc = IEC61850_FC_NONE"
    by (cases fc)
      (simp_all add: FunctionalConstraint_fromString_def second_char_def rd_def ascii_def c_str_def)
  show "FunctionalConstraint_fromString s = Some fc \<longrightarrow> fc \<noteq> IEC61850_FC_NONE \<longrightarrow>
      (\<exists>t. FunctionalConstraint_toString fc = Some t \<and> take 2 s = take 2 t)"
    using fc_table by blast
qed

theorem functional_constraint_names_witness:
  "\<exists>t. FunctionalConstraint_toString IEC61850_FC_MX = Some t \<and> take 2 (ascii ''MX[0]'') = take 2 t"
proof -
  have "FunctionalConstraint_fromString (ascii ''MX[0]'') = Some IEC61850_FC_MX" by code_simp
  then show ?thesis using functional_constraint_names [of IEC61850_FC_MX "ascii ''MX[0]''"] by simp
qed

end
