(* ===== verification/Sv_Publisher.thy ===== *)
theory Sv_Publisher
  imports Goose_Publisher Iec61850_Common
begin

text \<open>
  The sampled values publisher, \<open>src/sampled_values/sv_publisher.cc\<close>. The frame is laid out once, by
  \<open>SVPublisher_setupComplete\<close>; after that the ASDUs hold pointers into the frame buffer and the
  setters write through them. A pointer into the buffer is its position in \<open>sp_buffer\<close>
  (\<open>None\<close> for \<open>NULL\<close>), and a function that writes through one takes the buffer and gives it back.
  Signed integers and floats are passed as the word of their octets.
\<close>

section \<open>State\<close>

record SVPublisher_ASDU =
  sa_svID :: "byte list"
  sa_datset :: "byte list option"
  sa_dataSize :: nat
  sa_hasRefrTm :: bool
  sa_hasSmpRate :: bool
  sa_hasSmpMod :: bool
  sa_dataBuffer :: "nat option"
  sa_smpSynch :: byte
  sa_smpCnt :: uint16
  sa_smpCntLimit :: uint16
  sa_confRev :: uint32
  sa_refrTm :: "nat option"
  sa_smpMod :: byte
  sa_smpRate :: uint16
  sa_smpCntBuf :: "nat option"
  sa_smpSynchBuf :: "nat option"

record SVPublisher =
  sp_buffer :: buffer
  sp_ethernetSocket :: EthernetSocket
  sp_lengthField :: nat
  sp_payloadStart :: nat
  sp_payloadLength :: nat
  sp_asduList :: "SVPublisher_ASDU list"

definition default_sv_parameters :: CommParameters where
  "default_sv_parameters = \<lparr>vlanPriority = 4, vlanId = 0, appId = 0x4000,
     dstAddress = [0x01, 0x0c, 0xcd, 0x01, 0x00, 0x01]\<rparr>"

section \<open>Construction\<close>

definition sv_header_bytes :: "CommParameters \<Rightarrow> byte list" where
  "sv_header_bytes p = [0x88, 0xba, ucast (appId p div 256), ucast (appId p mod 256)]"

text \<open>\<open>heap\<close> is the content of the freshly allocated buffer.\<close>

definition preparePacketBuffer ::
    "devices \<Rightarrow> buffer \<Rightarrow> SVPublisher \<Rightarrow> CommParameters option \<Rightarrow> byte list option \<Rightarrow> bool \<Rightarrow>
     SVPublisher option" where
  "preparePacketBuffer devices heap self parameters interfaceId useVlanTags = do {
     let interface = (case interfaceId of Some i \<Rightarrow> i | None \<Rightarrow> CONFIG_ETHERNET_INTERFACE_ID);
     srcAddr \<leftarrow> Ethernet_getInterfaceMACAddress devices interface;
     let p = (case parameters of Some p \<Rightarrow> p | None \<Rightarrow> default_sv_parameters);
     socket \<leftarrow> Ethernet_createSocket devices interface (Some (dstAddress p));
     dst \<leftarrow> rd_bytes (dstAddress p) 0 6;
     c \<leftarrow> put_bytes dst (heap, 0);
     c \<leftarrow> put_bytes srcAddr c;
     c \<leftarrow> (if useVlanTags then put_bytes (vlan_bytes p) c else Some c);
     c \<leftarrow> put_bytes (sv_header_bytes p) c;
     let lengthField = snd c;
     (buffer, bufPos) \<leftarrow> put_bytes [0x00, 0x08, 0x00, 0x00, 0x00, 0x00] c;
     Some (self\<lparr>sp_ethernetSocket := socket, sp_buffer := buffer, sp_lengthField := lengthField,
                sp_payloadStart := bufPos\<rparr>) }"

definition new_SVPublisher :: SVPublisher where
  "new_SVPublisher = \<lparr>sp_buffer = [], sp_ethernetSocket = \<lparr>es_remote = None, es_sent = []\<rparr>,
     sp_lengthField = 0, sp_payloadStart = 0, sp_payloadLength = 0, sp_asduList = []\<rparr>"

definition SVPublisher_createEx ::
    "devices \<Rightarrow> buffer \<Rightarrow> CommParameters option \<Rightarrow> byte list option \<Rightarrow> bool \<Rightarrow> SVPublisher option" where
  "SVPublisher_createEx devices heap parameters interfaceId useVlanTag =
     preparePacketBuffer devices heap new_SVPublisher parameters interfaceId useVlanTag"

definition SVPublisher_create ::
    "devices \<Rightarrow> buffer \<Rightarrow> CommParameters option \<Rightarrow> byte list option \<Rightarrow> SVPublisher option" where
  "SVPublisher_create devices heap parameters interfaceId =
     SVPublisher_createEx devices heap parameters interfaceId True"

text \<open>The pointers to the two names are kept, not copied: the caller's strings must outlive the ASDU.\<close>

definition SVPublisher_addASDU ::
    "SVPublisher \<Rightarrow> byte list \<Rightarrow> byte list option \<Rightarrow> uint32 \<Rightarrow> SVPublisher" where
  "SVPublisher_addASDU self svID datset confRev =
     self\<lparr>sp_asduList := sp_asduList self @ [\<lparr>sa_svID = svID, sa_datset = datset, sa_dataSize = 0,
       sa_hasRefrTm = False, sa_hasSmpRate = False, sa_hasSmpMod = False, sa_dataBuffer = None,
       sa_smpSynch = 0, sa_smpCnt = 0, sa_smpCntLimit = - 1, sa_confRev = confRev, sa_refrTm = None,
       sa_smpMod = 0, sa_smpRate = 0, sa_smpCntBuf = None, sa_smpSynchBuf = None\<rparr>]\<rparr>"

section \<open>Fixed-size integers\<close>

definition encodeUInt16FixedSize :: "uint16 \<Rightarrow> cursor \<Rightarrow> cursor option" where
  "encodeUInt16FixedSize value = put_bytes [le_bytes value ! 1, le_bytes value ! 0]"

definition encodeUInt32FixedSize :: "uint32 \<Rightarrow> cursor \<Rightarrow> cursor option" where
  "encodeUInt32FixedSize value =
     put_bytes [le_bytes value ! 3, le_bytes value ! 2, le_bytes value ! 1, le_bytes value ! 0]"

definition encodeInt32FixedSize :: "uint32 \<Rightarrow> cursor \<Rightarrow> cursor option" where
  "encodeInt32FixedSize value =
     put_bytes [le_bytes value ! 3, le_bytes value ! 2, le_bytes value ! 1, le_bytes value ! 0]"

definition encodeInt64FixedSize :: "uint64 \<Rightarrow> cursor \<Rightarrow> cursor option" where
  "encodeInt64FixedSize value =
     put_bytes [le_bytes value ! 7, le_bytes value ! 6, le_bytes value ! 5, le_bytes value ! 4,
                le_bytes value ! 3, le_bytes value ! 2, le_bytes value ! 1, le_bytes value ! 0]"

section \<open>Layout\<close>

definition SVPublisher_ASDU_getEncodedSize :: "SVPublisher_ASDU \<Rightarrow> nat option" where
  "SVPublisher_ASDU_getEncodedSize self = do {
     svIdLen \<leftarrow> strlen (sa_svID self);
     let encodedSize = 1 + BerEncoder_determineLengthSize (of_nat svIdLen) + svIdLen;
     encodedSize \<leftarrow>
       (case sa_datset self of
          None \<Rightarrow> Some encodedSize
        | Some d \<Rightarrow> do {
            datSetLen \<leftarrow> strlen d;
            Some (encodedSize + (1 + BerEncoder_determineLengthSize (of_nat datSetLen) + datSetLen)) });
     Some (encodedSize + 4 + 6 + (if sa_hasRefrTm self then 10 else 0) + 3
       + (if sa_hasSmpRate self then 4 else 0)
       + (1 + BerEncoder_determineLengthSize (of_nat (sa_dataSize self))) + sa_dataSize self
       + (if sa_hasSmpMod self then 4 else 0)) }"

text \<open>\<open>bufPos += n\<close>: room that is filled later.\<close>

definition skip :: "nat \<Rightarrow> cursor \<Rightarrow> cursor" where
  "skip n c = (fst c, snd c + n)"

definition SVPublisher_ASDU_encodeToBuffer ::
    "SVPublisher_ASDU \<Rightarrow> cursor \<Rightarrow> (SVPublisher_ASDU \<times> cursor) option" where
  "SVPublisher_ASDU_encodeToBuffer self c = do {
     encodedSize \<leftarrow> SVPublisher_ASDU_getEncodedSize self;
     c \<leftarrow> BerEncoder_encodeTL 0x30 (of_nat encodedSize) c;
     c \<leftarrow> BerEncoder_encodeStringWithTag 0x80 (Some (sa_svID self)) c;
     c \<leftarrow> (if sa_datset self \<noteq> None then BerEncoder_encodeStringWithTag 0x81 (sa_datset self) c else Some c);
     c \<leftarrow> BerEncoder_encodeTL 0x82 2 c;
     let self = self\<lparr>sa_smpCntBuf := Some (snd c)\<rparr>;
     c \<leftarrow> encodeUInt16FixedSize (sa_smpCnt self) c;
     c \<leftarrow> BerEncoder_encodeTL 0x83 4 c;
     c \<leftarrow> encodeUInt32FixedSize (sa_confRev self) c;
     (self, c) \<leftarrow>
       (if sa_hasRefrTm self then do {
          c \<leftarrow> BerEncoder_encodeTL 0x84 8 c;
          Some (self\<lparr>sa_refrTm := Some (snd c)\<rparr>, skip 8 c) }
        else Some (self, c));
     c \<leftarrow> BerEncoder_encodeTL 0x85 1 c;
     let self = self\<lparr>sa_smpSynchBuf := Some (snd c)\<rparr>;
     c \<leftarrow> put (sa_smpSynch self) c;
     c \<leftarrow> (if sa_hasSmpRate self then do {
             c \<leftarrow> BerEncoder_encodeTL 0x86 2 c;
             encodeUInt16FixedSize (sa_smpRate self) c }
           else Some c);
     c \<leftarrow> BerEncoder_encodeTL 0x87 (of_nat (sa_dataSize self)) c;
     let self = self\<lparr>sa_dataBuffer := Some (snd c)\<rparr>;
     let c = skip (sa_dataSize self) c;
     c \<leftarrow> (if sa_hasSmpMod self then do {
             c \<leftarrow> BerEncoder_encodeTL 0x88 2 c;
             encodeUInt16FixedSize (ucast (sa_smpMod self)) c }
           else Some c);
     Some (self, c) }"

text \<open>The two loops over the ASDUs.\<close>

fun total_asdu_length :: "SVPublisher_ASDU list \<Rightarrow> nat option" where
  "total_asdu_length [] = Some 0"
| "total_asdu_length (a # as) = do {
     asduLength \<leftarrow> SVPublisher_ASDU_getEncodedSize a;
     m \<leftarrow> total_asdu_length as;
     Some (asduLength + BerEncoder_determineLengthSize (of_nat asduLength) + 1 + m) }"

fun encode_asdus :: "SVPublisher_ASDU list \<Rightarrow> cursor \<Rightarrow> (SVPublisher_ASDU list \<times> cursor) option" where
  "encode_asdus [] c = Some ([], c)"
| "encode_asdus (a # as) c = do {
     (a, c) \<leftarrow> SVPublisher_ASDU_encodeToBuffer a c;
     (as, c) \<leftarrow> encode_asdus as c;
     Some (a # as, c) }"

definition SVPublisher_setupComplete :: "SVPublisher \<Rightarrow> SVPublisher option" where
  "SVPublisher_setupComplete self = do {
     let numberOfAsdu = length (sp_asduList self);
     totalASDULength \<leftarrow> total_asdu_length (sp_asduList self);
     let sequenceSize = 1 + BerEncoder_determineLengthSize (of_nat totalASDULength) + totalASDULength;
     let innerSize = 2 + BerEncoder_UInt32determineEncodedSize (of_nat numberOfAsdu) + sequenceSize;
     let start = sp_payloadStart self;
     c \<leftarrow> BerEncoder_encodeTL 0x60 (of_nat innerSize) (sp_buffer self, start);
     c \<leftarrow> BerEncoder_encodeUInt32WithTL 0x80 (of_nat numberOfAsdu) c;
     c \<leftarrow> BerEncoder_encodeTL 0xa2 (of_nat totalASDULength) c;
     (asdus, buffer, bufPos) \<leftarrow> encode_asdus (sp_asduList self) c;
     let payloadLength = bufPos - start;
     let msgLength = payloadLength + 8;
     (buffer, _) \<leftarrow> put_bytes [of_nat (msgLength div 256), of_nat (msgLength mod 256)] (buffer, sp_lengthField self);
     Some (self\<lparr>sp_asduList := asdus, sp_buffer := buffer, sp_payloadLength := payloadLength\<rparr>) }"

definition SVPublisher_publish :: "SVPublisher \<Rightarrow> SVPublisher option" where
  "SVPublisher_publish self = do {
     socket \<leftarrow> Ethernet_sendPacket (sp_ethernetSocket self) (sp_buffer self)
       (int (sp_payloadStart self + sp_payloadLength self));
     Some (self\<lparr>sp_ethernetSocket := socket\<rparr>) }"

section \<open>The data of an ASDU\<close>

definition SVPublisher_ASDU_resetBuffer :: "SVPublisher_ASDU \<Rightarrow> SVPublisher_ASDU" where
  "SVPublisher_ASDU_resetBuffer self = self\<lparr>sa_dataSize := 0\<rparr>"

definition SVPublisher_ASDU_addINT8 :: "SVPublisher_ASDU \<Rightarrow> nat \<times> SVPublisher_ASDU" where
  "SVPublisher_ASDU_addINT8 self = (sa_dataSize self, self\<lparr>sa_dataSize := sa_dataSize self + 1\<rparr>)"

definition SVPublisher_ASDU_addINT32 :: "SVPublisher_ASDU \<Rightarrow> nat \<times> SVPublisher_ASDU" where
  "SVPublisher_ASDU_addINT32 self = (sa_dataSize self, self\<lparr>sa_dataSize := sa_dataSize self + 4\<rparr>)"

definition SVPublisher_ASDU_addINT64 :: "SVPublisher_ASDU \<Rightarrow> nat \<times> SVPublisher_ASDU" where
  "SVPublisher_ASDU_addINT64 self = (sa_dataSize self, self\<lparr>sa_dataSize := sa_dataSize self + 8\<rparr>)"

definition SVPublisher_ASDU_addFLOAT :: "SVPublisher_ASDU \<Rightarrow> nat \<times> SVPublisher_ASDU" where
  "SVPublisher_ASDU_addFLOAT self = (sa_dataSize self, self\<lparr>sa_dataSize := sa_dataSize self + 4\<rparr>)"

definition SVPublisher_ASDU_addFLOAT64 :: "SVPublisher_ASDU \<Rightarrow> nat \<times> SVPublisher_ASDU" where
  "SVPublisher_ASDU_addFLOAT64 self = (sa_dataSize self, self\<lparr>sa_dataSize := sa_dataSize self + 8\<rparr>)"

definition SVPublisher_ASDU_addTimestamp :: "SVPublisher_ASDU \<Rightarrow> nat \<times> SVPublisher_ASDU" where
  "SVPublisher_ASDU_addTimestamp self = (sa_dataSize self, self\<lparr>sa_dataSize := sa_dataSize self + 8\<rparr>)"

definition SVPublisher_ASDU_addQuality :: "SVPublisher_ASDU \<Rightarrow> nat \<times> SVPublisher_ASDU" where
  "SVPublisher_ASDU_addQuality self = (sa_dataSize self, self\<lparr>sa_dataSize := sa_dataSize self + 4\<rparr>)"

text \<open>A write of octets through a pointer of the ASDU.\<close>

definition write_at :: "nat option \<Rightarrow> int \<Rightarrow> byte list \<Rightarrow> buffer \<Rightarrow> buffer option" where
  "write_at ptr index bs mem = do {
     p \<leftarrow> ptr;
     if int p + index < 0 then None
     else map_option fst (put_bytes bs (mem, nat (int p + index))) }"

definition SVPublisher_ASDU_setINT8 :: "buffer \<Rightarrow> SVPublisher_ASDU \<Rightarrow> int \<Rightarrow> byte \<Rightarrow> buffer option" where
  "SVPublisher_ASDU_setINT8 mem self index value = write_at (sa_dataBuffer self) index [value] mem"

text \<open>The integer encoders are called with the data buffer and the index as position.\<close>

definition encode_at :: "(cursor \<Rightarrow> cursor option) \<Rightarrow> nat option \<Rightarrow> int \<Rightarrow> buffer \<Rightarrow> buffer option" where
  "encode_at enc ptr index mem = do {
     p \<leftarrow> ptr;
     if int p + index < 0 then None else map_option fst (enc (mem, nat (int p + index))) }"

definition SVPublisher_ASDU_setINT32 :: "buffer \<Rightarrow> SVPublisher_ASDU \<Rightarrow> int \<Rightarrow> uint32 \<Rightarrow> buffer option" where
  "SVPublisher_ASDU_setINT32 mem self index value =
     encode_at (encodeInt32FixedSize value) (sa_dataBuffer self) index mem"

definition SVPublisher_ASDU_setINT64 :: "buffer \<Rightarrow> SVPublisher_ASDU \<Rightarrow> int \<Rightarrow> uint64 \<Rightarrow> buffer option" where
  "SVPublisher_ASDU_setINT64 mem self index value =
     encode_at (encodeInt64FixedSize value) (sa_dataBuffer self) index mem"

definition SVPublisher_ASDU_setFLOAT :: "buffer \<Rightarrow> SVPublisher_ASDU \<Rightarrow> int \<Rightarrow> uint32 \<Rightarrow> buffer option" where
  "SVPublisher_ASDU_setFLOAT mem self index value =
     write_at (sa_dataBuffer self) index (BerEncoder_revertByteOrder (le_bytes value) 4) mem"

definition SVPublisher_ASDU_setFLOAT64 :: "buffer \<Rightarrow> SVPublisher_ASDU \<Rightarrow> int \<Rightarrow> uint64 \<Rightarrow> buffer option" where
  "SVPublisher_ASDU_setFLOAT64 mem self index value =
     write_at (sa_dataBuffer self) index (BerEncoder_revertByteOrder (le_bytes value) 8) mem"

definition SVPublisher_ASDU_setTimestamp :: "buffer \<Rightarrow> SVPublisher_ASDU \<Rightarrow> int \<Rightarrow> Timestamp \<Rightarrow> buffer option" where
  "SVPublisher_ASDU_setTimestamp mem self index value =
     write_at (sa_dataBuffer self) index (take 8 (val value)) mem"

definition SVPublisher_ASDU_setQuality :: "buffer \<Rightarrow> SVPublisher_ASDU \<Rightarrow> int \<Rightarrow> Quality \<Rightarrow> buffer option" where
  "SVPublisher_ASDU_setQuality mem self index value =
     write_at (sa_dataBuffer self) index [0, 0, ucast (value div 0x100), ucast (value mod 0x100)] mem"

section \<open>Sample counter, reference time and options\<close>

definition SVPublisher_ASDU_getSmpCnt :: "SVPublisher_ASDU \<Rightarrow> uint16" where
  "SVPublisher_ASDU_getSmpCnt self = sa_smpCnt self"

definition store_smpCnt :: "buffer \<Rightarrow> SVPublisher_ASDU \<Rightarrow> (buffer \<times> SVPublisher_ASDU) option" where
  "store_smpCnt mem self =
     (if sa_smpCntBuf self \<noteq> None
      then do {
        mem \<leftarrow> encode_at (encodeUInt16FixedSize (sa_smpCnt self)) (sa_smpCntBuf self) 0 mem;
        Some (mem, self) }
      else Some (mem, self))"

definition SVPublisher_ASDU_setSmpCnt ::
    "buffer \<Rightarrow> SVPublisher_ASDU \<Rightarrow> uint16 \<Rightarrow> (buffer \<times> SVPublisher_ASDU) option" where
  "SVPublisher_ASDU_setSmpCnt mem self value = store_smpCnt mem (self\<lparr>sa_smpCnt := value\<rparr>)"

definition SVPublisher_ASDU_setSmpCntWrap :: "SVPublisher_ASDU \<Rightarrow> uint16 \<Rightarrow> SVPublisher_ASDU" where
  "SVPublisher_ASDU_setSmpCntWrap self value = self\<lparr>sa_smpCntLimit := value\<rparr>"

text \<open>The sum is done in \<open>int\<close>; a limit of 0 is a division by zero.\<close>

definition SVPublisher_ASDU_increaseSmpCnt ::
    "buffer \<Rightarrow> SVPublisher_ASDU \<Rightarrow> (buffer \<times> SVPublisher_ASDU) option" where
  "SVPublisher_ASDU_increaseSmpCnt mem self =
     (if sa_smpCntLimit self = 0 then None
      else store_smpCnt mem (self\<lparr>sa_smpCnt := of_nat ((unat (sa_smpCnt self) + 1) mod unat (sa_smpCntLimit self))\<rparr>))"

definition SVPublisher_ASDU_enableRefrTm :: "SVPublisher_ASDU \<Rightarrow> SVPublisher_ASDU" where
  "SVPublisher_ASDU_enableRefrTm self = self\<lparr>sa_hasRefrTm := True\<rparr>"

text \<open>The time stamp operations on the eight octets of the buffer.\<close>

definition update_refrTm ::
    "(Timestamp \<Rightarrow> Timestamp) \<Rightarrow> buffer \<Rightarrow> SVPublisher_ASDU \<Rightarrow> (buffer \<times> SVPublisher_ASDU) option" where
  "update_refrTm f mem self =
     (let self = self\<lparr>sa_hasRefrTm := True\<rparr>
      in case sa_refrTm self of
           None \<Rightarrow> Some (mem, self)
         | Some p \<Rightarrow> do {
             v \<leftarrow> rd_bytes mem (int p) 8;
             mem \<leftarrow> write_at (Some p) 0 (val (f \<lparr>val = v\<rparr>)) mem;
             Some (mem, self) })"

definition SVPublisher_ASDU_setRefrTmNs ::
    "buffer \<Rightarrow> SVPublisher_ASDU \<Rightarrow> uint64 \<Rightarrow> (buffer \<times> SVPublisher_ASDU) option" where
  "SVPublisher_ASDU_setRefrTmNs mem self refrTmNs =
     update_refrTm (\<lambda>t. Timestamp_setSubsecondPrecision (Timestamp_setTimeInNanoseconds t refrTmNs) 20) mem self"

definition SVPublisher_ASDU_setRefrTm ::
    "buffer \<Rightarrow> SVPublisher_ASDU \<Rightarrow> uint64 \<Rightarrow> (buffer \<times> SVPublisher_ASDU) option" where
  "SVPublisher_ASDU_setRefrTm mem self refrTm =
     update_refrTm (\<lambda>t. Timestamp_setSubsecondPrecision (Timestamp_setTimeInMilliseconds t refrTm) 10) mem self"

definition SVPublisher_ASDU_setRefrTmByTimestamp ::
    "buffer \<Rightarrow> SVPublisher_ASDU \<Rightarrow> Timestamp \<Rightarrow> (buffer \<times> SVPublisher_ASDU) option" where
  "SVPublisher_ASDU_setRefrTmByTimestamp mem self refrTm = update_refrTm (\<lambda>_. refrTm) mem self"

definition SVPublisher_ASDU_setSmpMod :: "SVPublisher_ASDU \<Rightarrow> byte \<Rightarrow> SVPublisher_ASDU" where
  "SVPublisher_ASDU_setSmpMod self smpMod = self\<lparr>sa_hasSmpMod := True, sa_smpMod := smpMod\<rparr>"

definition SVPublisher_ASDU_setSmpRate :: "SVPublisher_ASDU \<Rightarrow> uint16 \<Rightarrow> SVPublisher_ASDU" where
  "SVPublisher_ASDU_setSmpRate self smpRate = self\<lparr>sa_hasSmpRate := True, sa_smpRate := smpRate\<rparr>"

text \<open>The pointer is not checked: before the frame is laid out this writes through \<open>NULL\<close>.\<close>

definition SVPublisher_ASDU_setSmpSynch ::
    "buffer \<Rightarrow> SVPublisher_ASDU \<Rightarrow> uint16 \<Rightarrow> (buffer \<times> SVPublisher_ASDU) option" where
  "SVPublisher_ASDU_setSmpSynch mem self smpSynch = do {
     let self = self\<lparr>sa_smpSynch := ucast smpSynch\<rparr>;
     mem \<leftarrow> write_at (sa_smpSynchBuf self) 0 [sa_smpSynch self] mem;
     Some (mem, self) }"

end
