(* ===== verification/Sv_Layout.thy ===== *)
theory Sv_Layout
  imports Sv_Publisher
begin

text \<open>
  The frame of a sampled values publisher. \<open>sv_asdu\<close> is the abstract content of an ASDU, \<open>sv_apdu\<close> the
  octets of an APDU with a list of them. \<open>SVPublisher_setupComplete\<close> lays the frame out and leaves in
  each ASDU the positions of its fields; from then on every setter is an update of the abstract ASDU.
\<close>

section \<open>Positions in a sequence of elements\<close>

text \<open>Tag and position of the content, for each element of a sequence that starts at \<open>p\<close>.\<close>

fun tlv_positions :: "nat \<Rightarrow> (byte \<times> byte list) list \<Rightarrow> (byte \<times> nat) list" where
  "tlv_positions p [] = []"
| "tlv_positions p ((t, c) # ts) =
     (t, p + length (octet_bytes t c) - length c) # tlv_positions (p + length (octet_bytes t c)) ts"

definition set_tlv :: "byte \<Rightarrow> byte list \<Rightarrow> (byte \<times> byte list) list \<Rightarrow> (byte \<times> byte list) list" where
  "set_tlv t c ts = map (\<lambda>(t', c'). (t', if t' = t then c else c')) ts"

lemma set_tlv_simps [simp]:
  "set_tlv t c [] = []" "set_tlv t c ((t', c') # ts) = (t', if t' = t then c else c') # set_tlv t c ts"
  "set_tlv t c (xs @ ys) = set_tlv t c xs @ set_tlv t c ys"
  by (simp_all add: set_tlv_def)

lemma set_tlv_absent: "t \<notin> fst ` set ts \<Longrightarrow> set_tlv t c ts = ts"
  by (induction ts) auto

lemma octet_bytes_same_length:
  "length c' = length c \<Longrightarrow> length (octet_bytes t c') = length (octet_bytes t c)"
  by (simp add: octet_bytes_def)

text \<open>Where the content of a tag stands, and what a write of other content of the same length gives.\<close>

lemma tlv_position:
  assumes "map_of ts t = Some c" and "distinct (map fst ts)"
  obtains q pre post where "map_of (tlv_positions p ts) t = Some q" and "q = p + length pre"
    and "tlvs ts = pre @ c @ post"
    and "\<forall>c'. length c' = length c \<longrightarrow> tlvs (set_tlv t c' ts) = pre @ c' @ post \<and>
      tlv_positions p (set_tlv t c' ts) = tlv_positions p ts"
  using assms
proof (induction ts arbitrary: p thesis)
  case Nil
  then show ?case by simp
next
  case (Cons tc ts)
  obtain t1 c1 where tc: "tc = (t1, c1)" by (cases tc)
  show ?case
  proof (cases "t1 = t")
    case True
    then have c1: "c1 = c" and absent: "t \<notin> fst ` set ts" using Cons.prems by (auto simp: tc)
    let ?pre = "t # length_bytes (of_nat (length c))"
    show ?thesis
      by (rule Cons.prems(1) [of "p + length ?pre" ?pre "tlvs ts"])
        (use True c1 absent in \<open>auto simp: tc octet_bytes_def set_tlv_absent\<close>)
  next
    case False
    then have t: "map_of ts t = Some c" "distinct (map fst ts)" using Cons.prems by (auto simp: tc)
    let ?o = "octet_bytes t1 c1"
    obtain q pre post where q: "map_of (tlv_positions (p + length ?o) ts) t = Some q"
        "q = p + length ?o + length pre" "tlvs ts = pre @ c @ post"
        "\<forall>c'. length c' = length c \<longrightarrow> tlvs (set_tlv t c' ts) = pre @ c' @ post \<and>
          tlv_positions (p + length ?o) (set_tlv t c' ts) = tlv_positions (p + length ?o) ts"
      using Cons.IH [OF _ t, of "p + length ?o"] by blast
    show ?thesis
      by (rule Cons.prems(1) [of q "?o @ pre" post]) (use q False in \<open>auto simp: tc\<close>)
  qed
qed

lemma tlv_positions_None: "map_of ts t = None \<Longrightarrow> map_of (tlv_positions p ts) t = None"
  by (induction ts arbitrary: p) (auto split: if_splits)

text \<open>A partial write into the content of a tag.\<close>

definition patch :: "nat \<Rightarrow> byte list \<Rightarrow> byte list \<Rightarrow> byte list" where
  "patch i bs c = take i c @ bs @ drop (i + length bs) c"

lemma length_patch [simp]: "i + length bs \<le> length c \<Longrightarrow> length (patch i bs c) = length c"
  by (simp add: patch_def)

lemma patch_all: "length bs = length c \<Longrightarrow> patch 0 bs c = bs"
  by (simp add: patch_def)

lemma tlv_patch:
  assumes "map_of ts t = Some c" and "distinct (map fst ts)" and "i + length bs \<le> length c"
  obtains q where "map_of (tlv_positions (length pre) ts) t = Some q"
    and "put_bytes bs (pre @ tlvs ts @ rest, q + i)
      = Some (pre @ tlvs (set_tlv t (patch i bs c) ts) @ rest, q + i + length bs)"
    and "tlv_positions (length pre) (set_tlv t (patch i bs c) ts) = tlv_positions (length pre) ts"
proof -
  obtain q p0 post where q: "map_of (tlv_positions (length pre) ts) t = Some q" "q = length pre + length p0"
      "tlvs ts = p0 @ c @ post"
      "\<forall>c'. length c' = length c \<longrightarrow> tlvs (set_tlv t c' ts) = p0 @ c' @ post \<and>
        tlv_positions (length pre) (set_tlv t c' ts) = tlv_positions (length pre) ts"
    using tlv_position [OF assms(1,2)] by blast
  have c: "c = take i c @ take (length bs) (drop i c) @ drop (i + length bs) c"
    using assms(3) by (metis append_take_drop_id drop_drop add.commute)
  have "put_bytes bs ((pre @ p0 @ take i c) @ take (length bs) (drop i c) @ (drop (i + length bs) c @ post @ rest), q + i)
      = Some ((pre @ p0 @ take i c) @ bs @ (drop (i + length bs) c @ post @ rest), q + i + length bs)"
    by (rule put_bytes_append_buf) (use assms(3) q(2) in simp_all)
  moreover have "(pre @ p0 @ take i c) @ take (length bs) (drop i c) @ (drop (i + length bs) c @ post @ rest)
      = pre @ tlvs ts @ rest"
    using q(3) c by (metis append.assoc)
  moreover have "(pre @ p0 @ take i c) @ bs @ (drop (i + length bs) c @ post @ rest)
      = pre @ tlvs (set_tlv t (patch i bs c) ts) @ rest"
    using q(4) assms(3) by (simp add: patch_def)
  ultimately have "put_bytes bs (pre @ tlvs ts @ rest, q + i)
      = Some (pre @ tlvs (set_tlv t (patch i bs c) ts) @ rest, q + i + length bs)"
    by (simp only:)
  then show thesis by (rule that [OF q(1)]) (use q(4) assms(3) in simp)
qed

lemma tlv_read:
  assumes "map_of ts t = Some c" and "distinct (map fst ts)" and "i + n \<le> length c"
  obtains q where "map_of (tlv_positions (length pre) ts) t = Some q"
    and "rd_bytes (pre @ tlvs ts @ rest) (int (q + i)) (int n) = Some (take n (drop i c))"
proof -
  obtain q p0 post where q: "map_of (tlv_positions (length pre) ts) t = Some q" "q = length pre + length p0"
      "tlvs ts = p0 @ c @ post"
    by (rule tlv_position [OF assms(1,2), of "length pre"]) (rule that)
  have "rd_bytes ((pre @ p0) @ c @ post @ rest) (int (length (pre @ p0)) + int i) (int n)
      = rd_bytes (c @ post @ rest) (int i) (int n)"
    by (rule rd_bytes_shift) simp
  also have "\<dots> = Some (take n (drop i c))" using assms(3) by (simp add: rd_bytes_def)
  finally show thesis by (intro that [OF q(1)]) (simp add: q(2,3) add.assoc)
qed

section \<open>The abstract ASDU\<close>

record sv_asdu =
  v_svID :: "byte list"
  v_datset :: "byte list option"
  v_smpCnt :: uint16
  v_confRev :: uint32
  v_refrTm :: "byte list option"
  v_smpSynch :: byte
  v_smpRate :: "uint16 option"
  v_data :: "byte list"
  v_smpMod :: "byte option"

definition opt_tlv :: "byte \<Rightarrow> byte list option \<Rightarrow> (byte \<times> byte list) list" where
  "opt_tlv t x = (case x of None \<Rightarrow> [] | Some c \<Rightarrow> [(t, c)])"

lemma opt_tlv_simps [simp]: "opt_tlv t None = []" "opt_tlv t (Some c) = [(t, c)]"
  by (simp_all add: opt_tlv_def)

definition sv_tlvs :: "sv_asdu \<Rightarrow> (byte \<times> byte list) list" where
  "sv_tlvs v =
     [(0x80, v_svID v)] @ opt_tlv 0x81 (v_datset v)
     @ [(0x82, be_bytes (v_smpCnt v)), (0x83, be_bytes (v_confRev v))]
     @ opt_tlv 0x84 (v_refrTm v) @ [(0x85, [v_smpSynch v])]
     @ opt_tlv 0x86 (map_option be_bytes (v_smpRate v)) @ [(0x87, v_data v)]
     @ opt_tlv 0x88 (map_option (\<lambda>m. [0, m]) (v_smpMod v))"

definition asdu_content :: "sv_asdu \<Rightarrow> byte list" where
  "asdu_content v = tlvs (sv_tlvs v)"

definition asdu_tlvs :: "sv_asdu list \<Rightarrow> (byte \<times> byte list) list" where
  "asdu_tlvs vs = map (\<lambda>v. (0x30, asdu_content v)) vs"

definition sv_apdu :: "sv_asdu list \<Rightarrow> byte list" where
  "sv_apdu vs = octet_bytes 0x60 (uint32_bytes 0x80 (of_nat (length vs)) @ octet_bytes 0xa2 (tlvs (asdu_tlvs vs)))"

lemma tlvs_append [simp]: "tlvs (xs @ ys) = tlvs xs @ tlvs ys"
  by (simp add: tlvs_def)

lemma distinct_sv_tlvs [simp]: "distinct (map fst (sv_tlvs v))"
  by (auto simp: sv_tlvs_def opt_tlv_def split: option.splits)

lemma map_of_sv_tlvs [simp]:
  "map_of (sv_tlvs v) 0x80 = Some (v_svID v)" "map_of (sv_tlvs v) 0x81 = v_datset v"
  "map_of (sv_tlvs v) 0x82 = Some (be_bytes (v_smpCnt v))"
  "map_of (sv_tlvs v) 0x83 = Some (be_bytes (v_confRev v))"
  "map_of (sv_tlvs v) 0x84 = v_refrTm v" "map_of (sv_tlvs v) 0x85 = Some [v_smpSynch v]"
  "map_of (sv_tlvs v) 0x86 = map_option be_bytes (v_smpRate v)"
  "map_of (sv_tlvs v) 0x87 = Some (v_data v)"
  "map_of (sv_tlvs v) 0x88 = map_option (\<lambda>m. [0, m]) (v_smpMod v)"
  by (auto simp: sv_tlvs_def opt_tlv_def map_add_def split: option.splits)

lemma set_sv_tlvs:
  "set_tlv 0x82 (be_bytes n) (sv_tlvs v) = sv_tlvs (v\<lparr>v_smpCnt := n\<rparr>)"
  "v_refrTm v \<noteq> None \<Longrightarrow> set_tlv 0x84 t (sv_tlvs v) = sv_tlvs (v\<lparr>v_refrTm := Some t\<rparr>)"
  "set_tlv 0x85 [s] (sv_tlvs v) = sv_tlvs (v\<lparr>v_smpSynch := s\<rparr>)"
  "set_tlv 0x87 d (sv_tlvs v) = sv_tlvs (v\<lparr>v_data := d\<rparr>)"
  by (auto simp: sv_tlvs_def opt_tlv_def split: option.splits)

section \<open>What the layout functions write\<close>

lemma be_bytes_elems:
  "[le_bytes w2 ! 1, le_bytes w2 ! 0] = be_bytes (w2 :: uint16)"
  "[le_bytes w4 ! 3, le_bytes w4 ! 2, le_bytes w4 ! 1, le_bytes w4 ! 0] = be_bytes (w4 :: uint32)"
  "[le_bytes w8 ! 7, le_bytes w8 ! 6, le_bytes w8 ! 5, le_bytes w8 ! 4,
    le_bytes w8 ! 3, le_bytes w8 ! 2, le_bytes w8 ! 1, le_bytes w8 ! 0] = be_bytes (w8 :: uint64)"
  by (simp_all add: be_bytes_def le_bytes_def upt_rec)

lemma fixed_size_writes [writer_simps]:
  "encodeUInt16FixedSize n c = put_bytes (be_bytes n) c"
  "encodeUInt32FixedSize m c = put_bytes (be_bytes m) c"
  "encodeInt32FixedSize m c = put_bytes (be_bytes m) c"
  "encodeInt64FixedSize k c = put_bytes (be_bytes k) c"
  by (simp_all only: encodeUInt16FixedSize_def encodeUInt32FixedSize_def encodeInt32FixedSize_def
      encodeInt64FixedSize_def be_bytes_elems)

text \<open>An ASDU before the layout: its names are strings, its time stamp has no place yet.\<close>

definition asdu_ok :: "SVPublisher_ASDU \<Rightarrow> bool" where
  "asdu_ok a \<longleftrightarrow> string_ok (Some (sa_svID a)) \<and> string_ok (sa_datset a) \<and> sa_refrTm a = None \<and>
     sa_dataSize a < 65535"

text \<open>The abstract ASDU of an ASDU; samples and reference time are in the frame only.\<close>

definition asdu_of :: "SVPublisher_ASDU \<Rightarrow> sv_asdu \<Rightarrow> bool" where
  "asdu_of a v \<longleftrightarrow> v_svID v = str_content (Some (sa_svID a)) \<and>
     v_datset v = map_option (\<lambda>d. str_content (Some d)) (sa_datset a) \<and>
     v_smpCnt v = sa_smpCnt a \<and> v_confRev v = sa_confRev a \<and>
     (v_refrTm v \<noteq> None \<longleftrightarrow> sa_hasRefrTm a) \<and> (\<forall>t. v_refrTm v = Some t \<longrightarrow> length t = 8) \<and>
     v_smpSynch v = sa_smpSynch a \<and>
     v_smpRate v = (if sa_hasSmpRate a then Some (sa_smpRate a) else None) \<and>
     length (v_data v) = sa_dataSize a \<and>
     v_smpMod v = (if sa_hasSmpMod a then Some (sa_smpMod a) else None)"

text \<open>After the layout: the ASDU knows where its fields are.\<close>

definition placed :: "nat \<Rightarrow> SVPublisher_ASDU \<Rightarrow> sv_asdu \<Rightarrow> bool" where
  "placed q a v \<longleftrightarrow> sa_smpCnt a = v_smpCnt v \<and> sa_smpSynch a = v_smpSynch v \<and>
     (\<forall>t. v_refrTm v = Some t \<longrightarrow> length t = 8) \<and>
     sa_smpCntBuf a = map_of (tlv_positions q (sv_tlvs v)) 0x82 \<and>
     sa_refrTm a = map_of (tlv_positions q (sv_tlvs v)) 0x84 \<and>
     sa_smpSynchBuf a = map_of (tlv_positions q (sv_tlvs v)) 0x85 \<and>
     sa_dataBuffer a = map_of (tlv_positions q (sv_tlvs v)) 0x87"

lemma string_size:
  assumes "string_ok (Some s)"
  shows "strlen s = Some (length (str_content (Some s)))"
    and "1 + BerEncoder_determineLengthSize (of_nat (length (str_content (Some s)))) + length (str_content (Some s))
      = length (octet_bytes tag (str_content (Some s)))"
proof -
  show "strlen s = Some (length (str_content (Some s)))"
    using assms strlen_takeWhile [of s] by (simp add: string_ok_def)
  have "(of_nat (length (str_content (Some s))) :: uint32) \<noteq> 65535"
    using str_content_less [OF assms] by (simp add: of_nat32_eq_numeral)
  then show "1 + BerEncoder_determineLengthSize (of_nat (length (str_content (Some s)))) + length (str_content (Some s))
      = length (octet_bytes tag (str_content (Some s)))"
    by (simp add: octet_bytes_def length_length_bytes)
qed

lemma length_octet_bytes_data:
  "length d < 65535 \<Longrightarrow> length (octet_bytes tag d) = 1 + BerEncoder_determineLengthSize (of_nat (length d)) + length d"
proof -
  assume "length d < 65535"
  then have "(of_nat (length d) :: uint32) \<noteq> 65535" by (simp add: of_nat32_eq_numeral)
  then show ?thesis by (simp add: octet_bytes_def length_length_bytes)
qed

lemma getEncodedSize_exact:
  assumes "asdu_ok a" and "asdu_of a v"
  shows "SVPublisher_ASDU_getEncodedSize a = Some (length (asdu_content v))"
proof -
  have ok: "string_ok (Some (sa_svID a))" "string_ok (sa_datset a)" "sa_dataSize a < 65535"
    using assms(1) by (auto simp: asdu_ok_def)
  note id = string_size(1) [OF ok(1)] string_size(2) [OF ok(1), of "0x80"]
  have data: "length (octet_bytes 0x87 (v_data v))
      = 1 + BerEncoder_determineLengthSize (of_nat (sa_dataSize a)) + sa_dataSize a"
    using length_octet_bytes_data [of "v_data v"] assms(2) ok(3) by (simp add: asdu_of_def)
  have lens: "length (tlvs (opt_tlv 0x84 (v_refrTm v))) = (if sa_hasRefrTm a then 10 else 0)"
      "length (tlvs (opt_tlv 0x86 (map_option be_bytes (v_smpRate v)))) = (if sa_hasSmpRate a then 4 else 0)"
      "length (tlvs (opt_tlv 0x88 (map_option (\<lambda>m. [0, m]) (v_smpMod v)))) = (if sa_hasSmpMod a then 4 else 0)"
    using assms(2) by (auto simp: asdu_of_def opt_tlv_def length_octet_bytes_short split: option.splits)
  show ?thesis
  proof (cases "sa_datset a")
    case None
    then show ?thesis
      using assms(2) id data lens
      by (simp add: SVPublisher_ASDU_getEncodedSize_def asdu_content_def sv_tlvs_def asdu_of_def
          length_octet_bytes_short)
  next
    case (Some d)
    then have d: "string_ok (Some d)" using ok(2) by simp
    show ?thesis
      using assms(2) id data lens string_size(1) [OF d] string_size(2) [OF d, of "0x81"] Some
      by (simp add: SVPublisher_ASDU_getEncodedSize_def asdu_content_def sv_tlvs_def asdu_of_def
          length_octet_bytes_short)
  qed
qed

text \<open>The writer as a sequence of blocks, cut where a position is recorded.\<close>

lemma be_bytes_ucast_byte: "be_bytes (ucast (m :: byte) :: uint16) = [0, m]"
proof -
  have "(ucast (drop_bit 8 (ucast m :: uint16)) :: byte) = 0"
    by (rule bit_word_eqI) (auto simp: bit_simps dest: bit_imp_le_length)
  moreover have "(ucast (ucast m :: uint16) :: byte) = m"
    by (rule bit_word_eqI) (auto simp: bit_simps)
  ultimately show ?thesis by (simp add: be_bytes_def le_bytes_def upt_rec)
qed

lemma short_length_bytes:
  "length_bytes 1 = [1]" "length_bytes 2 = [2]" "length_bytes 4 = [4]" "length_bytes 8 = [8]"
  by (simp_all add: length_bytes_def)

definition head_block :: "SVPublisher_ASDU \<Rightarrow> nat \<Rightarrow> byte list" where
  "head_block a n = (0x30 # length_bytes (of_nat n)) @ octet_bytes 0x80 (str_content (Some (sa_svID a)))
     @ tlvs (opt_tlv 0x81 (map_option (\<lambda>d. str_content (Some d)) (sa_datset a))) @ [0x82, 2]"

definition count_block :: "SVPublisher_ASDU \<Rightarrow> byte list" where
  "count_block a = be_bytes (sa_smpCnt a) @ octet_bytes 0x83 (be_bytes (sa_confRev a))"

definition synch_block :: "SVPublisher_ASDU \<Rightarrow> byte list" where
  "synch_block a = sa_smpSynch a # tlvs (opt_tlv 0x86 (if sa_hasSmpRate a then Some (be_bytes (sa_smpRate a)) else None))
     @ 0x87 # length_bytes (of_nat (sa_dataSize a))"

definition mod_block :: "SVPublisher_ASDU \<Rightarrow> byte list" where
  "mod_block a = tlvs (opt_tlv 0x88 (if sa_hasSmpMod a then Some [0, sa_smpMod a] else None))"

lemma encodeToBuffer_blocks:
  assumes "asdu_ok a" and n: "SVPublisher_ASDU_getEncodedSize a = Some n"
  shows "SVPublisher_ASDU_encodeToBuffer a c = do {
     c \<leftarrow> put_bytes (head_block a n) c;
     let a1 = a\<lparr>sa_smpCntBuf := Some (snd c)\<rparr>;
     c \<leftarrow> put_bytes (count_block a) c;
     (a2, c) \<leftarrow> (if sa_hasRefrTm a then do {
          c \<leftarrow> put_bytes [0x84, 8] c;
          Some (a1\<lparr>sa_refrTm := Some (snd c)\<rparr>, skip 8 c) }
        else Some (a1, c));
     c \<leftarrow> put_bytes [0x85, 1] c;
     let a3 = a2\<lparr>sa_smpSynchBuf := Some (snd c)\<rparr>;
     c \<leftarrow> put_bytes (synch_block a) c;
     let a4 = a3\<lparr>sa_dataBuffer := Some (snd c)\<rparr>;
     c \<leftarrow> put_bytes (mod_block a) (skip (sa_dataSize a) c);
     Some (a4, c) }"
proof -
  have strs: "BerEncoder_encodeStringWithTag t (Some (sa_svID a)) = put_bytes (octet_bytes t (str_content (Some (sa_svID a))))"
    "BerEncoder_encodeStringWithTag t (sa_datset a) = put_bytes (octet_bytes t (str_content (sa_datset a)))" for t
    using assms(1) string_opt_encodes(1) by (simp_all add: asdu_ok_def string_bytes_def octet_bytes_def)
  have short: "octet_bytes t (be_bytes (x :: uint32)) = [t, 4] @ be_bytes x"
    "octet_bytes t (be_bytes (y :: uint16)) = [t, 2] @ be_bytes y" "octet_bytes t [z, w] = [t, 2, z, w]" for t x y z w
    by (simp_all add: octet_bytes_short)
  show ?thesis
    using strs(2)
    by (cases "sa_datset a"; cases "sa_hasSmpRate a"; cases "sa_hasSmpMod a"; cases "sa_hasRefrTm a")
      (simp_all add: SVPublisher_ASDU_encodeToBuffer_def n writer_simps strs(1) short short_length_bytes
        be_bytes_ucast_byte put_fun Let_def head_block_def count_block_def synch_block_def mod_block_def)
qed

lemma put_zip:
  "length bs \<le> length rest \<Longrightarrow>
   put_bytes bs (pre @ rest, length pre) = Some ((pre @ bs) @ drop (length bs) rest, length (pre @ bs))"
  by (simp add: put_bytes_exact)

lemma skip_zip:
  "n \<le> length rest \<Longrightarrow>
   skip n (pre @ rest, length pre) = ((pre @ take n rest) @ drop n rest, length (pre @ take n rest))"
  by (simp add: skip_def)

lemma tlv_positions_append:
  "tlv_positions p (xs @ ys) = tlv_positions p xs @ tlv_positions (p + length (tlvs xs)) ys"
  by (induction xs arbitrary: p) (auto simp: add.assoc)

lemma map_of_opt_positions:
  "map_of (tlv_positions p (opt_tlv t x)) k =
     (if k = t then map_option (\<lambda>c. p + length (octet_bytes t c) - length c) x else None)"
  by (cases x) auto

lemma content_offset: "p + length (octet_bytes t c) - length c = p + length (t # length_bytes (of_nat (length c)))"
  by (simp add: octet_bytes_def)

text \<open>The positions of the fields that change after the layout; \<open>names\<close> are the two name fields.\<close>

definition names :: "sv_asdu \<Rightarrow> byte list" where
  "names v = octet_bytes 0x80 (v_svID v) @ tlvs (opt_tlv 0x81 (v_datset v))"

lemma sv_positions:
  assumes "\<forall>t. v_refrTm v = Some t \<longrightarrow> length t = 8"
  shows "map_of (tlv_positions q (sv_tlvs v)) 0x82 = Some (q + length (names v) + 2)"
    and "map_of (tlv_positions q (sv_tlvs v)) 0x84 = map_option (\<lambda>_. q + length (names v) + 12) (v_refrTm v)"
    and "map_of (tlv_positions q (sv_tlvs v)) 0x85
      = Some (q + length (names v) + 10 + length (tlvs (opt_tlv 0x84 (v_refrTm v))) + 2)"
    and "map_of (tlv_positions q (sv_tlvs v)) 0x87
      = Some (q + length (names v) + 10 + length (tlvs (opt_tlv 0x84 (v_refrTm v))) + 3
          + length (tlvs (opt_tlv 0x86 (map_option be_bytes (v_smpRate v))))
          + length (0x87 # length_bytes (of_nat (length (v_data v)))))"
proof -
  note ps = sv_tlvs_def tlv_positions_append map_add_def map_of_opt_positions
    length_octet_bytes_short names_def content_offset short_length_bytes
  show "map_of (tlv_positions q (sv_tlvs v)) 0x82 = Some (q + length (names v) + 2)"
    by (simp add: ps)
  show "map_of (tlv_positions q (sv_tlvs v)) 0x84 = map_option (\<lambda>_. q + length (names v) + 12) (v_refrTm v)"
    using assms by (cases "v_refrTm v") (simp_all add: ps)
  show "map_of (tlv_positions q (sv_tlvs v)) 0x85
      = Some (q + length (names v) + 10 + length (tlvs (opt_tlv 0x84 (v_refrTm v))) + 2)"
    by (simp add: ps)
  show "map_of (tlv_positions q (sv_tlvs v)) 0x87
      = Some (q + length (names v) + 10 + length (tlvs (opt_tlv 0x84 (v_refrTm v))) + 3
          + length (tlvs (opt_tlv 0x86 (map_option be_bytes (v_smpRate v))))
          + length (0x87 # length_bytes (of_nat (length (v_data v)))))"
    by (simp add: ps)
qed

lemma encodeToBuffer_placed:
  assumes ok: "asdu_ok a" and n: "SVPublisher_ASDU_getEncodedSize a = Some n"
    and room: "1 + length (length_bytes (of_nat n)) + n \<le> length rest"
  obtains v a' x1 x2 x3 x4 where "asdu_of a v" and "n = length (asdu_content v)"
    and "a' = a\<lparr>sa_smpCntBuf := x1, sa_refrTm := x2, sa_smpSynchBuf := x3, sa_dataBuffer := x4\<rparr>"
    and "SVPublisher_ASDU_encodeToBuffer a (pre @ rest, length pre)
      = Some (a', (pre @ octet_bytes 0x30 (asdu_content v)) @ drop (length (octet_bytes 0x30 (asdu_content v))) rest,
          length (pre @ octet_bytes 0x30 (asdu_content v)))"
    and "placed (length pre + length (octet_bytes 0x30 (asdu_content v)) - length (asdu_content v)) a' v"
proof -
  let ?id = "octet_bytes 0x80 (str_content (Some (sa_svID a)))
     @ tlvs (opt_tlv 0x81 (map_option (\<lambda>d. str_content (Some d)) (sa_datset a)))"
  let ?rate = "tlvs (opt_tlv 0x86 (if sa_hasSmpRate a then Some (be_bytes (sa_smpRate a)) else None))"
  define A where "A = head_block a n"
  define B where "B = count_block a"
  define E where "E = synch_block a"
  define M where "M = mod_block a"
  define p1 where "p1 = pre @ A" define r1 where "r1 = drop (length A) rest"
  define p2 where "p2 = p1 @ B" define r2 where "r2 = drop (length B) r1"
  define tm where "tm = (if sa_hasRefrTm a then Some (take 8 (drop 2 r2)) else None)"
  define C where "C = tlvs (opt_tlv 0x84 tm)"
  define p3 where "p3 = p2 @ C" define r3 where "r3 = drop (length C) r2"
  define p4 where "p4 = p3 @ [0x85, 1]" define r4 where "r4 = drop (length [0x85 :: byte, 1]) r3"
  define p5 where "p5 = p4 @ E" define r5 where "r5 = drop (length E) r4"
  define d where "d = take (sa_dataSize a) r5"
  define p6 where "p6 = p5 @ d" define r6 where "r6 = drop (sa_dataSize a) r5"
  define v where "v = \<lparr>v_svID = str_content (Some (sa_svID a)),
     v_datset = map_option (\<lambda>d. str_content (Some d)) (sa_datset a), v_smpCnt = sa_smpCnt a,
     v_confRev = sa_confRev a, v_refrTm = tm, v_smpSynch = sa_smpSynch a,
     v_smpRate = (if sa_hasSmpRate a then Some (sa_smpRate a) else None), v_data = d,
     v_smpMod = (if sa_hasSmpMod a then Some (sa_smpMod a) else None)\<rparr>"
  have n_eq: "n = length ?id + 14 + (if sa_hasRefrTm a then 10 else 0) - 1 + length ?rate
      + length (0x87 # length_bytes (of_nat (sa_dataSize a)) :: byte list) + sa_dataSize a + length M"
  proof -
    define w where "w = v\<lparr>v_data := replicate (sa_dataSize a) 0,
      v_refrTm := if sa_hasRefrTm a then Some (replicate 8 0) else None\<rparr>"
    have "asdu_of a w" by (auto simp: asdu_of_def w_def v_def)
    then have "n = length (asdu_content w)" using getEncodedSize_exact [OF ok] n by auto
    then show ?thesis
      by (cases "sa_hasRefrTm a"; cases "sa_hasSmpRate a"; cases "sa_hasSmpMod a")
        (simp_all add: asdu_content_def sv_tlvs_def w_def v_def length_octet_bytes_short octet_bytes_def
          [of _ "replicate (sa_dataSize a) 0"] M_def mod_block_def)
  qed
  have lA: "length A = 1 + length (length_bytes (of_nat n)) + length ?id + 2" by (simp add: A_def head_block_def)
  have lB: "length B = 8" by (simp add: B_def count_block_def length_octet_bytes_short)
  have lE: "length E = 1 + length ?rate + length (0x87 # length_bytes (of_nat (sa_dataSize a)) :: byte list)"
    by (simp add: E_def synch_block_def)
  have l2: "length r2 = length rest - length A - 8" by (simp add: r2_def r1_def lB)
  have r2: "10 \<le> length r2" if "sa_hasRefrTm a"
    using that room n_eq lA l2 by simp
  have tm8: "length t = 8" if "tm = Some t" for t
    using that r2 by (cases "sa_hasRefrTm a") (auto simp: tm_def)
  have lC: "length C = (if sa_hasRefrTm a then 10 else 0)"
    using r2 by (cases "sa_hasRefrTm a") (simp_all add: C_def tm_def length_octet_bytes_short)
  have l3: "length r3 = length rest - length A - 8 - length C" by (simp add: r3_def l2)
  have l5: "length r5 = length rest - length A - 10 - length C - length E" by (simp add: r5_def r4_def l3)
  have l6: "length r6 = length rest - length A - 10 - length C - length E - sa_dataSize a"
    by (simp add: r6_def l5)
  have enough: "length A + 10 + length C + length E + sa_dataSize a + length M \<le> length rest"
    using room unfolding n_eq lA lC lE by linarith
  have d: "length d = sa_dataSize a" using enough by (simp add: d_def l5)
  have "tm \<noteq> None \<longleftrightarrow> sa_hasRefrTm a" by (simp add: tm_def)
  then have of: "asdu_of a v" using tm8 by (simp add: asdu_of_def v_def d)
  have nv: "n = length (asdu_content v)" using getEncodedSize_exact [OF ok of] n by simp
  have content: "asdu_content v = ?id @ octet_bytes 0x82 (be_bytes (sa_smpCnt a))
      @ octet_bytes 0x83 (be_bytes (sa_confRev a)) @ C @ octet_bytes 0x85 [sa_smpSynch a] @ ?rate
      @ octet_bytes 0x87 d @ M"
    by (simp add: asdu_content_def sv_tlvs_def v_def C_def M_def mod_block_def)
  have bytes: "octet_bytes 0x30 (asdu_content v) = A @ B @ C @ [0x85, 1] @ E @ d @ M"
    unfolding octet_bytes_def [of "0x30"] nv [symmetric] unfolding content A_def B_def E_def head_block_def count_block_def synch_block_def
    using octet_bytes_def [of "0x87" d] d by (simp add: octet_bytes_short)
  have s1: "put_bytes A (pre @ rest, length pre) = Some (p1 @ r1, length p1)"
    unfolding p1_def r1_def by (rule put_zip) (use enough in simp)
  have s2: "put_bytes B (p1 @ r1, length p1) = Some (p2 @ r2, length p2)"
    unfolding p2_def r2_def by (rule put_zip) (use enough in \<open>simp add: r1_def lB\<close>)
  have s3: "put_bytes [0x85, 1] (p3 @ r3, length p3) = Some (p4 @ r4, length p4)"
    unfolding p4_def r4_def by (rule put_zip) (use enough in \<open>simp add: l3\<close>)
  have s4: "put_bytes E (p4 @ r4, length p4) = Some (p5 @ r5, length p5)"
    unfolding p5_def r5_def by (rule put_zip) (use enough in \<open>simp add: r4_def l3\<close>)
  have s5: "skip (sa_dataSize a) (p5 @ r5, length p5) = (p6 @ r6, length p6)"
    unfolding p6_def r6_def d_def by (rule skip_zip) (use enough in \<open>simp add: l5\<close>)
  have s6: "put_bytes M (p6 @ r6, length p6)
      = Some ((p6 @ M) @ drop (length M) r6, length (p6 @ M))"
    by (rule put_zip) (use enough in \<open>simp add: l6\<close>)
  define x2 where "x2 = (if sa_hasRefrTm a then Some (length p2 + 2) else None)"
  have refr: "(if sa_hasRefrTm a then do {
          c \<leftarrow> put_bytes [0x84, 8] (p2 @ r2, length p2);
          Some (a\<lparr>sa_smpCntBuf := x1, sa_refrTm := Some (snd c)\<rparr>, skip 8 c) }
        else Some (a\<lparr>sa_smpCntBuf := x1\<rparr>, p2 @ r2, length p2))
      = Some (a\<lparr>sa_smpCntBuf := x1, sa_refrTm := x2\<rparr>, p3 @ r3, length p3)" for x1
  proof (cases "sa_hasRefrTm a")
    case True
    let ?t = "take 8 (drop 2 r2)"
    have C: "C = [0x84, 8] @ ?t" using True r2 by (simp add: C_def tm_def octet_bytes_short)
    have r3': "r3 = drop 8 (drop 2 r2)" using r2 [OF True] by (simp add: r3_def C)
    have two: "drop (length [0x84 :: byte, 8]) r2 = drop 2 r2" by (simp add: numeral_2_eq_2)
    have "put_bytes [0x84, 8] (p2 @ r2, length p2)
        = Some ((p2 @ [0x84, 8]) @ drop 2 r2, length (p2 @ [0x84, 8]))"
      unfolding two [symmetric] by (rule put_zip) (use r2 [OF True] in simp)
    moreover have "skip 8 ((p2 @ [0x84, 8]) @ drop 2 r2, length (p2 @ [0x84, 8])) = (p3 @ r3, length p3)"
      using skip_zip [of 8 "drop 2 r2" "p2 @ [0x84, 8]"] r2 [OF True] by (simp add: p3_def C r3')
    ultimately show ?thesis using True by (simp add: x2_def del: put_bytes.simps)
  next
    case False
    moreover from False have "C = []" "sa_refrTm a = None" using ok by (simp_all add: C_def tm_def asdu_ok_def)
    ultimately show ?thesis by (simp add: x2_def p3_def r3_def)
  qed
  let ?a = "a\<lparr>sa_smpCntBuf := Some (length p1), sa_refrTm := x2, sa_smpSynchBuf := Some (length p4),
    sa_dataBuffer := Some (length p5)\<rparr>"
  have "SVPublisher_ASDU_encodeToBuffer a (pre @ rest, length pre)
      = Some (?a, (p6 @ M) @ drop (length M) r6, length (p6 @ M))"
    unfolding encodeToBuffer_blocks [OF ok n]
    using s1 s2 refr [of "Some (length p1)"] s3 s4 s5 s6
    by (simp add: A_def [symmetric] B_def [symmetric] E_def [symmetric] M_def [symmetric] Let_def del: put_bytes.simps
        split del: if_split cong: if_cong)
  moreover have "p6 @ M = pre @ octet_bytes 0x30 (asdu_content v)"
    unfolding bytes p6_def p5_def p4_def p3_def p2_def p1_def by simp
  moreover have "drop (length M) r6 = drop (length (octet_bytes 0x30 (asdu_content v))) rest"
    unfolding bytes r6_def r5_def r4_def r3_def r2_def r1_def by (simp add: d ac_simps)
  ultimately have enc: "SVPublisher_ASDU_encodeToBuffer a (pre @ rest, length pre)
      = Some (?a, (pre @ octet_bytes 0x30 (asdu_content v)) @ drop (length (octet_bytes 0x30 (asdu_content v))) rest,
          length (pre @ octet_bytes 0x30 (asdu_content v)))"
    by metis
  have q: "length pre + length (octet_bytes 0x30 (asdu_content v)) - length (asdu_content v)
      = length pre + 1 + length (length_bytes (of_nat n))"
    by (simp add: content_offset nv)
  have nm: "length (names v) = length ?id" by (simp add: names_def v_def)
  have tmv: "\<forall>t. v_refrTm v = Some t \<longrightarrow> length t = 8" using tm8 by (simp add: v_def)
  have ps: "length p1 = length pre + 1 + length (length_bytes (of_nat n)) + length (names v) + 2"
      "length p2 = length p1 + 8" "length p4 = length p2 + length C + 2" "length p5 = length p4 + length E"
    by (simp_all add: p1_def lA nm p2_def lB p4_def p3_def p5_def)
  have "placed (length pre + 1 + length (length_bytes (of_nat n))) ?a v"
  proof -
    have "x2 = map_option (\<lambda>_. length p2 + 2) tm" by (simp add: x2_def tm_def)
    moreover have "v_smpCnt v = sa_smpCnt a" "v_smpSynch v = sa_smpSynch a" "v_refrTm v = tm"
        "length (v_data v) = sa_dataSize a"
        "map_option be_bytes (v_smpRate v) = (if sa_hasSmpRate a then Some (be_bytes (sa_smpRate a)) else None)"
      by (simp_all add: v_def d)
    ultimately show ?thesis
      unfolding placed_def sv_positions [OF tmv] using ps tmv by (simp add: C_def lE)
  qed
  then show thesis
    by (intro that [OF of nv refl enc]) (simp only: q)
qed

section \<open>Laying out the frame\<close>

fun placed_all :: "nat \<Rightarrow> SVPublisher_ASDU list \<Rightarrow> sv_asdu list \<Rightarrow> bool" where
  "placed_all q [] [] = True"
| "placed_all q (a # as) (v # vs) =
     (placed (q + length (octet_bytes 0x30 (asdu_content v)) - length (asdu_content v)) a v \<and>
      placed_all (q + length (octet_bytes 0x30 (asdu_content v))) as vs)"
| "placed_all q _ _ = False"

text \<open>The layout changes the pointers of an ASDU and nothing else.\<close>

definition same_settings :: "SVPublisher_ASDU \<Rightarrow> SVPublisher_ASDU \<Rightarrow> bool" where
  "same_settings a b \<longleftrightarrow> a\<lparr>sa_smpCntBuf := None, sa_refrTm := None, sa_smpSynchBuf := None, sa_dataBuffer := None\<rparr>
     = b\<lparr>sa_smpCntBuf := None, sa_refrTm := None, sa_smpSynchBuf := None, sa_dataBuffer := None\<rparr>"

lemma asdu_tlvs_simps [simp]:
  "asdu_tlvs [] = []" "asdu_tlvs (v # vs) = (0x30, asdu_content v) # asdu_tlvs vs"
  by (simp_all add: asdu_tlvs_def)

lemma encode_asdus_placed:
  assumes "list_all asdu_ok as" and "total_asdu_length as = Some m" and "m \<le> length rest" and "length rest < 65535"
  shows "\<exists>vs as'. list_all2 asdu_of as vs \<and> list_all2 same_settings as as' \<and> m = length (tlvs (asdu_tlvs vs)) \<and>
    encode_asdus as (pre @ rest, length pre)
      = Some (as', (pre @ tlvs (asdu_tlvs vs)) @ drop m rest, length (pre @ tlvs (asdu_tlvs vs))) \<and>
    placed_all (length pre) as' vs"
  using assms
proof (induction as arbitrary: m pre rest)
  case Nil
  then show ?case by (intro exI [of _ "[]"]) simp
next
  case (Cons a as)
  obtain n m' where n: "SVPublisher_ASDU_getEncodedSize a = Some n" and m': "total_asdu_length as = Some m'"
      and m: "m = n + BerEncoder_determineLengthSize (of_nat n) + 1 + m'"
    using Cons.prems(2) by (auto split: Option.bind_splits)
  have "n < 65535" using m Cons.prems(3,4) by simp
  then have "(of_nat n :: uint32) \<noteq> 65535" by (simp add: of_nat32_eq_numeral)
  then have ln: "length (length_bytes (of_nat n)) = BerEncoder_determineLengthSize (of_nat n)"
    by (rule length_length_bytes)
  have ok: "asdu_ok a" and room: "1 + length (length_bytes (of_nat n)) + n \<le> length rest"
    using Cons.prems m ln by simp_all
  obtain v a' x1 x2 x3 x4 where v: "asdu_of a v" "n = length (asdu_content v)"
      "a' = a\<lparr>sa_smpCntBuf := x1, sa_refrTm := x2, sa_smpSynchBuf := x3, sa_dataBuffer := x4\<rparr>"
      "SVPublisher_ASDU_encodeToBuffer a (pre @ rest, length pre)
        = Some (a', (pre @ octet_bytes 0x30 (asdu_content v)) @ drop (length (octet_bytes 0x30 (asdu_content v))) rest,
            length (pre @ octet_bytes 0x30 (asdu_content v)))"
      "placed (length pre + length (octet_bytes 0x30 (asdu_content v)) - length (asdu_content v)) a' v"
    by (rule encodeToBuffer_placed [OF ok n room])
  let ?o = "octet_bytes 0x30 (asdu_content v)"
  have lo: "length ?o = 1 + BerEncoder_determineLengthSize (of_nat n) + n"
    using v(2) ln by (simp add: octet_bytes_def)
  have "m' \<le> length (drop (length ?o) rest)" "length (drop (length ?o) rest) < 65535"
    using m lo Cons.prems(3,4) by simp_all
  then obtain vs as' where vs: "list_all2 asdu_of as vs" "list_all2 same_settings as as'"
      "m' = length (tlvs (asdu_tlvs vs))"
      "encode_asdus as ((pre @ ?o) @ drop (length ?o) rest, length (pre @ ?o))
        = Some (as', ((pre @ ?o) @ tlvs (asdu_tlvs vs)) @ drop m' (drop (length ?o) rest),
            length ((pre @ ?o) @ tlvs (asdu_tlvs vs)))"
      "placed_all (length (pre @ ?o)) as' vs"
    using Cons.IH [OF _ m', of "drop (length ?o) rest" "pre @ ?o"] Cons.prems(1) by auto
  have "same_settings a a'" by (simp add: same_settings_def v(3))
  moreover have "m = length (tlvs (asdu_tlvs (v # vs)))" using m vs(3) lo by simp
  moreover have "encode_asdus (a # as) (pre @ rest, length pre)
      = Some (a' # as', (pre @ tlvs (asdu_tlvs (v # vs))) @ drop m rest, length (pre @ tlvs (asdu_tlvs (v # vs))))"
    using v(4) vs(4) m lo by (simp add: add.commute add.left_commute)
  ultimately show ?case
    using v(1,5) vs(1,2,5) by (intro exI [of _ "v # vs"] exI [of _ "a' # as'"]) simp
qed

text \<open>A publisher with its headers, before and after the layout. \<open>hdr\<close> are the octets up to the length field.\<close>

definition sv_prepared :: "byte list \<Rightarrow> SVPublisher \<Rightarrow> bool" where
  "sv_prepared hdr self \<longleftrightarrow> length (sp_buffer self) = 1518 \<and> 14 \<le> length hdr \<and> length hdr \<le> 20 \<and>
     sp_lengthField self = length hdr \<and> sp_payloadStart self = length hdr + 6 \<and>
     take (length hdr) (sp_buffer self) = hdr \<and>
     take 4 (drop (length hdr + 2) (sp_buffer self)) = [0, 0, 0, 0]"

definition sv_frame :: "byte list \<Rightarrow> sv_asdu list \<Rightarrow> byte list" where
  "sv_frame hdr vs = hdr @ length_octets16 (length (sv_apdu vs) + 8) @ [0, 0, 0, 0] @ sv_apdu vs"

definition asdu_start :: "byte list \<Rightarrow> sv_asdu list \<Rightarrow> nat" where
  "asdu_start hdr vs = length (sv_frame hdr vs) - length (tlvs (asdu_tlvs vs))"

definition sv_inv :: "byte list \<Rightarrow> SVPublisher \<Rightarrow> sv_asdu list \<Rightarrow> bool" where
  "sv_inv hdr self vs \<longleftrightarrow> sv_prepared hdr self \<and> sp_payloadLength self = length (sv_apdu vs) \<and>
     length (sv_frame hdr vs) \<le> 1518 \<and>
     take (length (sv_frame hdr vs)) (sp_buffer self) = sv_frame hdr vs \<and>
     placed_all (asdu_start hdr vs) (sp_asduList self) vs"

text \<open>The size of the APDU, from the number of ASDUs and their total length.\<close>

definition sv_head :: "nat \<Rightarrow> nat \<Rightarrow> byte list" where
  "sv_head k m = (let u = uint32_bytes 0x80 (of_nat k); s = 0xa2 # length_bytes (of_nat m)
     in 0x60 # length_bytes (of_nat (length u + length s + m)) @ u @ s)"

lemma sv_apdu_head: "sv_apdu vs = sv_head (length vs) (length (tlvs (asdu_tlvs vs))) @ tlvs (asdu_tlvs vs)"
  by (simp add: sv_apdu_def sv_head_def octet_bytes_def Let_def add.commute add.left_commute)

lemma setupComplete_inv:
  assumes prep: "sv_prepared hdr self" and ok: "list_all asdu_ok (sp_asduList self)"
    and m: "total_asdu_length (sp_asduList self) = Some m"
    and fits: "length hdr + 6 + length (sv_head (length (sp_asduList self)) m) + m \<le> 1518"
  obtains self' vs where "SVPublisher_setupComplete self = Some self'" and "sv_inv hdr self' vs"
    and "list_all2 asdu_of (sp_asduList self) vs" and "list_all2 same_settings (sp_asduList self) (sp_asduList self')"
    and "sp_ethernetSocket self' = sp_ethernetSocket self"
proof -
  let ?k = "length (sp_asduList self)"
  let ?H = "sv_head ?k m"
  define b where "b = sp_buffer self"
  define l where "l = length hdr"
  have p: "length b = 1518" "14 \<le> l" "l \<le> 20" "sp_lengthField self = l" "sp_payloadStart self = l + 6"
      "take l b = hdr" "take 4 (drop (l + 2) b) = [0, 0, 0, 0]"
    using prep by (auto simp: sv_prepared_def b_def l_def)
  define P where "P = take (l + 6) b"
  define R where "R = drop (l + 6) b"
  have PR: "b = P @ R" and lP: "length P = l + 6" and lR: "length R = 1512 - l"
    using p(1,3) by (simp_all add: P_def R_def)
  have "(of_nat m :: uint32) \<noteq> 65535" using fits by (simp add: of_nat32_eq_numeral)
  then have seq: "1 + BerEncoder_determineLengthSize (of_nat m) = length (0xa2 # length_bytes (of_nat m) :: byte list)"
    by (simp add: length_length_bytes)
  have head: "(do { c \<leftarrow> BerEncoder_encodeTL 0x60 (of_nat (2 + BerEncoder_UInt32determineEncodedSize (of_nat ?k)
          + (1 + BerEncoder_determineLengthSize (of_nat m) + m))) c;
        c \<leftarrow> BerEncoder_encodeUInt32WithTL 0x80 (of_nat ?k) c;
        c \<leftarrow> BerEncoder_encodeTL 0xa2 (of_nat m) c; f c }) = put_bytes ?H c \<bind> f" for c f
    unfolding seq by (simp add: writer_simps size_simps sv_head_def Let_def put_fun uint32_bytes_def
        add.commute add.left_commute)
  have s1: "put_bytes ?H (b, l + 6) = Some ((P @ ?H) @ drop (length ?H) R, length (P @ ?H))"
    using put_zip [of ?H R P] fits lR lP by (simp add: PR l_def)
  have room: "m \<le> length (drop (length ?H) R)" "length (drop (length ?H) R) < 65535"
    using fits lR by (simp_all add: l_def)
  obtain vs as' where vs: "list_all2 asdu_of (sp_asduList self) vs" "list_all2 same_settings (sp_asduList self) as'"
      "m = length (tlvs (asdu_tlvs vs))"
      "encode_asdus (sp_asduList self) ((P @ ?H) @ drop (length ?H) R, length (P @ ?H))
        = Some (as', ((P @ ?H) @ tlvs (asdu_tlvs vs)) @ drop m (drop (length ?H) R),
            length ((P @ ?H) @ tlvs (asdu_tlvs vs)))"
      "placed_all (length (P @ ?H)) as' vs"
    using encode_asdus_placed [OF ok m room, of "P @ ?H"] by blast
  have k: "?k = length vs" using vs(1) by (rule list_all2_lengthD)
  have apdu: "sv_apdu vs = ?H @ tlvs (asdu_tlvs vs)" by (simp add: sv_apdu_head k vs(3))
  define n where "n = length (sv_apdu vs)"
  define rest where "rest = drop m (drop (length ?H) R)"
  have n: "length (P @ ?H @ tlvs (asdu_tlvs vs)) - (l + 6) = n" by (simp add: n_def apdu lP)
  have P3: "P = hdr @ take 2 (drop l b) @ [0, 0, 0, 0]"
  proof -
    have "take (l + 6) b = take l b @ take 2 (drop l b) @ take 4 (drop (l + 2) b)"
      using take_add [of l 6 b] take_add [of 2 4 "drop l b"] by (simp add: add.commute)
    then show ?thesis unfolding P_def p(6,7) .
  qed
  have s2: "put_bytes (length_octets16 (n + 8)) (P @ sv_apdu vs @ rest, l) = Some (sv_frame hdr vs @ rest, l + 2)"
    unfolding P3 using p(1,3)
      put_bytes_append_buf [of l hdr "take 2 (drop l b)" "length_octets16 (n + 8)" "[0, 0, 0, 0] @ sv_apdu vs @ rest"]
    by (simp add: l_def sv_frame_def n_def length_octets16_def del: put_bytes.simps)
  let ?s = "self\<lparr>sp_asduList := as', sp_buffer := sv_frame hdr vs @ rest, sp_payloadLength := n\<rparr>"
  have "SVPublisher_setupComplete self = Some ?s"
    unfolding SVPublisher_setupComplete_def Let_def m p(4,5) b_def [symmetric] Option.bind.bind_lunit head s1 vs(4)
    using s2 n by (simp add: apdu rest_def length_octets16_def del: put_bytes.simps)
  moreover have "sv_inv hdr ?s vs"
  proof -
    have f: "length (sv_frame hdr vs) = l + 6 + n" by (simp add: sv_frame_def length_octets16_def l_def n_def)
    have "asdu_start hdr vs = length (P @ ?H)"
      by (simp add: asdu_start_def f n_def apdu lP)
    moreover have "length (sv_frame hdr vs @ rest) = 1518"
      using fits lR by (simp add: f rest_def n_def apdu vs(3) l_def)
    moreover have "take 4 (drop (l + 2) (sv_frame hdr vs @ rest)) = [0, 0, 0, 0]"
        "take l (sv_frame hdr vs @ rest) = hdr"
      by (simp_all add: sv_frame_def l_def length_octets16_def)
    ultimately show ?thesis
      using p vs(5) f by (simp add: sv_inv_def sv_prepared_def l_def n_def)
  qed
  ultimately show thesis using that vs(1,2) by simp
qed

end
