(* ===== verification/Sv_Update.thy ===== *)
theory Sv_Update
  imports Sv_Layout
begin

text \<open>
  The sampled values publisher after the layout: each operation on an ASDU writes through its pointers
  into the frame and is an update of the abstract ASDU (\<open>asdu_op\<close>); the frame around it keeps its form,
  so a publish sends the octets of the abstract ASDUs.
\<close>

section \<open>An operation on one ASDU of a publisher\<close>

definition on_asdu ::
    "(buffer \<Rightarrow> SVPublisher_ASDU \<Rightarrow> (buffer \<times> SVPublisher_ASDU) option) \<Rightarrow> nat \<Rightarrow> SVPublisher \<Rightarrow>
     SVPublisher option" where
  "on_asdu op k self =
     (if k < length (sp_asduList self) then do {
        (mem, a) \<leftarrow> op (sp_buffer self) (sp_asduList self ! k);
        Some (self\<lparr>sp_buffer := mem, sp_asduList := (sp_asduList self)[k := a]\<rparr>) }
      else None)"

lemma placed_all_length: "placed_all q as vs \<Longrightarrow> length as = length vs"
  by (induction q as vs rule: placed_all.induct) auto

lemma placed_all_append:
  "length as1 = length vs1 \<Longrightarrow> placed_all q (as1 @ as2) (vs1 @ vs2) \<longleftrightarrow>
     placed_all q as1 vs1 \<and> placed_all (q + length (tlvs (asdu_tlvs vs1))) as2 vs2"
  by (induction as1 vs1 arbitrary: q rule: list_induct2) (auto simp: add.assoc)

lemma asdu_tlvs_append [simp]: "asdu_tlvs (xs @ ys) = asdu_tlvs xs @ asdu_tlvs ys"
  by (simp add: asdu_tlvs_def)

text \<open>One ASDU exchanged for another with content of the same length: octets and positions.\<close>

lemma asdu_exchange:
  assumes as: "placed_all q as vs" and k: "k < length vs"
  obtains pre post where "tlvs (asdu_tlvs vs) = pre @ asdu_content (vs ! k) @ post"
    and "placed (q + length pre) (as ! k) (vs ! k)"
    and "\<forall>v' a'. length (asdu_content v') = length (asdu_content (vs ! k)) \<longrightarrow>
      tlvs (asdu_tlvs (vs[k := v'])) = pre @ asdu_content v' @ post \<and>
      (placed (q + length pre) a' v' \<longrightarrow> placed_all q (as[k := a']) (vs[k := v']))"
proof -
  define vs1 vs2 as1 as2 where "vs1 = take k vs" and "vs2 = drop (Suc k) vs" and "as1 = take k as"
    and "as2 = drop (Suc k) as"
  let ?c = "asdu_content (vs ! k)"
  let ?pre = "tlvs (asdu_tlvs vs1) @ 0x30 # length_bytes (of_nat (length ?c))"
  have ka: "k < length as" and l1: "length as1 = length vs1"
    using placed_all_length [OF as] k by (simp_all add: as1_def vs1_def)
  have split: "vs = vs1 @ (vs ! k) # vs2" "as = as1 @ (as ! k) # as2"
      "vs[k := v'] = vs1 @ v' # vs2" "as[k := a'] = as1 @ a' # as2" for v' a'
    using k ka by (simp_all add: vs1_def vs2_def as1_def as2_def id_take_nth_drop [symmetric] upd_conv_take_nth_drop)
  have off: "q + length (tlvs (asdu_tlvs vs1)) + length (octet_bytes 0x30 c) - length c = q + length ?pre"
    if "length c = length ?c" for c
    using that by (simp add: octet_bytes_def)
  have parts: "placed_all q as1 vs1" "placed (q + length ?pre) (as ! k) (vs ! k)"
      "placed_all (q + length (tlvs (asdu_tlvs vs1)) + length (octet_bytes 0x30 ?c)) as2 vs2"
    using as off [of ?c] placed_all_append [OF l1, of q "(as ! k) # as2" "(vs ! k) # vs2"] split(1,2)
    by auto
  show thesis
  proof (rule that [of ?pre "tlvs (asdu_tlvs vs2)"])
    show "tlvs (asdu_tlvs vs) = ?pre @ ?c @ tlvs (asdu_tlvs vs2)"
      by (subst split(1)) (simp add: octet_bytes_def)
    show "placed (q + length ?pre) (as ! k) (vs ! k)" by (rule parts(2))
    show "\<forall>v' a'. length (asdu_content v') = length ?c \<longrightarrow>
        tlvs (asdu_tlvs (vs[k := v'])) = ?pre @ asdu_content v' @ tlvs (asdu_tlvs vs2) \<and>
        (placed (q + length ?pre) a' v' \<longrightarrow> placed_all q (as[k := a']) (vs[k := v']))"
      using parts off by (simp add: split(3,4) placed_all_append [OF l1] octet_bytes_def)
  qed
qed

section \<open>The contract of an operation\<close>

text \<open>The octets of the frame before the first ASDU.\<close>

definition frame_head :: "byte list \<Rightarrow> sv_asdu list \<Rightarrow> byte list" where
  "frame_head hdr vs = hdr @ length_octets16 (length (sv_apdu vs) + 8) @ [0, 0, 0, 0]
     @ sv_head (length vs) (length (tlvs (asdu_tlvs vs)))"

lemma sv_frame_split: "sv_frame hdr vs = frame_head hdr vs @ tlvs (asdu_tlvs vs)"
  by (simp add: sv_frame_def frame_head_def sv_apdu_head)

lemma asdu_start_head: "asdu_start hdr vs = length (frame_head hdr vs)"
  by (simp add: asdu_start_def sv_frame_split)

lemma frame_head_same:
  "length vs' = length vs \<Longrightarrow> length (tlvs (asdu_tlvs vs')) = length (tlvs (asdu_tlvs vs)) \<Longrightarrow>
   frame_head hdr vs' = frame_head hdr vs \<and> length (sv_apdu vs') = length (sv_apdu vs)"
  by (simp add: frame_head_def sv_apdu_head)

locale asdu_op =
  fixes op :: "buffer \<Rightarrow> SVPublisher_ASDU \<Rightarrow> (buffer \<times> SVPublisher_ASDU) option"
    and spec :: "SVPublisher_ASDU \<Rightarrow> sv_asdu \<Rightarrow> sv_asdu"
    and guard :: "SVPublisher_ASDU \<Rightarrow> sv_asdu \<Rightarrow> bool"
  assumes in_place: "placed (length pre) a v \<Longrightarrow> guard a v \<Longrightarrow>
    \<exists>a'. op (pre @ asdu_content v @ rest) a = Some (pre @ asdu_content (spec a v) @ rest, a') \<and>
      placed (length pre) a' (spec a v) \<and> length (asdu_content (spec a v)) = length (asdu_content v)"
begin

lemma refines:
  assumes inv: "sv_inv hdr self vs" and k: "k < length vs" and g: "guard (sp_asduList self ! k) (vs ! k)"
  shows "\<exists>self'. on_asdu op k self = Some self' \<and>
    sv_inv hdr self' (vs[k := spec (sp_asduList self ! k) (vs ! k)]) \<and>
    sp_ethernetSocket self' = sp_ethernetSocket self \<and>
    (\<forall>j. j \<noteq> k \<longrightarrow> sp_asduList self' ! j = sp_asduList self ! j)"
proof -
  let ?as = "sp_asduList self" and ?h = "frame_head hdr vs" and ?f = "length (sv_frame hdr vs)"
  let ?v = "spec (?as ! k) (vs ! k)"
  let ?vs = "vs[k := ?v]"
  define R where "R = drop ?f (sp_buffer self)"
  have pl: "placed_all (length ?h) ?as vs" using inv by (simp add: sv_inv_def asdu_start_head)
  obtain pre post where pp: "tlvs (asdu_tlvs vs) = pre @ asdu_content (vs ! k) @ post"
      "placed (length ?h + length pre) (?as ! k) (vs ! k)"
      "\<forall>v' a'. length (asdu_content v') = length (asdu_content (vs ! k)) \<longrightarrow>
        tlvs (asdu_tlvs (vs[k := v'])) = pre @ asdu_content v' @ post \<and>
        (placed (length ?h + length pre) a' v' \<longrightarrow> placed_all (length ?h) (?as[k := a']) (vs[k := v']))"
    by (rule asdu_exchange [OF pl k])
  have buf: "sp_buffer self = (?h @ pre) @ asdu_content (vs ! k) @ (post @ R)"
  proof -
    have "sp_buffer self = take ?f (sp_buffer self) @ R" by (simp add: R_def)
    also have "take ?f (sp_buffer self) = ?h @ tlvs (asdu_tlvs vs)"
      using inv by (simp add: sv_inv_def sv_frame_split)
    finally show ?thesis by (simp add: pp(1))
  qed
  obtain a' where a': "op (sp_buffer self) (?as ! k) = Some ((?h @ pre) @ asdu_content ?v @ (post @ R), a')"
      "placed (length ?h + length pre) a' ?v" "length (asdu_content ?v) = length (asdu_content (vs ! k))"
    using in_place [of "?h @ pre" "?as ! k" "vs ! k" "post @ R"] pp(2) g buf by auto
  have new: "tlvs (asdu_tlvs ?vs) = pre @ asdu_content ?v @ post" "placed_all (length ?h) (?as[k := a']) ?vs"
    using pp(3) a' by blast+
  have same: "frame_head hdr ?vs = ?h" "length (sv_apdu ?vs) = length (sv_apdu vs)"
    using frame_head_same [of ?vs vs hdr] new(1) pp(1) a'(3) by simp_all
  let ?b = "(?h @ pre) @ asdu_content ?v @ (post @ R)"
  let ?self = "self\<lparr>sp_buffer := ?b, sp_asduList := ?as[k := a']\<rparr>"
  have frame: "sv_frame hdr ?vs @ R = ?b" by (simp add: sv_frame_split same new)
  have "length ?b = length (sp_buffer self)" using buf a'(3) by simp
  moreover have "take (length hdr) ?b = hdr" "take 4 (drop (length hdr + 2) ?b) = [0, 0, 0, 0]"
    unfolding frame [symmetric] by (simp_all add: sv_frame_def length_octets16_def)
  moreover have "length (sv_frame hdr ?vs) = ?f" by (simp add: sv_frame_def same length_octets16_def)
  moreover have "take ?f ?b = sv_frame hdr ?vs" using calculation(4) unfolding frame [symmetric] by simp
  ultimately have "sv_inv hdr ?self ?vs"
    using inv new(2) same by (simp add: sv_inv_def sv_prepared_def asdu_start_head)
  moreover have "on_asdu op k self = Some ?self"
    using placed_all_length [OF pl] k a'(1) by (simp add: on_asdu_def)
  ultimately show ?thesis by (intro exI [of _ ?self]) simp
qed

end

section \<open>The operations\<close>

lemma field_write:
  assumes "map_of (sv_tlvs v) t = Some c" and "i + length bs \<le> length c"
    and v': "sv_tlvs v' = set_tlv t (patch i bs c) (sv_tlvs v)"
  obtains q where "map_of (tlv_positions (length pre) (sv_tlvs v)) t = Some q"
    and "put_bytes bs (pre @ asdu_content v @ rest, q + i) = Some (pre @ asdu_content v' @ rest, q + i + length bs)"
    and "tlv_positions (length pre) (sv_tlvs v') = tlv_positions (length pre) (sv_tlvs v)"
    and "length (asdu_content v') = length (asdu_content v)"
proof -
  obtain q where q: "map_of (tlv_positions (length pre) (sv_tlvs v)) t = Some q"
      "put_bytes bs (pre @ tlvs (sv_tlvs v) @ rest, q + i)
        = Some (pre @ tlvs (sv_tlvs v') @ rest, q + i + length bs)"
      "tlv_positions (length pre) (sv_tlvs v') = tlv_positions (length pre) (sv_tlvs v)"
    unfolding v' by (rule tlv_patch [OF assms(1) distinct_sv_tlvs assms(2)])
  moreover have "length (asdu_content v') = length (asdu_content v)"
    using put_bytes_SomeD [OF q(2)] by (simp add: asdu_content_def)
  ultimately show thesis using that by (simp add: asdu_content_def)
qed

text \<open>The sample counter.\<close>

lemma store_smpCnt_in_place:
  assumes "placed (length pre) a v" and "sa_smpCnt a' = n" and "a' = a\<lparr>sa_smpCnt := n\<rparr>"
  shows "store_smpCnt (pre @ asdu_content v @ rest) a' = Some (pre @ asdu_content (v\<lparr>v_smpCnt := n\<rparr>) @ rest, a') \<and>
    placed (length pre) a' (v\<lparr>v_smpCnt := n\<rparr>) \<and> length (asdu_content (v\<lparr>v_smpCnt := n\<rparr>)) = length (asdu_content v)"
proof -
  have v': "sv_tlvs (v\<lparr>v_smpCnt := n\<rparr>) = set_tlv 0x82 (patch 0 (be_bytes n) (be_bytes (v_smpCnt v))) (sv_tlvs v)"
    by (simp add: patch_all set_sv_tlvs)
  obtain q where q: "map_of (tlv_positions (length pre) (sv_tlvs v)) 0x82 = Some q"
      "put_bytes (be_bytes n) (pre @ asdu_content v @ rest, q + 0)
        = Some (pre @ asdu_content (v\<lparr>v_smpCnt := n\<rparr>) @ rest, q + 0 + length (be_bytes n))"
      "tlv_positions (length pre) (sv_tlvs (v\<lparr>v_smpCnt := n\<rparr>)) = tlv_positions (length pre) (sv_tlvs v)"
      "length (asdu_content (v\<lparr>v_smpCnt := n\<rparr>)) = length (asdu_content v)"
    by (rule field_write [OF map_of_sv_tlvs(3) _ v', of pre rest]) simp
  then show ?thesis
    using assms by (simp add: store_smpCnt_def encode_at_def writer_simps placed_def)
qed

definition next_smpCnt :: "SVPublisher_ASDU \<Rightarrow> sv_asdu \<Rightarrow> uint16" where
  "next_smpCnt a v = of_nat ((unat (v_smpCnt v) + 1) mod unat (sa_smpCntLimit a))"

interpretation set_smpCnt: asdu_op "\<lambda>mem a. SVPublisher_ASDU_setSmpCnt mem a n" "\<lambda>_ v. v\<lparr>v_smpCnt := n\<rparr>" "\<lambda>_ _. True"
  for n
  by unfold_locales (use store_smpCnt_in_place in \<open>auto simp: SVPublisher_ASDU_setSmpCnt_def\<close>)

interpretation increase_smpCnt: asdu_op SVPublisher_ASDU_increaseSmpCnt "\<lambda>a v. v\<lparr>v_smpCnt := next_smpCnt a v\<rparr>"
  "\<lambda>a _. sa_smpCntLimit a \<noteq> 0"
proof
  fix pre rest :: "byte list" and a v assume p: "placed (length pre) a v" and "sa_smpCntLimit a \<noteq> 0"
  moreover have "sa_smpCnt a = v_smpCnt v" using p by (simp add: placed_def)
  ultimately show "\<exists>a'. SVPublisher_ASDU_increaseSmpCnt (pre @ asdu_content v @ rest) a
      = Some (pre @ asdu_content (v\<lparr>v_smpCnt := next_smpCnt a v\<rparr>) @ rest, a') \<and>
      placed (length pre) a' (v\<lparr>v_smpCnt := next_smpCnt a v\<rparr>) \<and>
      length (asdu_content (v\<lparr>v_smpCnt := next_smpCnt a v\<rparr>)) = length (asdu_content v)"
    using store_smpCnt_in_place [OF p, of "a\<lparr>sa_smpCnt := next_smpCnt a v\<rparr>" "next_smpCnt a v"]
    by (intro exI [of _ "a\<lparr>sa_smpCnt := next_smpCnt a v\<rparr>"])
      (simp add: SVPublisher_ASDU_increaseSmpCnt_def next_smpCnt_def)
qed

text \<open>The synchronisation flag.\<close>

interpretation set_smpSynch: asdu_op "\<lambda>mem a. SVPublisher_ASDU_setSmpSynch mem a n"
  "\<lambda>_ v. v\<lparr>v_smpSynch := ucast n\<rparr>" "\<lambda>_ _. True" for n
proof
  fix pre rest :: "byte list" and a v assume p: "placed (length pre) a v"
  let ?v = "v\<lparr>v_smpSynch := ucast n\<rparr>"
  have v': "sv_tlvs ?v = set_tlv 0x85 (patch 0 [ucast n] [v_smpSynch v]) (sv_tlvs v)"
    by (simp add: patch_all set_sv_tlvs)
  obtain q where "map_of (tlv_positions (length pre) (sv_tlvs v)) 0x85 = Some q"
      "put_bytes [ucast n] (pre @ asdu_content v @ rest, q + 0)
        = Some (pre @ asdu_content ?v @ rest, q + 0 + length [ucast n :: byte])"
      "tlv_positions (length pre) (sv_tlvs ?v) = tlv_positions (length pre) (sv_tlvs v)"
      "length (asdu_content ?v) = length (asdu_content v)"
    by (rule field_write [OF map_of_sv_tlvs(6) _ v', of pre rest]) simp
  then show "\<exists>a'. SVPublisher_ASDU_setSmpSynch (pre @ asdu_content v @ rest) a n
      = Some (pre @ asdu_content ?v @ rest, a') \<and> placed (length pre) a' ?v \<and>
      length (asdu_content ?v) = length (asdu_content v)"
    using p by (simp add: SVPublisher_ASDU_setSmpSynch_def write_at_def placed_def del: put_bytes.simps)
qed

text \<open>Samples: every setter of a value writes its octets, most significant first, at the index.\<close>

definition set_data :: "int \<Rightarrow> byte list \<Rightarrow> buffer \<Rightarrow> SVPublisher_ASDU \<Rightarrow> (buffer \<times> SVPublisher_ASDU) option" where
  "set_data index bs mem a = map_option (\<lambda>mem. (mem, a)) (write_at (sa_dataBuffer a) index bs mem)"

lemma encode_at_put_bytes: "encode_at (put_bytes bs) = (\<lambda>ptr index mem. write_at ptr index bs mem)"
  by (simp add: encode_at_def write_at_def fun_eq_iff)

lemma revert_le_bytes64: "BerEncoder_revertByteOrder (le_bytes (w :: uint64)) 8 = be_bytes w"
  by (simp add: revertByteOrder_rev be_bytes_def)

lemma data_setters:
  "SVPublisher_ASDU_setINT8 mem a i b = write_at (sa_dataBuffer a) i [b] mem"
  "SVPublisher_ASDU_setINT32 mem a i x = write_at (sa_dataBuffer a) i (be_bytes x) mem"
  "SVPublisher_ASDU_setINT64 mem a i y = write_at (sa_dataBuffer a) i (be_bytes y) mem"
  "SVPublisher_ASDU_setFLOAT mem a i x = write_at (sa_dataBuffer a) i (be_bytes x) mem"
  "SVPublisher_ASDU_setFLOAT64 mem a i y = write_at (sa_dataBuffer a) i (be_bytes y) mem"
  "ts_ok t \<Longrightarrow> SVPublisher_ASDU_setTimestamp mem a i t = write_at (sa_dataBuffer a) i (val t) mem"
  "SVPublisher_ASDU_setQuality mem a i q = write_at (sa_dataBuffer a) i ([0, 0] @ be_bytes q) mem"
proof -
  have "encodeInt32FixedSize x = put_bytes (be_bytes x)" "encodeInt64FixedSize y = put_bytes (be_bytes y)"
    by (simp_all add: fun_eq_iff fixed_size_writes)
  then show "SVPublisher_ASDU_setINT32 mem a i x = write_at (sa_dataBuffer a) i (be_bytes x) mem"
      "SVPublisher_ASDU_setINT64 mem a i y = write_at (sa_dataBuffer a) i (be_bytes y) mem"
    by (simp_all add: SVPublisher_ASDU_setINT32_def SVPublisher_ASDU_setINT64_def encode_at_put_bytes)
  have q: "[ucast (q div 0x100), ucast (q mod 0x100)] = be_bytes q"
  proof -
    have "ucast (q div 0x100) = (ucast (drop_bit 8 q) :: byte)"
      by (simp add: drop_bit_eq_div)
    moreover have "ucast (q mod 0x100) = (ucast q :: byte)"
      by (rule word_unat_eq_iff [THEN iffD2])
        (simp add: unsigned_ucast_eq unat_mod take_bit_eq_mod)
    ultimately show ?thesis by (simp add: be_bytes_def le_bytes_def upt_rec)
  qed
  show "SVPublisher_ASDU_setQuality mem a i q = write_at (sa_dataBuffer a) i ([0, 0] @ be_bytes q) mem"
    by (simp add: SVPublisher_ASDU_setQuality_def q [symmetric])
qed (simp_all add: SVPublisher_ASDU_setINT8_def SVPublisher_ASDU_setFLOAT_def SVPublisher_ASDU_setFLOAT64_def
      SVPublisher_ASDU_setTimestamp_def revert_le_bytes64 ts_ok_def)

interpretation set_data: asdu_op "set_data i bs" "\<lambda>_ v. v\<lparr>v_data := patch (nat i) bs (v_data v)\<rparr>"
  "\<lambda>_ v. 0 \<le> i \<and> nat i + length bs \<le> length (v_data v)" for i bs
proof
  fix pre rest :: "byte list" and a v
  assume p: "placed (length pre) a v" and g: "0 \<le> i \<and> nat i + length bs \<le> length (v_data v)"
  let ?v = "v\<lparr>v_data := patch (nat i) bs (v_data v)\<rparr>"
  obtain q where "map_of (tlv_positions (length pre) (sv_tlvs v)) 0x87 = Some q"
      "put_bytes bs (pre @ asdu_content v @ rest, q + nat i)
        = Some (pre @ asdu_content ?v @ rest, q + nat i + length bs)"
      "tlv_positions (length pre) (sv_tlvs ?v) = tlv_positions (length pre) (sv_tlvs v)"
      "length (asdu_content ?v) = length (asdu_content v)"
    by (rule field_write [OF map_of_sv_tlvs(8) conjunct2 [OF g] set_sv_tlvs(4) [symmetric], of pre rest])
  then show "\<exists>a'. set_data i bs (pre @ asdu_content v @ rest) a = Some (pre @ asdu_content ?v @ rest, a') \<and>
      placed (length pre) a' ?v \<and> length (asdu_content ?v) = length (asdu_content v)"
    using p g by (simp add: set_data_def write_at_def placed_def nat_add_distrib)
qed

text \<open>The reference time.\<close>

lemma update_refrTm_in_place:
  assumes p: "placed (length pre) a v" and f: "\<And>t. ts_ok t \<Longrightarrow> ts_ok (f t)"
  defines "v' \<equiv> v\<lparr>v_refrTm := map_option (\<lambda>t. val (f \<lparr>val = t\<rparr>)) (v_refrTm v)\<rparr>"
  shows "\<exists>a'. update_refrTm f (pre @ asdu_content v @ rest) a = Some (pre @ asdu_content v' @ rest, a') \<and>
    placed (length pre) a' v' \<and> length (asdu_content v') = length (asdu_content v)"
proof (cases "v_refrTm v")
  case None
  moreover have "v' = v" using None by (simp add: v'_def)
  moreover have "sa_refrTm a = None" using p None tlv_positions_None [of "sv_tlvs v" "0x84"] by (simp add: placed_def)
  ultimately show ?thesis using p by (simp add: update_refrTm_def placed_def)
next
  case (Some t)
  let ?t = "val (f \<lparr>val = t\<rparr>)"
  have t: "length t = 8" "length ?t = 8"
    using p Some f [of "\<lparr>val = t\<rparr>"] by (auto simp: placed_def ts_ok_def)
  have v': "sv_tlvs v' = set_tlv 0x84 (patch 0 ?t t) (sv_tlvs v)"
    using Some t by (simp add: v'_def patch_all set_sv_tlvs)
  have c: "map_of (sv_tlvs v) 0x84 = Some t" using Some by simp
  obtain q where q: "map_of (tlv_positions (length pre) (sv_tlvs v)) 0x84 = Some q"
      "put_bytes ?t (pre @ asdu_content v @ rest, q + 0)
        = Some (pre @ asdu_content v' @ rest, q + 0 + length ?t)"
      "tlv_positions (length pre) (sv_tlvs v') = tlv_positions (length pre) (sv_tlvs v)"
      "length (asdu_content v') = length (asdu_content v)"
    by (rule field_write [OF c _ v', of pre rest]) (use t in simp)
  obtain q' where q': "map_of (tlv_positions (length pre) (sv_tlvs v)) 0x84 = Some q'"
      "rd_bytes (pre @ tlvs (sv_tlvs v) @ rest) (int (q' + 0)) (int 8) = Some (take 8 (drop 0 t))"
    by (rule tlv_read [OF c distinct_sv_tlvs, of 0 8]) (use t in simp)
  have "rd_bytes (pre @ asdu_content v @ rest) (int q) 8 = Some t"
    using q(1) q' t by (simp add: asdu_content_def)
  moreover have "v_smpCnt v' = v_smpCnt v" "v_smpSynch v' = v_smpSynch v" "v_refrTm v' = Some ?t"
    by (simp_all add: v'_def Some)
  ultimately show ?thesis
    using p q t by (simp add: update_refrTm_def write_at_def placed_def Let_def)
qed

lemma time_setters_ok:
  "ts_ok t \<Longrightarrow> ts_ok (Timestamp_setTimeInNanoseconds t n)"
  "ts_ok t \<Longrightarrow> ts_ok (Timestamp_setTimeInMilliseconds t n)"
  "ts_ok t \<Longrightarrow> ts_ok (Timestamp_setSubsecondPrecision t p)"
  by (simp_all add: ts_ok_def Timestamp_setTimeInNanoseconds_def Timestamp_setTimeInMilliseconds_def
      Timestamp_setSubsecondPrecision_def Let_def time_octets upd7_def)

definition stamp_with :: "(Timestamp \<Rightarrow> Timestamp) \<Rightarrow> sv_asdu \<Rightarrow> sv_asdu" where
  "stamp_with f v = v\<lparr>v_refrTm := map_option (\<lambda>t. val (f \<lparr>val = t\<rparr>)) (v_refrTm v)\<rparr>"

interpretation set_refrTmNs: asdu_op "\<lambda>mem a. SVPublisher_ASDU_setRefrTmNs mem a n"
  "\<lambda>_. stamp_with (\<lambda>t. Timestamp_setSubsecondPrecision (Timestamp_setTimeInNanoseconds t n) 20)" "\<lambda>_ _. True" for n
  by unfold_locales
    (simp only: stamp_with_def SVPublisher_ASDU_setRefrTmNs_def, rule update_refrTm_in_place, simp_all add: time_setters_ok)

interpretation set_refrTm: asdu_op "\<lambda>mem a. SVPublisher_ASDU_setRefrTm mem a n"
  "\<lambda>_. stamp_with (\<lambda>t. Timestamp_setSubsecondPrecision (Timestamp_setTimeInMilliseconds t n) 10)" "\<lambda>_ _. True" for n
  by unfold_locales
    (simp only: stamp_with_def SVPublisher_ASDU_setRefrTm_def, rule update_refrTm_in_place, simp_all add: time_setters_ok)

interpretation set_refrTmByTimestamp: asdu_op "\<lambda>mem a. SVPublisher_ASDU_setRefrTmByTimestamp mem a ts"
  "\<lambda>_. stamp_with (\<lambda>_. ts)" "\<lambda>_ _. ts_ok ts" for ts
  by unfold_locales
    (simp only: stamp_with_def SVPublisher_ASDU_setRefrTmByTimestamp_def, rule update_refrTm_in_place, simp_all)

section \<open>Creation and publication\<close>

definition sv_header :: "CommParameters \<Rightarrow> byte list \<Rightarrow> bool \<Rightarrow> byte list" where
  "sv_header p src useVlanTag =
     dstAddress p @ src @ (if useVlanTag then vlan_bytes p else []) @ sv_header_bytes p"

lemma createEx_prepared:
  assumes dev: "devices i = Some mac" "length mac = 6"
    and p: "length (dstAddress p) = 6" and heap: "length heap = 1518"
  obtains self where "SVPublisher_createEx devices heap (Some p) (Some i) v = Some self"
    and "sv_prepared (sv_header p mac v) self" and "sp_asduList self = []"
    and "es_sent (sp_ethernetSocket self) = []"
proof -
  let ?h = "sv_header p mac v"
  let ?z = "[0x00, 0x08, 0x00, 0x00, 0x00, 0x00] :: byte list"
  define l where "l = length ?h"
  define buf where "buf = ?h @ ?z @ drop (l + 6) heap"
  have l: "l = (if v then 20 else 16)"
    using dev p by (simp add: l_def sv_header_def vlan_bytes_def sv_header_bytes_def Let_def)
  have put_h: "put_bytes ?h (heap, 0) = Some (?h @ drop l heap, l)"
    using put_bytes_exact [of 0 ?h heap] heap l by (simp add: l_def [symmetric])
  have put_z: "put_bytes ?z (?h @ drop l heap, l) = Some (buf, l + 6)"
    using put_bytes_exact [of l ?z "?h @ drop l heap"] heap l
    by (simp add: l_def [symmetric] buf_def del: put_bytes.simps)
  have six: "rd_bytes mac 0 6 = Some mac" "rd_bytes (dstAddress p) 0 6 = Some (dstAddress p)"
    using dev(2) p by (simp_all add: rd_bytes_def)
  have chain: "(do { c \<leftarrow> put_bytes (dstAddress p) (heap, 0); c \<leftarrow> put_bytes mac c;
      c \<leftarrow> (if v then put_bytes (vlan_bytes p) c else Some c); c \<leftarrow> put_bytes (sv_header_bytes p) c; f c })
      = f (?h @ drop l heap, l)" for f :: "cursor \<Rightarrow> SVPublisher option"
    using put_h by (cases v) (simp_all add: bind_put_bytes sv_header_def)
  define s where "s = new_SVPublisher\<lparr>sp_ethernetSocket := \<lparr>es_remote = Some (dstAddress p), es_sent = []\<rparr>,
      sp_buffer := buf, sp_lengthField := l, sp_payloadStart := l + 6\<rparr>"
  have "SVPublisher_createEx devices heap (Some p) (Some i) v = Some s"
    using put_z
    by (simp add: SVPublisher_createEx_def preparePacketBuffer_def Ethernet_getInterfaceMACAddress_def
        Ethernet_createSocket_def dev(1) six chain s_def del: put_bytes.simps)
  moreover have "sv_prepared ?h s"
    using heap l by (auto simp: sv_prepared_def s_def buf_def new_SVPublisher_def l_def [symmetric])
  ultimately show thesis using that [of s] by (simp add: s_def new_SVPublisher_def)
qed

lemma addASDU_prepared:
  assumes "sv_prepared hdr self" and "list_all asdu_ok (sp_asduList self)"
    and "string_ok (Some svID)" and "string_ok datset"
  shows "sv_prepared hdr (SVPublisher_addASDU self svID datset confRev)"
    and "list_all asdu_ok (sp_asduList (SVPublisher_addASDU self svID datset confRev))"
  using assms by (simp_all add: SVPublisher_addASDU_def sv_prepared_def asdu_ok_def)

lemma publish_frame:
  assumes "sv_inv hdr self vs"
  obtains self' where "SVPublisher_publish self = Some self'" and "sv_inv hdr self' vs"
    and "sp_asduList self' = sp_asduList self"
    and "es_sent (sp_ethernetSocket self') = es_sent (sp_ethernetSocket self) @ [drop 14 (sv_frame hdr vs)]"
proof -
  let ?n = "length (sv_frame hdr vs)"
  have n: "sp_payloadStart self + sp_payloadLength self = ?n"
    using assms by (simp add: sv_inv_def sv_prepared_def sv_frame_def length_octets16_def)
  have "14 \<le> ?n" "?n \<le> length (sp_buffer self)" "take ?n (sp_buffer self) = sv_frame hdr vs"
    using assms by (auto simp: sv_inv_def sv_prepared_def sv_frame_def)
  then have "Ethernet_sendPacket (sp_ethernetSocket self) (sp_buffer self) (int ?n)
      = Some ((sp_ethernetSocket self)\<lparr>es_sent := es_sent (sp_ethernetSocket self) @ [drop 14 (sv_frame hdr vs)]\<rparr>)"
    using sendPacket_sends [of ?n "sp_buffer self"] by simp
  then show thesis
    using that [of "self\<lparr>sp_ethernetSocket := (sp_ethernetSocket self)\<lparr>es_sent :=
        es_sent (sp_ethernetSocket self) @ [drop 14 (sv_frame hdr vs)]\<rparr>\<rparr>"] assms n
    by (simp add: SVPublisher_publish_def sv_inv_def sv_prepared_def)
qed

section \<open>The sample counter\<close>

lemma next_smpCnt_mod:
  assumes "sa_smpCntLimit a \<noteq> 0"
  shows "unat (next_smpCnt a v) = (unat (v_smpCnt v) + 1) mod unat (sa_smpCntLimit a)"
proof -
  let ?l = "unat (sa_smpCntLimit a)"
  have "0 < ?l" using assms by (simp add: unat_gt_0)
  then have "(unat (v_smpCnt v) + 1) mod ?l < ?l" by simp
  moreover have "?l < 65536" using unsigned_less [of "sa_smpCntLimit a", where ?'a = nat] by simp
  ultimately have "(unat (v_smpCnt v) + 1) mod ?l < 65536" by linarith
  then show ?thesis by (simp add: next_smpCnt_def unsigned_of_nat take_bit_nat_eq_self)
qed

end
