(* ===== verification/Sv_Subscriber.thy ===== *)
theory Sv_Subscriber
  imports Ber_Tlv Ethernet_Hal String_Utilities Iec61850_Common
begin

text \<open>
  The sampled values receiver, \<open>src/sampled_values/sv_subscriber.cc\<close>. The receiver's frame buffer is the
  memory \<open>mem\<close>; the pointers of an ASDU are positions in it (\<open>None\<close> for \<open>NULL\<close>), and \<open>buffer + n\<close> of the
  parsers is the position \<open>base + n\<close>. The parsers write into the buffer (they terminate the two names),
  so they give it back. A subscriber is known by its address; a call of a listener is an event with the
  address, the memory and the ASDU at that moment.
\<close>

section \<open>State\<close>

record SVSubscriber =
  ss_ethAddr :: "byte list"
  ss_appId :: uint16
  ss_listener :: bool
  ss_listenerParameter :: "nat option"

record SVReceiver =
  sr_running :: bool
  sr_stopped :: bool
  sr_checkDestAddr :: bool
  sr_interfaceId :: "byte list option"
  sr_buffer :: buffer
  sr_ethSocket :: "EthernetSocket option"
  sr_subscriberList :: "(nat \<times> SVSubscriber) list"

record SVSubscriber_ASDU =
  su_svId :: "nat option"
  su_datSet :: "nat option"
  su_smpCnt :: "nat option"
  su_confRev :: "nat option"
  su_refrTm :: "nat option"
  su_smpSynch :: "nat option"
  su_smpMod :: "nat option"
  su_smpRate :: "nat option"
  su_dataBufferLength :: int
  su_dataBuffer :: "nat option"

record sv_event =
  ev_subscriber :: nat
  ev_mem :: buffer
  ev_asdu :: SVSubscriber_ASDU

section \<open>The receiver\<close>

text \<open>\<open>heap\<close> is the content of the freshly allocated buffer of \<open>ETH_BUFFER_LENGTH\<close> octets.\<close>

definition SVReceiver_create :: "buffer \<Rightarrow> SVReceiver" where
  "SVReceiver_create heap = \<lparr>sr_running = False, sr_stopped = False, sr_checkDestAddr = False,
     sr_interfaceId = None, sr_buffer = heap, sr_ethSocket = None, sr_subscriberList = []\<rparr>"

definition SVReceiver_setInterfaceId :: "SVReceiver \<Rightarrow> byte list \<Rightarrow> SVReceiver option" where
  "SVReceiver_setInterfaceId self interfaceId = do {
     s \<leftarrow> StringUtils_copyString interfaceId;
     Some (self\<lparr>sr_interfaceId := Some s\<rparr>) }"

definition SVReceiver_disableDestAddrCheck :: "SVReceiver \<Rightarrow> SVReceiver" where
  "SVReceiver_disableDestAddrCheck self = self\<lparr>sr_checkDestAddr := False\<rparr>"

definition SVReceiver_enableDestAddrCheck :: "SVReceiver \<Rightarrow> SVReceiver" where
  "SVReceiver_enableDestAddrCheck self = self\<lparr>sr_checkDestAddr := True\<rparr>"

definition SVReceiver_addSubscriber :: "SVReceiver \<Rightarrow> nat \<times> SVSubscriber \<Rightarrow> SVReceiver" where
  "SVReceiver_addSubscriber self subscriber =
     self\<lparr>sr_subscriberList := sr_subscriberList self @ [subscriber]\<rparr>"

text \<open>The first list element with the address is taken out.\<close>

fun remove_address :: "nat \<Rightarrow> (nat \<times> 'a) list \<Rightarrow> (nat \<times> 'a) list" where
  "remove_address p [] = []"
| "remove_address p ((q, x) # xs) = (if q = p then xs else (q, x) # remove_address p xs)"

definition SVReceiver_removeSubscriber :: "SVReceiver \<Rightarrow> nat \<Rightarrow> SVReceiver" where
  "SVReceiver_removeSubscriber self p =
     self\<lparr>sr_subscriberList := remove_address p (sr_subscriberList self)\<rparr>"

definition SVReceiver_startThreadless :: "devices \<Rightarrow> SVReceiver \<Rightarrow> SVReceiver option" where
  "SVReceiver_startThreadless devices self = do {
     let interface = (case sr_interfaceId self of None \<Rightarrow> c_str [0x65, 0x74, 0x68, 0x30] | Some i \<Rightarrow> i);
     socket \<leftarrow> Ethernet_createSocket devices interface None;
     Some (self\<lparr>sr_ethSocket := Some socket, sr_running := True\<rparr>) }"

definition SVReceiver_stopThreadless :: "SVReceiver \<Rightarrow> SVReceiver" where
  "SVReceiver_stopThreadless self = self\<lparr>sr_running := False\<rparr>"

definition SVReceiver_stop :: "SVReceiver \<Rightarrow> SVReceiver" where
  "SVReceiver_stop self = (if sr_running self then SVReceiver_stopThreadless self else self)"

definition SVReceiver_isRunning :: "SVReceiver \<Rightarrow> bool" where
  "SVReceiver_isRunning self = sr_running self"

definition SVSubscriber_create :: "byte list option \<Rightarrow> uint16 \<Rightarrow> SVSubscriber option" where
  "SVSubscriber_create ethAddr appID = do {
     let self = \<lparr>ss_ethAddr = replicate 6 0, ss_appId = appID, ss_listener = False, ss_listenerParameter = None\<rparr>;
     (case ethAddr of
        None \<Rightarrow> Some self
      | Some addr \<Rightarrow> do {
          a \<leftarrow> memcpy (ss_ethAddr self) addr 6;
          Some (self\<lparr>ss_ethAddr := a\<rparr>) }) }"

definition SVSubscriber_setListener :: "SVSubscriber \<Rightarrow> bool \<Rightarrow> nat option \<Rightarrow> SVSubscriber" where
  "SVSubscriber_setListener self listener parameter =
     self\<lparr>ss_listener := listener, ss_listenerParameter := parameter\<rparr>"

section \<open>Parsing\<close>

definition empty_asdu :: SVSubscriber_ASDU where
  "empty_asdu = \<lparr>su_svId = None, su_datSet = None, su_smpCnt = None, su_confRev = None, su_refrTm = None,
     su_smpSynch = None, su_smpMod = None, su_smpRate = None, su_dataBufferLength = 0, su_dataBuffer = None\<rparr>"

text \<open>The local variables of \<open>parseASDU\<close>: the ASDU, \<open>svIdLength\<close> and \<open>datSetLength\<close>. The switch:\<close>

type_synonym asdu_locals = "SVSubscriber_ASDU \<times> int \<times> int"

fun asdu_element :: "byte \<Rightarrow> nat \<Rightarrow> int \<Rightarrow> asdu_locals \<Rightarrow> asdu_locals" where
  "asdu_element tag p elementLength (asdu, svIdLength, datSetLength) =
     (if tag = 0x80 then (asdu\<lparr>su_svId := Some p\<rparr>, elementLength, datSetLength)
      else if tag = 0x81 then (asdu\<lparr>su_datSet := Some p\<rparr>, svIdLength, elementLength)
      else if tag = 0x82 then (asdu\<lparr>su_smpCnt := Some p\<rparr>, svIdLength, datSetLength)
      else if tag = 0x83 then (asdu\<lparr>su_confRev := Some p\<rparr>, svIdLength, datSetLength)
      else if tag = 0x84 then (asdu\<lparr>su_refrTm := Some p\<rparr>, svIdLength, datSetLength)
      else if tag = 0x85 then (asdu\<lparr>su_smpSynch := Some p\<rparr>, svIdLength, datSetLength)
      else if tag = 0x86 then (asdu\<lparr>su_smpRate := Some p\<rparr>, svIdLength, datSetLength)
      else if tag = 0x87
      then (asdu\<lparr>su_dataBuffer := Some p, su_dataBufferLength := elementLength\<rparr>, svIdLength, datSetLength)
      else if tag = 0x88 then (asdu\<lparr>su_smpMod := Some p\<rparr>, svIdLength, datSetLength)
      else (asdu, svIdLength, datSetLength))"

declare asdu_element.simps [simp del]

text \<open>\<open>Some None\<close>: the early return on a malformed length.\<close>

function asdu_loop :: "buffer \<Rightarrow> nat \<Rightarrow> int \<Rightarrow> int \<Rightarrow> asdu_locals \<Rightarrow> asdu_locals option option" where
  "asdu_loop mem base bufPos len l =
     (if bufPos < len then do {
        tag \<leftarrow> rd mem (int base + bufPos);
        (bufPos', elementLength) \<leftarrow> BerDecoder_decodeLength (drop base mem) 0 (bufPos + 1) len;
        if bufPos' < 0 then Some None
        else asdu_loop mem base (bufPos' + elementLength) len
          (asdu_element tag (base + nat bufPos') elementLength l) }
      else Some (Some l))"
  by pat_completeness auto
termination
  by (relation "measure (\<lambda>(m, b, p, n, l). nat (n - p))") (auto dest!: decodeLength_progress)

declare asdu_loop.simps [simp del]

text \<open>\<open>name[length] = 0\<close>, when the name is present.\<close>

definition terminate_name :: "nat option \<Rightarrow> int \<Rightarrow> buffer \<Rightarrow> buffer option" where
  "terminate_name name len mem =
     (case name of
        None \<Rightarrow> Some mem
      | Some p \<Rightarrow> if 0 \<le> int p + len \<and> int p + len < int (length mem) then Some (mem[nat (int p + len) := 0]) else None)"

definition parseASDU :: "nat \<times> SVSubscriber \<Rightarrow> buffer \<Rightarrow> nat \<Rightarrow> int \<Rightarrow> (buffer \<times> sv_event list) option" where
  "parseASDU subscriber mem base len = do {
     r \<leftarrow> asdu_loop mem base 0 len (empty_asdu, 0, 0);
     (case r of
        None \<Rightarrow> Some (mem, [])
      | Some (asdu, svIdLength, datSetLength) \<Rightarrow> do {
          mem \<leftarrow> terminate_name (su_svId asdu) svIdLength mem;
          mem \<leftarrow> terminate_name (su_datSet asdu) datSetLength mem;
          Some (mem, if ss_listener (snd subscriber)
            then [\<lparr>ev_subscriber = fst subscriber, ev_mem = mem, ev_asdu = asdu\<rparr>] else []) }) }"

function sequence_loop ::
    "nat \<times> SVSubscriber \<Rightarrow> buffer \<Rightarrow> nat \<Rightarrow> int \<Rightarrow> int \<Rightarrow> (buffer \<times> sv_event list) option" where
  "sequence_loop subscriber mem base bufPos len =
     (if bufPos < len then do {
        tag \<leftarrow> rd mem (int base + bufPos);
        (bufPos', elementLength) \<leftarrow> BerDecoder_decodeLength (drop base mem) 0 (bufPos + 1) len;
        if bufPos' < 0 then Some (mem, [])
        else do {
          (mem, events) \<leftarrow> (if tag = 0x30 then parseASDU subscriber mem (base + nat bufPos') elementLength
                           else Some (mem, []));
          (mem, more) \<leftarrow> sequence_loop subscriber mem base (bufPos' + elementLength) len;
          Some (mem, events @ more) } }
      else Some (mem, []))"
  by pat_completeness auto
termination
  by (relation "measure (\<lambda>(s, m, b, p, n). nat (n - p))") (auto dest!: decodeLength_progress)

declare sequence_loop.simps [simp del]

definition parseSequenceOfASDU ::
    "nat \<times> SVSubscriber \<Rightarrow> buffer \<Rightarrow> nat \<Rightarrow> int \<Rightarrow> (buffer \<times> sv_event list) option" where
  "parseSequenceOfASDU subscriber mem base len = sequence_loop subscriber mem base 0 len"

function payload_loop ::
    "nat \<times> SVSubscriber \<Rightarrow> buffer \<Rightarrow> nat \<Rightarrow> int \<Rightarrow> int \<Rightarrow> (buffer \<times> sv_event list) option" where
  "payload_loop subscriber mem base bufPos svEnd =
     (if bufPos < svEnd then do {
        tag \<leftarrow> rd mem (int base + bufPos);
        (bufPos', elementLength) \<leftarrow> BerDecoder_decodeLength (drop base mem) 0 (bufPos + 1) svEnd;
        if bufPos' < 0 then Some (mem, [])
        else do {
          (mem, events) \<leftarrow> (if tag = 0xa2 then parseSequenceOfASDU subscriber mem (base + nat bufPos') elementLength
                           else Some (mem, []));
          (mem, more) \<leftarrow> payload_loop subscriber mem base (bufPos' + elementLength) svEnd;
          Some (mem, events @ more) } }
      else Some (mem, []))"
  by pat_completeness auto
termination
  by (relation "measure (\<lambda>(s, m, b, p, n). nat (n - p))") (auto dest!: decodeLength_progress)

declare payload_loop.simps [simp del]

definition parseSVPayload ::
    "nat \<times> SVSubscriber \<Rightarrow> buffer \<Rightarrow> nat \<Rightarrow> int \<Rightarrow> (buffer \<times> sv_event list) option" where
  "parseSVPayload subscriber mem base apduLength = do {
     tag \<leftarrow> rd mem (int base);
     if tag = 0x60 then do {
       (bufPos, elementLength) \<leftarrow> BerDecoder_decodeLength (drop base mem) 0 1 apduLength;
       if bufPos < 0 then Some (mem, [])
       else payload_loop subscriber mem base bufPos (bufPos + elementLength) }
     else Some (mem, []) }"

text \<open>The search for the subscriber; \<open>dstAddr\<close> is read only when addresses are compared.\<close>

fun matching_subscriber ::
    "bool \<Rightarrow> buffer \<Rightarrow> uint16 \<Rightarrow> (nat \<times> SVSubscriber) list \<Rightarrow> (nat \<times> SVSubscriber) option option" where
  "matching_subscriber check mem app [] = Some None"
| "matching_subscriber check mem app (s # ss) =
     (if ss_appId (snd s) = app
      then if check then do {
             dst \<leftarrow> rd_bytes mem 0 6;
             if dst = ss_ethAddr (snd s) then Some (Some s) else matching_subscriber check mem app ss }
           else Some (Some s)
      else matching_subscriber check mem app ss)"

definition parseSVMessage :: "SVReceiver \<Rightarrow> int \<Rightarrow> (SVReceiver \<times> sv_event list) option" where
  "parseSVMessage self numbytes =
     (if numbytes < 22 then Some (self, [])
      else do {
        let mem = sr_buffer self;
        b2 \<leftarrow> rd mem 2;
        b3 \<leftarrow> (if b2 = 0x88 then rd mem 3 else Some 0);
        if b2 \<noteq> 0x88 then Some (self, [])
        else if b3 \<noteq> 0xba then Some (self, [])
        else do {
          a1 \<leftarrow> rd mem 4;
          a2 \<leftarrow> rd mem 5;
          let app = (ucast a1 * 0x100 + ucast a2 :: uint16);
          l1 \<leftarrow> rd mem 6;
          l2 \<leftarrow> rd mem 7;
          let len = (ucast l1 * 0x100 + ucast l2 :: uint16);
          let apduLength = uint len - 8;
          subscriber \<leftarrow> matching_subscriber (sr_checkDestAddr self) mem app (sr_subscriberList self);
          (case subscriber of
             Some s \<Rightarrow> do {
               (mem, events) \<leftarrow> parseSVPayload s mem 12 apduLength;
               Some (self\<lparr>sr_buffer := mem\<rparr>, events) }
           | None \<Rightarrow> Some (self, [])) } })"

definition SVReceiver_tick :: "buffer \<Rightarrow> SVReceiver \<Rightarrow> (bool \<times> SVReceiver \<times> sv_event list) option" where
  "SVReceiver_tick packet self = do {
     (packetSize, buffer) \<leftarrow> Ethernet_receivePacket packet (sr_buffer self) 1518;
     let self = self\<lparr>sr_buffer := buffer\<rparr>;
     if 0 < packetSize then do {
       (self, events) \<leftarrow> parseSVMessage self (int packetSize);
       Some (True, self, events) }
     else Some (False, self, []) }"

text \<open>The callback that \<open>SVReceiver_start\<close> registers at the socket: ns-3 calls it when a packet arrived.\<close>

definition receiveCallback :: "buffer \<Rightarrow> SVReceiver \<Rightarrow> (SVReceiver \<times> sv_event list) option" where
  "receiveCallback packet self = do {
     (_, self, events) \<leftarrow> SVReceiver_tick packet self;
     Some (self, events) }"

definition SVReceiver_start ::
    "devices \<Rightarrow> SVReceiver \<Rightarrow> (SVReceiver \<times> (buffer \<Rightarrow> SVReceiver \<Rightarrow> (SVReceiver \<times> sv_event list) option)) option" where
  "SVReceiver_start devices self = do {
     self \<leftarrow> SVReceiver_startThreadless devices self;
     Some (self, receiveCallback) }"

section \<open>The fields of an ASDU\<close>

text \<open>A read through a pointer of the ASDU.\<close>

definition read_at :: "buffer \<Rightarrow> nat option \<Rightarrow> int \<Rightarrow> nat \<Rightarrow> byte list option" where
  "read_at mem ptr index n = do {
     p \<leftarrow> ptr;
     rd_bytes mem (int p + index) (int n) }"

definition SVSubscriber_ASDU_getSmpSynch :: "buffer \<Rightarrow> SVSubscriber_ASDU \<Rightarrow> byte option" where
  "SVSubscriber_ASDU_getSmpSynch mem self = do {
     p \<leftarrow> su_smpSynch self;
     rd mem (int p) }"

definition SVSubscriber_ASDU_getSmpCnt :: "buffer \<Rightarrow> SVSubscriber_ASDU \<Rightarrow> uint16 option" where
  "SVSubscriber_ASDU_getSmpCnt mem self = do {
     p \<leftarrow> su_smpCnt self;
     v0 \<leftarrow> rd mem (int p + 1);
     v1 \<leftarrow> rd mem (int p);
     Some (word_of_object [v0, v1]) }"

text \<open>The sum of the seconds is computed in \<open>int\<close> and stored in 32 bits, the nanoseconds in 64 bits.\<close>

definition decodeUtcTimeToNsTime :: "byte list \<Rightarrow> uint64 \<times> byte" where
  "decodeUtcTimeToNsTime buffer =
     (let timeval32 = (ucast (buffer ! 3) :: uint32);
          timeval32 = timeval32 + ucast (buffer ! 2) * 0x100;
          timeval32 = timeval32 + ucast (buffer ! 1) * 0x10000;
          timeval32 = timeval32 + ucast (buffer ! 0) * 0x1000000;
          fractionOfSecond = (ucast (buffer ! 6) :: uint32);
          fractionOfSecond = fractionOfSecond + ucast (buffer ! 5) * 0x100;
          fractionOfSecond = fractionOfSecond + ucast (buffer ! 4) * 0x10000;
          nsVal = (ucast fractionOfSecond :: uint64);
          nsVal = nsVal * 1000000000;
          nsVal = drop_bit 24 nsVal
      in (ucast timeval32 * 1000000000 + nsVal, buffer ! 7))"

definition SVSubscriber_ASDU_getRefrTmAsNs :: "buffer \<Rightarrow> SVSubscriber_ASDU \<Rightarrow> uint64 option" where
  "SVSubscriber_ASDU_getRefrTmAsNs mem self =
     (if su_refrTm self \<noteq> None then do {
        t \<leftarrow> read_at mem (su_refrTm self) 0 8;
        Some (fst (decodeUtcTimeToNsTime t)) }
      else Some 0)"

definition SVSubscriber_ASDU_getRefrTmAsMs :: "buffer \<Rightarrow> SVSubscriber_ASDU \<Rightarrow> uint64 option" where
  "SVSubscriber_ASDU_getRefrTmAsMs mem self =
     (if su_refrTm self \<noteq> None then do {
        t \<leftarrow> read_at mem (su_refrTm self) 0 8;
        Some (fst (decodeUtcTimeToNsTime t) div 1000000) }
      else Some (0 div 1000000))"

definition SVSubscriber_ASDU_hasRefrTm :: "SVSubscriber_ASDU \<Rightarrow> bool" where
  "SVSubscriber_ASDU_hasRefrTm self \<longleftrightarrow> su_refrTm self \<noteq> None"

definition SVSubscriber_ASDU_hasDatSet :: "SVSubscriber_ASDU \<Rightarrow> bool" where
  "SVSubscriber_ASDU_hasDatSet self \<longleftrightarrow> su_datSet self \<noteq> None"

definition SVSubscriber_ASDU_hasSmpRate :: "SVSubscriber_ASDU \<Rightarrow> bool" where
  "SVSubscriber_ASDU_hasSmpRate self \<longleftrightarrow> su_smpRate self \<noteq> None"

definition SVSubscriber_ASDU_hasSmpMod :: "SVSubscriber_ASDU \<Rightarrow> bool" where
  "SVSubscriber_ASDU_hasSmpMod self \<longleftrightarrow> su_smpMod self \<noteq> None"

text \<open>A pointer that is returned is the octets from its position on.\<close>

definition SVSubscriber_ASDU_getSvId :: "buffer \<Rightarrow> SVSubscriber_ASDU \<Rightarrow> byte list option" where
  "SVSubscriber_ASDU_getSvId mem self = map_option (\<lambda>p. drop p mem) (su_svId self)"

definition SVSubscriber_ASDU_getDatSet :: "buffer \<Rightarrow> SVSubscriber_ASDU \<Rightarrow> byte list option" where
  "SVSubscriber_ASDU_getDatSet mem self = map_option (\<lambda>p. drop p mem) (su_datSet self)"

definition memcpy_reverse :: "byte list \<Rightarrow> byte list \<Rightarrow> nat \<Rightarrow> byte list" where
  "memcpy_reverse to from n = fold (\<lambda>i to. to[n - 1 - i := from ! i]) [0..<n] to"

text \<open>\<open>memcpy_reverse(&retVal, ptr + index, sizeof(retVal))\<close> for a value of \<open>LENGTH('a)\<close> bits.\<close>

definition read_word :: "buffer \<Rightarrow> nat option \<Rightarrow> int \<Rightarrow> 'a::len word option" where
  "read_word mem ptr index = do {
     bs \<leftarrow> read_at mem ptr index (LENGTH('a) div 8);
     Some (word_of_object (memcpy_reverse (replicate (LENGTH('a) div 8) 0) bs (LENGTH('a) div 8))) }"

definition SVSubscriber_ASDU_getConfRev :: "buffer \<Rightarrow> SVSubscriber_ASDU \<Rightarrow> uint32 option" where
  "SVSubscriber_ASDU_getConfRev mem self = read_word mem (su_confRev self) 0"

definition SVSubscriber_ASDU_getSmpMod :: "buffer \<Rightarrow> SVSubscriber_ASDU \<Rightarrow> byte option" where
  "SVSubscriber_ASDU_getSmpMod mem self = do {
     p \<leftarrow> su_smpMod self;
     rd mem (int p) }"

definition SVSubscriber_ASDU_getSmpRate :: "buffer \<Rightarrow> SVSubscriber_ASDU \<Rightarrow> uint16 option" where
  "SVSubscriber_ASDU_getSmpRate mem self = read_word mem (su_smpRate self) 0"

definition SVSubscriber_ASDU_getINT8 :: "buffer \<Rightarrow> SVSubscriber_ASDU \<Rightarrow> int \<Rightarrow> byte option" where
  "SVSubscriber_ASDU_getINT8 mem self index = do {
     p \<leftarrow> su_dataBuffer self;
     rd mem (int p + index) }"

definition SVSubscriber_ASDU_getINT16 :: "buffer \<Rightarrow> SVSubscriber_ASDU \<Rightarrow> int \<Rightarrow> uint16 option" where
  "SVSubscriber_ASDU_getINT16 mem self index = read_word mem (su_dataBuffer self) index"

definition SVSubscriber_ASDU_getINT32 :: "buffer \<Rightarrow> SVSubscriber_ASDU \<Rightarrow> int \<Rightarrow> uint32 option" where
  "SVSubscriber_ASDU_getINT32 mem self index = read_word mem (su_dataBuffer self) index"

definition SVSubscriber_ASDU_getINT64 :: "buffer \<Rightarrow> SVSubscriber_ASDU \<Rightarrow> int \<Rightarrow> uint64 option" where
  "SVSubscriber_ASDU_getINT64 mem self index = read_word mem (su_dataBuffer self) index"

definition SVSubscriber_ASDU_getINT8U :: "buffer \<Rightarrow> SVSubscriber_ASDU \<Rightarrow> int \<Rightarrow> byte option" where
  "SVSubscriber_ASDU_getINT8U mem self index = do {
     p \<leftarrow> su_dataBuffer self;
     rd mem (int p + index) }"

definition SVSubscriber_ASDU_getINT16U :: "buffer \<Rightarrow> SVSubscriber_ASDU \<Rightarrow> int \<Rightarrow> uint16 option" where
  "SVSubscriber_ASDU_getINT16U mem self index = read_word mem (su_dataBuffer self) index"

definition SVSubscriber_ASDU_getINT32U :: "buffer \<Rightarrow> SVSubscriber_ASDU \<Rightarrow> int \<Rightarrow> uint32 option" where
  "SVSubscriber_ASDU_getINT32U mem self index = read_word mem (su_dataBuffer self) index"

definition SVSubscriber_ASDU_getINT64U :: "buffer \<Rightarrow> SVSubscriber_ASDU \<Rightarrow> int \<Rightarrow> uint64 option" where
  "SVSubscriber_ASDU_getINT64U mem self index = read_word mem (su_dataBuffer self) index"

definition SVSubscriber_ASDU_getFLOAT32 :: "buffer \<Rightarrow> SVSubscriber_ASDU \<Rightarrow> int \<Rightarrow> uint32 option" where
  "SVSubscriber_ASDU_getFLOAT32 mem self index = read_word mem (su_dataBuffer self) index"

definition SVSubscriber_ASDU_getFLOAT64 :: "buffer \<Rightarrow> SVSubscriber_ASDU \<Rightarrow> int \<Rightarrow> uint64 option" where
  "SVSubscriber_ASDU_getFLOAT64 mem self index = read_word mem (su_dataBuffer self) index"

definition SVSubscriber_ASDU_getTimestamp :: "buffer \<Rightarrow> SVSubscriber_ASDU \<Rightarrow> int \<Rightarrow> Timestamp option" where
  "SVSubscriber_ASDU_getTimestamp mem self index = do {
     bs \<leftarrow> read_at mem (su_dataBuffer self) index 8;
     Some \<lparr>val = bs\<rparr> }"

definition SVSubscriber_ASDU_getQuality :: "buffer \<Rightarrow> SVSubscriber_ASDU \<Rightarrow> int \<Rightarrow> Quality option" where
  "SVSubscriber_ASDU_getQuality mem self index = do {
     p \<leftarrow> su_dataBuffer self;
     b3 \<leftarrow> rd mem (int p + index + 3);
     let retVal = (ucast b3 :: uint16);
     b2 \<leftarrow> rd mem (int p + index + 2);
     Some (retVal + ucast b2 * 0x100) }"

definition SVSubscriber_ASDU_getDataSize :: "SVSubscriber_ASDU \<Rightarrow> int" where
  "SVSubscriber_ASDU_getDataSize self = su_dataBufferLength self"

end
