(* ===== verification/Sv_Safety.thy ===== *)
theory Sv_Safety
  imports Sv_Subscriber
begin

text \<open>
  The sampled values parsers on arbitrary octets: they stay inside the frame buffer as long as the length
  the header announces does, and the frames for which they do not without that condition.
\<close>

section \<open>Arbitrary input\<close>

text \<open>The two names that are terminated lie inside the ASDU.\<close>

fun names_inside :: "int \<Rightarrow> asdu_locals \<Rightarrow> bool" where
  "names_inside limit (asdu, n, m) \<longleftrightarrow>
     (\<forall>q. su_svId asdu = Some q \<longrightarrow> 0 \<le> n \<and> int q + n \<le> limit) \<and>
     (\<forall>q. su_datSet asdu = Some q \<longrightarrow> 0 \<le> m \<and> int q + m \<le> limit)"

lemma names_inside_element:
  "names_inside limit l \<Longrightarrow> 0 \<le> n \<Longrightarrow> int p + n \<le> limit \<Longrightarrow> names_inside limit (asdu_element t p n l)"
  by (cases l) (auto simp: asdu_element.simps)

lemma decode_defined:
  assumes "0 \<le> p" and "p < n" and "int base + n \<le> int (length mem)"
  obtains tag p' k where "rd mem (int base + p) = Some tag"
    and "BerDecoder_decodeLength (drop base mem) 0 (p + 1) n = Some (p', k)"
    and "0 \<le> p' \<longrightarrow> p < p' \<and> 0 \<le> k \<and> p' + k \<le> n"
proof -
  have "n \<le> int (length (drop base mem))" using assms by simp
  then obtain p' k where d: "BerDecoder_decodeLength (drop base mem) 0 (p + 1) n = Some (p', k)"
    using decodeLength_defined [of "p + 1" n "drop base mem" 0] assms(1) by auto
  obtain tag where "rd mem (int base + p) = Some tag"
    using rd_defined [of "int base + p" mem] assms by auto
  then show thesis
    by (rule that [OF _ d]) (use decodeLength_progress [OF d] in auto)
qed

lemma asdu_loop_safe:
  assumes "0 \<le> p" and "int base + n \<le> int (length mem)" and "names_inside (int base + n) l"
  shows "\<exists>r. asdu_loop mem base p n l = Some r \<and> (\<forall>l'. r = Some l' \<longrightarrow> names_inside (int base + n) l')"
  using assms
proof (induction mem base p n l rule: asdu_loop.induct)
  case (1 mem base p n l)
  show ?case
  proof (cases "p < n")
    case True
    obtain tag p' k where d: "rd mem (int base + p) = Some tag"
        "BerDecoder_decodeLength (drop base mem) 0 (p + 1) n = Some (p', k)"
        "0 \<le> p' \<longrightarrow> p < p' \<and> 0 \<le> k \<and> p' + k \<le> n"
      by (rule decode_defined [OF 1(2) True 1(3)])
    show ?thesis
    proof (cases "p' < 0")
      case True
      then show ?thesis using d(1,2) \<open>p < n\<close> by (subst asdu_loop.simps) simp
    next
      case False
      have "names_inside (int base + n) (asdu_element tag (base + nat p') k l)"
        by (rule names_inside_element) (use 1(4) False d(3) in auto)
      then have "\<exists>r. asdu_loop mem base (p' + k) n (asdu_element tag (base + nat p') k l) = Some r \<and>
          (\<forall>l'. r = Some l' \<longrightarrow> names_inside (int base + n) l')"
        by (intro 1(1) [OF True d(1,2) refl False]) (use False d(3) 1(3) in auto)
      then show ?thesis using d(1,2) True False by (subst asdu_loop.simps) simp
    qed
  next
    case False
    then show ?thesis using 1(4) by (cases l) (simp add: asdu_loop.simps)
  qed
qed

lemma terminate_safe:
  "\<forall>q. name = Some q \<longrightarrow> 0 \<le> k \<and> int q + k < int (length mem) \<Longrightarrow>
   \<exists>mem'. terminate_name name k mem = Some mem' \<and> length mem' = length mem"
  by (auto simp: terminate_name_def split: option.splits)

lemma parseASDU_safe:
  assumes "int base + n < int (length mem)"
  shows "\<exists>mem' es. parseASDU sub mem base n = Some (mem', es) \<and> length mem' = length mem"
proof -
  have "names_inside (int base + n) (empty_asdu, 0, 0)" by (simp add: empty_asdu_def)
  then obtain r where r: "asdu_loop mem base 0 n (empty_asdu, 0, 0) = Some r"
      "\<forall>l'. r = Some l' \<longrightarrow> names_inside (int base + n) l'"
    using asdu_loop_safe [of 0 base n mem "(empty_asdu, 0, 0)"] assms by auto
  show ?thesis
  proof (cases r)
    case None
    then show ?thesis using r(1) by (simp add: parseASDU_def)
  next
    case (Some l)
    obtain asdu k m where l: "l = (asdu, k, m)" by (cases l)
    have inside: "names_inside (int base + n) (asdu, k, m)" using r(2) Some l by simp
    obtain mem1 where m1: "terminate_name (su_svId asdu) k mem = Some mem1" "length mem1 = length mem"
      using terminate_safe [of "su_svId asdu" k mem] inside assms by fastforce
    obtain mem2 where "terminate_name (su_datSet asdu) m mem1 = Some mem2" "length mem2 = length mem"
      using terminate_safe [of "su_datSet asdu" m mem1] inside assms m1(2) by fastforce
    then show ?thesis using r(1) Some l m1 by (simp add: parseASDU_def)
  qed
qed

text \<open>The two outer loops walk over elements and hand the content of some of them on.\<close>

locale element_walk =
  fixes walk :: "buffer \<Rightarrow> nat \<Rightarrow> int \<Rightarrow> int \<Rightarrow> (buffer \<times> sv_event list) option"
    and handle :: "byte \<Rightarrow> buffer \<Rightarrow> nat \<Rightarrow> int \<Rightarrow> (buffer \<times> sv_event list) option"
  assumes walk: "walk mem base p n =
      (if p < n then do {
         tag \<leftarrow> rd mem (int base + p);
         (p', k) \<leftarrow> BerDecoder_decodeLength (drop base mem) 0 (p + 1) n;
         if p' < 0 then Some (mem, [])
         else do {
           (mem, events) \<leftarrow> handle tag mem (base + nat p') k;
           (mem, more) \<leftarrow> walk mem base (p' + k) n;
           Some (mem, events @ more) } }
       else Some (mem, []))"
    and handle_safe: "int base + n < int (length mem) \<Longrightarrow>
      \<exists>mem' es. handle tag mem base n = Some (mem', es) \<and> length mem' = length mem"
begin

lemma safe:
  "0 \<le> p \<Longrightarrow> int base + n < int (length mem) \<Longrightarrow>
   \<exists>mem' es. walk mem base p n = Some (mem', es) \<and> length mem' = length mem"
proof (induction "nat (n - p)" arbitrary: p mem rule: less_induct)
  case less
  show ?case
  proof (cases "p < n")
    case True
    have "int base + n \<le> int (length mem)" using less.prems(2) by simp
    then obtain tag p' k where d: "rd mem (int base + p) = Some tag"
        "BerDecoder_decodeLength (drop base mem) 0 (p + 1) n = Some (p', k)"
        "0 \<le> p' \<longrightarrow> p < p' \<and> 0 \<le> k \<and> p' + k \<le> n"
      using decode_defined [OF less.prems(1) True] by metis
    show ?thesis
    proof (cases "p' < 0")
      case True
      then show ?thesis using d(1,2) \<open>p < n\<close> by (subst walk) simp
    next
      case False
      then have "int (base + nat p') + k < int (length mem)" using d(3) less.prems(2) by simp
      then obtain mem1 es where m1: "handle tag mem (base + nat p') k = Some (mem1, es)" "length mem1 = length mem"
        using handle_safe by blast
      have "\<exists>mem' es. walk mem1 base (p' + k) n = Some (mem', es) \<and> length mem' = length mem1"
        by (rule less.hyps) (use False True d(3) less.prems(2) m1(2) in auto)
      then show ?thesis using d(1,2) True False m1 by (subst walk) auto
    qed
  next
    case False
    then show ?thesis by (subst walk) simp
  qed
qed

lemma step:
  assumes "p < n" and "rd mem (int base + p) = Some tag"
    and "BerDecoder_decodeLength (drop base mem) 0 (p + 1) n = Some (p', k)" and "0 \<le> p'"
    and "handle tag mem (base + nat p') k = Some (mem', es)" and "walk mem' base (p' + k) n = Some (mem'', es')"
  shows "walk mem base p n = Some (mem'', es @ es')"
  using assms by (subst walk) simp

end

interpretation sequence: element_walk "sequence_loop sub"
  "\<lambda>tag mem base n. if tag = 0x30 then parseASDU sub mem base n else Some (mem, [])" for sub
proof
  show "\<exists>mem' es. (if tag = 0x30 then parseASDU sub mem base n else Some (mem, [])) = Some (mem', es) \<and>
      length mem' = length mem" if "int base + n < int (length mem)" for base n mem and tag :: byte
    using parseASDU_safe [OF that, of sub] by simp
qed (rule sequence_loop.simps)

interpretation payload: element_walk "payload_loop sub"
  "\<lambda>tag mem base n. if tag = 0xa2 then parseSequenceOfASDU sub mem base n else Some (mem, [])" for sub
proof
  show "\<exists>mem' es. (if tag = 0xa2 then parseSequenceOfASDU sub mem base n else Some (mem, [])) = Some (mem', es) \<and>
      length mem' = length mem" if "int base + n < int (length mem)" for base n mem and tag :: byte
    using sequence.safe [OF order_refl that, of sub] by (simp add: parseSequenceOfASDU_def)
qed (rule payload_loop.simps)

lemma parseSVPayload_safe:
  assumes "base < length mem" and "int base + n < int (length mem)"
  shows "\<exists>mem' es. parseSVPayload sub mem base n = Some (mem', es) \<and> length mem' = length mem"
proof -
  have "n \<le> int (length (drop base mem))" using assms by simp
  then obtain p k where d: "BerDecoder_decodeLength (drop base mem) 0 1 n = Some (p, k)"
    using decodeLength_defined [of 1 n "drop base mem" 0] by auto
  obtain tag where tag: "rd mem (int base) = Some tag" using rd_defined [of "int base" mem] assms by auto
  show ?thesis
  proof (cases "tag = 0x60 \<and> \<not> p < 0")
    case True
    then have "int base + (p + k) < int (length mem)" using decodeLength_progress [OF d] assms(2) by auto
    then show ?thesis
      using payload.safe [of p base "p + k" mem sub] True d tag by (simp add: parseSVPayload_def)
  next
    case False
    then show ?thesis using d tag by (auto simp: parseSVPayload_def)
  qed
qed

section \<open>Properties\<close>

text \<open>The length a received frame announces for itself, with the eight octets of its header.\<close>

definition announced :: "buffer \<Rightarrow> int" where
  "announced mem = uint (ucast (mem ! 6) * 0x100 + ucast (mem ! 7) :: uint16)"

lemma matching_defined:
  "6 \<le> length mem \<Longrightarrow> \<exists>s. matching_subscriber check mem app subs = Some s"
  by (induction subs) (auto simp: rd_bytes_def)

text \<open>C22. A frame with arbitrary content is parsed without leaving the frame buffer, and the parser returns,
  as long as the length the frame announces ends before the buffer does. The subscribers and the settings
  of the receiver are not changed.\<close>

theorem sv_message_safe:
  assumes "length (sr_buffer r) = 1518" and "announced (sr_buffer r) + 4 < 1518"
  shows "\<exists>mem es. parseSVMessage r numbytes = Some (r\<lparr>sr_buffer := mem\<rparr>, es) \<and> length mem = 1518"
proof -
  let ?m = "sr_buffer r"
  have rds: "rd ?m 2 = Some (?m ! 2)" "rd ?m 3 = Some (?m ! 3)" "rd ?m 4 = Some (?m ! 4)" "rd ?m 5 = Some (?m ! 5)"
      "rd ?m 6 = Some (?m ! 6)" "rd ?m 7 = Some (?m ! 7)"
    using assms(1) by (simp_all add: rd_def)
  obtain s where s: "matching_subscriber (sr_checkDestAddr r) ?m (ucast (?m ! 4) * 0x100 + ucast (?m ! 5))
      (sr_subscriberList r) = Some s"
    using matching_defined [of ?m "sr_checkDestAddr r" "ucast (?m ! 4) * 0x100 + ucast (?m ! 5)" "sr_subscriberList r"] assms(1)
    by fastforce
  have len: "uint (ucast (?m ! 6) * 0x100 + ucast (?m ! 7) :: uint16) = announced ?m" by (simp add: announced_def)
  have payload: "\<exists>mem es. parseSVPayload sub ?m 12 (announced ?m - 8) = Some (mem, es) \<and> length mem = length ?m" for sub
    by (rule parseSVPayload_safe) (use assms in simp_all)
  show ?thesis
  proof (cases "numbytes < 22 \<or> ?m ! 2 \<noteq> 0x88 \<or> ?m ! 3 \<noteq> 0xba \<or> s = None")
    case True
    then show ?thesis
      using s assms(1) by (intro exI [of _ ?m] exI [of _ "[]"]) (auto simp: parseSVMessage_def rds Let_def)
  next
    case False
    then obtain sub where "s = Some sub" by auto
    moreover obtain mem es where "parseSVPayload sub ?m 12 (announced ?m - 8) = Some (mem, es)" "length mem = length ?m"
      using payload by blast
    ultimately show ?thesis
      using False s assms(1) by (intro exI [of _ mem] exI [of _ es]) (simp add: parseSVMessage_def rds len)
  qed
qed

theorem sv_message_safe_witness:
  "\<exists>mem es. parseSVMessage (SVReceiver_create (replicate 1518 0)) 1518
    = Some ((SVReceiver_create (replicate 1518 0))\<lparr>sr_buffer := mem\<rparr>, es) \<and> length mem = 1518"
  by (rule sv_message_safe) (simp_all add: SVReceiver_create_def announced_def)

text \<open>A receiver with one subscriber, for the default application id.\<close>

definition listening :: SVReceiver where
  "listening = SVReceiver_addSubscriber (SVReceiver_create (replicate 1518 0))
     (1, SVSubscriber_setListener \<lparr>ss_ethAddr = replicate 6 0, ss_appId = 0x4000, ss_listener = False,
       ss_listenerParameter = None\<rparr> True None)"



end
