(* ===== verification/Sv_Link.thy ===== *)
theory Sv_Link
  imports Sv_Update Sv_Safety
begin

text \<open>
  From the sampled values publisher to the listener of a subscriber: the parsers of the receiver on the
  octets of the abstract ASDUs, the getters of a received ASDU, and the whole path of a packet.
\<close>

section \<open>The loop over the fields of an ASDU\<close>

fun run_asdu :: "nat \<Rightarrow> (byte \<times> byte list) list \<Rightarrow> asdu_locals \<Rightarrow> asdu_locals" where
  "run_asdu p [] l = l"
| "run_asdu p ((t, c) # ts) l =
     run_asdu (p + length (octet_bytes t c)) ts
       (asdu_element t (p + length (octet_bytes t c) - length c) (int (length c)) l)"

lemma element_decode:
  assumes mem: "mem = pre @ octet_bytes t c @ rest" and base: "base \<le> length pre"
    and len: "length c < 65535" and n: "int (length pre + length (octet_bytes t c)) - int base \<le> n" "n < 2 ^ 23"
  obtains p' where "rd mem (int base + (int (length pre) - int base)) = Some t"
    and "BerDecoder_decodeLength (drop base mem) 0 (int (length pre) - int base + 1) n = Some (p', int (length c))"
    and "0 \<le> p'" and "base + nat p' = length pre + length (octet_bytes t c) - length c"
    and "p' + int (length c) = int (length (pre @ octet_bytes t c)) - int base"
proof -
  have b: "drop base mem = drop base pre @ octet_bytes t c @ rest" using mem base by simp
  have p: "int (length pre) - int base = int (length (drop base pre))" using base by simp
  obtain pre' where d: "drop base mem = pre' @ c @ rest"
      "BerDecoder_decodeLength (drop base mem) 0 (int (length pre) - int base + 1) n
        = Some (int (length pre'), int (length c))"
      "int (length pre') + int (length c) = int (length pre) - int base + int (length (octet_bytes t c))"
    using tlv_decode [OF b p len _ n(2), where l = 0] n(1) by auto
  have "rd mem (int (length pre)) = Some t" by (simp add: mem octet_bytes_def)
  moreover have "length c \<le> length (octet_bytes t c)" by (simp add: octet_bytes_def)
  ultimately show thesis
    using that [of "int (length pre')"] d(2,3) base by (auto simp: nat_diff_distrib)
qed

lemma asdu_loop_run:
  assumes "\<forall>(t, c) \<in> set ts. length c < 65535" and "mem = pre @ tlvs ts @ rest" and "base \<le> length pre"
    and "p = int (length pre) - int base" and "n = p + int (length (tlvs ts))" and "n < 2 ^ 23"
  shows "asdu_loop mem base p n l = Some (Some (run_asdu (length pre) ts l))"
  using assms
proof (induction ts arbitrary: pre p l)
  case Nil
  then show ?case by (simp add: asdu_loop.simps)
next
  case (Cons tc ts)
  obtain t c where tc: "tc = (t, c)" by (cases tc)
  have mem: "mem = pre @ octet_bytes t c @ (tlvs ts @ rest)" using Cons.prems(2) by (simp add: tc)
  have c: "length c < 65535" using Cons.prems(1) by (simp add: tc)
  have n: "int (length pre + length (octet_bytes t c)) - int base \<le> n" using Cons.prems(4,5) by (simp add: tc)
  obtain p' where d: "rd mem (int base + p) = Some t"
      "BerDecoder_decodeLength (drop base mem) 0 (p + 1) n = Some (p', int (length c))"
      "0 \<le> p'" "base + nat p' = length pre + length (octet_bytes t c) - length c"
      "p' + int (length c) = int (length (pre @ octet_bytes t c)) - int base"
    using element_decode [OF mem Cons.prems(3) c n Cons.prems(6)] Cons.prems(4) by auto
  have "p < n" using Cons.prems(5) by (simp add: tc octet_bytes_def)
  moreover have "asdu_loop mem base (p' + int (length c)) n l' = Some (Some (run_asdu (length (pre @ octet_bytes t c)) ts l'))"
    for l'
    by (rule Cons.IH) (use Cons.prems d(5) mem in \<open>auto simp: tc\<close>)
  ultimately show ?case
    using d by (subst asdu_loop.simps) (simp add: tc)
qed

text \<open>Each pointer of the ASDU belongs to a tag.\<close>

locale asdu_pointer =
  fixes get :: "SVSubscriber_ASDU \<Rightarrow> nat option" and tag :: byte
  assumes element: "get (fst (asdu_element t p n l)) = (if t = tag then Some p else get (fst l))"
    and empty: "get empty_asdu = None"
begin

lemma run: "distinct (map fst ts) \<Longrightarrow>
  get (fst (run_asdu p ts l)) = (case map_of (tlv_positions p ts) tag of None \<Rightarrow> get (fst l) | Some q \<Rightarrow> Some q)"
  by (induction p ts l rule: run_asdu.induct) (auto simp: element tlv_positions_None map_of_eq_None_iff cong: option.case_cong)

lemma run_empty: "get (fst (run_asdu p (sv_tlvs v) (empty_asdu, m, n))) = map_of (tlv_positions p (sv_tlvs v)) tag"
  by (simp add: run empty split: option.splits)

end

interpretation svId: asdu_pointer su_svId "0x80"
  by unfold_locales (auto simp: asdu_element.simps empty_asdu_def split: prod.splits)
interpretation datSet: asdu_pointer su_datSet "0x81"
  by unfold_locales (auto simp: asdu_element.simps empty_asdu_def split: prod.splits)
interpretation smpCnt: asdu_pointer su_smpCnt "0x82"
  by unfold_locales (auto simp: asdu_element.simps empty_asdu_def split: prod.splits)
interpretation confRev: asdu_pointer su_confRev "0x83"
  by unfold_locales (auto simp: asdu_element.simps empty_asdu_def split: prod.splits)
interpretation refrTm: asdu_pointer su_refrTm "0x84"
  by unfold_locales (auto simp: asdu_element.simps empty_asdu_def split: prod.splits)
interpretation smpSynch: asdu_pointer su_smpSynch "0x85"
  by unfold_locales (auto simp: asdu_element.simps empty_asdu_def split: prod.splits)
interpretation smpRate: asdu_pointer su_smpRate "0x86"
  by unfold_locales (auto simp: asdu_element.simps empty_asdu_def split: prod.splits)
interpretation dataBuffer: asdu_pointer su_dataBuffer "0x87"
  by unfold_locales (auto simp: asdu_element.simps empty_asdu_def split: prod.splits)
interpretation smpMod: asdu_pointer su_smpMod "0x88"
  by unfold_locales (auto simp: asdu_element.simps empty_asdu_def split: prod.splits)

lemmas run_pointers = svId.run_empty datSet.run_empty smpCnt.run_empty confRev.run_empty refrTm.run_empty
  smpSynch.run_empty smpRate.run_empty dataBuffer.run_empty smpMod.run_empty

text \<open>The lengths that are kept: of the data and of the two names.\<close>

lemma element_lengths:
  "su_dataBufferLength (fst (asdu_element t p n l)) = (if t = 0x87 then n else su_dataBufferLength (fst l))"
  "fst (snd (asdu_element t p n l)) = (if t = 0x80 then n else fst (snd l))"
  "snd (snd (asdu_element t p n l)) = (if t = 0x81 then n else snd (snd l))"
  by (cases l; simp add: asdu_element.simps)+

lemma run_lengths:
  assumes "distinct (map fst ts)"
  shows "su_dataBufferLength (fst (run_asdu p ts l))
      = (case map_of ts 0x87 of None \<Rightarrow> su_dataBufferLength (fst l) | Some c \<Rightarrow> int (length c))"
    and "fst (snd (run_asdu p ts l)) = (case map_of ts 0x80 of None \<Rightarrow> fst (snd l) | Some c \<Rightarrow> int (length c))"
    and "snd (snd (run_asdu p ts l)) = (case map_of ts 0x81 of None \<Rightarrow> snd (snd l) | Some c \<Rightarrow> int (length c))"
  using assms
  by (induction p ts l rule: run_asdu.induct)
    (auto simp: element_lengths map_of_eq_None_iff [THEN iffD2] cong: option.case_cong)

section \<open>The ASDU at the call of the listener\<close>

text \<open>The terminating zero of a name overwrites the tag of the element that follows it.\<close>

definition marked_tlvs :: "sv_asdu \<Rightarrow> (byte \<times> byte list) list" where
  "marked_tlvs v =
     [(0x80, v_svID v)] @ opt_tlv 0 (v_datset v)
     @ [(0, be_bytes (v_smpCnt v)), (0x83, be_bytes (v_confRev v))]
     @ opt_tlv 0x84 (v_refrTm v) @ [(0x85, [v_smpSynch v])]
     @ opt_tlv 0x86 (map_option be_bytes (v_smpRate v)) @ [(0x87, v_data v)]
     @ opt_tlv 0x88 (map_option (\<lambda>m. [0, m]) (v_smpMod v))"

lemma marked_contents: "map snd (marked_tlvs v) = map snd (sv_tlvs v)"
  by (cases "v_datset v"; cases "v_refrTm v"; cases "v_smpRate v"; cases "v_smpMod v")
    (simp_all add: marked_tlvs_def sv_tlvs_def)

lemma length_octet_bytes_tag: "length (octet_bytes t c) = length (octet_bytes t' c)"
  by (simp add: octet_bytes_def)

lemma length_tlvs_retagged: "map snd ts' = map snd ts \<Longrightarrow> length (tlvs ts') = length (tlvs ts)"
proof -
  have "length (tlvs xs) = sum_list (map (\<lambda>c. length (octet_bytes 0 c)) (map snd xs))" for xs
    by (induction xs) (auto simp: octet_bytes_def)
  then show "map snd ts' = map snd ts \<Longrightarrow> ?thesis" by metis
qed

lemma tlv_read_retagged:
  assumes "map_of ts t = Some c" and "distinct (map fst ts)" and "map snd ts' = map snd ts"
  obtains q where "map_of (tlv_positions (length pre) ts) t = Some q"
    and "q + length c \<le> length (pre @ tlvs ts')"
    and "\<forall>rest. drop q (pre @ tlvs ts' @ rest) = c @ drop (q + length c) (pre @ tlvs ts' @ rest)"
  using assms
proof (induction ts arbitrary: ts' pre thesis)
  case Nil
  then show ?case by simp
next
  case (Cons tc ts)
  obtain t1 c1 where tc: "tc = (t1, c1)" by (cases tc)
  then obtain t2 ts'' where ts': "ts' = (t2, c1) # ts''" and ts'': "map snd ts'' = map snd ts"
    using Cons.prems(4) by (cases ts') auto
  show ?case
  proof (cases "t1 = t")
    case True
    then have c1: "c1 = c" using Cons.prems(2) by (simp add: tc)
    let ?h = "t2 # length_bytes (of_nat (length c))"
    show ?thesis
      by (rule Cons.prems(1) [of "length (pre @ ?h)"]) (use True c1 in \<open>simp_all add: tc ts' octet_bytes_def\<close>)
  next
    case False
    then have t: "map_of ts t = Some c" "distinct (map fst ts)" using Cons.prems by (auto simp: tc)
    let ?o = "octet_bytes t2 c1"
    obtain q where "map_of (tlv_positions (length (pre @ ?o)) ts) t = Some q"
        "q + length c \<le> length ((pre @ ?o) @ tlvs ts'')"
        "\<forall>rest. drop q ((pre @ ?o) @ tlvs ts'' @ rest) = c @ drop (q + length c) ((pre @ ?o) @ tlvs ts'' @ rest)"
      using Cons.IH [OF _ t ts'', of "pre @ ?o"] by blast
    then show ?thesis
      using False length_octet_bytes_tag [of t2 c1 t1]
      by (intro Cons.prems(1) [of q]) (simp_all add: tc ts' add.assoc)
  qed
qed

lemma update_tag: "(A @ octet_bytes t c @ B)[length A := 0] = A @ octet_bytes 0 c @ B"
  by (simp add: octet_bytes_def)

lemma name_positions:
  "map_of (tlv_positions q (sv_tlvs v)) 0x80 = Some (q + length (octet_bytes 0x80 (v_svID v)) - length (v_svID v))"
  "map_of (tlv_positions q (sv_tlvs v)) 0x81
     = map_option (\<lambda>d. q + length (octet_bytes 0x80 (v_svID v)) + length (octet_bytes 0x81 d) - length d) (v_datset v)"
proof -
  show "map_of (tlv_positions q (sv_tlvs v)) 0x80 = Some (q + length (octet_bytes 0x80 (v_svID v)) - length (v_svID v))"
    by (simp add: sv_tlvs_def)
  show "map_of (tlv_positions q (sv_tlvs v)) 0x81
     = map_option (\<lambda>d. q + length (octet_bytes 0x80 (v_svID v)) + length (octet_bytes 0x81 d) - length d) (v_datset v)"
    by (cases "v_datset v")
      (simp_all add: sv_tlvs_def tlv_positions_append map_add_def map_of_opt_positions)
qed

lemma terminate_names:
  assumes "su_svId asdu = map_of (tlv_positions (length pre) (sv_tlvs v)) 0x80"
    and "su_datSet asdu = map_of (tlv_positions (length pre) (sv_tlvs v)) 0x81"
    and "n = int (length (v_svID v))" and "m = (case v_datset v of None \<Rightarrow> 0 | Some d \<Rightarrow> int (length d))"
  shows "(do { mem \<leftarrow> terminate_name (su_svId asdu) n (pre @ asdu_content v @ rest);
      terminate_name (su_datSet asdu) m mem }) = Some (pre @ tlvs (marked_tlvs v) @ rest)"
proof -
  let ?i = "octet_bytes 0x80 (v_svID v)"
  have le: "length (v_svID v) \<le> length ?i" by (simp add: octet_bytes_def)
  define Y where "Y = octet_bytes 0x83 (be_bytes (v_confRev v)) @ tlvs (opt_tlv 0x84 (v_refrTm v))
    @ octet_bytes 0x85 [v_smpSynch v] @ tlvs (opt_tlv 0x86 (map_option be_bytes (v_smpRate v)))
    @ octet_bytes 0x87 (v_data v) @ tlvs (opt_tlv 0x88 (map_option (\<lambda>m. [0, m]) (v_smpMod v))) @ rest"
  let ?c = "be_bytes (v_smpCnt v)"
  have first: "terminate_name (su_svId asdu) n ((pre @ ?i) @ octet_bytes t c @ Z)
      = Some ((pre @ ?i) @ octet_bytes 0 c @ Z)" for t c Z
    using update_tag [of "pre @ ?i" t c Z] le assms(1,3)
    by (simp add: terminate_name_def name_positions octet_bytes_def [of t] nat_diff_distrib nat_add_distrib)
  show ?thesis
  proof (cases "v_datset v")
    case None
    have "pre @ asdu_content v @ rest = (pre @ ?i) @ octet_bytes 0x82 ?c @ Y"
      by (simp add: asdu_content_def sv_tlvs_def None Y_def)
    moreover have "pre @ tlvs (marked_tlvs v) @ rest = (pre @ ?i) @ octet_bytes 0 ?c @ Y"
      by (simp add: marked_tlvs_def None Y_def)
    moreover have "su_datSet asdu = None" using assms(2) by (simp add: name_positions None)
    ultimately show ?thesis using first by (simp add: terminate_name_def [of None])
  next
    case (Some d)
    let ?d = "octet_bytes 0 d"
    have le': "length d \<le> length ?d" by (simp add: octet_bytes_def)
    have a: "pre @ asdu_content v @ rest = (pre @ ?i) @ octet_bytes 0x81 d @ octet_bytes 0x82 ?c @ Y"
      by (simp add: asdu_content_def sv_tlvs_def Some Y_def)
    have b: "pre @ tlvs (marked_tlvs v) @ rest = (pre @ ?i @ ?d) @ octet_bytes 0 ?c @ Y"
      by (simp add: marked_tlvs_def Some Y_def)
    have p: "su_datSet asdu = Some (length (pre @ ?i) + length ?d - length d)"
      using assms(2) length_octet_bytes_tag [of "0x81" d 0] by (simp add: name_positions Some add.assoc)
    have "terminate_name (su_datSet asdu) m ((pre @ ?i @ ?d) @ octet_bytes 0x82 ?c @ Y)
        = Some ((pre @ ?i @ ?d) @ octet_bytes 0 ?c @ Y)"
      using update_tag [of "pre @ ?i @ ?d" "0x82" ?c Y] le' assms(4)
      by (simp add: terminate_name_def p Some octet_bytes_def [of "0x82"] nat_diff_distrib nat_add_distrib
          add.assoc)
    then show ?thesis unfolding a b first by simp
  qed
qed

lemma read_field:
  assumes "map_of (sv_tlvs v) t = Some c"
  obtains q where "map_of (tlv_positions (length pre) (sv_tlvs v)) t = Some q"
    and "\<forall>i n. i + n \<le> length c \<longrightarrow>
      rd_bytes (pre @ tlvs (marked_tlvs v) @ rest) (int q + int i) (int n) = Some (take n (drop i c))"
    and "\<forall>i. i < length c \<longrightarrow> rd (pre @ tlvs (marked_tlvs v) @ rest) (int q + int i) = Some (c ! i)"
proof -
  let ?m = "pre @ tlvs (marked_tlvs v) @ rest"
  obtain q where q: "map_of (tlv_positions (length pre) (sv_tlvs v)) t = Some q"
      "q + length c \<le> length (pre @ tlvs (marked_tlvs v))"
      "\<forall>rest. drop q (pre @ tlvs (marked_tlvs v) @ rest) = c @ drop (q + length c) (pre @ tlvs (marked_tlvs v) @ rest)"
    by (rule tlv_read_retagged [OF assms distinct_sv_tlvs marked_contents])
  define w where "w = drop (q + length c) ?m"
  have le: "q + length c \<le> length ?m" using q(2) by simp
  have d: "drop q ?m = c @ w" using q(3) by (simp add: w_def)
  define T where "T = take q ?m"
  have m: "?m = T @ c @ w" unfolding T_def using d by (metis append_take_drop_id)
  have lq: "length T = q" using le by (simp add: T_def)
  show thesis
  proof (rule that [OF q(1)]; intro allI impI)
    fix i n assume "i + n \<le> length c"
    then have "rd_bytes (T @ c @ w) (int (length T) + int i) (int n) = Some (take n (drop i c))"
      by (subst rd_bytes_shift) (simp_all add: rd_bytes_def)
    then show "rd_bytes ?m (int q + int i) (int n) = Some (take n (drop i c))" by (simp only: m lq)
  next
    fix i assume "i < length c"
    then have "rd (T @ c @ w) (int (length T) + int i) = Some (c ! i)"
      by (subst rd_shift) (simp_all add: rd_def nth_append)
    then show "rd ?m (int q + int i) = Some (c ! i)" by (simp only: m lq)
  qed
qed

text \<open>The names are terminated: the octet after each of them is the zero that was written.\<close>

lemma read_names:
  defines "mem pre v rest \<equiv> pre @ tlvs (marked_tlvs v) @ rest"
  shows "\<exists>q w. map_of (tlv_positions (length pre) (sv_tlvs v)) 0x80 = Some q \<and> drop q (mem pre v rest) = v_svID v @ 0 # w"
    and "v_datset v = Some d \<Longrightarrow>
      \<exists>q w. map_of (tlv_positions (length pre) (sv_tlvs v)) 0x81 = Some q \<and> drop q (mem pre v rest) = d @ 0 # w"
proof -
  let ?h = "0x80 # length_bytes (of_nat (length (v_svID v)))"
  obtain Y where Y: "tlvs (marked_tlvs v) = ?h @ v_svID v @ 0 # Y"
    by (cases "v_datset v") (simp_all add: marked_tlvs_def octet_bytes_def)
  show "\<exists>q w. map_of (tlv_positions (length pre) (sv_tlvs v)) 0x80 = Some q \<and> drop q (mem pre v rest) = v_svID v @ 0 # w"
    by (intro exI [of _ "length (pre @ ?h)"] exI [of _ "Y @ rest"])
      (simp add: name_positions content_offset mem_def Y)
  assume d: "v_datset v = Some d"
  let ?g = "octet_bytes 0x80 (v_svID v) @ 0 # length_bytes (of_nat (length d))"
  obtain Z where Z: "tlvs (marked_tlvs v) = ?g @ d @ 0 # Z"
    by (simp add: marked_tlvs_def d octet_bytes_def)
  show "\<exists>q w. map_of (tlv_positions (length pre) (sv_tlvs v)) 0x81 = Some q \<and> drop q (mem pre v rest) = d @ 0 # w"
    by (intro exI [of _ "length (pre @ ?g)"] exI [of _ "Z @ rest"])
      (simp add: name_positions d octet_bytes_def [of "0x81"] mem_def Z)
qed

text \<open>The getters read what the setters of the publisher wrote.\<close>

lemma memcpy_reverse_fold:
  assumes "length xs = n" and "length to = n" and "k \<le> n"
  shows "fold (\<lambda>i to. to[n - 1 - i := xs ! i]) [0..<k] to = take (n - k) to @ rev (take k xs)"
  using assms(3)
proof (induction k)
  case 0
  then show ?case using assms by simp
next
  case (Suc k)
  then have k: "k < n" "n - 1 - k = n - Suc k" "n - k = Suc (n - Suc k)" by auto
  have "take (n - k) to = take (n - Suc k) to @ [to ! (n - Suc k)]"
    unfolding k(3) using assms(2) k(1) by (intro take_Suc_conv_app_nth) simp
  moreover have "rev (take (Suc k) xs) = xs ! k # rev (take k xs)"
    using assms(1) k(1) by (simp add: take_Suc_conv_app_nth)
  moreover have "length (take (n - Suc k) to) = n - Suc k" using assms(2) by simp
  ultimately show ?case using Suc by (simp add: k(2) list_update_append)
qed

lemma memcpy_reverse_rev: "length bs = n \<Longrightarrow> memcpy_reverse (replicate n 0) bs n = rev bs"
  using memcpy_reverse_fold [of bs n "replicate n 0" n] by (simp add: memcpy_reverse_def)

lemma read_word_be:
  fixes w :: "'a::len word"
  assumes "LENGTH('a) mod 8 = 0" and "read_at mem ptr i (LENGTH('a) div 8) = Some (be_bytes w)"
  shows "read_word mem ptr i = Some w"
  using assms word_of_object_le_bytes [of w]
  by (simp add: read_word_def memcpy_reverse_rev be_bytes_def)

lemma decode_time: "decodeUtcTimeToNsTime t = (Timestamp_getTimeInNs \<lparr>val = t\<rparr>, t ! 7)"
  by (simp add: decodeUtcTimeToNsTime_def Timestamp_getTimeInNs_def get_seconds_def get_fraction_def Let_def
      add.commute add.left_commute)

text \<open>What the listener learns of an ASDU through the getters.\<close>

definition names_received :: "sv_event \<Rightarrow> sv_asdu \<Rightarrow> bool" where
  "names_received e v \<longleftrightarrow>
     (\<exists>w. SVSubscriber_ASDU_getSvId (ev_mem e) (ev_asdu e) = Some (v_svID v @ 0 # w)) \<and>
     (SVSubscriber_ASDU_hasDatSet (ev_asdu e) \<longleftrightarrow> v_datset v \<noteq> None) \<and>
     (\<forall>d. v_datset v = Some d \<longrightarrow> (\<exists>w. SVSubscriber_ASDU_getDatSet (ev_mem e) (ev_asdu e) = Some (d @ 0 # w)))"

definition counts_received :: "sv_event \<Rightarrow> sv_asdu \<Rightarrow> bool" where
  "counts_received e v \<longleftrightarrow>
     SVSubscriber_ASDU_getSmpCnt (ev_mem e) (ev_asdu e) = Some (v_smpCnt v) \<and>
     SVSubscriber_ASDU_getConfRev (ev_mem e) (ev_asdu e) = Some (v_confRev v) \<and>
     SVSubscriber_ASDU_getSmpSynch (ev_mem e) (ev_asdu e) = Some (v_smpSynch v) \<and>
     (SVSubscriber_ASDU_hasSmpRate (ev_asdu e) \<longleftrightarrow> v_smpRate v \<noteq> None) \<and>
     (\<forall>r. v_smpRate v = Some r \<longrightarrow> SVSubscriber_ASDU_getSmpRate (ev_mem e) (ev_asdu e) = Some r) \<and>
     (SVSubscriber_ASDU_hasSmpMod (ev_asdu e) \<longleftrightarrow> v_smpMod v \<noteq> None) \<and>
     (v_smpMod v \<noteq> None \<longrightarrow> SVSubscriber_ASDU_getSmpMod (ev_mem e) (ev_asdu e) = Some 0)"

definition time_received :: "sv_event \<Rightarrow> sv_asdu \<Rightarrow> bool" where
  "time_received e v \<longleftrightarrow>
     (SVSubscriber_ASDU_hasRefrTm (ev_asdu e) \<longleftrightarrow> v_refrTm v \<noteq> None) \<and>
     (\<forall>t. v_refrTm v = Some t \<longrightarrow>
       SVSubscriber_ASDU_getRefrTmAsNs (ev_mem e) (ev_asdu e) = Some (Timestamp_getTimeInNs \<lparr>val = t\<rparr>) \<and>
       SVSubscriber_ASDU_getRefrTmAsMs (ev_mem e) (ev_asdu e) = Some (Timestamp_getTimeInNs \<lparr>val = t\<rparr> div 1000000))"

definition data_received :: "sv_event \<Rightarrow> sv_asdu \<Rightarrow> bool" where
  "data_received e v \<longleftrightarrow>
     SVSubscriber_ASDU_getDataSize (ev_asdu e) = int (length (v_data v)) \<and>
     (\<forall>i n. i + n \<le> length (v_data v) \<longrightarrow>
       read_at (ev_mem e) (su_dataBuffer (ev_asdu e)) (int i) n = Some (take n (drop i (v_data v))))"

definition received :: "sv_event \<Rightarrow> sv_asdu \<Rightarrow> bool" where
  "received e v \<longleftrightarrow> names_received e v \<and> counts_received e v \<and> time_received e v \<and> data_received e v"

lemma be_bytes16: "be_bytes (w :: uint16) = [le_bytes w ! 1, le_bytes w ! 0]"
  by (rule be_bytes_elems(1) [symmetric])

lemma word_of_le_bytes16: "word_of_object [le_bytes w ! 0, le_bytes w ! Suc 0] = (w :: uint16)"
proof -
  have "[le_bytes w ! 0, le_bytes w ! 1] = le_bytes w"
    by (simp add: le_bytes_def upt_rec)
  then show ?thesis using word_of_object_le_bytes [of w] by simp
qed

text \<open>The memory and the ASDU of an event that comes from an abstract ASDU.\<close>

definition event_of :: "byte list \<Rightarrow> byte list \<Rightarrow> sv_asdu \<Rightarrow> sv_event \<Rightarrow> bool" where
  "event_of pre rest v e \<longleftrightarrow> ev_mem e = pre @ tlvs (marked_tlvs v) @ rest \<and>
     ev_asdu e = fst (run_asdu (length pre) (sv_tlvs v) (empty_asdu, 0, 0))"

lemma event_pointers:
  assumes "event_of pre rest v e"
  defines "P \<equiv> map_of (tlv_positions (length pre) (sv_tlvs v))"
  shows "su_svId (ev_asdu e) = P 0x80" "su_datSet (ev_asdu e) = P 0x81" "su_smpCnt (ev_asdu e) = P 0x82"
    "su_confRev (ev_asdu e) = P 0x83" "su_refrTm (ev_asdu e) = P 0x84" "su_smpSynch (ev_asdu e) = P 0x85"
    "su_smpRate (ev_asdu e) = P 0x86" "su_dataBuffer (ev_asdu e) = P 0x87" "su_smpMod (ev_asdu e) = P 0x88"
    "su_dataBufferLength (ev_asdu e) = int (length (v_data v))"
  using assms by (simp_all add: event_of_def run_pointers run_lengths)

lemma event_read:
  assumes "event_of pre rest v e" and "map_of (sv_tlvs v) t = Some c"
  obtains q where "map_of (tlv_positions (length pre) (sv_tlvs v)) t = Some q"
    and "\<forall>i n. i + n \<le> length c \<longrightarrow> read_at (ev_mem e) (Some q) (int i) n = Some (take n (drop i c))"
    and "\<forall>i. i < length c \<longrightarrow> rd (ev_mem e) (int q + int i) = Some (c ! i)"
  using assms(1) read_field [OF assms(2), of pre rest] by (auto simp: event_of_def read_at_def)

lemma position_absent: "map_of (tlv_positions p (sv_tlvs v)) t = None \<longleftrightarrow> map_of (sv_tlvs v) t = None"
proof (cases "map_of (sv_tlvs v) t")
  case None
  then show ?thesis using tlv_positions_None by simp
next
  case (Some c)
  obtain q where "map_of (tlv_positions p (sv_tlvs v)) t = Some q"
    by (rule tlv_position [OF Some distinct_sv_tlvs, of p])
  then show ?thesis using Some by simp
qed

lemma event_names: "event_of pre rest v e \<Longrightarrow> names_received e v"
  using read_names [where pre = pre and rest = rest and v = v] event_pointers(1,2) [of pre rest v e]
    position_absent [of "length pre" v "0x81"]
  by (fastforce simp: names_received_def event_of_def SVSubscriber_ASDU_getSvId_def SVSubscriber_ASDU_getDatSet_def
      SVSubscriber_ASDU_hasDatSet_def)

lemma event_counts:
  assumes e: "event_of pre rest v e"
  shows "counts_received e v"
proof -
  note ptr = event_pointers [OF e]
  obtain q2 where q2: "su_smpCnt (ev_asdu e) = Some q2"
      "\<forall>i. i < length (be_bytes (v_smpCnt v)) \<longrightarrow> rd (ev_mem e) (int q2 + int i) = Some (be_bytes (v_smpCnt v) ! i)"
    unfolding ptr by (rule event_read [OF e map_of_sv_tlvs(3)])
  have cnt: "rd (ev_mem e) (int q2) = Some (le_bytes (v_smpCnt v) ! 1)"
      "rd (ev_mem e) (int q2 + 1) = Some (le_bytes (v_smpCnt v) ! 0)"
    using q2(2) [rule_format, of 0] q2(2) [rule_format, of 1] by (simp_all add: be_bytes16)
  obtain q3 where q3: "su_confRev (ev_asdu e) = Some q3"
      "\<forall>i n. i + n \<le> length (be_bytes (v_confRev v)) \<longrightarrow>
        read_at (ev_mem e) (Some q3) (int i) n = Some (take n (drop i (be_bytes (v_confRev v))))"
    unfolding ptr by (rule event_read [OF e map_of_sv_tlvs(4)])
  have rev: "read_word (ev_mem e) (su_confRev (ev_asdu e)) 0 = Some (v_confRev v)"
    by (rule read_word_be) (use q3(2) [rule_format, of 0 4] in \<open>simp_all add: q3(1)\<close>)
  obtain q5 where q5: "su_smpSynch (ev_asdu e) = Some q5"
      "\<forall>i. i < length [v_smpSynch v] \<longrightarrow> rd (ev_mem e) (int q5 + int i) = Some ([v_smpSynch v] ! i)"
    unfolding ptr by (rule event_read [OF e map_of_sv_tlvs(6)])
  have rate: "read_word (ev_mem e) (su_smpRate (ev_asdu e)) 0 = Some r" if r: "v_smpRate v = Some r" for r
  proof -
    have c: "map_of (sv_tlvs v) 0x86 = Some (be_bytes r)" using r by simp
    obtain q6 where q6: "su_smpRate (ev_asdu e) = Some q6"
        "\<forall>i n. i + n \<le> length (be_bytes r) \<longrightarrow> read_at (ev_mem e) (Some q6) (int i) n = Some (take n (drop i (be_bytes r)))"
      unfolding ptr by (rule event_read [OF e c])
    show ?thesis by (rule read_word_be) (use q6(2) [rule_format, of 0 2] in \<open>simp_all add: q6(1)\<close>)
  qed
  have md: "SVSubscriber_ASDU_getSmpMod (ev_mem e) (ev_asdu e) = Some 0" if m: "v_smpMod v = Some m" for m
  proof -
    have c: "map_of (sv_tlvs v) 0x88 = Some [0, m]" using m by simp
    obtain q8 where q8: "su_smpMod (ev_asdu e) = Some q8"
        "\<forall>i. i < length [0, m] \<longrightarrow> rd (ev_mem e) (int q8 + int i) = Some ([0, m] ! i)"
      unfolding ptr by (rule event_read [OF e c])
    show ?thesis using q8(1) q8(2) [rule_format, of 0] by (simp add: SVSubscriber_ASDU_getSmpMod_def)
  qed
  show ?thesis
    using q2(1) cnt rev q5 rate md position_absent [of "length pre" v "0x86"] position_absent [of "length pre" v "0x88"]
    by (auto simp: counts_received_def SVSubscriber_ASDU_getSmpCnt_def SVSubscriber_ASDU_getConfRev_def
        SVSubscriber_ASDU_getSmpSynch_def SVSubscriber_ASDU_hasSmpRate_def SVSubscriber_ASDU_hasSmpMod_def
        SVSubscriber_ASDU_getSmpRate_def word_of_le_bytes16 ptr)
qed

lemma event_time:
  assumes e: "event_of pre rest v e" and t8: "\<forall>t. v_refrTm v = Some t \<longrightarrow> length t = 8"
  shows "time_received e v"
proof (cases "v_refrTm v")
  case None
  then show ?thesis
    using event_pointers(5) [OF e] position_absent [of "length pre" v "0x84"]
    by (simp add: time_received_def SVSubscriber_ASDU_hasRefrTm_def)
next
  case (Some t)
  then have c: "map_of (sv_tlvs v) 0x84 = Some t" by simp
  obtain q4 where q4: "su_refrTm (ev_asdu e) = Some q4"
      "\<forall>i n. i + n \<le> length t \<longrightarrow> read_at (ev_mem e) (Some q4) (int i) n = Some (take n (drop i t))"
    unfolding event_pointers(5) [OF e] by (rule event_read [OF e c])
  show ?thesis
    using Some t8 q4(1) q4(2) [rule_format, of 0 8]
    by (simp add: time_received_def SVSubscriber_ASDU_hasRefrTm_def SVSubscriber_ASDU_getRefrTmAsNs_def
        SVSubscriber_ASDU_getRefrTmAsMs_def decode_time)
qed

lemma event_data: "event_of pre rest v e \<Longrightarrow> data_received e v"
  using event_read [of pre rest v e "0x87" "v_data v"] event_pointers(8,10) [of pre rest v e]
  by (fastforce simp: data_received_def SVSubscriber_ASDU_getDataSize_def)

lemma event_received:
  "event_of pre rest v e \<Longrightarrow> \<forall>t. v_refrTm v = Some t \<longrightarrow> length t = 8 \<Longrightarrow> received e v"
  by (simp add: received_def event_names event_counts event_time event_data)

section \<open>The parsers on an APDU\<close>

definition marked_asdus :: "sv_asdu list \<Rightarrow> (byte \<times> byte list) list" where
  "marked_asdus vs = map (\<lambda>v. (0x30, tlvs (marked_tlvs v))) vs"

lemma marked_asdus_simps [simp]:
  "marked_asdus [] = []" "marked_asdus (v # vs) = (0x30, tlvs (marked_tlvs v)) # marked_asdus vs"
  by (simp_all add: marked_asdus_def)

lemma length_marked: "length (tlvs (marked_tlvs v)) = length (asdu_content v)"
  unfolding asdu_content_def by (rule length_tlvs_retagged [OF marked_contents])

lemma length_content_le: "(t, c) \<in> set ts \<Longrightarrow> length c \<le> length (tlvs ts)"
  by (induction ts) (auto simp: octet_bytes_def)

definition sv_wf :: "sv_asdu \<Rightarrow> bool" where
  "sv_wf v \<longleftrightarrow> length (asdu_content v) < 65535 \<and> (\<forall>t. v_refrTm v = Some t \<longrightarrow> length t = 8)"

definition heard :: "nat \<times> SVSubscriber \<Rightarrow> sv_event \<Rightarrow> sv_asdu \<Rightarrow> bool" where
  "heard sub e v \<longleftrightarrow> ev_subscriber e = fst sub \<and> received e v"

lemma parseASDU_heard:
  assumes v: "sv_wf v" and l: "ss_listener (snd sub)"
  obtains e where "parseASDU sub (pre @ asdu_content v @ rest) (length pre) (int (length (asdu_content v)))
      = Some (pre @ tlvs (marked_tlvs v) @ rest, [e])" and "heard sub e v"
proof -
  let ?m = "pre @ asdu_content v @ rest" and ?n = "int (length (asdu_content v))"
  let ?r = "run_asdu (length pre) (sv_tlvs v) (empty_asdu, 0, 0)"
  have short: "\<forall>(t, c) \<in> set (sv_tlvs v). length c < 65535"
    using length_content_le [of _ _ "sv_tlvs v"] v by (fastforce simp: sv_wf_def asdu_content_def)
  have loop: "asdu_loop ?m (length pre) 0 ?n (empty_asdu, 0, 0) = Some (Some ?r)"
    by (rule asdu_loop_run [OF short]) (use v in \<open>simp_all add: asdu_content_def sv_wf_def\<close>)
  obtain asdu n m where r: "?r = (asdu, n, m)" by (cases ?r)
  have asdu: "asdu = fst ?r" "n = fst (snd ?r)" "m = snd (snd ?r)" by (simp_all add: r)
  have "(do { mem \<leftarrow> terminate_name (su_svId asdu) n ?m; terminate_name (su_datSet asdu) m mem })
      = Some (pre @ tlvs (marked_tlvs v) @ rest)"
    by (rule terminate_names) (simp_all add: asdu run_pointers run_lengths cong: option.case_cong)
  then have "parseASDU sub ?m (length pre) ?n = Some (pre @ tlvs (marked_tlvs v) @ rest,
      [\<lparr>ev_subscriber = fst sub, ev_mem = pre @ tlvs (marked_tlvs v) @ rest, ev_asdu = asdu\<rparr>])"
    using l by (auto simp: parseASDU_def loop r split: Option.bind_splits)
  moreover have "heard sub \<lparr>ev_subscriber = fst sub, ev_mem = pre @ tlvs (marked_tlvs v) @ rest, ev_asdu = asdu\<rparr> v"
    using event_received [of pre rest v] v asdu(1) by (simp add: heard_def event_of_def sv_wf_def)
  ultimately show thesis by (rule that)
qed

lemma sequence_heard:
  assumes "list_all sv_wf vs" and l: "ss_listener (snd sub)" and "base \<le> length pre"
    and "p = int (length pre) - int base" and "n = p + int (length (tlvs (asdu_tlvs vs)))" and "n < 2 ^ 23"
  shows "\<exists>es. sequence_loop sub (pre @ tlvs (asdu_tlvs vs) @ rest) base p n
    = Some (pre @ tlvs (marked_asdus vs) @ rest, es) \<and> list_all2 (heard sub) es vs"
  using assms
proof (induction vs arbitrary: pre p)
  case Nil
  then show ?case by (simp add: sequence_loop.simps)
next
  case (Cons v vs)
  let ?c = "asdu_content v" and ?o = "octet_bytes 0x30 (asdu_content v)"
  let ?h = "0x30 # length_bytes (of_nat (length ?c)) :: byte list"
  let ?rest = "tlvs (asdu_tlvs vs) @ rest"
  have v: "sv_wf v" and vs: "list_all sv_wf vs" using Cons.prems(1) by simp_all
  have mem: "pre @ tlvs (asdu_tlvs (v # vs)) @ rest = pre @ ?o @ ?rest" by simp
  have c: "length ?c < 65535" using v by (simp add: sv_wf_def)
  have n: "int (length pre + length ?o) - int base \<le> n" using Cons.prems(4,5) by simp
  obtain p' where d: "rd (pre @ ?o @ ?rest) (int base + p) = Some 0x30"
      "BerDecoder_decodeLength (drop base (pre @ ?o @ ?rest)) 0 (p + 1) n = Some (p', int (length ?c))"
      "0 \<le> p'" "base + nat p' = length pre + length ?o - length ?c"
      "p' + int (length ?c) = int (length (pre @ ?o)) - int base"
    using element_decode [OF refl Cons.prems(3) c n Cons.prems(6), of ?rest] Cons.prems(4) by auto
  have at: "base + nat p' = length (pre @ ?h)" using d(4) by (simp add: content_offset)
  have split: "pre @ ?o @ ?rest = (pre @ ?h) @ ?c @ ?rest" by (simp add: octet_bytes_def)
  obtain e where e: "parseASDU sub ((pre @ ?h) @ ?c @ ?rest) (length (pre @ ?h)) (int (length ?c))
      = Some ((pre @ ?h) @ tlvs (marked_tlvs v) @ ?rest, [e])" "heard sub e v"
    by (rule parseASDU_heard [OF v l])
  let ?pre = "pre @ octet_bytes 0x30 (tlvs (marked_tlvs v))"
  have pre': "(pre @ ?h) @ tlvs (marked_tlvs v) @ ?rest = ?pre @ tlvs (asdu_tlvs vs) @ rest"
    by (simp add: octet_bytes_def length_marked)
  have len: "length ?pre = length (pre @ ?o)" by (simp add: octet_bytes_def length_marked)
  obtain es where es: "sequence_loop sub (?pre @ tlvs (asdu_tlvs vs) @ rest) base (p' + int (length ?c)) n
      = Some (?pre @ tlvs (marked_asdus vs) @ rest, es)" "list_all2 (heard sub) es vs"
    using Cons.IH [OF vs l, of ?pre "p' + int (length ?c)"] Cons.prems d(5) len by auto
  have "p < n" using Cons.prems(5) by (simp add: octet_bytes_def)
  then have "sequence_loop sub (pre @ ?o @ ?rest) base p n
      = Some (?pre @ tlvs (marked_asdus vs) @ rest, e # es)"
    using d(1-3) at e(1) es(1) unfolding pre' [symmetric] split [symmetric]
    by (subst sequence_loop.simps) (simp del: append_assoc)
  then show ?case using e(2) es(2) unfolding mem by (intro exI [of _ "e # es"]) simp
qed

lemma payload_heard:
  assumes vs: "list_all sv_wf vs" and l: "ss_listener (snd sub)" and small: "length (sv_apdu vs) < 65535"
  shows "\<exists>mem es. parseSVPayload sub (pre @ sv_apdu vs @ rest) (length pre) (int (length (sv_apdu vs)))
      = Some (mem, es) \<and> length mem = length (pre @ sv_apdu vs @ rest) \<and> list_all2 (heard sub) es vs"
proof -
  let ?u = "octet_bytes 0x80 (uint32_content (of_nat (length vs)))"
  let ?s = "tlvs (asdu_tlvs vs)"
  let ?q = "octet_bytes 0xa2 ?s"
  let ?c = "?u @ ?q"
  let ?h = "0x60 # length_bytes (of_nat (length ?c)) :: byte list"
  let ?m = "pre @ sv_apdu vs @ rest" and ?b = "length pre"
  have apdu: "sv_apdu vs = octet_bytes 0x60 ?c" by (simp add: sv_apdu_def uint32_bytes_octet)
  have split: "sv_apdu vs = ?h @ ?u @ ?q" by (simp add: apdu octet_bytes_def)
  have lens: "length ?c < 65535" "length ?s < 65535"
    using small unfolding apdu by (auto simp: octet_bytes_def)
  have u5: "length (uint32_content (of_nat (length vs))) < 65535"
    using uint32_content_bounds [of "of_nat (length vs)"] by simp
  obtain p0 where p0: "rd ?m (int ?b) = Some 0x60"
      "BerDecoder_decodeLength (drop ?b ?m) 0 1 (int (length (sv_apdu vs))) = Some (p0, int (length ?c))"
      "0 \<le> p0" "p0 + int (length ?c) = int (length (pre @ sv_apdu vs)) - int ?b"
    using element_decode [of ?m pre "0x60" ?c rest ?b "int (length (sv_apdu vs))"] lens(1) small
    by (auto simp: apdu)
  let ?e = "p0 + int (length ?c)"
  have e: "?e = int (length (sv_apdu vs))" using p0(4) by simp
  have m1: "?m = (pre @ ?h) @ ?u @ (?q @ rest)" by (simp add: split)
  have b1: "?b \<le> length (pre @ ?h)" by simp
  have at1: "p0 = int (length (pre @ ?h)) - int ?b" using e by (simp add: split)
  have n1: "int (length (pre @ ?h) + length ?u) - int ?b \<le> ?e" using at1 by simp
  obtain p1 where p1: "rd ?m (int ?b + p0) = Some 0x80"
      "BerDecoder_decodeLength (drop ?b ?m) 0 (p0 + 1) ?e = Some (p1, int (length (uint32_content (of_nat (length vs)))))"
      "0 \<le> p1" "p1 + int (length (uint32_content (of_nat (length vs)))) = int (length ((pre @ ?h) @ ?u)) - int ?b"
    using element_decode [OF m1 b1 u5 n1] e small at1 by auto
  have m2: "?m = ((pre @ ?h) @ ?u) @ ?q @ rest" by (simp add: split)
  have b2: "?b \<le> length ((pre @ ?h) @ ?u)" by simp
  have n2: "int (length ((pre @ ?h) @ ?u) + length ?q) - int ?b \<le> ?e" using at1 by simp
  let ?p2 = "p1 + int (length (uint32_content (of_nat (length vs))))"
  obtain p3 where p3: "rd ?m (int ?b + ?p2) = Some 0xa2"
      "BerDecoder_decodeLength (drop ?b ?m) 0 (?p2 + 1) ?e = Some (p3, int (length ?s))" "0 \<le> p3"
      "?b + nat p3 = length ((pre @ ?h) @ ?u) + length ?q - length ?s"
      "p3 + int (length ?s) = int (length (((pre @ ?h) @ ?u) @ ?q)) - int ?b"
    unfolding p1(4) using element_decode [OF m2 b2 lens(2) n2] e small by auto
  let ?pre = "(pre @ ?h) @ ?u @ 0xa2 # length_bytes (of_nat (length ?s))"
  have base: "?b + nat p3 = length ?pre" using p3(4) by (simp add: octet_bytes_def)
  have m3: "?m = ?pre @ ?s @ rest" by (simp add: split octet_bytes_def)
  obtain es where es: "sequence_loop sub (?pre @ ?s @ rest) (length ?pre) 0 (int (length ?s))
      = Some (?pre @ tlvs (marked_asdus vs) @ rest, es)" "list_all2 (heard sub) es vs"
    using sequence_heard [OF vs l, of "length ?pre" ?pre 0 "int (length ?s)" rest] lens(2) by auto
  have end_: "p3 + int (length ?s) = ?e" using p3(5) at1 by simp
  let ?mem = "?pre @ tlvs (marked_asdus vs) @ rest"
  have "length (tlvs (marked_asdus vs)) = length ?s"
    by (induction vs) (simp_all add: octet_bytes_def length_marked)
  then have len: "length ?mem = length ?m" unfolding m3 by simp
  have gt: "p0 < ?e" "?p2 < ?e" unfolding p1(4) using at1 by (simp_all add: octet_bytes_def)
  have stop: "payload_loop sub ?mem ?b (p3 + int (length ?s)) ?e = Some (?mem, [])"
    unfolding end_ by (simp add: payload_loop.simps)
  have seq: "parseSequenceOfASDU sub ?m (?b + nat p3) (int (length ?s)) = Some (?mem, es)"
    unfolding parseSequenceOfASDU_def base m3 by (rule es(1))
  have second: "payload_loop sub ?m ?b ?p2 ?e = Some (?mem, es @ [])"
    by (rule payload.step [OF gt(2) p3(1,2,3) _ stop]) (simp only: seq if_True simp_thms)
  have "payload_loop sub ?m ?b p0 ?e = Some (?mem, [] @ (es @ []))"
    by (rule payload.step [OF gt(1) p1(1,2,3) _ second]) simp
  then have "parseSVPayload sub ?m ?b (int (length (sv_apdu vs))) = Some (?mem, es)"
    unfolding parseSVPayload_def p0(1,2) using p0(3) by (simp del: append_assoc)
  then show ?thesis using len es(2) by blast
qed

section \<open>From the publisher to the listener\<close>

lemma app_id_value: "ucast (ucast (a div 256) :: byte) * 0x100 + ucast (ucast (a mod 256) :: byte) = (a :: uint16)"
proof -
  have a: "unat a < 65536" using unsigned_less [of a, where ?'a = nat] by simp
  have "unat (ucast (a div 256) :: byte) = unat a div 256"
    using a by (simp add: unsigned_ucast_eq unat_div take_bit_nat_eq_self less_mult_imp_div_less)
  moreover have "unat (ucast (a mod 256) :: byte) = unat a mod 256"
    by (simp add: unsigned_ucast_eq unat_mod take_bit_eq_mod)
  ultimately have "(ucast (ucast (a div 256) :: byte) * 0x100 + ucast (ucast (a mod 256) :: byte) :: uint16)
      = of_nat (unat a div 256) * 0x100 + of_nat (unat a mod 256)"
    by (metis of_nat_unat)
  also have "\<dots> = of_nat (unat a div 256 * 256 + unat a mod 256)"
    by (simp only: of_nat_add of_nat_mult of_nat_numeral)
  also have "unat a div 256 * 256 + unat a mod 256 = unat a" by simp
  finally show ?thesis by simp
qed

definition sv_packet :: "CommParameters \<Rightarrow> byte list \<Rightarrow> sv_asdu list \<Rightarrow> byte list" where
  "sv_packet p mac vs = drop 14 (sv_frame (sv_header p mac True) vs)"

lemma sv_packet_octets:
  assumes "length (dstAddress p) = 6" and "length mac = 6"
  obtains t1 t2 where "sv_packet p mac vs = [t1, t2, 0x88, 0xba, ucast (appId p div 256), ucast (appId p mod 256)]
    @ length_octets16 (length (sv_apdu vs) + 8) @ [0, 0, 0, 0] @ sv_apdu vs"
  using assms by (simp add: sv_packet_def sv_frame_def sv_header_def vlan_bytes_def sv_header_bytes_def Let_def)

lemma matching_first:
  "matching_subscriber False mem app subs = Some (find (\<lambda>s. ss_appId (snd s) = app) subs)"
  by (induction subs) auto

lemma length_sv_apdu_ge: "vs \<noteq> [] \<Longrightarrow> 10 \<le> length (sv_apdu vs)"
  by (cases vs) (simp_all add: sv_apdu_def octet_bytes_def asdu_content_def sv_tlvs_def)

lemma parseSVMessage_heard:
  assumes pkt: "pkt = [t1, t2, 0x88, 0xba, ucast (appId p div 256), ucast (appId p mod 256)]
      @ length_octets16 (length (sv_apdu vs) + 8) @ [0, 0, 0, 0] @ sv_apdu vs"
    and vs: "vs \<noteq> []" "list_all sv_wf vs" "length (sv_apdu vs) + 8 < 65536"
    and r: "sr_buffer r = pkt @ rest" "\<not> sr_checkDestAddr r"
      "find (\<lambda>s. ss_appId (snd s) = appId p) (sr_subscriberList r) = Some sub" "ss_listener (snd sub)"
  shows "\<exists>mem es. parseSVMessage r (int (length pkt)) = Some (r\<lparr>sr_buffer := mem\<rparr>, es) \<and>
    length mem = length (pkt @ rest) \<and> list_all2 (heard sub) es vs"
proof -
  let ?l = "length (sv_apdu vs) + 8"
  let ?pre = "[t1, t2, 0x88, 0xba, ucast (appId p div 256), ucast (appId p mod 256), of_nat (?l div 256),
      of_nat (?l mod 256), 0, 0, 0, 0] :: byte list"
  have buf: "pkt @ rest = ?pre @ sv_apdu vs @ rest" by (simp add: pkt length_octets16_def)
  have twelve: "length ?pre = 12" by simp
  have n: "\<not> int (length pkt) < 22" using length_sv_apdu_ge [OF vs(1)] by (simp add: pkt length_octets16_def)
  have rds: "rd (pkt @ rest) 2 = Some 0x88" "rd (pkt @ rest) 3 = Some 0xba"
      "rd (pkt @ rest) 4 = Some (ucast (appId p div 256))" "rd (pkt @ rest) 5 = Some (ucast (appId p mod 256))"
      "rd (pkt @ rest) 6 = Some (of_nat (?l div 256))" "rd (pkt @ rest) 7 = Some (of_nat (?l mod 256))"
    unfolding buf by (simp_all add: rd_def)
  have len: "uint (ucast (of_nat (?l div 256) :: byte) * 0x100 + ucast (of_nat (?l mod 256) :: byte) :: uint16) - 8
      = int (length (sv_apdu vs))"
    using length_field_value [OF vs(3)] by simp
  have small: "length (sv_apdu vs) < 65535" using vs(3) by simp
  obtain mem es where es: "parseSVPayload sub (pkt @ rest) 12 (int (length (sv_apdu vs))) = Some (mem, es)"
      "length mem = length (pkt @ rest)" "list_all2 (heard sub) es vs"
    using payload_heard [OF vs(2) r(4) small, of ?pre rest] unfolding buf twelve by blast
  have "parseSVMessage r (int (length pkt)) = Some (r\<lparr>sr_buffer := mem\<rparr>, es)"
    unfolding parseSVMessage_def r(1) Let_def rds Option.bind.bind_lunit app_id_value len
    using n r es(1) by (simp add: rds matching_first app_id_value [simplified] len)
  then show ?thesis using es by blast
qed

lemma sv_inv_wf:
  assumes "sv_inv hdr self vs"
  shows "list_all sv_wf vs" and "length (sv_apdu vs) + 8 < 65536" and "length (sv_frame hdr vs) \<le> 1518"
proof -
  show f: "length (sv_frame hdr vs) \<le> 1518" using assms by (simp add: sv_inv_def)
  then have a: "length (sv_apdu vs) \<le> 1518" by (simp add: sv_frame_def)
  then show "length (sv_apdu vs) + 8 < 65536" by simp
  have "length (asdu_content v) \<le> length (sv_apdu vs)" if "v \<in> set vs" for v
  proof -
    have "(0x30, asdu_content v) \<in> set (asdu_tlvs vs)" using that by (simp add: asdu_tlvs_def)
    then show ?thesis using length_content_le by (fastforce simp: sv_apdu_head)
  qed
  moreover have "\<forall>v \<in> set vs. \<forall>t. v_refrTm v = Some t \<longrightarrow> length t = 8" if "placed_all q as vs" for q as
    using that by (induction q as vs rule: placed_all.induct) (auto simp: placed_def)
  ultimately show "list_all sv_wf vs"
    using a assms by (fastforce simp: list_all_iff sv_wf_def sv_inv_def)
qed

lemma tick_heard:
  assumes inv: "sv_inv (sv_header p mac True) self vs" and macs: "length (dstAddress p) = 6" "length mac = 6"
    and vs: "vs \<noteq> []" and r: "length (sr_buffer r) = 1518" "\<not> sr_checkDestAddr r"
      "find (\<lambda>s. ss_appId (snd s) = appId p) (sr_subscriberList r) = Some sub" "ss_listener (snd sub)"
  obtains mem es where "SVReceiver_tick (sv_packet p mac vs) r = Some (True, r\<lparr>sr_buffer := mem\<rparr>, es)"
    and "length mem = 1518" and "list_all2 (heard sub) es vs"
proof -
  let ?pkt = "sv_packet p mac vs"
  obtain t1 t2 where pkt: "?pkt = [t1, t2, 0x88, 0xba, ucast (appId p div 256), ucast (appId p mod 256)]
      @ length_octets16 (length (sv_apdu vs) + 8) @ [0, 0, 0, 0] @ sv_apdu vs"
    using sv_packet_octets [OF macs] by blast
  note wf = sv_inv_wf [OF inv]
  have le: "length ?pkt \<le> 1518" using wf(3) by (simp add: sv_packet_def)
  have pos: "0 < length ?pkt" unfolding pkt by simp
  let ?rest = "drop (length ?pkt) (sr_buffer r)"
  have rcv: "Ethernet_receivePacket ?pkt (sr_buffer r) 1518 = Some (length ?pkt, ?pkt @ ?rest)"
    using receivePacket_copies [OF le, of "sr_buffer r"] r(1) by simp
  obtain mem es where "parseSVMessage (r\<lparr>sr_buffer := ?pkt @ ?rest\<rparr>) (int (length ?pkt)) = Some (r\<lparr>sr_buffer := mem\<rparr>, es)"
      "length mem = length (?pkt @ ?rest)" "list_all2 (heard sub) es vs"
    using parseSVMessage_heard [OF pkt vs wf(1,2), of "r\<lparr>sr_buffer := ?pkt @ ?rest\<rparr>" ?rest sub] r by auto
  then show thesis
    using that [of mem es] rcv le pos r(1) by (simp add: SVReceiver_tick_def)
qed

section \<open>Values\<close>

lemma patch_read: "i + length bs \<le> length d \<Longrightarrow> take (length bs) (drop i (patch i bs d)) = bs"
  by (simp add: patch_def)

lemma data_word:
  fixes x :: "'a::len word"
  assumes "data_received e v" and "v_data v = patch i (be_bytes x) d" and "i + LENGTH('a) div 8 \<le> length d"
    and "LENGTH('a) mod 8 = 0"
  shows "read_word (ev_mem e) (su_dataBuffer (ev_asdu e)) (int i) = Some x"
proof (rule read_word_be [OF assms(4)])
  have "i + LENGTH('a) div 8 \<le> length (v_data v)" using assms(2,3) by simp
  then show "read_at (ev_mem e) (su_dataBuffer (ev_asdu e)) (int i) (LENGTH('a) div 8) = Some (be_bytes x)"
    using assms patch_read [of i "be_bytes x" d] by (simp add: data_received_def)
qed

lemma rd_of_read_at: "read_at mem (Some p) i 1 = Some [b] \<Longrightarrow> rd mem (int p + i) = Some b"
  by (auto simp: read_at_def rd_bytes_def rd_def take_Suc_conv_app_nth split: if_splits)

lemma data_octet:
  assumes "data_received e v" and "i < length (v_data v)"
  shows "\<exists>p. su_dataBuffer (ev_asdu e) = Some p \<and> rd (ev_mem e) (int p + int i) = Some (v_data v ! i)"
proof -
  have "read_at (ev_mem e) (su_dataBuffer (ev_asdu e)) (int i) 1 = Some [v_data v ! i]"
    using assms by (simp add: data_received_def take_Suc_conv_app_nth Cons_nth_drop_Suc [symmetric])
  then show ?thesis using rd_of_read_at by (cases "su_dataBuffer (ev_asdu e)") (auto simp: read_at_def)
qed

lemma quality_octets: "(ucast (le_bytes q ! 0) + ucast (le_bytes q ! 1) * 0x100 :: uint16) = q"
proof -
  have "word_of_object [le_bytes q ! 0, le_bytes q ! Suc 0] = q" by (rule word_of_le_bytes16)
  then show ?thesis by (simp add: word_of_object_def add.commute)
qed

section \<open>Properties\<close>

text \<open>C11. A published message reaches the listener: for a publisher after its layout, with the VLAN tag,
  and a receiver whose first subscriber for the application id has a listener, the packet that publishing
  sends makes the listener be called once per ASDU, in order, and each call sees the identifier, the data
  set name, the counter, the revision, the synchronisation flag, the rate, the reference time and the
  samples of that ASDU.\<close>

theorem sv_delivered:
  assumes "sv_inv (sv_header p mac True) self vs" and "length (dstAddress p) = 6" and "length mac = 6" and "vs \<noteq> []"
    and "length (sr_buffer r) = 1518" and "\<not> sr_checkDestAddr r"
    and "find (\<lambda>s. ss_appId (snd s) = appId p) (sr_subscriberList r) = Some sub" and "ss_listener (snd sub)"
  shows "\<exists>self' packet mem es. SVPublisher_publish self = Some self' \<and>
    es_sent (sp_ethernetSocket self') = es_sent (sp_ethernetSocket self) @ [packet] \<and>
    SVReceiver_tick packet r = Some (True, r\<lparr>sr_buffer := mem\<rparr>, es) \<and> length mem = 1518 \<and>
    list_all2 (heard sub) es vs"
proof -
  obtain self' where "SVPublisher_publish self = Some self'"
      "es_sent (sp_ethernetSocket self') = es_sent (sp_ethernetSocket self) @ [drop 14 (sv_frame (sv_header p mac True) vs)]"
    by (rule publish_frame [OF assms(1)])
  moreover obtain mem es where "SVReceiver_tick (sv_packet p mac vs) r = Some (True, r\<lparr>sr_buffer := mem\<rparr>, es)"
      "length mem = 1518" "list_all2 (heard sub) es vs"
    by (rule tick_heard [OF assms])
  ultimately show ?thesis by (auto simp: sv_packet_def)
qed

text \<open>A publisher with one ASDU of four octets, laid out.\<close>

lemma example_laid_out:
  obtains self vs where "sv_inv (sv_header default_sv_parameters [2, 0, 0, 0, 0, 1] True) self vs" and "length vs = 1"
    and "v_svID (vs ! 0) = [0x73]" and "length (v_data (vs ! 0)) = 4" and "es_sent (sp_ethernetSocket self) = []"
proof -
  let ?h = "sv_header default_sv_parameters [2, 0, 0, 0, 0, 1] True"
  obtain s0 where s0: "SVPublisher_createEx (\<lambda>_. Some [2, 0, 0, 0, 0, 1]) (replicate 1518 0) (Some default_sv_parameters)
      (Some (c_str [])) True = Some s0" "sv_prepared ?h s0" "sp_asduList s0 = []" "es_sent (sp_ethernetSocket s0) = []"
    by (rule createEx_prepared [of "\<lambda>_. Some [2, 0, 0, 0, 0, 1]" "c_str []" "[2, 0, 0, 0, 0, 1]" default_sv_parameters
          "replicate 1518 0" True]) (simp_all add: default_sv_parameters_def)
  define s1 where "s1 = s0\<lparr>sp_asduList := map (\<lambda>a. snd (SVPublisher_ASDU_addINT32 a))
    (sp_asduList (SVPublisher_addASDU s0 (c_str [0x73]) None 1))\<rparr>"
  note defs = s1_def s0(3) SVPublisher_addASDU_def SVPublisher_ASDU_addINT32_def c_str_def
  have p: "sv_prepared ?h s1" using s0(2) by (simp add: s1_def sv_prepared_def)
  have ok: "list_all asdu_ok (sp_asduList s1)" by (simp add: defs asdu_ok_def string_ok_def)
  have m: "total_asdu_length (sp_asduList s1) = Some 24"
    by (simp add: defs SVPublisher_ASDU_getEncodedSize_def BerEncoder_determineLengthSize_def)
  have "length (uint32_content 1) \<le> 5" "length ?h = 20"
    using uint32_content_bounds by (blast, simp add: sv_header_def default_sv_parameters_def vlan_bytes_def
        sv_header_bytes_def Let_def)
  then have fits: "length ?h + 6 + length (sv_head (length (sp_asduList s1)) 24) + 24 \<le> 1518"
    by (simp add: defs sv_head_def uint32_bytes_def Let_def length_bytes_def)
  obtain self vs where s: "sv_inv ?h self vs" "list_all2 asdu_of (sp_asduList s1) vs"
      "sp_ethernetSocket self = sp_ethernetSocket s1"
    by (rule setupComplete_inv [OF p ok m fits])
  have n: "length vs = 1" using list_all2_lengthD [OF s(2)] by (simp add: defs)
  have "asdu_of (sp_asduList s1 ! 0) (vs ! 0)" using list_all2_nthD2 [OF s(2), of 0] n by simp
  then show thesis
    using that [OF s(1) n] s(3) s0(4) by (simp add: asdu_of_def defs)
qed

theorem sv_delivered_witness:
  "\<exists>self vs self' packet mem es. SVPublisher_publish self = Some self' \<and> es_sent (sp_ethernetSocket self') = [packet] \<and>
    SVReceiver_tick packet listening = Some (True, listening\<lparr>sr_buffer := mem\<rparr>, es) \<and> length es = 1 \<and>
    v_svID (vs ! 0) = [0x73] \<and> list_all2 (heard (hd (sr_subscriberList listening))) es vs"
proof -
  obtain self vs where s: "sv_inv (sv_header default_sv_parameters [2, 0, 0, 0, 0, 1] True) self vs" "length vs = 1"
      "v_svID (vs ! 0) = [0x73]" "es_sent (sp_ethernetSocket self) = []"
    by (rule example_laid_out)
  have "vs \<noteq> []" using s(2) by auto
  from sv_delivered [OF s(1) _ _ this, of listening "hd (sr_subscriberList listening)"]
  obtain self' packet mem es where d: "SVPublisher_publish self = Some self'"
      "es_sent (sp_ethernetSocket self') = es_sent (sp_ethernetSocket self) @ [packet]"
      "SVReceiver_tick packet listening = Some (True, listening\<lparr>sr_buffer := mem\<rparr>, es)"
      "list_all2 (heard (hd (sr_subscriberList listening))) es vs"
    by (auto simp: listening_def SVReceiver_addSubscriber_def SVReceiver_create_def SVSubscriber_setListener_def
        default_sv_parameters_def)
  have "length es = 1" using list_all2_lengthD [OF d(4)] s(2) by simp
  then show ?thesis
    using d s(3,4)
    by (intro exI [of _ self] exI [of _ vs] exI [of _ self'] exI [of _ packet] exI [of _ mem] exI [of _ es]) simp
qed

text \<open>The getters read what the samples hold, as octets in network byte order.\<close>

lemma getters_read:
  assumes "heard sub e v"
  shows "(i + 1 \<le> length d \<and> v_data v = patch i [b] d \<longrightarrow>
      SVSubscriber_ASDU_getINT8 (ev_mem e) (ev_asdu e) (int i) = Some b \<and>
      SVSubscriber_ASDU_getINT8U (ev_mem e) (ev_asdu e) (int i) = Some b) \<and>
    (i + 4 \<le> length d \<and> v_data v = patch i (be_bytes x) d \<longrightarrow>
      SVSubscriber_ASDU_getINT32 (ev_mem e) (ev_asdu e) (int i) = Some x \<and>
      SVSubscriber_ASDU_getINT32U (ev_mem e) (ev_asdu e) (int i) = Some x \<and>
      SVSubscriber_ASDU_getFLOAT32 (ev_mem e) (ev_asdu e) (int i) = Some x) \<and>
    (i + 8 \<le> length d \<and> v_data v = patch i (be_bytes y) d \<longrightarrow>
      SVSubscriber_ASDU_getINT64 (ev_mem e) (ev_asdu e) (int i) = Some y \<and>
      SVSubscriber_ASDU_getINT64U (ev_mem e) (ev_asdu e) (int i) = Some y \<and>
      SVSubscriber_ASDU_getFLOAT64 (ev_mem e) (ev_asdu e) (int i) = Some y) \<and>
    (i + 8 \<le> length d \<and> ts_ok t \<and> v_data v = patch i (val t) d \<longrightarrow>
      SVSubscriber_ASDU_getTimestamp (ev_mem e) (ev_asdu e) (int i) = Some t) \<and>
    (i + 4 \<le> length d \<and> v_data v = patch i ([0, 0] @ be_bytes q) d \<longrightarrow>
      SVSubscriber_ASDU_getQuality (ev_mem e) (ev_asdu e) (int i) = Some q)"
proof -
  have data: "data_received e v" using assms by (simp add: heard_def received_def)
  have nth: "patch i bs d ! (i + j) = bs ! j" if "i + length bs \<le> length d" "j < length bs" for bs j
    using that by (simp add: patch_def nth_append)
  have q: "SVSubscriber_ASDU_getQuality (ev_mem e) (ev_asdu e) (int i) = Some q"
    if h: "i + 4 \<le> length d" "v_data v = patch i ([0, 0] @ be_bytes q) d"
  proof -
    have l: "length (v_data v) = length d" using h by simp
    have v: "v_data v ! (i + 2) = le_bytes q ! 1" "v_data v ! (i + 3) = le_bytes q ! 0"
      using nth [of "[0, 0] @ be_bytes q" 2] nth [of "[0, 0] @ be_bytes q" 3] h by (simp_all add: be_bytes16)
    obtain p where p: "su_dataBuffer (ev_asdu e) = Some p" "rd (ev_mem e) (int p + int (i + 2)) = Some (le_bytes q ! 1)"
        "rd (ev_mem e) (int p + int (i + 3)) = Some (le_bytes q ! 0)"
      using data_octet [OF data, of "i + 2"] data_octet [OF data, of "i + 3"] h(1) l v by auto
    then show ?thesis
      using quality_octets [of q] by (simp add: SVSubscriber_ASDU_getQuality_def add.assoc add.commute [of "int i"])
  qed
  have b: "\<exists>p. su_dataBuffer (ev_asdu e) = Some p \<and> rd (ev_mem e) (int p + int i) = Some b"
    if h: "i + 1 \<le> length d" "v_data v = patch i [b] d"
    using data_octet [OF data, of i] nth [of "[b]" 0] h by simp
  have t: "SVSubscriber_ASDU_getTimestamp (ev_mem e) (ev_asdu e) (int i) = Some t"
    if h: "i + 8 \<le> length d" "ts_ok t" "v_data v = patch i (val t) d"
    using data patch_read [of i "val t" d] h
    by (simp add: SVSubscriber_ASDU_getTimestamp_def data_received_def ts_ok_def)
  show ?thesis
    using q b t data_word [OF data, of i x d] data_word [OF data, of i y d]
    by (auto simp: SVSubscriber_ASDU_getINT8_def SVSubscriber_ASDU_getINT8U_def SVSubscriber_ASDU_getINT32_def
        SVSubscriber_ASDU_getINT32U_def SVSubscriber_ASDU_getFLOAT32_def SVSubscriber_ASDU_getINT64_def
        SVSubscriber_ASDU_getINT64U_def SVSubscriber_ASDU_getFLOAT64_def)
qed

text \<open>The way of a value: a setter is called on the ASDU \<open>k\<close>, the publisher publishes, the receiver gets the packet, and at the
  call of the listener for that ASDU the getter returns the value.\<close>

definition arrives ::
    "(buffer \<Rightarrow> SVPublisher_ASDU \<Rightarrow> buffer option) \<Rightarrow> (buffer \<Rightarrow> SVSubscriber_ASDU \<Rightarrow> 'v option) \<Rightarrow> 'v \<Rightarrow>
     SVPublisher \<Rightarrow> nat \<Rightarrow> SVReceiver \<Rightarrow> bool" where
  "arrives set_value get_value x self k r \<longleftrightarrow> (\<exists>self1 self2 packet mem es.
     on_asdu (\<lambda>mem a. map_option (\<lambda>mem. (mem, a)) (set_value mem a)) k self = Some self1 \<and>
     SVPublisher_publish self1 = Some self2 \<and>
     es_sent (sp_ethernetSocket self2) = es_sent (sp_ethernetSocket self) @ [packet] \<and>
     SVReceiver_tick packet r = Some (True, r\<lparr>sr_buffer := mem\<rparr>, es) \<and> k < length es \<and>
     get_value (ev_mem (es ! k)) (ev_asdu (es ! k)) = Some x)"

lemma octets_arrive:
  assumes "sv_inv (sv_header p mac True) self vs" and "length (dstAddress p) = 6" and "length mac = 6" and "k < length vs"
    and "length (sr_buffer r) = 1518" and "\<not> sr_checkDestAddr r"
    and "find (\<lambda>s. ss_appId (snd s) = appId p) (sr_subscriberList r) = Some sub" and "ss_listener (snd sub)"
    and set: "\<And>mem a. set_value mem a = write_at (sa_dataBuffer a) (int i) bs mem" and i: "i + length bs \<le> length (v_data (vs ! k))"
    and get: "\<And>e v. heard sub e v \<Longrightarrow> v_data v = patch i bs (v_data (vs ! k)) \<Longrightarrow> get_value (ev_mem e) (ev_asdu e) = Some x"
  shows "arrives set_value get_value x self k r"
proof -
  let ?v = "(vs ! k)\<lparr>v_data := patch i bs (v_data (vs ! k))\<rparr>"
  have op: "(\<lambda>mem a. map_option (\<lambda>mem. (mem, a)) (set_value mem a)) = set_data (int i) bs"
    by (simp add: fun_eq_iff set_data_def set)
  obtain self1 where s1: "on_asdu (set_data (int i) bs) k self = Some self1" "sv_inv (sv_header p mac True) self1 (vs[k := ?v])"
      "sp_ethernetSocket self1 = sp_ethernetSocket self"
    using set_data.refines [OF assms(1,4), of "int i" bs] i by auto
  obtain self2 where s2: "SVPublisher_publish self1 = Some self2"
      "es_sent (sp_ethernetSocket self2) = es_sent (sp_ethernetSocket self1) @ [drop 14 (sv_frame (sv_header p mac True) (vs[k := ?v]))]"
    by (rule publish_frame [OF s1(2)])
  have "vs[k := ?v] \<noteq> []" using assms(4) by auto
  then obtain mem es where t: "SVReceiver_tick (sv_packet p mac (vs[k := ?v])) r = Some (True, r\<lparr>sr_buffer := mem\<rparr>, es)"
      "list_all2 (heard sub) es (vs[k := ?v])"
    using tick_heard [OF s1(2) assms(2,3) _ assms(5-8)] by metis
  have k: "k < length es" using list_all2_lengthD [OF t(2)] assms(4) by simp
  then have "heard sub (es ! k) ?v" using list_all2_nthD2 [OF t(2), of k] assms(4) by simp
  from get [OF this] have "get_value (ev_mem (es ! k)) (ev_asdu (es ! k)) = Some x" by simp
  then show ?thesis unfolding arrives_def op using s1 s2 t(1) k by (auto simp: sv_packet_def)
qed

text \<open>C14. Values survive the way from a setter to a getter: in a laid out publisher, any setter of the samples is called for any
  ASDU and any index at which its value fits; when the publisher then publishes and the receiver gets the packet, the listener
  is called for that ASDU and the getter of the same type reads the value at that index. This holds for integers of 8, 32 and 64
  bits, which are read as signed and as unsigned ones, for floats of both sizes (as their octets), time stamps and qualities.\<close>

theorem sv_values_roundtrip:
  assumes "sv_inv (sv_header p mac True) self vs" and "length (dstAddress p) = 6" and "length mac = 6" and "k < length vs"
    and "length (sr_buffer r) = 1518" and "\<not> sr_checkDestAddr r"
    and "find (\<lambda>s. ss_appId (snd s) = appId p) (sr_subscriberList r) = Some sub" and "ss_listener (snd sub)"
  defines "room \<equiv> length (v_data (vs ! k))"
  shows "(i + 1 \<le> room \<longrightarrow>
      arrives (\<lambda>mem a. SVPublisher_ASDU_setINT8 mem a (int i) b) (\<lambda>mem a. SVSubscriber_ASDU_getINT8 mem a (int i)) b self k r \<and>
      arrives (\<lambda>mem a. SVPublisher_ASDU_setINT8 mem a (int i) b) (\<lambda>mem a. SVSubscriber_ASDU_getINT8U mem a (int i)) b self k r) \<and>
    (i + 4 \<le> room \<longrightarrow>
      arrives (\<lambda>mem a. SVPublisher_ASDU_setINT32 mem a (int i) x) (\<lambda>mem a. SVSubscriber_ASDU_getINT32 mem a (int i)) x self k r \<and>
      arrives (\<lambda>mem a. SVPublisher_ASDU_setINT32 mem a (int i) x) (\<lambda>mem a. SVSubscriber_ASDU_getINT32U mem a (int i)) x self k r \<and>
      arrives (\<lambda>mem a. SVPublisher_ASDU_setFLOAT mem a (int i) x) (\<lambda>mem a. SVSubscriber_ASDU_getFLOAT32 mem a (int i)) x self k r \<and>
      arrives (\<lambda>mem a. SVPublisher_ASDU_setQuality mem a (int i) q) (\<lambda>mem a. SVSubscriber_ASDU_getQuality mem a (int i)) q self k r) \<and>
    (i + 8 \<le> room \<longrightarrow>
      arrives (\<lambda>mem a. SVPublisher_ASDU_setINT64 mem a (int i) y) (\<lambda>mem a. SVSubscriber_ASDU_getINT64 mem a (int i)) y self k r \<and>
      arrives (\<lambda>mem a. SVPublisher_ASDU_setINT64 mem a (int i) y) (\<lambda>mem a. SVSubscriber_ASDU_getINT64U mem a (int i)) y self k r \<and>
      arrives (\<lambda>mem a. SVPublisher_ASDU_setFLOAT64 mem a (int i) y) (\<lambda>mem a. SVSubscriber_ASDU_getFLOAT64 mem a (int i)) y self k r \<and>
      (ts_ok t \<longrightarrow>
        arrives (\<lambda>mem a. SVPublisher_ASDU_setTimestamp mem a (int i) t) (\<lambda>mem a. SVSubscriber_ASDU_getTimestamp mem a (int i)) t self k r))"
proof -
  note way = octets_arrive [OF assms(1-8)] and read = getters_read [where d = "v_data (vs ! k)" and i = i]
  have "arrives (\<lambda>mem a. SVPublisher_ASDU_setINT8 mem a (int i) b) (\<lambda>mem a. SVSubscriber_ASDU_getINT8 mem a (int i)) b self k r"
    "arrives (\<lambda>mem a. SVPublisher_ASDU_setINT8 mem a (int i) b) (\<lambda>mem a. SVSubscriber_ASDU_getINT8U mem a (int i)) b self k r"
    if "i + 1 \<le> room"
    using that read unfolding room_def by (intro way [where bs = "[b]" and i = i]; simp add: data_setters)+
  moreover have "arrives (\<lambda>mem a. SVPublisher_ASDU_setINT32 mem a (int i) x) (\<lambda>mem a. SVSubscriber_ASDU_getINT32 mem a (int i)) x self k r"
    "arrives (\<lambda>mem a. SVPublisher_ASDU_setINT32 mem a (int i) x) (\<lambda>mem a. SVSubscriber_ASDU_getINT32U mem a (int i)) x self k r"
    "arrives (\<lambda>mem a. SVPublisher_ASDU_setFLOAT mem a (int i) x) (\<lambda>mem a. SVSubscriber_ASDU_getFLOAT32 mem a (int i)) x self k r"
    if "i + 4 \<le> room"
    using that read unfolding room_def by (intro way [where bs = "be_bytes x" and i = i]; simp add: data_setters)+
  moreover have "arrives (\<lambda>mem a. SVPublisher_ASDU_setQuality mem a (int i) q) (\<lambda>mem a. SVSubscriber_ASDU_getQuality mem a (int i)) q self k r"
    if "i + 4 \<le> room"
    using that read unfolding room_def by (intro way [where bs = "[0, 0] @ be_bytes q" and i = i]; simp add: data_setters)
  moreover have "arrives (\<lambda>mem a. SVPublisher_ASDU_setINT64 mem a (int i) y) (\<lambda>mem a. SVSubscriber_ASDU_getINT64 mem a (int i)) y self k r"
    "arrives (\<lambda>mem a. SVPublisher_ASDU_setINT64 mem a (int i) y) (\<lambda>mem a. SVSubscriber_ASDU_getINT64U mem a (int i)) y self k r"
    "arrives (\<lambda>mem a. SVPublisher_ASDU_setFLOAT64 mem a (int i) y) (\<lambda>mem a. SVSubscriber_ASDU_getFLOAT64 mem a (int i)) y self k r"
    if "i + 8 \<le> room"
    using that read unfolding room_def by (intro way [where bs = "be_bytes y" and i = i]; simp add: data_setters)+
  moreover have "arrives (\<lambda>mem a. SVPublisher_ASDU_setTimestamp mem a (int i) t) (\<lambda>mem a. SVSubscriber_ASDU_getTimestamp mem a (int i)) t self k r"
    if "i + 8 \<le> room" "ts_ok t"
    using that read unfolding room_def by (intro way [where bs = "val t" and i = i]; simp add: data_setters ts_ok_def)
  ultimately show ?thesis by blast
qed

theorem sv_values_roundtrip_witness:
  "\<exists>self. arrives (\<lambda>mem a. SVPublisher_ASDU_setINT32 mem a (int 0) 0x01020304)
    (\<lambda>mem a. SVSubscriber_ASDU_getINT32 mem a (int 0)) 0x01020304 self 0 listening"
proof -
  obtain self vs where s: "sv_inv (sv_header default_sv_parameters [2, 0, 0, 0, 0, 1] True) self vs" "length vs = 1"
      "v_svID (vs ! 0) = [0x73]" "length (v_data (vs ! 0)) = 4"
    by (rule example_laid_out)
  have k: "0 < length vs" using s(2) by simp
  have "length (sr_buffer listening) = 1518" "\<not> sr_checkDestAddr listening"
      "find (\<lambda>s. ss_appId (snd s) = appId default_sv_parameters) (sr_subscriberList listening) = Some (hd (sr_subscriberList listening))"
      "ss_listener (snd (hd (sr_subscriberList listening)))"
    by (simp_all add: listening_def SVReceiver_addSubscriber_def SVReceiver_create_def SVSubscriber_setListener_def default_sv_parameters_def)
  from sv_values_roundtrip [OF s(1) _ _ k this, of 0 _ "0x01020304"] s(4) show ?thesis
    by (auto simp: default_sv_parameters_def)
qed

lemma matching_none:
  assumes "6 \<le> length mem" and "mem ! 2 = 0x88"
    and "\<forall>s \<in> set subs. ss_appId (snd s) = app \<longrightarrow> ss_ethAddr (snd s) ! 2 \<noteq> 0x88"
  shows "matching_subscriber True mem app subs = Some None"
  using assms(3)
proof (induction subs)
  case (Cons s subs)
  have "rd_bytes mem 0 6 = Some (take 6 mem)" using assms(1) by (simp add: rd_bytes_def)
  moreover have "take 6 mem ! 2 = 0x88" using assms by simp
  ultimately show ?case using Cons by (cases "take 6 mem = ss_ethAddr (snd s)") auto
qed simp

text \<open>C30. With the destination check enabled the message does not arrive: the receiver compares the first
  six octets of the packet, which start with the VLAN tag and the EtherType since the network has removed
  the addresses, with the address of the subscriber. No listener is called when the third octet of every
  registered address for the application id differs from the first octet of the EtherType, as it does for
  the sampled values multicast addresses.\<close>

theorem sv_dest_check:
  assumes "sv_inv (sv_header p mac True) self vs" and "length (dstAddress p) = 6" and "length mac = 6"
    and "length (sr_buffer r) = 1518" and "sr_checkDestAddr r"
    and "\<forall>s \<in> set (sr_subscriberList r). ss_appId (snd s) = appId p \<longrightarrow> ss_ethAddr (snd s) ! 2 \<noteq> 0x88"
  shows "\<exists>mem. SVReceiver_tick (sv_packet p mac vs) r = Some (True, r\<lparr>sr_buffer := mem\<rparr>, [])"
proof -
  let ?pkt = "sv_packet p mac vs"
  obtain t1 t2 where pkt: "?pkt = [t1, t2, 0x88, 0xba, ucast (appId p div 256), ucast (appId p mod 256)]
      @ length_octets16 (length (sv_apdu vs) + 8) @ [0, 0, 0, 0] @ sv_apdu vs"
    using sv_packet_octets [OF assms(2,3)] by blast
  have le: "length ?pkt \<le> 1518" using sv_inv_wf(3) [OF assms(1)] by (simp add: sv_packet_def)
  let ?m = "?pkt @ drop (length ?pkt) (sr_buffer r)"
  have rcv: "Ethernet_receivePacket ?pkt (sr_buffer r) 1518 = Some (length ?pkt, ?m)"
    using receivePacket_copies [OF le, of "sr_buffer r"] assms(4) by simp
  have m: "6 \<le> length ?m" "?m ! 2 = 0x88" unfolding pkt by simp_all
  have rds: "rd ?m 2 = Some 0x88" "rd ?m 3 = Some 0xba" "rd ?m 4 = Some (ucast (appId p div 256))"
      "rd ?m 5 = Some (ucast (appId p mod 256))" "\<exists>b. rd ?m 6 = Some b" "\<exists>b. rd ?m 7 = Some b"
    unfolding pkt by (simp_all add: rd_def length_octets16_def)
  have "matching_subscriber True ?m (appId p) (sr_subscriberList r) = Some None"
    by (rule matching_none [OF m assms(6)])
  then have "parseSVMessage (r\<lparr>sr_buffer := ?m\<rparr>) (int (length ?pkt)) = Some (r\<lparr>sr_buffer := ?m\<rparr>, [])"
    using rds assms(5) by (auto simp: parseSVMessage_def Let_def app_id_value [simplified])
  moreover have "0 < length ?pkt" unfolding pkt by simp
  ultimately show ?thesis using rcv by (intro exI [of _ ?m]) (simp add: SVReceiver_tick_def)
qed

theorem sv_dest_check_witness:
  "\<exists>vs mem. SVReceiver_tick (sv_packet default_sv_parameters [2, 0, 0, 0, 0, 1] vs) (SVReceiver_enableDestAddrCheck listening)
    = Some (True, (SVReceiver_enableDestAddrCheck listening)\<lparr>sr_buffer := mem\<rparr>, []) \<and> length vs = 1"
proof -
  obtain self vs where s: "sv_inv (sv_header default_sv_parameters [2, 0, 0, 0, 0, 1] True) self vs" "length vs = 1"
    by (rule example_laid_out)
  have "\<exists>mem. SVReceiver_tick (sv_packet default_sv_parameters [2, 0, 0, 0, 0, 1] vs) (SVReceiver_enableDestAddrCheck listening)
    = Some (True, (SVReceiver_enableDestAddrCheck listening)\<lparr>sr_buffer := mem\<rparr>, [])"
    by (rule sv_dest_check [OF s(1)])
      (simp_all add: listening_def SVReceiver_addSubscriber_def SVReceiver_create_def SVReceiver_enableDestAddrCheck_def
        SVSubscriber_setListener_def default_sv_parameters_def)
  then show ?thesis using s(2) by blast
qed

end
