(* ===== verification/Sv_App.thy ===== *)
theory Sv_App
  imports Sv_Link Ns3_Simulator Device_Util
begin

text \<open>
  The sampled values applications, \<open>src/model/sv-publisher-app.cc\<close> and
  \<open>src/model/sv-subscriber-app.cc\<close>. The publisher application measures one sample per call of \<open>Measure\<close>,
  stores it in one of the ASDUs of the message, and sends the message when the last ASDU is filled.
  Floats are the words of their octets, and the floating point operations of the machine are the
  argument \<open>fp\<close>. A pointer to an ASDU
  is its position in the list of the publisher. The arrays of the application have eight elements; an
  access outside an array is \<open>None\<close>.
\<close>

section \<open>The publisher application\<close>

datatype sv_handler = Measure

record SVPublisherApp =
  sva_svPublisher :: "SVPublisher option"
  sva_offsets :: "int list list"
  sva_asdus :: "nat option list"
  sva_vals :: "uint32 list list"
  sva_tss :: "int list"
  sva_count :: uint64
  sva_deviceIndex :: uint64
  sva_frequency :: uint64
  sva_samplesPerCycle :: uint64
  sva_samplesPerMessage :: byte
  sva_sampleIndex :: byte
  sva_eventId :: "nat option"
  sva_sent :: uint64
  sva_interval :: int

text \<open>The attributes and their defaults; \<open>memory\<close> is the content of the float array.\<close>

definition SVPublisher_GetTypeId :: "uint32 list list \<Rightarrow> SVPublisherApp" where
  "SVPublisher_GetTypeId memory = \<lparr>sva_svPublisher = None, sva_offsets = replicate 8 (replicate 8 0),
     sva_asdus = replicate 8 None, sva_vals = memory, sva_tss = replicate 8 0, sva_count = 0,
     sva_deviceIndex = 0, sva_frequency = 60, sva_samplesPerCycle = 1, sva_samplesPerMessage = 1,
     sva_sampleIndex = 0, sva_eventId = None, sva_sent = 0, sva_interval = 0\<rparr>"

definition arr_get :: "'a list \<Rightarrow> nat \<Rightarrow> 'a option" where
  "arr_get xs i = (if i < length xs then Some (xs ! i) else None)"

definition arr_set :: "'a list \<Rightarrow> nat \<Rightarrow> 'a \<Rightarrow> 'a list option" where
  "arr_set xs i x = (if i < length xs then Some (xs[i := x]) else None)"

text \<open>
  \<open>MicroSeconds(1000000. / (frequency * samplesPerCycle))\<close>: the product wraps at 64 bits, the quotient
  is cut to an integer, and a product of 0 has no integer quotient.
\<close>

definition sample_interval :: "uint64 \<Rightarrow> uint64 \<Rightarrow> int option" where
  "sample_interval frequency samplesPerCycle =
     (let n = uint (frequency * samplesPerCycle)
      in if n = 0 then None else Some (1000 * (1000000 div n)))"

text \<open>The inner loop: eight floats are added, the offsets are kept.\<close>

fun add_floats :: "nat \<Rightarrow> SVPublisher_ASDU \<Rightarrow> int list \<times> SVPublisher_ASDU" where
  "add_floats 0 a = ([], a)"
| "add_floats (Suc n) a =
     (let (offset, a) = SVPublisher_ASDU_addFLOAT a; (offsets, a) = add_floats n a
      in (int offset # offsets, a))"

text \<open>
  One pass of the outer loop. The name that is passed is a local string of the loop body, and the
  ASDU keeps the pointer: \<open>svIDs j\<close> is what the pointer shows later.
\<close>

definition add_asdu ::
    "(nat \<Rightarrow> byte list) \<Rightarrow> nat \<Rightarrow> SVPublisher \<times> SVPublisherApp \<Rightarrow> (SVPublisher \<times> SVPublisherApp) option" where
  "add_asdu svIDs j s = (case s of (publisher, self) \<Rightarrow> do {
     let publisher = SVPublisher_addASDU publisher (svIDs j) None 1;
     let k = length (sp_asduList publisher) - 1;
     asdus \<leftarrow> arr_set (sva_asdus self) j (Some k);
     let (row, a) = add_floats 8 (sp_asduList publisher ! k);
     offsets \<leftarrow> arr_set (sva_offsets self) j row;
     let (offset, a) = SVPublisher_ASDU_addTimestamp a;
     tss \<leftarrow> arr_set (sva_tss self) j (int offset);
     Some (publisher\<lparr>sp_asduList := (sp_asduList publisher)[k := a]\<rparr>,
       self\<lparr>sva_asdus := asdus, sva_offsets := offsets, sva_tss := tss\<rparr>) })"

fun add_asdus ::
    "(nat \<Rightarrow> byte list) \<Rightarrow> nat list \<Rightarrow> SVPublisher \<times> SVPublisherApp \<Rightarrow> (SVPublisher \<times> SVPublisherApp) option" where
  "add_asdus svIDs [] s = Some s"
| "add_asdus svIDs (j # js) s = do { s \<leftarrow> add_asdu svIDs j s; add_asdus svIDs js s }"

definition SVPublisher_StartApplication ::
    "(sv_handler, 'sim) simulator \<Rightarrow> devices \<Rightarrow> buffer \<Rightarrow> (nat \<Rightarrow> byte list) \<Rightarrow> uint32 \<Rightarrow> 'sim \<Rightarrow> SVPublisherApp \<Rightarrow>
     ('sim \<times> SVPublisherApp) option" where
  "SVPublisher_StartApplication S devices heap svIDs nodeId sim self = do {
     interval \<leftarrow> sample_interval (sva_frequency self) (sva_samplesPerCycle self);
     let self = self\<lparr>sva_interval := interval\<rparr>;
     let path = device_path nodeId (sva_deviceIndex self);
     publisher \<leftarrow> SVPublisher_create devices heap None (Some (c_str path));
     (publisher, self) \<leftarrow> add_asdus svIDs [0..<unat (sva_samplesPerMessage self)] (publisher, self);
     publisher \<leftarrow> SVPublisher_setupComplete publisher;
     let self = self\<lparr>sva_svPublisher := Some publisher,
       sva_count := (if sva_count self \<le> 0 then - 1 else sva_count self), sva_sent := 0, sva_sampleIndex := 0\<rparr>;
     let (e, sim) = sim_ScheduleNow S Measure sim;
     Some (sim, self\<lparr>sva_eventId := Some e\<rparr>) }"

definition SVPublisher_Send :: "SVPublisherApp \<Rightarrow> SVPublisherApp option" where
  "SVPublisher_Send self = do {
     publisher \<leftarrow> sva_svPublisher self;
     publisher \<leftarrow> SVPublisher_publish publisher;
     Some (self\<lparr>sva_svPublisher := Some publisher, sva_count := sva_count self - 1,
       sva_sent := sva_sent self + 1\<rparr>) }"

text \<open>
  The floating point operations: single precision conversion, sum, product and quotient; double precision
  conversion and quotient, rounding to single precision, and \<open>sin\<close> of an angle times a factor.
\<close>

record float_ops =
  f_int :: "int \<Rightarrow> uint32"
  f_add :: "uint32 \<Rightarrow> uint32 \<Rightarrow> uint32"
  f_mul :: "uint32 \<Rightarrow> uint32 \<Rightarrow> uint32"
  f_div :: "uint32 \<Rightarrow> uint32 \<Rightarrow> uint32"
  d_int :: "int \<Rightarrow> uint64"
  d_div :: "uint64 \<Rightarrow> uint64 \<Rightarrow> uint64"
  d_round :: "uint64 \<Rightarrow> uint32"
  f_sin_times :: "uint32 \<Rightarrow> uint32 \<Rightarrow> uint32"

text \<open>The current of phase \<open>i\<close>; the constants are the single precision numbers 6.2831855 and 18000.\<close>

definition phase_value :: "float_ops \<Rightarrow> int \<Rightarrow> uint64 \<Rightarrow> nat \<Rightarrow> uint32" where
  "phase_value fp now frequency i =
     (let twoPi = 0x40c90fdb;
          nowNs = f_int fp now;
          periodNs = d_round fp (d_div fp (d_int fp 1000000000) (d_int fp (uint frequency)));
          amplitude = 0x468ca000;
          phaseAngle = f_div fp (f_mul fp (f_int fp (int i)) twoPi) (f_int fp 3);
          angle = f_add fp phaseAngle (f_div fp (f_mul fp twoPi nowNs) periodNs)
      in f_sin_times fp angle amplitude)"

text \<open>Three currents; the neutral current and the voltages are zero.\<close>

definition SVPublisher_UpdateValues ::
    "(sv_handler, 'sim) simulator \<Rightarrow> float_ops \<Rightarrow> 'sim \<Rightarrow> SVPublisherApp \<Rightarrow>
     SVPublisherApp option" where
  "SVPublisher_UpdateValues S fp sim self = do {
     let nowNs = sim_Now S sim;
     let row = map (phase_value fp nowNs (sva_frequency self)) [0..<3] @ [0] @ [0, 0, 0] @ [0];
     vals \<leftarrow> arr_set (sva_vals self) (unat (sva_sampleIndex self)) row;
     Some (self\<lparr>sva_vals := vals\<rparr>) }"

text \<open>The loop over the eight values of the sample.\<close>

fun set_values :: "nat \<Rightarrow> (int \<times> uint32) list \<Rightarrow> SVPublisher \<Rightarrow> SVPublisher option" where
  "set_values k [] publisher = Some publisher"
| "set_values k ((offset, value) # vs) publisher = do {
     publisher \<leftarrow> on_asdu (\<lambda>mem a. map_option (\<lambda>mem. (mem, a)) (SVPublisher_ASDU_setFLOAT mem a offset value)) k publisher;
     set_values k vs publisher }"

text \<open>\<open>stack\<close> is the content of the local time stamp before it is set.\<close>

definition SVPublisher_Measure ::
    "(sv_handler, 'sim) simulator \<Rightarrow> float_ops \<Rightarrow> byte list \<Rightarrow> 'sim \<Rightarrow> SVPublisherApp \<Rightarrow>
     ('sim \<times> SVPublisherApp) option" where
  "SVPublisher_Measure S fp stack sim self =
     (if sva_count self = 0 then Some (sim, self)
      else do {
        let j = unat (sva_sampleIndex self);
        let ts = Timestamp_setTimeInNanoseconds (Timestamp_clearFlags \<lparr>val = stack\<rparr>) (Hal_getTimeInNs S sim);
        self \<leftarrow> SVPublisher_UpdateValues S fp sim self;
        publisher \<leftarrow> sva_svPublisher self;
        asdu \<leftarrow> arr_get (sva_asdus self) j;
        k \<leftarrow> asdu;
        offsets \<leftarrow> arr_get (sva_offsets self) j;
        vals \<leftarrow> arr_get (sva_vals self) j;
        publisher \<leftarrow> set_values k (zip offsets vals) publisher;
        publisher \<leftarrow> on_asdu SVPublisher_ASDU_increaseSmpCnt k publisher;
        offset \<leftarrow> arr_get (sva_tss self) j;
        publisher \<leftarrow> on_asdu (\<lambda>mem a. map_option (\<lambda>mem. (mem, a)) (SVPublisher_ASDU_setTimestamp mem a offset ts)) k publisher;
        let self = self\<lparr>sva_svPublisher := Some publisher, sva_sampleIndex := sva_sampleIndex self + 1\<rparr>;
        self \<leftarrow> (if sva_sampleIndex self = sva_samplesPerMessage self
                 then SVPublisher_Send (self\<lparr>sva_sampleIndex := 0\<rparr>) else Some self);
        let (e, sim) = sim_Schedule S (sva_interval self) Measure sim;
        Some (sim, self\<lparr>sva_eventId := Some e\<rparr>) })"

definition SVPublisher_StopApplication ::
    "(sv_handler, 'sim) simulator \<Rightarrow> 'sim \<Rightarrow> SVPublisherApp \<Rightarrow> ('sim \<times> SVPublisherApp) option" where
  "SVPublisher_StopApplication S sim self = do {
     let sim = sim_Cancel S (sva_eventId self) sim;
     publisher \<leftarrow> sva_svPublisher self;
     Some (sim, self\<lparr>sva_svPublisher := None\<rparr>) }"

inductive sv_step ::
    "(sv_handler, 'sim) simulator \<Rightarrow> ('sim \<Rightarrow> sv_handler sim_view) \<Rightarrow> float_ops \<Rightarrow>
     'sim \<times> SVPublisherApp \<Rightarrow> 'sim \<times> SVPublisherApp \<Rightarrow> bool"
  for S view fp where
  measure: "takes_event (view sim) e Measure (view sim1) \<Longrightarrow> length stack = 8 \<Longrightarrow>
    SVPublisher_Measure S fp stack sim1 self = Some (sim2, self2) \<Longrightarrow>
    sv_step S view fp (sim, self) (sim2, self2)"

inductive_cases sv_stepE: "sv_step S view fp (sim, self) s'"

section \<open>The subscriber application\<close>

record SVSample =
  smp_sampleTimestamp :: uint64
  smp_receivedTimestamp :: uint64
  smp_smpCnt :: uint16
  smp_ia :: uint64
  smp_ib :: uint64
  smp_ic :: uint64

definition new_sample :: SVSample where
  "new_sample = \<lparr>smp_sampleTimestamp = 0, smp_receivedTimestamp = 0, smp_smpCnt = 0, smp_ia = 0, smp_ib = 0, smp_ic = 0\<rparr>"

record SVSubscriberApp =
  ssa_receiver :: "SVReceiver option"
  ssa_deviceIndex :: uint64
  ssa_received :: uint64
  ssa_lastSample :: SVSample

definition SVSubscriber_GetTypeId :: SVSubscriberApp where
  "SVSubscriber_GetTypeId = \<lparr>ssa_receiver = None, ssa_deviceIndex = 0, ssa_received = 0, ssa_lastSample = new_sample\<rparr>"

text \<open>\<open>address\<close> is where the subscriber is allocated.\<close>

definition SVSubscriber_StartApplication ::
    "devices \<Rightarrow> buffer \<Rightarrow> nat \<Rightarrow> uint32 \<Rightarrow> SVSubscriberApp \<Rightarrow> SVSubscriberApp option" where
  "SVSubscriber_StartApplication devices heap address nodeId self = do {
     let path = device_path nodeId (ssa_deviceIndex self);
     receiver \<leftarrow> SVReceiver_setInterfaceId (SVReceiver_create heap) (c_str path);
     subscriber \<leftarrow> SVSubscriber_create None 0x4000;
     let subscriber = SVSubscriber_setListener subscriber True None;
     let self = self\<lparr>ssa_received := 0, ssa_lastSample := new_sample\<rparr>;
     let receiver = SVReceiver_addSubscriber receiver (address, subscriber);
     (receiver, callback) \<leftarrow> SVReceiver_start devices receiver;
     Some (self\<lparr>ssa_receiver := Some receiver\<rparr>) }"

definition SVSubscriber_Receive :: "uint64 \<Rightarrow> sv_event \<Rightarrow> SVSubscriberApp \<Rightarrow> SVSubscriberApp option" where
  "SVSubscriber_Receive nowNs event self = do {
     let mem = ev_mem event; let asdu = ev_asdu event;
     ts \<leftarrow> SVSubscriber_ASDU_getTimestamp mem asdu 32;
     smpCnt \<leftarrow> SVSubscriber_ASDU_getSmpCnt mem asdu;
     ia \<leftarrow> SVSubscriber_ASDU_getFLOAT32 mem asdu 0;
     ib \<leftarrow> SVSubscriber_ASDU_getFLOAT32 mem asdu 4;
     ic \<leftarrow> SVSubscriber_ASDU_getFLOAT32 mem asdu 8;
     Some (self\<lparr>ssa_lastSample := \<lparr>smp_sampleTimestamp = Timestamp_getTimeInNs ts, smp_receivedTimestamp = nowNs,
         smp_smpCnt = smpCnt, smp_ia = f32_to_f64 ia, smp_ib = f32_to_f64 ib, smp_ic = f32_to_f64 ic\<rparr>,
       ssa_received := ssa_received self + 1\<rparr>) }"

text \<open>The listener is called for every ASDU of a packet.\<close>

fun receive_events :: "uint64 \<Rightarrow> sv_event list \<Rightarrow> SVSubscriberApp \<Rightarrow> SVSubscriberApp option" where
  "receive_events nowNs [] self = Some self"
| "receive_events nowNs (e # es) self = do {
     self \<leftarrow> SVSubscriber_Receive nowNs e self;
     receive_events nowNs es self }"

definition receive_packet :: "uint64 \<Rightarrow> buffer \<Rightarrow> SVSubscriberApp \<Rightarrow> SVSubscriberApp option" where
  "receive_packet nowNs packet self = do {
     receiver \<leftarrow> ssa_receiver self;
     (receiver, events) \<leftarrow> receiveCallback packet receiver;
     receive_events nowNs events (self\<lparr>ssa_receiver := Some receiver\<rparr>) }"

definition SVSubscriber_GetLastSample :: "SVSubscriberApp \<Rightarrow> SVSample" where
  "SVSubscriber_GetLastSample self = ssa_lastSample self"

definition SVSubscriber_StopApplication :: "SVSubscriberApp \<Rightarrow> SVSubscriberApp option" where
  "SVSubscriber_StopApplication self = do {
     receiver \<leftarrow> ssa_receiver self;
     Some (self\<lparr>ssa_receiver := None\<rparr>) }"

fun receive_packets :: "(uint64 \<times> buffer) list \<Rightarrow> SVSubscriberApp \<Rightarrow> SVSubscriberApp option" where
  "receive_packets [] self = Some self"
| "receive_packets ((nowNs, packet) # ps) self = do {
     self \<leftarrow> receive_packet nowNs packet self;
     receive_packets ps self }"

end
