(* ===== verification/Sv_Publication.thy ===== *)
theory Sv_Publication
  imports Sv_Update
begin

text \<open>
  What a sampled values publisher guarantees: the layout of its frame, the effect of every operation on
  the abstract ASDUs, the course of the sample counter, and the packet that a publish sends.
\<close>

section \<open>Counting samples\<close>

fun increase_all :: "nat \<Rightarrow> nat \<Rightarrow> SVPublisher \<Rightarrow> SVPublisher option" where
  "increase_all 0 k self = Some self"
| "increase_all (Suc n) k self = do {
     self \<leftarrow> on_asdu SVPublisher_ASDU_increaseSmpCnt k self;
     increase_all n k self }"

lemma increase_limit:
  assumes "on_asdu SVPublisher_ASDU_increaseSmpCnt k self = Some self'" and "k < length (sp_asduList self)"
  shows "sa_smpCntLimit (sp_asduList self' ! k) = sa_smpCntLimit (sp_asduList self ! k)"
  using assms
  by (auto simp: on_asdu_def SVPublisher_ASDU_increaseSmpCnt_def store_smpCnt_def split: Option.bind_splits if_splits)

lemma increase_all_counts:
  assumes "sv_inv hdr self vs" and "k < length vs" and "sa_smpCntLimit (sp_asduList self ! k) = limit" and "limit \<noteq> 0"
  shows "\<exists>self' m. increase_all n k self = Some self' \<and> sv_inv hdr self' (vs[k := (vs ! k)\<lparr>v_smpCnt := m\<rparr>]) \<and>
    (0 < n \<longrightarrow> unat m = (unat (v_smpCnt (vs ! k)) + n) mod unat limit)"
  using assms
proof (induction n arbitrary: self vs)
  case 0
  then show ?case by (intro exI [of _ self] exI [of _ "v_smpCnt (vs ! k)"]) simp
next
  case (Suc n)
  let ?a = "sp_asduList self ! k"
  let ?m = "next_smpCnt ?a (vs ! k)"
  let ?vs = "vs[k := (vs ! k)\<lparr>v_smpCnt := ?m\<rparr>]"
  obtain self1 where s1: "on_asdu SVPublisher_ASDU_increaseSmpCnt k self = Some self1" "sv_inv hdr self1 ?vs"
    using increase_smpCnt.refines [OF Suc.prems(1,2)] Suc.prems(3,4) by auto
  have "length (sp_asduList self) = length vs"
    using Suc.prems(1) placed_all_length by (auto simp: sv_inv_def)
  then have lim: "sa_smpCntLimit (sp_asduList self1 ! k) = limit"
    using increase_limit [OF s1(1)] Suc.prems(2,3) by simp
  obtain self2 m where s2: "increase_all n k self1 = Some self2"
      "sv_inv hdr self2 (?vs[k := (?vs ! k)\<lparr>v_smpCnt := m\<rparr>])"
      "0 < n \<longrightarrow> unat m = (unat (v_smpCnt (?vs ! k)) + n) mod unat limit"
    using Suc.IH [OF s1(2) _ lim Suc.prems(4)] Suc.prems(2) by auto
  have m1: "unat ?m = (unat (v_smpCnt (vs ! k)) + 1) mod unat limit"
    using next_smpCnt_mod [of ?a "vs ! k"] Suc.prems(3,4) by simp
  show ?case
  proof (cases n)
    case 0
    then show ?thesis using s1 m1 by (intro exI [of _ self1] exI [of _ ?m]) simp
  next
    case (Suc j)
    then have "unat m = ((unat (v_smpCnt (vs ! k)) + 1) mod unat limit + n) mod unat limit"
      using s2(3) m1 \<open>k < length vs\<close> by simp
    also have "\<dots> = (unat (v_smpCnt (vs ! k)) + Suc n) mod unat limit"
      unfolding mod_add_left_eq by simp
    finally show ?thesis
      using s1(1) s2(1,2) \<open>k < length vs\<close> by (intro exI [of _ self2] exI [of _ m]) simp
  qed
qed

section \<open>Properties\<close>

text \<open>C13. The layout of the frame: a publisher with its headers and with ASDUs whose names are strings is
  laid out completely when the APDU fits the frame buffer. Afterwards the buffer starts with the headers,
  the length, and the octets of the abstract ASDUs, each of which has the settings of its ASDU, and every
  ASDU holds the positions of its fields.\<close>

theorem sv_layout:
  assumes "sv_prepared hdr self" and "list_all asdu_ok (sp_asduList self)"
    and "total_asdu_length (sp_asduList self) = Some m"
    and "length hdr + 6 + length (sv_head (length (sp_asduList self)) m) + m \<le> 1518"
  shows "\<exists>self' vs. SVPublisher_setupComplete self = Some self' \<and> sv_inv hdr self' vs \<and>
    take (sp_payloadStart self' + sp_payloadLength self') (sp_buffer self') = sv_frame hdr vs \<and>
    list_all2 asdu_of (sp_asduList self) vs \<and> list_all2 same_settings (sp_asduList self) (sp_asduList self')"
proof -
  obtain self' vs where s: "SVPublisher_setupComplete self = Some self'" "sv_inv hdr self' vs"
      "list_all2 asdu_of (sp_asduList self) vs" "list_all2 same_settings (sp_asduList self) (sp_asduList self')"
    by (rule setupComplete_inv [OF assms])
  moreover have "sp_payloadStart self' + sp_payloadLength self' = length (sv_frame hdr vs)"
    using s(2) by (simp add: sv_inv_def sv_prepared_def sv_frame_def length_octets16_def)
  ultimately show ?thesis unfolding sv_inv_def by metis
qed

definition example_sv :: SVPublisher where
  "example_sv = SVPublisher_addASDU (new_SVPublisher\<lparr>sp_buffer := replicate 1518 0, sp_lengthField := 20,
     sp_payloadStart := 26\<rparr>) (c_str [0x73]) None 1"

definition example_sized :: SVPublisher where
  "example_sized = example_sv\<lparr>sp_asduList := map (\<lambda>a. snd (SVPublisher_ASDU_addINT32
     (SVPublisher_ASDU_enableRefrTm (SVPublisher_ASDU_setSmpCntWrap a 4000)))) (sp_asduList example_sv)\<rparr>"

lemmas example_defs = example_sized_def example_sv_def new_SVPublisher_def SVPublisher_addASDU_def c_str_def
  SVPublisher_ASDU_addINT32_def SVPublisher_ASDU_enableRefrTm_def SVPublisher_ASDU_setSmpCntWrap_def

lemma example_premises:
  "sv_prepared (replicate 20 0) example_sized" "list_all asdu_ok (sp_asduList example_sized)"
  "total_asdu_length (sp_asduList example_sized) = Some 34"
  "length (replicate 20 (0 :: byte)) + 6 + length (sv_head (length (sp_asduList example_sized)) 34) + 34 \<le> 1518"
proof -
  show "sv_prepared (replicate 20 0) example_sized"
    by (simp add: sv_prepared_def example_defs) (simp add: numeral_eq_Suc)
  show "list_all asdu_ok (sp_asduList example_sized)"
    by (simp add: example_defs asdu_ok_def string_ok_def)
  show "total_asdu_length (sp_asduList example_sized) = Some 34"
    by (simp add: example_defs SVPublisher_ASDU_getEncodedSize_def BerEncoder_determineLengthSize_def)
  have "length (uint32_content 1) \<le> 5" using uint32_content_bounds by blast
  then show "length (replicate 20 (0 :: byte)) + 6 + length (sv_head (length (sp_asduList example_sized)) 34) + 34 \<le> 1518"
    by (simp add: example_defs sv_head_def uint32_bytes_def Let_def length_bytes_def)
qed

theorem sv_layout_witness:
  "\<exists>self' vs. SVPublisher_setupComplete example_sized = Some self' \<and> sv_inv (replicate 20 0) self' vs \<and>
    length vs = 1 \<and> v_svID (vs ! 0) = [0x73] \<and> length (v_data (vs ! 0)) = 4"
proof -
  obtain self' vs where s: "SVPublisher_setupComplete example_sized = Some self'" "sv_inv (replicate 20 0) self' vs"
      "list_all2 asdu_of (sp_asduList example_sized) vs"
    using sv_layout [OF example_premises] by blast
  moreover have "length vs = 1" using list_all2_lengthD [OF s(3)] by (simp add: example_defs)
  moreover have "asdu_of (sp_asduList example_sized ! 0) (vs ! 0)"
    using list_all2_nthD2 [OF s(3), of 0] calculation(4) by simp
  ultimately show ?thesis by (intro exI [of _ self'] exI [of _ vs]) (simp add: asdu_of_def example_defs)
qed

text \<open>C12. Every operation on an ASDU is an update of the abstract ASDU: the sample counter, the
  synchronisation flag, the reference time (when the frame has one) and the samples are written in place,
  the frame keeps its form and no other ASDU changes.\<close>

theorem sv_operations_refine:
  fixes i :: int
  assumes "sv_inv hdr self vs" and "k < length vs"
  defines "a \<equiv> sp_asduList self ! k" and "v \<equiv> vs ! k"
  defines "becomes op v' \<equiv> \<exists>self'. on_asdu op k self = Some self' \<and> sv_inv hdr self' (vs[k := v']) \<and>
    sp_ethernetSocket self' = sp_ethernetSocket self \<and>
    (\<forall>j. j \<noteq> k \<longrightarrow> sp_asduList self' ! j = sp_asduList self ! j)"
  defines "writes f bs \<equiv> 0 \<le> i \<and> nat i + length bs \<le> length (v_data v) \<longrightarrow>
    becomes (\<lambda>mem a. map_option (\<lambda>mem. (mem, a)) (f mem a)) (v\<lparr>v_data := patch (nat i) bs (v_data v)\<rparr>)"
  shows "becomes (\<lambda>mem a. SVPublisher_ASDU_setSmpCnt mem a n) (v\<lparr>v_smpCnt := n\<rparr>) \<and>
    (sa_smpCntLimit a \<noteq> 0 \<longrightarrow> becomes SVPublisher_ASDU_increaseSmpCnt
      (v\<lparr>v_smpCnt := of_nat ((unat (v_smpCnt v) + 1) mod unat (sa_smpCntLimit a))\<rparr>)) \<and>
    becomes (\<lambda>mem a. SVPublisher_ASDU_setSmpSynch mem a s) (v\<lparr>v_smpSynch := ucast s\<rparr>) \<and>
    becomes (\<lambda>mem a. SVPublisher_ASDU_setRefrTmNs mem a t)
      (stamp_with (\<lambda>ts. Timestamp_setSubsecondPrecision (Timestamp_setTimeInNanoseconds ts t) 20) v) \<and>
    becomes (\<lambda>mem a. SVPublisher_ASDU_setRefrTm mem a t)
      (stamp_with (\<lambda>ts. Timestamp_setSubsecondPrecision (Timestamp_setTimeInMilliseconds ts t) 10) v) \<and>
    (ts_ok ts \<longrightarrow> becomes (\<lambda>mem a. SVPublisher_ASDU_setRefrTmByTimestamp mem a ts) (stamp_with (\<lambda>_. ts) v)) \<and>
    writes (\<lambda>mem a. SVPublisher_ASDU_setINT8 mem a i b) [b] \<and>
    writes (\<lambda>mem a. SVPublisher_ASDU_setINT32 mem a i x) (be_bytes x) \<and>
    writes (\<lambda>mem a. SVPublisher_ASDU_setINT64 mem a i y) (be_bytes y) \<and>
    writes (\<lambda>mem a. SVPublisher_ASDU_setFLOAT mem a i x) (be_bytes x) \<and>
    writes (\<lambda>mem a. SVPublisher_ASDU_setFLOAT64 mem a i y) (be_bytes y) \<and>
    (ts_ok ts \<longrightarrow> writes (\<lambda>mem a. SVPublisher_ASDU_setTimestamp mem a i ts) (val ts)) \<and>
    writes (\<lambda>mem a. SVPublisher_ASDU_setQuality mem a i q) ([0, 0] @ be_bytes q)"
proof -
  have writes: "writes f bs" if "\<And>mem a. f mem a = write_at (sa_dataBuffer a) i bs mem" for f bs
  proof -
    have "(\<lambda>mem a. map_option (\<lambda>mem. (mem, a)) (f mem a)) = set_data i bs"
      by (simp add: fun_eq_iff set_data_def that)
    then show ?thesis
      unfolding writes_def becomes_def v_def using set_data.refines [OF assms(1,2), of i bs] by simp
  qed
  show ?thesis
    unfolding becomes_def a_def v_def next_smpCnt_def [symmetric]
    by (intro conjI impI writes data_setters; (assumption)?;
        intro set_smpCnt.refines increase_smpCnt.refines set_smpSynch.refines set_refrTmNs.refines
          set_refrTm.refines set_refrTmByTimestamp.refines assms) simp_all
qed

theorem sv_operations_refine_witness:
  "\<exists>self vs self'. sv_inv (replicate 20 0) self vs \<and> vs \<noteq> [] \<and>
    on_asdu (\<lambda>mem a. SVPublisher_ASDU_setSmpCnt mem a 7) 0 self = Some self' \<and>
    sv_inv (replicate 20 0) self' (vs[0 := (vs ! 0)\<lparr>v_smpCnt := 7\<rparr>])"
proof -
  obtain self vs where s: "sv_inv (replicate 20 0) self vs" "list_all2 asdu_of (sp_asduList example_sized) vs"
    by (rule setupComplete_inv [OF example_premises])
  have "length vs = 1" using list_all2_lengthD [OF s(2)] by (simp add: example_defs)
  then have n: "0 < length vs" and ne: "vs \<noteq> []" by auto
  obtain self' where "on_asdu (\<lambda>mem a. SVPublisher_ASDU_setSmpCnt mem a 7) 0 self = Some self'"
      "sv_inv (replicate 20 0) self' (vs[0 := (vs ! 0)\<lparr>v_smpCnt := 7\<rparr>])"
    using conjunct1 [OF sv_operations_refine [OF s(1) n, where n = 7]] by blast
  then show ?thesis using s(1) ne by (intro exI [of _ self] exI [of _ vs] exI [of _ self']) simp
qed

text \<open>The sample counter wraps at its limit: after any number of increments it is the sum modulo the limit, in
  the ASDU and in the frame; it never reaches the limit, so with the initial limit of 65535 the value 65535
  is never sent.\<close>

theorem sv_counter_wraps:
  assumes "sv_inv hdr self vs" and "k < length vs" and "sa_smpCntLimit (sp_asduList self ! k) = limit" and "limit \<noteq> 0"
    and "0 < n"
  shows "\<exists>self' m. increase_all n k self = Some self' \<and> sv_inv hdr self' (vs[k := (vs ! k)\<lparr>v_smpCnt := m\<rparr>]) \<and>
    unat m = (unat (v_smpCnt (vs ! k)) + n) mod unat limit \<and> m < limit"
proof -
  obtain self' m where "increase_all n k self = Some self'" "sv_inv hdr self' (vs[k := (vs ! k)\<lparr>v_smpCnt := m\<rparr>])"
      "unat m = (unat (v_smpCnt (vs ! k)) + n) mod unat limit"
    using increase_all_counts [OF assms(1-4), of n] assms(5) by blast
  moreover have "0 < unat limit" using assms(4) by (simp add: unat_gt_0)
  ultimately show ?thesis by (metis mod_less_divisor word_less_nat_alt)
qed

theorem sv_counter_wraps_witness:
  "\<exists>self vs self' m. sv_inv (replicate 20 0) self vs \<and> increase_all 8001 0 self = Some self' \<and>
    sv_inv (replicate 20 0) self' (vs[0 := (vs ! 0)\<lparr>v_smpCnt := m\<rparr>]) \<and> unat m = 1"
proof -
  obtain self vs where s: "sv_inv (replicate 20 0) self vs" "list_all2 asdu_of (sp_asduList example_sized) vs"
      "list_all2 same_settings (sp_asduList example_sized) (sp_asduList self)"
    by (rule setupComplete_inv [OF example_premises])
  have n: "length vs = 1" using list_all2_lengthD [OF s(2)] by (simp add: example_defs)
  have l: "length (sp_asduList self) = 1" using list_all2_lengthD [OF s(3)] by (simp add: example_defs)
  have "same_settings (sp_asduList example_sized ! 0) (sp_asduList self ! 0)"
    using list_all2_nthD2 [OF s(3), of 0] l by simp
  from arg_cong [OF this [unfolded same_settings_def], of sa_smpCntLimit]
  have lim: "sa_smpCntLimit (sp_asduList self ! 0) = 4000" by (simp add: example_defs)
  have cnt: "v_smpCnt (vs ! 0) = 0" using list_all2_nthD2 [OF s(2), of 0] n by (simp add: asdu_of_def example_defs)
  have "0 < length vs" using n by simp
  from sv_counter_wraps [OF s(1) this lim, of 8001]
  show ?thesis using s(1) cnt by auto
qed

text \<open>Publishing sends the octets of the abstract ASDUs behind the headers, without the Ethernet
  header that the network adds, and changes nothing else.\<close>

theorem sv_publish_sends:
  assumes "sv_inv hdr self vs"
  shows "\<exists>self'. SVPublisher_publish self = Some self' \<and> sv_inv hdr self' vs \<and>
    sp_asduList self' = sp_asduList self \<and>
    es_sent (sp_ethernetSocket self') = es_sent (sp_ethernetSocket self) @ [drop 14 (sv_frame hdr vs)]"
  by (rule publish_frame [OF assms]) blast

theorem sv_publish_sends_witness:
  "\<exists>self vs self'. sv_inv (replicate 20 0) self vs \<and> SVPublisher_publish self = Some self' \<and>
    es_sent (sp_ethernetSocket self') = [drop 14 (sv_frame (replicate 20 0) vs)]"
proof -
  obtain self vs where s: "sv_inv (replicate 20 0) self vs" "sp_ethernetSocket self = sp_ethernetSocket example_sized"
    by (rule setupComplete_inv [OF example_premises])
  show ?thesis using sv_publish_sends [OF s(1)] s by (auto simp: example_defs)
qed

end
