(* ===== verification/Sv_App_Run.thy ===== *)
theory Sv_App_Run
  imports Sv_App Sv_Publication
begin

text \<open>
  Runs of the sampled values publisher application: the layout of its message, the sample that a call of
  \<open>Measure\<close> writes, the invariant of the application, and how many messages a run sends.
\<close>

section \<open>The layout of the message\<close>

fun float_offsets :: "nat \<Rightarrow> nat \<Rightarrow> int list" where
  "float_offsets 0 i = []"
| "float_offsets (Suc n) i = int i # float_offsets n (i + 4)"

lemma add_floats_offsets:
  "add_floats n a = (float_offsets n (sa_dataSize a), a\<lparr>sa_dataSize := sa_dataSize a + 4 * n\<rparr>)"
  by (induction n arbitrary: a) (simp_all add: SVPublisher_ASDU_addFLOAT_def)

definition app_asdu :: "byte list \<Rightarrow> SVPublisher_ASDU" where
  "app_asdu svID = \<lparr>sa_svID = svID, sa_datset = None, sa_dataSize = 40, sa_hasRefrTm = False,
     sa_hasSmpRate = False, sa_hasSmpMod = False, sa_dataBuffer = None, sa_smpSynch = 0, sa_smpCnt = 0,
     sa_smpCntLimit = - 1, sa_confRev = 1, sa_refrTm = None, sa_smpMod = 0, sa_smpRate = 0,
     sa_smpCntBuf = None, sa_smpSynchBuf = None\<rparr>"

text \<open>The arrays of the application: every ASDU has eight floats and a time stamp.\<close>

definition app_arrays :: "nat \<Rightarrow> SVPublisherApp \<Rightarrow> bool" where
  "app_arrays n self \<longleftrightarrow> length (sva_asdus self) = 8 \<and> length (sva_offsets self) = 8 \<and> length (sva_tss self) = 8 \<and>
     (\<forall>j < n. sva_asdus self ! j = Some j \<and> sva_offsets self ! j = float_offsets 8 0 \<and> sva_tss self ! j = 32)"

lemma add_asdus_append:
  "add_asdus svIDs (xs @ ys) s = do { s \<leftarrow> add_asdus svIDs xs s; add_asdus svIDs ys s }"
  by (induction xs arbitrary: s) (auto split: Option.bind_splits)

lemma add_asdus_layout:
  assumes "n \<le> 8" and "sp_asduList publisher = []" and "app_arrays 0 self"
  shows "\<exists>asdus offsets tss. add_asdus svIDs [0..<n] (publisher, self)
      = Some (publisher\<lparr>sp_asduList := map (\<lambda>j. app_asdu (svIDs j)) [0..<n]\<rparr>,
          self\<lparr>sva_asdus := asdus, sva_offsets := offsets, sva_tss := tss\<rparr>) \<and>
    app_arrays n (self\<lparr>sva_asdus := asdus, sva_offsets := offsets, sva_tss := tss\<rparr>)"
  using assms(1)
proof (induction n)
  case 0
  then show ?case
    using assms(2,3) by (intro exI [of _ "sva_asdus self"] exI [of _ "sva_offsets self"] exI [of _ "sva_tss self"]) simp
next
  case (Suc n)
  obtain asdus offsets tss where ih: "add_asdus svIDs [0..<n] (publisher, self)
      = Some (publisher\<lparr>sp_asduList := map (\<lambda>j. app_asdu (svIDs j)) [0..<n]\<rparr>,
          self\<lparr>sva_asdus := asdus, sva_offsets := offsets, sva_tss := tss\<rparr>)"
      "app_arrays n (self\<lparr>sva_asdus := asdus, sva_offsets := offsets, sva_tss := tss\<rparr>)"
    using Suc by auto
  have len: "length asdus = 8" "length offsets = 8" "length tss = 8"
    using ih(2) by (simp_all add: app_arrays_def)
  have "add_asdu svIDs n (publisher\<lparr>sp_asduList := map (\<lambda>j. app_asdu (svIDs j)) [0..<n]\<rparr>,
        self\<lparr>sva_asdus := asdus, sva_offsets := offsets, sva_tss := tss\<rparr>)
      = Some (publisher\<lparr>sp_asduList := map (\<lambda>j. app_asdu (svIDs j)) [0..<Suc n]\<rparr>,
          self\<lparr>sva_asdus := asdus[n := Some n], sva_offsets := offsets[n := float_offsets 8 0], sva_tss := tss[n := 32]\<rparr>)"
    using Suc.prems len
    by (simp add: add_asdu_def SVPublisher_addASDU_def arr_set_def add_floats_offsets SVPublisher_ASDU_addTimestamp_def
        nth_append app_asdu_def list_update_append)
  moreover have "app_arrays (Suc n) (self\<lparr>sva_asdus := asdus[n := Some n],
      sva_offsets := offsets[n := float_offsets 8 0], sva_tss := tss[n := 32]\<rparr>)"
    using ih(2) Suc.prems by (auto simp: app_arrays_def nth_list_update less_Suc_eq)
  moreover have "[0..<Suc n] = [0..<n] @ [n]" by simp
  ultimately show ?case
    unfolding \<open>[0..<Suc n] = [0..<n] @ [n]\<close> add_asdus_append ih(1) by auto
qed

text \<open>The names that the kept pointers show: strings of at most 15 characters.\<close>

definition names_ok :: "nat \<Rightarrow> (nat \<Rightarrow> byte list) \<Rightarrow> bool" where
  "names_ok n svIDs \<longleftrightarrow> (\<forall>j < n. string_ok (Some (svIDs j)) \<and> length (str_content (Some (svIDs j))) \<le> 15)"

lemma app_asdu_size:
  assumes "string_ok (Some s)" and "length (str_content (Some s)) \<le> 15"
  shows "SVPublisher_ASDU_getEncodedSize (app_asdu s) = Some (length (str_content (Some s)) + 57)"
  using assms string_size(1) [OF assms(1)]
  by (simp add: SVPublisher_ASDU_getEncodedSize_def app_asdu_def BerEncoder_determineLengthSize_def word_less_nat_alt
      unat_of_nat)

lemma app_asdus_size:
  assumes "list_all (\<lambda>s. string_ok (Some s) \<and> length (str_content (Some s)) \<le> 15) ids"
  shows "\<exists>m. total_asdu_length (map app_asdu ids) = Some m \<and> m \<le> 74 * length ids"
  using assms
proof (induction ids)
  case (Cons s ids)
  have s: "length (str_content (Some s)) \<le> 15" using Cons.prems by simp
  have "BerEncoder_determineLengthSize (of_nat (length (str_content (Some s)) + 57)) = 1"
    using s by (simp add: BerEncoder_determineLengthSize_def word_less_nat_alt unat_of_nat del: of_nat_add)
  then show ?case using Cons app_asdu_size [of s] by auto
qed simp

lemma length_sv_head_le: "length (sv_head k m) \<le> 17"
proof -
  have le: "length (length_bytes x) \<le> 4" for x by (simp add: length_bytes_def)
  have "length (length_bytes x) + (length (uint32_bytes 0x80 (of_nat k)) + length (length_bytes (of_nat m))) \<le> 15" for x
    using uint32_content_bounds [of "of_nat k"] le [of x] le [of "of_nat m"] by (simp add: uint32_bytes_def)
  then show ?thesis by (simp add: sv_head_def Let_def)
qed

abbreviation app_hdr :: "byte list \<Rightarrow> byte list" where
  "app_hdr mac \<equiv> sv_header default_sv_parameters mac True"

text \<open>The frame of the application, with \<open>n\<close> ASDUs of eight floats and a time stamp.\<close>

definition app_frame :: "byte list \<Rightarrow> nat \<Rightarrow> SVPublisher \<Rightarrow> sv_asdu list \<Rightarrow> bool" where
  "app_frame mac n pub vs \<longleftrightarrow> sv_inv (app_hdr mac) pub vs \<and> length vs = n \<and>
     list_all (\<lambda>v. length (v_data v) = 40) vs \<and> list_all (\<lambda>a. sa_smpCntLimit a = - 1) (sp_asduList pub)"

definition app_layout :: "nat \<Rightarrow> (nat \<Rightarrow> byte list) \<Rightarrow> sv_asdu list \<Rightarrow> bool" where
  "app_layout n svIDs vs \<longleftrightarrow> list_all2 asdu_of (map (\<lambda>j. app_asdu (svIDs j)) [0..<n]) vs"

lemma app_layout_zero: "app_layout n svIDs vs \<Longrightarrow> length vs = n \<and> list_all (\<lambda>v. v_smpCnt v = 0) vs"
  by (auto simp: app_layout_def list_all2_conv_all_nth list_all_length asdu_of_def app_asdu_def)

lemma app_laid_out:
  assumes dev: "devices i = Some mac" "length mac = 6" "length heap = 1518"
    and n: "0 < n" "n \<le> 8" and ids: "names_ok n svIDs"
  obtains pub0 pub vs where "SVPublisher_create devices heap None (Some i) = Some pub0" and "sp_asduList pub0 = []"
    and "SVPublisher_setupComplete (pub0\<lparr>sp_asduList := map (\<lambda>j. app_asdu (svIDs j)) [0..<n]\<rparr>) = Some pub"
    and "app_frame mac n pub vs" and "app_layout n svIDs vs" and "es_sent (sp_ethernetSocket pub) = []"
proof -
  let ?h = "app_hdr mac"
  have p: "length (dstAddress default_sv_parameters) = 6" by (simp add: default_sv_parameters_def)
  obtain pub0 where pub0: "SVPublisher_createEx devices heap (Some default_sv_parameters) (Some i) True = Some pub0"
      "sv_prepared ?h pub0" "sp_asduList pub0 = []" "es_sent (sp_ethernetSocket pub0) = []"
    by (rule createEx_prepared [of devices i mac default_sv_parameters heap True]) (use dev p in auto)
  have create: "SVPublisher_create devices heap None (Some i) = Some pub0"
    using pub0(1) by (simp add: SVPublisher_create_def SVPublisher_createEx_def preparePacketBuffer_def)
  define pub1 where "pub1 = pub0\<lparr>sp_asduList := map (\<lambda>j. app_asdu (svIDs j)) [0..<n]\<rparr>"
  have l1: "sp_asduList pub1 = map app_asdu (map svIDs [0..<n])" by (simp add: pub1_def)
  have prep: "sv_prepared ?h pub1" using pub0(2) by (simp add: pub1_def sv_prepared_def)
  have ok: "list_all asdu_ok (sp_asduList pub1)"
    using ids by (auto simp: pub1_def list_all_iff asdu_ok_def app_asdu_def names_ok_def string_ok_def)
  obtain m where m: "total_asdu_length (sp_asduList pub1) = Some m" "m \<le> 74 * n"
    using app_asdus_size [of "map svIDs [0..<n]"] ids unfolding l1 by (auto simp: list_all_iff names_ok_def)
  have "length (sv_head n m) \<le> 17" by (rule length_sv_head_le)
  moreover have "length ?h = 20"
    using dev(2) by (simp add: sv_header_def default_sv_parameters_def vlan_bytes_def sv_header_bytes_def Let_def)
  ultimately have fits: "length ?h + 6 + length (sv_head (length (sp_asduList pub1)) m) + m \<le> 1518"
    using m(2) n(2) by (simp add: pub1_def)
  obtain pub vs where pub: "SVPublisher_setupComplete pub1 = Some pub" "sv_inv ?h pub vs"
      "list_all2 asdu_of (sp_asduList pub1) vs" "list_all2 same_settings (sp_asduList pub1) (sp_asduList pub)"
      "sp_ethernetSocket pub = sp_ethernetSocket pub1"
    by (rule setupComplete_inv [OF prep ok m(1) fits])
  have len: "length vs = n" using list_all2_lengthD [OF pub(3)] by (simp add: pub1_def)
  have v: "length (v_data (vs ! j)) = 40" if "j < n" for j
    using list_all2_nthD2 [OF pub(3), of j] that len by (simp add: pub1_def asdu_of_def app_asdu_def)
  have lim: "sa_smpCntLimit (sp_asduList pub ! j) = - 1" if "j < n" for j
  proof -
    have "same_settings (sp_asduList pub1 ! j) (sp_asduList pub ! j)"
      using list_all2_nthD [OF pub(4), of j] that by (simp add: pub1_def)
    from arg_cong [OF this [unfolded same_settings_def], of sa_smpCntLimit]
    show ?thesis using that by (simp add: pub1_def app_asdu_def)
  qed
  have "length (sp_asduList pub) = n" using list_all2_lengthD [OF pub(4)] by (simp add: pub1_def)
  then have "app_frame mac n pub vs"
    using pub(2) len v lim by (auto simp: app_frame_def list_all_length)
  moreover have "app_layout n svIDs vs" using pub(3) by (simp add: app_layout_def pub1_def)
  moreover have "es_sent (sp_ethernetSocket pub) = []" using pub(5) pub0(4) by (simp add: pub1_def)
  ultimately show thesis using that [OF create pub0(3)] pub(1) by (simp add: pub1_def)
qed

section \<open>One sample\<close>

lemma on_asdu_keeps:
  "on_asdu (\<lambda>mem a. map_option (\<lambda>mem. (mem, a)) (f mem a)) k self = Some self' \<Longrightarrow>
   sp_asduList self' = sp_asduList self"
  by (auto simp: on_asdu_def bind_eq_Some_conv split: if_splits)

text \<open>The operations on the data, on the frame of the application.\<close>

lemma app_frame_data:
  assumes frame: "app_frame mac n pub vs" and k: "k < n" and i: "0 \<le> i" "nat i + length bs \<le> 40"
    and f: "\<And>mem a. f mem a = write_at (sa_dataBuffer a) i bs mem"
  shows "\<exists>pub'. on_asdu (\<lambda>mem a. map_option (\<lambda>mem. (mem, a)) (f mem a)) k pub = Some pub' \<and>
    app_frame mac n pub' (vs[k := (vs ! k)\<lparr>v_data := patch (nat i) bs (v_data (vs ! k))\<rparr>]) \<and>
    sp_ethernetSocket pub' = sp_ethernetSocket pub"
proof -
  have inv: "sv_inv (app_hdr mac) pub vs" and len: "length vs = n" and d: "length (v_data (vs ! k)) = 40"
    using frame k by (auto simp: app_frame_def list_all_length)
  have eq: "(\<lambda>mem a. map_option (\<lambda>mem. (mem, a)) (f mem a)) = set_data i bs"
    by (simp add: fun_eq_iff set_data_def f)
  obtain pub' where p: "on_asdu (set_data i bs) k pub = Some pub'"
      "sv_inv (app_hdr mac) pub' (vs[k := (vs ! k)\<lparr>v_data := patch (nat i) bs (v_data (vs ! k))\<rparr>])"
      "sp_ethernetSocket pub' = sp_ethernetSocket pub"
    using set_data.refines [OF inv, of k i bs] k len i d by auto
  have "sp_asduList pub' = sp_asduList pub" using on_asdu_keeps p(1) unfolding eq [symmetric] by blast
  then show ?thesis
    unfolding eq using p frame i d k len by (simp add: app_frame_def list_all_length nth_list_update)
qed

lemma patch_next:
  assumes "i + length bs \<le> length d"
  shows "take (i + length bs) (patch i bs d) = take i d @ bs" and "drop (i + length bs + m) (patch i bs d) = drop (i + length bs + m) d"
  using assms by (simp_all add: patch_def add.commute)

lemma set_values_writes:
  assumes "app_frame mac n pub vs" and "k < n" and "i + 4 * length xs \<le> 40"
  shows "\<exists>pub'. set_values k (zip (float_offsets (length xs) i) xs) pub = Some pub' \<and>
    app_frame mac n pub' (vs[k := (vs ! k)\<lparr>v_data := take i (v_data (vs ! k)) @ concat (map be_bytes xs)
      @ drop (i + 4 * length xs) (v_data (vs ! k))\<rparr>]) \<and>
    sp_ethernetSocket pub' = sp_ethernetSocket pub"
  using assms
proof (induction xs arbitrary: i pub vs)
  case Nil
  have "k < length vs" using Nil.prems by (simp add: app_frame_def)
  then show ?case using Nil.prems by simp
next
  case (Cons x xs)
  have len: "length vs = n" "length (v_data (vs ! k)) = 40"
    using Cons.prems by (auto simp: app_frame_def list_all_length)
  let ?d = "patch i (be_bytes x) (v_data (vs ! k))"
  obtain pub1 where p1: "on_asdu (\<lambda>mem a. map_option (\<lambda>mem. (mem, a)) (SVPublisher_ASDU_setFLOAT mem a (int i) x)) k pub = Some pub1"
      "app_frame mac n pub1 (vs[k := (vs ! k)\<lparr>v_data := ?d\<rparr>])" "sp_ethernetSocket pub1 = sp_ethernetSocket pub"
    using app_frame_data [OF Cons.prems(1,2), of "int i" "be_bytes x" "\<lambda>mem a. SVPublisher_ASDU_setFLOAT mem a (int i) x"]
      Cons.prems(3) by (auto simp: data_setters)
  have d: "take (i + 4) ?d = take i (v_data (vs ! k)) @ be_bytes x"
      "drop (i + 4 + 4 * length xs) ?d = drop (i + 4 + 4 * length xs) (v_data (vs ! k))"
    using patch_next [of i "be_bytes x" "v_data (vs ! k)"] len Cons.prems(3) by simp_all
  have step: "i + 4 * length (x # xs) = i + 4 + 4 * length xs" by simp
  show ?case
    unfolding step using Cons.IH [OF p1(2) Cons.prems(2), of "i + 4"] Cons.prems(2,3) p1(1,3) d len
    by simp
qed

text \<open>The abstract effect of a sample: eight values, a time stamp, and the next counter.\<close>

definition sampled :: "uint32 list \<Rightarrow> byte list \<Rightarrow> sv_asdu \<Rightarrow> sv_asdu" where
  "sampled row stamp v = v\<lparr>v_data := concat (map be_bytes row) @ stamp,
     v_smpCnt := of_nat ((unat (v_smpCnt v) + 1) mod 65535)\<rparr>"

lemma app_frame_increase:
  assumes frame: "app_frame mac n pub vs" and k: "k < n"
  shows "\<exists>pub'. on_asdu SVPublisher_ASDU_increaseSmpCnt k pub = Some pub' \<and>
    app_frame mac n pub' (vs[k := (vs ! k)\<lparr>v_smpCnt := of_nat ((unat (v_smpCnt (vs ! k)) + 1) mod 65535)\<rparr>]) \<and>
    sp_ethernetSocket pub' = sp_ethernetSocket pub"
proof -
  have inv: "sv_inv (app_hdr mac) pub vs" and len: "length vs = n"
    and lim: "\<forall>j < length (sp_asduList pub). sa_smpCntLimit (sp_asduList pub ! j) = - 1"
    using frame k by (auto simp: app_frame_def list_all_length)
  have la: "length (sp_asduList pub) = n" using inv placed_all_length len by (auto simp: sv_inv_def)
  then have l: "sa_smpCntLimit (sp_asduList pub ! k) = - 1" using lim k by simp
  obtain pub' where p: "on_asdu SVPublisher_ASDU_increaseSmpCnt k pub = Some pub'"
      "sv_inv (app_hdr mac) pub' (vs[k := (vs ! k)\<lparr>v_smpCnt := next_smpCnt (sp_asduList pub ! k) (vs ! k)\<rparr>])"
      "sp_ethernetSocket pub' = sp_ethernetSocket pub"
      "\<forall>j. j \<noteq> k \<longrightarrow> sp_asduList pub' ! j = sp_asduList pub ! j"
    using increase_smpCnt.refines [OF inv, of k] k len l by auto
  have "length (sp_asduList pub') = n" using p(2) placed_all_length len by (auto simp: sv_inv_def)
  moreover have "sa_smpCntLimit (sp_asduList pub' ! j) = - 1" if "j < n" for j
    using increase_limit [OF p(1)] p(4) lim that k la by (cases "j = k") auto
  ultimately have "app_frame mac n pub' (vs[k := (vs ! k)\<lparr>v_smpCnt := next_smpCnt (sp_asduList pub ! k) (vs ! k)\<rparr>])"
    using p(2) frame len k by (simp add: app_frame_def list_all_length nth_list_update)
  moreover have "unat (- 1 :: uint16) = 65535" by (simp add: unsigned_minus_1_eq_mask mask_eq_exp_minus_1)
  ultimately show ?thesis using p(1,3) l by (simp add: next_smpCnt_def)
qed

lemma sample_written:
  assumes frame: "app_frame mac n pub vs" and k: "k < n" and row: "length row = 8" and ts: "ts_ok ts"
  shows "\<exists>pub1 pub2 pub3. set_values k (zip (float_offsets 8 0) row) pub = Some pub1 \<and>
    on_asdu SVPublisher_ASDU_increaseSmpCnt k pub1 = Some pub2 \<and>
    on_asdu (\<lambda>mem a. map_option (\<lambda>mem. (mem, a)) (SVPublisher_ASDU_setTimestamp mem a 32 ts)) k pub2 = Some pub3 \<and>
    app_frame mac n pub3 (vs[k := sampled row (val ts) (vs ! k)]) \<and>
    sp_ethernetSocket pub3 = sp_ethernetSocket pub"
proof -
  have len: "length vs = n" "length (v_data (vs ! k)) = 40"
    using frame k by (auto simp: app_frame_def list_all_length)
  have c: "length (concat (map be_bytes row)) = 32" using row by (simp add: length_concat comp_def sum_list_triv)
  let ?d1 = "concat (map be_bytes row) @ drop 32 (v_data (vs ! k))"
  let ?v1 = "(vs ! k)\<lparr>v_data := ?d1\<rparr>"
  let ?v2 = "?v1\<lparr>v_smpCnt := of_nat ((unat (v_smpCnt (vs ! k)) + 1) mod 65535)\<rparr>"
  obtain pub1 where p1: "set_values k (zip (float_offsets 8 0) row) pub = Some pub1"
      "app_frame mac n pub1 (vs[k := ?v1])" "sp_ethernetSocket pub1 = sp_ethernetSocket pub"
    using set_values_writes [OF frame k, of 0 row] row by auto
  obtain pub2 where p2: "on_asdu SVPublisher_ASDU_increaseSmpCnt k pub1 = Some pub2"
      "app_frame mac n pub2 (vs[k := ?v2])" "sp_ethernetSocket pub2 = sp_ethernetSocket pub"
    using app_frame_increase [OF p1(2) k] k len p1(3) by auto
  have "patch 32 (val ts) (v_data ?v2) = concat (map be_bytes row) @ val ts"
    using c len(2) ts by (simp add: patch_def ts_ok_def)
  then have v3: "?v2\<lparr>v_data := patch 32 (val ts) (v_data ?v2)\<rparr> = sampled row (val ts) (vs ! k)"
    by (simp add: sampled_def)
  have "nat 32 + length (val ts) \<le> 40" using ts by (simp add: ts_ok_def)
  from app_frame_data [OF p2(2) k _ this, of "\<lambda>mem a. SVPublisher_ASDU_setTimestamp mem a 32 ts"]
  obtain pub3 where "on_asdu (\<lambda>mem a. map_option (\<lambda>mem. (mem, a)) (SVPublisher_ASDU_setTimestamp mem a 32 ts)) k pub2 = Some pub3"
      "app_frame mac n pub3 (vs[k := sampled row (val ts) (vs ! k)])" "sp_ethernetSocket pub3 = sp_ethernetSocket pub"
    using v3 p2(3) len(1) k data_setters ts by auto
  then show ?thesis using p1(1) p2(1) by blast
qed

lemma app_frame_publish:
  assumes "app_frame mac n pub vs"
  obtains pub' where "SVPublisher_publish pub = Some pub'" and "app_frame mac n pub' vs"
    and "es_sent (sp_ethernetSocket pub') = es_sent (sp_ethernetSocket pub) @ [sv_packet default_sv_parameters mac vs]"
  using assms publish_frame [of "app_hdr mac" pub vs] unfolding app_frame_def sv_packet_def by metis

section \<open>Samples in turn\<close>

text \<open>Call \<open>l\<close> changes element \<open>l mod n\<close>.\<close>

fun filled :: "(nat \<Rightarrow> 'a \<Rightarrow> 'a) \<Rightarrow> nat \<Rightarrow> 'a list \<Rightarrow> nat \<Rightarrow> 'a list" where
  "filled g n xs 0 = xs"
| "filled g n xs (Suc m) = (let ys = filled g n xs m in ys[m mod n := g m (ys ! (m mod n))])"

lemma length_filled [simp]: "length (filled g n xs m) = length xs"
  by (induction m) (simp_all add: Let_def)

lemma filled_nth:
  "k < length xs \<Longrightarrow> filled g n xs m ! k = fold g (filter (\<lambda>l. l mod n = k) [0..<m]) (xs ! k)"
  by (induction m) (auto simp: Let_def nth_list_update)

lemma filter_mod:
  assumes "k < n"
  shows "filter (\<lambda>l. l mod n = k) [0..<i * n] = map (\<lambda>i. i * n + k) [0..<i]"
proof (induction i)
  case (Suc i)
  have one: "filter (\<lambda>l. l = k) [0..<m] = (if k < m then [k] else [])" for m by (induction m) auto
  have "[0..<Suc i * n] = [0..<i * n] @ map (\<lambda>l. l + i * n) [0..<n]"
    by (metis add.commute map_add_upt mult_Suc upt_add_eq_append zero_le)
  moreover have "filter (\<lambda>l. l mod n = k) (map (\<lambda>l. l + i * n) [0..<n]) = map (\<lambda>l. l + i * n) (filter (\<lambda>l. l = k) [0..<n])"
    by (auto simp: filter_map comp_def intro!: filter_cong arg_cong [of _ _ "map _"])
  ultimately show ?case using Suc one assms by (simp add: add.commute)
qed simp

text \<open>The values and the time stamp of a sample at a time, and the sample of call \<open>l\<close>.\<close>

definition sample_row :: "float_ops \<Rightarrow> uint64 \<Rightarrow> int \<Rightarrow> uint32 list" where
  "sample_row fp f t = map (phase_value fp t f) [0..<3] @ [0] @ [0, 0, 0] @ [0]"

definition sample_stamp :: "int \<Rightarrow> byte list" where
  "sample_stamp t = val (Timestamp_setTimeInNanoseconds Timestamp_create (word_of_int t))"

definition sample_at :: "float_ops \<Rightarrow> uint64 \<Rightarrow> int \<Rightarrow> int \<Rightarrow> nat \<Rightarrow> sv_asdu \<Rightarrow> sv_asdu" where
  "sample_at fp f t0 d l = sampled (sample_row fp f (t0 + int l * d)) (sample_stamp (t0 + int l * d))"

text \<open>The message that is sent after call \<open>(i + 1) * n - 1\<close>.\<close>

definition message_at ::
    "float_ops \<Rightarrow> uint64 \<Rightarrow> int \<Rightarrow> int \<Rightarrow> sv_asdu list \<Rightarrow> nat \<Rightarrow> sv_asdu list" where
  "message_at fp f t0 d base i = filled (sample_at fp f t0 d) (length base) base ((i + 1) * length base)"

lemma samples_fold:
  "fold (sample_at fp f t0 d) (map (\<lambda>i. i * n + k) [0..<Suc i]) v
   = v\<lparr>v_data := concat (map be_bytes (sample_row fp f (t0 + int (i * n + k) * d))) @ sample_stamp (t0 + int (i * n + k) * d),
       v_smpCnt := of_nat ((unat (v_smpCnt v) + Suc i) mod 65535)\<rparr>"
proof (induction i)
  case (Suc i)
  have "unat (of_nat (m mod 65535) :: uint16) = m mod 65535" for m
    using mod_less_divisor [of 65535 m] by (simp add: unat_of_nat)
  then show ?case using Suc by (simp add: sample_at_def sampled_def mod_simps)
qed (simp add: sample_at_def sampled_def)

lemma message_nth:
  assumes "k < length base" and "v_smpCnt (base ! k) = 0"
  shows "message_at fp f t0 d base i ! k = (base ! k)
    \<lparr>v_data := concat (map be_bytes (sample_row fp f (t0 + int (i * length base + k) * d)))
        @ sample_stamp (t0 + int (i * length base + k) * d),
     v_smpCnt := of_nat ((i + 1) mod 65535)\<rparr>"
proof -
  have "message_at fp f t0 d base i ! k
      = fold (sample_at fp f t0 d) (map (\<lambda>i. i * length base + k) [0..<Suc i]) (base ! k)"
    unfolding message_at_def filled_nth [OF assms(1)] filter_mod [OF assms(1)] by simp
  then show ?thesis unfolding samples_fold using assms(2) by simp
qed

text \<open>The local time stamp is set completely: its content before does not matter.\<close>

lemma stamp_set:
  assumes "length stack = 8"
  shows "Timestamp_setTimeInNanoseconds (Timestamp_clearFlags \<lparr>val = stack\<rparr>) t
    = Timestamp_setTimeInNanoseconds Timestamp_create t"
proof -
  obtain a b c d e f g h where "stack = [a, b, c, d, e, f, g, h]"
    using assms by (auto simp: length_Suc_conv numeral_eq_Suc)
  then show ?thesis
    by (simp add: Timestamp_setTimeInNanoseconds_def Timestamp_clearFlags_def Timestamp_create_def Let_def upd7_def
        time_octets numeral_eq_Suc)
qed

lemma stamp_ok: "ts_ok (Timestamp_setTimeInNanoseconds Timestamp_create t)"
  by (simp add: Timestamp_setTimeInNanoseconds_def Timestamp_create_def Let_def ts_ok_def time_octets)

section \<open>The invariant\<close>

text \<open>The state of the application after \<open>m\<close> calls of \<open>Measure\<close>, the first of them at time \<open>t0\<close>:
  \<open>base\<close> are the ASDUs after the layout and \<open>N\<close> is the number of messages to send.\<close>

definition sv_base ::
    "float_ops \<Rightarrow> byte list \<Rightarrow> sv_asdu list \<Rightarrow> uint64 \<Rightarrow> int \<Rightarrow> nat \<Rightarrow> SVPublisherApp \<Rightarrow> bool" where
  "sv_base fp mac base N t0 m self \<longleftrightarrow>
     (let n = length base; f = sva_frequency self; d = sva_interval self in
      (\<exists>pub. sva_svPublisher self = Some pub \<and> app_frame mac n pub (filled (sample_at fp f t0 d) n base m) \<and>
         es_sent (sp_ethernetSocket pub)
           = map (\<lambda>i. sv_packet default_sv_parameters mac (message_at fp f t0 d base i)) [0..<m div n]) \<and>
      app_arrays n self \<and> length (sva_vals self) = 8 \<and> sva_samplesPerMessage self = of_nat n \<and> 0 < n \<and> n \<le> 8 \<and>
      sva_sampleIndex self = of_nat (m mod n) \<and> m \<le> n * unat N \<and>
      sva_sent self = of_nat (m div n) \<and> sva_count self = N - of_nat (m div n))"

definition sv_app_inv ::
    "('sim \<Rightarrow> sv_handler sim_view) \<Rightarrow> float_ops \<Rightarrow> byte list \<Rightarrow> sv_asdu list \<Rightarrow> uint64 \<Rightarrow> int \<Rightarrow>
     nat \<Rightarrow> 'sim \<times> SVPublisherApp \<Rightarrow> bool" where
  "sv_app_inv view fp mac base N t0 m s \<longleftrightarrow> sv_base fp mac base N t0 m (snd s) \<and>
     (\<exists>e. sva_eventId (snd s) = Some e \<and> e \<in> v_issued (view (fst s)) \<and>
        v_pending (view (fst s)) = [e \<mapsto> (t0 + int m * sva_interval (snd s), Measure)])"

lemma sent_le: "m \<le> n * unat (N :: uint64) \<Longrightarrow> 0 < n \<Longrightarrow> m div n \<le> unat N"
  using div_le_mono [of m "n * unat N" n] by simp

lemma count_zero:
  assumes "sv_base fp mac base N t0 m self"
  shows "sva_count self = 0 \<longleftrightarrow> m = length base * unat N"
proof -
  have n: "0 < length base" "m \<le> length base * unat N" "sva_count self = N - of_nat (m div length base)"
    using assms by (simp_all add: sv_base_def Let_def)
  have "m div length base < 2 ^ 64"
    using sent_le [OF n(2,1)] unsigned_less [of N, where ?'a = nat] by simp
  then have "sva_count self = 0 \<longleftrightarrow> m div length base = unat N"
    unfolding n(3) right_minus_eq by (auto simp: word_unat_eq_iff unat_small64)
  then show ?thesis using n(1,2) by (metis antisym nonzero_mult_div_cancel_left not_gr_zero times_div_less_eq_dividend)
qed

lemma next_index:
  assumes "0 < n" and "n \<le> 8"
  shows "(of_nat (m mod n) + 1 :: byte) = of_nat n \<longleftrightarrow> m mod n + 1 = n"
    and "m mod n + 1 = n \<Longrightarrow> Suc m mod n = 0 \<and> Suc m div n = Suc (m div n) \<and> Suc m = (m div n + 1) * n"
    and "m mod n + 1 \<noteq> n \<Longrightarrow> Suc m mod n = Suc (m mod n) \<and> Suc m div n = m div n"
proof -
  have "m mod n < n" using assms(1) by simp
  then have "(of_nat (Suc (m mod n)) :: byte) = of_nat n \<longleftrightarrow> Suc (m mod n) = n"
    using assms(2) by (simp add: word_unat_eq_iff unsigned_of_nat take_bit_nat_eq_self del: of_nat_Suc)
  then show "(of_nat (m mod n) + 1 :: byte) = of_nat n \<longleftrightarrow> m mod n + 1 = n" by (simp add: add.commute)
  have "Suc m = m div n * n + (m mod n + 1)" by simp
  then show "m mod n + 1 = n \<Longrightarrow> Suc m mod n = 0 \<and> Suc m div n = Suc (m div n) \<and> Suc m = (m div n + 1) * n"
    by (metis Suc_eq_plus1 div_Suc mod_Suc add_mult_distrib mult_1)
  show "m mod n + 1 \<noteq> n \<Longrightarrow> Suc m mod n = Suc (m mod n) \<and> Suc m div n = m div n"
    by (auto simp: mod_Suc div_Suc)
qed

lemma Send_base:
  assumes "sva_svPublisher self = Some pub" and "app_frame mac n pub vs"
  obtains pub' where "SVPublisher_Send self
      = Some (self\<lparr>sva_svPublisher := Some pub', sva_count := sva_count self - 1, sva_sent := sva_sent self + 1\<rparr>)"
    and "app_frame mac n pub' vs"
    and "es_sent (sp_ethernetSocket pub') = es_sent (sp_ethernetSocket pub) @ [sv_packet default_sv_parameters mac vs]"
proof -
  obtain pub' where p: "SVPublisher_publish pub = Some pub'" "app_frame mac n pub' vs"
      "es_sent (sp_ethernetSocket pub') = es_sent (sp_ethernetSocket pub) @ [sv_packet default_sv_parameters mac vs]"
    by (rule app_frame_publish [OF assms(2)])
  then show thesis using that [OF _ p(2,3)] assms(1) by (simp add: SVPublisher_Send_def)
qed

text \<open>The part of \<open>Measure\<close> that writes the sample.\<close>

lemma Measure_sample:
  assumes sim: "simulates S view" and base: "sv_base fp mac base N t0 m self"
    and now: "v_now (view sim) = t0 + int m * sva_interval self" and left: "m < length base * unat N"
    and stack: "length stack = 8"
  defines "n \<equiv> length base" and "g \<equiv> sample_at fp (sva_frequency self) t0 (sva_interval self)"
  obtains pub pub' self1 where "sva_svPublisher self = Some pub" and "app_frame mac n pub' (filled g n base (Suc m))"
    and "sp_ethernetSocket pub' = sp_ethernetSocket pub" and "length (sva_vals self1) = 8"
    and "self1 = self\<lparr>sva_vals := sva_vals self1, sva_svPublisher := Some pub', sva_sampleIndex := of_nat (m mod n) + 1\<rparr>"
    and "SVPublisher_Measure S fp stack sim self = do {
        self \<leftarrow> (if sva_sampleIndex self1 = sva_samplesPerMessage self1
          then SVPublisher_Send (self1\<lparr>sva_sampleIndex := 0\<rparr>) else Some self1);
        let (e, sim) = sim_Schedule S (sva_interval self) Measure sim;
        Some (sim, self\<lparr>sva_eventId := Some e\<rparr>) }"
proof -
  let ?j = "m mod n" and ?t = "t0 + int m * sva_interval self"
  let ?row = "sample_row fp (sva_frequency self) ?t"
  obtain pub where b: "sva_svPublisher self = Some pub" "app_frame mac n pub (filled g n base m)"
      "app_arrays n self" "length (sva_vals self) = 8" "0 < n" "n \<le> 8" "sva_sampleIndex self = of_nat ?j"
    using base by (auto simp: sv_base_def Let_def n_def g_def)
  have j: "?j < n" "unat (sva_sampleIndex self) = ?j"
    using b(5-7) mod_less_divisor [OF b(5), of m] by (simp_all add: unsigned_of_nat take_bit_nat_eq_self)
  have arr: "arr_get (sva_asdus self) ?j = Some (Some ?j)" "arr_get (sva_offsets self) ?j = Some (float_offsets 8 0)"
      "arr_get (sva_tss self) ?j = Some 32"
    using b(3,6) j(1) by (simp_all add: app_arrays_def arr_get_def)
  have cnt: "sva_count self \<noteq> 0" using count_zero [OF base] left by simp
  let ?ts = "Timestamp_setTimeInNanoseconds Timestamp_create (word_of_int ?t)"
  have row: "length ?row = 8" by (simp add: sample_row_def)
  obtain pub1 pub2 pub3 where w: "set_values ?j (zip (float_offsets 8 0) ?row) pub = Some pub1"
      "on_asdu SVPublisher_ASDU_increaseSmpCnt ?j pub1 = Some pub2"
      "on_asdu (\<lambda>mem a. map_option (\<lambda>mem. (mem, a)) (SVPublisher_ASDU_setTimestamp mem a 32 ?ts)) ?j pub2 = Some pub3"
      "app_frame mac n pub3 ((filled g n base m)[?j := sampled ?row (val ?ts) (filled g n base m ! ?j)])"
      "sp_ethernetSocket pub3 = sp_ethernetSocket pub"
    using sample_written [OF b(2) j(1) row stamp_ok] by blast
  have next_frame: "(filled g n base m)[?j := sampled ?row (val ?ts) (filled g n base m ! ?j)] = filled g n base (Suc m)"
    by (simp add: Let_def g_def sample_at_def sample_stamp_def)
  let ?self1 = "self\<lparr>sva_vals := (sva_vals self)[?j := ?row], sva_svPublisher := Some pub3, sva_sampleIndex := of_nat ?j + 1\<rparr>"
  have vals: "arr_get ((sva_vals self)[?j := ?row]) ?j = Some ?row" using b(4,6) j(1) by (simp add: arr_get_def)
  have upd: "SVPublisher_UpdateValues S fp sim self = Some (self\<lparr>sva_vals := (sva_vals self)[?j := ?row]\<rparr>)"
    using b(4,6) j now by (simp add: SVPublisher_UpdateValues_def arr_set_def sample_row_def now_view [OF sim] Let_def)
  have "SVPublisher_Measure S fp stack sim self = do {
        self \<leftarrow> (if sva_sampleIndex ?self1 = sva_samplesPerMessage ?self1
          then SVPublisher_Send (?self1\<lparr>sva_sampleIndex := 0\<rparr>) else Some ?self1);
        let (e, sim) = sim_Schedule S (sva_interval self) Measure sim;
        Some (sim, self\<lparr>sva_eventId := Some e\<rparr>) }"
    using cnt upd b(1,7) j(2) arr w(1-3) vals
    by (simp add: SVPublisher_Measure_def stamp_set [OF stack] Hal_getTimeInNs_def now_view [OF sim] now Let_def
        SVPublisher_Send_def cong: if_cong)
  then show thesis
    using that [of pub pub3 ?self1] b(1,4) w(4,5) unfolding next_frame by simp
qed

lemma filled_message: "filled (sample_at fp f t0 d) (length base) base ((i + 1) * length base) = message_at fp f t0 d base i"
  by (simp add: message_at_def)

lemma Measure_step:
  assumes sim: "simulates S view" and base: "sv_base fp mac base N t0 m self"
    and now: "v_now (view sim) = t0 + int m * sva_interval self" and idle: "v_pending (view sim) = Map.empty"
    and left: "m < length base * unat N" and stack: "length stack = 8"
  shows "\<exists>s'. SVPublisher_Measure S fp stack sim self = Some s' \<and> sv_app_inv view fp mac base N t0 (Suc m) s' \<and>
    sva_frequency (snd s') = sva_frequency self \<and> sva_interval (snd s') = sva_interval self \<and>
    v_now (view (fst s')) = v_now (view sim)"
proof -
  let ?n = "length base" and ?f = "sva_frequency self" and ?d = "sva_interval self"
  let ?g = "sample_at fp ?f t0 ?d"
  let ?pkts = "\<lambda>k. map (\<lambda>i. sv_packet default_sv_parameters mac (message_at fp ?f t0 ?d base i)) [0..<k]"
  obtain pub pub1 self1 where s1: "sva_svPublisher self = Some pub" "app_frame mac ?n pub1 (filled ?g ?n base (Suc m))"
      "sp_ethernetSocket pub1 = sp_ethernetSocket pub" "length (sva_vals self1) = 8"
      "self1 = self\<lparr>sva_vals := sva_vals self1, sva_svPublisher := Some pub1, sva_sampleIndex := of_nat (m mod ?n) + 1\<rparr>"
      "SVPublisher_Measure S fp stack sim self = do {
        self \<leftarrow> (if sva_sampleIndex self1 = sva_samplesPerMessage self1
          then SVPublisher_Send (self1\<lparr>sva_sampleIndex := 0\<rparr>) else Some self1);
        let (e, sim) = sim_Schedule S (sva_interval self) Measure sim;
        Some (sim, self\<lparr>sva_eventId := Some e\<rparr>) }"
    by (rule Measure_sample [OF sim base now left stack])
  have b: "es_sent (sp_ethernetSocket pub) = ?pkts (m div ?n)" "app_arrays ?n self"
      "sva_samplesPerMessage self = of_nat ?n" "0 < ?n" "?n \<le> 8" "sva_sent self = of_nat (m div ?n)"
      "sva_count self = N - of_nat (m div ?n)"
    using base s1(1) by (auto simp: sv_base_def Let_def)
  have le: "Suc m \<le> ?n * unat N" using left by simp
  define V where "V = sva_vals self1"
  have self1: "self1 = self\<lparr>sva_vals := V, sva_svPublisher := Some pub1, sva_sampleIndex := of_nat (m mod ?n) + 1\<rparr>"
    and V: "length V = 8"
    unfolding V_def by (rule s1(5), rule s1(4))
  obtain self2 where s2: "(if sva_sampleIndex self1 = sva_samplesPerMessage self1
        then SVPublisher_Send (self1\<lparr>sva_sampleIndex := 0\<rparr>) else Some self1) = Some self2"
      "sv_base fp mac base N t0 (Suc m) self2" "sva_frequency self2 = ?f" "sva_interval self2 = ?d"
  proof (cases "m mod ?n + 1 = ?n")
    case True
    note ix = next_index(2) [OF b(4,5) True]
    have full: "filled ?g ?n base (Suc m) = message_at fp ?f t0 ?d base (m div ?n)"
      using filled_message [of fp ?f t0 ?d base "m div ?n"] ix by simp
    have "sva_sampleIndex self1 = sva_samplesPerMessage self1"
      unfolding self1 using next_index(1) [OF b(4,5), of m] True b(3) by simp
    moreover obtain pub2 where p2: "SVPublisher_Send (self1\<lparr>sva_sampleIndex := 0\<rparr>) = Some (self1\<lparr>sva_sampleIndex := 0,
          sva_svPublisher := Some pub2, sva_count := sva_count self1 - 1, sva_sent := sva_sent self1 + 1\<rparr>)"
        "app_frame mac ?n pub2 (filled ?g ?n base (Suc m))"
        "es_sent (sp_ethernetSocket pub2) = ?pkts (m div ?n)
          @ [sv_packet default_sv_parameters mac (filled ?g ?n base (Suc m))]"
      using Send_base [of "self1\<lparr>sva_sampleIndex := 0\<rparr>" pub1 mac ?n "filled ?g ?n base (Suc m)"] s1(2,3) self1 b(1) by auto
    moreover have "sv_base fp mac base N t0 (Suc m) (self1\<lparr>sva_sampleIndex := 0,
          sva_svPublisher := Some pub2, sva_count := sva_count self1 - 1, sva_sent := sva_sent self1 + 1\<rparr>)"
      unfolding self1 using p2(2,3) b ix V le full by (simp add: sv_base_def Let_def app_arrays_def del: filled.simps)
    ultimately show thesis using that self1 by simp
  next
    case False
    note ix = next_index(3) [OF b(4,5) False]
    have "sva_sampleIndex self1 \<noteq> sva_samplesPerMessage self1"
      unfolding self1 using next_index(1) [OF b(4,5), of m] False b(3) by simp
    moreover have "sv_base fp mac base N t0 (Suc m) self1"
      unfolding self1 using s1(2,3) V b ix le by (simp add: sv_base_def Let_def app_arrays_def add.commute del: filled.simps)
    ultimately show thesis using that self1 by simp
  qed
  obtain e sim2 where sc: "sim_Schedule S ?d Measure sim = (e, sim2)"
      "v_pending (view sim2) = (v_pending (view sim))(e \<mapsto> (v_now (view sim) + ?d, Measure))"
      "v_issued (view sim2) = insert e (v_issued (view sim))" "v_now (view sim2) = v_now (view sim)"
    by (rule schedule_view [OF sim])
  have "sv_base fp mac base N t0 (Suc m) (self2\<lparr>sva_eventId := Some e\<rparr>)"
    using s2(2) by (simp add: sv_base_def Let_def app_arrays_def)
  then have "sv_app_inv view fp mac base N t0 (Suc m) (sim2, self2\<lparr>sva_eventId := Some e\<rparr>)"
    using sc(2,3) now idle s2(4) by (simp add: sv_app_inv_def algebra_simps)
  moreover have "SVPublisher_Measure S fp stack sim self = Some (sim2, self2\<lparr>sva_eventId := Some e\<rparr>)"
    unfolding s1(6) s2(1) using sc(1) s2(4) by simp
  ultimately show ?thesis using sc(4) s2(3,4) by auto
qed

section \<open>Start, runs and stop\<close>

definition sv_configured :: "devices \<Rightarrow> byte list \<Rightarrow> uint32 \<Rightarrow> nat \<Rightarrow> (nat \<Rightarrow> byte list) \<Rightarrow> SVPublisherApp \<Rightarrow> bool" where
  "sv_configured devices mac nodeId n svIDs self \<longleftrightarrow>
     devices (c_str (device_path nodeId (sva_deviceIndex self))) = Some mac \<and> length mac = 6 \<and>
     0 < n \<and> n \<le> 8 \<and> sva_samplesPerMessage self = of_nat n \<and> names_ok n svIDs \<and>
     sva_frequency self * sva_samplesPerCycle self \<noteq> 0 \<and> app_arrays 0 self \<and> length (sva_vals self) = 8"

definition sv_messages :: "SVPublisherApp \<Rightarrow> uint64" where
  "sv_messages self = (if sva_count self = 0 then - 1 else sva_count self)"

definition interval_of :: "SVPublisherApp \<Rightarrow> int" where
  "interval_of self = 1000 * (1000000 div uint (sva_frequency self * sva_samplesPerCycle self))"

lemma sv_started:
  assumes sim: "simulates S view" and conf: "sv_configured devices mac nodeId n svIDs self"
    and heap: "length heap = 1518" and idle: "v_pending (view sim) = Map.empty"
  obtains s base where "SVPublisher_StartApplication S devices heap svIDs nodeId sim self = Some s"
    and "length base = n" and "app_layout n svIDs base" and "sva_frequency (snd s) = sva_frequency self"
    and "sva_interval (snd s) = interval_of self"
    and "sv_app_inv view fp mac base (sv_messages self) (v_now (view sim)) 0 s"
    and "v_now (view (fst s)) = v_now (view sim)"
proof -
  let ?i = "c_str (device_path nodeId (sva_deviceIndex self))"
  have c: "devices ?i = Some mac" "length mac = 6" "0 < n" "n \<le> 8" "sva_samplesPerMessage self = of_nat n"
      "names_ok n svIDs" "uint (sva_frequency self * sva_samplesPerCycle self) \<noteq> 0" "app_arrays 0 self"
      "length (sva_vals self) = 8"
    using conf by (auto simp: sv_configured_def simp del: uint_word_arith_bintrs simp flip: uint_0_iff)
  obtain pub0 pub base where p: "SVPublisher_create devices heap None (Some ?i) = Some pub0" "sp_asduList pub0 = []"
      "SVPublisher_setupComplete (pub0\<lparr>sp_asduList := map (\<lambda>j. app_asdu (svIDs j)) [0..<n]\<rparr>) = Some pub"
      "app_frame mac n pub base" "app_layout n svIDs base" "es_sent (sp_ethernetSocket pub) = []"
    by (rule app_laid_out [of devices ?i mac heap n svIDs]) (use c heap in auto)
  let ?self1 = "self\<lparr>sva_interval := interval_of self\<rparr>"
  obtain asdus offsets tss where l: "add_asdus svIDs [0..<n] (pub0, ?self1)
      = Some (pub0\<lparr>sp_asduList := map (\<lambda>j. app_asdu (svIDs j)) [0..<n]\<rparr>,
          ?self1\<lparr>sva_asdus := asdus, sva_offsets := offsets, sva_tss := tss\<rparr>)"
      "app_arrays n (?self1\<lparr>sva_asdus := asdus, sva_offsets := offsets, sva_tss := tss\<rparr>)"
    using add_asdus_layout [OF c(4) p(2), of ?self1 svIDs] c(8) by (auto simp: app_arrays_def)
  have n: "unat (sva_samplesPerMessage self) = n" using c(4,5) by (simp add: unsigned_of_nat take_bit_nat_eq_self)
  obtain e sim' where sc: "sim_ScheduleNow S Measure sim = (e, sim')"
      "v_pending (view sim') = (v_pending (view sim))(e \<mapsto> (v_now (view sim), Measure))"
      "v_issued (view sim') = insert e (v_issued (view sim))" "v_now (view sim') = v_now (view sim)"
    by (rule schedule_now_view [OF sim])
  let ?s = "?self1\<lparr>sva_asdus := asdus, sva_offsets := offsets, sva_tss := tss, sva_svPublisher := Some pub,
    sva_count := sv_messages self, sva_sent := 0, sva_sampleIndex := 0, sva_eventId := Some e\<rparr>"
  have start: "SVPublisher_StartApplication S devices heap svIDs nodeId sim self = Some (sim', ?s)"
    using p(1,3) l(1) n sc(1) c(7)
    by (simp add: SVPublisher_StartApplication_def sample_interval_def interval_of_def Let_def sv_messages_def)
  have len: "length base = n" using p(4) by (simp add: app_frame_def)
  have "sv_base fp mac base (sv_messages self) (v_now (view sim)) 0 ?s"
    using p(4,6) l(2) len c(3-5,9) by (simp add: sv_base_def Let_def app_arrays_def)
  then have "sv_app_inv view fp mac base (sv_messages self) (v_now (view sim)) 0 (sim', ?s)"
    using sc(2,3) idle by (simp add: sv_app_inv_def)
  then show thesis using that [OF start len p(5)] sc(4) by simp
qed

text \<open>A step of the application, before and after its last message.\<close>

lemma sv_step_inv:
  assumes sim: "simulates S view" and inv: "sv_app_inv view fp mac base N t0 m s" and step: "sv_step S view fp s s'"
  shows "if m < length base * unat N
     then sv_app_inv view fp mac base N t0 (Suc m) s' \<and> sva_frequency (snd s') = sva_frequency (snd s) \<and>
       sva_interval (snd s') = sva_interval (snd s)
     else snd s' = snd s \<and> v_pending (view (fst s')) = Map.empty"
proof -
  obtain sim0 self where s: "s = (sim0, self)" by fastforce
  obtain e sim1 stack where st: "takes_event (view sim0) e Measure (view sim1)" "length stack = 8"
      "SVPublisher_Measure S fp stack sim1 self = Some s'"
    using step unfolding s by (auto elim: sv_stepE)
  have base: "sv_base fp mac base N t0 m self" using inv by (simp add: sv_app_inv_def s)
  have now: "v_now (view sim1) = t0 + int m * sva_interval self" "v_pending (view sim1) = Map.empty"
    using inv st(1) by (auto simp: sv_app_inv_def s takes_event_def split: if_splits)
  show ?thesis
  proof (cases "m < length base * unat N")
    case True
    then show ?thesis using Measure_step [OF sim base now True st(2)] st(3) s by auto
  next
    case False
    then have "sva_count self = 0"
      using count_zero [OF base] base by (simp add: sv_base_def Let_def)
    then show ?thesis using False st(3) s now(2) by (auto simp: SVPublisher_Measure_def)
  qed
qed

lemma Measure_returns:
  assumes "simulates S view" and "sv_app_inv view fp mac base N t0 m (sim, self)"
    and "takes_event (view sim) e Measure (view sim1)" and "length stack = 8"
  shows "SVPublisher_Measure S fp stack sim1 self \<noteq> None"
proof -
  have base: "sv_base fp mac base N t0 m self" using assms(2) by (simp add: sv_app_inv_def)
  have now: "v_now (view sim1) = t0 + int m * sva_interval self" "v_pending (view sim1) = Map.empty"
    using assms(2,3) by (auto simp: sv_app_inv_def takes_event_def split: if_splits)
  show ?thesis
  proof (cases "m < length base * unat N")
    case True
    then show ?thesis using Measure_step [OF assms(1) base now True assms(4)] by auto
  next
    case False
    then have "sva_count self = 0" using count_zero [OF base] base by (simp add: sv_base_def Let_def)
    then show ?thesis by (simp add: SVPublisher_Measure_def)
  qed
qed

lemma sv_run:
  assumes sim: "simulates S view" and inv: "sv_app_inv view fp mac base N t0 0 s" and run: "(sv_step S view fp ^^ k) s s'"
  shows "k \<le> length base * unat N + 1" and "sv_base fp mac base N t0 (min k (length base * unat N)) (snd s')"
    and "sva_frequency (snd s') = sva_frequency (snd s)" and "sva_interval (snd s') = sva_interval (snd s)"
    and "if k \<le> length base * unat N then sv_app_inv view fp mac base N t0 k s' else v_pending (view (fst s')) = Map.empty"
proof -
  let ?M = "length base * unat N"
  have "k \<le> ?M + 1 \<and> sv_base fp mac base N t0 (min k ?M) (snd s') \<and>
      sva_frequency (snd s') = sva_frequency (snd s) \<and> sva_interval (snd s') = sva_interval (snd s) \<and>
      (if k \<le> ?M then sv_app_inv view fp mac base N t0 k s' else v_pending (view (fst s')) = Map.empty)"
    using run
  proof (induction k arbitrary: s')
    case 0
    then show ?case using inv by (auto simp: sv_app_inv_def)
  next
    case (Suc k)
    obtain s1 where r: "(sv_step S view fp ^^ k) s s1" "sv_step S view fp s1 s'" using Suc.prems by auto
    note ih = Suc.IH [OF r(1)]
    have le: "k \<le> ?M"
    proof (rule ccontr)
      assume "\<not> k \<le> ?M"
      then have "v_pending (view (fst s1)) = Map.empty" using ih by simp
      then show False using r(2) by (cases s1) (auto elim!: sv_stepE simp: takes_event_def)
    qed
    then have "sv_app_inv view fp mac base N t0 k s1" using ih by simp
    from sv_step_inv [OF sim this r(2)] show ?case
      using le ih by (auto simp: sv_app_inv_def min_def split: if_splits)
  qed
  then show "k \<le> ?M + 1" and "sv_base fp mac base N t0 (min k ?M) (snd s')"
    and "sva_frequency (snd s') = sva_frequency (snd s)" and "sva_interval (snd s') = sva_interval (snd s)"
    and "if k \<le> ?M then sv_app_inv view fp mac base N t0 k s' else v_pending (view (fst s')) = Map.empty"
    by blast+
qed

text \<open>The message number \<open>i\<close>: the sample of ASDU \<open>k\<close> was taken at \<open>t0 + (i * n + k) * d\<close>.\<close>

definition app_message ::
    "float_ops \<Rightarrow> uint64 \<Rightarrow> int \<Rightarrow> int \<Rightarrow> sv_asdu list \<Rightarrow> nat \<Rightarrow> sv_asdu list" where
  "app_message fp f t0 d base i = map (\<lambda>k. let t = t0 + int (i * length base + k) * d in
     (base ! k)\<lparr>v_data := concat (map be_bytes (sample_row fp f t)) @ sample_stamp t,
       v_smpCnt := of_nat ((i + 1) mod 65535)\<rparr>) [0..<length base]"

lemma message_eq: "list_all (\<lambda>v. v_smpCnt v = 0) base \<Longrightarrow> message_at fp f t0 d base i = app_message fp f t0 d base i"
  by (intro nth_equalityI) (simp_all add: app_message_def message_at_def [THEN arg_cong [of _ _ length]] message_nth
      list_all_length Let_def)

lemma sv_base_sent:
  assumes "sv_base fp mac base N t0 m self"
  shows "unat (sva_sent self) = m div length base"
    and "\<exists>pub. sva_svPublisher self = Some pub \<and> es_sent (sp_ethernetSocket pub)
      = map (\<lambda>i. sv_packet default_sv_parameters mac (message_at fp (sva_frequency self) t0 (sva_interval self) base i))
          [0..<m div length base]"
proof -
  have "m div length base < 2 ^ 64"
    using assms sent_le [of m "length base" N] unsigned_less [of N, where ?'a = nat] by (simp add: sv_base_def Let_def)
  then show "unat (sva_sent self) = m div length base"
    using assms by (simp add: sv_base_def Let_def unat_small64)
qed (use assms in \<open>auto simp: sv_base_def Let_def\<close>)

lemma sv_stop:
  assumes "simulates S view" and "sv_base fp mac base N t0 m self"
    and "sv_app_inv view fp mac base N t0 m (sim, self) \<or> v_pending (view sim) = Map.empty"
  shows "\<exists>sim' self'. SVPublisher_StopApplication S sim self = Some (sim', self') \<and> v_pending (view sim') = Map.empty"
  using assms cancel_view(1) [OF assms(1)] cancel_none_view [OF assms(1)]
  by (cases "sva_eventId self") (auto simp: SVPublisher_StopApplication_def sv_base_def sv_app_inv_def Let_def)

section \<open>Properties\<close>

text \<open>C3. The publisher application sends the samples it measures: it starts without a fault, and after k
  steps it has sent k div n messages, n being the samples per message, up to the
  configured number (0 stands for 18446744073709551615). Message i is one packet at the socket; its ASDU j
  holds the eight values and the time stamp of the time at which sample i * n + j was due, counted from the start in
  sampling intervals, and the sample counter (i + 1) mod 65535. The application stops by
  itself one step after its last message.\<close>

theorem sv_app_sends:
  assumes "simulates S view" and "sv_configured devices mac nodeId n svIDs self" and "length heap = 1518"
    and "v_pending (view sim) = Map.empty"
  shows "\<exists>s base. SVPublisher_StartApplication S devices heap svIDs nodeId sim self = Some s \<and> app_layout n svIDs base \<and>
    (\<forall>k s'. (sv_step S view fp ^^ k) s s' \<longrightarrow>
      k \<le> n * unat (sv_messages self) + 1 \<and>
      (let m = min (k div n) (unat (sv_messages self)) in
       unat (sva_sent (snd s')) = m \<and>
       (\<exists>pub. sva_svPublisher (snd s') = Some pub \<and> es_sent (sp_ethernetSocket pub)
         = map (\<lambda>i. sv_packet default_sv_parameters mac
             (app_message fp (sva_frequency self) (v_now (view sim)) (interval_of self) base i)) [0..<m])) \<and>
      (k \<le> n * unat (sv_messages self) \<longleftrightarrow> v_pending (view (fst s')) \<noteq> Map.empty))"
proof (rule sv_started [OF assms, of fp])
  fix s base
  let ?N = "sv_messages self"
  assume s: "SVPublisher_StartApplication S devices heap svIDs nodeId sim self = Some s" "length base = n"
    "app_layout n svIDs base" "sva_frequency (snd s) = sva_frequency self"
    "sva_interval (snd s) = interval_of self" "sv_app_inv view fp mac base ?N (v_now (view sim)) 0 s"
  have n: "0 < n" using assms(2) by (simp add: sv_configured_def)
  have div: "min k (n * unat ?N) div n = min (k div n) (unat ?N)" for k
    using n div_le_mono [of k "n * unat ?N" n] div_le_mono [of "n * unat ?N" k n] by (auto simp: min_def)
  show ?thesis
  proof (intro exI [of _ s] exI [of _ base] conjI allI impI s(1,3), goal_cases)
    case (1 k s')
    then show ?case using sv_run(1) [OF assms(1) s(6)] s(2) by blast
  next
    case (2 k s')
    note r = sv_run(2-4) [OF assms(1) s(6) 2]
    show ?case
      using sv_base_sent [OF r(1)] r(2,3) s(2,4,5) message_eq app_layout_zero [OF s(3)] by (simp add: Let_def div)
  next
    case (3 k s')
    then show ?case using sv_run(5) [OF assms(1) s(6), of k s'] s(2) by (auto simp: sv_app_inv_def fun_eq_iff split: if_splits)
  qed
qed

text \<open>C4. No handler of the publisher application faults: in every state that a run reaches, Measure
  returns when its event is taken, whatever its local time stamp held before, and stopping the application
  returns and leaves no event pending.\<close>

theorem sv_app_safe:
  assumes "simulates S view" and "sv_configured devices mac nodeId n svIDs self" and "length heap = 1518"
    and "v_pending (view sim) = Map.empty"
  shows "\<exists>s. SVPublisher_StartApplication S devices heap svIDs nodeId sim self = Some s \<and>
    (\<forall>k s'. (sv_step S view fp ^^ k) s s' \<longrightarrow>
      (\<forall>e sim1 stack. takes_event (view (fst s')) e Measure (view sim1) \<longrightarrow> length stack = 8 \<longrightarrow>
        SVPublisher_Measure S fp stack sim1 (snd s') \<noteq> None) \<and>
      (\<exists>sim2 self2. SVPublisher_StopApplication S (fst s') (snd s') = Some (sim2, self2) \<and>
        v_pending (view sim2) = Map.empty))"
proof (rule sv_started [OF assms, of fp])
  fix s base
  let ?N = "sv_messages self"
  assume s: "SVPublisher_StartApplication S devices heap svIDs nodeId sim self = Some s"
    "sv_app_inv view fp mac base ?N (v_now (view sim)) 0 s"
  have reach: "sv_base fp mac base ?N (v_now (view sim)) (min k (length base * unat ?N)) (snd s')"
      "sv_app_inv view fp mac base ?N (v_now (view sim)) (min k (length base * unat ?N)) (fst s', snd s') \<or>
       v_pending (view (fst s')) = Map.empty"
    if "(sv_step S view fp ^^ k) s s'" for k s'
    using sv_run(2,5) [OF assms(1) s(2) that] by (auto simp: min_def split: if_splits)
  show ?thesis
  proof (intro exI [of _ s] conjI allI impI s(1), goal_cases)
    case (1 k s' e sim1 stack)
    then have "v_pending (view (fst s')) \<noteq> Map.empty" by (auto simp: takes_event_def)
    then show ?case using Measure_returns [OF assms(1) _ 1(2,3)] reach(2) [OF 1(1)] by blast
  next
    case (2 k s')
    then show ?case using sv_stop [OF assms(1) reach(1) reach(2)] by blast
  qed
qed

text \<open>Some operations in the place of the floating point ones, for the examples: the theorems hold for all.\<close>

definition example_fp :: float_ops where
  "example_fp = \<lparr>f_int = word_of_int, f_add = (+), f_mul = (\<lambda>x y. x), f_div = (\<lambda>x y. x), d_int = word_of_int,
     d_div = (div), d_round = ucast, f_sin_times = (\<lambda>x y. x)\<rparr>"

text \<open>An application that sends two messages with two samples each.\<close>

definition example_sv_app :: SVPublisherApp where
  "example_sv_app = (SVPublisher_GetTypeId (replicate 8 []))\<lparr>sva_count := 2, sva_samplesPerMessage := 2\<rparr>"

definition example_sv_queue :: "sv_handler event_queue" where
  "example_sv_queue = \<lparr>q_now = 0, q_events = [], q_next = 0\<rparr>"

lemma example_sv_configured:
  "sv_configured example_devices [2, 0, 0, 0, 0, 1] 3 2 (\<lambda>_. c_str [0x73]) example_sv_app"
  "v_pending (queue_view example_sv_queue) = Map.empty" "sv_messages example_sv_app = 2"
  "v_now (queue_view example_sv_queue) = 0" "sva_frequency example_sv_app = 60" "interval_of example_sv_app = 16666000"
proof -
  have "string_ok (Some (c_str [0x73]))" "str_content (Some (c_str [0x73])) = [0x73]"
    by (simp_all add: string_ok_def c_str_def)
  then show "sv_configured example_devices [2, 0, 0, 0, 0, 1] 3 2 (\<lambda>_. c_str [0x73]) example_sv_app"
    by (simp add: sv_configured_def example_sv_app_def SVPublisher_GetTypeId_def example_devices_def devices_of_path
        app_arrays_def names_ok_def)
qed (simp_all add: queue_view_def example_sv_queue_def sv_messages_def example_sv_app_def SVPublisher_GetTypeId_def
    interval_of_def)

theorem sv_app_sends_witness:
  "\<exists>s base. SVPublisher_StartApplication queue_simulator example_devices (replicate 1518 0) (\<lambda>_. c_str [0x73]) 3
      example_sv_queue example_sv_app = Some s \<and>
    (\<forall>s'. (sv_step queue_simulator queue_view example_fp ^^ 3) s s' \<longrightarrow>
      unat (sva_sent (snd s')) = 1 \<and>
      (\<exists>pub. sva_svPublisher (snd s') = Some pub \<and> es_sent (sp_ethernetSocket pub)
        = [sv_packet default_sv_parameters [2, 0, 0, 0, 0, 1] (app_message example_fp 60 0 16666000 base 0)]))"
proof -
  have len: "length (replicate 1518 (0 :: byte)) = 1518" by simp
  show ?thesis
    using sv_app_sends [OF queue_simulates example_sv_configured(1) len example_sv_configured(2), of example_fp]
    unfolding example_sv_configured(3-6) by (fastforce simp: Let_def)
qed

theorem sv_app_safe_witness:
  "\<exists>s sim2 self2. SVPublisher_StartApplication queue_simulator example_devices (replicate 1518 0) (\<lambda>_. c_str [0x73]) 3
      example_sv_queue example_sv_app = Some s \<and>
    SVPublisher_StopApplication queue_simulator (fst s) (snd s) = Some (sim2, self2) \<and>
    v_pending (queue_view sim2) = Map.empty"
proof -
  have len: "length (replicate 1518 (0 :: byte)) = 1518" by simp
  show ?thesis
    using sv_app_safe [OF queue_simulates example_sv_configured(1) len example_sv_configured(2), of example_fp]
    by (metis relpowp_0_I)
qed

end
