(* ===== verification/Sv_App_Link.thy ===== *)
theory Sv_App_Link
  imports Sv_App_Run
begin

text \<open>
  From the sampled values publisher application to the subscriber application: what the listener of the
  subscriber application keeps of a sample, and of all the packets of a run.
\<close>

section \<open>The listener\<close>

text \<open>The sample of an ASDU with eight values and a time stamp.\<close>

definition sample_of :: "uint64 \<Rightarrow> uint16 \<Rightarrow> uint32 list \<Rightarrow> byte list \<Rightarrow> SVSample" where
  "sample_of now cnt row stamp = \<lparr>smp_sampleTimestamp = Timestamp_getTimeInNs \<lparr>val = stamp\<rparr>, smp_receivedTimestamp = now,
     smp_smpCnt = cnt, smp_ia = f32_to_f64 (row ! 0), smp_ib = f32_to_f64 (row ! 1), smp_ic = f32_to_f64 (row ! 2)\<rparr>"

definition carries :: "sv_asdu \<Rightarrow> uint32 list \<Rightarrow> byte list \<Rightarrow> bool" where
  "carries v row stamp \<longleftrightarrow> v_data v = concat (map be_bytes row) @ stamp \<and> length row = 8 \<and> length stamp = 8"

lemma be_bytes_inj: "be_bytes (x :: uint32) = be_bytes y \<Longrightarrow> x = y"
  using be_nat_be_bytes [of x] be_nat_be_bytes [of y] by (simp add: word_unat_eq_iff)

lemma carries_values:
  assumes "carries v row stamp" and "j < 8"
  shows "take 4 (drop (4 * j) (v_data v)) = be_bytes (row ! j)" and "length (v_data v) = 40" and "drop 32 (v_data v) = stamp"
proof -
  have "row = take j row @ row ! j # drop (Suc j) row" using assms by (simp add: carries_def id_take_nth_drop)
  moreover have len: "length (concat (map be_bytes (xs :: uint32 list))) = 4 * length xs" for xs by (induction xs) simp_all
  ultimately have "v_data v = concat (map be_bytes (take j row)) @ be_bytes (row ! j)
      @ concat (map be_bytes (drop (Suc j) row)) @ stamp"
    using assms(1) unfolding carries_def by (metis append.assoc concat.simps(2) concat_append list.simps(9) map_append)
  then show "take 4 (drop (4 * j) (v_data v)) = be_bytes (row ! j)" using assms len by (simp add: carries_def)
  show "length (v_data v) = 40" "drop 32 (v_data v) = stamp" using assms(1) len by (simp_all add: carries_def)
qed

lemma Receive_sample:
  assumes "heard sub e v" and "carries v row stamp"
  shows "SVSubscriber_Receive now e self
    = Some (self\<lparr>ssa_lastSample := sample_of now (v_smpCnt v) row stamp, ssa_received := ssa_received self + 1\<rparr>)"
proof -
  have data: "data_received e v" and cnt: "SVSubscriber_ASDU_getSmpCnt (ev_mem e) (ev_asdu e) = Some (v_smpCnt v)"
    using assms(1) by (simp_all add: heard_def received_def counts_received_def)
  have f: "SVSubscriber_ASDU_getFLOAT32 (ev_mem e) (ev_asdu e) (int (4 * j)) = Some (row ! j)" if "j < 8" for j
    unfolding SVSubscriber_ASDU_getFLOAT32_def
    by (rule read_word_be)
      (use data [unfolded data_received_def, THEN conjunct2, rule_format, of "4 * j" 4] carries_values [OF assms(2) that]
          that in simp_all)
  have ts: "SVSubscriber_ASDU_getTimestamp (ev_mem e) (ev_asdu e) 32 = Some \<lparr>val = stamp\<rparr>"
    using data [unfolded data_received_def, THEN conjunct2, rule_format, of 32 8] carries_values(2,3) [OF assms(2), of 0]
      assms(2) by (simp add: SVSubscriber_ASDU_getTimestamp_def carries_def)
  show ?thesis
    using f [of 0] f [of 1] f [of 2] ts cnt by (simp add: SVSubscriber_Receive_def sample_of_def Let_def)
qed

text \<open>One packet: the listener is called for every ASDU, and keeps the last one.\<close>

lemma receive_events_samples:
  assumes "list_all2 (heard sub) es vs" and "\<forall>v \<in> set vs. \<exists>row stamp. carries v row stamp"
  shows "\<exists>sample. receive_events now es self
    = Some (self\<lparr>ssa_lastSample := sample, ssa_received := ssa_received self + of_nat (length vs)\<rparr>) \<and>
    (vs = [] \<longrightarrow> sample = ssa_lastSample self) \<and>
    (\<forall>row stamp. vs \<noteq> [] \<longrightarrow> carries (last vs) row stamp \<longrightarrow> sample = sample_of now (v_smpCnt (last vs)) row stamp)"
  using assms
proof (induction es vs arbitrary: self rule: list_all2_induct)
  case Nil
  then show ?case by (intro exI [of _ "ssa_lastSample self"]) simp
next
  case (Cons e es v vs)
  obtain row stamp where c: "carries v row stamp" using Cons.prems by auto
  let ?self1 = "self\<lparr>ssa_lastSample := sample_of now (v_smpCnt v) row stamp, ssa_received := ssa_received self + 1\<rparr>"
  have unique: "row' = row \<and> stamp' = stamp" if "carries v row' stamp'" for row' stamp'
  proof
    show "stamp' = stamp" using carries_values(3) [OF that, of 0] carries_values(3) [OF c, of 0] by simp
    have "be_bytes (row' ! j) = be_bytes (row ! j)" if "j < 8" for j
      using carries_values(1) [OF c that] carries_values(1) [OF \<open>carries v row' stamp'\<close> that] by simp
    then show "row' = row" using c that by (intro nth_equalityI) (auto simp: carries_def dest: be_bytes_inj)
  qed
  obtain sample where s: "receive_events now es ?self1
      = Some (?self1\<lparr>ssa_lastSample := sample, ssa_received := ssa_received ?self1 + of_nat (length vs)\<rparr>)"
      "vs = [] \<longrightarrow> sample = ssa_lastSample ?self1"
      "\<forall>row stamp. vs \<noteq> [] \<longrightarrow> carries (last vs) row stamp \<longrightarrow> sample = sample_of now (v_smpCnt (last vs)) row stamp"
    using Cons.IH [of ?self1] Cons.prems by auto
  then show ?case
    using Receive_sample [OF Cons.hyps(1) c] unique by (intro exI [of _ sample]) (auto simp: add.assoc)
qed

section \<open>Packets of a run\<close>

definition subscribed :: "SVSubscriberApp \<Rightarrow> bool" where
  "subscribed self \<longleftrightarrow> (\<exists>r sub. ssa_receiver self = Some r \<and> length (sr_buffer r) = 1518 \<and> \<not> sr_checkDestAddr r \<and>
     find (\<lambda>s. ss_appId (snd s) = 0x4000) (sr_subscriberList r) = Some sub \<and> ss_listener (snd sub))"

lemma subscriber_started:
  assumes "devices (c_str (device_path nodeId (ssa_deviceIndex self))) = Some mac" and "length heap = 1518"
  obtains self' where "SVSubscriber_StartApplication devices heap address nodeId self = Some self'"
    and "subscribed self'" and "ssa_received self' = 0"
proof -
  let ?i = "c_str (device_path nodeId (ssa_deviceIndex self))"
  have "StringUtils_copyString ?i = Some ?i" by (rule copyString_c_str [OF no_nul_path])
  then show thesis
    using that assms
    by (simp add: SVSubscriber_StartApplication_def SVReceiver_setInterfaceId_def SVReceiver_create_def SVSubscriber_create_def
        SVSubscriber_setListener_def SVReceiver_addSubscriber_def SVReceiver_start_def SVReceiver_startThreadless_def
        Ethernet_createSocket_def subscribed_def Let_def)
qed

text \<open>A message of the application.\<close>

definition sendable :: "byte list \<Rightarrow> sv_asdu list \<Rightarrow> bool" where
  "sendable mac vs \<longleftrightarrow> (\<exists>pub. app_frame mac (length vs) pub vs) \<and> vs \<noteq> [] \<and>
     (\<forall>v \<in> set vs. \<exists>row stamp. carries v row stamp)"

lemma receive_packet_samples:
  assumes sub: "subscribed self" and vs: "sendable mac vs" and mac: "length mac = 6"
  obtains self' where "receive_packet now (sv_packet default_sv_parameters mac vs) self = Some self'"
    and "subscribed self'" and "ssa_received self' = ssa_received self + of_nat (length vs)"
    and "\<forall>row stamp. carries (last vs) row stamp \<longrightarrow> ssa_lastSample self' = sample_of now (v_smpCnt (last vs)) row stamp"
proof -
  obtain r s where r: "ssa_receiver self = Some r" "length (sr_buffer r) = 1518" "\<not> sr_checkDestAddr r"
      "find (\<lambda>s. ss_appId (snd s) = appId default_sv_parameters) (sr_subscriberList r) = Some s" "ss_listener (snd s)"
    using sub by (auto simp: subscribed_def default_sv_parameters_def)
  obtain a b where s: "s = (a, b)" by fastforce
  obtain pub where inv: "sv_inv (app_hdr mac) pub vs" using vs by (auto simp: sendable_def app_frame_def)
  have ne: "vs \<noteq> []" and c: "\<forall>v \<in> set vs. \<exists>row stamp. carries v row stamp" using vs by (auto simp: sendable_def)
  have dst: "length (dstAddress default_sv_parameters) = 6" by (simp add: default_sv_parameters_def)
  obtain mem es where t: "SVReceiver_tick (sv_packet default_sv_parameters mac vs) r = Some (True, r\<lparr>sr_buffer := mem\<rparr>, es)"
      "length mem = 1518" "list_all2 (heard s) es vs"
    by (rule tick_heard [OF inv dst mac ne r(2-5)])
  let ?self1 = "self\<lparr>ssa_receiver := Some (r\<lparr>sr_buffer := mem\<rparr>)\<rparr>"
  obtain sample where e: "receive_events now es ?self1
      = Some (?self1\<lparr>ssa_lastSample := sample, ssa_received := ssa_received ?self1 + of_nat (length vs)\<rparr>)"
      "\<forall>row stamp. carries (last vs) row stamp \<longrightarrow> sample = sample_of now (v_smpCnt (last vs)) row stamp"
    using receive_events_samples [OF t(3) c, of now ?self1] ne by auto
  show thesis
    by (rule that [of "?self1\<lparr>ssa_lastSample := sample, ssa_received := ssa_received ?self1 + of_nat (length vs)\<rparr>"])
      (use r t e s in \<open>simp_all add: receive_packet_def receiveCallback_def subscribed_def default_sv_parameters_def\<close>)
qed

lemma receive_packets_samples:
  assumes "subscribed self" and "list_all (\<lambda>vs. sendable mac vs \<and> length vs = n) vss" and "length mac = 6"
    and "length nows = length vss"
  shows "\<exists>self'. receive_packets (zip nows (map (sv_packet default_sv_parameters mac) vss)) self = Some self' \<and>
    ssa_received self' = ssa_received self + of_nat (length vss * n) \<and>
    (\<forall>row stamp. vss \<noteq> [] \<longrightarrow> carries (last (last vss)) row stamp \<longrightarrow>
      ssa_lastSample self' = sample_of (last nows) (v_smpCnt (last (last vss))) row stamp)"
  using assms
proof (induction vss arbitrary: self nows)
  case Nil
  then show ?case by simp
next
  case (Cons vs vss)
  obtain now nows' where nows: "nows = now # nows'" "length nows' = length vss"
    using Cons.prems(4) by (cases nows) auto
  have vs: "sendable mac vs" "length vs = n" using Cons.prems(2) by auto
  obtain self1 where s1: "receive_packet now (sv_packet default_sv_parameters mac vs) self = Some self1"
      "subscribed self1" "ssa_received self1 = ssa_received self + of_nat n"
      "\<forall>row stamp. carries (last vs) row stamp \<longrightarrow> ssa_lastSample self1 = sample_of now (v_smpCnt (last vs)) row stamp"
    using receive_packet_samples [OF Cons.prems(1) vs(1) Cons.prems(3)] vs(2) by metis
  obtain self2 where s2: "receive_packets (zip nows' (map (sv_packet default_sv_parameters mac) vss)) self1 = Some self2"
      "ssa_received self2 = ssa_received self1 + of_nat (length vss * n)"
      "\<forall>row stamp. vss \<noteq> [] \<longrightarrow> carries (last (last vss)) row stamp \<longrightarrow>
        ssa_lastSample self2 = sample_of (last nows') (v_smpCnt (last (last vss))) row stamp"
    using Cons.IH [OF s1(2) _ Cons.prems(3) nows(2)] Cons.prems(2) by auto
  show ?case
    using s1 s2 nows by (cases vss) (auto simp: algebra_simps)
qed

text \<open>Every message of a run can be sent: it was the frame of the publisher when it was sent.\<close>

lemma message_carries:
  assumes "k < length base" and "t = t0 + int (i * length base + k) * d"
  shows "carries (app_message fp f t0 d base i ! k) (sample_row fp f t) (sample_stamp t)"
    and "v_smpCnt (app_message fp f t0 d base i ! k) = of_nat ((i + 1) mod 65535)"
  using assms stamp_ok [of "word_of_int t"]
  by (simp_all add: carries_def app_message_def Let_def sample_row_def sample_stamp_def ts_ok_def)

lemma length_app_message [simp]: "length (app_message fp f t0 d base i) = length base"
  by (simp add: app_message_def)

lemma run_sendable:
  assumes sim: "simulates S view" and inv: "sv_app_inv view fp mac base N t0 0 s" and run: "(sv_step S view fp ^^ k) s s'"
    and zero: "list_all (\<lambda>v. v_smpCnt v = 0) base" and i: "i < min (k div length base) (unat N)"
  shows "sendable mac (app_message fp (sva_frequency (snd s)) t0 (sva_interval (snd s)) base i)"
proof -
  let ?n = "length base" and ?vs = "app_message fp (sva_frequency (snd s)) t0 (sva_interval (snd s)) base i"
  have n: "0 < ?n" using inv by (simp add: sv_app_inv_def sv_base_def Let_def)
  let ?m = "(i + 1) * ?n"
  have "?m \<le> k div ?n * ?n" using i by (intro mult_right_mono) simp_all
  then have m: "?m \<le> k" using div_times_less_eq_dividend [of k ?n] by linarith
  have m2: "?m \<le> ?n * unat N" using i mult_left_mono [of "i + 1" "unat N" ?n] by (simp add: mult.commute)
  obtain s1 where s1: "(sv_step S view fp ^^ ?m) s s1"
    using run m relpowp_add [of ?m "k - ?m" "sv_step S view fp"] by auto
  note r = sv_run(2-4) [OF sim inv s1]
  have "\<exists>pub. app_frame mac ?n pub (message_at fp (sva_frequency (snd s)) t0 (sva_interval (snd s)) base i)"
    using r m2 unfolding message_at_def by (auto simp: sv_base_def Let_def min_def)
  moreover have "\<forall>v \<in> set ?vs. \<exists>row stamp. carries v row stamp"
    unfolding set_conv_nth using message_carries(1) [where base = base] by fastforce
  moreover have "?vs \<noteq> []" using n length_app_message by (metis length_greater_0_conv)
  ultimately show ?thesis unfolding sendable_def length_app_message message_eq [OF zero] by blast
qed

lemma stamp_time:
  assumes "0 \<le> t" and "t < 1000000000 * 2 ^ 32"
  shows "int (unat (Timestamp_getTimeInNs \<lparr>val = sample_stamp t\<rparr>)) \<le> t \<and>
    t \<le> int (unat (Timestamp_getTimeInNs \<lparr>val = sample_stamp t\<rparr>)) + 60"
proof -
  have u: "int (unat (word_of_int t :: uint64)) = t"
    using assms by (simp add: uint_word_of_int)
  have ok: "ts_ok Timestamp_create" by (simp add: ts_ok_def Timestamp_create_def)
  have lt: "unat (word_of_int t :: uint64) < 1000000000 * 2 ^ 32" using assms by (simp add: unat_eq_nat_uint uint_word_of_int nat_less_iff)
  have eq: "\<lparr>val = sample_stamp t\<rparr> = Timestamp_setTimeInNanoseconds Timestamp_create (word_of_int t)"
    by (simp add: sample_stamp_def)
  show ?thesis unfolding eq using ns_roundtrip(3,4) [OF ok lt] u by linarith
qed

text \<open>What the subscriber application knows after the packets of a run.\<close>

lemma run_sampled:
  assumes sim: "simulates S view" and inv: "sv_app_inv view fp mac base N t0 0 s" and run: "(sv_step S view fp ^^ k) s s'"
    and zero: "list_all (\<lambda>v. v_smpCnt v = 0) base" and mac: "length mac = 6" and sub: "subscribed r" "ssa_received r = 0"
    and pub: "sva_svPublisher (snd s') = Some pub" and nows: "length nows = length (es_sent (sp_ethernetSocket pub))"
  defines "m \<equiv> min (k div length base) (unat N)"
  defines "t \<equiv> t0 + int (m * length base - 1) * sva_interval (snd s)"
  shows "\<exists>r'. receive_packets (zip nows (es_sent (sp_ethernetSocket pub))) r = Some r' \<and>
    ssa_received r' = of_nat (m * length base) \<and>
    (0 < m \<longrightarrow> ssa_lastSample r'
      = sample_of (last nows) (of_nat (m mod 65535)) (sample_row fp (sva_frequency (snd s)) t) (sample_stamp t))"
proof -
  let ?n = "length base" and ?f = "sva_frequency (snd s)" and ?d = "sva_interval (snd s)"
  let ?vss = "map (app_message fp ?f t0 ?d base) [0..<m]"
  have n: "0 < ?n" using inv by (simp add: sv_app_inv_def sv_base_def Let_def)
  note st = sv_run(2-4) [OF sim inv run]
  have div: "min k (?n * unat N) div ?n = m"
    using n div_le_mono [of k "?n * unat N" ?n] div_le_mono [of "?n * unat N" k ?n] by (auto simp: min_def m_def)
  have sent: "es_sent (sp_ethernetSocket pub) = map (sv_packet default_sv_parameters mac) ?vss"
    using sv_base_sent(2) [OF st(1)] st(2,3) pub unfolding div message_eq [OF zero] by (simp add: comp_def)
  have ok: "list_all (\<lambda>vs. sendable mac vs \<and> length vs = ?n) ?vss"
    using run_sendable [OF sim inv run zero] by (auto simp: list_all_iff m_def)
  have len: "length nows = length ?vss" using nows sent by simp
  obtain r' where r': "receive_packets (zip nows (es_sent (sp_ethernetSocket pub))) r = Some r'"
      "ssa_received r' = of_nat (m * ?n)"
      "\<forall>row stamp. ?vss \<noteq> [] \<longrightarrow> carries (last (last ?vss)) row stamp \<longrightarrow>
        ssa_lastSample r' = sample_of (last nows) (v_smpCnt (last (last ?vss))) row stamp"
    using receive_packets_samples [OF sub(1) ok mac len] sub(2) unfolding sent by auto
  have "ssa_lastSample r' = sample_of (last nows) (of_nat (m mod 65535)) (sample_row fp ?f t) (sample_stamp t)" if "0 < m"
  proof -
    have ne: "app_message fp ?f t0 ?d base i \<noteq> []" for i using n length_app_message by (metis length_greater_0_conv)
    have l: "last (last ?vss) = app_message fp ?f t0 ?d base (m - 1) ! (?n - 1)"
      using that ne by (simp add: last_map last_conv_nth)
    have "(m - 1) * ?n + (?n - 1) = m * ?n - 1"
      using that n by (simp add: diff_mult_distrib Suc_leI)
    then have t: "t = t0 + int ((m - 1) * ?n + (?n - 1)) * ?d" by (simp add: t_def)
    have lt: "?n - 1 < ?n" using n by simp
    show ?thesis
      using r'(3) message_carries [OF lt t, of fp ?f] that unfolding l by auto
  qed
  then show ?thesis using r' by blast
qed

end
