(* ===== verification/Linked_List.thy ===== *)
theory Linked_List
  imports Prelude
begin

text \<open>
  Linked lists, \<open>src/common/linked_list.cc\<close>, on an explicit heap of nodes. A list is the address of its
  head node, which holds no element. Element data are pointers (\<open>None\<close> is \<open>NULL\<close>). A new node gets an
  address that is an argument. Following \<open>NULL\<close> or a freed node is \<open>None\<close>, and so is a loop that does
  not end.
\<close>

section \<open>The heap\<close>

record sLinkedList =
  ll_data :: "nat option"
  ll_next :: "nat option"

type_synonym node_heap = "nat \<rightharpoonup> sLinkedList"

text \<open>\<open>p->next = n\<close>\<close>

definition set_next :: "node_heap \<Rightarrow> nat \<Rightarrow> nat option \<Rightarrow> node_heap option" where
  "set_next h p n = do { node \<leftarrow> h p; Some (h(p \<mapsto> node\<lparr>ll_next := n\<rparr>)) }"

section \<open>Operations\<close>

partial_function (option) LinkedList_getLastElement :: "node_heap \<Rightarrow> nat \<Rightarrow> nat option" where
  "LinkedList_getLastElement h list = do {
     node \<leftarrow> h list;
     (case ll_next node of None \<Rightarrow> Some list | Some p \<Rightarrow> LinkedList_getLastElement h p) }"

definition LinkedList_create :: "nat \<Rightarrow> node_heap \<Rightarrow> node_heap" where
  "LinkedList_create newList h = h(newList \<mapsto> \<lparr>ll_data = None, ll_next = None\<rparr>)"

text \<open>The loop that frees the nodes; the result has the data for which the delete function was called.\<close>

partial_function (option) destroy_nodes :: "node_heap \<Rightarrow> nat \<Rightarrow> (node_heap \<times> nat list) option" where
  "destroy_nodes h currentElement = do {
     node \<leftarrow> h currentElement;
     let deleted = (case ll_data node of None \<Rightarrow> [] | Some d \<Rightarrow> [d]);
     let h = h(currentElement := None);
     (case ll_next node of
        None \<Rightarrow> Some (h, deleted)
      | Some nextElement \<Rightarrow> do {
          (h, rest) \<leftarrow> destroy_nodes h nextElement;
          Some (h, deleted @ rest) }) }"

definition LinkedList_destroyDeep :: "node_heap \<Rightarrow> nat option \<Rightarrow> (node_heap \<times> nat list) option" where
  "LinkedList_destroyDeep h list = (case list of None \<Rightarrow> Some (h, []) | Some l \<Rightarrow> destroy_nodes h l)"

text \<open>The delete function is \<open>Memory_free\<close>.\<close>

definition LinkedList_destroy :: "node_heap \<Rightarrow> nat option \<Rightarrow> (node_heap \<times> nat list) option" where
  "LinkedList_destroy h list = LinkedList_destroyDeep h list"

partial_function (option) LinkedList_destroyStatic :: "node_heap \<Rightarrow> nat \<Rightarrow> node_heap option" where
  "LinkedList_destroyStatic h currentElement = do {
     node \<leftarrow> h currentElement;
     let h = h(currentElement := None);
     (case ll_next node of None \<Rightarrow> Some h | Some nextElement \<Rightarrow> LinkedList_destroyStatic h nextElement) }"

partial_function (option) size_from :: "node_heap \<Rightarrow> nat \<Rightarrow> int \<Rightarrow> int option" where
  "size_from h nextElement sz = do {
     node \<leftarrow> h nextElement;
     (case ll_next node of None \<Rightarrow> Some sz | Some p \<Rightarrow> size_from h p (int32 (sz + 1))) }"

definition LinkedList_size :: "node_heap \<Rightarrow> nat \<Rightarrow> int option" where
  "LinkedList_size h list = size_from h list 0"

definition LinkedList_add :: "nat \<Rightarrow> node_heap \<Rightarrow> nat \<Rightarrow> nat option \<Rightarrow> node_heap option" where
  "LinkedList_add newElement h list data = do {
     let h = (LinkedList_create newElement h)(newElement \<mapsto> \<lparr>ll_data = data, ll_next = None\<rparr>);
     listEnd \<leftarrow> LinkedList_getLastElement h list;
     set_next h listEnd (Some newElement) }"

partial_function (option) contains_from :: "node_heap \<Rightarrow> nat option \<Rightarrow> nat option \<Rightarrow> bool option" where
  "contains_from h currentElement data =
     (case currentElement of
        None \<Rightarrow> Some False
      | Some p \<Rightarrow> do {
          node \<leftarrow> h p;
          if ll_data node = data then Some True else contains_from h (ll_next node) data })"

definition LinkedList_contains :: "node_heap \<Rightarrow> nat \<Rightarrow> nat option \<Rightarrow> bool option" where
  "LinkedList_contains h list data = do { node \<leftarrow> h list; contains_from h (ll_next node) data }"

partial_function (option) remove_from ::
    "node_heap \<Rightarrow> nat \<Rightarrow> nat option \<Rightarrow> nat option \<Rightarrow> (bool \<times> node_heap) option" where
  "remove_from h lastElement currentElement data =
     (case currentElement of
        None \<Rightarrow> Some (False, h)
      | Some p \<Rightarrow> do {
          node \<leftarrow> h p;
          if ll_data node = data
          then do {
            h \<leftarrow> set_next h lastElement (ll_next node);
            Some (True, h(p := None)) }
          else remove_from h p (ll_next node) data })"

definition LinkedList_remove :: "node_heap \<Rightarrow> nat \<Rightarrow> nat option \<Rightarrow> (bool \<times> node_heap) option" where
  "LinkedList_remove h list data = do { node \<leftarrow> h list; remove_from h list (ll_next node) data }"

definition LinkedList_getNext :: "node_heap \<Rightarrow> nat \<Rightarrow> nat option option" where
  "LinkedList_getNext h list = do { node \<leftarrow> h list; Some (ll_next node) }"

definition LinkedList_insertAfter :: "nat \<Rightarrow> node_heap \<Rightarrow> nat \<Rightarrow> nat option \<Rightarrow> (nat \<times> node_heap) option" where
  "LinkedList_insertAfter newElement h list data = do {
     originalNextElement \<leftarrow> LinkedList_getNext h list;
     let h = (LinkedList_create newElement h)(newElement \<mapsto> \<lparr>ll_data = data, ll_next = originalNextElement\<rparr>);
     h \<leftarrow> set_next h list (Some newElement);
     Some (newElement, h) }"

text \<open>The loop of \<open>LinkedList_get\<close>, \<open>n\<close> steps before its end.\<close>

fun get_from :: "node_heap \<Rightarrow> nat option \<Rightarrow> nat \<Rightarrow> nat option option" where
  "get_from h element 0 = Some element"
| "get_from h element (Suc n) = do {
     e \<leftarrow> element;
     element \<leftarrow> LinkedList_getNext h e;
     if element = None then Some None else get_from h element n }"

definition LinkedList_get :: "node_heap \<Rightarrow> nat \<Rightarrow> int \<Rightarrow> nat option option" where
  "LinkedList_get h list index = do {
     element \<leftarrow> LinkedList_getNext h list;
     get_from h element (nat index) }"

definition LinkedList_getData :: "node_heap \<Rightarrow> nat \<Rightarrow> nat option option" where
  "LinkedList_getData h self = do { node \<leftarrow> h self; Some (ll_data node) }"

section \<open>Lists in the heap\<close>

text \<open>The nodes from a pointer on, as addresses with their data.\<close>

fun chain :: "node_heap \<Rightarrow> nat option \<Rightarrow> (nat \<times> nat option) list \<Rightarrow> bool" where
  "chain h p [] \<longleftrightarrow> p = None"
| "chain h p ((a, d) # xs) \<longleftrightarrow> p = Some a \<and>
     (case h a of None \<Rightarrow> False | Some node \<Rightarrow> ll_data node = d \<and> chain h (ll_next node) xs)"

definition is_list :: "node_heap \<Rightarrow> nat \<Rightarrow> (nat \<times> nat option) list \<Rightarrow> bool" where
  "is_list h l xs \<longleftrightarrow> distinct (l # map fst xs) \<and>
     (case h l of None \<Rightarrow> False | Some node \<Rightarrow> chain h (ll_next node) xs)"

abbreviation footprint :: "nat \<Rightarrow> (nat \<times> nat option) list \<Rightarrow> nat set" where
  "footprint l xs \<equiv> insert l (fst ` set xs)"

lemma chain_cong: "\<forall>a \<in> fst ` set xs. h' a = h a \<Longrightarrow> chain h' p xs = chain h p xs"
  by (induction h p xs rule: chain.induct) (auto split: option.splits)

lemma is_list_cong: "\<forall>a \<in> footprint l xs. h' a = h a \<Longrightarrow> is_list h' l xs = is_list h l xs"
  using chain_cong [of xs h' h] by (auto simp: is_list_def split: option.splits)

lemma chain_frame: "chain h p xs \<Longrightarrow> (\<And>a. a \<in> fst ` set xs \<Longrightarrow> h' a = h a) \<Longrightarrow> chain h' p xs"
  using chain_cong [of xs h' h] by blast

lemma is_list_frame: "is_list h l xs \<Longrightarrow> (\<And>a. a \<in> footprint l xs \<Longrightarrow> h' a = h a) \<Longrightarrow> is_list h' l xs"
  using is_list_cong [of l xs h' h] by blast

lemma chain_defined: "chain h p xs \<Longrightarrow> a \<in> fst ` set xs \<Longrightarrow> h a \<noteq> None"
  by (induction h p xs rule: chain.induct) (auto split: option.splits)

text \<open>The node before a chain is a head, so every lemma on a loop is about a head.\<close>

lemma is_list_Cons:
  "is_list h l ((a, d) # xs) \<longleftrightarrow> l \<noteq> a \<and> l \<notin> fst ` set xs \<and>
     (\<exists>ld nd. h l = Some \<lparr>ll_data = ld, ll_next = Some a\<rparr> \<and> h a = Some \<lparr>ll_data = d, ll_next = nd\<rparr>) \<and> is_list h a xs"
proof -
  have "(\<exists>nd. h a = Some \<lparr>ll_data = d, ll_next = nd\<rparr>) \<longleftrightarrow> (\<exists>node. h a = Some node \<and> ll_data node = d)"
    by (metis sLinkedList.select_convs(1) sLinkedList.surjective unit.exhaust)
  moreover have "(\<exists>ld. h l = Some \<lparr>ll_data = ld, ll_next = Some a\<rparr>) \<longleftrightarrow> (\<exists>node. h l = Some node \<and> ll_next node = Some a)"
    by (metis sLinkedList.select_convs(2) sLinkedList.surjective unit.exhaust)
  ultimately show ?thesis by (auto simp: is_list_def split: option.splits)
qed

lemma is_list_Nil: "is_list h l [] \<longleftrightarrow> (\<exists>ld. h l = Some \<lparr>ll_data = ld, ll_next = None\<rparr>)"
proof -
  have "(\<exists>ld. h l = Some \<lparr>ll_data = ld, ll_next = None\<rparr>) \<longleftrightarrow> (\<exists>node. h l = Some node \<and> ll_next node = None)"
    by (metis sLinkedList.select_convs(2) sLinkedList.surjective unit.exhaust)
  then show ?thesis by (auto simp: is_list_def split: option.splits)
qed

lemmas is_list_simps = is_list_Nil is_list_Cons

section \<open>Reading a list\<close>

lemma is_list_head: "is_list h l xs \<Longrightarrow> \<exists>ld. h l = Some \<lparr>ll_data = ld, ll_next = map_option fst (if xs = [] then None else Some (hd xs))\<rparr>"
  by (cases xs) (auto simp: is_list_simps)

lemma getLastElement_last: "is_list h l xs \<Longrightarrow> LinkedList_getLastElement h l = Some (last (l # map fst xs))"
proof (induction xs arbitrary: l)
  case (Cons x xs)
  then show ?case by (cases x) (auto simp: is_list_simps LinkedList_getLastElement.simps [of h l])
qed (auto simp: is_list_simps LinkedList_getLastElement.simps)

lemma size_from_length:
  "is_list h l xs \<Longrightarrow> 0 \<le> n \<Longrightarrow> n + int (length xs) < 2 ^ 31 \<Longrightarrow> size_from h l n = Some (n + int (length xs))"
proof (induction xs arbitrary: l n)
  case (Cons x xs)
  have "int32 (n + 1) = n + 1" using Cons.prems by (intro int32_id) auto
  then show ?case
    using Cons by (cases x) (auto simp: is_list_simps size_from.simps [of h l])
qed (auto simp: is_list_simps size_from.simps)

lemma contains_from_iff: "chain h p xs \<Longrightarrow> contains_from h p d = Some (d \<in> snd ` set xs)"
  by (induction h p xs rule: chain.induct) (auto simp: contains_from.simps split: option.splits)

lemma get_from_nth:
  "chain h p xs \<Longrightarrow> p \<noteq> None \<Longrightarrow> get_from h p n = Some (if n < length xs then Some (fst (xs ! n)) else None)"
proof (induction n arbitrary: p xs)
  case 0
  then show ?case by (cases xs) auto
next
  case (Suc n)
  obtain a d ys where xs: "xs = (a, d) # ys" using Suc.prems by (cases xs) auto
  obtain node where node: "h a = Some node" "p = Some a" "chain h (ll_next node) ys"
    using Suc.prems unfolding xs by (auto split: option.splits)
  show ?case
  proof (cases ys)
    case Nil
    then show ?thesis using node xs by (simp add: LinkedList_getNext_def)
  next
    case (Cons y zs)
    then have "ll_next node \<noteq> None" using node(3) by (cases y) auto
    then show ?thesis using Suc.IH [OF node(3)] node xs by (simp add: LinkedList_getNext_def)
  qed
qed

text \<open>An empty list has no element to step from.\<close>

lemma get_nth:
  assumes "is_list h l xs"
  shows "LinkedList_get h l i
    = (if xs = [] \<and> 0 < i then None else Some (if nat i < length xs then Some (fst (xs ! nat i)) else None))"
proof (cases xs)
  case Nil
  then show ?thesis
    using is_list_head [OF assms] by (cases "nat i") (auto simp: LinkedList_get_def LinkedList_getNext_def)
next
  case (Cons x ys)
  then obtain node where "h l = Some node" "chain h (ll_next node) xs" "ll_next node \<noteq> None"
    using assms by (cases x) (auto simp: is_list_def split: option.splits)
  then show ?thesis
    using get_from_nth [of h "ll_next node" xs "nat i"] Cons by (simp add: LinkedList_get_def LinkedList_getNext_def)
qed

section \<open>Changing a list\<close>

text \<open>
  The contract of an operation that changes a list: it returns, the list changes as specified, and only its own
  nodes and new ones are written.
\<close>

locale list_update =
  fixes op :: "node_heap \<Rightarrow> nat \<Rightarrow> node_heap option"
    and spec :: "(nat \<times> nat option) list \<Rightarrow> (nat \<times> nat option) list"
    and fresh :: "nat set"
  assumes update: "is_list h l xs \<Longrightarrow> \<forall>a \<in> fresh. h a = None \<Longrightarrow>
    \<exists>h'. op h l = Some h' \<and> is_list h' l (spec xs) \<and> (\<forall>a. a \<notin> footprint l xs \<union> fresh \<longrightarrow> h' a = h a)"
begin

lemma others:
  assumes "is_list h l xs" and "\<forall>a \<in> fresh. h a = None" and "op h l = Some h'"
    and "is_list h m ys" and "footprint l xs \<inter> footprint m ys = {}"
  shows "is_list h' m ys"
proof -
  have "\<forall>a \<in> footprint m ys. h a \<noteq> None"
    using assms(4) chain_defined by (fastforce simp: is_list_def split: option.splits)
  then have "\<forall>a \<in> footprint m ys. a \<notin> footprint l xs \<union> fresh" using assms(2,5) by auto
  then have "\<forall>a \<in> footprint m ys. h' a = h a" using update [OF assms(1,2)] assms(3) by auto
  then show ?thesis using is_list_cong assms(4) by blast
qed

lemma observed:
  assumes "is_list h l xs" and "\<forall>a \<in> fresh. h a = None" and "op h l = Some h'"
  shows "LinkedList_contains h' l d = Some (d \<in> snd ` set (spec xs))"
    and "length (spec xs) < 2 ^ 31 \<Longrightarrow> LinkedList_size h' l = Some (int (length (spec xs)))"
proof -
  have l: "is_list h' l (spec xs)" using update [OF assms(1,2)] assms(3) by auto
  then show "LinkedList_contains h' l d = Some (d \<in> snd ` set (spec xs))"
    using contains_from_iff by (auto simp: LinkedList_contains_def is_list_def split: option.splits)
  show "length (spec xs) < 2 ^ 31 \<Longrightarrow> LinkedList_size h' l = Some (int (length (spec xs)))"
    using size_from_length [OF l, of 0] by (simp add: LinkedList_size_def)
qed

end

text \<open>Writing the last node.\<close>

lemma append_node:
  "is_list h l xs \<Longrightarrow> n \<notin> footprint l xs \<Longrightarrow> h n = Some \<lparr>ll_data = d, ll_next = None\<rparr> \<Longrightarrow>
   \<exists>h'. set_next h (last (l # map fst xs)) (Some n) = Some h' \<and> is_list h' l (xs @ [(n, d)]) \<and>
     (\<forall>a. a \<notin> footprint l xs \<longrightarrow> h' a = h a)"
proof (induction xs arbitrary: l)
  case Nil
  then show ?case by (auto simp: is_list_simps set_next_def)
next
  case (Cons x xs)
  obtain a e where x: "x = (a, e)" by fastforce
  have l: "is_list h a xs" "l \<noteq> a" "l \<notin> fst ` set xs" "n \<noteq> l" "n \<notin> footprint a xs"
    using Cons.prems unfolding x is_list_Cons by auto
  obtain h' where h': "set_next h (last (a # map fst xs)) (Some n) = Some h'" "is_list h' a (xs @ [(n, d)])"
      "\<forall>b. b \<notin> footprint a xs \<longrightarrow> h' b = h b"
    using Cons.IH [OF l(1) l(5) Cons.prems(3)] by blast
  obtain ld nd where n: "h l = Some \<lparr>ll_data = ld, ll_next = Some a\<rparr>" "h a = Some \<lparr>ll_data = e, ll_next = nd\<rparr>"
    using Cons.prems(1) unfolding x is_list_Cons by blast
  have "\<exists>nd. h' a = Some \<lparr>ll_data = e, ll_next = nd\<rparr>"
    using h'(1) n(2) by (auto simp: set_next_def bind_eq_Some_conv split: if_splits)
  then show ?case
    using h' l n by (intro exI [of _ h']) (auto simp: x is_list_Cons)
qed

interpretation add: list_update "\<lambda>h l. LinkedList_add new h l d" "\<lambda>xs. xs @ [(new, d)]" "{new}"
  for new d
proof
  fix h l xs assume l: "is_list h l xs" and "\<forall>a \<in> {new}. h a = None"
  then have new: "new \<notin> footprint l xs"
    using chain_defined by (fastforce simp: is_list_def split: option.splits)
  let ?h = "(LinkedList_create new h)(new \<mapsto> \<lparr>ll_data = d, ll_next = None\<rparr>)"
  have "is_list ?h l xs" by (rule is_list_frame [OF l]) (use new in \<open>auto simp: LinkedList_create_def\<close>)
  then show "\<exists>h'. LinkedList_add new h l d = Some h' \<and> is_list h' l (xs @ [(new, d)]) \<and>
      (\<forall>a. a \<notin> footprint l xs \<union> {new} \<longrightarrow> h' a = h a)"
    using append_node [of ?h l xs new d] new getLastElement_last [of ?h l xs]
    by (auto simp: LinkedList_add_def LinkedList_create_def Let_def)
qed

text \<open>Removal of the first element with the data.\<close>

fun remove_data :: "nat option \<Rightarrow> (nat \<times> nat option) list \<Rightarrow> (nat \<times> nat option) list" where
  "remove_data d [] = []"
| "remove_data d (x # xs) = (if snd x = d then xs else x # remove_data d xs)"

lemma remove_data_subset: "set (remove_data d xs) \<subseteq> set xs"
  by (induction xs) auto

lemma map_remove_data: "map snd (remove_data d xs) = remove1 d (map snd xs)"
  by (induction xs) auto

lemma remove_from_data:
  "is_list h l xs \<Longrightarrow> h l = Some node \<Longrightarrow>
   \<exists>h'. remove_from h l (ll_next node) d = Some (d \<in> snd ` set xs, h') \<and> is_list h' l (remove_data d xs) \<and>
     (\<forall>a. a \<notin> footprint l xs \<longrightarrow> h' a = h a) \<and> dom h' = dom h - (fst ` set xs - fst ` set (remove_data d xs)) \<and>
     (\<exists>n. h' l = Some (node\<lparr>ll_next := n\<rparr>))"
proof (induction xs arbitrary: l node)
  case Nil
  then show ?case by (auto simp: is_list_simps remove_from.simps)
next
  case (Cons x xs)
  obtain a e where x: "x = (a, e)" by fastforce
  obtain nd where n: "node = \<lparr>ll_data = ll_data node, ll_next = Some a\<rparr>" "h a = Some \<lparr>ll_data = e, ll_next = nd\<rparr>"
    using Cons.prems unfolding x is_list_Cons by auto
  have l: "is_list h a xs" "l \<noteq> a" "l \<notin> fst ` set xs" "a \<notin> fst ` set xs"
    using Cons.prems unfolding x is_list_Cons by (auto simp: is_list_def)
  have nx: "ll_next node = Some a" by (subst n(1)) simp
  show ?case
  proof (cases "e = d")
    case True
    let ?h = "h(l \<mapsto> node\<lparr>ll_next := nd\<rparr>, a := None)"
    have "remove_from h l (ll_next node) d = Some (True, ?h)"
      using True nx n(2) Cons.prems(2) by (simp add: remove_from.simps set_next_def)
    moreover have "chain h nd xs" using l(1) n(2) by (simp add: is_list_def)
    then have "chain ?h nd xs" by (rule chain_frame) (use l in auto)
    then have "is_list ?h l xs" using l by (auto simp: is_list_def)
    moreover have "dom ?h = dom h - {a}" using Cons.prems(2) l(2) by auto
    ultimately show ?thesis using True l by (auto simp: x)
  next
    case False
    obtain h' m where h': "remove_from h a nd d = Some (d \<in> snd ` set xs, h')" "is_list h' a (remove_data d xs)"
        "\<forall>b. b \<notin> footprint a xs \<longrightarrow> h' b = h b" "dom h' = dom h - (fst ` set xs - fst ` set (remove_data d xs))"
        "h' a = Some \<lparr>ll_data = e, ll_next = m\<rparr>"
      using Cons.IH [OF l(1) n(2)] by auto
    have "remove_from h l (ll_next node) d = Some (d \<in> snd ` set (x # xs), h')"
      using False nx n(2) h'(1) by (subst remove_from.simps) (simp add: x)
    moreover have hl: "h' l = Some node" using h'(3) l(2,3) Cons.prems(2) by auto
    moreover have "is_list h' l (remove_data d (x # xs))"
      using h'(2,5) hl n(1) False l(2,3) remove_data_subset [of d xs] unfolding x
      by (auto simp: is_list_Cons image_iff)
    moreover have "dom h' = dom h - (fst ` set (x # xs) - fst ` set (remove_data d (x # xs)))"
      using h'(4) False l(4) n(2) by (auto simp: x)
    ultimately show ?thesis
      using h'(3) by (intro exI [of _ h']) (auto simp: x intro!: exI [of _ "ll_next node"])
  qed
qed

interpretation remove: list_update "\<lambda>h l. map_option snd (LinkedList_remove h l d)" "remove_data d" "{}"
  for d
proof
  fix h l xs assume l: "is_list h l xs"
  then obtain node where "h l = Some node" by (auto simp: is_list_def split: option.splits)
  then show "\<exists>h'. map_option snd (LinkedList_remove h l d) = Some h' \<and> is_list h' l (remove_data d xs) \<and>
      (\<forall>a. a \<notin> footprint l xs \<union> {} \<longrightarrow> h' a = h a)"
    using remove_from_data [OF l, of node d] by (auto simp: LinkedList_remove_def)
qed

text \<open>Insertion behind the head.\<close>

interpretation insert_first: list_update "\<lambda>h l. map_option snd (LinkedList_insertAfter new h l d)" "\<lambda>xs. (new, d) # xs" "{new}"
  for new d
proof
  fix h l xs assume l: "is_list h l xs" and "\<forall>a \<in> {new}. h a = None"
  then have new: "new \<notin> footprint l xs" using chain_defined by (fastforce simp: is_list_def split: option.splits)
  obtain node where n: "h l = Some node" "chain h (ll_next node) xs" using l by (auto simp: is_list_def split: option.splits)
  let ?h = "h(new \<mapsto> \<lparr>ll_data = d, ll_next = ll_next node\<rparr>, l \<mapsto> node\<lparr>ll_next := Some new\<rparr>)"
  have "chain ?h (ll_next node) xs" by (rule chain_frame [OF n(2)]) (use l new in \<open>auto simp: is_list_def\<close>)
  then have "is_list ?h l ((new, d) # xs)" using l new by (auto simp: is_list_def)
  moreover have "LinkedList_insertAfter new h l d = Some (new, ?h)"
    using n(1) new by (auto simp: LinkedList_insertAfter_def LinkedList_getNext_def LinkedList_create_def set_next_def Let_def)
  ultimately show "\<exists>h'. map_option snd (LinkedList_insertAfter new h l d) = Some h' \<and> is_list h' l ((new, d) # xs) \<and>
      (\<forall>a. a \<notin> footprint l xs \<union> {new} \<longrightarrow> h' a = h a)"
    by auto
qed

text \<open>Freeing: every node of the list and nothing else, and every data pointer once.\<close>

lemma destroy_nodes_frees:
  "is_list h l xs \<Longrightarrow> h l = Some node \<Longrightarrow>
   destroy_nodes h l = Some (h |` (- footprint l xs), List.map_filter id (ll_data node # map snd xs))"
proof (induction xs arbitrary: l node h)
  case Nil
  then show ?case
    by (auto simp: is_list_simps destroy_nodes.simps map_filter_simps restrict_map_def fun_eq_iff split: option.splits)
next
  case (Cons x xs)
  obtain a e where x: "x = (a, e)" by fastforce
  obtain nd where n: "ll_next node = Some a" "h a = Some \<lparr>ll_data = e, ll_next = nd\<rparr>"
    using Cons.prems unfolding x is_list_Cons by auto
  have l: "is_list h a xs" "l \<notin> footprint a xs" using Cons.prems unfolding x is_list_Cons by auto
  let ?h = "h(l := None)"
  have "is_list ?h a xs" by (rule is_list_frame [OF l(1)]) (use l(2) in auto)
  moreover have "?h a = Some \<lparr>ll_data = e, ll_next = nd\<rparr>" using n(2) l(2) by auto
  ultimately have "destroy_nodes ?h a = Some (?h |` (- footprint a xs), List.map_filter id (e # map snd xs))"
    using Cons.IH by fastforce
  moreover have "?h |` (- footprint a xs) = h |` (- footprint l (x # xs))"
    by (auto simp: x restrict_map_def fun_eq_iff)
  ultimately show ?case
    using n(1) Cons.prems(2) by (subst destroy_nodes.simps) (auto simp: x map_filter_simps split: option.splits)
qed

section \<open>Properties\<close>

text \<open>C16. The linked list operations implement lists: on a list in the heap, size, membership and access give the
  length, the members and the elements; adding appends, removing takes out the first element with
  the data and frees its node, inserting puts the new element first. Other lists in the heap, which share no node
  with the changed one, stay as they are, and destroying a list frees its nodes and no others and deletes each
  data pointer once.\<close>

theorem linked_list_refines:
  assumes l: "is_list h l xs" and new: "h new = None" and m: "is_list h m ys" "footprint l xs \<inter> footprint m ys = {}"
    and size: "length xs < 2 ^ 31"
  shows "LinkedList_size h l = Some (int (length xs)) \<and>
    LinkedList_contains h l d = Some (d \<in> set (map snd xs)) \<and>
    (0 \<le> i \<longrightarrow> xs \<noteq> [] \<longrightarrow> LinkedList_get h l i = Some (if nat i < length xs then Some (fst (xs ! nat i)) else None)) \<and>
    (\<exists>h'. LinkedList_add new h l d = Some h' \<and> is_list h' l (xs @ [(new, d)]) \<and> is_list h' m ys) \<and>
    (\<exists>h'. LinkedList_remove h l d = Some (d \<in> set (map snd xs), h') \<and> is_list h' l (remove_data d xs) \<and>
      map snd (remove_data d xs) = remove1 d (map snd xs) \<and> is_list h' m ys \<and>
      dom h' = dom h - (fst ` set xs - fst ` set (remove_data d xs))) \<and>
    (\<exists>h'. LinkedList_insertAfter new h l d = Some (new, h') \<and> is_list h' l ((new, d) # xs) \<and> is_list h' m ys) \<and>
    (\<exists>h' node. LinkedList_destroy h (Some l) = Some (h', List.map_filter id (ll_data node # map snd xs)) \<and>
      h l = Some node \<and> dom h' = dom h - footprint l xs \<and> is_list h' m ys)"
proof -
  obtain node where node: "h l = Some node" using l by (auto simp: is_list_def split: option.splits)
  have fresh: "\<forall>a \<in> {new}. h a = None" using new by simp
  have size: "LinkedList_size h l = Some (int (length xs))"
    using size_from_length [OF l, of 0] size by (simp add: LinkedList_size_def)
  moreover have "LinkedList_contains h l d = Some (d \<in> set (map snd xs))"
    using contains_from_iff [of h "ll_next node" xs d] l node by (simp add: LinkedList_contains_def is_list_def)
  moreover have "LinkedList_get h l i = Some (if nat i < length xs then Some (fst (xs ! nat i)) else None)" if "xs \<noteq> []"
    using get_nth [OF l, of i] that by simp
  moreover have "\<exists>h'. LinkedList_add new h l d = Some h' \<and> is_list h' l (xs @ [(new, d)]) \<and> is_list h' m ys"
    using add.update [OF l fresh, of d] add.others [OF l fresh _ m, of d] by blast
  moreover have "\<exists>h'. LinkedList_remove h l d = Some (d \<in> set (map snd xs), h') \<and> is_list h' l (remove_data d xs) \<and>
      map snd (remove_data d xs) = remove1 d (map snd xs) \<and> is_list h' m ys \<and>
      dom h' = dom h - (fst ` set xs - fst ` set (remove_data d xs))"
    using remove_from_data [OF l node, of d] remove.others [OF l _ _ m, of d] node map_remove_data [of d xs]
    by (auto simp: LinkedList_remove_def)
  moreover have "\<exists>h'. LinkedList_insertAfter new h l d = Some (new, h') \<and> is_list h' l ((new, d) # xs) \<and> is_list h' m ys"
    using insert_first.update [OF l fresh, of d] insert_first.others [OF l fresh _ m, of d]
    by (auto simp: LinkedList_insertAfter_def bind_eq_Some_conv Let_def)
  moreover have "\<exists>h' node. LinkedList_destroy h (Some l) = Some (h', List.map_filter id (ll_data node # map snd xs)) \<and>
      h l = Some node \<and> dom h' = dom h - footprint l xs \<and> is_list h' m ys"
  proof (intro exI conjI)
    show "LinkedList_destroy h (Some l) = Some (h |` (- footprint l xs), List.map_filter id (ll_data node # map snd xs))"
      using destroy_nodes_frees [OF l node] by (simp add: LinkedList_destroy_def LinkedList_destroyDeep_def)
    show "is_list (h |` (- footprint l xs)) m ys"
      by (rule is_list_frame [OF m(1)]) (use m(2) in \<open>auto simp: restrict_map_def\<close>)
  qed (use node in \<open>auto simp: restrict_map_def dom_def split: if_splits\<close>)
  ultimately show ?thesis by blast
qed

text \<open>Two lists, one with two elements and one that is empty.\<close>

definition example_lists :: node_heap where
  "example_lists = [1 \<mapsto> \<lparr>ll_data = None, ll_next = Some 2\<rparr>, 2 \<mapsto> \<lparr>ll_data = Some 20, ll_next = Some 3\<rparr>,
     3 \<mapsto> \<lparr>ll_data = Some 30, ll_next = None\<rparr>, 4 \<mapsto> \<lparr>ll_data = None, ll_next = None\<rparr>]"

theorem linked_list_refines_witness:
  "LinkedList_size example_lists 1 = Some 2 \<and>
   (\<exists>h'. LinkedList_add 5 example_lists 1 (Some 40) = Some h' \<and>
     is_list h' 1 [(2, Some 20), (3, Some 30), (5, Some 40)] \<and> is_list h' 4 [])"
proof -
  have "is_list example_lists 1 [(2, Some 20), (3, Some 30)]" "is_list example_lists 4 []" "example_lists 5 = None"
    by (simp_all add: is_list_def example_lists_def)
  from linked_list_refines [OF this(1,3,2), of "Some 40" 0] show ?thesis by simp
qed

end
