(* ===== verification/String_Order.thy ===== *)
theory String_Order
  imports Linked_List "HOL-Library.List_Lexorder" "HOL-Library.Multiset"
begin

text \<open>
  The order of names and the sorting of linked lists of names in \<open>src/common/string_utilities.cc\<close>. A string
  is an address in a memory that gives the octets from that address on; \<open>char\<close> is signed.
\<close>

section \<open>The weight of a character\<close>

definition charOrder :: "nat list" where
  "charOrder = map of_char ''AaBbCcDdEeFfGgHhIiJjKkLlMmNnOoPpQqRrSsTtUuVvWwXxYyZz$_0123456789''"

definition LT_MAX_CHARS :: nat where
  "LT_MAX_CHARS = 128"

text \<open>The two loops that fill the table: first the characters that are not in the order, then those that are.\<close>

definition lookupTable :: "int list" where
  "lookupTable =
     (let give = (\<lambda>c (weight, table). (weight + 1, table[c := weight]));
          s = fold (\<lambda>c s. if c \<in> set charOrder then s else give c s) [1..<LT_MAX_CHARS]
                (1, replicate (LT_MAX_CHARS + 1) 0);
          s = fold (\<lambda>c s. give c s) charOrder s
      in snd s)"

definition getCharWeight :: "int \<Rightarrow> int" where
  "getCharWeight c = (if c < 1 \<or> int LT_MAX_CHARS < c then c else lookupTable ! nat c)"

definition StringUtils_compareChars :: "byte \<Rightarrow> byte \<Rightarrow> int" where
  "StringUtils_compareChars a b = getCharWeight (sint a) - getCharWeight (sint b)"

text \<open>Strings that are equal are compared by their addresses.\<close>

fun compare_from :: "nat \<Rightarrow> byte list \<Rightarrow> nat \<Rightarrow> byte list \<Rightarrow> int option" where
  "compare_from a (x # xs) b (y # ys) =
     (let diff = StringUtils_compareChars x y
      in if diff = 0
         then if x = 0 \<or> y = 0 then Some (int32 (int b - int a)) else compare_from (a + 1) xs (b + 1) ys
         else Some diff)"
| "compare_from a xs b ys = None"

definition StringUtils_compareStrings :: "(nat \<rightharpoonup> byte list) \<Rightarrow> nat \<Rightarrow> nat \<Rightarrow> int option" where
  "StringUtils_compareStrings mem a b = do {
     s \<leftarrow> mem a;
     t \<leftarrow> mem b;
     compare_from a s b t }"

section \<open>Sorting\<close>

text \<open>The inner loop: \<open>selectedElement\<close> is linked behind the last element that is not greater.\<close>

partial_function (option) insert_sorted ::
    "(nat \<rightharpoonup> byte list) \<Rightarrow> nat \<Rightarrow> nat \<Rightarrow> nat \<Rightarrow> node_heap \<Rightarrow> nat \<Rightarrow> node_heap option" where
  "insert_sorted mem sortedList selectedElement str1 h prevElement = do {
     node \<leftarrow> h prevElement;
     (case ll_next node of
        None \<Rightarrow> set_next h prevElement (Some selectedElement)
      | Some nextElement \<Rightarrow> do {
          data \<leftarrow> LinkedList_getData h nextElement;
          str2 \<leftarrow> data;
          diff \<leftarrow> StringUtils_compareStrings mem str1 str2;
          if diff < 0
          then if sortedList = prevElement
               then do {
                 sorted \<leftarrow> h sortedList;
                 h \<leftarrow> set_next h selectedElement (ll_next sorted);
                 set_next h sortedList (Some selectedElement) }
               else do {
                 h \<leftarrow> set_next h selectedElement (Some nextElement);
                 set_next h prevElement (Some selectedElement) }
          else insert_sorted mem sortedList selectedElement str1 h nextElement }) }"

text \<open>The outer loop: the elements are taken from the list one after the other.\<close>

partial_function (option) sort_elements ::
    "(nat \<rightharpoonup> byte list) \<Rightarrow> nat \<Rightarrow> nat \<Rightarrow> node_heap \<Rightarrow> nat option \<Rightarrow> node_heap option" where
  "sort_elements mem list sortedList h selected =
     (case selected of
        None \<Rightarrow> Some h
      | Some selectedElement \<Rightarrow> do {
          node \<leftarrow> h selectedElement;
          h \<leftarrow> set_next h list (ll_next node);
          h \<leftarrow> set_next h selectedElement None;
          data \<leftarrow> LinkedList_getData h selectedElement;
          str1 \<leftarrow> data;
          h \<leftarrow> insert_sorted mem sortedList selectedElement str1 h sortedList;
          node \<leftarrow> h list;
          sort_elements mem list sortedList h (ll_next node) })"

text \<open>\<open>sortedListData\<close> is the address of the local head node, whose data are never read.\<close>

definition StringUtils_sortList ::
    "(nat \<rightharpoonup> byte list) \<Rightarrow> nat \<Rightarrow> node_heap \<Rightarrow> nat \<Rightarrow> node_heap option" where
  "StringUtils_sortList mem sortedListData h list = do {
     node \<leftarrow> h list;
     (case ll_next node of
        None \<Rightarrow> Some h
      | Some selectedElement \<Rightarrow> do {
          selected \<leftarrow> h selectedElement;
          h \<leftarrow> set_next h list (ll_next selected);
          h \<leftarrow> set_next h selectedElement None;
          let h = h(sortedListData \<mapsto> \<lparr>ll_data = None, ll_next = Some selectedElement\<rparr>);
          node \<leftarrow> h list;
          h \<leftarrow> sort_elements mem list sortedListData h (ll_next node);
          sorted \<leftarrow> h sortedListData;
          h \<leftarrow> set_next h list (ll_next sorted);
          Some (h(sortedListData := None)) }) }"

section \<open>The order\<close>

text \<open>The loops number the characters in the order in which they come.\<close>

definition give :: "nat \<Rightarrow> int \<times> int list \<Rightarrow> int \<times> int list" where
  "give c s = (fst s + 1, (snd s)[c := fst s])"

lemma give_others: "c \<notin> set cs \<Longrightarrow> snd (fold give cs s) ! c = snd s ! c"
  by (induction cs arbitrary: s) (auto simp: give_def nth_list_update)

lemma give_length [simp]: "length (snd (fold give cs s)) = length (snd s)"
  by (induction cs arbitrary: s) (simp_all add: give_def)

lemma give_nth:
  "distinct cs \<Longrightarrow> \<forall>c \<in> set cs. c < length (snd s) \<Longrightarrow> i < length cs \<Longrightarrow> snd (fold give cs s) ! (cs ! i) = fst s + int i"
proof (induction cs arbitrary: s i)
  case (Cons c cs)
  show ?case
  proof (cases i)
    case 0
    have "snd (give c s) ! c = fst s" using Cons.prems by (simp add: give_def)
    then show ?thesis using 0 Cons.prems give_others [of c cs "give c s"] by simp
  next
    case (Suc j)
    have "snd (fold give cs (give c s)) ! (cs ! j) = fst (give c s) + int j"
      by (rule Cons.IH) (use Cons.prems Suc in \<open>auto simp: give_def\<close>)
    moreover have "fst (give c s) = fst s + 1" by (simp add: give_def)
    ultimately show ?thesis using Suc by simp
  qed
qed simp

definition numbered :: "nat list" where
  "numbered = filter (\<lambda>c. c \<notin> set charOrder) [1..<128] @ charOrder"

lemma lookupTable_numbered: "lookupTable = snd (fold give numbered (1, replicate 129 0))"
proof -
  have "fold (\<lambda>c s. if P c then s else give c s) cs s = fold give (filter (\<lambda>c. \<not> P c) cs) s" for P cs s
    by (induction cs arbitrary: s) auto
  moreover have "(\<lambda>c (weight, table). (weight + 1, table[c := weight])) = give"
    by (auto simp: fun_eq_iff give_def)
  ultimately show ?thesis
    by (simp add: lookupTable_def Let_def LT_MAX_CHARS_def numbered_def)
qed

lemma charOrder_chars: "distinct charOrder \<and> list_all (\<lambda>c. 1 \<le> c \<and> c < 128) charOrder"
  by code_simp

lemma numbered_all: "distinct numbered" "set numbered = {1..<128}"
  using charOrder_chars by (auto simp: numbered_def list_all_iff)

lemma weight_numbered:
  assumes "c \<in> {1..<128}"
  obtains i where "i < length numbered" and "c = numbered ! i" and "lookupTable ! c = 1 + int i"
proof -
  obtain i where i: "i < length numbered" "numbered ! i = c"
    using assms numbered_all(2) by (metis in_set_conv_nth)
  have "\<forall>c \<in> set numbered. c < length (snd (1 :: int, replicate 129 (0 :: int)))" using numbered_all(2) by auto
  from give_nth [OF numbered_all(1) this i(1)] show thesis
    using that [OF i(1)] i(2) by (simp add: lookupTable_numbered)
qed

text \<open>Different characters have different weights.\<close>

lemma weight_cases:
  "getCharWeight (sint (c :: byte)) = sint c \<and> sint c \<le> 0 \<or>
   (\<exists>i < length numbered. sint c = int (numbered ! i) \<and> getCharWeight (sint c) = 1 + int i)"
proof (cases "sint c < 1")
  case True
  then show ?thesis by (simp add: getCharWeight_def)
next
  case False
  have "sint c < 128" using sint_less [of c] by simp
  then have "nat (sint c) \<in> {1..<128}" using False by auto
  then obtain i where i: "i < length numbered" "nat (sint c) = numbered ! i" "lookupTable ! nat (sint c) = 1 + int i"
    by (rule weight_numbered)
  have "sint c = int (numbered ! i)" using False i(2) by linarith
  moreover have "getCharWeight (sint c) = 1 + int i"
    using False \<open>sint c < 128\<close> i(3) by (simp add: getCharWeight_def LT_MAX_CHARS_def)
  ultimately show ?thesis using i(1) by (intro disjI2 exI [of _ i] conjI)
qed

lemma weight_inj: "getCharWeight (sint a) = getCharWeight (sint (b :: byte)) \<longleftrightarrow> a = b"
proof
  assume "getCharWeight (sint a) = getCharWeight (sint b)"
  then have "sint a = sint b"
    using weight_cases [of a] weight_cases [of b] by auto
  then show "a = b" by (simp add: signed_word_eqI)
qed simp

lemma weight_zero [simp]: "getCharWeight 0 = 0"
  by (simp add: getCharWeight_def)

text \<open>The key of a string: the weights of its characters and of its end.\<close>

definition name_key :: "byte list \<Rightarrow> int list" where
  "name_key s = map (\<lambda>c. getCharWeight (sint c)) s @ [0]"

text \<open>The comparison is the lexicographic order of the keys.\<close>

lemma compare_from_key:
  "0 \<notin> set s \<Longrightarrow> 0 \<notin> set t \<Longrightarrow>
   \<exists>d. compare_from a (s @ 0 # u) b (t @ 0 # v) = Some d \<and>
     (s = t \<longrightarrow> d = int32 (int b - int a)) \<and> (s \<noteq> t \<longrightarrow> (d < 0 \<longleftrightarrow> name_key s < name_key t) \<and> d \<noteq> 0)"
proof (induction s arbitrary: a b t)
  case Nil
  then show ?case
    using weight_inj [of 0 "hd t"] by (cases t) (auto simp: name_key_def StringUtils_compareChars_def Let_def)
next
  case (Cons x s)
  show ?case
  proof (cases t)
    case Nil
    then show ?thesis
      using Cons.prems weight_inj [of x 0] by (auto simp: name_key_def StringUtils_compareChars_def Let_def)
  next
    case t: (Cons y t')
    show ?thesis
    proof (cases "x = y")
      case True
      obtain d where "compare_from (a + 1) (s @ 0 # u) (b + 1) (t' @ 0 # v) = Some d"
          "s = t' \<longrightarrow> d = int32 (int b - int a)" "s \<noteq> t' \<longrightarrow> (d < 0 \<longleftrightarrow> name_key s < name_key t') \<and> d \<noteq> 0"
        using Cons.IH [of t' "a + 1" "b + 1"] Cons.prems t by auto
      then show ?thesis using True t Cons.prems by (auto simp: StringUtils_compareChars_def name_key_def)
    next
      case False
      then have "StringUtils_compareChars x y \<noteq> 0" using weight_inj by (simp add: StringUtils_compareChars_def)
      then show ?thesis using False t by (auto simp: StringUtils_compareChars_def name_key_def Let_def)
    qed
  qed
qed

section \<open>Insertion\<close>

fun put_before :: "('a \<Rightarrow> 'a \<Rightarrow> bool) \<Rightarrow> 'a \<Rightarrow> 'a list \<Rightarrow> 'a list" where
  "put_before lt x [] = [x]"
| "put_before lt x (y # ys) = (if lt x y then x # y # ys else y # put_before lt x ys)"

lemma mset_put_before [simp]: "mset (put_before lt x ys) = add_mset x (mset ys)"
  by (induction ys) auto

lemma set_put_before [simp]: "set (put_before lt x ys) = insert x (set ys)"
  by (metis mset_put_before set_mset_add_mset_insert set_mset_mset)

text \<open>What sorting needs of a comparison: it decides the order of the keys; equal keys may come in any order.\<close>

locale compares_keys =
  fixes lt :: "'a \<Rightarrow> 'a \<Rightarrow> bool" and key :: "'a \<Rightarrow> 'k::linorder" and ok :: "'a \<Rightarrow> bool"
  assumes less: "ok x \<Longrightarrow> ok y \<Longrightarrow> lt x y \<Longrightarrow> key x \<le> key y"
    and not_less: "ok x \<Longrightarrow> ok y \<Longrightarrow> \<not> lt x y \<Longrightarrow> key y \<le> key x"
begin

lemma sorted_put_before:
  "sorted (map key ys) \<Longrightarrow> ok x \<Longrightarrow> \<forall>y \<in> set ys. ok y \<Longrightarrow> sorted (map key (put_before lt x ys))"
  by (induction ys) (auto intro: less not_less order_trans)

lemma sorted_fold:
  "sorted (map key ys) \<Longrightarrow> \<forall>y \<in> set xs \<union> set ys. ok y \<Longrightarrow> sorted (map key (fold (put_before lt) xs ys))"
proof (induction xs arbitrary: ys)
  case (Cons x xs)
  have "sorted (map key (put_before lt x ys))" using Cons.prems by (intro sorted_put_before) auto
  then show ?case using Cons.IH [of "put_before lt x ys"] Cons.prems by simp
qed simp

end

lemma mset_fold_put_before: "mset (fold (put_before lt) xs ys) = mset xs + mset ys"
  by (induction xs arbitrary: ys) auto

text \<open>The elements of a list of names.\<close>

definition name_of :: "(nat \<rightharpoonup> byte list) \<Rightarrow> nat \<times> nat option \<Rightarrow> byte list" where
  "name_of mem x = takeWhile (\<lambda>c. c \<noteq> 0) (the (mem (the (snd x))))"

definition has_name :: "(nat \<rightharpoonup> byte list) \<Rightarrow> nat \<times> nat option \<Rightarrow> bool" where
  "has_name mem x \<longleftrightarrow> (case snd x of None \<Rightarrow> False | Some p \<Rightarrow> (case mem p of None \<Rightarrow> False | Some s \<Rightarrow> 0 \<in> set s))"

definition before :: "(nat \<rightharpoonup> byte list) \<Rightarrow> nat \<times> nat option \<Rightarrow> nat \<times> nat option \<Rightarrow> bool" where
  "before mem x y \<longleftrightarrow> (case StringUtils_compareStrings mem (the (snd x)) (the (snd y)) of None \<Rightarrow> False | Some d \<Rightarrow> d < 0)"

lemma has_nameD:
  assumes "has_name mem x"
  obtains p u where "snd x = Some p" and "mem p = Some (name_of mem x @ 0 # u)" and "0 \<notin> set (name_of mem x)"
proof -
  obtain p s where s: "snd x = Some p" "mem p = Some s" "0 \<in> set s"
    using assms by (auto simp: has_name_def split: option.splits)
  obtain w u where w: "s = w @ 0 # u" "0 \<notin> set w" using split_list_first [OF s(3)] by blast
  then have "takeWhile (\<lambda>c. c \<noteq> 0) s = w" by (simp add: takeWhile_append takeWhile_eq_all_conv)
  then have "name_of mem x = w" using s by (simp add: name_of_def)
  then show thesis using that [OF s(1)] s(2) w by simp
qed

lemma compare_names:
  assumes "has_name mem x" and "has_name mem y"
  obtains p q d where "snd x = Some p" and "snd y = Some q" and "StringUtils_compareStrings mem p q = Some d"
    and "name_of mem x \<noteq> name_of mem y \<longrightarrow> (d < 0 \<longleftrightarrow> name_key (name_of mem x) < name_key (name_of mem y)) \<and> d \<noteq> 0"
    and "name_of mem x = name_of mem y \<longrightarrow> d = int32 (int q - int p)"
proof -
  obtain p u where x: "snd x = Some p" "mem p = Some (name_of mem x @ 0 # u)" "0 \<notin> set (name_of mem x)"
    by (rule has_nameD [OF assms(1)])
  obtain q v where y: "snd y = Some q" "mem q = Some (name_of mem y @ 0 # v)" "0 \<notin> set (name_of mem y)"
    by (rule has_nameD [OF assms(2)])
  obtain d where "compare_from p (name_of mem x @ 0 # u) q (name_of mem y @ 0 # v) = Some d"
      "name_of mem x = name_of mem y \<longrightarrow> d = int32 (int q - int p)"
      "name_of mem x \<noteq> name_of mem y \<longrightarrow> (d < 0 \<longleftrightarrow> name_key (name_of mem x) < name_key (name_of mem y)) \<and> d \<noteq> 0"
    using compare_from_key [OF x(3) y(3)] by blast
  then show thesis using that [OF x(1) y(1)] x(2) y(2) by (simp add: StringUtils_compareStrings_def)
qed

interpretation names: compares_keys "before mem" "\<lambda>x. name_key (name_of mem x)" "has_name mem"
  for mem
proof
  fix x y assume "has_name mem x" "has_name mem y"
  then obtain p q d where d: "snd x = Some p" "snd y = Some q" "StringUtils_compareStrings mem p q = Some d"
      "name_of mem x \<noteq> name_of mem y \<longrightarrow> (d < 0 \<longleftrightarrow> name_key (name_of mem x) < name_key (name_of mem y)) \<and> d \<noteq> 0"
    by (rule compare_names)
  then have "before mem x y \<longleftrightarrow> d < 0" by (simp add: before_def)
  then show "before mem x y \<Longrightarrow> name_key (name_of mem x) \<le> name_key (name_of mem y)"
    and "\<not> before mem x y \<Longrightarrow> name_key (name_of mem y) \<le> name_key (name_of mem x)"
    using d(4) by (auto intro: less_imp_le)
qed

section \<open>The loops\<close>

text \<open>Taking the first element off a list.\<close>

lemma unlink_first:
  assumes "is_list h l ((a, d) # xs)"
  obtains node h1 where "h a = Some node" and "ll_data node = d"
    and "set_next h l (ll_next node) = Some h1" and "set_next h1 a None = Some (h1(a \<mapsto> node\<lparr>ll_next := None\<rparr>))"
    and "is_list (h1(a \<mapsto> node\<lparr>ll_next := None\<rparr>)) l xs" and "a \<notin> footprint l xs" and "l \<noteq> a"
    and "\<forall>b. b \<noteq> l \<longrightarrow> h1 b = h b"
proof -
  obtain ld nd where n: "h l = Some \<lparr>ll_data = ld, ll_next = Some a\<rparr>" "h a = Some \<lparr>ll_data = d, ll_next = nd\<rparr>" and l: "l \<noteq> a" "l \<notin> fst ` set xs" "is_list h a xs"
    using assms unfolding is_list_Cons by blast
  let ?h1 = "h(l \<mapsto> \<lparr>ll_data = ld, ll_next = nd\<rparr>)"
  have a: "a \<notin> fst ` set xs" "chain h nd xs" "distinct (map fst xs)" using l(3) n(2) by (auto simp: is_list_def)
  have "chain (?h1(a \<mapsto> \<lparr>ll_data = d, ll_next = None\<rparr>)) nd xs" by (rule chain_frame [OF a(2)]) (use a(1) l(2) in auto)
  then have "is_list (?h1(a \<mapsto> \<lparr>ll_data = d, ll_next = None\<rparr>)) l xs" using a l by (auto simp: is_list_def)
  then show thesis
    using that [of "\<lparr>ll_data = d, ll_next = nd\<rparr>" ?h1] n a l by (auto simp: set_next_def)
qed

lemma insert_sorted_puts:
  assumes "is_list h f ys" and "h a = Some \<lparr>ll_data = d, ll_next = None\<rparr>" and "a \<notin> footprint f ys"
    and "has_name mem (a, d)" and "\<forall>y \<in> set ys. has_name mem y" and "d = Some str1"
  shows "\<exists>h'. insert_sorted mem s a str1 h f = Some h' \<and> is_list h' f (put_before (before mem) (a, d) ys) \<and>
    (\<forall>b. b \<notin> insert a (footprint f ys) \<longrightarrow> h' b = h b) \<and> map_option ll_data (h' f) = map_option ll_data (h f)"
  using assms
proof (induction ys arbitrary: f)
  case Nil
  then show ?case by (auto simp: is_list_simps insert_sorted.simps [of mem s a str1 h f] set_next_def)
next
  case (Cons y ys)
  obtain b e where y: "y = (b, e)" by fastforce
  obtain fd nd where n: "h f = Some \<lparr>ll_data = fd, ll_next = Some b\<rparr>" "h b = Some \<lparr>ll_data = e, ll_next = nd\<rparr>"
    and l: "f \<noteq> b" "f \<notin> fst ` set ys" "is_list h b ys"
    using Cons.prems(1) unfolding y is_list_Cons by blast
  have fresh: "a \<noteq> f" "a \<notin> footprint b ys" using Cons.prems(3) by (auto simp: y)
  obtain q diff where q: "e = Some q" "StringUtils_compareStrings mem str1 q = Some diff"
    using compare_names [OF Cons.prems(4), of y thesis] Cons.prems(5,6) y by simp
  have lt: "before mem (a, d) y \<longleftrightarrow> diff < 0" using q Cons.prems(6) by (simp add: before_def y)
  have step: "insert_sorted mem s a str1 h f = (if diff < 0 then do {
      h \<leftarrow> set_next h a (Some b); set_next h f (Some a) } else insert_sorted mem s a str1 h b)"
    using n q by (subst insert_sorted.simps) (auto simp: LinkedList_getData_def)
  show ?case
  proof (cases "diff < 0")
    case True
    let ?h = "h(a \<mapsto> \<lparr>ll_data = d, ll_next = Some b\<rparr>, f \<mapsto> \<lparr>ll_data = fd, ll_next = Some a\<rparr>)"
    have "is_list ?h b ys" by (rule is_list_frame [OF l(3)]) (use fresh l in auto)
    then have "is_list ?h f ((a, d) # (b, e) # ys)" using fresh l n(2) by (auto simp: is_list_Cons)
    moreover have "insert_sorted mem s a str1 h f = Some ?h"
      using step True n(1) Cons.prems(2) fresh(1) by (simp add: set_next_def)
    ultimately show ?thesis using True lt n(1) y by auto
  next
    case False
    obtain h' where h': "insert_sorted mem s a str1 h b = Some h'" "is_list h' b (put_before (before mem) (a, d) ys)"
        "\<forall>c. c \<notin> insert a (footprint b ys) \<longrightarrow> h' c = h c" "map_option ll_data (h' b) = map_option ll_data (h b)"
      using Cons.IH [OF l(3) Cons.prems(2) fresh(2) Cons.prems(4) _ Cons.prems(6)] Cons.prems(5) by auto
    have "\<exists>m. h' b = Some \<lparr>ll_data = e, ll_next = m\<rparr>"
      using h'(4) n(2) by (metis (mono_tags, lifting) map_option_eq_Some option.simps(9) sLinkedList.select_convs(1) sLinkedList.surjective unit.exhaust)
    moreover have "h' f = h f" using h'(3) l fresh by auto
    ultimately have "is_list h' f (put_before (before mem) (a, d) (y # ys))"
      using False lt h'(2) n(1) l fresh y by (auto simp: is_list_Cons image_iff)
    then show ?thesis using step False h' \<open>h' f = h f\<close> y by auto
  qed
qed

lemma sort_elements_sorts:
  assumes "is_list h l xs" and "is_list h f ys" and "footprint l xs \<inter> footprint f ys = {}"
    and "\<forall>x \<in> set xs \<union> set ys. has_name mem x" and "h l = Some node"
  shows "\<exists>h'. sort_elements mem l f h (ll_next node) = Some h' \<and> is_list h' l [] \<and>
    is_list h' f (fold (put_before (before mem)) xs ys) \<and>
    (\<forall>b. b \<notin> footprint l xs \<union> footprint f ys \<longrightarrow> h' b = h b)"
  using assms
proof (induction xs arbitrary: h ys node)
  case Nil
  then show ?case by (auto simp: is_list_simps sort_elements.simps)
next
  case (Cons x xs)
  obtain a d where x: "x = (a, d)" by fastforce
  obtain an h1 where u: "h a = Some an" "ll_data an = d" "set_next h l (ll_next an) = Some h1"
      "set_next h1 a None = Some (h1(a \<mapsto> an\<lparr>ll_next := None\<rparr>))" "is_list (h1(a \<mapsto> an\<lparr>ll_next := None\<rparr>)) l xs"
      "a \<notin> footprint l xs" "l \<noteq> a" "\<forall>b. b \<noteq> l \<longrightarrow> h1 b = h b"
    using unlink_first [OF Cons.prems(1) [unfolded x]] by blast
  let ?h2 = "h1(a \<mapsto> an\<lparr>ll_next := None\<rparr>)"
  have dis: "a \<notin> footprint f ys" "l \<notin> footprint f ys" "footprint l xs \<inter> footprint f ys = {}"
    using Cons.prems(3) by (auto simp: x)
  have f2: "is_list ?h2 f ys" by (rule is_list_frame [OF Cons.prems(2)]) (use dis(1,2) u(8) in auto)
  have name: "has_name mem (a, d)" using Cons.prems(4) x by simp
  obtain str1 where s1: "d = Some str1" using has_nameD [OF name] by auto
  have oks: "\<forall>y \<in> set ys. has_name mem y" using Cons.prems(4) by auto
  have an: "?h2 a = Some \<lparr>ll_data = d, ll_next = None\<rparr>" using u(2) by (cases an) simp
  let ?ys = "put_before (before mem) (a, d) ys"
  obtain h3 where h3: "insert_sorted mem f a str1 ?h2 f = Some h3" "is_list h3 f ?ys"
      "\<forall>b. b \<notin> insert a (footprint f ys) \<longrightarrow> h3 b = ?h2 b"
    using insert_sorted_puts [OF f2 an dis(1) name oks s1, of f] by blast
  have l3: "is_list h3 l xs"
  proof (rule is_list_frame [OF u(5)])
    fix b assume "b \<in> footprint l xs"
    then have "b \<notin> insert a (footprint f ys)" using dis(3) u(6) by blast
    then show "h3 b = ?h2 b" using h3(3) by blast
  qed
  obtain n3 where n3: "h3 l = Some n3" using l3 by (auto simp: is_list_def split: option.splits)
  have dis3: "footprint l xs \<inter> footprint f ?ys = {}" using dis u(6) by auto
  have ok3: "\<forall>x \<in> set xs \<union> set ?ys. has_name mem x" using Cons.prems(4) x by auto
  from Cons.IH [OF l3 h3(2) dis3 ok3 n3]
  obtain h' where h': "sort_elements mem l f h3 (ll_next n3) = Some h'" "is_list h' l []"
      "is_list h' f (fold (put_before (before mem)) xs ?ys)"
      "\<forall>b. b \<notin> footprint l xs \<union> footprint f ?ys \<longrightarrow> h' b = h3 b"
    by blast
  have nx: "ll_next node = Some a" using Cons.prems(1,5) unfolding x is_list_Cons by auto
  have "sort_elements mem l f h (ll_next node) = Some h'"
    using nx u(1-4) an s1 h3(1) n3 h'(1) by (subst sort_elements.simps) (simp add: LinkedList_getData_def)
  moreover have "\<forall>b. b \<notin> footprint l (x # xs) \<union> footprint f ys \<longrightarrow> h' b = h b"
    using h'(4) h3(3) u(8) by (auto simp: x)
  ultimately show ?case using h'(2,3) x by auto
qed

text \<open>The list as a whole; \<open>local\<close> is the address of the local node.\<close>

definition insertion_sorted :: "(nat \<rightharpoonup> byte list) \<Rightarrow> (nat \<times> nat option) list \<Rightarrow> (nat \<times> nat option) list" where
  "insertion_sorted mem xs = fold (put_before (before mem)) xs []"

lemma sortList_sorts:
  assumes l: "is_list h l xs" and local: "h local = None" and ok: "\<forall>x \<in> set xs. has_name mem x"
  shows "\<exists>h'. StringUtils_sortList mem local h l = Some h' \<and> is_list h' l (insertion_sorted mem xs) \<and>
    (\<forall>b. b \<notin> footprint l xs \<longrightarrow> h' b = h b)"
proof (cases xs)
  case Nil
  then show ?thesis
    using l by (auto simp: is_list_simps StringUtils_sortList_def insertion_sorted_def)
next
  case (Cons x ys)
  obtain a d where x: "x = (a, d)" by fastforce
  have new: "local \<notin> footprint l xs"
    using l local chain_defined by (fastforce simp: is_list_def split: option.splits)
  obtain an h1 where u: "h a = Some an" "ll_data an = d" "set_next h l (ll_next an) = Some h1"
      "set_next h1 a None = Some (h1(a \<mapsto> an\<lparr>ll_next := None\<rparr>))" "is_list (h1(a \<mapsto> an\<lparr>ll_next := None\<rparr>)) l ys"
      "a \<notin> footprint l ys" "l \<noteq> a" "\<forall>b. b \<noteq> l \<longrightarrow> h1 b = h b"
    using unlink_first [OF l [unfolded Cons x]] by blast
  let ?h2 = "(h1(a \<mapsto> an\<lparr>ll_next := None\<rparr>))(local \<mapsto> \<lparr>ll_data = None, ll_next = Some a\<rparr>)"
  have n: "local \<noteq> a" "local \<noteq> l" "local \<notin> fst ` set ys" using new by (auto simp: Cons x)
  have l2: "is_list ?h2 l ys" by (rule is_list_frame [OF u(5)]) (use n in auto)
  have f2: "is_list ?h2 local [(a, d)]" using n(1) u(2) by (cases an) (simp add: is_list_def)
  obtain node where node: "?h2 l = Some node" using l2 by (auto simp: is_list_def split: option.splits)
  have dis: "footprint l ys \<inter> footprint local [(a, d)] = {}" using n u(6) by auto
  have ok2: "\<forall>x \<in> set ys \<union> set [(a, d)]. has_name mem x" using ok Cons x by auto
  let ?zs = "fold (put_before (before mem)) ys [(a, d)]"
  obtain h3 where h3: "sort_elements mem l local ?h2 (ll_next node) = Some h3" "is_list h3 l []" "is_list h3 local ?zs"
      "\<forall>b. b \<notin> footprint l ys \<union> footprint local [(a, d)] \<longrightarrow> h3 b = ?h2 b"
    using sort_elements_sorts [OF l2 f2 dis ok2 node] by blast
  obtain fn ln where fn: "h3 local = Some fn" "chain h3 (ll_next fn) ?zs" "h3 l = Some ln"
    using h3(2,3) by (auto simp: is_list_def split: option.splits)
  let ?h4 = "(h3(l \<mapsto> ln\<lparr>ll_next := ll_next fn\<rparr>))(local := None)"
  have nx: "\<exists>hn. h l = Some hn \<and> ll_next hn = Some a" using l unfolding Cons x is_list_Cons by auto
  have run: "StringUtils_sortList mem local h l = Some ?h4"
    using nx u(1-4) node h3(1) fn(1,3) n(2) by (auto simp: StringUtils_sortList_def set_next_def Let_def)
  have sz: "fst ` set ?zs = insert a (fst ` set ys)"
    using arg_cong [OF mset_fold_put_before [of "before mem" ys "[(a, d)]"], of set_mset] by auto
  have "l \<notin> fst ` set ys" using l2 by (simp add: is_list_def)
  then have l4: "l \<notin> fst ` set ?zs" "local \<notin> fst ` set ?zs" using sz u(7) n by auto
  have "chain ?h4 (ll_next fn) ?zs" by (rule chain_frame [OF fn(2)]) (use l4 in auto)
  then have "is_list ?h4 l ?zs" using h3(3) l4 n by (auto simp: is_list_def)
  moreover have "h3 b = h b" if "b \<notin> footprint l xs" "b \<noteq> local" for b
    using that h3(4) u(8) by (auto simp: Cons x)
  ultimately show ?thesis
    using run local by (auto simp: Cons x insertion_sorted_def)
qed

section \<open>Properties\<close>

text \<open>C17. Sorting a list of names: on a list in the heap whose data point to strings, sorting returns, the list
  has the same nodes with the same data, in the lexicographic order of the characters by their weights, and
  nothing else in the heap changes.\<close>

theorem sortList_correct:
  assumes "is_list h l xs" and "h local = None" and "\<forall>x \<in> set xs. has_name mem x"
  shows "\<exists>h' ys. StringUtils_sortList mem local h l = Some h' \<and> is_list h' l ys \<and> mset ys = mset xs \<and>
    sorted (map (\<lambda>x. name_key (name_of mem x)) ys) \<and> (\<forall>b. b \<notin> footprint l xs \<longrightarrow> h' b = h b)"
  using sortList_sorts [OF assms] names.sorted_fold [of mem "[]" xs] assms(3)
    mset_fold_put_before [of "before mem" xs "[]"]
  by (auto simp: insertion_sorted_def)

text \<open>C31. Comparing two strings is the lexicographic comparison of the weights of their characters, negative when the
  first string is smaller: this is the sign that sorting relies on, and the opposite of the one that string_utilities.h
  documents. Different strings never compare equal, and two equal strings are compared by their addresses, so a string that is compared
  with itself gives 0 and a copy does not.\<close>

theorem compareStrings_lexicographic:
  assumes "mem p = Some (s @ 0 # u)" and "mem q = Some (t @ 0 # v)" and "0 \<notin> set s" and "0 \<notin> set t"
  shows "\<exists>d. StringUtils_compareStrings mem p q = Some d \<and>
    (s \<noteq> t \<longrightarrow> (d < 0 \<longleftrightarrow> name_key s < name_key t) \<and> (0 < d \<longleftrightarrow> name_key t < name_key s)) \<and>
    (s = t \<longrightarrow> d = int32 (int q - int p))"
proof -
  obtain d where d: "compare_from p (s @ 0 # u) q (t @ 0 # v) = Some d"
      "s = t \<longrightarrow> d = int32 (int q - int p)" "s \<noteq> t \<longrightarrow> (d < 0 \<longleftrightarrow> name_key s < name_key t) \<and> d \<noteq> 0"
    using compare_from_key [OF assms(3,4)] by blast
  have "name_key s \<noteq> name_key t" if "s \<noteq> t"
    using that weight_inj by (auto simp: name_key_def inj_map_eq_map inj_def)
  then show ?thesis using d assms(1,2) by (auto simp: StringUtils_compareStrings_def not_less_iff_gr_or_eq)
qed

text \<open>A list of three names: b, a and the end of the second, the empty name.\<close>

definition example_names :: "nat \<rightharpoonup> byte list" where
  "example_names = [100 \<mapsto> [0x62, 0], 200 \<mapsto> [0x61, 0], 201 \<mapsto> [0]]"

definition example_name_list :: node_heap where
  "example_name_list = [1 \<mapsto> \<lparr>ll_data = None, ll_next = Some 2\<rparr>, 2 \<mapsto> \<lparr>ll_data = Some 100, ll_next = Some 3\<rparr>,
     3 \<mapsto> \<lparr>ll_data = Some 200, ll_next = Some 4\<rparr>, 4 \<mapsto> \<lparr>ll_data = Some 201, ll_next = None\<rparr>]"

theorem sortList_correct_witness:
  "\<exists>h' ys. StringUtils_sortList example_names 9 example_name_list 1 = Some h' \<and> is_list h' 1 ys \<and>
    mset ys = mset [(2, Some 100), (3, Some 200), (4, Some 201)] \<and>
    sorted (map (\<lambda>x. name_key (name_of example_names x)) ys)"
proof -
  have "is_list example_name_list 1 [(2, Some 100), (3, Some 200), (4, Some 201)]" "example_name_list 9 = None"
      "\<forall>x \<in> set [(2, Some 100), (3, Some 200), (4, Some 201)]. has_name example_names x"
    by (simp_all add: is_list_def example_name_list_def has_name_def example_names_def)
  from sortList_correct [OF this] show ?thesis by blast
qed

theorem compareStrings_lexicographic_witness:
  "\<exists>d. StringUtils_compareStrings [100 \<mapsto> [0x61, 0], 200 \<mapsto> [0x61, 0]] 100 200 = Some d \<and> d = 100"
  using compareStrings_lexicographic [of "[100 \<mapsto> [0x61, 0], 200 \<mapsto> [0x61, 0]]" 100 "[0x61]" "[]" 200 "[0x61]" "[]"]
  by (simp add: int32_id)

end
