(* ===== verification/String_Text.thy ===== *)
theory String_Text
  imports String_Utilities Device_Util "HOL-Library.Sublist"
begin

text \<open>
  The string functions of \<open>src/common/string_utilities.cc\<close> that build, search and convert text. A \<open>char*\<close> is
  the list of the bytes from its address to the end of the allocation.
\<close>

section \<open>Building strings\<close>

text \<open>The end pointer is the start pointer plus \<open>newStringLength\<close>.\<close>

definition StringUtils_copySubString :: "byte list \<Rightarrow> int \<Rightarrow> byte list option" where
  "StringUtils_copySubString startPos newStringLength = do {
     bs \<leftarrow> rd_bytes startPos 0 newStringLength;
     Some (bs @ [0]) }"

definition StringUtils_copyStringToBuffer :: "byte list \<Rightarrow> byte list \<Rightarrow> byte list option" where
  "StringUtils_copyStringToBuffer string buffer = do {
     n \<leftarrow> strlen string;
     memcpy buffer string (n + 1) }"

text \<open>One of the two loops of \<open>concatString\<close>; \<open>True\<close> is the early return.\<close>

fun concat_loop :: "int \<Rightarrow> byte list \<Rightarrow> nat \<Rightarrow> byte list \<Rightarrow> (bool \<times> nat \<times> byte list) option" where
  "concat_loop maxStringSize [] destPos res = None"
| "concat_loop maxStringSize (b # str) destPos res =
     (if b \<noteq> 0
      then if int destPos < maxStringSize
           then do {
             res \<leftarrow> store res destPos b;
             concat_loop maxStringSize str (destPos + 1) res }
           else do {
             res \<leftarrow> store res destPos 0;
             Some (True, destPos, res) }
      else Some (False, destPos, res))"

text \<open>\<open>heap\<close> is the allocation for a \<open>NULL\<close> destination.\<close>

definition StringUtils_concatString ::
    "(int \<Rightarrow> byte list) \<Rightarrow> byte list option \<Rightarrow> int \<Rightarrow> byte list \<Rightarrow> byte list \<Rightarrow> byte list option" where
  "StringUtils_concatString heap dest maxBufferSize str1 str2 = do {
     let res = (case dest of Some d \<Rightarrow> d | None \<Rightarrow> heap maxBufferSize);
     let maxStringSize = maxBufferSize - 1;
     (full, destPos, res) \<leftarrow> concat_loop maxStringSize str1 0 res;
     if full then Some res
     else do {
       (full, destPos, res) \<leftarrow> concat_loop maxStringSize str2 destPos res;
       if full then Some res else store res destPos 0 } }"

text \<open>The end of the string in the buffer, at most \<open>n\<close>.\<close>

fun find_end :: "byte list \<Rightarrow> nat \<Rightarrow> nat option" where
  "find_end dest 0 = Some 0"
| "find_end [] (Suc n) = None"
| "find_end (b # dest) (Suc n) = (if b = 0 then Some 0 else map_option Suc (find_end dest n))"

fun append_loop :: "int \<Rightarrow> byte list \<Rightarrow> nat \<Rightarrow> byte list \<Rightarrow> (nat \<times> byte list) option" where
  "append_loop maxBufferSize [] i dest = (if int i < maxBufferSize then None else Some (i, dest))"
| "append_loop maxBufferSize (b # str) i dest =
     (if int i < maxBufferSize
      then if b = 0 then Some (i, dest)
           else do {
             dest \<leftarrow> store dest i b;
             append_loop maxBufferSize str (i + 1) dest }
      else Some (i, dest))"

definition StringUtils_appendString :: "byte list \<Rightarrow> int \<Rightarrow> byte list \<Rightarrow> byte list option" where
  "StringUtils_appendString dest maxBufferSize str = do {
     i \<leftarrow> find_end dest (nat maxBufferSize);
     if int i = maxBufferSize
     then if 0 < maxBufferSize then store dest (nat maxBufferSize - 1) 0 else Some dest
     else do {
       (i, dest) \<leftarrow> append_loop maxBufferSize str i dest;
       if int i = maxBufferSize
       then if 0 < maxBufferSize then store dest (nat maxBufferSize - 1) 0 else Some dest
       else store dest i 0 } }"

fun append_strings :: "byte list \<Rightarrow> int \<Rightarrow> byte list list \<Rightarrow> byte list option" where
  "append_strings newStr bufSize [] = Some newStr"
| "append_strings newStr bufSize (str # strs) = do {
     newStr \<leftarrow> StringUtils_appendString newStr bufSize str;
     append_strings newStr bufSize strs }"

definition StringUtils_createStringInBuffer :: "byte list \<Rightarrow> int \<Rightarrow> byte list list \<Rightarrow> byte list option" where
  "StringUtils_createStringInBuffer newStr bufSize strs =
     (if 0 < bufSize then do { newStr \<leftarrow> store newStr 0 0; append_strings newStr bufSize strs } else Some newStr)"

text \<open>The two loops of \<open>createString\<close>: the length, then \<open>strcpy\<close> of one string after the other.\<close>

fun strings_length :: "byte list list \<Rightarrow> nat option" where
  "strings_length [] = Some 0"
| "strings_length (str # strs) = do { n \<leftarrow> strlen str; m \<leftarrow> strings_length strs; Some (n + m) }"

fun copy_strings :: "byte list list \<Rightarrow> cursor \<Rightarrow> cursor option" where
  "copy_strings [] c = Some c"
| "copy_strings (str # strs) c = do {
     n \<leftarrow> strlen str;
     (newStr, _) \<leftarrow> put_bytes (take (n + 1) str) c;
     copy_strings strs (newStr, snd c + n) }"

definition StringUtils_createString :: "(nat \<Rightarrow> byte list) \<Rightarrow> byte list list \<Rightarrow> byte list option" where
  "StringUtils_createString heap strs = do {
     newStringLength \<leftarrow> strings_length strs;
     (newStr, _) \<leftarrow> copy_strings strs (heap (newStringLength + 1), 0);
     Some newStr }"

definition StringUtils_replace :: "byte list \<Rightarrow> byte \<Rightarrow> byte \<Rightarrow> byte list option" where
  "StringUtils_replace string oldChar newChar = do {
     len \<leftarrow> strlen string;
     Some (map (\<lambda>c. if c = oldChar then newChar else c) (take len string) @ drop len string) }"

section \<open>Numbers\<close>

definition StringUtils_isDigit :: "byte \<Rightarrow> bool" where
  "StringUtils_isDigit character \<longleftrightarrow> 47 < sint character \<and> sint character < 58"

definition StringUtils_digitToInt :: "byte \<Rightarrow> int" where
  "StringUtils_digitToInt digit = (if StringUtils_isDigit digit then sint digit - 48 else - 1)"

text \<open>The loop with \<open>n\<close> digits to go; a signed overflow is undefined.\<close>

fun digits_loop :: "byte list \<Rightarrow> nat \<Rightarrow> int \<Rightarrow> int option" where
  "digits_loop digits 0 value = Some value"
| "digits_loop [] (Suc n) value = None"
| "digits_loop (d # digits) (Suc n) value =
     (let value10 = value * 10; digitValue = StringUtils_digitToInt d in
      if 2 ^ 31 \<le> value10 then None
      else if digitValue = - 1 then Some (- 1)
      else if 2 ^ 31 \<le> value10 + digitValue then None
      else digits_loop digits n (value10 + digitValue))"

definition StringUtils_digitsToInt :: "byte list \<Rightarrow> int \<Rightarrow> int option" where
  "StringUtils_digitsToInt digits count = digits_loop digits (nat count) 0"

definition toInt :: "byte \<Rightarrow> int" where
  "toInt c = (if 48 \<le> sint c \<and> sint c \<le> 57 then sint c - 48
     else if 65 \<le> sint c \<and> sint c \<le> 70 then 10 + sint c - 65
     else if 97 \<le> sint c \<and> sint c \<le> 102 then 10 + sint c - 97
     else - 1)"

text \<open>The loop from octet \<open>i\<close> on; \<open>- 1\<close> leaves the octets that were written.\<close>

fun hex_loop :: "byte list \<Rightarrow> nat \<Rightarrow> nat \<Rightarrow> byte list \<Rightarrow> (int \<times> byte list) option" where
  "hex_loop hexString i 0 buffer = Some (int i, buffer)"
| "hex_loop hexString i (Suc n) buffer =
     (let high = toInt (hexString ! (i * 2)); low = toInt (hexString ! (i * 2 + 1)) in
      if high = - 1 then Some (- 1, buffer)
      else if low = - 1 then Some (- 1, buffer)
      else do {
        buffer \<leftarrow> store buffer i (word_of_int (high * 16 + low));
        hex_loop hexString (i + 1) n buffer })"

definition StringUtils_createBufferFromHexString :: "byte list \<Rightarrow> byte list \<Rightarrow> (int \<times> byte list) option" where
  "StringUtils_createBufferFromHexString hexString buffer = do {
     hexStringLen \<leftarrow> strlen hexString;
     if hexStringLen mod 2 \<noteq> 0 then Some (- 1, buffer)
     else hex_loop hexString 0 (hexStringLen div 2) buffer }"

section \<open>Searching\<close>

fun StringUtils_startsWith :: "byte list \<Rightarrow> byte list \<Rightarrow> bool option" where
  "StringUtils_startsWith (c # string) (p # pre) =
     (if c \<noteq> 0 \<and> p \<noteq> 0
      then if c \<noteq> p then Some False else StringUtils_startsWith string pre
      else Some (p = 0))"
| "StringUtils_startsWith string pre = None"

text \<open>\<open>strcmp\<close>, whether it is 0.\<close>

fun strings_equal :: "byte list \<Rightarrow> byte list \<Rightarrow> bool option" where
  "strings_equal (a # s) (b # t) = (if a \<noteq> b then Some False else if a = 0 then Some True else strings_equal s t)"
| "strings_equal s t = None"

definition StringUtils_endsWith :: "byte list \<Rightarrow> byte list \<Rightarrow> bool option" where
  "StringUtils_endsWith str suff = do {
     stringLength \<leftarrow> strlen str;
     suffixLength \<leftarrow> strlen suff;
     if suffixLength \<le> stringLength then strings_equal (drop (stringLength - suffixLength) str) suff
     else Some False }"

section \<open>Bounded strings\<close>

text \<open>Copying two strings one after the other is copying their concatenation.\<close>

lemma concat_loop_copy_max:
  "0 \<notin> set s \<Longrightarrow> copy_max m (s @ t) pos res = do {
     (full, pos, res) \<leftarrow> concat_loop m (s @ 0 # rest) pos res;
     if full then Some res else copy_max m t pos res }"
  by (induction s arbitrary: pos res) (auto split: Option.bind_splits)

lemma concatString_copy:
  assumes "0 \<notin> set s" and "0 \<notin> set t"
  shows "StringUtils_concatString heap (Some d) n (s @ 0 # u) (t @ 0 # v) = StringUtils_copyStringMax (Some d) n (c_str (s @ t))"
proof -
  have "copy_max (n - 1) (s @ t @ [0]) 0 d = do {
      (full, pos, res) \<leftarrow> concat_loop (n - 1) (s @ 0 # u) 0 d;
      if full then Some res else copy_max (n - 1) (t @ [0]) pos res }"
    by (rule concat_loop_copy_max [OF assms(1)])
  moreover have "copy_max (n - 1) (t @ [0]) pos res = do {
      (full, pos, res) \<leftarrow> concat_loop (n - 1) (t @ 0 # v) pos res;
      if full then Some res else store res pos 0 }" for pos res
    using concat_loop_copy_max [OF assms(2), of "n - 1" "[0]" pos res v] by (simp cong: if_cong)
  ultimately show ?thesis
    by (simp add: StringUtils_concatString_def StringUtils_copyStringMax_def c_str_def Let_def cong: if_cong)
qed

text \<open>A buffer of which the first \<open>n\<close> octets hold a string.\<close>

definition holds_string :: "nat \<Rightarrow> byte list \<Rightarrow> byte list \<Rightarrow> bool" where
  "holds_string n s buf \<longleftrightarrow> 0 \<notin> set s \<and> length s < n \<and> n \<le> length buf \<and> take (Suc (length s)) buf = s @ [0]"

lemma holds_stringE:
  assumes "holds_string n s buf"
  obtains rest where "buf = s @ 0 # rest" and "0 \<notin> set s" and "length s < n" and "n \<le> length buf"
proof -
  have "buf = take (Suc (length s)) buf @ drop (Suc (length s)) buf" by simp
  then show thesis using that assms unfolding holds_string_def by (metis append.assoc append_Cons append_Nil)
qed

lemma holds_string_cut:
  assumes "0 \<notin> set s" and "length s < n" and "n \<le> length buf"
  shows "holds_string n s (s @ 0 # drop (Suc (length s)) buf)" and "length (s @ 0 # drop (Suc (length s)) buf) = length buf"
    and "drop n (s @ 0 # drop (Suc (length s)) buf) = drop n buf"
proof -
  obtain k where "n = length s + Suc k" using assms(2) by (metis add_Suc_right less_iff_Suc_add)
  then show "drop n (s @ 0 # drop (Suc (length s)) buf) = drop n buf" by (simp add: add.commute)
qed (use assms in \<open>auto simp: holds_string_def\<close>)

lemma find_end_string: "0 \<notin> set s \<Longrightarrow> length s < n \<Longrightarrow> find_end (s @ 0 # rest) n = Some (length s)"
proof (induction s arbitrary: n)
  case Nil
  then show ?case by (cases n) auto
next
  case (Cons b s)
  then show ?case by (cases n) auto
qed

lemma append_loop_copies:
  assumes "0 \<notin> set t" and "length pre \<le> n" and "n \<le> length pre + length rest"
  shows "append_loop (int n) (t @ 0 # u) (length pre) (pre @ rest)
    = (let k = min (length t) (n - length pre) in Some (length pre + k, pre @ take k t @ drop k rest))"
  using assms
proof (induction t arbitrary: pre rest)
  case Nil
  then show ?case by (simp add: Let_def)
next
  case (Cons b t)
  show ?case
  proof (cases "length pre < n")
    case True
    then obtain r rest' where r: "rest = r # rest'" using Cons.prems by (cases rest) auto
    have "append_loop (int n) (t @ 0 # u) (length (pre @ [b])) ((pre @ [b]) @ rest')
        = (let k = min (length t) (n - length (pre @ [b])) in
           Some (length (pre @ [b]) + k, (pre @ [b]) @ take k t @ drop k rest'))"
      by (rule Cons.IH) (use Cons.prems True r in auto)
    moreover have "min (length (b # t)) (n - length pre) = Suc (min (length t) (n - length (pre @ [b])))"
      using True by auto
    ultimately show ?thesis using Cons.prems(1) True r by (simp add: store_def Let_def)
  next
    case False
    then show ?thesis using Cons.prems(2) by (simp add: Let_def)
  qed
qed

lemma appendString_appends:
  assumes "holds_string n s buf" and "0 \<notin> set t"
  obtains buf' where "StringUtils_appendString buf (int n) (t @ 0 # u) = Some buf'"
    and "holds_string n (take (n - 1) (s @ t)) buf'" and "length buf' = length buf" and "drop n buf' = drop n buf"
proof -
  obtain rest where b: "buf = s @ 0 # rest" "0 \<notin> set s" "length s < n" "n \<le> length buf"
    by (rule holds_stringE [OF assms(1)])
  let ?k = "min (length t) (n - length s)"
  have loop: "append_loop (int n) (t @ 0 # u) (length s) buf = Some (length s + ?k, s @ take ?k t @ drop ?k (0 # rest))"
    using append_loop_copies [of t s n "0 # rest" u] assms(2) b by (simp add: Let_def)
  have fe: "find_end buf n = Some (length s)" unfolding b(1) by (rule find_end_string [OF b(2,3)])
  have nul: "0 \<notin> set (take (n - 1) (s @ t))" using assms(2) b(2) by (auto dest!: in_set_takeD)
  show thesis
  proof (cases "length s + length t < n")
    case True
    let ?buf = "s @ t @ 0 # drop (Suc (length t)) (0 # rest)"
    have "StringUtils_appendString buf (int n) (t @ 0 # u) = store (s @ t @ drop (length t) (0 # rest)) (length s + length t) 0"
      using fe loop b(3) True by (simp add: StringUtils_appendString_def)
    also have "\<dots> = Some ?buf"
      using True b(1,4) by (simp add: store_def list_update_append Cons_nth_drop_Suc [symmetric] del: drop_Suc_Cons)
    finally have run: "StringUtils_appendString buf (int n) (t @ 0 # u) = Some ?buf" .
    show thesis
      by (rule that [OF run]) (use True b nul in \<open>auto simp: holds_string_def drop_Cons' drop_append\<close>)
  next
    case False
    let ?t = "take (n - 1 - length s) t"
    have k: "?k = n - length s" using False by simp
    let ?buf = "s @ ?t @ 0 # drop (n - length s) (0 # rest)"
    have "StringUtils_appendString buf (int n) (t @ 0 # u)
        = store (s @ take (n - length s) t @ drop (n - length s) (0 # rest)) (n - 1) 0"
      using fe loop b(3) unfolding k by (simp add: StringUtils_appendString_def)
    also have "\<dots> = Some ?buf"
    proof -
      obtain j where j: "n - length s = Suc j" using b(3) by (metis Suc_diff_Suc)
      have "j < length t" using False j by simp
      then have "take (Suc j) t = take j t @ [t ! j]" by (simp add: take_Suc_conv_app_nth)
      moreover have "n - 1 = length s + j" "n - 1 - length s = j" using j by auto
      ultimately show ?thesis using j \<open>j < length t\<close> b(1,4) by (simp add: store_def list_update_append)
    qed
    finally have run: "StringUtils_appendString buf (int n) (t @ 0 # u) = Some ?buf" .
    show thesis
      by (rule that [OF run]) (use False b nul in \<open>auto simp: holds_string_def drop_append take_append min_def\<close>)
  qed
qed

lemma take_take_append: "take m (take m xs @ ys) = take m (xs @ ys)"
  by (cases "m \<le> length xs") (simp_all add: take_append)

lemma append_strings_appends:
  assumes "holds_string n s buf" and "\<forall>t \<in> set ts. 0 \<notin> set t"
  shows "\<exists>buf'. append_strings buf (int n) (map c_str ts) = Some buf' \<and>
    holds_string n (take (n - 1) (s @ concat ts)) buf' \<and> length buf' = length buf \<and> drop n buf' = drop n buf"
  using assms
proof (induction ts arbitrary: s buf)
  case Nil
  then have "length s \<le> n - 1" by (auto simp: holds_string_def)
  then show ?case using Nil by simp
next
  case (Cons t ts)
  have t: "0 \<notin> set t" using Cons.prems(2) by simp
  obtain buf1 where b1: "StringUtils_appendString buf (int n) (t @ [0]) = Some buf1"
      "holds_string n (take (n - 1) (s @ t)) buf1" "length buf1 = length buf" "drop n buf1 = drop n buf"
    by (rule appendString_appends [OF Cons.prems(1) t, of "[]"])
  obtain buf2 where "append_strings buf1 (int n) (map c_str ts) = Some buf2"
      "holds_string n (take (n - 1) (take (n - 1) (s @ t) @ concat ts)) buf2" "length buf2 = length buf1" "drop n buf2 = drop n buf1"
    using Cons.IH [OF b1(2)] Cons.prems(2) by auto
  moreover have "take (n - 1) (take (n - 1) (s @ t) @ concat ts) = take (n - 1) (s @ concat (t # ts))"
    using take_take_append [of "n - 1" "s @ t" "concat ts"] by (simp only: concat.simps append.assoc)
  ultimately show ?case using b1(1,3,4) by (simp only: list.map append_strings.simps c_str_def [of t]) auto
qed

text \<open>\<open>createString\<close> allocates exactly the concatenation.\<close>

lemma strings_length_concat: "\<forall>t \<in> set ts. 0 \<notin> set t \<Longrightarrow> strings_length (map c_str ts) = Some (length (concat ts))"
  by (induction ts) auto

lemma copy_strings_concat:
  assumes "\<forall>t \<in> set ts. 0 \<notin> set t" and "ts \<noteq> []" and "length rest = length (concat ts) + 1"
  shows "copy_strings (map c_str ts) (pre @ rest, length pre) = Some (pre @ concat ts @ [0], length pre + length (concat ts))"
  using assms
proof (induction ts arbitrary: pre rest)
  case (Cons t ts)
  let ?rest = "drop (length t + 1) rest"
  have put: "put_bytes (t @ [0]) (pre @ rest, length pre) = Some (pre @ t @ [0] @ ?rest, length pre + length t + 1)"
    using put_bytes_exact [of "length pre" "t @ [0]" "pre @ rest"] Cons.prems(3) by simp
  have t: "strlen (t @ [0]) = Some (length t)" using Cons.prems(1) strlen_append_zero [of t "[]"] by simp
  show ?case
  proof (cases ts)
    case Nil
    then show ?thesis using put t Cons.prems(3) by (simp add: c_str_def)
  next
    case nonempty: (Cons t' ts')
    have "copy_strings (map c_str ts) ((pre @ t) @ 0 # ?rest, length (pre @ t))
        = Some ((pre @ t) @ concat ts @ [0], length (pre @ t) + length (concat ts))"
      by (rule Cons.IH) (use Cons.prems nonempty in auto)
    then show ?thesis using put t by (simp add: c_str_def [of t] add.assoc)
  qed
qed simp

lemma createString_concat:
  assumes "\<forall>t \<in> set ts. 0 \<notin> set t" and "ts \<noteq> []" and "\<And>n. length (heap n) = n"
  shows "StringUtils_createString heap (map c_str ts) = Some (c_str (concat ts))"
  using copy_strings_concat [OF assms(1,2), of "heap (length (concat ts) + 1)" "[]"] strings_length_concat [OF assms(1)]
    assms(3) by (simp add: StringUtils_createString_def c_str_def)

lemma createStringInBuffer_concat:
  assumes "\<forall>t \<in> set ts. 0 \<notin> set t" and "0 < n" and "n \<le> length buf"
  shows "\<exists>buf'. StringUtils_createStringInBuffer buf (int n) (map c_str ts) = Some buf' \<and>
    holds_string n (take (n - 1) (concat ts)) buf' \<and> length buf' = length buf \<and> drop n buf' = drop n buf"
proof -
  have "holds_string n [] (buf[0 := 0])" using assms(2,3) by (cases buf) (auto simp: holds_string_def)
  from append_strings_appends [OF this assms(1)] show ?thesis
    using assms(2,3) by (auto simp: StringUtils_createStringInBuffer_def store_def)
qed

section \<open>Numbers\<close>

lemma digitToInt_digit: "is_digit d \<Longrightarrow> StringUtils_digitToInt d = uint (d - 48) \<and> 0 \<le> StringUtils_digitToInt d"
proof -
  assume "is_digit d"
  then have u: "48 \<le> uint d" "uint d \<le> 57" by (simp_all add: is_digit_def word_le_def)
  have "sint d = uint d" using u by (simp add: sint_uint signed_take_bit_int_eq_self)
  moreover have "uint (d - 48) = uint d - 48" using u by (simp add: uint_sub_lem [THEN iffD1])
  ultimately show ?thesis using u by (simp add: StringUtils_digitToInt_def StringUtils_isDigit_def)
qed

lemma digits_loop_value:
  "list_all is_digit ds \<Longrightarrow> 0 \<le> v \<Longrightarrow> foldl (\<lambda>a d. 10 * a + uint (d - 48)) v ds < 2 ^ 31 \<Longrightarrow>
   digits_loop (ds @ rest) (length ds) v = Some (foldl (\<lambda>a d. 10 * a + uint (d - 48)) v ds)"
proof (induction ds arbitrary: v)
  case (Cons d ds)
  have grows: "a \<le> foldl (\<lambda>a d. 10 * a + uint (d - 48 :: byte)) a xs" if "0 \<le> a" for a xs
    using that
  proof (induction xs arbitrary: a)
    case (Cons x xs)
    have "a \<le> 10 * a + uint (x - 48)" using Cons.prems uint_ge_0 [of "x - 48"] by linarith
    moreover have "10 * a + uint (x - 48) \<le> foldl (\<lambda>a d. 10 * a + uint (d - 48)) (10 * a + uint (x - 48)) xs"
      using Cons.IH Cons.prems by simp
    ultimately show ?case by simp
  qed simp
  have d: "StringUtils_digitToInt d = uint (d - 48)" using digitToInt_digit Cons.prems(1) by simp
  define u where "u = uint (d - 48)"
  have u: "0 \<le> u" "u \<noteq> - 1" using uint_ge_0 [of "d - 48"] unfolding u_def by linarith+
  have v: "10 * v + u < 2 ^ 31"
    using grows [of "10 * v + u" ds] Cons.prems(2,3) u by (simp add: u_def)
  moreover have "v * 10 < 2 ^ 31" using v u(1) by linarith
  ultimately show ?case
    using Cons.IH [of "10 * v + u"] Cons.prems d u unfolding foldl.simps u_def [symmetric] by (simp add: Let_def mult.commute)
qed simp

lemma digitsToInt_to_string:
  assumes "n < 2 ^ 31"
  shows "StringUtils_digitsToInt (to_string n @ rest) (int (length (to_string n))) = Some (int n)"
  using digits_loop_value [of "to_string n" 0 rest] to_string_correct [of n] assms
  by (simp add: StringUtils_digitsToInt_def digits_value_def)

text \<open>Two hexadecimal digits per octet, in lower case.\<close>

definition hex_text :: "byte list \<Rightarrow> byte list" where
  "hex_text bs = concat (map (\<lambda>b. [hex_digit (b div 16), hex_digit (b mod 16)]) bs)"

lemma toInt_hex_digit: "d < 16 \<Longrightarrow> toInt (hex_digit d) = uint d"
proof -
  assume "d < 16"
  then have d: "uint d < 16" "0 \<le> uint d" by (simp_all add: word_less_def)
  have small: "sint (c + d) = uint c + uint d" if "uint c + uint d < 128" for c
  proof -
    have "- 128 \<le> uint c + uint d" using uint_ge_0 [of c] d(2) by linarith
    then have "- (2 ^ 7) \<le> uint c + uint d" by (simp only: power_numeral) simp
    then have "signed_take_bit 7 (uint c + uint d) = uint c + uint d"
      by (rule signed_take_bit_int_eq_self) (use that in simp)
    then show ?thesis using that by (simp add: sint_uint uint_word_ariths(1))
  qed
  have "d < 10 \<longleftrightarrow> uint d < 10" by (simp add: word_less_def)
  then show ?thesis using small [of 48] small [of 87] d by (auto simp: hex_digit_def toInt_def)
qed

lemma hex_octet: "toInt (hex_digit (b div 16)) * 16 + toInt (hex_digit (b mod 16)) = uint b"
proof -
  have "b div 16 < 16" using unat_byte_less [of b] by (simp add: word_less_nat_alt unat_div less_mult_imp_div_less)
  moreover have "b mod 16 < 16" by (simp add: word_less_nat_alt unat_mod)
  ultimately show ?thesis by (simp add: toInt_hex_digit uint_div uint_mod)
qed

lemma length_hex_text [simp]: "length (hex_text bs) = 2 * length bs"
  by (induction bs) (simp_all add: hex_text_def)

lemma hex_text_no_nul: "0 \<notin> set (hex_text bs)"
proof -
  have "hex_digit d \<noteq> 0" if "d < 16" for d
  proof
    assume "hex_digit d = 0"
    then have "uint d = - 1" using toInt_hex_digit [OF that] by (simp add: toInt_def)
    then show False using uint_ge_0 [of d] by linarith
  qed
  moreover have "b div 16 < 16" "b mod 16 < 16" for b :: byte
    using unat_byte_less [of b] by (simp_all add: word_less_nat_alt unat_div unat_mod less_mult_imp_div_less)
  ultimately show ?thesis by (auto simp: hex_text_def)
qed

lemma hex_text_nth:
  "i < length bs \<Longrightarrow> (hex_text bs @ rest) ! (i * 2) = hex_digit (bs ! i div 16) \<and>
    (hex_text bs @ rest) ! (i * 2 + 1) = hex_digit (bs ! i mod 16)"
proof (induction bs arbitrary: i)
  case (Cons b bs)
  then show ?case by (cases i) (auto simp: hex_text_def)
qed simp

lemma hex_loop_octets:
  assumes "i + n = length bs" and "length bs \<le> length buf"
  shows "hex_loop (hex_text bs @ rest) i n (take i bs @ drop i buf) = Some (int (length bs), bs @ drop (length bs) buf)"
  using assms(1)
proof (induction n arbitrary: i)
  case (Suc n)
  have i: "i < length bs" using Suc.prems by simp
  have nonneg: "toInt (hex_digit d) \<noteq> - 1" if "d < 16" for d using toInt_hex_digit [OF that] uint_ge_0 [of d] by linarith
  have "bs ! i div 16 < 16" using unat_byte_less [of "bs ! i"] by (simp add: word_less_nat_alt unat_div less_mult_imp_div_less)
  moreover have "bs ! i mod 16 < 16" by (simp add: word_less_nat_alt unat_mod)
  moreover have "store (take i bs @ drop i buf) i (bs ! i) = Some (take (Suc i) bs @ drop (Suc i) buf)"
    using i assms(2) by (simp add: store_def list_update_append take_Suc_conv_app_nth Cons_nth_drop_Suc [symmetric])
  ultimately show ?case
    using Suc.IH [of "Suc i"] Suc.prems hex_text_nth [OF i, of rest] nonneg hex_octet [of "bs ! i"]
    by (simp add: Let_def)
qed (use assms in simp)

section \<open>Searching\<close>

lemma startsWith_prefix:
  "0 \<notin> set s \<Longrightarrow> 0 \<notin> set p \<Longrightarrow> StringUtils_startsWith (s @ 0 # u) (p @ 0 # v) = Some (prefix p s)"
proof (induction s arbitrary: p)
  case Nil
  then show ?case by (cases p) auto
next
  case (Cons c s)
  then show ?case by (cases p) auto
qed

lemma strings_equal_eq: "0 \<notin> set s \<Longrightarrow> 0 \<notin> set t \<Longrightarrow> strings_equal (s @ 0 # u) (t @ 0 # v) = Some (s = t)"
proof (induction s arbitrary: t)
  case Nil
  then show ?case by (cases t) auto
next
  case (Cons c s)
  then show ?case by (cases t) auto
qed

lemma endsWith_suffix:
  assumes "0 \<notin> set s" and "0 \<notin> set t"
  shows "StringUtils_endsWith (s @ 0 # u) (t @ 0 # v) = Some (suffix t s)"
proof (cases "length t \<le> length s")
  case True
  let ?d = "drop (length s - length t) s"
  have "suffix t s \<longleftrightarrow> ?d = t"
    using True by (metis append_take_drop_id length_drop diff_diff_cancel suffix_def suffix_length_suffix suffix_order.eq_iff
        suffix_drop order_refl)
  moreover have "0 \<notin> set ?d" using assms(1) by (auto dest: in_set_dropD)
  ultimately show ?thesis
    using strings_equal_eq [of ?d t u v] assms True by (simp add: StringUtils_endsWith_def strlen_append_zero)
next
  case False
  then show ?thesis
    using assms by (auto simp: StringUtils_endsWith_def strlen_append_zero dest: suffix_length_le)
qed

section \<open>Properties\<close>

text \<open>Text is built without overflow: putting strings into a buffer of n octets, by the functions for
  appending, for a list of strings and for two strings, gives their concatenation cut to n - 1
  characters and terminated, and writes nothing behind the n octets; a new string for a list of strings has
  exactly the size of the concatenation.\<close>

theorem text_built:
  assumes "0 < n" and "n \<le> length buf" and "\<forall>t \<in> set ts. 0 \<notin> set t" and "0 \<notin> set s" and "0 \<notin> set t"
    and "holds_string n u buf" and "\<And>m. length (alloc m) = m"
  shows "(\<exists>buf'. StringUtils_appendString buf (int n) (c_str t) = Some buf' \<and>
      holds_string n (take (n - 1) (u @ t)) buf' \<and> length buf' = length buf \<and> drop n buf' = drop n buf) \<and>
    (\<exists>buf'. StringUtils_createStringInBuffer buf (int n) (map c_str ts) = Some buf' \<and>
      holds_string n (take (n - 1) (concat ts)) buf' \<and> length buf' = length buf \<and> drop n buf' = drop n buf) \<and>
    (\<exists>buf'. StringUtils_concatString heap (Some buf) (int n) (c_str s) (c_str t) = Some buf' \<and>
      holds_string n (take (n - 1) (s @ t)) buf' \<and> length buf' = length buf \<and> drop n buf' = drop n buf) \<and>
    (ts \<noteq> [] \<longrightarrow> StringUtils_createString alloc (map c_str ts) = Some (c_str (concat ts)))"
proof (intro conjI impI)
  show "\<exists>buf'. StringUtils_appendString buf (int n) (c_str t) = Some buf' \<and>
      holds_string n (take (n - 1) (u @ t)) buf' \<and> length buf' = length buf \<and> drop n buf' = drop n buf"
    using appendString_appends [OF assms(6,5), of "[]"] by (metis c_str_def)
  show "\<exists>buf'. StringUtils_createStringInBuffer buf (int n) (map c_str ts) = Some buf' \<and>
      holds_string n (take (n - 1) (concat ts)) buf' \<and> length buf' = length buf \<and> drop n buf' = drop n buf"
    by (rule createStringInBuffer_concat [OF assms(3,1,2)])
  have st: "0 \<notin> set (s @ t)" "0 \<notin> set (take (n - 1) (s @ t))" using assms(4,5) by (auto dest!: in_set_takeD)
  define w where "w = take (n - 1) (s @ t)"
  have w: "length w = min (n - 1) (length (s @ t))" "length w < n" "0 \<notin> set w"
    using assms(1) st(2) by (auto simp: w_def)
  have run: "StringUtils_concatString heap (Some buf) (int n) (c_str s) (c_str t) = Some (w @ 0 # drop (Suc (length w)) buf)"
    unfolding w(1) unfolding w_def
    using concatString_copy [OF assms(4,5), of heap buf "int n" "[]" "[]"] copyStringMax_spec [OF st(1) assms(1,2)]
    by (simp add: c_str_def)
  show "\<exists>buf'. StringUtils_concatString heap (Some buf) (int n) (c_str s) (c_str t) = Some buf' \<and>
      holds_string n (take (n - 1) (s @ t)) buf' \<and> length buf' = length buf \<and> drop n buf' = drop n buf"
    unfolding w_def [symmetric] using run holds_string_cut [OF w(3,2) assms(2)] by blast
  show "StringUtils_createString alloc (map c_str ts) = Some (c_str (concat ts))" if "ts \<noteq> []"
    by (rule createString_concat [OF assms(3) that assms(7)])
qed

text \<open>Numbers in text: a decimal number below 2147483648 is read back from its digits whatever follows them, and
  octets are read back from two hexadecimal digits each; the buffer behind them is untouched.\<close>

theorem numbers_in_text:
  assumes "n < 2 ^ 31" and "length bs \<le> length buf"
  shows "StringUtils_digitsToInt (to_string n @ rest) (int (length (to_string n))) = Some (int n) \<and>
    StringUtils_createBufferFromHexString (c_str (hex_text bs)) buf = Some (int (length bs), bs @ drop (length bs) buf)"
proof -
  have "0 \<notin> set (hex_text bs)" by (rule hex_text_no_nul)
  then show ?thesis
    using digitsToInt_to_string [OF assms(1)] hex_loop_octets [of 0 "length bs" bs buf "[0]"] assms(2)
    by (simp add: StringUtils_createBufferFromHexString_def) (simp add: c_str_def)
qed

theorem text_built_witness:
  "\<exists>buf'. StringUtils_createStringInBuffer [0, 9, 9, 9, 9] 4 (map c_str [[0x61, 0x62], [0x63, 0x64]]) = Some buf' \<and>
    holds_string 4 [0x61, 0x62, 0x63] buf' \<and> drop 4 buf' = [9]"
proof -
  have h: "holds_string 4 [] ([0, 9, 9, 9, 9] :: byte list)" by (simp add: holds_string_def)
  show ?thesis
    using text_built [of 4 "[0, 9, 9, 9, 9]" "[[0x61, 0x62], [0x63, 0x64]]" "[]" "[]" "[]" "\<lambda>n. replicate n 7" "\<lambda>_. []", OF _ _ _ _ _ h]
    by auto
qed

theorem numbers_in_text_witness:
  "StringUtils_digitsToInt (to_string 42 @ [0x29]) (int (length (to_string 42))) = Some 42 \<and>
   StringUtils_createBufferFromHexString (c_str (hex_text [0xa5])) [1, 2] = Some (1, [0xa5, 2])"
  using numbers_in_text [of 42 "[0xa5]" "[1, 2]" "[0x29]"] by simp

end
