(* ===== verification/Object_Reference.thy ===== *)
theory Object_Reference
  imports Iec61850_Common String_Text
begin

text \<open>
  Object references and MMS names in \<open>src/iec61850/common/iec61850_common.cc\<close>: a reference such as
  \<open>LD/LN.DO.DA[FC]\<close>, with an array index and a component of the element where it has them, and the domain
  and item names of the MMS variable. \<open>heap n\<close> is a new allocation of \<open>n\<close> octets. A result \<open>Some None\<close> is
  \<open>NULL\<close>.
\<close>

section \<open>Library functions\<close>

text \<open>\<open>strchr\<close>: the position of the first occurrence, or \<open>NULL\<close>.\<close>

fun strchr :: "byte list \<Rightarrow> byte \<Rightarrow> nat option option" where
  "strchr [] c = None"
| "strchr (b # s) c = (if b = c then Some (Some 0) else if b = 0 then Some None
     else map_option (map_option Suc) (strchr s c))"

lemma strchr_found: "c \<notin> set s \<Longrightarrow> 0 \<notin> set s \<Longrightarrow> strchr (s @ c # r) c = Some (Some (length s))"
  by (induction s) auto

lemma strchr_absent: "c \<notin> set s \<Longrightarrow> 0 \<notin> set s \<Longrightarrow> c \<noteq> 0 \<Longrightarrow> strchr (s @ 0 # r) c = Some None"
  by (induction s) auto

section \<open>Names from a reference\<close>

text \<open>The loop that looks for the end of the logical device name, in the first \<open>n\<close> characters.\<close>

fun find_slash :: "byte list \<Rightarrow> nat \<Rightarrow> nat" where
  "find_slash ref 0 = 0"
| "find_slash [] (Suc n) = 0"
| "find_slash (c # ref) (Suc n) = (if c = 0x2f then 0 else Suc (find_slash ref n))"

definition MmsMapping_getMmsDomainFromObjectReference ::
    "(nat \<Rightarrow> byte list) \<Rightarrow> byte list \<Rightarrow> byte list option \<Rightarrow> byte list option option" where
  "MmsMapping_getMmsDomainFromObjectReference heap objectReference buffer = do {
     objRefLength \<leftarrow> strlen objectReference;
     let i = find_slash objectReference objRefLength;
     if 129 < objRefLength then Some None
     else if 64 < i then Some None
     else if i = objRefLength then Some None
     else do {
       let domainName = (case buffer of None \<Rightarrow> heap (i + 1) | Some b \<Rightarrow> b);
       c \<leftarrow> put_bytes (take i objectReference) (domainName, 0);
       (domainName, _) \<leftarrow> put 0 c;
       Some (Some domainName) } }"

text \<open>The loop that writes the variable name, with the constraint in the place of the first dot.\<close>

fun name_loop :: "byte list \<Rightarrow> byte list \<Rightarrow> bool \<Rightarrow> cursor \<Rightarrow> (bool \<times> cursor) option" where
  "name_loop fcString [] fcAdded c = Some (fcAdded, c)"
| "name_loop fcString (ch # src) fcAdded c =
     (if ch \<noteq> 0x2e then do {
        c \<leftarrow> put ch c;
        name_loop fcString src fcAdded c }
      else if \<not> fcAdded then do {
        c \<leftarrow> put 0x24 c;
        c \<leftarrow> put_bytes (take 2 fcString) c;
        c \<leftarrow> put 0x24 c;
        name_loop fcString src True c }
      else do {
        c \<leftarrow> put 0x24 c;
        name_loop fcString src fcAdded c })"

definition MmsMapping_createMmsVariableNameFromObjectReference ::
    "(nat \<Rightarrow> byte list) \<Rightarrow> byte list \<Rightarrow> FunctionalConstraint \<Rightarrow> byte list option \<Rightarrow> byte list option option" where
  "MmsMapping_createMmsVariableNameFromObjectReference heap objectReference fc buffer = do {
     objRefLength \<leftarrow> strlen objectReference;
     let i = find_slash objectReference objRefLength;
     if 129 < objRefLength then Some None
     else if 64 < i then Some None
     else do {
       let i = (if i = objRefLength then 0 else i + 1);
       if fc = IEC61850_FC_NONE
       then do {
         let mmsVariableName = (case buffer of None \<Rightarrow> heap 65 | Some b \<Rightarrow> b);
         mmsVariableName \<leftarrow> StringUtils_copyStringMax (Some mmsVariableName) 65 (drop i objectReference);
         Some (Some mmsVariableName) }
       else (case FunctionalConstraint_toString fc of
           None \<Rightarrow> Some None
         | Some fcString \<Rightarrow> do {
             let namePartLength = int objRefLength - int i - 1;
             if 61 < namePartLength then Some None
             else do {
               let mmsVariableName = (case buffer of None \<Rightarrow> heap (nat (namePartLength + 5)) | Some b \<Rightarrow> b);
               (fcAdded, c) \<leftarrow> name_loop fcString (drop i (take objRefLength objectReference)) False (mmsVariableName, 0);
               c \<leftarrow> (if fcAdded then Some c else put_bytes (0x24 # take 2 fcString) c);
               (mmsVariableName, _) \<leftarrow> put 0 c;
               Some (Some mmsVariableName) } }) } }"

section \<open>References and access specifications\<close>

record MmsVariableAccessSpecification =
  va_domainId :: "byte list"
  va_itemId :: "byte list option"
  va_arrayIndex :: int
  va_componentName :: "byte list option"

text \<open>The part for an array index, which starts behind the parenthesis at \<open>indexStart\<close>.\<close>

definition add_index ::
    "byte list \<Rightarrow> nat \<Rightarrow> nat \<Rightarrow> MmsVariableAccessSpecification \<Rightarrow> MmsVariableAccessSpecification option" where
  "add_index objectReference objRefLen indexStart accessSpec = do {
     found \<leftarrow> strchr (drop indexStart objectReference) 0x29;
     indexLen \<leftarrow> found;
     index \<leftarrow> StringUtils_digitsToInt (drop indexStart objectReference) (int indexLen);
     let accessSpec = accessSpec\<lparr>va_arrayIndex := index\<rparr>;
     let indexEnd = indexStart + indexLen;
     let componentNameLen = int objRefLen - int (indexEnd + 2) - 4;
     if 0 < componentNameLen
     then do {
       componentName \<leftarrow> StringUtils_createStringFromBuffer (drop (indexEnd + 2) objectReference) componentNameLen;
       componentName \<leftarrow> StringUtils_replace componentName 0x2e 0x24;
       Some (accessSpec\<lparr>va_componentName := Some componentName\<rparr>) }
     else Some accessSpec }"

text \<open>The part for the item, whose local array has 129 octets; positions are relative to the slash.\<close>

definition add_item ::
    "(nat \<Rightarrow> byte list) \<Rightarrow> byte list \<Rightarrow> nat \<Rightarrow> nat \<Rightarrow> FunctionalConstraint \<Rightarrow> nat option \<Rightarrow> nat \<Rightarrow>
     MmsVariableAccessSpecification \<Rightarrow> MmsVariableAccessSpecification option" where
  "add_item heap objectReference objRefLen domainIdLen fc indexBrace itemIdEnd accessSpec = do {
     let itemIdLen = int itemIdEnd - 1;
     item \<leftarrow> rd_bytes (drop (domainIdLen + 1) objectReference) 0 itemIdLen;
     itemIdStr \<leftarrow> (if itemIdLen < 129 then Some (item @ [0]) else None);
     itemId \<leftarrow> MmsMapping_createMmsVariableNameFromObjectReference heap itemIdStr fc None;
     let accessSpec = accessSpec\<lparr>va_itemId := itemId\<rparr>;
     (case indexBrace of
        None \<Rightarrow> Some accessSpec
      | Some _ \<Rightarrow> add_index objectReference objRefLen (domainIdLen + itemIdEnd + 1) accessSpec) }"

definition MmsMapping_ObjectReferenceToVariableAccessSpec ::
    "(nat \<Rightarrow> byte list) \<Rightarrow> byte list \<Rightarrow> MmsVariableAccessSpecification option option" where
  "MmsMapping_ObjectReferenceToVariableAccessSpec heap objectReference = do {
     domainIdEnd \<leftarrow> strchr objectReference 0x2f;
     (case domainIdEnd of None \<Rightarrow> Some None | Some domainIdLen \<Rightarrow>
       if 64 < domainIdLen then Some None
       else do {
         fcStart \<leftarrow> strchr objectReference 0x5b;
         (case fcStart of None \<Rightarrow> Some None | Some fcStart \<Rightarrow> do {
           fcEnd \<leftarrow> strchr (drop fcStart objectReference) 0x5d;
           (case fcEnd of None \<Rightarrow> Some None | Some fcLen \<Rightarrow>
             if fcLen \<noteq> 3 then Some None
             else do {
               fc \<leftarrow> FunctionalConstraint_fromString (drop (fcStart + 1) objectReference);
               domainId \<leftarrow> StringUtils_createStringFromBuffer objectReference (int domainIdLen);
               indexBrace \<leftarrow> strchr (drop domainIdLen objectReference) 0x28;
               itemIdEnd \<leftarrow> (case indexBrace of None \<Rightarrow> strchr (drop domainIdLen objectReference) 0x5b
                 | Some p \<Rightarrow> Some (Some p));
               objRefLen \<leftarrow> strlen objectReference;
               let accessSpec = \<lparr>va_domainId = domainId, va_itemId = None, va_arrayIndex = - 1, va_componentName = None\<rparr>;
               (case itemIdEnd of
                  None \<Rightarrow> Some (Some accessSpec)
                | Some e \<Rightarrow> map_option Some
                    (add_item heap objectReference objRefLen domainIdLen fc indexBrace e accessSpec)) }) }) }) }"

fun digits_of :: "int \<Rightarrow> int \<Rightarrow> int" where
  "digits_of value numberOfDigits =
     (if 9 < value then digits_of (value div 10) (numberOfDigits + 1) else numberOfDigits)"

declare digits_of.simps [simp del]

definition getNumberOfDigits :: "int \<Rightarrow> int" where
  "getNumberOfDigits value = digits_of value 1"

definition dollar_to_dot :: "byte \<Rightarrow> byte" where
  "dollar_to_dot c = (if c = 0x24 then 0x2e else c)"

text \<open>\<open>sprintf\<close> writes the index in parentheses and a terminator, which is overwritten later.\<close>

definition put_index :: "int \<Rightarrow> cursor \<Rightarrow> cursor option" where
  "put_index arrayIndex c =
     (if - 1 < arrayIndex
      then do {
        (s, _) \<leftarrow> put_bytes ((0x28 # to_string (nat arrayIndex) @ [0x29]) @ [0]) c;
        Some (s, snd c + nat (2 + getNumberOfDigits arrayIndex)) }
      else Some c)"

definition MmsMapping_varAccessSpecToObjectReference ::
    "(nat \<Rightarrow> byte list) \<Rightarrow> MmsVariableAccessSpecification \<Rightarrow> byte list option" where
  "MmsMapping_varAccessSpecToObjectReference heap varAccessSpec = do {
     let domainId = va_domainId varAccessSpec;
     domainIdLen \<leftarrow> strlen domainId;
     itemId \<leftarrow> va_itemId varAccessSpec;
     found \<leftarrow> strchr itemId 0x24;
     itemIdLen \<leftarrow> strlen itemId;
     separator \<leftarrow> found;
     componentPartLen \<leftarrow> (case va_componentName varAccessSpec of None \<Rightarrow> Some 0 | Some s \<Rightarrow> strlen s);
     let arrayIndex = va_arrayIndex varAccessSpec;
     let arrayIndexLen = (if - 1 < arrayIndex then 2 + getNumberOfDigits arrayIndex else 0);
     let newStringLen = (int domainIdLen + 1) + (int itemIdLen - 2) + arrayIndexLen + 4 + int componentPartLen + 1;
     c \<leftarrow> put_bytes (take domainIdLen domainId) (heap (nat newStringLen), 0);
     c \<leftarrow> put 0x2f c;
     c \<leftarrow> put_bytes (take separator itemId) c;
     c \<leftarrow> put 0x2e c;
     c \<leftarrow> put_bytes (map dollar_to_dot (drop (separator + 4) (take itemIdLen itemId))) c;
     c \<leftarrow> put_index arrayIndex c;
     c \<leftarrow> (case va_componentName varAccessSpec of
         None \<Rightarrow> Some c
       | Some s \<Rightarrow> do {
           c \<leftarrow> put 0x2e c;
           put_bytes (map dollar_to_dot (take componentPartLen s)) c });
     fc0 \<leftarrow> rd itemId (int (separator + 1));
     fc1 \<leftarrow> rd itemId (int (separator + 2));
     c \<leftarrow> put_bytes [0x5b, fc0, fc1, 0x5d] c;
     (newString, _) \<leftarrow> put 0 c;
     Some newString }"

section \<open>The variable name\<close>

fun render :: "byte list \<Rightarrow> bool \<Rightarrow> byte list \<Rightarrow> byte list" where
  "render fc added [] = []"
| "render fc added (ch # s) = (if ch \<noteq> 0x2e then ch # render fc added s
     else if \<not> added then 0x24 # take 2 fc @ 0x24 # render fc True s
     else 0x24 # render fc added s)"

lemma name_loop_render:
  "name_loop fc s added = (\<lambda>c. do { c \<leftarrow> put_bytes (render fc added s) c; Some (added \<or> 0x2e \<in> set s, c) })"
proof (induction s arbitrary: added)
  case (Cons ch s)
  show ?case by (rule ext) (simp add: Cons.IH put_fun)
qed (simp add: fun_eq_iff)

definition dot_to_dollar :: "byte \<Rightarrow> byte" where
  "dot_to_dollar c = (if c = 0x2e then 0x24 else c)"

lemma render_added: "render fc True s = map dot_to_dollar s"
  by (induction s) (auto simp: dot_to_dollar_def)

lemma render_name: "0x2e \<notin> set x \<Longrightarrow> render fc False (x @ 0x2e # y) = x @ 0x24 # take 2 fc @ 0x24 # map dot_to_dollar y"
  by (induction x) (auto simp: render_added)

lemma render_plain: "0x2e \<notin> set x \<Longrightarrow> render fc False x = x"
  by (induction x) auto

lemma length_render: "length (take 2 fc) = 2 \<Longrightarrow> length (render fc added s) = length s + (if added \<or> 0x2e \<notin> set s then 0 else 3)"
  by (induction s arbitrary: added) auto

lemma find_slash_none: "0x2f \<notin> set s \<Longrightarrow> find_slash (s @ r) (length s) = length s"
  by (induction s) auto

lemma find_slash_found: "0x2f \<notin> set s \<Longrightarrow> length s < n \<Longrightarrow> find_slash (s @ 0x2f # r) n = length s"
proof (induction s arbitrary: n)
  case Nil
  then show ?case by (cases n) auto
next
  case (Cons c s)
  then show ?case by (cases n) auto
qed

text \<open>Writing at the end of what is written.\<close>

lemma put_step:
  "length bs \<le> length rest \<Longrightarrow>
   put_bytes bs (pre @ rest, length pre) = Some ((pre @ bs) @ drop (length bs) rest, length (pre @ bs))"
  using put_bytes_exact [of "length pre" bs "pre @ rest"] by simp

text \<open>Exactly the octets that were allocated are written.\<close>

lemma create_name:
  assumes item: "0 \<notin> set s" "0x2f \<notin> set s" "length s \<le> 62" and fc: "FunctionalConstraint_toString fc = Some f" "fc \<noteq> IEC61850_FC_NONE"
    and f: "length (take 2 f) = 2" and heap: "\<And>n. length (heap n) = n"
  shows "MmsMapping_createMmsVariableNameFromObjectReference heap (s @ 0 # r) fc None
    = Some (Some (c_str (render f False s @ (if 0x2e \<in> set s then [] else 0x24 # take 2 f))))"
proof -
  let ?n = "length s" and ?t = "render f False s @ (if 0x2e \<in> set s then [] else 0x24 # take 2 f)"
  have len: "length ?t = ?n + 3" using length_render [OF f, of False s] f by auto
  define h where "h = heap (?n + 4)"
  have h: "length h = length (?t @ [0])" unfolding h_def heap using len by simp
  have "put_bytes (?t @ [0]) (h, 0) = Some (?t @ [0], length (?t @ [0]))"
    using put_bytes_exact [of 0 "?t @ [0]" h] h by simp
  then have run: "put_bytes (render f False s) (h, 0) \<bind>
      (\<lambda>c. (if 0x2e \<in> set s then Some c else put_bytes (0x24 # take 2 f) c) \<bind> put 0) = Some (?t @ [0], length (?t @ [0]))"
    by (cases "0x2e \<in> set s") (simp_all add: put_fun)
  have n: "nat (int ?n - int 0 - 1 + 5) = ?n + 4" by simp
  have chain: "do {
      (fcAdded, c) \<leftarrow> name_loop f s False (h, 0);
      c \<leftarrow> (if fcAdded then Some c else put_bytes (0x24 # take 2 f) c);
      (name, _) \<leftarrow> put 0 c;
      Some (Some name) } = Some (Some (?t @ [0]))"
  proof -
    obtain c1 c2 where c: "put_bytes (render f False s) (h, 0) = Some c1"
        "(if 0x2e \<in> set s then Some c1 else put_bytes (0x24 # take 2 f) c1) = Some c2" "put 0 c2 = Some (?t @ [0], length (?t @ [0]))"
      using run unfolding bind_eq_Some_conv by blast
    have "name_loop f s False (h, 0) = Some (0x2e \<in> set s, c1)" by (simp add: name_loop_render c(1))
    then show ?thesis using c(2,3) by simp
  qed
  have "strlen (s @ 0 # r) = Some ?n" by (rule strlen_append_zero [OF item(1)])
  then show ?thesis
    using item(3) fc find_slash_none [OF item(2), of "0 # r"] chain
    unfolding MmsMapping_createMmsVariableNameFromObjectReference_def
    by (simp only: Let_def bind.bind_lunit if_True if_False option.case refl n h_def [symmetric]) (simp add: c_str_def n h_def [symmetric])
qed

section \<open>Well-formed references\<close>

text \<open>An array index may have a component of the element behind it.\<close>

definition index_text :: "(nat \<times> byte list option) option \<Rightarrow> byte list" where
  "index_text tail = (case tail of None \<Rightarrow> []
     | Some (n, part) \<Rightarrow> 0x28 # to_string n @ 0x29 # (case part of None \<Rightarrow> [] | Some s \<Rightarrow> 0x2e # s))"

definition object_reference :: "byte list \<Rightarrow> byte list \<Rightarrow> (nat \<times> byte list option) option \<Rightarrow> byte list \<Rightarrow> byte list" where
  "object_reference dev item tail fcName = dev @ 0x2f # item @ index_text tail @ 0x5b # fcName @ [0x5d]"

definition reference_ok :: "byte list \<Rightarrow> byte list \<Rightarrow> (nat \<times> byte list option) option \<Rightarrow> bool" where
  "reference_ok dev item tail \<longleftrightarrow> length dev \<le> 64 \<and> length item \<le> 62 \<and> set dev \<inter> {0, 0x2f, 0x5b} = {} \<and>
     set item \<inter> {0, 0x2f, 0x5b, 0x28, 0x24} = {} \<and> 0x2e \<in> set item \<and>
     (case tail of None \<Rightarrow> True | Some (n, part) \<Rightarrow> n < 2 ^ 31 \<and>
        (case part of None \<Rightarrow> True | Some s \<Rightarrow> s \<noteq> [] \<and> set s \<inter> {0, 0x5b, 0x24} = {}))"

definition access_spec ::
    "byte list \<Rightarrow> byte list \<Rightarrow> (nat \<times> byte list option) option \<Rightarrow> byte list \<Rightarrow> MmsVariableAccessSpecification" where
  "access_spec dev item tail fcName = \<lparr>va_domainId = c_str dev, va_itemId = Some (c_str (render fcName False item)),
     va_arrayIndex = (case tail of None \<Rightarrow> - 1 | Some (n, _) \<Rightarrow> int n),
     va_componentName = (case tail of None \<Rightarrow> None | Some (_, part) \<Rightarrow> map_option (\<lambda>s. c_str (map dot_to_dollar s)) part)\<rparr>"

text \<open>Names of functional constraints.\<close>

lemma constraint_name:
  assumes "FunctionalConstraint_toString fc = Some f"
  shows "f = take 2 f @ [0]" and "length (take 2 f) = 2" and "set (take 2 f) \<inter> {0, 0x5d, 0x28, 0x24} = {}"
    and "FunctionalConstraint_fromString (take 2 f @ r) = Some fc" and "fc \<noteq> IEC61850_FC_NONE"
proof -
  have "case FunctionalConstraint_toString fc of None \<Rightarrow> True | Some f \<Rightarrow> f = take 2 f @ [0] \<and> length (take 2 f) = 2 \<and>
      list_all (\<lambda>c. c \<noteq> 0 \<and> c \<noteq> 0x5d \<and> c \<noteq> 0x28 \<and> c \<noteq> 0x24) (take 2 f) \<and> fc \<noteq> IEC61850_FC_NONE \<and>
      FunctionalConstraint_fromString (take 2 f @ r) = Some fc"
    by (cases fc)
      (simp_all add: FunctionalConstraint_fromString_def second_char_def rd_def Iec61850_Common.ascii_def c_str_def)
  then show "f = take 2 f @ [0]" and "length (take 2 f) = 2" and "set (take 2 f) \<inter> {0, 0x5d, 0x28, 0x24} = {}"
    and "FunctionalConstraint_fromString (take 2 f @ r) = Some fc" and "fc \<noteq> IEC61850_FC_NONE"
    unfolding assms option.case by (auto simp: list_all_iff)
qed

lemma digits_chars: "set (to_string n) \<inter> {0, 0x5b, 0x29, 0x28, 0x2e, 0x24} = {}"
  using to_string_correct(2) [of n] by (auto simp: list_all_iff is_digit_def)

lemma index_text_chars:
  assumes "reference_ok dev item tail"
  shows "0 \<notin> set (index_text tail)" and "0x5b \<notin> set (index_text tail)"
  using assms digits_chars by (auto simp: reference_ok_def index_text_def split: option.splits prod.splits)

lemma strchr_at: "s = t @ c # r \<Longrightarrow> c \<notin> set t \<Longrightarrow> 0 \<notin> set t \<Longrightarrow> strchr s c = Some (Some (length t))"
  using strchr_found by blast

lemma strchr_none: "s = t @ 0 # r \<Longrightarrow> c \<notin> set t \<Longrightarrow> 0 \<notin> set t \<Longrightarrow> c \<noteq> 0 \<Longrightarrow> strchr s c = Some None"
  using strchr_absent by blast

lemma drop_at: "s = t @ r \<Longrightarrow> length t = n \<Longrightarrow> drop n s = r"
  by auto

lemma replace_all: "0 \<notin> set s \<Longrightarrow> StringUtils_replace (c_str s) 0x2e 0x24 = Some (c_str (map dot_to_dollar s))"
  by (simp add: StringUtils_replace_def) (simp add: c_str_def dot_to_dollar_def)

lemma add_index_reads:
  assumes ref: "ref = pre @ to_string n @ 0x29 # (case part of None \<Rightarrow> [] | Some s \<Rightarrow> 0x2e # s) @ 0x5b # F @ [0x5d, 0]"
    and n: "n < 2 ^ 31" and F: "length F = 2"
    and part: "case part of None \<Rightarrow> True | Some s \<Rightarrow> s \<noteq> [] \<and> set s \<inter> {0, 0x5b, 0x24} = {}"
    and m: "Suc m = length ref"
  shows "add_index ref m (length pre) spec = Some (spec\<lparr>va_arrayIndex := int n,
    va_componentName := (case part of None \<Rightarrow> va_componentName spec | Some s \<Rightarrow> Some (c_str (map dot_to_dollar s)))\<rparr>)"
proof -
  let ?d = "to_string n"
  let ?r = "0x29 # (case part of None \<Rightarrow> [] | Some s \<Rightarrow> 0x2e # s) @ 0x5b # F @ [0x5d, 0]"
  have dr: "drop (length pre) ref = ?d @ ?r" by (rule drop_at [OF ref]) simp
  have sc: "strchr (?d @ ?r) 0x29 = Some (Some (length ?d))" by (rule strchr_found) (use digits_chars [of n] in auto)
  have di: "StringUtils_digitsToInt (?d @ ?r) (int (length ?d)) = Some (int n)" by (rule digitsToInt_to_string [OF n])
  show ?thesis
  proof (cases part)
    case None
    have "\<not> 0 < int m - int (length pre + length ?d + 2) - 4" using F None m by (simp add: ref)
    then show ?thesis using dr sc di None unfolding add_index_def by (simp add: Let_def)
  next
    case (Some s)
    have s: "s \<noteq> []" "0 \<notin> set s" using part Some by auto
    have len: "int m = int (length pre + length ?d) + 6 + int (length s)" using F Some m by (simp add: ref)
    have "drop (length pre + length ?d + 2) ref = s @ 0x5b # F @ [0x5d, 0]"
      by (rule drop_at [of _ "pre @ ?d @ [0x29, 0x2e]"]) (simp_all add: ref Some)
    then have "StringUtils_createStringFromBuffer (drop (length pre + length ?d + 2) ref) (int (length s)) = Some (c_str s)"
      by (simp add: StringUtils_createStringFromBuffer_def rd_bytes_def c_str_def)
    then show ?thesis
      using dr sc di s replace_all [OF s(2)] Some unfolding add_index_def by (simp add: Let_def len)
  qed
qed

text \<open>A well-formed reference gives its access specification.\<close>

lemma reference_to_spec:
  assumes ok: "reference_ok dev item tail" and fc: "FunctionalConstraint_toString fc = Some f"
    and heap: "\<And>n. length (heap n) = n"
  shows "MmsMapping_ObjectReferenceToVariableAccessSpec heap (c_str (object_reference dev item tail (take 2 f)))
    = Some (Some (access_spec dev item tail f))"
proof -
  let ?F = "take 2 f" and ?I = "index_text tail"
  note name = constraint_name [OF fc]
  define ref where "ref = c_str (object_reference dev item tail ?F)"
  have ref: "ref = dev @ 0x2f # item @ ?I @ 0x5b # ?F @ [0x5d, 0]"
    by (simp add: ref_def c_str_def object_reference_def)
  have cs: "set dev \<inter> {0, 0x2f, 0x5b} = {}" "set item \<inter> {0, 0x2f, 0x5b, 0x28, 0x24} = {}" "length dev \<le> 64"
      "length item \<le> 62" "0x2e \<in> set item"
    using ok by (auto simp: reference_ok_def)
  note ic = index_text_chars [OF ok]
  let ?P = "dev @ 0x2f # item @ ?I"
  have slash: "strchr ref 0x2f = Some (Some (length dev))" by (rule strchr_at [OF ref]) (use cs(1) in auto)
  have start: "strchr ref 0x5b = Some (Some (length ?P))"
    by (rule strchr_at [of _ ?P _ "?F @ [0x5d, 0]"]) (use cs(1,2) ic in \<open>auto simp: ref\<close>)
  have dP: "drop (length ?P) ref = 0x5b # ?F @ [0x5d, 0]" by (rule drop_at [of _ ?P]) (simp_all add: ref)
  have "strchr (0x5b # ?F @ [0x5d, 0]) 0x5d = Some (Some (length (0x5b # ?F)))"
    by (rule strchr_at) (use name(3) in auto)
  then have stop: "strchr (drop (length ?P) ref) 0x5d = Some (Some 3)" unfolding dP using name(2) by simp
  have "drop (length ?P + 1) ref = ?F @ [0x5d, 0]" by (rule drop_at [of _ "?P @ [0x5b]"]) (simp_all add: ref)
  then have fcv: "FunctionalConstraint_fromString (drop (length ?P + 1) ref) = Some fc" using name(4) by simp
  have domain: "StringUtils_createStringFromBuffer ref (int (length dev)) = Some (c_str dev)"
    by (simp add: StringUtils_createStringFromBuffer_def rd_bytes_def ref c_str_def)
  have dD: "drop (length dev) ref = 0x2f # item @ ?I @ 0x5b # ?F @ [0x5d, 0]" by (rule drop_at [OF ref]) simp
  have brace: "strchr (drop (length dev) ref) 0x28 = Some (if tail = None then None else Some (length item + 1))"
  proof (cases tail)
    case None
    then show ?thesis unfolding dD
      by (subst strchr_none [of _ "0x2f # item @ 0x5b # ?F @ [0x5d]"]) (use cs(2) name(3) in \<open>auto simp: index_text_def\<close>)
  next
    case (Some p)
    then show ?thesis unfolding dD
      by (cases p) (subst strchr_at [of _ "0x2f # item"], use cs(2) in \<open>auto simp: index_text_def\<close>)
  qed
  have item_end: "strchr (drop (length dev) ref) 0x5b = Some (Some (length item + 1))" if "tail = None"
    unfolding dD using that cs(2) by (subst strchr_at [of _ "0x2f # item"]) (auto simp: index_text_def)
  have len: "strlen ref = Some (length ?P + 4)"
    using strlen_append_zero [of "?P @ 0x5b # ?F @ [0x5d]" "[]"] cs(1,2) ic name(2,3) by (simp add: ref)
  have item_str: "rd_bytes (drop (length dev + 1) ref) 0 (int (length item)) = Some item"
    using drop_at [of ref "dev @ [0x2f]" _ "length dev + 1"] by (simp add: ref rd_bytes_def)
  have nm: "MmsMapping_createMmsVariableNameFromObjectReference heap (item @ [0]) fc None
      = Some (Some (c_str (render f False item)))"
    using create_name [of item fc f heap "[]"] cs fc name(2,5) heap by auto
  let ?spec = "\<lparr>va_domainId = c_str dev, va_itemId = None, va_arrayIndex = - 1, va_componentName = None\<rparr>"
  have add: "add_item heap ref (length ?P + 4) (length dev) fc (if tail = None then None else Some (length item + 1))
      (length item + 1) ?spec = Some (access_spec dev item tail f)"
  proof (cases tail)
    case None
    then show ?thesis
      using item_str nm cs(4) by (simp add: add_item_def access_spec_def Let_def)
  next
    case (Some p)
    obtain n part where p: "p = (n, part)" by fastforce
    have n: "n < 2 ^ 31" "case part of None \<Rightarrow> True | Some s \<Rightarrow> s \<noteq> [] \<and> set s \<inter> {0, 0x5b, 0x24} = {}"
      using ok by (auto simp: reference_ok_def Some p)
    have m: "Suc (length ?P + 4) = length ref" using name(2) by (simp add: ref)
    have "ref = (dev @ 0x2f # item @ [0x28]) @ to_string n
        @ 0x29 # (case part of None \<Rightarrow> [] | Some s \<Rightarrow> 0x2e # s) @ 0x5b # ?F @ [0x5d, 0]"
      by (simp add: ref index_text_def Some p)
    from add_index_reads [OF this n(1) name(2) n(2) m, of "?spec\<lparr>va_itemId := Some (c_str (render f False item))\<rparr>"]
    show ?thesis
      using item_str nm cs(4) by (cases part) (simp_all add: add_item_def access_spec_def Let_def Some p)
  qed
  show ?thesis
    unfolding ref_def [symmetric] MmsMapping_ObjectReferenceToVariableAccessSpec_def
    using slash start stop fcv domain brace item_end len add cs(3)
    by (cases "tail = None") (simp_all add: Let_def)
qed

section \<open>Back to a reference\<close>

lemma digits_of_length: "digits_of (int n) k = k + int (length (to_string n)) - 1"
proof (induction n arbitrary: k rule: to_string.induct)
  case (1 n)
  show ?case
  proof (cases "n < 10")
    case True
    then show ?thesis by (subst digits_of.simps) (simp add: to_string.simps [of n])
  next
    case False
    then have "digits_of (int n) k = digits_of (int (n div 10)) (k + 1)" by (subst digits_of.simps) (simp add: zdiv_int)
    then show ?thesis using 1 [OF False, of "k + 1"] False by (simp add: to_string.simps [of n])
  qed
qed

lemma dollar_dot: "0x24 \<notin> set s \<Longrightarrow> map dollar_to_dot (map dot_to_dollar s) = s"
  by (induction s) (auto simp: dollar_to_dot_def dot_to_dollar_def)

text \<open>The terminator that \<open>sprintf\<close> writes needs room.\<close>

lemma put_index_step:
  assumes "length (0x28 # to_string n @ [0x29]) < length rest"
  obtains rest' where "put_index (int n) (pre @ rest, length pre)
      = Some ((pre @ 0x28 # to_string n @ [0x29]) @ rest', length (pre @ 0x28 # to_string n @ [0x29]))"
    and "length rest' + length (0x28 # to_string n @ [0x29]) = length rest"
proof -
  let ?t = "0x28 # to_string n @ [0x29 :: byte]"
  have "put_bytes (?t @ [0]) (pre @ rest, length pre)
      = Some ((pre @ ?t @ [0]) @ drop (length (?t @ [0])) rest, length (pre @ ?t @ [0]))"
    by (rule put_step) (use assms in simp)
  then have "put_index (int n) (pre @ rest, length pre) = Some ((pre @ ?t) @ 0 # drop (length (?t @ [0])) rest, length (pre @ ?t))"
    using digits_of_length [of n 1] by (simp add: put_index_def getNumberOfDigits_def)
  then show thesis by (rule that) (use assms in simp)
qed

lemma take_all_but: "length s = n \<Longrightarrow> take n (s @ r) = s"
  by simp

lemma put_join: "put_bytes a c \<bind> (\<lambda>c. put_bytes b c \<bind> g) = put_bytes (a @ b) c \<bind> g"
  by (simp add: put_fun)

lemma two_octets: "length l = 2 \<Longrightarrow> \<exists>a b. l = [a, b]"
  by (auto simp: length_Suc_conv numeral_2_eq_2)

lemma spec_to_reference:
  assumes ok: "reference_ok dev item tail" and fc: "FunctionalConstraint_toString fc = Some f"
    and heap: "\<And>n. length (heap n) = n"
  shows "\<exists>rest. MmsMapping_varAccessSpecToObjectReference heap (access_spec dev item tail f)
    = Some (c_str (object_reference dev item tail (take 2 f)) @ rest)"
proof -
  let ?F = "take 2 f" and ?I = "index_text tail"
  note name = constraint_name [OF fc]
  obtain x y where xy: "item = x @ 0x2e # y" "0x2e \<notin> set x"
    using ok split_list_first [of "0x2e" item] by (auto simp: reference_ok_def)
  have cs: "set dev \<inter> {0, 0x2f, 0x5b} = {}" "set item \<inter> {0, 0x2f, 0x5b, 0x28, 0x24} = {}" using ok by (auto simp: reference_ok_def)
  let ?y = "map dot_to_dollar y"
  have r: "render f False item = x @ 0x24 # ?F @ 0x24 # ?y" unfolding xy(1) by (rule render_name [OF xy(2)])
  have y0: "0 \<notin> set ?y" "0 \<notin> set x" "0x24 \<notin> set x" "0x24 \<notin> set y" using cs(2) by (auto simp: xy dot_to_dollar_def split: if_splits)
  let ?id = "c_str (render f False item)"
  have il: "strlen ?id = Some (length x + 4 + length y)"
    using strlen_c_str [of "render f False item"] y0 name(2,3) by (auto simp: r)
  have sep: "strchr ?id 0x24 = Some (Some (length x))"
    by (rule strchr_at [of _ x _ "?F @ 0x24 # ?y @ [0]"]) (use y0 in \<open>simp_all add: r c_str_def\<close>)
  have before: "take (length x) ?id = x" by (simp add: r c_str_def)
  obtain a b where F: "?F = [a, b]" using two_octets [OF name(2)] by blast
  have id: "?id = (x @ [0x24, a, b, 0x24]) @ ?y @ [0]" by (simp add: r c_str_def F)
  have "take (length x + 4 + length y) ?id = (x @ [0x24, a, b, 0x24]) @ ?y"
    unfolding id by (subst append_assoc [symmetric]) (rule take_all_but, simp)
  then have after: "map dollar_to_dot (drop (length x + 4) (take (length x + 4 + length y) ?id)) = y"
    using dollar_dot [OF y0(4)] by simp
  have fc01: "rd ?id (int (length x + 1)) = Some a" "rd ?id (int (length x + 2)) = Some b"
    by (auto simp: r c_str_def F rd_def nth_append)
  define dl where "dl = length dev"
  have dlen: "strlen (c_str dev) = Some dl" using cs(1) by (simp add: dl_def)
  have dtake: "take dl (c_str dev) = dev" by (simp add: dl_def c_str_def)
  let ?A = "dev @ 0x2f # item" and ?B = "[0x5b, a, b, 0x5d]"
  have head: "put_bytes dev c \<bind> (\<lambda>c. put 0x2f c \<bind> (\<lambda>c. put_bytes x c \<bind> (\<lambda>c. put 0x2e c \<bind> (\<lambda>c. put_bytes y c \<bind> g))))
      = put_bytes ?A c \<bind> g" for c and g :: "cursor \<Rightarrow> byte list option"
    by (simp add: xy(1) put_fun)
  have tail: "put_bytes ?B c \<bind> (\<lambda>c. put 0 c \<bind> (\<lambda>(s, _). Some s)) = put_bytes (?B @ [0]) c \<bind> (\<lambda>(s, _). Some s)" for c
    by (simp add: put_fun)
  have res: "c_str (object_reference dev item tail ?F) = ?A @ ?I @ ?B @ [0]" by (simp add: object_reference_def c_str_def F)
  have il2: "length item = length x + 1 + length y" by (simp add: xy(1))
  have idx: "va_arrayIndex (access_spec dev item tail f) = (case tail of None \<Rightarrow> - 1 | Some (n, _) \<Rightarrow> int n)"
    by (simp add: access_spec_def)
  show ?thesis
  proof (cases tail)
    case None
    let ?N = "nat (int dl + 1 + (int (length x + 4 + length y) - 2) + 0 + 4 + int 0 + 1)"
    have N: "length (heap ?N) = length (?A @ ?B @ [0]) + 1" unfolding heap by (simp add: dl_def il2)
    have w: "put_bytes (?A @ ?B @ [0]) (heap ?N, 0) = Some ((?A @ ?B @ [0]) @ drop (length (?A @ ?B @ [0])) (heap ?N), length (?A @ ?B @ [0]))"
      using put_step [of "?A @ ?B @ [0]" "heap ?N" "[]"] N by simp
    have "MmsMapping_varAccessSpecToObjectReference heap (access_spec dev item tail f)
        = put_bytes ?A (heap ?N, 0) \<bind> (\<lambda>c. put_bytes ?B c \<bind> (\<lambda>c. put 0 c \<bind> (\<lambda>(s, _). Some s)))"
      unfolding head [symmetric] MmsMapping_varAccessSpecToObjectReference_def
      using dlen il sep before after fc01 dtake
      by (simp add: access_spec_def None put_index_def Let_def del: put_bytes.simps)
    then show ?thesis unfolding tail put_join w res by (simp add: index_text_def None)
  next
    case (Some p)
    obtain n part where p: "p = (n, part)" by fastforce
    let ?C = "case part of None \<Rightarrow> [] | Some s \<Rightarrow> 0x2e # s" and ?D = "0x28 # to_string n @ [0x29]"
    define N where "N = nat (int dl + 1 + (int (length x + 4 + length y) - 2) + (2 + getNumberOfDigits (int n)) + 4
      + int (case part of None \<Rightarrow> 0 | Some s \<Rightarrow> length s) + 1)"
    have N: "length (heap N) = length (?A @ ?D @ ?B @ [0]) + 1 + (case part of None \<Rightarrow> 0 | Some s \<Rightarrow> length s)"
      unfolding heap N_def getNumberOfDigits_def digits_of_length by (simp add: dl_def il2)
    have w1: "put_bytes ?A (heap N, 0) = Some (?A @ drop (length ?A) (heap N), length ?A)"
      using put_step [of ?A "heap N" "[]"] N by simp
    have "length ?D < length (drop (length ?A) (heap N))" using N by simp
    then obtain rest' where w2: "put_index (int n) (?A @ drop (length ?A) (heap N), length ?A)
        = Some ((?A @ ?D) @ rest', length (?A @ ?D))" "length rest' + length ?D = length (drop (length ?A) (heap N))"
      by (rule put_index_step)
    have "length (?C @ ?B @ [0]) \<le> length rest'" using w2(2) N by (simp split: option.splits)
    from put_step [OF this, of "?A @ ?D"]
    have w3: "put_bytes (?C @ ?B @ [0]) ((?A @ ?D) @ rest', length (?A @ ?D))
        = Some (((?A @ ?D) @ ?C @ ?B @ [0]) @ drop (length (?C @ ?B @ [0])) rest', length ((?A @ ?D) @ ?C @ ?B @ [0]))"
      by simp
    have part: "strlen (c_str (map dot_to_dollar s)) = Some (length s) \<and>
        map dollar_to_dot (take (length s) (c_str (map dot_to_dollar s))) = s" if "part = Some s" for s
    proof -
      have "0 \<notin> set s" "0x24 \<notin> set s" using ok that by (auto simp: reference_ok_def Some p)
      then have "0 \<notin> set (map dot_to_dollar s)" "0x24 \<notin> set s" by (auto simp: dot_to_dollar_def split: if_splits)
      then show ?thesis using dollar_dot [of s] strlen_c_str [of "map dot_to_dollar s"] by (auto simp: c_str_def)
    qed
    let ?puts = "case part of None \<Rightarrow> Some | Some s \<Rightarrow> (\<lambda>c. put 0x2e c \<bind> put_bytes s)"
    have "MmsMapping_varAccessSpecToObjectReference heap (access_spec dev item tail f)
        = put_bytes ?A (heap N, 0) \<bind> (\<lambda>c. put_index (int n) c \<bind> (\<lambda>c. ?puts c \<bind> (\<lambda>c. put_bytes ?B c \<bind>
            (\<lambda>c. put 0 c \<bind> (\<lambda>(s, _). Some s)))))"
      unfolding head [symmetric] MmsMapping_varAccessSpecToObjectReference_def N_def
      using dlen il sep before after fc01 dtake part
      by (cases part) (simp_all add: access_spec_def Some p Let_def del: put_bytes.simps)
    also have "\<dots> = ?puts ((?A @ ?D) @ rest', length (?A @ ?D)) \<bind> (\<lambda>c. put_bytes (?B @ [0]) c \<bind> (\<lambda>(s, _). Some s))"
      unfolding tail w1 bind.bind_lunit w2(1) ..
    also have "\<dots> = put_bytes ?C ((?A @ ?D) @ rest', length (?A @ ?D)) \<bind> (\<lambda>c. put_bytes (?B @ [0]) c \<bind> (\<lambda>(s, _). Some s))"
      by (cases part) simp_all
    also have "\<dots> = Some (((?A @ ?D) @ ?C @ ?B @ [0]) @ drop (length (?C @ ?B @ [0])) rest')"
      unfolding put_join w3 by simp
    finally show ?thesis unfolding res by (simp add: index_text_def Some p)
  qed
qed

section \<open>The round trip\<close>

text \<open>C18. An object reference of a device, an item that has a dot, and optionally an array index and a component of the
  element, with a functional constraint, becomes an access specification that holds the device as domain, the item with the
  constraint behind its first part and dollar signs for the dots, the index and the component; the specification gives the
  same reference back, in a block that may be an octet longer than needed. Every write is within the allocated block.\<close>

theorem object_reference_roundtrip:
  assumes "reference_ok dev item tail" and "FunctionalConstraint_toString fc = Some f" and "\<And>n. length (heap n) = n"
  shows "MmsMapping_ObjectReferenceToVariableAccessSpec heap (c_str (object_reference dev item tail (take 2 f)))
      = Some (Some (access_spec dev item tail f)) \<and>
    (\<exists>rest. MmsMapping_varAccessSpecToObjectReference heap (access_spec dev item tail f)
      = Some (c_str (object_reference dev item tail (take 2 f)) @ rest))"
  using reference_to_spec [OF assms] spec_to_reference [OF assms] by simp

text \<open>The reference \<open>LD/LN.A(12).mag.f[MX]\<close>.\<close>

theorem object_reference_roundtrip_witness:
  "MmsMapping_ObjectReferenceToVariableAccessSpec (\<lambda>n. replicate n 7)
      (c_str (object_reference [0x4c, 0x44] [0x4c, 0x4e, 0x2e, 0x41] (Some (12, Some [0x6d, 0x61, 0x67, 0x2e, 0x66])) [0x4d, 0x58]))
    = Some (Some \<lparr>va_domainId = [0x4c, 0x44, 0], va_itemId = Some [0x4c, 0x4e, 0x24, 0x4d, 0x58, 0x24, 0x41, 0],
        va_arrayIndex = 12, va_componentName = Some [0x6d, 0x61, 0x67, 0x24, 0x66, 0]\<rparr>)"
proof -
  have "FunctionalConstraint_toString IEC61850_FC_MX = Some [0x4d, 0x58, 0]"
    by (simp add: Iec61850_Common.ascii_def c_str_def)
  from object_reference_roundtrip [OF _ this, of "[0x4c, 0x44]" "[0x4c, 0x4e, 0x2e, 0x41]"
    "Some (12, Some [0x6d, 0x61, 0x67, 0x2e, 0x66])" "\<lambda>n. replicate n 7"]
  show ?thesis by (simp add: reference_ok_def access_spec_def c_str_def dot_to_dollar_def)
qed

text \<open>An item without a dot does not come back: the reference gets a dot behind it.\<close>

lemma reference_without_dot:
  "MmsMapping_ObjectReferenceToVariableAccessSpec (\<lambda>n. replicate n 7) [0x44, 0x2f, 0x4e, 0x5b, 0x4d, 0x58, 0x5d, 0]
    = Some (Some \<lparr>va_domainId = [0x44, 0], va_itemId = Some [0x4e, 0x24, 0x4d, 0x58, 0],
        va_arrayIndex = - 1, va_componentName = None\<rparr>)"
  "MmsMapping_varAccessSpecToObjectReference (\<lambda>n. replicate n 7)
      \<lparr>va_domainId = [0x44, 0], va_itemId = Some [0x4e, 0x24, 0x4d, 0x58, 0], va_arrayIndex = - 1, va_componentName = None\<rparr>
    = Some [0x44, 0x2f, 0x4e, 0x2e, 0x5b, 0x4d, 0x58, 0x5d, 0]"
  by code_simp+

end
