(* ===== verification/Ipv6_Text.thy ===== *)
theory Ipv6_Text
  imports Object_Reference
begin

text \<open>
  IPv6 addresses as text, the last two functions of \<open>src/common/string_utilities.cc\<close>. The local array of the token
  has 100 octets; the content of the local array of the blocks at the start is an argument.
\<close>

unbundle bit_operations_syntax

section \<open>The parser\<close>

definition nibble_of :: "byte \<Rightarrow> int option" where
  "nibble_of nibbleChar = (let c = sint nibbleChar in
     if 47 < c \<and> c < 58 then Some (c - 48)
     else if 96 < c \<and> c < 103 then Some (c - 87)
     else if 64 < c \<and> c < 71 then Some (c - 55)
     else None)"

fun nibble_loop :: "byte list \<Rightarrow> int \<Rightarrow> int option" where
  "nibble_loop [] acc = Some acc"
| "nibble_loop (c # s) acc = (case nibble_of c of None \<Rightarrow> None | Some nibble \<Rightarrow> nibble_loop s (acc * 16 + nibble))"

text \<open>\<open>None\<close> inside is the result \<open>false\<close>.\<close>

definition convertHexStrToUint16 :: "byte list \<Rightarrow> uint16 option option" where
  "convertHexStrToUint16 hexStr = do {
     strSize \<leftarrow> strlen hexStr;
     if 4 < strSize then Some None
     else Some (map_option word_of_int (nibble_loop (take strSize hexStr) 0)) }"

record ipv6_blocks =
  ib_blockCount :: nat
  ib_emptyBlockIndex :: nat
  ib_hasEmptyBlock :: bool
  ib_addrBlocks :: "uint16 list"

text \<open>The body of the loop up to the search for the next separator.\<close>

definition add_block :: "byte list \<Rightarrow> ipv6_blocks \<Rightarrow> ipv6_blocks option option" where
  "add_block tokenBuf st = do {
     n \<leftarrow> strlen tokenBuf;
     if n = 0
     then Some (if ib_hasEmptyBlock st then None
       else Some (st\<lparr>ib_hasEmptyBlock := True, ib_emptyBlockIndex := ib_blockCount st\<rparr>))
     else do {
       blockVal \<leftarrow> convertHexStrToUint16 tokenBuf;
       (case blockVal of None \<Rightarrow> Some None
        | Some v \<Rightarrow> if ib_blockCount st < length (ib_addrBlocks st)
            then Some (Some (st\<lparr>ib_addrBlocks := (ib_addrBlocks st)[ib_blockCount st := v],
              ib_blockCount := ib_blockCount st + 1\<rparr>))
            else None) } }"

text \<open>The separator behind a token: the next colon, or the terminator of the last token, which is marked by
  \<open>True\<close>; a text that ends behind a colon has none.\<close>

definition next_separator :: "byte list \<Rightarrow> (nat option \<times> bool) option" where
  "next_separator savePtr = do {
     sepPos \<leftarrow> strchr savePtr 0x3a;
     (case sepPos of Some p \<Rightarrow> Some (Some p, False)
      | None \<Rightarrow> do {
          c \<leftarrow> rd savePtr 0;
          if c \<noteq> 0 then do { n \<leftarrow> strchr savePtr 0; Some (n, True) } else Some (None, True) }) }"

lemma strchr_nonempty: "strchr s c = Some r \<Longrightarrow> 0 < length s"
  by (cases s) auto

function block_loop :: "byte list \<Rightarrow> nat option \<Rightarrow> bool \<Rightarrow> ipv6_blocks \<Rightarrow> ipv6_blocks option option" where
  "block_loop savePtr sepPos atEnd st = (case sepPos of None \<Rightarrow> Some (Some st)
   | Some p \<Rightarrow> do {
       token \<leftarrow> rd_bytes savePtr 0 (int p);
       tokenBuf \<leftarrow> (if p < 100 then Some (token @ [0]) else None);
       st \<leftarrow> add_block tokenBuf st;
       (case st of None \<Rightarrow> Some None
        | Some st \<Rightarrow>
            if ib_blockCount st = 8 then Some (Some st)
            else if atEnd then Some (Some st)
            else do {
              (sepPos, atEnd) \<leftarrow> next_separator (drop (p + 1) savePtr);
              block_loop (drop (p + 1) savePtr) sepPos atEnd st }) })"
  by pat_completeness auto

termination
  by (relation "measure (\<lambda>(s, _). length s)")
    (auto simp: next_separator_def bind_eq_Some_conv dest!: strchr_nonempty)

declare block_loop.simps [simp del]

text \<open>The zeros behind the blocks and the shift of the blocks behind the gap.\<close>

definition fill_gap :: "ipv6_blocks \<Rightarrow> ipv6_blocks" where
  "fill_gap st =
     (let shiftBlocks = ib_blockCount st - ib_emptyBlockIndex st; shift = 8 - ib_blockCount st; e = ib_emptyBlockIndex st;
          addrBlocks = fold (\<lambda>s a. a[s := 0]) [ib_blockCount st..<8] (ib_addrBlocks st);
          addrBlocks = fold (\<lambda>s a. (a[s + e + shift := a ! (s + e)])[s + e := 0]) [0..<shiftBlocks] addrBlocks
      in st\<lparr>ib_blockCount := max (ib_blockCount st) 8, ib_addrBlocks := addrBlocks\<rparr>)"

definition StringUtils_convertIPv6AdddressStringToByteArray ::
    "uint16 list \<Rightarrow> byte list \<Rightarrow> byte list \<Rightarrow> (bool \<times> byte list) option" where
  "StringUtils_convertIPv6AdddressStringToByteArray addrBlocks addressString ipV6Addr = do {
     sepPos \<leftarrow> strchr addressString 0x3a;
     st \<leftarrow> block_loop addressString sepPos False
       \<lparr>ib_blockCount = 0, ib_emptyBlockIndex = 0, ib_hasEmptyBlock = False, ib_addrBlocks = addrBlocks\<rparr>;
     (case st of None \<Rightarrow> Some (False, ipV6Addr)
      | Some st \<Rightarrow> do {
          let st = (if ib_hasEmptyBlock st then fill_gap st else st);
          if ib_blockCount st \<noteq> 8 then Some (False, ipV6Addr)
          else do {
            (ipV6Addr, _) \<leftarrow> put_bytes (concat (map (\<lambda>w. [ucast (w div 0x100), ucast (w AND 0xff)]) (ib_addrBlocks st))) (ipV6Addr, 0);
            Some (True, ipV6Addr) } }) }"

section \<open>Texts of tokens\<close>

definition hex_block :: "byte list \<Rightarrow> bool" where
  "hex_block t \<longleftrightarrow> t \<noteq> [] \<and> length t \<le> 4 \<and> list_all (\<lambda>c. nibble_of c \<noteq> None) t"

definition block_value :: "byte list \<Rightarrow> uint16" where
  "block_value t = word_of_int (foldl (\<lambda>a c. a * 16 + the (nibble_of c)) 0 t)"

lemma nibble_loop_value:
  "list_all (\<lambda>c. nibble_of c \<noteq> None) t \<Longrightarrow> nibble_loop t a = Some (foldl (\<lambda>a c. a * 16 + the (nibble_of c)) a t)"
  by (induction t arbitrary: a) auto

lemma hex_chars:
  assumes "hex_block t"
  shows "0 \<notin> set t" and "0x3a \<notin> set t"
proof -
  have "nibble_of 0 = None" "nibble_of 0x3a = None" by (simp_all add: nibble_of_def)
  then show "0 \<notin> set t" and "0x3a \<notin> set t" using assms by (auto simp: hex_block_def list_all_iff)
qed

lemma convert_block: "hex_block t \<Longrightarrow> convertHexStrToUint16 (t @ [0]) = Some (Some (block_value t))"
  using hex_chars(1) [of t] by (simp add: convertHexStrToUint16_def strlen_append_zero hex_block_def nibble_loop_value block_value_def)

text \<open>What a token does to the blocks: an empty one marks the gap.\<close>

definition add_token :: "byte list \<Rightarrow> ipv6_blocks \<Rightarrow> ipv6_blocks" where
  "add_token t st = (if t = [] then st\<lparr>ib_hasEmptyBlock := True, ib_emptyBlockIndex := ib_blockCount st\<rparr>
     else st\<lparr>ib_addrBlocks := (ib_addrBlocks st)[ib_blockCount st := block_value t], ib_blockCount := ib_blockCount st + 1\<rparr>)"

lemma add_block_token:
  assumes "t = [] \<and> \<not> ib_hasEmptyBlock st \<or> hex_block t \<and> ib_blockCount st < length (ib_addrBlocks st)"
  shows "add_block (t @ [0]) st = Some (Some (add_token t st))"
proof -
  have "0 \<notin> set t" using assms hex_chars by auto
  then have "strlen (t @ [0]) = Some (length t)" by (rule strlen_append_zero)
  then show ?thesis using assms convert_block [of t] by (auto simp: add_block_def add_token_def hex_block_def)
qed

text \<open>Tokens with a colon between them, and a colon behind an empty last one.\<close>

fun token_text :: "byte list list \<Rightarrow> byte list" where
  "token_text [] = []"
| "token_text [t] = (if t = [] then [0x3a] else t)"
| "token_text (t # u # ts) = t @ 0x3a # token_text (u # ts)"

definition token_ok :: "byte list \<Rightarrow> bool" where
  "token_ok t \<longleftrightarrow> t = [] \<or> hex_block t"

lemma token_chars: "token_ok t \<Longrightarrow> 0 \<notin> set t \<and> 0x3a \<notin> set t \<and> length t \<le> 4"
  using hex_chars [of t] by (auto simp: token_ok_def hex_block_def)

text \<open>The separator of the first token.\<close>

lemma separator_first:
  assumes "token_ok t"
  shows "next_separator (token_text (t # ts) @ 0 # r) = Some (Some (length t), ts = [] \<and> t \<noteq> [])"
proof (cases "ts = [] \<and> t \<noteq> []")
  case True
  have "strchr (t @ 0 # r) 0x3a = Some None" "strchr (t @ 0 # r) 0 = Some (Some (length t))"
    using token_chars [OF assms] by (simp_all add: strchr_absent strchr_found)
  moreover have "rd (t @ 0 # r) 0 = Some (hd t)" "hd t \<noteq> 0"
    using True token_chars [OF assms] by (auto simp: rd_def nth_append hd_conv_nth) (metis hd_in_set hd_conv_nth)
  ultimately show ?thesis using True by (simp add: next_separator_def)
next
  case False
  obtain q where "token_text (t # ts) = t @ 0x3a # q" using False by (cases ts) auto
  then have "strchr (token_text (t # ts) @ 0 # r) 0x3a = Some (Some (length t))"
    using strchr_found [of "0x3a" t] token_chars [OF assms] by simp
  then show ?thesis using False by (auto simp: next_separator_def)
qed

text \<open>At most eight blocks and one gap are read; the last token does not count for the gap when it is a block.\<close>

lemma block_loop_tokens:
  "list_all token_ok (t # ts) \<Longrightarrow> length (filter (\<lambda>t. t \<noteq> []) (t # ts)) + ib_blockCount st \<le> (if last (t # ts) = [] then 7 else 8) \<Longrightarrow>
   length (filter (\<lambda>t. t = []) (t # ts)) + (if ib_hasEmptyBlock st then 1 else 0) \<le> 1 \<Longrightarrow> length (ib_addrBlocks st) = 8 \<Longrightarrow>
   block_loop (token_text (t # ts) @ 0 # r) (Some (length t)) (ts = [] \<and> t \<noteq> []) st = Some (Some (fold add_token (t # ts) st))"
proof (induction ts arbitrary: t st)
  case Nil
  have tok: "token_ok t" using Nil.prems by simp
  have room: "ib_blockCount st < 8" using Nil.prems(2) by (auto split: if_splits)
  have add: "add_block (t @ [0]) st = Some (Some (add_token t st))"
    by (rule add_block_token) (use tok room Nil.prems in \<open>auto simp: token_ok_def split: if_splits\<close>)
  have len: "length t < 100" using token_chars [OF tok] by simp
  show ?case
  proof (cases "t = []")
    case True
    have "next_separator (0 # r) = Some (None, True)" by (simp add: next_separator_def rd_def)
    then show ?thesis
      using add True room by (simp add: block_loop.simps [of "0x3a # _"] block_loop.simps [of "0 # _"] rd_bytes_def add_token_def)
  next
    case False
    then show ?thesis using add len by (subst block_loop.simps) (simp add: rd_bytes_def)
  qed
next
  case (Cons u ts)
  have tok: "token_ok t" "token_ok u" using Cons.prems by simp_all
  have len: "length t < 100" using token_chars [OF tok(1)] by simp
  let ?s = "token_text (u # ts) @ 0 # r"
  define N where "N = length (filter (\<lambda>t. t \<noteq> []) (u # ts))"
  have "last (u # ts) \<in> set (filter (\<lambda>t. t \<noteq> []) (u # ts))" if "last (u # ts) \<noteq> []"
    using that last_in_set [of "u # ts"] by (simp only: set_filter) blast
  then have "0 < N" if "last (u # ts) \<noteq> []" using that length_pos_if_in_set unfolding N_def by metis
  moreover have "length (filter (\<lambda>t. t \<noteq> []) [t]) + N + ib_blockCount st \<le> (if last (u # ts) = [] then 7 else 8)"
    using Cons.prems(2) by (simp add: N_def split: if_splits)
  ultimately have less: "length (filter (\<lambda>t. t \<noteq> []) [t]) + ib_blockCount st < 8"
    by (cases "last (u # ts) = []") (simp_all split: if_splits)
  have add: "add_block (t @ [0]) st = Some (Some (add_token t st))"
    by (rule add_block_token) (use tok less Cons.prems in \<open>auto simp: token_ok_def split: if_splits\<close>)
  have IH: "block_loop ?s (Some (length u)) (ts = [] \<and> u \<noteq> []) (add_token t st) = Some (Some (fold add_token (u # ts) (add_token t st)))"
    by (rule Cons.IH) (use Cons.prems in \<open>auto simp: add_token_def split: if_splits\<close>)
  have "ib_blockCount (add_token t st) < 8" using less by (auto simp: add_token_def split: if_splits)
  then show ?case
    using add len separator_first [OF tok(2), of ts r] IH by (subst block_loop.simps) (simp add: rd_bytes_def)
qed

section \<open>Blocks and the gap\<close>

lemma fold_blocks:
  "list_all hex_block ts \<Longrightarrow> ib_blockCount st = length xs \<Longrightarrow> ib_addrBlocks st = xs @ ys \<Longrightarrow> length ts \<le> length ys \<Longrightarrow>
   fold add_token ts st = st\<lparr>ib_addrBlocks := xs @ map block_value ts @ drop (length ts) ys,
     ib_blockCount := length xs + length ts\<rparr>"
proof (induction ts arbitrary: st xs ys)
  case (Cons t ts)
  obtain y ys' where ys: "ys = y # ys'" using Cons.prems(4) by (cases ys) auto
  have "t \<noteq> []" using Cons.prems(1) by (simp add: hex_block_def)
  then have t: "add_token t st = st\<lparr>ib_addrBlocks := (xs @ [block_value t]) @ ys', ib_blockCount := length xs + 1\<rparr>"
    using Cons.prems by (simp add: add_token_def ys list_update_append)
  show ?case
    using Cons.IH [of "add_token t st" "xs @ [block_value t]" ys'] Cons.prems by (simp add: t ys)
qed simp

lemma shift_nth:
  "m \<le> k \<Longrightarrow> e + k + m \<le> length a \<Longrightarrow> i < length a \<Longrightarrow>
   fold (\<lambda>s a. (a[s + e + k := a ! (s + e)])[s + e := 0]) [0..<m] a ! i
     = (if e \<le> i \<and> i < e + m then 0 else if e + k \<le> i \<and> i < e + k + m then a ! (i - k) else a ! i)"
  and length_shift: "length (fold (\<lambda>s a. (a[s + e + k := a ! (s + e)])[s + e := 0]) [0..<m] a) = length a"
proof (induction m arbitrary: i)
  case (Suc m)
  { case 1
    let ?b = "fold (\<lambda>s a. (a[s + e + k := a ! (s + e)])[s + e := 0]) [0..<m] a"
    have "?b ! (m + e) = a ! (m + e)" using Suc.IH(1) [of "m + e"] 1 by simp
    then show ?case using Suc.IH(1) [of i] Suc.IH(2) 1 by (auto simp: nth_list_update) }
  { case 2 show ?case using Suc.IH(2) by simp }
qed auto

lemma fill_zero: "n \<le> length a \<Longrightarrow> fold (\<lambda>s a. a[s := 0]) [n..<n + k] (take n a @ b) = take n a @ replicate (min k (length b)) 0 @ drop k b"
  for a b :: "uint16 list"
proof (induction k)
  case (Suc k)
  have "drop k b = b ! k # drop (Suc k) b" if "k < length b" using that by (simp add: Cons_nth_drop_Suc)
  then show ?case using Suc
    by (cases "k < length b") (auto simp: list_update_append list_update_beyond min_def replicate_append_same [symmetric] simp del: replicate_append_same)
qed simp

text \<open>The blocks behind the gap move to the end when there is room for all of them behind their old places.\<close>

lemma fill_gap_moves:
  assumes "ib_addrBlocks st = H @ T @ rest" and "length (ib_addrBlocks st) = 8" and "ib_blockCount st = length (H @ T)"
    and "ib_emptyBlockIndex st = length H" and "length T \<le> 8 - length (H @ T)"
  shows "fill_gap st = st\<lparr>ib_blockCount := 8, ib_addrBlocks := H @ replicate (8 - length (H @ T)) 0 @ T\<rparr>"
proof -
  define k where "k = 8 - length (H @ T)"
  have k: "length (H @ T) + k = 8" "length rest = k" "length T \<le> k" using assms by (auto simp: k_def)
  have n8: "[length (H @ T)..<8] = [length (H @ T)..<length (H @ T) + k]" using k(1) by simp
  have zeros: "fold (\<lambda>s a. a[s := 0]) [length (H @ T)..<8] (ib_addrBlocks st) = H @ T @ replicate k 0"
    unfolding n8 using fill_zero [of "length (H @ T)" "H @ T" k rest] k(2) assms(1) by simp
  let ?a = "H @ T @ replicate k 0" and ?e = "length H" and ?m = "length T"
  have "fold (\<lambda>s a. (a[s + ?e + k := a ! (s + ?e)])[s + ?e := 0]) [0..<?m] ?a = H @ replicate k 0 @ T"
  proof (rule nth_equalityI)
    show len: "length (fold (\<lambda>s a. (a[s + ?e + k := a ! (s + ?e)])[s + ?e := 0]) [0..<?m] ?a) = length (H @ replicate k 0 @ T)"
      by (simp add: length_shift)
    fix i assume "i < length (fold (\<lambda>s a. (a[s + ?e + k := a ! (s + ?e)])[s + ?e := 0]) [0..<?m] ?a)"
    then have i: "i < ?e + k + ?m" using len by simp
    then have "fold (\<lambda>s a. (a[s + ?e + k := a ! (s + ?e)])[s + ?e := 0]) [0..<?m] ?a ! i
        = (if ?e \<le> i \<and> i < ?e + ?m then 0 else if ?e + k \<le> i \<and> i < ?e + k + ?m then ?a ! (i - k) else ?a ! i)"
      by (intro shift_nth) (use k in auto)
    also have "\<dots> = (H @ replicate k 0 @ T) ! i"
      using i k(3) by (auto simp: nth_append add.commute)
    finally show "fold (\<lambda>s a. (a[s + ?e + k := a ! (s + ?e)])[s + ?e := 0]) [0..<?m] ?a ! i = (H @ replicate k 0 @ T) ! i" .
  qed
  moreover have "ib_blockCount st - ib_emptyBlockIndex st = ?m" "8 - ib_blockCount st = k" "max (ib_blockCount st) 8 = 8"
    using assms(3,4) k(1) by simp_all
  ultimately show ?thesis
    using zeros unfolding fill_gap_def Let_def assms(3,4) k_def [symmetric] by simp
qed

section \<open>Properties\<close>

definition ipv6_octets :: "uint16 list \<Rightarrow> byte list" where
  "ipv6_octets ws = concat (map be_bytes ws)"

lemma block_octets: "[ucast (w div 0x100), ucast (w AND 0xff)] = be_bytes (w :: uint16)"
proof -
  have "w div 0x100 = drop_bit 8 w" by (simp add: drop_bit_eq_div)
  moreover have "be_bytes w = [ucast (drop_bit 8 w), ucast w]" by (simp add: be_bytes_def le_bytes_def upt_rec)
  moreover have "ucast (w AND 0xff) = (ucast w :: byte)" by (rule ucast_and_ff)
  ultimately show ?thesis by simp
qed

lemma length_ipv6_octets: "length (ipv6_octets ws) = 2 * length ws"
  by (induction ws) (simp_all add: ipv6_octets_def)

lemma convert_tokens:
  assumes ok: "list_all token_ok toks" and n: "length (filter (\<lambda>t. t \<noteq> []) toks) \<le> (if last toks = [] then 7 else 8)"
    and gap: "length (filter (\<lambda>t. t = []) toks) \<le> 1" and a: "length a = 8" and colon: "1 < length toks"
    and st: "fold add_token toks \<lparr>ib_blockCount = 0, ib_emptyBlockIndex = 0, ib_hasEmptyBlock = False, ib_addrBlocks = a\<rparr> = st"
    and result: "(if ib_hasEmptyBlock st then fill_gap st else st) = st'" "ib_blockCount st' = 8" "length (ib_addrBlocks st') = 8"
    and out: "16 \<le> length out"
  shows "StringUtils_convertIPv6AdddressStringToByteArray a (token_text toks @ 0 # r) out
    = Some (True, ipv6_octets (ib_addrBlocks st') @ drop 16 out)"
proof -
  obtain t ts where toks: "toks = t # ts" "ts \<noteq> []" using colon by (cases toks; cases "tl toks") auto
  have sep: "strchr (token_text (t # ts) @ 0 # r) 0x3a = Some (Some (length t))"
    using separator_first [of t ts r] ok toks by (auto simp: next_separator_def bind_eq_Some_conv split: option.splits if_splits)
  have "block_loop (token_text (t # ts) @ 0 # r) (Some (length t)) False
      \<lparr>ib_blockCount = 0, ib_emptyBlockIndex = 0, ib_hasEmptyBlock = False, ib_addrBlocks = a\<rparr> = Some (Some st)"
    using block_loop_tokens [of t ts "\<lparr>ib_blockCount = 0, ib_emptyBlockIndex = 0, ib_hasEmptyBlock = False, ib_addrBlocks = a\<rparr>" r]
      ok n gap a toks unfolding toks st [symmetric] by simp
  moreover have "put_bytes (ipv6_octets (ib_addrBlocks st')) (out, 0)
      = Some (ipv6_octets (ib_addrBlocks st') @ drop 16 out, 16)"
    using put_bytes_exact [of 0 "ipv6_octets (ib_addrBlocks st')" out] out result(3) by (simp add: length_ipv6_octets)
  ultimately show ?thesis
    using sep result unfolding toks StringUtils_convertIPv6AdddressStringToByteArray_def ipv6_octets_def block_octets by simp
qed

text \<open>C34. IPv6 addresses: a text of eight blocks of one to four hexadecimal digits gives their octets, most significant first;
  a text with a gap behind at least one block gives the blocks before the gap, zeros, and the blocks behind it, when the
  gap stands for at least as many blocks as follow it. Sixteen octets are written.\<close>

theorem ipv6_parsed:
  assumes "list_all hex_block hs" and "list_all hex_block ts" and "length a = 8" and "16 \<le> length out"
  shows "(length hs = 8 \<longrightarrow>
      StringUtils_convertIPv6AdddressStringToByteArray a (token_text hs @ 0 # r) out
        = Some (True, ipv6_octets (map block_value hs) @ drop 16 out)) \<and>
    (hs \<noteq> [] \<longrightarrow> length hs + length ts \<le> 7 \<longrightarrow> length ts \<le> 8 - (length hs + length ts) \<longrightarrow>
      StringUtils_convertIPv6AdddressStringToByteArray a (token_text (hs @ [] # ts) @ 0 # r) out
        = Some (True, ipv6_octets (map block_value hs @ replicate (8 - (length hs + length ts)) 0 @ map block_value ts) @ drop 16 out))"
proof (intro conjI impI)
  let ?st = "\<lparr>ib_blockCount = 0, ib_emptyBlockIndex = 0, ib_hasEmptyBlock = False, ib_addrBlocks = a\<rparr>"
  have ok: "list_all token_ok hs" "list_all token_ok ts" using assms(1,2) by (auto simp: list_all_iff token_ok_def)
  have full: "filter (\<lambda>t. t \<noteq> []) us = us" "filter (\<lambda>t. t = []) us = []" if "list_all hex_block us" for us
    using that by (auto simp: list_all_iff hex_block_def filter_id_conv filter_empty_conv)
  have blocks: "fold add_token hs ?st = ?st\<lparr>ib_addrBlocks := map block_value hs @ drop (length hs) a, ib_blockCount := length hs\<rparr>"
    if "length hs \<le> 8" using fold_blocks [OF assms(1), of ?st "[]" a] assms(3) that by simp
  {
    assume l: "length hs = 8"
    then have "last hs \<in> set hs" by (intro last_in_set) auto
    then have "last hs \<noteq> []" using assms(1) by (auto simp: list_all_iff hex_block_def)
    then have "StringUtils_convertIPv6AdddressStringToByteArray a (token_text hs @ 0 # r) out
        = Some (True, ipv6_octets (ib_addrBlocks (fold add_token hs ?st)) @ drop 16 out)"
      by (intro convert_tokens [where st = "fold add_token hs ?st"])
        (use ok full [OF assms(1)] assms(3,4) l blocks in simp_all)
    then show "StringUtils_convertIPv6AdddressStringToByteArray a (token_text hs @ 0 # r) out
        = Some (True, ipv6_octets (map block_value hs) @ drop 16 out)" using blocks l assms(3) by simp
  next
    assume h: "hs \<noteq> []" "length hs + length ts \<le> 7" "length ts \<le> 8 - (length hs + length ts)"
    let ?ws = "map block_value hs" and ?vs = "map block_value ts" and ?k = "8 - (length hs + length ts)"
    define st where "st = fold add_token (hs @ [] # ts) ?st"
    have last_ts: "last ts \<noteq> []" if "ts \<noteq> []" using last_in_set [OF that] assms(2) by (auto simp: list_all_iff hex_block_def)
    have st: "st = ?st\<lparr>ib_addrBlocks := ?ws @ ?vs @ drop (length hs + length ts) a, ib_blockCount := length hs + length ts,
        ib_hasEmptyBlock := True, ib_emptyBlockIndex := length hs\<rparr>"
      using fold_blocks [OF assms(2), of "add_token [] (fold add_token hs ?st)" ?ws "drop (length hs) a"] blocks h(2) assms(3)
      by (simp add: st_def add_token_def add.commute)
    have "fill_gap st = st\<lparr>ib_blockCount := 8, ib_addrBlocks := ?ws @ replicate (8 - length (?ws @ ?vs)) 0 @ ?vs\<rparr>"
      by (rule fill_gap_moves) (use h assms(3) in \<open>simp_all add: st\<close>)
    then have "StringUtils_convertIPv6AdddressStringToByteArray a (token_text (hs @ [] # ts) @ 0 # r) out
        = Some (True, ipv6_octets (ib_addrBlocks (fill_gap st)) @ drop 16 out)"
      by (intro convert_tokens [OF _ _ _ assms(3) _ st_def [symmetric] _ _ _ assms(4)])
        (use ok full [OF assms(1)] full [OF assms(2)] assms(3) h last_ts in \<open>simp_all add: st token_ok_def\<close>)
    then show "StringUtils_convertIPv6AdddressStringToByteArray a (token_text (hs @ [] # ts) @ 0 # r) out
        = Some (True, ipv6_octets (?ws @ replicate ?k 0 @ ?vs) @ drop 16 out)"
      using \<open>fill_gap st = _\<close> by simp
  }
qed

text \<open>The address 1:2::ab.\<close>

theorem ipv6_parsed_witness:
  "StringUtils_convertIPv6AdddressStringToByteArray (replicate 8 7) ([0x31, 0x3a, 0x32, 0x3a, 0x3a, 0x61, 0x42, 0]) (replicate 16 9)
    = Some (True, [0, 1, 0, 2, 0, 0, 0, 0, 0, 0, 0, 0, 0, 0, 0, 0xab])"
proof -
  have "list_all hex_block [[0x31], [0x32]]" "list_all hex_block [[0x61, 0x42]]"
    "ipv6_octets (map block_value [[0x31], [0x32]] @ replicate 5 0 @ map block_value [[0x61, 0x42]])
      = [0, 1, 0, 2, 0, 0, 0, 0, 0, 0, 0, 0, 0, 0, 0, 0xab]" by code_simp+
  then show ?thesis
    using ipv6_parsed [of "[[0x31], [0x32]]" "[[0x61, 0x42]]" "replicate 8 7" "replicate 16 9" "[]"] by simp
qed

text \<open>An address that starts with the gap is refused, and a gap that is shorter than the blocks behind it loses some of
  them: 1::2:3:4:5:6 is read as 1:0:0:0:0:0:3:2.\<close>

lemma ipv6_gap_wrong:
  "StringUtils_convertIPv6AdddressStringToByteArray (replicate 8 7) [0x3a, 0x3a, 0x31, 0] (replicate 16 9)
    = Some (False, replicate 16 9)"
  "StringUtils_convertIPv6AdddressStringToByteArray (replicate 8 7)
      [0x31, 0x3a, 0x3a, 0x32, 0x3a, 0x33, 0x3a, 0x34, 0x3a, 0x35, 0x3a, 0x36, 0] (replicate 16 9)
    = Some (True, [0, 1, 0, 0, 0, 0, 0, 0, 0, 0, 0, 0, 0, 3, 0, 2])"
  by code_simp+

end
