(* ===== verification/Conversions.thy ===== *)
theory Conversions
  imports String_Text Mms_Value
begin

text \<open>
  Times as text, \<open>src/common/conversions.cc\<close>. A \<open>struct tm\<close> keeps the fields the code uses. \<open>gmtime\<close> is the calendar of
  the C library, which counts years and months from the epoch. The functions that turn a \<open>struct tm\<close> into a time are
  arguments of the parser: \<open>mktime\<close>, which depends on the time zone of the host, and the platform's \<open>timegm\<close>. The source
  brings a \<open>timegm\<close> of its own for \<open>_WIN32\<close>, where \<open>long\<close> has 32 bits; it is \<open>timegm\<close> below, in 32 bit arithmetic.
\<close>

section \<open>The calendar\<close>

record tm =
  tm_year :: int
  tm_mon :: int
  tm_mday :: int
  tm_hour :: int
  tm_min :: int
  tm_sec :: int

definition leap_year :: "int \<Rightarrow> bool" where
  "leap_year y \<longleftrightarrow> y mod 4 = 0 \<and> (y mod 100 \<noteq> 0 \<or> y mod 400 = 0)"

definition year_days :: "int \<Rightarrow> nat" where
  "year_days y = (if leap_year y then 366 else 365)"

definition month_days :: "int \<Rightarrow> int \<Rightarrow> nat" where
  "month_days y m = (if m = 2 then if leap_year y then 29 else 28 else if m \<in> {4, 6, 9, 11} then 30 else 31)"

lemma days_decrease [termination_simp]:
  "\<not> d < year_days y \<Longrightarrow> d - year_days y < d" "\<not> d < month_days y m \<Longrightarrow> d - month_days y m < d"
  by (simp_all add: year_days_def month_days_def split: if_splits)

text \<open>The year and the day in it, and the month and the day in it, of a day that is counted from the first of
  January of the year \<open>y\<close>, and of the first of the month \<open>m\<close>.\<close>

fun year_loop :: "int \<Rightarrow> nat \<Rightarrow> int \<times> nat" where
  "year_loop y d = (if d < year_days y then (y, d) else year_loop (y + 1) (d - year_days y))"

fun month_loop :: "int \<Rightarrow> int \<Rightarrow> nat \<Rightarrow> int \<times> nat" where
  "month_loop y m d = (if d < month_days y m then (m, d) else month_loop y (m + 1) (d - month_days y m))"

declare year_loop.simps [simp del] month_loop.simps [simp del]

definition gmtime :: "nat \<Rightarrow> tm" where
  "gmtime t = (let (year, d) = year_loop 1970 (t div 86400); (month, day) = month_loop year 1 d in
     \<lparr>tm_year = year - 1900, tm_mon = month - 1, tm_mday = int day + 1, tm_hour = int (t mod 86400 div 3600),
      tm_min = int (t mod 3600 div 60), tm_sec = int (t mod 60)\<rparr>)"

definition days_from_civil :: "int \<Rightarrow> int \<Rightarrow> int \<Rightarrow> int option" where
  "days_from_civil y m d = do {
     y \<leftarrow> in_int (y - (if m \<le> 2 then 1 else 0));
     let era = c_div y 400;
     first \<leftarrow> in_int (era * 400);
     yoe \<leftarrow> in_int (y - first);
     k \<leftarrow> in_int (m + (if 2 < m then - 3 else 9));
     k \<leftarrow> in_int (153 * k);
     k \<leftarrow> in_int (k + 2);
     k \<leftarrow> in_int (c_div k 5 + d);
     doy \<leftarrow> in_int (k - 1);
     n \<leftarrow> in_int (yoe * 365);
     n \<leftarrow> in_int (n + c_div yoe 4);
     n \<leftarrow> in_int (n - c_div yoe 100);
     doe \<leftarrow> in_int (n + doy);
     n \<leftarrow> in_int (era * 146097);
     n \<leftarrow> in_int (n + doe);
     in_int (n - 719468) }"

definition timegm :: "tm \<Rightarrow> int option" where
  "timegm t = do {
     year \<leftarrow> in_int (tm_year t + 1900);
     let month = tm_mon t;
     (year, month) \<leftarrow>
       (if 11 < month
        then do { year \<leftarrow> in_int (year + c_div month 12); Some (year, c_mod month 12) }
        else if month < 0
        then do {
          k \<leftarrow> in_int (11 - month);
          let years_diff = c_div k 12;
          year \<leftarrow> in_int (year - years_diff);
          k \<leftarrow> in_int (12 * years_diff);
          month \<leftarrow> in_int (month + k);
          Some (year, month) }
        else Some (year, month));
     month \<leftarrow> in_int (month + 1);
     days_since_1970 \<leftarrow> days_from_civil year month (tm_mday t);
     n \<leftarrow> in_int (24 * days_since_1970);
     n \<leftarrow> in_int (n + tm_hour t);
     n \<leftarrow> in_int (60 * n);
     n \<leftarrow> in_int (n + tm_min t);
     n \<leftarrow> in_int (60 * n);
     in_int (n + tm_sec t) }"

section \<open>Text from a time\<close>

fun digit_base :: "nat \<Rightarrow> int \<Rightarrow> int option" where
  "digit_base 0 digitBase = Some digitBase"
| "digit_base (Suc n) digitBase = (if digitBase * 10 < 2 ^ 31 then digit_base n (digitBase * 10) else None)"

text \<open>The second loop, with \<open>n\<close> digits to go, and the terminator behind it.\<close>

fun digit_loop :: "nat \<Rightarrow> nat \<Rightarrow> int \<Rightarrow> int \<Rightarrow> byte list \<Rightarrow> byte list option" where
  "digit_loop 0 i remainder digitBase buffer = store buffer i 0"
| "digit_loop (Suc n) i remainder digitBase buffer =
     (if digitBase = 0 then None
      else do {
        buffer \<leftarrow> store buffer i (word_of_int (c_div remainder digitBase + 48));
        digit_loop n (i + 1) (c_mod remainder digitBase) (c_div digitBase 10) buffer })"

text \<open>The text is written from position \<open>pos\<close> of the buffer on.\<close>

definition Conversions_intToStringBuffer :: "int \<Rightarrow> nat \<Rightarrow> byte list \<Rightarrow> nat \<Rightarrow> byte list option" where
  "Conversions_intToStringBuffer intValue numberOfDigits buffer pos = do {
     digitBase \<leftarrow> digit_base (numberOfDigits - 1) 1;
     digit_loop numberOfDigits pos intValue digitBase buffer }"

definition Conversions_msTimeToGeneralizedTime :: "uint64 \<Rightarrow> byte list \<Rightarrow> byte list option" where
  "Conversions_msTimeToGeneralizedTime msTime buffer = do {
     let msPart = uint (msTime mod 1000);
     let unixTime = unat (msTime div 1000);
     let tmTime = gmtime unixTime;
     buffer \<leftarrow> Conversions_intToStringBuffer (tm_year tmTime + 1900) 4 buffer 0;
     buffer \<leftarrow> Conversions_intToStringBuffer (tm_mon tmTime + 1) 2 buffer 4;
     buffer \<leftarrow> Conversions_intToStringBuffer (tm_mday tmTime) 2 buffer 6;
     buffer \<leftarrow> Conversions_intToStringBuffer (tm_hour tmTime) 2 buffer 8;
     buffer \<leftarrow> Conversions_intToStringBuffer (tm_min tmTime) 2 buffer 10;
     buffer \<leftarrow> Conversions_intToStringBuffer (tm_sec tmTime) 2 buffer 12;
     buffer \<leftarrow> store buffer 14 0x2e;
     buffer \<leftarrow> Conversions_intToStringBuffer msPart 3 buffer 15;
     buffer \<leftarrow> store buffer 18 0x5a;
     store buffer 19 0 }"

section \<open>A time from text\<close>

definition getSecondsOffset :: "byte list \<Rightarrow> int option" where
  "getSecondsOffset offsetString = do {
     hourOffset \<leftarrow> StringUtils_digitsToInt offsetString 2;
     if hourOffset < 0 then Some (- 1)
     else do {
       minOffset \<leftarrow> StringUtils_digitsToInt (drop 2 offsetString) 2;
       if minOffset < 0 then Some (- 1)
       else Some (hourOffset * (60 * 60) + minOffset * 60) } }"

text \<open>The number of digits of the fraction and the power of ten that belongs to it.\<close>

fun fraction_loop :: "byte list \<Rightarrow> nat \<Rightarrow> int \<Rightarrow> (nat \<times> int) option" where
  "fraction_loop [] fractionOfSecondLen secondValue = None"
| "fraction_loop (c # s) fractionOfSecondLen secondValue =
     (if StringUtils_isDigit c
      then if secondValue * 10 < 2 ^ 31 then fraction_loop s (fractionOfSecondLen + 1) (secondValue * 10) else None
      else Some (fractionOfSecondLen, secondValue))"

text \<open>The optional fraction: the milliseconds and the rest of the text.\<close>

definition parse_fraction :: "byte list \<Rightarrow> (int \<times> byte list) option" where
  "parse_fraction parsePos = do {
     c \<leftarrow> rd parsePos 0;
     if c = 0x2e
     then do {
       let parsePos = drop 1 parsePos;
       (fractionOfSecondLen, secondValue) \<leftarrow> fraction_loop parsePos 0 1;
       msOffset \<leftarrow> (if 0 < fractionOfSecondLen
         then do {
           fractionOfSecond \<leftarrow> StringUtils_digitsToInt parsePos (int fractionOfSecondLen);
           if fractionOfSecond * 1000 < 2 ^ 31 then Some (c_div (fractionOfSecond * 1000) secondValue) else None }
         else Some 0);
       Some (msOffset, drop fractionOfSecondLen parsePos) }
     else Some (0, parsePos) }"

text \<open>The end of the text; \<open>None\<close> inside is the error. \<open>to_utc\<close> is the \<open>timegm\<close> of the platform.\<close>

definition parse_zone :: "(tm \<Rightarrow> int) \<Rightarrow> (tm \<Rightarrow> int option) \<Rightarrow> tm \<Rightarrow> byte list \<Rightarrow> int option option" where
  "parse_zone mktime to_utc tmTime parsePos = do {
     c \<leftarrow> rd parsePos 0;
     if c = 0 then Some (Some (mktime tmTime))
     else if c = 0x5a then map_option Some (to_utc tmTime)
     else if c = 0x2b then do {
       t \<leftarrow> to_utc tmTime;
       secondsOffset \<leftarrow> getSecondsOffset (drop 1 parsePos);
       Some (Some (t - secondsOffset)) }
     else if c = 0x2d then do {
       t \<leftarrow> to_utc tmTime;
       secondsOffset \<leftarrow> getSecondsOffset (drop 1 parsePos);
       Some (Some (t + secondsOffset)) }
     else Some None }"

text \<open>The fields are numbers of the given widths, one after the other; a field that is not a number ends the parser.\<close>

fun parse_fields :: "byte list \<Rightarrow> nat list \<Rightarrow> int list option option" where
  "parse_fields gtString [] = Some (Some [])"
| "parse_fields gtString (w # ws) = do {
     v \<leftarrow> StringUtils_digitsToInt gtString (int w);
     if v < 0 then Some None
     else do {
       vs \<leftarrow> parse_fields (drop w gtString) ws;
       Some (map_option (\<lambda>vs. v # vs) vs) } }"

definition Conversions_generalizedTimeToMsTime :: "(tm \<Rightarrow> int) \<Rightarrow> (tm \<Rightarrow> int option) \<Rightarrow> byte list \<Rightarrow> uint64 option" where
  "Conversions_generalizedTimeToMsTime mktime to_utc gtString = do {
     gtStringLen \<leftarrow> strlen gtString;
     if gtStringLen < 14 then Some (- 1)
     else do {
       fields \<leftarrow> parse_fields gtString [4, 2, 2, 2, 2, 2];
       (case fields of
          Some [year, month, day, hour, minute, seconds] \<Rightarrow> do {
            let tmTime = \<lparr>tm_year = year - 1900, tm_mon = month - 1, tm_mday = day,
              tm_hour = hour, tm_min = minute, tm_sec = seconds\<rparr>;
            (msOffset, parsePos) \<leftarrow> parse_fraction (drop 14 gtString);
            t \<leftarrow> parse_zone mktime to_utc tmTime parsePos;
            (case t of None \<Rightarrow> Some (- 1)
             | Some t \<Rightarrow> Some (word_of_int t * 1000 + word_of_int msOffset)) }
        | _ \<Rightarrow> Some (- 1)) } }"

section \<open>Counting days\<close>

lemma c_div_nonneg: "0 \<le> a \<Longrightarrow> 0 < b \<Longrightarrow> c_div a b = a div b"
  by (cases "a = 0") (simp_all add: c_div_def)

lemma c_mod_nonneg: "0 \<le> a \<Longrightarrow> 0 < b \<Longrightarrow> c_mod a b = a mod b"
  by (simp add: c_mod_def c_div_nonneg minus_mult_div_eq_mod)

definition years_before :: "int \<Rightarrow> int" where
  "years_before y = 365 * y + y div 4 - y div 100 + y div 400"

text \<open>The same formula without a bound on the numbers.\<close>

definition civil_days :: "int \<Rightarrow> int \<Rightarrow> int \<Rightarrow> int" where
  "civil_days y m d =
     (let y = y - (if m \<le> 2 then 1 else 0);
          era = c_div y 400;
          yoe = y - era * 400;
          doy = c_div (153 * (m + (if 2 < m then - 3 else 9)) + 2) 5 + d - 1;
          doe = yoe * 365 + c_div yoe 4 - c_div yoe 100 + doy
      in era * 146097 + doe - 719468)"

lemma years_before_era:
  assumes "0 \<le> y"
  shows "c_div y 400 * 146097 + ((y - c_div y 400 * 400) * 365 + c_div (y - c_div y 400 * 400) 4
    - c_div (y - c_div y 400 * 400) 100) = years_before y"
proof -
  define e r where "e = y div 400" and "r = y mod 400"
  have y: "y = 400 * e + r" and r: "0 \<le> r" "r < 400" by (simp_all add: e_def r_def)
  have "c_div y 400 = e" using assms by (simp add: c_div_nonneg e_def)
  moreover have "y - e * 400 = r" using y by simp
  moreover have "y div 4 = 100 * e + r div 4" "y div 100 = 4 * e + r div 100" "y div 400 = e"
    using r by (simp_all add: y)
  ultimately show ?thesis using r by (simp add: years_before_def c_div_nonneg y)
qed

lemma civil_days_eq:
  assumes "1 \<le> y" and "1 \<le> m"
  shows "civil_days y m d = years_before (y - (if m \<le> 2 then 1 else 0))
    + (153 * (m + (if 2 < m then - 3 else 9)) + 2) div 5 + d - 719469"
proof -
  have "0 \<le> y - (if m \<le> 2 then 1 else 0)" using assms(1) by simp
  note era = years_before_era [OF this]
  have "0 \<le> 153 * (m + (if 2 < m then - 3 else 9)) + 2" using assms(2) by simp
  then show ?thesis unfolding civil_days_def Let_def using era by (simp add: c_div_nonneg)
qed

lemma years_before_step: "years_before y = years_before (y - 1) + int (year_days y)"
proof -
  have step: "y div k = (y - 1) div k + (if y mod k = 0 then 1 else 0)" if "0 < k" for k :: int
  proof -
    define q r where "q = y div k" and "r = y mod k"
    have y: "y = q * k + r" and r: "0 \<le> r" "r < k" using that by (simp_all add: q_def r_def)
    show ?thesis
    proof (cases "r = 0")
      case True
      have "(y - 1) div k = q - 1" by (rule int_div_pos_eq [where r = "k - 1"]) (use that True y in \<open>simp_all add: algebra_simps\<close>)
      then show ?thesis using True by (simp add: q_def r_def)
    next
      case False
      have "(y - 1) div k = q" by (rule int_div_pos_eq [where r = "r - 1"]) (use False y r in \<open>simp_all add: algebra_simps\<close>)
      then show ?thesis using False by (simp add: q_def r_def)
    qed
  qed
  have "y mod 400 = 0 \<Longrightarrow> y mod 100 = 0" "y mod 100 = 0 \<Longrightarrow> y mod 4 = 0" by presburger+
  then have "365 * y + (p + (if y mod 4 = 0 then 1 else 0)) - (q + (if y mod 100 = 0 then 1 else 0)) + (r + (if y mod 400 = 0 then 1 else 0))
      = 365 * (y - 1) + p - q + r + int (year_days y)" for p q r
    by (simp add: year_days_def leap_year_def)
  moreover have "years_before y = 365 * y + ((y - 1) div 4 + (if y mod 4 = 0 then 1 else 0))
      - ((y - 1) div 100 + (if y mod 100 = 0 then 1 else 0)) + ((y - 1) div 400 + (if y mod 400 = 0 then 1 else 0))"
    by (simp only: years_before_def step zero_less_numeral)
  ultimately show ?thesis by (simp only: years_before_def)
qed

text \<open>The first day of a month; the month behind December is January of the next year.\<close>

definition month_start :: "int \<Rightarrow> int \<Rightarrow> int" where
  "month_start y m = (if m \<le> 12 then civil_days y m 1 else civil_days (y + 1) (m - 12) 1)"

lemma month_start_step:
  assumes "1 \<le> y" and "1 \<le> m" and "m \<le> 12"
  shows "month_start y (m + 1) = month_start y m + int (month_days y m)"
proof -
  have "m = 1 \<or> m = 2 \<or> m = 3 \<or> m = 4 \<or> m = 5 \<or> m = 6 \<or> m = 7 \<or> m = 8 \<or> m = 9 \<or> m = 10 \<or> m = 11 \<or> m = 12"
    using assms(2,3) by presburger
  then show ?thesis using years_before_step [of y] assms(1)
    by (elim disjE) (simp_all add: month_start_def civil_days_eq month_days_def year_days_def)
qed

lemma year_start_step: "1 \<le> y \<Longrightarrow> month_start (y + 1) 1 = month_start y 1 + int (year_days y)"
  using years_before_step [of y] by (simp add: month_start_def civil_days_eq)

lemma year_loop_days:
  "1 \<le> y \<Longrightarrow> year_loop y d = (y', d') \<Longrightarrow>
   y \<le> y' \<and> month_start y' 1 + int d' = month_start y 1 + int d \<and> d' < year_days y'"
proof (induction y d rule: year_loop.induct)
  case (1 y d)
  show ?case
  proof (cases "d < year_days y")
    case True
    then show ?thesis using "1.prems" by (simp add: year_loop.simps [of y])
  next
    case False
    then have "year_loop (y + 1) (d - year_days y) = (y', d')" using "1.prems" by (simp add: year_loop.simps [of y])
    then show ?thesis using "1.IH" [OF False] "1.prems" year_start_step [of y] False by (auto simp: of_nat_diff)
  qed
qed

lemma month_loop_days:
  "1 \<le> y \<Longrightarrow> 1 \<le> m \<Longrightarrow> m \<le> 12 \<Longrightarrow> month_start y m + int d < month_start (y + 1) 1 \<Longrightarrow> month_loop y m d = (m', d') \<Longrightarrow>
   1 \<le> m' \<and> m' \<le> 12 \<and> civil_days y m' (int d' + 1) = month_start y m + int d \<and> d' < month_days y m'"
proof (induction y m d rule: month_loop.induct)
  case (1 y m d)
  show ?case
  proof (cases "d < month_days y m")
    case True
    then show ?thesis using "1.prems" by (auto simp: month_loop.simps [of y] month_start_def civil_days_eq)
  next
    case False
    note step = month_start_step [OF "1.prems"(1-3)]
    have "m \<noteq> 12" using "1.prems"(4) step False by (auto simp: month_start_def)
    moreover have "month_loop y (m + 1) (d - month_days y m) = (m', d')" using "1.prems" False by (simp add: month_loop.simps [of y m])
    moreover have "month_start y (m + 1) + int (d - month_days y m) = month_start y m + int d" using step False by (simp add: of_nat_diff)
    ultimately show ?thesis using "1.IH" [OF False] "1.prems" by auto
  qed
qed

lemma gmtime_days:
  assumes "gmtime t = tmTime"
  shows "1970 \<le> tm_year tmTime + 1900" and "0 \<le> tm_mon tmTime" and "tm_mon tmTime < 12" and "1 \<le> tm_mday tmTime"
    and "tm_mday tmTime \<le> int (month_days (tm_year tmTime + 1900) (tm_mon tmTime + 1))"
    and "civil_days (tm_year tmTime + 1900) (tm_mon tmTime + 1) (tm_mday tmTime) = int (t div 86400)"
proof -
  obtain y d where y: "year_loop 1970 (t div 86400) = (y, d)" by fastforce
  obtain m k where m: "month_loop y 1 d = (m, k)" by fastforce
  have "month_start 1970 1 = 0" by code_simp
  then have yd: "1970 \<le> y" "month_start y 1 + int d = int (t div 86400)" "d < year_days y"
    using year_loop_days [OF _ y] by auto
  then have "month_start y 1 + int d < month_start (y + 1) 1" using year_start_step [of y] by simp
  then have md: "1 \<le> m" "m \<le> 12" "civil_days y m (int k + 1) = int (t div 86400)" "k < month_days y m"
    using month_loop_days [OF _ _ _ _ m] yd by auto
  have "tmTime = \<lparr>tm_year = y - 1900, tm_mon = m - 1, tm_mday = int k + 1, tm_hour = int (t mod 86400 div 3600),
      tm_min = int (t mod 3600 div 60), tm_sec = int (t mod 60)\<rparr>"
    using assms y m by (simp add: gmtime_def)
  then show "1970 \<le> tm_year tmTime + 1900" and "0 \<le> tm_mon tmTime" and "tm_mon tmTime < 12" and "1 \<le> tm_mday tmTime"
    and "tm_mday tmTime \<le> int (month_days (tm_year tmTime + 1900) (tm_mon tmTime + 1))"
    and "civil_days (tm_year tmTime + 1900) (tm_mon tmTime + 1) (tm_mday tmTime) = int (t div 86400)"
    using yd(1) md by auto
qed

lemma seconds_split: "60 * (60 * (24 * (t div 86400) + t mod 86400 div 3600) + t mod 3600 div 60) + t mod 60 = (t :: nat)"
proof -
  have "t div 86400 = t div 3600 div 24" "t mod 86400 = 3600 * (t div 3600 mod 24) + t mod 3600"
    using div_mult2_eq [of t 3600 24] mod_mult2_eq [of t 3600 24] by simp_all
  moreover have "t div 3600 = t div 60 div 60" "t mod 3600 = 60 * (t div 60 mod 60) + t mod 60"
    using div_mult2_eq [of t 60 60] mod_mult2_eq [of t 60 60] by simp_all
  moreover have "24 * (t div 3600 div 24) + t div 3600 mod 24 = t div 3600" "60 * (t div 60 div 60) + t div 60 mod 60 = t div 60"
      "60 * (t div 60) + t mod 60 = t" by (simp_all only: mult_div_mod_eq)
  moreover have "(3600 * (t div 3600 mod 24) + t mod 3600) div 3600 = t div 3600 mod 24"
      "(60 * (t div 60 mod 60) + t mod 60) div 60 = t div 60 mod 60" by simp_all
  ultimately show ?thesis by metis
qed

text \<open>Counting years and months from the epoch gives the same days.\<close>

lemma year_start_count: "month_start (1970 + int k) 1 = (\<Sum>i < k. int (year_days (1970 + int i)))"
proof (induction k)
  case 0
  show ?case by code_simp
next
  case (Suc k)
  then show ?case using year_start_step [of "1970 + int k"] by (simp add: ac_simps)
qed

lemma month_start_count:
  "1 \<le> y \<Longrightarrow> j \<le> 12 \<Longrightarrow> month_start y (1 + int j) = month_start y 1 + (\<Sum>i < j. int (month_days y (1 + int i)))"
proof (induction j)
  case (Suc j)
  then show ?case using month_start_step [of y "1 + int j"] by (simp add: ac_simps)
qed simp

lemma years_before_mono: "x \<le> y \<Longrightarrow> years_before x \<le> years_before y"
proof (induction y rule: int_ge_induct)
  case (step y)
  then show ?case using years_before_step [of "y + 1"] by simp
qed simp

text \<open>The last year with four digits.\<close>

lemma gmtime_year_bound:
  assumes "t < 253402300800"
  shows "tm_year (gmtime t) + 1900 < 10000"
proof (rule ccontr)
  define y m d where "y = tm_year (gmtime t) + 1900" and "m = tm_mon (gmtime t) + 1" and "d = tm_mday (gmtime t)"
  assume "\<not> tm_year (gmtime t) + 1900 < 10000"
  then have y: "10000 \<le> y" by (simp add: y_def)
  have g: "1 \<le> m" "m \<le> 12" "1 \<le> d" "civil_days y m d = int (t div 86400)"
    using gmtime_days [OF refl, of t] by (simp_all add: y_def m_def d_def)
  have yb: "years_before 9999 = 3652059" "years_before 10000 = 3652425" by (simp_all add: years_before_def)
  have "years_before 9999 \<le> years_before (y - 1)" "years_before 10000 \<le> years_before y"
    using y by (simp_all add: years_before_mono)
  then have le: "3652059 \<le> years_before (y - 1)" "3652425 \<le> years_before y" unfolding yb .
  have "2932896 < civil_days y m d"
  proof (cases "m \<le> 2")
    case True
    then have "civil_days y m d = years_before (y - 1) + (153 * (m + 9) + 2) div 5 + d - 719469"
      using civil_days_eq [of y m d] y g(1) by simp
    moreover have "306 \<le> (153 * (m + 9) + 2) div 5" using zdiv_mono1 [of 1532 "153 * (m + 9) + 2" 5] g(1) by simp
    ultimately show ?thesis using le g(3) by linarith
  next
    case False
    then have "civil_days y m d = years_before y + (153 * (m - 3) + 2) div 5 + d - 719469"
      using civil_days_eq [of y m d] y g(1) by simp
    moreover have "0 \<le> (153 * (m - 3) + 2) div 5" using False by (simp add: pos_imp_zdiv_nonneg_iff)
    ultimately show ?thesis using le g(3) by linarith
  qed
  then show False using assms g(4) by linarith
qed

text \<open>Within 32 bits.\<close>

lemma days_from_civil_exact: "days_from_civil y m d = Some n \<Longrightarrow> n = civil_days y m d"
  by (simp add: days_from_civil_def civil_days_def Let_def bind_eq_Some_conv in_int_Some_iff)

lemma days_from_civil_fits:
  assumes "1 \<le> y" and "y \<le> 5000000" and "1 \<le> m" and "m \<le> 12" and "1 \<le> d" and "d \<le> 31"
  shows "days_from_civil y m d = Some (civil_days y m d)"
proof -
  define z k where "z = y - (if m \<le> 2 then 1 else 0)" and "k = m + (if 2 < m then - 3 else 9)"
  have z: "0 \<le> z" "z \<le> 5000000" and k: "0 \<le> k" "k \<le> 11" using assms by (auto simp: z_def k_def)
  define e r where "e = z div 400" and "r = z mod 400"
  have er: "c_div z 400 = e" "z - e * 400 = r" "0 \<le> e" "e \<le> 12500" "0 \<le> r" "r < 400"
    using z zdiv_mono1 [of z 5000000 400] by (simp_all add: e_def r_def c_div_nonneg pos_imp_zdiv_nonneg_iff minus_div_mult_eq_mod)
  define p q g where "p = r div 4" and "q = r div 100" and "g = (153 * k + 2) div 5"
  have pqg: "c_div r 4 = p" "c_div r 100 = q" "c_div (153 * k + 2) 5 = g" "0 \<le> p" "p \<le> 99" "0 \<le> q" "q \<le> 3" "0 \<le> g" "g \<le> 337"
    using er k zdiv_mono1 [of r 399 4] zdiv_mono1 [of r 399 100] zdiv_mono1 [of "153 * k + 2" 1685 5]
    by (simp_all add: p_def q_def g_def c_div_nonneg pos_imp_zdiv_nonneg_iff)
  show ?thesis
    unfolding days_from_civil_def civil_days_def Let_def z_def [symmetric] k_def [symmetric]
    using z k er pqg assms(5,6) by (simp add: in_int_ok)
qed

lemma month_days_le: "month_days y m \<le> 31"
  by (simp add: month_days_def)

text \<open>\<open>timegm\<close> inverts the calendar up to the last second that 32 bits can count, and overflows behind it.\<close>

lemma timegm_gmtime: "timegm (gmtime t) = (if t < 2 ^ 31 then Some (int t) else None)"
proof -
  note g = gmtime_days [OF refl, of t]
  define y m d where "y = tm_year (gmtime t)" and "m = tm_mon (gmtime t)" and "d = tm_mday (gmtime t)"
  define D h n s where "D = int (t div 86400)" and "h = int (t mod 86400 div 3600)" and "n = int (t mod 3600 div 60)"
    and "s = int (t mod 60)"
  have hms: "tm_hour (gmtime t) = h" "tm_min (gmtime t) = n" "tm_sec (gmtime t) = s"
    by (simp_all add: gmtime_def h_def n_def s_def split: prod.split)
  have ymd: "1970 \<le> y + 1900" "0 \<le> m" "m < 12" "1 \<le> d" "d \<le> 31" "civil_days (y + 1900) (m + 1) d = D"
    using g month_days_le [of "y + 1900" "m + 1"] by (simp_all add: y_def m_def d_def D_def)
  have t: "60 * (60 * (24 * D + h) + n) + s = int t"
    unfolding D_def h_def n_def s_def using seconds_split [of t] by (metis of_nat_add of_nat_mult of_nat_numeral)
  have nonneg: "0 \<le> D" "0 \<le> h" "0 \<le> n" "0 \<le> s" by (simp_all add: D_def h_def n_def s_def)
  have run: "timegm (gmtime t) = do {
      year \<leftarrow> in_int (y + 1900); month \<leftarrow> in_int (m + 1); days \<leftarrow> days_from_civil year month d;
      k \<leftarrow> in_int (24 * days); k \<leftarrow> in_int (k + h); k \<leftarrow> in_int (60 * k); k \<leftarrow> in_int (k + n); k \<leftarrow> in_int (60 * k);
      in_int (k + s) }"
    unfolding timegm_def Let_def hms y_def [symmetric] m_def [symmetric] d_def [symmetric] using ymd(2,3) by simp
  show ?thesis
  proof (cases "t < 2 ^ 31")
    case True
    then have "y + 1900 < 10000" using gmtime_year_bound [of t] by (simp add: y_def)
    then have "days_from_civil (y + 1900) (m + 1) d = Some D" using days_from_civil_fits ymd by simp
    moreover have "int t < 2 ^ 31" using True by simp
    ultimately show ?thesis
      unfolding run using True ymd \<open>y + 1900 < 10000\<close> nonneg t by (simp add: in_int_ok)
  next
    case False
    have "timegm (gmtime t) \<noteq> Some x" for x
    proof
      assume "timegm (gmtime t) = Some x"
      then have "x = 60 * (60 * (24 * D + h) + n) + s" "x < 2 ^ 31"
        unfolding run using ymd(6) by (auto simp: bind_eq_Some_conv in_int_Some_iff dest!: days_from_civil_exact)
      then show False using t False by simp
    qed
    then show ?thesis using False by (cases "timegm (gmtime t)") auto
  qed
qed

section \<open>Numbers of fixed width\<close>

fun dec_text :: "nat \<Rightarrow> nat \<Rightarrow> byte list" where
  "dec_text 0 v = []"
| "dec_text (Suc n) v = (48 + of_nat (v div 10 ^ n)) # dec_text n (v mod 10 ^ n)"

lemma dec_text_numeral:
  "dec_text (numeral k) v = (48 + of_nat (v div 10 ^ pred_numeral k)) # dec_text (pred_numeral k) (v mod 10 ^ pred_numeral k)"
  by (simp add: numeral_eq_Suc)

lemma length_dec_text [simp]: "length (dec_text n v) = n"
  by (induction n arbitrary: v) simp_all

lemma store_next: "k = length pre \<Longrightarrow> store (pre @ b # rest) k x = Some (pre @ x # rest)"
  by (simp add: store_def list_update_append)

lemma digit_loop_text:
  "v < 10 ^ n \<Longrightarrow> n < length rest \<Longrightarrow>
   digit_loop n (length pre) (int v) (if n = 0 then 0 else 10 ^ (n - 1)) (pre @ rest)
     = Some ((pre @ dec_text n v) @ 0 # drop (Suc n) rest)"
proof (induction n arbitrary: v pre rest)
  case 0
  then show ?case using store_next [of "length pre" pre "hd rest" "tl rest" 0] by (cases rest) simp_all
next
  case (Suc n)
  obtain b rs where rest: "rest = b # rs" using Suc.prems(2) by (cases rest) auto
  have pow: "c_div (10 ^ n) 10 = (if n = 0 then 0 else 10 ^ (n - 1))"
    by (cases n) (simp_all add: c_div_nonneg)
  have digit: "c_div (int v) (10 ^ n) + 48 = int (v div 10 ^ n + 48)" "c_mod (int v) (10 ^ n) = int (v mod 10 ^ n)"
    by (simp_all add: c_div_nonneg c_mod_nonneg zdiv_int zmod_int)
  define x :: byte where "x = 48 + of_nat (v div 10 ^ n)"
  have x: "word_of_int (int (v div 10 ^ n + 48)) = x" by (simp add: x_def)
  have "digit_loop n (length (pre @ [x])) (int (v mod 10 ^ n)) (if n = 0 then 0 else 10 ^ (n - 1)) ((pre @ [x]) @ rs)
      = Some (((pre @ [x]) @ dec_text n (v mod 10 ^ n)) @ 0 # drop (Suc n) rs)"
    by (rule Suc.IH) (use Suc.prems(2) rest in simp_all)
  moreover have "digit_loop (Suc n) (length pre) (int v) (10 ^ n) (pre @ b # rs)
      = digit_loop n (length (pre @ [x])) (int (v mod 10 ^ n)) (if n = 0 then 0 else 10 ^ (n - 1)) ((pre @ [x]) @ rs)"
    unfolding digit_loop.simps digit pow x store_next [OF refl] by simp
  ultimately show ?case by (simp add: rest x_def)
qed

lemma number_at:
  assumes "k = length pre" and "v < 10 ^ n" and "n \<in> {2, 3, 4}" and "k + n < length buf"
  shows "Conversions_intToStringBuffer (int v) n (pre @ b # drop (Suc k) buf) k
    = Some ((pre @ dec_text n v) @ 0 # drop (Suc (k + n)) buf)"
proof -
  have "digit_base (n - 1) 1 = Some (10 ^ (n - 1))" using assms(3) by (auto simp: numeral_eq_Suc)
  moreover have "digit_loop n (length pre) (int v) (if n = 0 then 0 else 10 ^ (n - 1)) (pre @ b # drop (Suc k) buf)
      = Some ((pre @ dec_text n v) @ 0 # drop (Suc n) (b # drop (Suc k) buf))"
    by (rule digit_loop_text) (use assms in auto)
  ultimately show ?thesis using assms by (auto simp: Conversions_intToStringBuffer_def add.commute)
qed

lemma div_power_digit: "v < 10 ^ Suc n \<Longrightarrow> v div 10 ^ n < (10 :: nat)"
  by (rule less_mult_imp_div_less) simp

lemma dec_text_digits: "v < 10 ^ n \<Longrightarrow> list_all is_digit (dec_text n v)"
  by (induction n arbitrary: v) (simp_all add: div_power_digit)

lemma dec_text_value: "v < 10 ^ n \<Longrightarrow> foldl (\<lambda>a d. 10 * a + uint (d - 48)) a (dec_text n v) = a * 10 ^ n + int v"
proof (induction n arbitrary: v a)
  case (Suc n)
  define q r where "q = v div 10 ^ n" and "r = v mod 10 ^ n"
  have "v = 10 ^ n * q + r" by (simp add: q_def r_def)
  then have v: "int v = 10 ^ n * int q + int r" by simp
  have "foldl (\<lambda>a d. 10 * a + uint (d - 48)) a (dec_text (Suc n) v)
      = foldl (\<lambda>a d. 10 * a + uint (d - 48)) (10 * a + int q) (dec_text n r)"
    using div_power_digit [OF Suc.prems] by (simp add: q_def r_def)
  also have "\<dots> = (10 * a + int q) * 10 ^ n + int r" by (rule Suc.IH) (simp add: r_def)
  finally show ?case unfolding v by (simp add: distrib_right)
qed simp

lemma digitsToInt_dec_text:
  assumes "v < 10 ^ n" and "n \<le> 9"
  shows "StringUtils_digitsToInt (dec_text n v @ rest) (int n) = Some (int v)"
proof -
  have "(10 :: nat) ^ n \<le> 10 ^ 9" by (rule power_increasing) (use assms(2) in simp_all)
  then have "int v < 2 ^ 31" using assms(1) by simp
  then show ?thesis
    using digits_loop_value [of "dec_text n v" 0 rest] dec_text_digits [OF assms(1)] dec_text_value [OF assms(1), of 0]
    by (simp add: StringUtils_digitsToInt_def)
qed

section \<open>Times as text\<close>

text \<open>The digits of a generalized time, up to its time zone.\<close>

definition gt_fields :: "tm \<Rightarrow> byte list" where
  "gt_fields t = dec_text 4 (nat (tm_year t + 1900)) @ dec_text 2 (nat (tm_mon t + 1)) @ dec_text 2 (nat (tm_mday t))
     @ dec_text 2 (nat (tm_hour t)) @ dec_text 2 (nat (tm_min t)) @ dec_text 2 (nat (tm_sec t))"

definition gt_text :: "nat \<Rightarrow> byte list" where
  "gt_text ms = gt_fields (gmtime (ms div 1000)) @ 0x2e # dec_text 3 (ms mod 1000)"

definition tm_ok :: "tm \<Rightarrow> bool" where
  "tm_ok t \<longleftrightarrow> tm_year t + 1900 \<in> {0..<10000} \<and> tm_mon t + 1 \<in> {0..<100} \<and> tm_mday t \<in> {0..<100} \<and>
     tm_hour t \<in> {0..<100} \<and> tm_min t \<in> {0..<100} \<and> tm_sec t \<in> {0..<100}"

lemma gmtime_ok:
  assumes "t < 253402300800"
  shows "tm_ok (gmtime t)"
proof -
  note g = gmtime_days [OF refl, of t]
  have "int (month_days y m) \<le> 31" for y m by (simp add: month_days_def)
  with g(5) have day: "tm_mday (gmtime t) \<le> 31" by (rule order_trans)
  define h n s where "h = t mod 86400 div 3600" and "n = t mod 3600 div 60" and "s = t mod 60"
  have "tm_hour (gmtime t) = int h" "tm_min (gmtime t) = int n" "tm_sec (gmtime t) = int s"
    by (simp_all add: gmtime_def h_def n_def s_def split: prod.split)
  moreover have "h < 24" "n < 60" "s < 60" unfolding h_def n_def s_def
    using less_mult_imp_div_less [of "t mod 86400" 24 3600] less_mult_imp_div_less [of "t mod 3600" 60 60] by simp_all
  ultimately show ?thesis using day g(1-4) gmtime_year_bound [OF assms] by (simp add: tm_ok_def)
qed

lemma fields_written:
  assumes ok: "tm_ok t" and buf: "14 < length buf"
  shows "do {
     buffer \<leftarrow> Conversions_intToStringBuffer (tm_year t + 1900) 4 buf 0;
     buffer \<leftarrow> Conversions_intToStringBuffer (tm_mon t + 1) 2 buffer 4;
     buffer \<leftarrow> Conversions_intToStringBuffer (tm_mday t) 2 buffer 6;
     buffer \<leftarrow> Conversions_intToStringBuffer (tm_hour t) 2 buffer 8;
     buffer \<leftarrow> Conversions_intToStringBuffer (tm_min t) 2 buffer 10;
     buffer \<leftarrow> Conversions_intToStringBuffer (tm_sec t) 2 buffer 12;
     g buffer } = g (gt_fields t @ 0 # drop 15 buf)"
proof -
  have step: "0 \<le> v \<Longrightarrow> v < 10 ^ n \<Longrightarrow> n \<in> {2, 3, 4} \<Longrightarrow> k = length pre \<Longrightarrow> k + n < length buf \<Longrightarrow> j = Suc (k + n) \<Longrightarrow>
      Conversions_intToStringBuffer v n (pre @ b # drop (Suc k) buf) k
        = Some ((pre @ dec_text n (nat v)) @ 0 # drop j buf)" for v n k pre b j
    using number_at [of k pre "nat v" n buf b] by (simp add: nat_less_iff)
  obtain b where b: "buf = [] @ b # drop (Suc 0) buf" using buf by (cases buf) auto
  define d1 d2 d3 d4 d5 d6 where "d1 = dec_text 4 (nat (tm_year t + 1900))" and "d2 = dec_text 2 (nat (tm_mon t + 1))"
    and "d3 = dec_text 2 (nat (tm_mday t))" and "d4 = dec_text 2 (nat (tm_hour t))"
    and "d5 = dec_text 2 (nat (tm_min t))" and "d6 = dec_text 2 (nat (tm_sec t))"
  note d = this
  have len: "length d1 = 4" "length d2 = 2" "length d3 = 2" "length d4 = 2" "length d5 = 2" by (simp_all add: d)
  have s1: "Conversions_intToStringBuffer (tm_year t + 1900) 4 buf 0 = Some (([] @ d1) @ 0 # drop 5 buf)"
    unfolding d1_def by (subst b, rule step) (use ok buf in \<open>auto simp: tm_ok_def\<close>)
  have s2: "Conversions_intToStringBuffer (tm_mon t + 1) 2 (d1 @ 0 # drop (Suc 4) buf) 4 = Some ((d1 @ d2) @ 0 # drop 7 buf)"
    unfolding d2_def by (rule step) (use ok buf len in \<open>auto simp: tm_ok_def\<close>)
  have s3: "Conversions_intToStringBuffer (tm_mday t) 2 ((d1 @ d2) @ 0 # drop (Suc 6) buf) 6
      = Some (((d1 @ d2) @ d3) @ 0 # drop 9 buf)"
    unfolding d3_def by (rule step) (use ok buf len in \<open>auto simp: tm_ok_def\<close>)
  have s4: "Conversions_intToStringBuffer (tm_hour t) 2 (((d1 @ d2) @ d3) @ 0 # drop (Suc 8) buf) 8
      = Some ((((d1 @ d2) @ d3) @ d4) @ 0 # drop 11 buf)"
    unfolding d4_def by (rule step) (use ok buf len in \<open>auto simp: tm_ok_def\<close>)
  have s5: "Conversions_intToStringBuffer (tm_min t) 2 ((((d1 @ d2) @ d3) @ d4) @ 0 # drop (Suc 10) buf) 10
      = Some (((((d1 @ d2) @ d3) @ d4) @ d5) @ 0 # drop 13 buf)"
    unfolding d5_def by (rule step) (use ok buf len in \<open>auto simp: tm_ok_def\<close>)
  have s6: "Conversions_intToStringBuffer (tm_sec t) 2 (((((d1 @ d2) @ d3) @ d4) @ d5) @ 0 # drop (Suc 12) buf) 12
      = Some ((((((d1 @ d2) @ d3) @ d4) @ d5) @ d6) @ 0 # drop 15 buf)"
    unfolding d6_def by (rule step) (use ok buf len in \<open>auto simp: tm_ok_def\<close>)
  show ?thesis using s1 s2 s3 s4 s5 s6 by (simp add: gt_fields_def d [symmetric])
qed

lemma length_gt_fields: "length (gt_fields t) = 14"
  by (simp add: gt_fields_def)

lemma drop_next: "k < length buf \<Longrightarrow> \<exists>b. drop k buf = b # drop (Suc k) buf"
  by (metis Cons_nth_drop_Suc)

lemma time_written:
  assumes ms: "ms < 253402300800000" and buf: "20 \<le> length buf"
  shows "Conversions_msTimeToGeneralizedTime (of_nat ms) buf = Some (gt_text ms @ [0x5a, 0] @ drop 20 buf)"
proof -
  have u: "unat (of_nat ms :: uint64) = ms" using ms by (simp add: unat_of_nat)
  have w: "uint (of_nat ms mod 1000 :: uint64) = int (ms mod 1000)" "unat (of_nat ms div 1000 :: uint64) = ms div 1000"
    by (simp_all add: uint_nat unat_mod unat_div u)
  define t where "t = gmtime (ms div 1000)"
  have ok: "tm_ok t" unfolding t_def by (rule gmtime_ok) (use ms in simp)
  define A where "A = gt_fields t"
  have A: "length A = 14" by (simp add: A_def length_gt_fields)
  have s1: "store (A @ 0 # drop 15 buf) 14 0x2e = Some (A @ 0x2e # drop 15 buf)" by (rule store_next) (simp add: A)
  obtain b where "drop 15 buf = b # drop (Suc 15) buf"
    using buf drop_next [of 15 buf] by auto
  then have "A @ 0x2e # drop 15 buf = (A @ [0x2e]) @ b # drop (Suc 15) buf" by simp
  moreover have "Conversions_intToStringBuffer (int (ms mod 1000)) 3 ((A @ [0x2e]) @ b # drop (Suc 15) buf) 15
      = Some (((A @ [0x2e]) @ dec_text 3 (ms mod 1000)) @ 0 # drop (Suc (15 + 3)) buf)"
    by (rule number_at) (use A buf in simp_all)
  ultimately have s2: "Conversions_intToStringBuffer (int (ms mod 1000)) 3 (A @ 0x2e # drop 15 buf) 15
      = Some ((A @ 0x2e # dec_text 3 (ms mod 1000)) @ 0 # drop 19 buf)" by simp
  let ?B = "A @ 0x2e # dec_text 3 (ms mod 1000)"
  have s3: "store (?B @ 0 # drop 19 buf) 18 0x5a = Some (?B @ 0x5a # drop 19 buf)" by (rule store_next) (simp add: A)
  obtain c where c: "drop 19 buf = c # drop 20 buf"
    using buf drop_next [of 19 buf] by auto
  have s4: "store ((?B @ [0x5a]) @ c # drop 20 buf) 19 0 = Some ((?B @ [0x5a]) @ 0 # drop 20 buf)"
    by (rule store_next) (simp add: A)
  have "Conversions_msTimeToGeneralizedTime (of_nat ms) buf = do {
      buffer \<leftarrow> store (A @ 0 # drop 15 buf) 14 0x2e;
      buffer \<leftarrow> Conversions_intToStringBuffer (int (ms mod 1000)) 3 buffer 15;
      buffer \<leftarrow> store buffer 18 0x5a;
      store buffer 19 0 }"
    unfolding Conversions_msTimeToGeneralizedTime_def Let_def w t_def [symmetric] A_def
    by (rule fields_written [OF ok]) (use buf in simp)
  then show ?thesis using s1 s2 s3 s4 by (simp add: c gt_text_def A_def t_def)
qed

section \<open>Reading the text\<close>

lemma digit_of_dec_text:
  assumes "v < 10 ^ n" and "c \<in> set (dec_text n v)"
  shows "StringUtils_isDigit c" and "c \<noteq> 0"
proof -
  have "is_digit c" using dec_text_digits [OF assms(1)] assms(2) by (simp add: list_all_iff)
  then show "StringUtils_isDigit c" using digitToInt_digit [of c] uint_ge_0 [of "c - 48"]
    by (auto simp: StringUtils_digitToInt_def split: if_splits)
  show "c \<noteq> 0" using \<open>is_digit c\<close> by (auto simp: is_digit_def)
qed

lemma dec_text_no_nul: "v < 10 ^ n \<Longrightarrow> 0 \<notin> set (dec_text n v)"
  using digit_of_dec_text(2) by blast

lemma parse_fields_step:
  "v < 10 ^ w \<Longrightarrow> w \<le> 9 \<Longrightarrow> parse_fields (dec_text w v @ r) (w # ws)
     = map_option (map_option ((#) (int v))) (parse_fields r ws)"
  by (cases "parse_fields r ws") (simp_all add: digitsToInt_dec_text)

lemma fields_parsed:
  assumes "tm_ok t"
  shows "parse_fields (gt_fields t @ r) [4, 2, 2, 2, 2, 2]
    = Some (Some [tm_year t + 1900, tm_mon t + 1, tm_mday t, tm_hour t, tm_min t, tm_sec t])"
  using assms unfolding gt_fields_def append_assoc tm_ok_def
  by (simp add: parse_fields_step nat_less_iff del: parse_fields.simps(2))

lemma fraction_parsed:
  assumes "v < 1000" and "\<not> StringUtils_isDigit c"
  shows "parse_fraction (0x2e # dec_text 3 v @ c # r) = Some (int v, c # r)"
proof -
  have run: "fraction_loop (ds @ c # r) n s = Some (n + length ds, s * 10 ^ length ds)"
    if "\<forall>d \<in> set ds. StringUtils_isDigit d" "0 \<le> s" "s * 10 ^ length ds < 2 ^ 31" for ds n s
    using that
  proof (induction ds arbitrary: n s)
    case (Cons d ds)
    have "s * 10 * 1 \<le> s * 10 * 10 ^ length ds" by (rule mult_left_mono) (use Cons.prems in simp_all)
    then show ?case using Cons.IH [of "s * 10" "Suc n"] Cons.prems by simp
  qed (use assms(2) in simp)
  have "fraction_loop (dec_text 3 v @ c # r) 0 1 = Some (3, 1000)"
    using run [of "dec_text 3 v" 1 0] digit_of_dec_text(1) [of v 3] assms(1) by simp
  moreover have "StringUtils_digitsToInt (dec_text 3 v @ c # r) 3 = Some (int v)"
    using digitsToInt_dec_text [of v 3 "c # r"] assms(1) by simp
  moreover have "c_div (int v * 1000) 1000 = int v" by (simp add: c_div_nonneg)
  moreover have "drop 3 (dec_text 3 v @ c # r) = c # r" by simp
  ultimately show ?thesis using assms(1) by (simp add: parse_fraction_def rd_def)
qed

text \<open>The hours and minutes of a time zone.\<close>

lemma offset_parsed:
  "h < 100 \<Longrightarrow> n < 100 \<Longrightarrow> getSecondsOffset (dec_text 2 h @ dec_text 2 n @ r) = Some (int (h * 3600 + n * 60))"
  using digitsToInt_dec_text [of h 2 "dec_text 2 n @ r"] digitsToInt_dec_text [of n 2 r]
  by (simp add: getSecondsOffset_def)

lemma time_read:
  assumes ms: "ms < 253402300800000" and c: "\<not> StringUtils_isDigit c" "c \<noteq> 0"
    and zone: "parse_zone mktime to_utc (gmtime (ms div 1000)) (c # r) = Some (Some s)" and nul: "0 \<in> set r"
  shows "Conversions_generalizedTimeToMsTime mktime to_utc (gt_text ms @ c # r)
    = Some (word_of_int s * 1000 + of_nat (ms mod 1000))"
proof -
  define t where "t = gmtime (ms div 1000)"
  have ok: "tm_ok t" unfolding t_def by (rule gmtime_ok) (use ms in simp)
  obtain u v where r: "r = u @ 0 # v" "0 \<notin> set u" using nul by (metis split_list_first)
  have small: "nat (tm_year t + 1900) < 10 ^ 4" "nat (tm_mon t + 1) < 10 ^ 2" "nat (tm_mday t) < 10 ^ 2"
      "nat (tm_hour t) < 10 ^ 2" "nat (tm_min t) < 10 ^ 2" "nat (tm_sec t) < 10 ^ 2" "ms mod 1000 < 10 ^ 3"
    using ok by (simp_all add: tm_ok_def nat_less_iff)
  have nz: "0 \<notin> set (gt_text ms)"
    using small by (simp add: gt_text_def gt_fields_def t_def [symmetric] dec_text_no_nul)
  have len: "strlen (gt_text ms @ c # r) = Some (length (gt_text ms @ c # u))"
    using strlen_append_zero [of "gt_text ms @ c # u" v] nz c(2) r by simp
  have whole_text: "gt_text ms @ c # r = gt_fields t @ 0x2e # dec_text 3 (ms mod 1000) @ c # r"
    by (simp add: gt_text_def t_def)
  have "drop 14 (gt_text ms @ c # r) = 0x2e # dec_text 3 (ms mod 1000) @ c # r"
    unfolding whole_text by (simp add: length_gt_fields)
  then have "parse_fraction (drop 14 (gt_text ms @ c # r)) = Some (int (ms mod 1000), c # r)"
    using fraction_parsed [OF _ c(1)] by simp
  moreover have "parse_fields (gt_text ms @ c # r) [4, 2, 2, 2, 2, 2]
      = Some (Some [tm_year t + 1900, tm_mon t + 1, tm_mday t, tm_hour t, tm_min t, tm_sec t])"
    unfolding whole_text by (rule fields_parsed [OF ok])
  moreover have "\<not> length (gt_text ms @ c # u) < 14" by (simp add: gt_text_def length_gt_fields)
  moreover have "\<lparr>tm_year = tm_year t, tm_mon = tm_mon t, tm_mday = tm_mday t, tm_hour = tm_hour t, tm_min = tm_min t,
      tm_sec = tm_sec t\<rparr> = t" by (cases t) simp
  then have "parse_zone mktime to_utc \<lparr>tm_year = tm_year t, tm_mon = tm_mon t, tm_mday = tm_mday t, tm_hour = tm_hour t,
      tm_min = tm_min t, tm_sec = tm_sec t\<rparr> (c # r) = Some (Some s)" using zone by (simp only: t_def)
  ultimately show ?thesis
    using len unfolding Conversions_generalizedTimeToMsTime_def t_def [symmetric]
    by (simp del: parse_fields.simps)
qed

section \<open>Properties\<close>

text \<open>C32. Times as text: a time before the year 10000 is written as a generalized time of 19 characters and a terminator,
  into a buffer of at least 20 octets and nowhere else. Read back with the time zone Z it gives the same time; with an
  offset of hours and minutes the offset is subtracted when the zone is ahead and added when it is behind. The parser relies on
  the timegm of the platform for the seconds of the date: it has to give back the time that gmtime took apart, as the one
  of the C library does, and as the one of the source does for the times of the last property below.\<close>

theorem generalized_time_roundtrip:
  assumes "ms < 253402300800000" and "20 \<le> length buffer" and "h < 100" and "n < 100"
    and "to_utc (gmtime (ms div 1000)) = Some (int (ms div 1000))"
  shows "Conversions_msTimeToGeneralizedTime (of_nat ms) buffer = Some (gt_text ms @ [0x5a, 0] @ drop 20 buffer) \<and>
    length (gt_text ms) = 18 \<and>
    Conversions_generalizedTimeToMsTime mktime to_utc (gt_text ms @ [0x5a, 0] @ rest) = Some (of_nat ms) \<and>
    Conversions_generalizedTimeToMsTime mktime to_utc (gt_text ms @ 0x2b # dec_text 2 h @ dec_text 2 n @ 0 # rest)
      = Some (of_nat ms - of_nat ((h * 60 + n) * 60000)) \<and>
    Conversions_generalizedTimeToMsTime mktime to_utc (gt_text ms @ 0x2d # dec_text 2 h @ dec_text 2 n @ 0 # rest)
      = Some (of_nat ms + of_nat ((h * 60 + n) * 60000))"
proof -
  note read = time_read [OF assms(1), where mktime = mktime and to_utc = to_utc]
  let ?t = "ms div 1000" and ?o = "h * 3600 + n * 60"
  have "of_nat ms = (of_nat (?t * 1000 + ms mod 1000) :: uint64)" by simp
  then have whole: "of_nat ms = (of_nat ?t * 1000 + of_nat (ms mod 1000) :: uint64)"
    by (simp only: of_nat_add of_nat_mult of_nat_numeral)
  have off: "(of_nat ((h * 60 + n) * 60000) :: uint64) = of_nat ?o * 1000" by (simp add: algebra_simps)
  have o: "getSecondsOffset (dec_text 2 h @ dec_text 2 n @ 0 # rest) = Some (int ?o)" by (rule offset_parsed [OF assms(3,4)])
  have "Conversions_generalizedTimeToMsTime mktime to_utc (gt_text ms @ 0x5a # 0 # rest)
      = Some (word_of_int (int ?t) * 1000 + of_nat (ms mod 1000))"
    by (rule read) (simp_all add: StringUtils_isDigit_def parse_zone_def rd_def assms(5))
  moreover have "Conversions_generalizedTimeToMsTime mktime to_utc (gt_text ms @ 0x2b # dec_text 2 h @ dec_text 2 n @ 0 # rest)
      = Some (word_of_int (int ?t - int ?o) * 1000 + of_nat (ms mod 1000))"
    by (rule read) (simp_all add: StringUtils_isDigit_def parse_zone_def rd_def assms(5) o)
  moreover have "Conversions_generalizedTimeToMsTime mktime to_utc (gt_text ms @ 0x2d # dec_text 2 h @ dec_text 2 n @ 0 # rest)
      = Some (word_of_int (int ?t + int ?o) * 1000 + of_nat (ms mod 1000))"
    by (rule read) (simp_all add: StringUtils_isDigit_def parse_zone_def rd_def assms(5) o)
  moreover have "length (gt_text ms) = 18" by (simp add: gt_text_def length_gt_fields)
  ultimately show ?thesis
    using time_written [OF assms(1,2)] unfolding whole off by (simp add: algebra_simps)
qed

text \<open>The first of March 1972, 12:34:56.789, with the \<open>timegm\<close> of the source.\<close>

theorem generalized_time_roundtrip_witness:
  "Conversions_generalizedTimeToMsTime (\<lambda>_. 0) timegm (gt_text 68301296789 @ [0x5a, 0] @ []) = Some 68301296789 \<and>
   gt_text 68301296789 = [0x31, 0x39, 0x37, 0x32, 0x30, 0x33, 0x30, 0x31, 0x31, 0x32, 0x33, 0x34, 0x35, 0x36, 0x2e, 0x37, 0x38, 0x39]"
proof
  have "timegm (gmtime (68301296789 div 1000)) = Some (int (68301296789 div 1000))" by (simp add: timegm_gmtime)
  then show "Conversions_generalizedTimeToMsTime (\<lambda>_. 0) timegm (gt_text 68301296789 @ [0x5a, 0] @ []) = Some 68301296789"
    using generalized_time_roundtrip [of 68301296789 "replicate 20 7" 0 0 timegm "\<lambda>_. 0" "[]"] by simp
  show "gt_text 68301296789 = [0x31, 0x39, 0x37, 0x32, 0x30, 0x33, 0x30, 0x31, 0x31, 0x32, 0x33, 0x34, 0x35, 0x36, 0x2e, 0x37, 0x38, 0x39]"
    by (simp add: gt_text_def gt_fields_def gmtime_def year_loop.simps month_loop.simps year_days_def month_days_def
        leap_year_def dec_text_numeral)
qed

text \<open>C33. The calendar of the source, which it uses on Windows only, in its 32 bit arithmetic: from 1970 on, for millions of
  years, the closed formula of days_from_civil does not overflow and is the number of days that are counted, year by year
  with their leap days and then month by month. The seconds that timegm makes of a broken down time are the time it was made
  from as long as 32 bits can count them, which is until January 2038, and for every later time the arithmetic overflows.\<close>

theorem days_from_civil_counts:
  assumes "j < 12" and "k \<le> 4000000" and "1 \<le> d" and "d \<le> 31"
  shows "days_from_civil (1970 + int k) (1 + int j) d
      = Some ((\<Sum>i < k. int (year_days (1970 + int i))) + (\<Sum>i < j. int (month_days (1970 + int k) (1 + int i))) + d - 1) \<and>
    timegm (gmtime t) = (if t < 2 ^ 31 then Some (int t) else None)"
proof -
  have "civil_days (1970 + int k) (1 + int j) d = month_start (1970 + int k) (1 + int j) + d - 1"
    using assms by (simp add: month_start_def civil_days_eq)
  then show ?thesis
    using year_start_count [of k] month_start_count [of "1970 + int k" j] assms timegm_gmtime [of t]
      days_from_civil_fits [of "1970 + int k" "1 + int j" d] by simp
qed

theorem days_from_civil_counts_witness:
  "days_from_civil 1971 2 3 = Some (365 + 31 + 3 - 1) \<and> timegm (gmtime 86400) = Some 86400 \<and> timegm (gmtime 2147483648) = None"
  using days_from_civil_counts [of 1 1 3 86400] days_from_civil_counts [of 1 1 3 2147483648]
  by (simp add: year_days_def month_days_def leap_year_def)

end
