(* ===== verification/Mms_Print.thy ===== *)
theory Mms_Print
  imports Conversions
begin

text \<open>
  Values as text, \<open>MmsValue_printToBuffer\<close> of \<open>src/mms/iso_mms/common/mms_value.cc\<close>. A pointer into the buffer is the list
  of the octets from that address on. The text that \<open>printf\<close> makes of a floating point number is an argument, and
  \<open>None\<close> is an access outside the buffer.
\<close>

section \<open>Formatted output\<close>

text \<open>\<open>snprintf\<close> with a size that is converted to an unsigned number: nothing is written for 0, and a negative size is no
  limit.\<close>

definition snprintf :: "byte list \<Rightarrow> int \<Rightarrow> byte list \<Rightarrow> byte list option" where
  "snprintf buffer sz txt =
     (if sz = 0 then Some buffer
      else map_option fst (put_bytes ((if 0 < sz then take (nat sz - 1) txt else txt) @ [0]) (buffer, 0)))"

definition int_text :: "int \<Rightarrow> byte list" where
  "int_text i = (if i < 0 then 0x2d # to_string (nat (- i)) else to_string (nat i))"

text \<open>The text of a time, from the local array of 20 octets.\<close>

definition time_text :: "uint64 \<Rightarrow> byte list option" where
  "time_text msTime = do {
     tempBuf \<leftarrow> Conversions_msTimeToGeneralizedTime msTime (replicate 20 0);
     n \<leftarrow> strlen tempBuf;
     Some (take n tempBuf) }"

section \<open>The printer\<close>

text \<open>The loop over the bits, and the one over the octets, which are printed with two digits each.\<close>

fun print_bits :: "MmsValue \<Rightarrow> nat \<Rightarrow> nat \<Rightarrow> byte list \<Rightarrow> byte list option" where
  "print_bits self i 0 buffer = store buffer i 0"
| "print_bits self i (Suc n) buffer = do {
     b \<leftarrow> MmsValue_getBitStringBit self (int i);
     buffer \<leftarrow> store buffer i (if b then 0x31 else 0x30);
     print_bits self (i + 1) n buffer }"

fun print_octets :: "byte list \<Rightarrow> nat \<Rightarrow> nat \<Rightarrow> nat \<Rightarrow> byte list \<Rightarrow> int \<Rightarrow> byte list option" where
  "print_octets buf i 0 bufPos buffer bufferSize = Some buffer"
| "print_octets buf i (Suc n) bufPos buffer bufferSize = do {
     b \<leftarrow> rd buf (int i);
     rest \<leftarrow> snprintf (drop bufPos buffer) (bufferSize - int bufPos) [hex_digit (b div 16), hex_digit (b mod 16)];
     let buffer = take bufPos buffer @ rest;
     if bufferSize \<le> int (bufPos + 2) then Some buffer
     else print_octets buf (i + 1) n (bufPos + 2) buffer bufferSize }"

fun print_scalar :: "(uint32 \<Rightarrow> byte list) \<Rightarrow> MmsValue \<Rightarrow> byte list \<Rightarrow> int \<Rightarrow> byte list option" where
  "print_scalar float_text (MmsBinaryTime sz buf) buffer bufferSize = do {
     ms \<leftarrow> MmsValue_getBinaryTimeAsUtcMs (MmsBinaryTime sz buf);
     t \<leftarrow> time_text ms;
     snprintf buffer bufferSize t }"
| "print_scalar float_text (MmsBitString sz buf) buffer bufferSize =
     (if bufferSize < int sz
      then if bufferSize < 0 then None
           else map_option fst (put_bytes (replicate (nat bufferSize) 0) (buffer, 0))
      else print_bits (MmsBitString sz buf) 0 sz buffer)"
| "print_scalar float_text (MmsBoolean b) buffer bufferSize =
     StringUtils_copyStringMax (Some buffer) bufferSize (c_str (ascii (if b then ''true'' else ''false'')))"
| "print_scalar float_text (MmsDataAccessError e) buffer bufferSize =
     snprintf buffer bufferSize (ascii ''error '' @ int_text (sint e))"
| "print_scalar float_text (MmsFloat exponentWidth formatWidth buf) buffer bufferSize = do {
     x \<leftarrow> MmsValue_toFloat (MmsFloat exponentWidth formatWidth buf);
     snprintf buffer bufferSize (float_text x) }"
| "print_scalar float_text MmsGeneralizedTime buffer bufferSize =
     StringUtils_copyStringMax (Some buffer) bufferSize (c_str (ascii ''generalized time''))"
| "print_scalar float_text (MmsInteger v) buffer bufferSize = do {
     i \<leftarrow> MmsValue_toInt64 (MmsInteger v);
     snprintf buffer bufferSize (int_text (sint i)) }"
| "print_scalar float_text (MmsOctetString sz maxSz buf) buffer bufferSize =
     print_octets buf 0 (unat sz) 0 buffer bufferSize"
| "print_scalar float_text (MmsUnsigned v) buffer bufferSize = do {
     i \<leftarrow> MmsValue_toUint32 (MmsUnsigned v);
     snprintf buffer bufferSize (to_string (unat i)) }"
| "print_scalar float_text (MmsUtcTime utcTime) buffer bufferSize = do {
     ms \<leftarrow> MmsValue_getUtcTimeInMs (MmsUtcTime utcTime);
     t \<leftarrow> time_text ms;
     snprintf buffer bufferSize t }"
| "print_scalar float_text (MmsString buf sz) buffer bufferSize = do {
     str \<leftarrow> buf;
     StringUtils_copyStringMax (Some buffer) bufferSize str }"
| "print_scalar float_text (MmsVisibleString buf sz) buffer bufferSize = do {
     str \<leftarrow> buf;
     StringUtils_copyStringMax (Some buffer) bufferSize str }"
| "print_scalar float_text v buffer bufferSize =
     StringUtils_copyStringMax (Some buffer) bufferSize (c_str (ascii ''unknown type''))"

text \<open>The brace and the terminator behind the elements.\<close>

definition close_brace :: "nat \<Rightarrow> byte list \<Rightarrow> int \<Rightarrow> byte list option" where
  "close_brace bufPos buffer bufferSize =
     (if int bufPos < bufferSize - 1
      then do {
        buffer \<leftarrow> store buffer bufPos 0x7d;
        store buffer (bufPos + 1) 0 }
      else if bufferSize < 1 then None
      else store buffer (nat bufferSize - 1) 0)"

definition first_zero :: "byte list \<Rightarrow> int \<Rightarrow> byte list option" where
  "first_zero buffer bufferSize = (if bufferSize \<noteq> 0 then store buffer 0 0 else Some buffer)"

fun MmsValue_printToBuffer :: "(uint32 \<Rightarrow> byte list) \<Rightarrow> MmsValue option \<Rightarrow> byte list \<Rightarrow> int \<Rightarrow> byte list option"
and print_elements ::
    "(uint32 \<Rightarrow> byte list) \<Rightarrow> MmsValue option list \<Rightarrow> nat \<Rightarrow> byte list \<Rightarrow> int \<Rightarrow> (nat \<times> byte list) option" where
  "MmsValue_printToBuffer float_text None buffer bufferSize =
     StringUtils_copyStringMax (Some buffer) bufferSize (c_str (ascii ''(null)''))"
| "MmsValue_printToBuffer float_text (Some (MmsArray cs)) buffer bufferSize = do {
     buffer \<leftarrow> first_zero buffer bufferSize;
     if bufferSize = 0 then Some buffer
     else do {
       buffer \<leftarrow> store buffer 0 0x7b;
       (bufPos, buffer) \<leftarrow> print_elements float_text cs 1 buffer bufferSize;
       close_brace bufPos buffer bufferSize } }"
| "MmsValue_printToBuffer float_text (Some (MmsStructure cs)) buffer bufferSize = do {
     buffer \<leftarrow> first_zero buffer bufferSize;
     if bufferSize = 0 then Some buffer
     else do {
       buffer \<leftarrow> store buffer 0 0x7b;
       (bufPos, buffer) \<leftarrow> print_elements float_text cs 1 buffer bufferSize;
       close_brace bufPos buffer bufferSize } }"
| "MmsValue_printToBuffer float_text (Some v) buffer bufferSize = do {
     buffer \<leftarrow> first_zero buffer bufferSize;
     print_scalar float_text v buffer bufferSize }"
| "print_elements float_text [] bufPos buffer bufferSize = Some (bufPos, buffer)"
| "print_elements float_text (e # es) bufPos buffer bufferSize = do {
     currentStr \<leftarrow> MmsValue_printToBuffer float_text e (drop bufPos buffer) (bufferSize - int bufPos);
     n \<leftarrow> strlen currentStr;
     let buffer = take bufPos buffer @ currentStr;
     let bufPos = bufPos + n;
     if bufferSize \<le> int bufPos then Some (bufPos, buffer)
     else if es = [] then Some (bufPos, buffer)
     else do {
       buffer \<leftarrow> store buffer bufPos 0x2c;
       print_elements float_text es (bufPos + 1) buffer bufferSize } }"

section \<open>The text of a value\<close>

text \<open>\<open>None\<close> for a value whose members do not hold what its type says.\<close>

fun scalar_text :: "(uint32 \<Rightarrow> byte list) \<Rightarrow> MmsValue \<Rightarrow> byte list option" where
  "scalar_text float_text (MmsBinaryTime sz buf) = MmsValue_getBinaryTimeAsUtcMs (MmsBinaryTime sz buf) \<bind> time_text"
| "scalar_text float_text (MmsBitString sz buf) =
     (if length buf = bit_byte_size sz then Some (map (\<lambda>b. if b then 0x31 else 0x30) (bits_of sz buf)) else None)"
| "scalar_text float_text (MmsBoolean b) = Some (ascii (if b then ''true'' else ''false''))"
| "scalar_text float_text (MmsDataAccessError e) = Some (ascii ''error '' @ int_text (sint e))"
| "scalar_text float_text (MmsFloat w f buf) = map_option float_text (MmsValue_toFloat (MmsFloat w f buf))"
| "scalar_text float_text MmsGeneralizedTime = Some (ascii ''generalized time'')"
| "scalar_text float_text (MmsInteger v) = map_option (\<lambda>i. int_text (sint i)) (BerInteger_toInt64 v)"
| "scalar_text float_text (MmsOctetString sz maxSz buf) =
     (if unat sz \<le> length buf then Some (hex_text (take (unat sz) buf)) else None)"
| "scalar_text float_text (MmsUnsigned v) = map_option (\<lambda>i. to_string (unat i)) (BerInteger_toUint32 v)"
| "scalar_text float_text (MmsUtcTime t) = MmsValue_getUtcTimeInMs (MmsUtcTime t) \<bind> time_text"
| "scalar_text float_text (MmsString buf sz) = (case buf of None \<Rightarrow> None
     | Some s \<Rightarrow> if 0 \<in> set s then Some (takeWhile (\<lambda>c. c \<noteq> 0) s) else None)"
| "scalar_text float_text (MmsVisibleString buf sz) = (case buf of None \<Rightarrow> None
     | Some s \<Rightarrow> if 0 \<in> set s then Some (takeWhile (\<lambda>c. c \<noteq> 0) s) else None)"
| "scalar_text float_text v = Some (ascii ''unknown type'')"

fun value_text :: "(uint32 \<Rightarrow> byte list) \<Rightarrow> MmsValue option \<Rightarrow> byte list option"
and elements_text :: "(uint32 \<Rightarrow> byte list) \<Rightarrow> MmsValue option list \<Rightarrow> byte list option" where
  "value_text float_text None = Some (ascii ''(null)'')"
| "value_text float_text (Some (MmsArray cs)) = map_option (\<lambda>t. 0x7b # t @ [0x7d]) (elements_text float_text cs)"
| "value_text float_text (Some (MmsStructure cs)) = map_option (\<lambda>t. 0x7b # t @ [0x7d]) (elements_text float_text cs)"
| "value_text float_text (Some v) = scalar_text float_text v"
| "elements_text float_text [] = Some []"
| "elements_text float_text (e # es) = do {
     t \<leftarrow> value_text float_text e;
     if es = [] then Some t
     else do { u \<leftarrow> elements_text float_text es; Some (t @ 0x2c # u) } }"

section \<open>Printing within the buffer\<close>

text \<open>The text with its terminator, and nothing changed behind the size that was given.\<close>

definition prints :: "byte list option \<Rightarrow> byte list \<Rightarrow> int \<Rightarrow> byte list \<Rightarrow> bool" where
  "prints res buffer bufferSize t \<longleftrightarrow> (\<exists>r. res = Some (t @ 0 # r) \<and> length (t @ 0 # r) = length buffer \<and>
     drop (nat bufferSize) (t @ 0 # r) = drop (nat bufferSize) buffer)"

lemma prints_cut:
  assumes "int (length t) < n" and "n \<le> int (length buffer)"
  shows "prints (Some (t @ 0 # drop (Suc (length t)) buffer)) buffer n t"
proof -
  obtain k where "nat n = length t + Suc k" using that [of "nat n - length t - 1"] assms(1) by simp
  then show ?thesis using assms by (auto simp: prints_def add.commute)
qed

lemma copy_prints:
  assumes "0 \<notin> set t" and "int (length t) < n" and "n \<le> int (length buffer)"
  shows "prints (StringUtils_copyStringMax (Some buffer) n (t @ 0 # r)) buffer n t"
proof -
  have "copy_max (int (nat n - 1)) (t @ 0 # r) (length ([] :: byte list)) ([] @ buffer)
      = Some ([] @ take (nat n - 1 - length ([] :: byte list)) t @ 0 # drop (Suc (min (nat n - 1 - length ([] :: byte list)) (length t))) buffer)"
    by (rule copy_max_spec) (use assms in auto)
  moreover have "int (nat n - 1) = n - 1" using assms(2) by simp
  ultimately have "StringUtils_copyStringMax (Some buffer) n (t @ 0 # r) = Some (t @ 0 # drop (Suc (length t)) buffer)"
    using assms(2) by (simp add: StringUtils_copyStringMax_def)
  then show ?thesis using prints_cut [OF assms(2,3)] by simp
qed

lemma snprintf_prints:
  assumes "int (length t) < n" and "n \<le> int (length buffer)"
  shows "prints (snprintf buffer n t) buffer n t"
proof -
  have "put_bytes (t @ [0]) (buffer, 0) = Some ((t @ [0]) @ drop (Suc (length t)) buffer, Suc (length t))"
    using put_bytes_exact [of 0 "t @ [0]" buffer] assms by simp
  moreover have "take (nat n - 1) t = t" "n \<noteq> 0" "0 < n" using assms(1) by simp_all
  ultimately have "snprintf buffer n t = Some (t @ 0 # drop (Suc (length t)) buffer)" by (simp add: snprintf_def)
  then show ?thesis using prints_cut [OF assms] by simp
qed

lemma prints_same:
  "length buffer' = length buffer \<Longrightarrow> drop (nat n) buffer' = drop (nat n) buffer \<Longrightarrow> prints res buffer' n t = prints res buffer n t"
  by (simp add: prints_def)

lemma bits_printed:
  assumes "length buf = bit_byte_size sz"
  shows "length pre + n = sz \<Longrightarrow> n < length rest \<Longrightarrow>
   print_bits (MmsBitString sz buf) (length pre) n (pre @ rest)
     = Some ((pre @ map (\<lambda>b. if b then 0x31 else 0x30) (drop (length pre) (bits_of sz buf))) @ 0 # drop (Suc n) rest)"
proof (induction n arbitrary: pre rest)
  case 0
  then obtain c cs where "rest = c # cs" by (cases rest) auto
  then show ?case using 0 by (simp add: store_next)
next
  case (Suc n)
  obtain c cs where rest: "rest = c # cs" using Suc.prems(2) by (cases rest) auto
  let ?b = "bits_of sz buf ! length pre" and ?f = "\<lambda>b. if b then 0x31 else 0x30 :: byte"
  have i: "length pre < sz" using Suc.prems(1) by simp
  have "print_bits (MmsBitString sz buf) (length (pre @ [?f ?b])) n ((pre @ [?f ?b]) @ cs)
      = Some (((pre @ [?f ?b]) @ map ?f (drop (length (pre @ [?f ?b])) (bits_of sz buf))) @ 0 # drop (Suc n) cs)"
    by (rule Suc.IH) (use Suc.prems rest in simp_all)
  moreover have "drop (length pre) (bits_of sz buf) = ?b # drop (Suc (length pre)) (bits_of sz buf)"
    using i by (simp add: Cons_nth_drop_Suc)
  ultimately show ?case
    using getBitStringBit_bits [OF i assms] by (simp add: rest store_next)
qed

lemma bits_full:
  assumes "length buf = bit_byte_size sz"
  shows "i + n = sz \<Longrightarrow> length buffer = sz \<Longrightarrow> print_bits (MmsBitString sz buf) i n buffer = None"
proof (induction n arbitrary: i buffer)
  case (Suc n)
  have "i < sz" using Suc.prems(1) by simp
  then show ?case using getBitStringBit_bits [OF _ assms] Suc by (simp add: store_def)
qed (simp add: store_def)

lemma octets_printed:
  "i + n \<le> length buf \<Longrightarrow> int (length pre + 2 * n) < bs \<Longrightarrow> bs \<le> int (length (pre @ 0 # r)) \<Longrightarrow>
   prints (print_octets buf i n (length pre) (pre @ 0 # r) bs) (pre @ 0 # r) bs (pre @ hex_text (take n (drop i buf)))"
proof (induction n arbitrary: i pre r)
  case 0
  then show ?case by (simp add: prints_def hex_text_def)
next
  case (Suc n)
  have i: "i < length buf" using Suc.prems(1) by simp
  let ?h = "[hex_digit (buf ! i div 16), hex_digit (buf ! i mod 16)]"
  have "prints (snprintf (0 # r) (bs - int (length pre)) ?h) (0 # r) (bs - int (length pre)) ?h"
    by (rule snprintf_prints) (use Suc.prems in simp_all)
  then obtain r' where r': "snprintf (0 # r) (bs - int (length pre)) ?h = Some (?h @ 0 # r')"
      "length (?h @ 0 # r') = length (0 # r)" "drop (nat (bs - int (length pre))) (?h @ 0 # r') = drop (nat (bs - int (length pre))) (0 # r)"
    by (auto simp: prints_def)
  let ?pre = "pre @ ?h"
  have "prints (print_octets buf (i + 1) n (length ?pre) (?pre @ 0 # r') bs) (?pre @ 0 # r') bs (?pre @ hex_text (take n (drop (i + 1) buf)))"
    by (rule Suc.IH) (use Suc.prems r'(2) in simp_all)
  moreover have "print_octets buf i (Suc n) (length pre) (pre @ 0 # r) bs = print_octets buf (i + 1) n (length ?pre) (?pre @ 0 # r') bs"
    using r'(1) i Suc.prems(2) by (simp add: rd_def)
  moreover have "nat bs = length pre + nat (bs - int (length pre))" using Suc.prems(2) by simp
  then have "drop (nat bs) (?pre @ 0 # r') = drop (nat bs) (pre @ 0 # r)" "length (?pre @ 0 # r') = length (pre @ 0 # r)"
    using r'(2,3) by simp_all
  moreover have "?pre @ hex_text (take n (drop (i + 1) buf)) = pre @ hex_text (take (Suc n) (drop i buf))"
    by (subst Cons_nth_drop_Suc [OF i, symmetric]) (simp add: hex_text_def)
  ultimately show ?case using prints_same by metis
qed

section \<open>Texts without a terminator\<close>

lemma to_string_no_nul: "0 \<notin> set (to_string n)"
  using to_string_correct(2) [of n] by (auto simp: list_all_iff is_digit_def)

lemma time_text_no_nul: "time_text ms = Some t \<Longrightarrow> 0 \<notin> set t"
  using strlen_SomeD by (fastforce simp: time_text_def bind_eq_Some_conv)

lemma scalar_text_no_nul:
  assumes "\<forall>x. 0 \<notin> set (float_text x)" and "scalar_text float_text v = Some t"
  shows "0 \<notin> set t"
  using assms to_string_no_nul time_text_no_nul hex_text_no_nul
  by (cases v) (auto simp: ascii_def int_text_def bind_eq_Some_conv split: if_splits option.splits dest: set_takeWhileD)

section \<open>Values within the buffer\<close>

lemma split_c_string: "0 \<in> set s \<Longrightarrow> \<exists>r. s = takeWhile (\<lambda>c. c \<noteq> 0) s @ 0 # r"
  by (induction s) auto

lemma string_prints:
  assumes "0 \<in> set s" and "takeWhile (\<lambda>c. c \<noteq> 0) s = t" and "int (length t) < n" and "n \<le> int (length buffer)"
  shows "prints (StringUtils_copyStringMax (Some buffer) n s) buffer n t"
proof -
  obtain r where "s = t @ 0 # r" using split_c_string [OF assms(1)] assms(2) by blast
  moreover have "0 \<notin> set t" using assms(2) set_takeWhileD by metis
  ultimately show ?thesis using copy_prints assms(3,4) by simp
qed

lemma constant_prints:
  "0 \<notin> set t \<Longrightarrow> int (length t) < n \<Longrightarrow> n \<le> int (length buffer) \<Longrightarrow> prints (StringUtils_copyStringMax (Some buffer) n (c_str t)) buffer n t"
  using copy_prints [of t n buffer "[]"] by (simp add: c_str_def)

lemma ascii_no_nul: "\<forall>c \<in> set s. of_char c \<noteq> (0 :: byte) \<Longrightarrow> 0 \<notin> set (ascii s)"
  by (auto simp: ascii_def)

lemma scalar_prints:
  assumes "scalar_text float_text v = Some t" and "int (length t) < n" and "n \<le> int (length (0 # r))"
  shows "prints (print_scalar float_text v (0 # r) n) (0 # r) n t"
proof (cases v)
  case (MmsBitString sz buf)
  then have b: "length buf = bit_byte_size sz" "t = map (\<lambda>b. if b then 0x31 else 0x30) (bits_of sz buf)"
    using assms(1) by (auto split: if_splits)
  have "print_bits (MmsBitString sz buf) (length ([] :: byte list)) sz ([] @ 0 # r)
      = Some (([] @ map (\<lambda>b. if b then 0x31 else 0x30) (drop (length ([] :: byte list)) (bits_of sz buf))) @ 0 # drop (Suc sz) (0 # r))"
    by (rule bits_printed [OF b(1)]) (use assms(2,3) b(2) in simp_all)
  then show ?thesis using prints_cut [OF assms(2,3)] assms(2) MmsBitString b(2) by simp
next
  case (MmsOctetString sz maxSz buf)
  then have b: "unat sz \<le> length buf" "t = hex_text (take (unat sz) buf)" using assms(1) by (auto split: if_splits)
  have "prints (print_octets buf 0 (unat sz) (length ([] :: byte list)) ([] @ 0 # r) n) ([] @ 0 # r) n ([] @ hex_text (take (unat sz) (drop 0 buf)))"
    by (rule octets_printed) (use assms(2,3) b in simp_all)
  then show ?thesis using MmsOctetString b(2) by simp
next
  case (MmsString buf sz)
  then show ?thesis using assms string_prints by (auto split: option.splits if_splits)
next
  case (MmsVisibleString buf sz)
  then show ?thesis using assms string_prints by (auto split: option.splits if_splits)
qed (use assms snprintf_prints [OF assms(2,3)] constant_prints [OF _ assms(2,3)] in
    \<open>auto simp: bind_eq_Some_conv ascii_def simp del: length_Cons split: if_splits\<close>)

lemma first_zero_prints:
  assumes "scalar_text float_text v = Some t" and "int (length t) < n" and "n \<le> int (length buffer)"
  shows "prints (first_zero buffer n \<bind> (\<lambda>buffer. print_scalar float_text v buffer n)) buffer n t"
proof -
  obtain b r where b: "buffer = b # r" using assms by (cases buffer) auto
  obtain k where "nat n = Suc k" using assms(2) by (cases "nat n") auto
  then show ?thesis
    using scalar_prints [OF assms(1,2), of r] assms(2,3) prints_same [of "0 # r" buffer n] b
    by (simp add: first_zero_def store_def)
qed

lemma close_brace_prints:
  assumes "int (length p) < n - 1" and "n \<le> int (length (p @ r))"
  shows "prints (close_brace (length p) (p @ r) n) (p @ r) n (p @ [0x7d])"
proof -
  obtain a b q where r: "r = a # b # q" using assms by (cases r; cases "tl r") auto
  obtain k where "nat n = length p + Suc (Suc k)"
    using that [of "nat n - length p - 2"] assms(1) by simp
  then show ?thesis
    using assms(1) store_next [of "length p" p a "b # q" "0x7d"] store_next [of "Suc (length p)" "p @ [0x7d]" b q 0]
    by (auto simp: close_brace_def r prints_def)
qed

lemma text_no_nul:
  shows "\<And>t. \<forall>x. 0 \<notin> set (float_text x) \<Longrightarrow> value_text float_text v = Some t \<Longrightarrow> 0 \<notin> set t"
    and "\<And>t. \<forall>x. 0 \<notin> set (float_text x) \<Longrightarrow> elements_text float_text es = Some t \<Longrightarrow> 0 \<notin> set t"
proof (induction float_text v and float_text es rule: value_text_elements_text.induct)
  case (1 f)
  then show ?case by (auto simp: ascii_def)
next
  case (2 f cs)
  then show ?case by auto
next
  case (3 f cs)
  then show ?case by auto
next
  case (5 f)
  then show ?case by auto
next
  case (6 f e es)
  then show ?case by (auto simp: bind_eq_Some_conv split: if_splits)
qed (simp_all only: value_text.simps scalar_text_no_nul not_False_eq_True)

lemma braces_print:
  assumes "\<And>pre rest. int (length pre + length t) < n \<Longrightarrow> n \<le> int (length (pre @ rest)) \<Longrightarrow>
      \<exists>r. print_elements f cs (length pre) (pre @ rest) n = Some (length (pre @ t), (pre @ t) @ r) \<and>
          length ((pre @ t) @ r) = length (pre @ rest) \<and> drop (nat n) ((pre @ t) @ r) = drop (nat n) (pre @ rest)"
    and "int (length (0x7b # t @ [0x7d])) < n" and "n \<le> int (length buffer)"
  shows "prints (first_zero buffer n \<bind> (\<lambda>buffer. if n = 0 then Some buffer else do {
       buffer \<leftarrow> store buffer 0 0x7b;
       (bufPos, buffer) \<leftarrow> print_elements f cs 1 buffer n;
       close_brace bufPos buffer n })) buffer n (0x7b # t @ [0x7d])"
proof -
  obtain b q where b: "buffer = b # q" using assms(2,3) by (cases buffer) auto
  obtain k where k: "nat n = Suc k" using assms(2) by (cases "nat n") auto
  obtain r where r: "print_elements f cs (length [0x7b :: byte]) ([0x7b] @ q) n = Some (length ([0x7b] @ t), ([0x7b] @ t) @ r)"
      "length (([0x7b] @ t) @ r) = length ([0x7b] @ q)" "drop (nat n) (([0x7b] @ t) @ r) = drop (nat n) ([0x7b] @ q)"
    using assms(1) [of "[0x7b]" q] assms(2,3) b by auto
  have "prints (close_brace (length ([0x7b] @ t)) (([0x7b] @ t) @ r) n) (([0x7b] @ t) @ r) n (([0x7b] @ t) @ [0x7d])"
    by (rule close_brace_prints) (use assms(2,3) r(2) b in simp_all)
  moreover have "length (([0x7b] @ t) @ r) = length buffer" "drop (nat n) (([0x7b] @ t) @ r) = drop (nat n) buffer"
    using r(2,3) b k by simp_all
  ultimately have "prints (close_brace (length ([0x7b] @ t)) (([0x7b] @ t) @ r) n) buffer n (([0x7b] @ t) @ [0x7d])"
    using prints_same by metis
  then show ?thesis using r(1) assms(2) by (simp add: first_zero_def store_def b)
qed

lemma values_printed:
  shows "\<And>t buffer n. \<forall>x. 0 \<notin> set (f x) \<Longrightarrow> value_text f v = Some t \<Longrightarrow> int (length t) < n \<Longrightarrow> n \<le> int (length buffer) \<Longrightarrow>
      prints (MmsValue_printToBuffer f v buffer n) buffer n t"
    and "\<And>t pre rest n. \<forall>x. 0 \<notin> set (f x) \<Longrightarrow> elements_text f es = Some t \<Longrightarrow> int (length pre + length t) < n \<Longrightarrow>
      n \<le> int (length (pre @ rest)) \<Longrightarrow>
      \<exists>r. print_elements f es (length pre) (pre @ rest) n = Some (length (pre @ t), (pre @ t) @ r) \<and>
          length ((pre @ t) @ r) = length (pre @ rest) \<and> drop (nat n) ((pre @ t) @ r) = drop (nat n) (pre @ rest)"
proof (induction f v and f es rule: value_text_elements_text.induct)
  case (1 f)
  have "0 \<notin> set (ascii ''(null)'')" by (simp add: ascii_def)
  then show ?case using constant_prints 1 by simp
next
  case (2 f cs)
  then obtain u where u: "elements_text f cs = Some u" "t = 0x7b # u @ [0x7d]" by auto
  show ?case
    unfolding MmsValue_printToBuffer.simps u(2) by (rule braces_print [OF 2(1)]) (use 2 u in simp_all)
next
  case (3 f cs)
  then obtain u where u: "elements_text f cs = Some u" "t = 0x7b # u @ [0x7d]" by auto
  show ?case
    unfolding MmsValue_printToBuffer.simps u(2) by (rule braces_print [OF 3(1)]) (use 3 u in simp_all)
next
  case (5 f)
  then show ?case by simp
next
  case (6 f e es)
  obtain te where te: "value_text f e = Some te" using 6(4) by (auto simp: bind_eq_Some_conv)
  have le: "length te \<le> length t" using 6(4) te by (auto simp: bind_eq_Some_conv split: if_splits)
  let ?m = "n - int (length pre)"
  have "prints (MmsValue_printToBuffer f e rest ?m) rest ?m te" by (rule 6(1)) (use 6 te le in simp_all)
  then obtain r where r: "MmsValue_printToBuffer f e rest ?m = Some (te @ 0 # r)" "length (te @ 0 # r) = length rest"
      "drop (nat ?m) (te @ 0 # r) = drop (nat ?m) rest" by (auto simp: prints_def)
  have sl: "strlen (te @ 0 # r) = Some (length te)" using text_no_nul(1) [OF 6(3) te] by (rule strlen_append_zero)
  have nat_n: "nat n = length pre + nat ?m" using 6(5) by simp
  then have keep: "drop (nat n) ((pre @ te) @ 0 # r) = drop (nat n) (pre @ rest)" using r(3) by simp
  show ?case
  proof (cases "es = []")
    case True
    then have "t = te" using 6(4) te by simp
    moreover have "print_elements f (e # es) (length pre) (pre @ rest) n = Some (length (pre @ te), (pre @ te) @ 0 # r)"
      using r(1) sl True by (simp add: Let_def)
    ultimately show ?thesis using r(2) keep by (intro exI [of _ "0 # r"]) simp
  next
    case False
    then obtain u where u: "elements_text f es = Some u" "t = te @ 0x2c # u" using 6(4) te by (auto simp: bind_eq_Some_conv)
    let ?pre = "(pre @ te) @ [0x2c]"
    obtain k where k: "nat n = length (pre @ te) + Suc k" using that [of "nat n - length (pre @ te) - 1"] 6(5) u(2) by simp
    have "\<exists>r'. print_elements f es (length ?pre) (?pre @ r) n = Some (length (?pre @ u), (?pre @ u) @ r') \<and>
          length ((?pre @ u) @ r') = length (?pre @ r) \<and> drop (nat n) ((?pre @ u) @ r') = drop (nat n) (?pre @ r)"
      by (rule 6(2)) (use 6 te False u r(2) in simp_all)
    moreover have "drop (nat n) (?pre @ r) = drop (nat n) (pre @ rest)" using keep k by simp
    moreover have "print_elements f (e # es) (length pre) (pre @ rest) n = print_elements f es (length ?pre) (?pre @ r) n"
      using r(1) sl False 6(5) u(2) store_next [of "length (pre @ te)" "pre @ te" 0 r "0x2c"] by simp
    ultimately show ?thesis using r(2) u(2) by auto
  qed
qed (simp_all only: value_text.simps MmsValue_printToBuffer.simps first_zero_prints)

section \<open>Values behind a full buffer\<close>

text \<open>With the size 0 at the end of the buffer nothing can be stored, so there is no text to be measured.\<close>

lemma copy_nothing: "StringUtils_copyStringMax (Some []) 0 s = None"
  by (cases s) (simp_all add: StringUtils_copyStringMax_def store_def)

lemma scalar_nothing: "print_scalar f v [] 0 = Some r \<Longrightarrow> r = []"
proof (cases v)
  case (MmsOctetString sz maxSz buf)
  moreover assume "print_scalar f v [] 0 = Some r"
  ultimately show ?thesis by (cases "unat sz") (auto simp: snprintf_def bind_eq_Some_conv)
qed (auto simp: snprintf_def bind_eq_Some_conv copy_nothing store_def split: if_splits)

lemma print_nothing: "MmsValue_printToBuffer f v [] 0 = Some r \<Longrightarrow> r = []"
  by (cases "(f, v, [] :: byte list, 0 :: int)" rule: MmsValue_printToBuffer.cases)
    (auto simp only: MmsValue_printToBuffer.simps first_zero_def copy_nothing Option.bind.simps dest: scalar_nothing split: if_splits)

text \<open>A comma in the last octet, and one more element.\<close>

lemma comma_overruns:
  assumes "\<forall>x. 0 \<notin> set (f x)"
  shows "xs \<noteq> [] \<Longrightarrow> elements_text f xs = Some t \<Longrightarrow> length rest = length t + 1 \<Longrightarrow> n = int (length (pre @ rest)) \<Longrightarrow>
    print_elements f (xs @ y # ys) (length pre) (pre @ rest) n = None"
proof (induction xs arbitrary: t pre rest)
  case (Cons e es)
  obtain te where te: "value_text f e = Some te" using Cons.prems(2) by (auto simp: bind_eq_Some_conv)
  have le: "length te \<le> length t" using Cons.prems(2) te by (auto simp: bind_eq_Some_conv split: if_splits)
  have m: "n - int (length pre) = int (length rest)" using Cons.prems(4) by simp
  have "prints (MmsValue_printToBuffer f e rest (n - int (length pre))) rest (n - int (length pre)) te"
    by (rule values_printed(1) [OF assms te]) (use Cons.prems le in simp_all)
  then obtain r where r: "MmsValue_printToBuffer f e rest (n - int (length pre)) = Some (te @ 0 # r)" "length (te @ 0 # r) = length rest"
    by (auto simp: prints_def)
  have sl: "strlen (te @ 0 # r) = Some (length te)" using text_no_nul(1) [OF assms te] by (rule strlen_append_zero)
  let ?pre = "(pre @ te) @ [0x2c]"
  have "int (length pre + length te) < n" using Cons.prems(3,4) le by simp
  then have step: "print_elements f ((e # es) @ y # ys) (length pre) (pre @ rest) n = print_elements f (es @ y # ys) (length ?pre) (?pre @ r) n"
    using r(1) sl store_next [of "length (pre @ te)" "pre @ te" 0 r "0x2c"] by simp
  have n: "n = int (length (?pre @ r))" using Cons.prems(4) r(2) by simp
  show ?case
  proof (cases "es = []")
    case True
    then have "r = []" using Cons.prems(2,3) te r(2) by simp
    moreover have "print_elements f (y # ys) (length ?pre) ?pre n = None"
      using print_nothing [of f y] n \<open>r = []\<close> by (cases "MmsValue_printToBuffer f y [] 0") auto
    ultimately show ?thesis using step True by simp
  next
    case False
    then obtain u where u: "elements_text f es = Some u" "t = te @ 0x2c # u" using Cons.prems(2) te by (auto simp: bind_eq_Some_conv)
    have "print_elements f (es @ y # ys) (length ?pre) (?pre @ r) n = None"
      by (rule Cons.IH [OF False u(1) _ n]) (use Cons.prems(3) r(2) u(2) in simp)
    then show ?thesis using step by simp
  qed
qed simp

section \<open>The properties\<close>

text \<open>C39. A value whose text and terminator fit into the size that the printer is given is printed as that
  text, with the elements of arrays and structures in braces and separated by commas, to any depth; the text is terminated,
  and no octet behind the size is changed.\<close>

theorem print_fits:
  assumes "\<forall>x. 0 \<notin> set (float_text x)" and "value_text float_text v = Some t"
    and "int (length t) < bufferSize" and "bufferSize \<le> int (length buffer)"
  shows "\<exists>r. MmsValue_printToBuffer float_text v buffer bufferSize = Some (t @ 0 # r) \<and>
    length (t @ 0 # r) = length buffer \<and> drop (nat bufferSize) (t @ 0 # r) = drop (nat bufferSize) buffer"
  using values_printed(1) [OF assms] by (auto simp: prints_def)

theorem print_fits_witness:
  "\<exists>r. MmsValue_printToBuffer (\<lambda>x. []) (Some (MmsStructure [Some (MmsBoolean True), Some (MmsArray []), None]))
      (replicate 20 0x55) 17 = Some (ascii ''{true,{},(null)}'' @ 0 # r) \<and>
    length (ascii ''{true,{},(null)}'' @ 0 # r) = length (replicate 20 (0x55 :: byte)) \<and>
    drop (nat 17) (ascii ''{true,{},(null)}'' @ 0 # r) = drop (nat 17) (replicate 20 0x55)"
  by (rule print_fits) (simp_all add: ascii_def)

text \<open>C40. What does not fit is not always cut. When the elements of an array or a structure up to one that is not the last fill
  the buffer up to a comma in its last octet, the next element, whatever it is, is printed with the size 0 behind the buffer:
  its terminator is written there, or its length is measured there. The terminator of a bit string with as many bits as the
  buffer has octets is written behind the buffer as well. In all cases the size that is given is the size of the buffer.\<close>

theorem print_overruns:
  assumes "\<forall>x. 0 \<notin> set (float_text x)" and "xs \<noteq> []" and "elements_text float_text xs = Some t"
    and "length buffer = length t + 2" and "length bits = bit_byte_size sz" and "length buffer' = sz"
  shows "MmsValue_printToBuffer float_text (Some (MmsStructure (xs @ y # ys))) buffer (int (length buffer)) = None \<and>
    MmsValue_printToBuffer float_text (Some (MmsArray (xs @ y # ys))) buffer (int (length buffer)) = None \<and>
    MmsValue_printToBuffer float_text (Some (MmsBitString sz bits)) buffer' (int (length buffer')) = None"
proof -
  obtain b rest where b: "buffer = b # rest" "length rest = length t + 1" using assms(4) by (cases buffer) auto
  have "print_elements float_text (xs @ y # ys) (length [0x7b :: byte]) ([0x7b] @ rest) (int (length buffer)) = None"
    by (rule comma_overruns [OF assms(1-3) b(2)]) (simp add: b)
  moreover have "MmsValue_printToBuffer float_text (Some (MmsBitString sz bits)) buffer' (int (length buffer')) = None"
    using bits_full [OF assms(5), of 0 sz] assms(6) by (auto simp: first_zero_def store_def)
  ultimately show ?thesis by (simp add: b(1) first_zero_def store_def)
qed

theorem print_overruns_witness:
  "MmsValue_printToBuffer (\<lambda>x. []) (Some (MmsStructure [Some (MmsBoolean True), Some (MmsBoolean True)])) (replicate 6 0) 6 = None \<and>
   MmsValue_printToBuffer (\<lambda>x. []) (Some (MmsBitString 8 [0xff])) (replicate 8 0) 8 = None"
  using print_overruns [of "\<lambda>x. []" "[Some (MmsBoolean True)]" "ascii ''true''" "replicate 6 0" "[0xff]" 8 "replicate 8 0" "Some (MmsBoolean True)" "[]"]
  by (simp add: ascii_def bit_byte_size_def)

end
