(* ===== verification/Pointer_Map.thy ===== *)
theory Pointer_Map
  imports Linked_List String_Text
begin

text \<open>
  Maps, \<open>src/common/map.cc\<close> and \<open>src/common/string_map.cc\<close>, on a heap of list nodes and a heap of entries. Keys and values
  are pointers (\<open>None\<close> is \<open>NULL\<close>); a comparison gives \<open>None\<close> when it follows a pointer that is not a string. The
  addresses of new nodes and entries are arguments, and the functions that free keys and values return what they free.
\<close>

section \<open>Operations\<close>

record MapEntry =
  me_key :: "nat option"
  me_value :: "nat option"

record map_heap =
  mh_nodes :: node_heap
  mh_entries :: "nat \<rightharpoonup> MapEntry"

record sMap =
  map_entries :: nat
  map_compareKeys :: "nat option \<Rightarrow> nat option \<Rightarrow> int option"

definition comparePointerKeys :: "nat option \<Rightarrow> nat option \<Rightarrow> int option" where
  "comparePointerKeys key1 key2 = Some (if key2 = key1 then 0 else - 1)"

text \<open>\<open>strcmp\<close>, of whose result only the sign is specified.\<close>

fun strcmp :: "byte list \<Rightarrow> byte list \<Rightarrow> int option" where
  "strcmp (a # s) (b # t) = (if a < b then Some (- 1) else if b < a then Some 1 else if a = 0 then Some 0 else strcmp s t)"
| "strcmp s t = None"

definition strcmp_keys :: "(nat \<rightharpoonup> byte list) \<Rightarrow> nat option \<Rightarrow> nat option \<Rightarrow> int option" where
  "strcmp_keys mem key1 key2 = do { p \<leftarrow> key1; q \<leftarrow> key2; s \<leftarrow> mem p; t \<leftarrow> mem q; strcmp s t }"

definition Map_create :: "nat \<Rightarrow> map_heap \<Rightarrow> sMap \<times> map_heap" where
  "Map_create newList h = (\<lparr>map_entries = newList, map_compareKeys = comparePointerKeys\<rparr>,
     h\<lparr>mh_nodes := LinkedList_create newList (mh_nodes h)\<rparr>)"

definition StringMap_create :: "(nat \<rightharpoonup> byte list) \<Rightarrow> nat \<Rightarrow> map_heap \<Rightarrow> sMap \<times> map_heap" where
  "StringMap_create mem newList h = (let (self, h) = Map_create newList h in (self\<lparr>map_compareKeys := strcmp_keys mem\<rparr>, h))"

definition Map_size :: "map_heap \<Rightarrow> sMap \<Rightarrow> int option" where
  "Map_size h self = LinkedList_size (mh_nodes h) (map_entries self)"

definition Map_addEntry ::
    "nat \<Rightarrow> nat \<Rightarrow> map_heap \<Rightarrow> sMap \<Rightarrow> nat option \<Rightarrow> nat option \<Rightarrow> (nat option \<times> map_heap) option" where
  "Map_addEntry entry newElement h self key val = do {
     nodes \<leftarrow> LinkedList_add newElement (mh_nodes h) (map_entries self) (Some entry);
     Some (key, h\<lparr>mh_nodes := nodes, mh_entries := (mh_entries h)(entry \<mapsto> \<lparr>me_key = key, me_value = val\<rparr>)\<rparr>) }"

text \<open>The data of a list element is a pointer to an entry.\<close>

partial_function (option) remove_loop ::
    "map_heap \<Rightarrow> sMap \<Rightarrow> nat option \<Rightarrow> bool \<Rightarrow> nat \<Rightarrow> nat option \<Rightarrow> (nat option \<times> nat option list \<times> map_heap) option" where
  "remove_loop h self key deleteKey lastElement element =
     (case element of
        None \<Rightarrow> Some (None, [], h)
      | Some p \<Rightarrow> do {
          node \<leftarrow> mh_nodes h p;
          e \<leftarrow> ll_data node;
          entry \<leftarrow> mh_entries h e;
          c \<leftarrow> map_compareKeys self key (me_key entry);
          if c = 0
          then do {
            nodes \<leftarrow> set_next (mh_nodes h) lastElement (ll_next node);
            Some (me_value entry, if deleteKey then [me_key entry] else [],
              h\<lparr>mh_nodes := nodes(p := None), mh_entries := (mh_entries h)(e := None)\<rparr>) }
          else remove_loop h self key deleteKey p (ll_next node) })"

definition Map_removeEntry ::
    "map_heap \<Rightarrow> sMap \<Rightarrow> nat option \<Rightarrow> bool \<Rightarrow> (nat option \<times> nat option list \<times> map_heap) option" where
  "Map_removeEntry h self key deleteKey = do {
     element \<leftarrow> LinkedList_getNext (mh_nodes h) (map_entries self);
     remove_loop h self key deleteKey (map_entries self) element }"

text \<open>\<open>compare\<close> is the comparison with the key.\<close>

partial_function (option) get_loop :: "map_heap \<Rightarrow> (nat option \<Rightarrow> int option) \<Rightarrow> nat option \<Rightarrow> nat option option" where
  "get_loop h compare element =
     (case element of
        None \<Rightarrow> Some None
      | Some p \<Rightarrow> do {
          node \<leftarrow> mh_nodes h p;
          e \<leftarrow> ll_data node;
          entry \<leftarrow> mh_entries h e;
          c \<leftarrow> compare (me_key entry);
          if c = 0 then Some (me_value entry) else get_loop h compare (ll_next node) })"

definition Map_getEntry :: "map_heap \<Rightarrow> sMap \<Rightarrow> nat option \<Rightarrow> nat option option" where
  "Map_getEntry h self key = do {
     element \<leftarrow> LinkedList_getNext (mh_nodes h) (map_entries self);
     get_loop h (map_compareKeys self key) element }"

text \<open>The entries in the order in which the three functions that delete a map visit them.\<close>

partial_function (option) visit_loop :: "map_heap \<Rightarrow> nat option \<Rightarrow> MapEntry list option" where
  "visit_loop h element =
     (case element of
        None \<Rightarrow> Some []
      | Some p \<Rightarrow> do {
          node \<leftarrow> mh_nodes h p;
          e \<leftarrow> ll_data node;
          entry \<leftarrow> mh_entries h e;
          rest \<leftarrow> visit_loop h (ll_next node);
          Some (entry # rest) })"

definition visit_entries :: "map_heap \<Rightarrow> sMap \<Rightarrow> MapEntry list option" where
  "visit_entries h self = do { element \<leftarrow> LinkedList_getNext (mh_nodes h) (map_entries self); visit_loop h element }"

definition destroy_entries :: "map_heap \<Rightarrow> sMap \<Rightarrow> map_heap option" where
  "destroy_entries h self = do {
     (nodes, freed) \<leftarrow> LinkedList_destroy (mh_nodes h) (Some (map_entries self));
     Some (h\<lparr>mh_nodes := nodes, mh_entries := mh_entries h |` (- set freed)\<rparr>) }"

definition Map_delete :: "map_heap \<Rightarrow> sMap \<Rightarrow> bool \<Rightarrow> (nat option list \<times> map_heap) option" where
  "Map_delete h self deleteKey = do {
     es \<leftarrow> visit_entries h self;
     h \<leftarrow> destroy_entries h self;
     Some (concat (map (\<lambda>e. (if deleteKey then [me_key e] else []) @ [me_value e]) es), h) }"

definition Map_deleteStatic :: "map_heap \<Rightarrow> sMap \<Rightarrow> bool \<Rightarrow> (nat option list \<times> map_heap) option" where
  "Map_deleteStatic h self deleteKey = do {
     freed \<leftarrow> (if deleteKey then map_option (map me_key) (visit_entries h self) else Some []);
     h \<leftarrow> destroy_entries h self;
     Some (freed, h) }"

text \<open>The result has the keys that are freed and the values that are given to the delete function.\<close>

definition Map_deleteDeep ::
    "map_heap \<Rightarrow> sMap option \<Rightarrow> bool \<Rightarrow> (nat option list \<times> nat option list \<times> map_heap) option" where
  "Map_deleteDeep h self deleteKey = (case self of None \<Rightarrow> Some ([], [], h)
     | Some self \<Rightarrow> do {
         es \<leftarrow> visit_entries h self;
         h \<leftarrow> destroy_entries h self;
         Some (if deleteKey then map me_key es else [], map me_value es, h) })"

section \<open>Maps in the heap\<close>

text \<open>The nodes with the entries they point to.\<close>

definition is_map :: "map_heap \<Rightarrow> nat \<Rightarrow> (nat \<times> nat) list \<Rightarrow> MapEntry list \<Rightarrow> bool" where
  "is_map h l xs es \<longleftrightarrow> is_list (mh_nodes h) l (map (\<lambda>(a, e). (a, Some e)) xs) \<and> distinct (map snd xs) \<and>
     map (\<lambda>(a, e). mh_entries h e) xs = map Some es"

lemma is_map_Nil: "is_map h l [] es \<longleftrightarrow> (\<exists>d. mh_nodes h l = Some \<lparr>ll_data = d, ll_next = None\<rparr>) \<and> es = []"
  by (auto simp: is_map_def is_list_simps)

lemma is_map_Cons:
  "is_map h l ((a, e) # xs) es \<longleftrightarrow> (\<exists>d n x es'. es = x # es' \<and> mh_entries h e = Some x \<and> l \<noteq> a \<and> l \<notin> fst ` set xs \<and>
     mh_nodes h l = Some \<lparr>ll_data = d, ll_next = Some a\<rparr> \<and> mh_nodes h a = Some \<lparr>ll_data = Some e, ll_next = n\<rparr> \<and>
     e \<notin> snd ` set xs \<and> is_map h a xs es')"
  by (cases es) (force simp: is_map_def is_list_simps image_iff)+

lemma map_next: "is_map h l xs es \<Longrightarrow> LinkedList_getNext (mh_nodes h) l = Some (if xs = [] then None else Some (fst (hd xs)))"
  by (cases xs) (auto simp: is_map_Nil is_map_Cons LinkedList_getNext_def)

lemma length_map_entries: "is_map h l xs es \<Longrightarrow> length xs = length es"
  by (auto simp: is_map_def dest: map_eq_imp_length_eq)

text \<open>The abstract map: the first entry with the content of a key counts.\<close>

definition lookup :: "(nat option \<Rightarrow> 'k) \<Rightarrow> MapEntry list \<Rightarrow> nat option \<Rightarrow> nat option" where
  "lookup content es k = (case map_of (map (\<lambda>e. (content (me_key e), me_value e)) es) (content k) of None \<Rightarrow> None | Some v \<Rightarrow> v)"

fun remove_key :: "(nat option \<Rightarrow> 'k) \<Rightarrow> nat option \<Rightarrow> MapEntry list \<Rightarrow> MapEntry list" where
  "remove_key content k [] = []"
| "remove_key content k (e # es) = (if content (me_key e) = content k then es else e # remove_key content k es)"

lemma lookup_simps [simp]:
  "lookup content [] k = None"
  "lookup content (e # es) k = (if content k = content (me_key e) then me_value e else lookup content es k)"
  by (simp_all add: lookup_def)

lemma lookup_absent: "\<forall>e \<in> set es. content (me_key e) \<noteq> content k \<Longrightarrow> lookup content (es @ fs) k = lookup content fs k"
  by (induction es) auto

lemma lookup_add:
  "lookup content (es @ [\<lparr>me_key = k, me_value = v\<rparr>]) k' =
     (if content k' \<in> (content \<circ> me_key) ` set es then lookup content es k' else if content k' = content k then v else None)"
  by (induction es) auto

lemma remove_key_split:
  "\<forall>e \<in> set es. content (me_key e) \<noteq> content k \<Longrightarrow> content (me_key x) = content k \<Longrightarrow> remove_key content k (es @ x # fs) = es @ fs"
  by (induction es) auto

lemma remove_key_absent: "\<forall>e \<in> set es. content (me_key e) \<noteq> content k \<Longrightarrow> remove_key content k es = es"
  by (induction es) auto

text \<open>Taking out one element and freeing its entry.\<close>

lemma remove_data_middle:
  "e \<notin> snd ` set xs \<Longrightarrow> remove_data (Some e) (map (\<lambda>(a, e). (a, Some e)) (xs @ (a, e) # ys)) = map (\<lambda>(a, e). (a, Some e)) (xs @ ys)"
  by (induction xs) auto

text \<open>The heap after an element was taken out: the nodes and the entries that left the map are freed, the nodes outside
  the map and all other entries are as they were. After an element was added there is one node and one entry more.\<close>

definition only_frees :: "map_heap \<Rightarrow> nat \<Rightarrow> (nat \<times> nat) list \<Rightarrow> (nat \<times> nat) list \<Rightarrow> map_heap \<Rightarrow> bool" where
  "only_frees h l xs ys h' \<longleftrightarrow> set ys \<subseteq> set xs \<and>
     (\<forall>a. a \<notin> insert l (fst ` set xs) \<longrightarrow> mh_nodes h' a = mh_nodes h a) \<and>
     dom (mh_nodes h') = dom (mh_nodes h) - (fst ` set xs - fst ` set ys) \<and>
     mh_entries h' = mh_entries h |` (- (snd ` set xs - snd ` set ys))"

definition only_adds :: "map_heap \<Rightarrow> nat \<Rightarrow> (nat \<times> nat) list \<Rightarrow> nat \<Rightarrow> nat \<Rightarrow> MapEntry \<Rightarrow> map_heap \<Rightarrow> bool" where
  "only_adds h l xs n p e h' \<longleftrightarrow>
     (\<forall>a. a \<notin> insert l (fst ` set xs) \<union> {n} \<longrightarrow> mh_nodes h' a = mh_nodes h a) \<and>
     mh_entries h' = (mh_entries h)(p \<mapsto> e)"

lemma is_map_without:
  assumes m: "is_map h l (xs @ (a, e) # ys) (es @ y # fs)" and len: "length xs = length es"
    and l: "is_list nodes l (remove_data (Some e) (map (\<lambda>(a, e). (a, Some e)) (xs @ (a, e) # ys)))"
  shows "is_map (h\<lparr>mh_nodes := nodes, mh_entries := (mh_entries h)(e := None)\<rparr>) l (xs @ ys) (es @ fs)"
proof -
  have d: "distinct (map snd (xs @ (a, e) # ys))" "e \<notin> snd ` set xs" "e \<notin> snd ` set ys" using m by (auto simp: is_map_def)
  have eq: "map (\<lambda>(a, e). mh_entries h e) xs = map Some es" "map (\<lambda>(a, e). mh_entries h e) ys = map Some fs"
    using m len by (auto simp: is_map_def)
  have "map (\<lambda>(a, b). ((mh_entries h)(e := None)) b) zs = map (\<lambda>(a, b). mh_entries h b) zs" if "e \<notin> snd ` set zs" for zs :: "(nat \<times> nat) list"
    using that by (induction zs) auto
  then have "map (\<lambda>(a, b). ((mh_entries h)(e := None)) b) (xs @ ys) = map Some (es @ fs)"
    unfolding map_append using d(2,3) eq by presburger
  then show ?thesis using l remove_data_middle [OF d(2), of a ys] d(1) unfolding is_map_def by (simp del: fun_upd_apply)
qed

section \<open>The contract of a comparison\<close>

locale key_comparison =
  fixes compare :: "nat option \<Rightarrow> nat option \<Rightarrow> int option"
    and key_ok :: "nat option \<Rightarrow> bool"
    and content :: "nat option \<Rightarrow> 'k"
  assumes compare: "key_ok k \<Longrightarrow> key_ok k' \<Longrightarrow> \<exists>c. compare k k' = Some c \<and> (c = 0 \<longleftrightarrow> content k = content k')"
begin

lemma get_loop_lookup:
  "is_map h l xs es \<Longrightarrow> \<forall>e \<in> set es. key_ok (me_key e) \<Longrightarrow> key_ok k \<Longrightarrow>
   get_loop h (compare k) (if xs = [] then None else Some (fst (hd xs))) = Some (lookup content es k)"
proof (induction xs arbitrary: l es)
  case Nil
  then show ?case by (simp add: is_map_Nil get_loop.simps)
next
  case (Cons x xs)
  obtain a e where x: "x = (a, e)" by fastforce
  obtain n y es' where m: "es = y # es'" "mh_entries h e = Some y" "mh_nodes h a = Some \<lparr>ll_data = Some e, ll_next = n\<rparr>"
      "is_map h a xs es'"
    using Cons.prems(1) unfolding x is_map_Cons by blast
  have "n = (if xs = [] then None else Some (fst (hd xs)))" using map_next [OF m(4)] m(3) by (simp add: LinkedList_getNext_def)
  moreover obtain c where "compare k (me_key y) = Some c" "c = 0 \<longleftrightarrow> content k = content (me_key y)"
    using compare [of k "me_key y"] Cons.prems(2,3) m(1) by auto
  ultimately show ?case
    using Cons.IH [OF m(4)] Cons.prems(2,3) m by (subst get_loop.simps) (auto simp: x)
qed

lemma remove_loop_absent:
  "is_map h l xs es \<Longrightarrow> map_compareKeys self = compare \<Longrightarrow> \<forall>e \<in> set es. key_ok (me_key e) \<and> content (me_key e) \<noteq> content k \<Longrightarrow>
   key_ok k \<Longrightarrow> remove_loop h self k del l (if xs = [] then None else Some (fst (hd xs))) = Some (None, [], h)"
proof (induction xs arbitrary: l es)
  case Nil
  then show ?case by (simp add: remove_loop.simps)
next
  case (Cons x xs)
  obtain a e where x: "x = (a, e)" by fastforce
  obtain n y es' where m: "es = y # es'" "mh_entries h e = Some y" "mh_nodes h a = Some \<lparr>ll_data = Some e, ll_next = n\<rparr>"
      "is_map h a xs es'"
    using Cons.prems(1) unfolding x is_map_Cons by blast
  have "n = (if xs = [] then None else Some (fst (hd xs)))" using map_next [OF m(4)] m(3) by (simp add: LinkedList_getNext_def)
  moreover obtain c where "compare k (me_key y) = Some c" "c \<noteq> 0"
    using compare [of k "me_key y"] Cons.prems(3,4) m(1) by force
  ultimately show ?case
    using Cons.IH [OF m(4)] Cons.prems m by (subst remove_loop.simps) (auto simp: x)
qed

text \<open>The search ends at the first entry with the content; its element is taken out of the list.\<close>

lemma remove_loop_found:
  "is_map h l (xs @ (a, e) # xs') (es @ y # es') \<Longrightarrow> length xs = length es \<Longrightarrow> map_compareKeys self = compare \<Longrightarrow>
   \<forall>z \<in> set es. key_ok (me_key z) \<and> content (me_key z) \<noteq> content k \<Longrightarrow> key_ok (me_key y) \<Longrightarrow> content (me_key y) = content k \<Longrightarrow>
   key_ok k \<Longrightarrow>
   remove_loop h self k del l (Some (fst (hd (xs @ [(a, e)])))) = do {
     (_, nodes) \<leftarrow> remove_from (mh_nodes h) l (Some (fst (hd (xs @ [(a, e)])))) (Some e);
     Some (me_value y, if del then [me_key y] else [], h\<lparr>mh_nodes := nodes, mh_entries := (mh_entries h)(e := None)\<rparr>) }"
proof (induction xs arbitrary: l es)
  case Nil
  obtain n where m: "mh_entries h e = Some y" "mh_nodes h a = Some \<lparr>ll_data = Some e, ll_next = n\<rparr>"
    using Nil.prems(1,2) by (auto simp: is_map_Cons)
  moreover have "compare k (me_key y) = Some 0" using compare [of k "me_key y"] Nil.prems by auto
  ultimately show ?case
    using Nil.prems(3) by (subst remove_loop.simps, subst remove_from.simps) (auto simp: bind_eq_Some_conv split: bind_split)
next
  case (Cons x xs)
  obtain b d where x: "x = (b, d)" by fastforce
  obtain z zs where es: "es = z # zs" "length xs = length zs" using Cons.prems(2) by (cases es) auto
  obtain n where m: "mh_entries h d = Some z" "mh_nodes h b = Some \<lparr>ll_data = Some d, ll_next = n\<rparr>"
      "is_map h b (xs @ (a, e) # xs') (zs @ y # es')" "d \<noteq> e"
    using Cons.prems(1) unfolding x es(1) by (auto simp: is_map_Cons)
  have "n = Some (fst (hd (xs @ [(a, e)])))"
    using map_next [OF m(3)] m(2) by (cases xs) (simp_all add: LinkedList_getNext_def)
  moreover obtain c where "compare k (me_key z) = Some c" "c \<noteq> 0"
    using compare [of k "me_key z"] Cons.prems(4,7) es(1) by force
  ultimately show ?case
    using Cons.IH [OF m(3) es(2)] Cons.prems m es(1)
    by (subst remove_loop.simps, subst remove_from.simps) (auto simp: x fun_upd_def)
qed

text \<open>Every operation is the one on the abstract map.\<close>

lemma get_entry:
  assumes "is_map h (map_entries self) xs es" and "map_compareKeys self = compare" and "\<forall>e \<in> set es. key_ok (me_key e)" and "key_ok k"
  shows "Map_getEntry h self k = Some (lookup content es k)"
  using get_loop_lookup [OF assms(1,3,4)] map_next [OF assms(1)] assms(2) by (simp add: Map_getEntry_def)

lemma remove_entry:
  assumes m: "is_map h (map_entries self) xs es" and cmp: "map_compareKeys self = compare"
    and ok: "\<forall>e \<in> set es. key_ok (me_key e)" "key_ok k"
  shows "\<exists>h' ys. Map_removeEntry h self k del = Some (lookup content es k,
      if del then map me_key (take 1 (filter (\<lambda>e. content (me_key e) = content k) es)) else [], h') \<and>
    is_map h' (map_entries self) ys (remove_key content k es) \<and> only_frees h (map_entries self) xs ys h'"
proof (cases "\<exists>e \<in> set es. content (me_key e) = content k")
  case False
  then have "\<forall>e \<in> set es. key_ok (me_key e) \<and> content (me_key e) \<noteq> content k" using ok(1) by blast
  then show ?thesis
    using remove_loop_absent [OF m cmp _ ok(2)] map_next [OF m] m lookup_absent [of es content k "[]"]
      remove_key_absent [of es content k] False
    by (auto simp: Map_removeEntry_def only_frees_def intro!: exI [of _ xs])
next
  case True
  let ?l = "map_entries self" and ?f = "\<lambda>(a :: nat, e :: nat). (a, Some e)"
  obtain es1 y es2 where es: "es = es1 @ y # es2" "content (me_key y) = content k" "\<forall>z \<in> set es1. content (me_key z) \<noteq> content k"
    using split_list_first_prop [OF True] by blast
  have "length es1 < length xs" using length_map_entries [OF m] es(1) by simp
  then obtain xs1 a e xs2 where xs: "xs = xs1 @ (a, e) # xs2" "length xs1 = length es1"
    using id_take_nth_drop [of "length es1" xs] by (metis length_take min.absorb4 surj_pair)
  have mm: "is_map h ?l (xs1 @ (a, e) # xs2) (es1 @ y # es2)" using m by (simp add: xs es)
  have l: "is_list (mh_nodes h) ?l (map ?f xs)" using m by (simp add: is_map_def)
  then obtain node where node: "mh_nodes h ?l = Some node" by (auto simp: is_list_def split: option.splits)
  have nx: "ll_next node = Some (fst (hd (xs1 @ [(a, e)])))"
    using map_next [OF m] node by (cases xs1) (auto simp: xs LinkedList_getNext_def)
  obtain b nodes where rm: "remove_from (mh_nodes h) ?l (ll_next node) (Some e) = Some (b, nodes)"
      "is_list nodes ?l (remove_data (Some e) (map ?f (xs1 @ (a, e) # xs2)))"
      "\<forall>a. a \<notin> footprint ?l (map ?f xs) \<longrightarrow> nodes a = mh_nodes h a"
      "dom nodes = dom (mh_nodes h) - (fst ` set (map ?f xs) - fst ` set (remove_data (Some e) (map ?f (xs1 @ (a, e) # xs2))))"
    using remove_from_data [OF l node, of "Some e"] unfolding xs(1) by blast
  let ?h = "h\<lparr>mh_nodes := nodes, mh_entries := (mh_entries h)(e := None)\<rparr>"
  have "remove_loop h self k del ?l (ll_next node) = Some (me_value y, if del then [me_key y] else [], ?h)"
    using remove_loop_found [OF mm xs(2) cmp _ _ es(2) ok(2), of del] ok(1) es rm(1) unfolding nx by simp
  moreover have "is_map ?h ?l (xs1 @ xs2) (es1 @ es2)" by (rule is_map_without [OF mm xs(2) rm(2)])
  moreover have "lookup content es k = me_value y" "filter (\<lambda>e. content (me_key e) = content k) es1 = []"
    using lookup_absent [OF es(3), of "y # es2"] es by (auto simp: filter_empty_conv)
  moreover have "only_frees h ?l xs (xs1 @ xs2) ?h"
  proof -
    have dist: "distinct (map snd xs)" "distinct (map fst xs)" using m l by (auto simp: is_map_def is_list_def comp_def case_prod_unfold)
    then have "remove_data (Some e) (map ?f (xs1 @ (a, e) # xs2)) = map ?f (xs1 @ xs2)"
      by (intro remove_data_middle) (simp add: xs)
    moreover have "fst ` ?f ` A = fst ` A" for A :: "(nat \<times> nat) set" by force
    moreover have "snd ` set xs - snd ` set (xs1 @ xs2) = {e}" using dist(1) by (auto simp: xs image_iff)
    moreover have "(mh_entries h)(e := None) = mh_entries h |` (- {e})" by (simp add: restrict_map_def fun_eq_iff)
    ultimately show ?thesis using rm(3,4) by (auto simp: only_frees_def xs simp del: map_append)
  qed
  ultimately show ?thesis
    using remove_key_split [OF es(3,2), of es2] node es(2)
    by (intro exI [of _ ?h] exI [of _ "xs1 @ xs2"]) (simp add: Map_removeEntry_def LinkedList_getNext_def es(1))
qed

end

section \<open>Operations without a comparison\<close>

lemma add_entry:
  assumes m: "is_map h (map_entries self) xs es" and new: "mh_nodes h n = None" "mh_entries h p = None"
  shows "\<exists>h'. Map_addEntry p n h self k v = Some (k, h') \<and> is_map h' (map_entries self) (xs @ [(n, p)]) (es @ [\<lparr>me_key = k, me_value = v\<rparr>]) \<and>
    only_adds h (map_entries self) xs n p \<lparr>me_key = k, me_value = v\<rparr> h'"
proof -
  let ?f = "\<lambda>(a :: nat, e :: nat). (a, Some e)"
  obtain nodes where nodes: "LinkedList_add n (mh_nodes h) (map_entries self) (Some p) = Some nodes"
      "is_list nodes (map_entries self) (map ?f xs @ [(n, Some p)])"
      "\<forall>a. a \<notin> footprint (map_entries self) (map ?f xs) \<union> {n} \<longrightarrow> nodes a = mh_nodes h a"
    using add.update [of "mh_nodes h" "map_entries self" "map ?f xs" n "Some p"] m new(1) by (auto simp: is_map_def)
  have p: "p \<notin> snd ` set xs"
  proof
    assume "p \<in> snd ` set xs"
    then have "mh_entries h p \<in> set (map (\<lambda>(a, e). mh_entries h e) xs)" by force
    moreover have "map (\<lambda>(a, e). mh_entries h e) xs = map Some es" using m by (simp add: is_map_def)
    ultimately show False using new(2) by (simp only: set_map) auto
  qed
  then have "map (\<lambda>(a, b). ((mh_entries h)(p \<mapsto> x)) b) xs = map (\<lambda>(a, b). mh_entries h b) xs" for x by (induction xs) auto
  then have "map (\<lambda>(a, b). ((mh_entries h)(p \<mapsto> x)) b) xs = map Some es" for x using m unfolding is_map_def by presburger
  moreover have "fst ` ?f ` set xs = fst ` set xs" by force
  ultimately show ?thesis using nodes m p by (simp add: Map_addEntry_def is_map_def only_adds_def del: fun_upd_apply) simp
qed

lemma visit_loop_entries: "is_map h l xs es \<Longrightarrow> visit_loop h (if xs = [] then None else Some (fst (hd xs))) = Some es"
proof (induction xs arbitrary: l es)
  case Nil
  then show ?case by (simp add: is_map_Nil visit_loop.simps)
next
  case (Cons x xs)
  obtain a e where x: "x = (a, e)" by fastforce
  obtain n y es' where m: "es = y # es'" "mh_entries h e = Some y" "mh_nodes h a = Some \<lparr>ll_data = Some e, ll_next = n\<rparr>"
      "is_map h a xs es'"
    using Cons.prems unfolding x is_map_Cons by blast
  moreover have "n = (if xs = [] then None else Some (fst (hd xs)))" using map_next [OF m(4)] m(3) by (simp add: LinkedList_getNext_def)
  ultimately show ?case using Cons.IH [OF m(4)] by (subst visit_loop.simps) (auto simp: x)
qed

lemma visit_all: "is_map h (map_entries self) xs es \<Longrightarrow> visit_entries h self = Some es"
  using visit_loop_entries map_next by (simp add: visit_entries_def)

text \<open>The nodes and the entries of the map are freed, and nothing else.\<close>

lemma destroy_all:
  assumes m: "is_map h (map_entries self) xs es" and head: "map_option ll_data (mh_nodes h (map_entries self)) = Some None"
  shows "destroy_entries h self = Some (h\<lparr>mh_nodes := mh_nodes h |` (- insert (map_entries self) (fst ` set xs)),
    mh_entries := mh_entries h |` (- snd ` set xs)\<rparr>)"
proof -
  let ?f = "\<lambda>(a :: nat, e :: nat). (a, Some e)"
  obtain node where node: "mh_nodes h (map_entries self) = Some node" "ll_data node = None" using head by auto
  have "fst ` ?f ` set xs = fst ` set xs" by force
  moreover have "List.map_filter id (map snd (map ?f xs)) = map snd xs" by (induction xs) (auto simp: map_filter_simps)
  ultimately show ?thesis
    using destroy_nodes_frees [of "mh_nodes h" "map_entries self" "map ?f xs" node] m node
    by (simp add: destroy_entries_def LinkedList_destroy_def LinkedList_destroyDeep_def is_map_def map_filter_simps)
qed

section \<open>The two comparisons\<close>

interpretation pointers: key_comparison comparePointerKeys "\<lambda>_. True" id
  by unfold_locales (auto simp: comparePointerKeys_def)

definition is_string :: "(nat \<rightharpoonup> byte list) \<Rightarrow> nat option \<Rightarrow> bool" where
  "is_string mem k \<longleftrightarrow> (case k of None \<Rightarrow> False | Some p \<Rightarrow> (case mem p of None \<Rightarrow> False | Some s \<Rightarrow> 0 \<in> set s))"

definition string_at :: "(nat \<rightharpoonup> byte list) \<Rightarrow> nat option \<Rightarrow> byte list" where
  "string_at mem k = takeWhile (\<lambda>c. c \<noteq> 0) (the (mem (the k)))"

lemma strcmp_equal:
  "0 \<in> set s \<Longrightarrow> 0 \<in> set t \<Longrightarrow> \<exists>c. strcmp s t = Some c \<and> (c = 0 \<longleftrightarrow> takeWhile (\<lambda>c. c \<noteq> 0) s = takeWhile (\<lambda>c. c \<noteq> 0) t)"
proof (induction s t rule: strcmp.induct)
  case (1 a s b t)
  then show ?case by (cases a b rule: linorder_cases) auto
qed simp_all

interpretation strings: key_comparison "strcmp_keys mem" "is_string mem" "string_at mem"
  for mem
proof
  fix k k' assume "is_string mem k" "is_string mem k'"
  then obtain p q s t where "k = Some p" "k' = Some q" "mem p = Some s" "mem q = Some t" "0 \<in> set s" "0 \<in> set t"
    by (auto simp: is_string_def split: option.splits)
  then show "\<exists>c. strcmp_keys mem k k' = Some c \<and> (c = 0 \<longleftrightarrow> string_at mem k = string_at mem k')"
    using strcmp_equal [of s t] by (simp add: strcmp_keys_def string_at_def)
qed

section \<open>Properties\<close>

text \<open>C35. A map in the heap implements an association list. Its size is the number of its entries, and a key finds the value of
  the first entry whose key it equals, or NULL; adding appends an entry, with one new node and nothing else changed outside
  the map; removing takes out the first entry with the key, returns its value and frees its node and its entry and no others,
  with nothing changed outside the map; deleting frees the nodes and the entries of the map and no others, and every key and
  value once. Keys of a map are equal when they are the same pointer.\<close>

theorem map_refines:
  assumes m: "is_map h (map_entries self) xs es" and cmp: "map_compareKeys self = comparePointerKeys"
    and new: "mh_nodes h n = None" "mh_entries h p = None" and size: "length es < 2 ^ 31"
    and head: "map_option ll_data (mh_nodes h (map_entries self)) = Some None"
  shows "Map_size h self = Some (int (length es)) \<and> Map_getEntry h self k = Some (lookup id es k) \<and>
    (\<exists>h'. Map_addEntry p n h self k v = Some (k, h') \<and>
      is_map h' (map_entries self) (xs @ [(n, p)]) (es @ [\<lparr>me_key = k, me_value = v\<rparr>]) \<and>
      only_adds h (map_entries self) xs n p \<lparr>me_key = k, me_value = v\<rparr> h' \<and>
      Map_getEntry h' self k = Some (if k \<in> me_key ` set es then lookup id es k else v)) \<and>
    (\<exists>h' ys. Map_removeEntry h self k del = Some (lookup id es k,
        if del then map me_key (take 1 (filter (\<lambda>e. me_key e = k) es)) else [], h') \<and>
      is_map h' (map_entries self) ys (remove_key id k es) \<and> only_frees h (map_entries self) xs ys h') \<and>
    Map_delete h self del = Some (concat (map (\<lambda>e. (if del then [me_key e] else []) @ [me_value e]) es),
      h\<lparr>mh_nodes := mh_nodes h |` (- insert (map_entries self) (fst ` set xs)), mh_entries := mh_entries h |` (- snd ` set xs)\<rparr>)"
proof (intro conjI)
  have l: "is_list (mh_nodes h) (map_entries self) (map (\<lambda>(a, e). (a, Some e)) xs)" using m by (simp add: is_map_def)
  show "Map_size h self = Some (int (length es))"
    using size_from_length [OF l, of 0] size length_map_entries [OF m] by (simp add: Map_size_def LinkedList_size_def)
  show "Map_getEntry h self k = Some (lookup id es k)" by (rule pointers.get_entry [OF m cmp]) simp_all
  obtain h' where h': "Map_addEntry p n h self k v = Some (k, h')"
      "is_map h' (map_entries self) (xs @ [(n, p)]) (es @ [\<lparr>me_key = k, me_value = v\<rparr>])"
      "only_adds h (map_entries self) xs n p \<lparr>me_key = k, me_value = v\<rparr> h'"
    using add_entry [OF m new] by blast
  moreover have "Map_getEntry h' self k = Some (lookup id (es @ [\<lparr>me_key = k, me_value = v\<rparr>]) k)"
    by (rule pointers.get_entry [OF h'(2) cmp]) simp_all
  ultimately show "\<exists>h'. Map_addEntry p n h self k v = Some (k, h') \<and>
      is_map h' (map_entries self) (xs @ [(n, p)]) (es @ [\<lparr>me_key = k, me_value = v\<rparr>]) \<and>
      only_adds h (map_entries self) xs n p \<lparr>me_key = k, me_value = v\<rparr> h' \<and>
      Map_getEntry h' self k = Some (if k \<in> me_key ` set es then lookup id es k else v)"
    by (auto simp: lookup_add)
  show "\<exists>h' ys. Map_removeEntry h self k del = Some (lookup id es k,
        if del then map me_key (take 1 (filter (\<lambda>e. me_key e = k) es)) else [], h') \<and>
      is_map h' (map_entries self) ys (remove_key id k es) \<and> only_frees h (map_entries self) xs ys h'"
    using pointers.remove_entry [OF m cmp, of k del] unfolding id_apply by simp
  show "Map_delete h self del = Some (concat (map (\<lambda>e. (if del then [me_key e] else []) @ [me_value e]) es),
      h\<lparr>mh_nodes := mh_nodes h |` (- insert (map_entries self) (fst ` set xs)), mh_entries := mh_entries h |` (- snd ` set xs)\<rparr>)"
    using visit_all [OF m] destroy_all [OF m head] by (simp add: Map_delete_def)
qed

text \<open>C36. A string map finds a value by the text of its key: a key finds the first entry with the same text, wherever the two
  strings are in memory. A value that is added under a text that the map has already is not found until the older entry
  is removed.\<close>

theorem string_map_refines:
  assumes m: "is_map h (map_entries self) xs es" and cmp: "map_compareKeys self = strcmp_keys mem"
    and ok: "\<forall>e \<in> set es. is_string mem (me_key e)" "is_string mem k" "is_string mem k'"
    and new: "mh_nodes h n = None" "mh_entries h p = None"
  shows "Map_getEntry h self k = Some (lookup (string_at mem) es k) \<and>
    (\<exists>h'. Map_addEntry p n h self k v = Some (k, h') \<and>
      is_map h' (map_entries self) (xs @ [(n, p)]) (es @ [\<lparr>me_key = k, me_value = v\<rparr>]) \<and>
      Map_getEntry h' self k' = Some (if \<exists>e \<in> set es. string_at mem (me_key e) = string_at mem k'
        then lookup (string_at mem) es k' else if string_at mem k' = string_at mem k then v else None)) \<and>
    (\<exists>h' ys freed. Map_removeEntry h self k del = Some (lookup (string_at mem) es k, freed, h') \<and>
      is_map h' (map_entries self) ys (remove_key (string_at mem) k es))"
proof (intro conjI)
  show "Map_getEntry h self k = Some (lookup (string_at mem) es k)" by (rule strings.get_entry [OF m cmp ok(1,2)])
  obtain h' where h': "Map_addEntry p n h self k v = Some (k, h')"
      "is_map h' (map_entries self) (xs @ [(n, p)]) (es @ [\<lparr>me_key = k, me_value = v\<rparr>])"
    using add_entry [OF m new] by blast
  have "Map_getEntry h' self k' = Some (lookup (string_at mem) (es @ [\<lparr>me_key = k, me_value = v\<rparr>]) k')"
    by (rule strings.get_entry [OF h'(2) cmp]) (use ok in auto)
  moreover have "string_at mem k' \<in> (string_at mem \<circ> me_key) ` set es \<longleftrightarrow> (\<exists>e \<in> set es. string_at mem (me_key e) = string_at mem k')"
    by force
  ultimately show "\<exists>h'. Map_addEntry p n h self k v = Some (k, h') \<and>
      is_map h' (map_entries self) (xs @ [(n, p)]) (es @ [\<lparr>me_key = k, me_value = v\<rparr>]) \<and>
      Map_getEntry h' self k' = Some (if \<exists>e \<in> set es. string_at mem (me_key e) = string_at mem k'
        then lookup (string_at mem) es k' else if string_at mem k' = string_at mem k then v else None)"
    using h' by (simp add: lookup_add)
  show "\<exists>h' ys freed. Map_removeEntry h self k del = Some (lookup (string_at mem) es k, freed, h') \<and>
      is_map h' (map_entries self) ys (remove_key (string_at mem) k es)"
    using strings.remove_entry [OF m cmp ok(1,2), of del] by blast
qed

text \<open>A map with one entry, whose key is the string a at address 10; another copy of it is at 20.\<close>

definition example_map_heap :: map_heap where
  "example_map_heap = \<lparr>mh_nodes = [1 \<mapsto> \<lparr>ll_data = None, ll_next = Some 2\<rparr>, 2 \<mapsto> \<lparr>ll_data = Some 5, ll_next = None\<rparr>],
     mh_entries = [5 \<mapsto> \<lparr>me_key = Some 10, me_value = Some 100\<rparr>]\<rparr>"

definition example_strings :: "nat \<rightharpoonup> byte list" where
  "example_strings = [10 \<mapsto> [0x61, 0], 20 \<mapsto> [0x61, 0, 7]]"

lemma example_map: "is_map example_map_heap 1 [(2, 5)] [\<lparr>me_key = Some 10, me_value = Some 100\<rparr>]"
  by (auto simp: is_map_Cons is_map_Nil example_map_heap_def)

theorem map_refines_witness:
  "Map_getEntry example_map_heap \<lparr>map_entries = 1, map_compareKeys = comparePointerKeys\<rparr> (Some 20) = Some None \<and>
   (\<exists>h' ys. Map_removeEntry example_map_heap \<lparr>map_entries = 1, map_compareKeys = comparePointerKeys\<rparr> (Some 20) False
      = Some (None, [], h') \<and> only_frees example_map_heap 1 [(2, 5)] ys h')"
proof -
  let ?m = "\<lparr>map_entries = 1, map_compareKeys = comparePointerKeys\<rparr>" and ?es = "[\<lparr>me_key = Some 10, me_value = Some (100 :: nat)\<rparr>]"
  have "lookup id ?es (Some 20) = None" by simp
  moreover have "mh_nodes example_map_heap 3 = None" "mh_entries example_map_heap 6 = None"
      "map_option ll_data (mh_nodes example_map_heap 1) = Some None" by (simp_all add: example_map_heap_def)
  ultimately show ?thesis
    using map_refines [of example_map_heap ?m "[(2, 5)]" ?es 3 6 "Some 20" None False] example_map by auto
qed

theorem string_map_refines_witness:
  "Map_getEntry example_map_heap \<lparr>map_entries = 1, map_compareKeys = strcmp_keys example_strings\<rparr> (Some 20) = Some (Some 100)"
  using string_map_refines [of example_map_heap "\<lparr>map_entries = 1, map_compareKeys = strcmp_keys example_strings\<rparr>" "[(2, 5)]"
      "[\<lparr>me_key = Some 10, me_value = Some 100\<rparr>]" example_strings "Some 20" "Some 20" 3 6] example_map
  by (simp add: example_map_heap_def example_strings_def is_string_def string_at_def)

end
