(* ===== verification/Memory_Areas.thy ===== *)
theory Memory_Areas
  imports Linked_List
begin

text \<open>
  Buffers and allocators inside a given block of memory: \<open>src/common/byte_buffer.cc\<close>, \<open>src/common/buffer_chain.cc\<close>,
  \<open>src/common/simple_allocator.cc\<close> and \<open>src/common/mem_alloc_linked_list.cc\<close>. A pointer that an allocator returns is its
  distance from the start of the block; \<open>None\<close> in its place is \<open>NULL\<close>. Pointers have eight octets.
\<close>

section \<open>Byte buffers\<close>

record ByteBuffer =
  bb_buffer :: "byte list"
  bb_maxSize :: int
  bb_size :: int

text \<open>\<open>calloc\<close> of a negative number of octets fails.\<close>

definition ByteBuffer_create :: "int \<Rightarrow> ByteBuffer" where
  "ByteBuffer_create maxSize = \<lparr>bb_buffer = replicate (nat maxSize) 0, bb_maxSize = maxSize, bb_size = 0\<rparr>"

definition ByteBuffer_wrap :: "ByteBuffer \<Rightarrow> byte list \<Rightarrow> int \<Rightarrow> int \<Rightarrow> ByteBuffer" where
  "ByteBuffer_wrap self buf sz maxSize = self\<lparr>bb_buffer := buf, bb_size := sz, bb_maxSize := maxSize\<rparr>"

text \<open>A sum that overflows is undefined, and so is a copy of a negative number of octets.\<close>

definition ByteBuffer_append :: "ByteBuffer \<Rightarrow> byte list \<Rightarrow> int \<Rightarrow> (int \<times> ByteBuffer) option" where
  "ByteBuffer_append self dat dataSize =
     (if bb_size self + dataSize \<notin> {- (2 ^ 31)..<2 ^ 31} then None
      else if bb_size self + dataSize \<le> bb_maxSize self
      then if bb_size self < 0 then None
           else do {
             bs \<leftarrow> rd_bytes dat 0 dataSize;
             (buffer, _) \<leftarrow> put_bytes bs (bb_buffer self, nat (bb_size self));
             Some (dataSize, self\<lparr>bb_buffer := buffer, bb_size := bb_size self + dataSize\<rparr>) }
      else Some (- 1, self))"

definition ByteBuffer_appendByte :: "ByteBuffer \<Rightarrow> byte \<Rightarrow> (int \<times> ByteBuffer) option" where
  "ByteBuffer_appendByte self b =
     (if bb_size self < bb_maxSize self
      then if bb_size self < 0 then None
           else do {
             (buffer, _) \<leftarrow> put b (bb_buffer self, nat (bb_size self));
             Some (1, self\<lparr>bb_buffer := buffer, bb_size := bb_size self + 1\<rparr>) }
      else Some (0, self))"

definition ByteBuffer_getBuffer :: "ByteBuffer \<Rightarrow> byte list" where
  "ByteBuffer_getBuffer self = bb_buffer self"

definition ByteBuffer_getMaxSize :: "ByteBuffer \<Rightarrow> int" where
  "ByteBuffer_getMaxSize self = bb_maxSize self"

definition ByteBuffer_getSize :: "ByteBuffer \<Rightarrow> int" where
  "ByteBuffer_getSize self = bb_size self"

definition ByteBuffer_setSize :: "ByteBuffer \<Rightarrow> int \<Rightarrow> int \<times> ByteBuffer" where
  "ByteBuffer_setSize self sz =
     (let self = (if sz \<le> bb_maxSize self then self\<lparr>bb_size := sz\<rparr> else self) in (bb_size self, self))"

section \<open>Areas and allocators\<close>

record BufferChain =
  bc_length :: int
  bc_partLength :: int
  bc_partMaxLength :: int
  bc_buffer :: "byte list"
  bc_nextPart :: "nat option"

definition BufferChain_init :: "int \<Rightarrow> int \<Rightarrow> nat option \<Rightarrow> byte list \<Rightarrow> BufferChain" where
  "BufferChain_init len partLength nextPart buffer =
     \<lparr>bc_length = len, bc_partLength = partLength, bc_partMaxLength = partLength, bc_buffer = buffer, bc_nextPart = nextPart\<rparr>"

record MemoryArea =
  mar_currentPos :: int
  mar_size :: int

definition MemoryArea_initialize :: "int \<Rightarrow> MemoryArea" where
  "MemoryArea_initialize sz = \<lparr>mar_currentPos = 0, mar_size = sz\<rparr>"

definition MemoryArea_getNextBlock :: "MemoryArea \<Rightarrow> int \<Rightarrow> int option \<times> MemoryArea" where
  "MemoryArea_getNextBlock self sz =
     (if sz \<le> mar_size self - mar_currentPos self
      then (Some (mar_currentPos self), self\<lparr>mar_currentPos := mar_currentPos self + sz\<rparr>)
      else (None, self))"

record MemoryAllocator =
  ma_currentPtr :: int
  ma_size :: int

definition MemoryAllocator_init :: "int \<Rightarrow> MemoryAllocator" where
  "MemoryAllocator_init sz = \<lparr>ma_currentPtr = 0, ma_size = sz\<rparr>"

text \<open>The size is converted to an unsigned number of 64 bits in the arithmetic with \<open>sizeof\<close>.\<close>

definition MemoryAllocator_getAlignedSize :: "int \<Rightarrow> int" where
  "MemoryAllocator_getAlignedSize sz =
     (let s = word_of_int sz :: uint64 in
      if 0 < s mod 8 then int32 (uint (8 * ((s + 8 - 1) div 8))) else sz)"

definition MemoryAllocator_allocate :: "MemoryAllocator \<Rightarrow> int \<Rightarrow> int option \<times> MemoryAllocator" where
  "MemoryAllocator_allocate self sz =
     (let sz = MemoryAllocator_getAlignedSize sz in
      if ma_currentPtr self + sz \<le> ma_size self
      then (Some (ma_currentPtr self), self\<lparr>ma_currentPtr := ma_currentPtr self + sz\<rparr>)
      else (None, self))"

section \<open>Lists in an allocator\<close>

text \<open>\<open>base\<close> is the address of the memory block. The head has 24 octets and begins like a list node; a node has 16.\<close>

definition MemAllocLinkedList_create ::
    "nat \<Rightarrow> node_heap \<Rightarrow> MemoryAllocator \<Rightarrow> nat option \<times> node_heap \<times> MemoryAllocator" where
  "MemAllocLinkedList_create base h ma =
     (case MemoryAllocator_allocate ma 24 of
        (None, ma) \<Rightarrow> (None, h, ma)
      | (Some p, ma) \<Rightarrow>
          (Some (base + nat p), h(base + nat p \<mapsto> \<lparr>ll_data = None, ll_next = None\<rparr>), ma))"

definition MemAllocLinkedList_add ::
    "nat \<Rightarrow> node_heap \<Rightarrow> MemoryAllocator \<Rightarrow> nat \<Rightarrow> nat option \<Rightarrow> (nat option \<times> node_heap \<times> MemoryAllocator) option" where
  "MemAllocLinkedList_add base h ma self dat =
     (case MemoryAllocator_allocate ma 16 of
        (None, ma) \<Rightarrow> Some (None, h, ma)
      | (Some p, ma) \<Rightarrow> do {
          let newElement = base + nat p;
          let h = h(newElement \<mapsto> \<lparr>ll_data = dat, ll_next = None\<rparr>);
          listEnd \<leftarrow> LinkedList_getLastElement h self;
          h \<leftarrow> set_next h listEnd (Some newElement);
          Some (Some newElement, h, ma) })"

section \<open>The contract of an allocator\<close>

text \<open>Requests one after the other, with the start of each block or \<open>None\<close>.\<close>

fun serve :: "('s \<Rightarrow> int \<Rightarrow> int option \<times> 's) \<Rightarrow> 's \<Rightarrow> int list \<Rightarrow> int option list \<times> 's" where
  "serve alloc s [] = ([], s)"
| "serve alloc s (n # ns) = (let (p, s) = alloc s n; (ps, s) = serve alloc s ns in (p # ps, s))"

text \<open>The blocks that were granted, with the sizes that were asked for.\<close>

fun granted :: "int option list \<Rightarrow> int list \<Rightarrow> (int \<times> int) list" where
  "granted (Some p # ps) (n # ns) = (p, n) # granted ps ns"
| "granted (None # ps) (n # ns) = granted ps ns"
| "granted ps ns = []"

text \<open>Blocks in ascending order that do not overlap, inside an interval.\<close>

fun blocks_within :: "int \<Rightarrow> (int \<times> int) list \<Rightarrow> int \<Rightarrow> bool" where
  "blocks_within lo [] hi \<longleftrightarrow> True"
| "blocks_within lo ((p, n) # bs) hi \<longleftrightarrow> lo \<le> p \<and> 0 \<le> n \<and> p + n \<le> hi \<and> blocks_within (p + n) bs hi"

lemma blocks_within_mono: "blocks_within lo bs hi \<Longrightarrow> lo' \<le> lo \<Longrightarrow> blocks_within lo' bs hi"
  by (cases bs rule: list.exhaust) auto

text \<open>An allocator that moves a position through its block.\<close>

locale bump_allocator =
  fixes alloc :: "'s \<Rightarrow> int \<Rightarrow> int option \<times> 's" and pos :: "'s \<Rightarrow> int" and limit :: "'s \<Rightarrow> int"
    and request :: "int \<Rightarrow> bool" and rounded :: "int \<Rightarrow> int"
  assumes grants: "request n \<Longrightarrow> pos s + rounded n \<le> limit s \<Longrightarrow>
      \<exists>s'. alloc s n = (Some (pos s), s') \<and> pos s' = pos s + rounded n \<and> limit s' = limit s"
    and refuses: "request n \<Longrightarrow> \<not> pos s + rounded n \<le> limit s \<Longrightarrow> alloc s n = (None, s)"
    and rounds_up: "request n \<Longrightarrow> 0 \<le> n \<and> n \<le> rounded n"
begin

lemma serve_disjoint:
  "\<forall>n \<in> set ns. request n \<Longrightarrow> serve alloc s ns = (ps, s') \<Longrightarrow>
   length ps = length ns \<and> limit s' = limit s \<and> pos s \<le> pos s' \<and> blocks_within (pos s) (granted ps ns) (limit s)"
proof (induction ns arbitrary: s ps)
  case (Cons n ns)
  have n: "request n" "0 \<le> n" "n \<le> rounded n" using Cons.prems(1) rounds_up [of n] by auto
  obtain p s1 where p: "alloc s n = (p, s1)" by fastforce
  obtain qs where qs: "serve alloc s1 ns = (qs, s')" "ps = p # qs" using Cons.prems(2) p by (auto split: prod.splits)
  note IH = Cons.IH [OF _ qs(1)]
  show ?case
  proof (cases "pos s + rounded n \<le> limit s")
    case True
    then obtain s2 where "alloc s n = (Some (pos s), s2)" "pos s2 = pos s + rounded n" "limit s2 = limit s"
      using grants [OF n(1)] by blast
    then have s1: "p = Some (pos s)" "pos s1 = pos s + rounded n" "limit s1 = limit s" using p by auto
    have rest: "length qs = length ns \<and> limit s' = limit s1 \<and> pos s1 \<le> pos s' \<and> blocks_within (pos s1) (granted qs ns) (limit s1)"
      using IH Cons.prems(1) by simp
    then have "blocks_within (pos s + n) (granted qs ns) (limit s)" using blocks_within_mono s1 n(3) by fastforce
    then show ?thesis using rest s1 n True by (auto simp: qs(2))
  next
    case False
    then have "p = None" "s1 = s" using refuses [OF n(1)] p by auto
    then show ?thesis using IH Cons.prems(1) by (simp add: qs(2))
  qed
qed simp

end

interpretation area: bump_allocator MemoryArea_getNextBlock mar_currentPos mar_size "\<lambda>n. 0 \<le> n" id
  by unfold_locales (auto simp: MemoryArea_getNextBlock_def)

text \<open>Sizes that can be rounded up to a multiple of eight within 31 bits.\<close>

lemma aligned_size:
  assumes "0 \<le> n" and "n < 2 ^ 31 - 8"
  shows "MemoryAllocator_getAlignedSize n = 8 * ((n + 7) div 8)"
proof -
  define s where "s = (word_of_int n :: uint64)"
  have s: "uint s = n" using assms by (simp add: s_def uint_word_of_int)
  have "uint (s + 8 - 1) = n + 7" using assms s by (simp add: uint_word_ariths s)
  then have d: "uint ((s + 8 - 1) div 8) = (n + 7) div 8" by (simp add: uint_div)
  have b: "0 \<le> (n + 7) div 8" "8 * ((n + 7) div 8) \<le> n + 7" using assms(1) by simp_all
  have "uint (8 * ((s + 8 - 1) div 8)) = (8 * ((n + 7) div 8)) mod 2 ^ 64"
    unfolding uint_word_ariths(3) [of "8 :: uint64"] d by simp
  then have u: "uint (8 * ((s + 8 - 1) div 8)) = 8 * ((n + 7) div 8)" using b assms(2) by simp
  have "n < 2147483640" using assms(2) by simp
  then have "int32 (8 * ((n + 7) div 8)) = 8 * ((n + 7) div 8)" by (intro int32_id) (use b in linarith)+
  moreover have "0 < s mod 8 \<longleftrightarrow> n mod 8 \<noteq> 0" by (simp add: word_gt_0 word_uint_eq_iff uint_mod s)
  moreover have "n mod 8 = 0 \<Longrightarrow> n = 8 * ((n + 7) div 8)" by presburger
  ultimately show ?thesis using u by (simp add: MemoryAllocator_getAlignedSize_def Let_def s_def [symmetric])
qed

definition aligned :: "int \<Rightarrow> int" where
  "aligned n = 8 * ((n + 7) div 8)"

lemma aligned_ge: "n \<le> aligned n"
  unfolding aligned_def by presburger

interpretation allocator: bump_allocator MemoryAllocator_allocate ma_currentPtr ma_size "\<lambda>n. 0 \<le> n \<and> n < 2 ^ 31 - 8" aligned
  by unfold_locales (auto simp: MemoryAllocator_allocate_def aligned_size aligned_def [symmetric] aligned_ge)

section \<open>Properties\<close>

text \<open>C37. Blocks that an allocator or a memory area grants are inside its memory and do not overlap: for any sequence of
  requests the granted blocks follow each other from the current position to the end of the memory, and every block of
  an allocator starts at a multiple of the pointer size if the first one does.\<close>

theorem allocations_disjoint:
  assumes "\<forall>n \<in> set ns. 0 \<le> n \<and> n < 2 ^ 31 - 8"
  shows "blocks_within (ma_currentPtr ma) (granted (fst (serve MemoryAllocator_allocate ma ns)) ns) (ma_size ma) \<and>
    blocks_within (mar_currentPos mar) (granted (fst (serve MemoryArea_getNextBlock mar ns)) ns) (mar_size mar) \<and>
    (8 dvd ma_currentPtr ma \<longrightarrow> (\<forall>p. Some p \<in> set (fst (serve MemoryAllocator_allocate ma ns)) \<longrightarrow> 8 dvd p))"
proof (intro conjI impI)
  show "blocks_within (ma_currentPtr ma) (granted (fst (serve MemoryAllocator_allocate ma ns)) ns) (ma_size ma)"
    using allocator.serve_disjoint [OF assms, of ma] by (cases "serve MemoryAllocator_allocate ma ns") simp
  have "\<forall>n \<in> set ns. 0 \<le> n" using assms by blast
  then show "blocks_within (mar_currentPos mar) (granted (fst (serve MemoryArea_getNextBlock mar ns)) ns) (mar_size mar)"
    using area.serve_disjoint [of ns mar] by (cases "serve MemoryArea_getNextBlock mar ns") simp
  show "\<forall>p. Some p \<in> set (fst (serve MemoryAllocator_allocate ma ns)) \<longrightarrow> 8 dvd p" if "8 dvd ma_currentPtr ma"
    using that assms
  proof (induction ns arbitrary: ma)
    case (Cons n ns)
    obtain p ma' where p: "MemoryAllocator_allocate ma n = (p, ma')" by fastforce
    have "8 dvd aligned n" by (simp add: aligned_def)
    moreover have "MemoryAllocator_getAlignedSize n = aligned n" using aligned_size [of n] Cons.prems(2) by (simp add: aligned_def)
    ultimately have "8 dvd ma_currentPtr ma'" "p \<noteq> None \<Longrightarrow> 8 dvd the p"
      using p Cons.prems(1) by (auto simp: MemoryAllocator_allocate_def Let_def split: if_splits)
    then show ?case using Cons.IH [of ma'] Cons.prems(2) p by (auto simp: split_beta)
  qed simp
qed

text \<open>The octets in a buffer.\<close>

definition bb_ok :: "ByteBuffer \<Rightarrow> bool" where
  "bb_ok b \<longleftrightarrow> 0 \<le> bb_size b \<and> bb_size b \<le> bb_maxSize b \<and> bb_maxSize b \<le> int (length (bb_buffer b)) \<and> bb_maxSize b < 2 ^ 31"

definition bb_content :: "ByteBuffer \<Rightarrow> byte list" where
  "bb_content b = take (nat (bb_size b)) (bb_buffer b)"

lemma put_content:
  assumes ok: "bb_ok b" and len: "bb_size b + int (length bs) \<le> bb_maxSize b"
  shows "\<exists>buf. put_bytes bs (bb_buffer b, nat (bb_size b)) = Some (buf, nat (bb_size b) + length bs) \<and>
    length buf = length (bb_buffer b) \<and> take (nat (bb_size b) + length bs) buf = bb_content b @ bs \<and>
    drop (nat (bb_maxSize b)) buf = drop (nat (bb_maxSize b)) (bb_buffer b)"
proof -
  let ?n = "nat (bb_size b)" and ?buf = "bb_buffer b"
  have n: "?n + length bs \<le> nat (bb_maxSize b)" "nat (bb_maxSize b) \<le> length ?buf" using ok len by (auto simp: bb_ok_def)
  then have "put_bytes bs (?buf, ?n) = Some (take ?n ?buf @ bs @ drop (?n + length bs) ?buf, ?n + length bs)"
    using put_bytes_exact [of ?n bs ?buf] by simp
  then show ?thesis using n by (auto simp: bb_content_def)
qed

text \<open>C38. A byte buffer keeps its octets: appending data that fits appends them to the content and returns their number,
  appending more returns -1 and changes nothing, a single octet is appended or refused likewise; nothing is written behind
  the maximal size, and the invariant of the buffer is kept. A new buffer is empty.\<close>

theorem byte_buffer_refines:
  assumes "bb_ok b" and "n \<le> length dat" and "n < 2 ^ 30" and "bb_maxSize b < 2 ^ 30" and "0 \<le> k" and "k < 2 ^ 31"
  shows "(if bb_size b + int n \<le> bb_maxSize b
      then \<exists>b'. ByteBuffer_append b dat (int n) = Some (int n, b') \<and> bb_ok b' \<and> bb_content b' = bb_content b @ take n dat \<and>
        drop (nat (bb_maxSize b)) (bb_buffer b') = drop (nat (bb_maxSize b)) (bb_buffer b)
      else ByteBuffer_append b dat (int n) = Some (- 1, b)) \<and>
    (if bb_size b < bb_maxSize b
      then \<exists>b'. ByteBuffer_appendByte b c = Some (1, b') \<and> bb_ok b' \<and> bb_content b' = bb_content b @ [c] \<and>
        drop (nat (bb_maxSize b)) (bb_buffer b') = drop (nat (bb_maxSize b)) (bb_buffer b)
      else ByteBuffer_appendByte b c = Some (0, b)) \<and>
    bb_ok (ByteBuffer_create k) \<and> bb_content (ByteBuffer_create k) = []"
proof (intro conjI)
  have s: "0 \<le> bb_size b" "bb_size b \<le> bb_maxSize b" using assms(1) by (auto simp: bb_ok_def)
  have range: "bb_size b + int n \<in> {- (2 ^ 31)..<2 ^ 31}" using s assms(3,4) by simp
  have rd: "rd_bytes dat 0 (int n) = Some (take n dat)" using assms(2) by (simp add: rd_bytes_def)
  show "if bb_size b + int n \<le> bb_maxSize b
      then \<exists>b'. ByteBuffer_append b dat (int n) = Some (int n, b') \<and> bb_ok b' \<and> bb_content b' = bb_content b @ take n dat \<and>
        drop (nat (bb_maxSize b)) (bb_buffer b') = drop (nat (bb_maxSize b)) (bb_buffer b)
      else ByteBuffer_append b dat (int n) = Some (- 1, b)"
  proof (cases "bb_size b + int n \<le> bb_maxSize b")
    case True
    then obtain buf where "put_bytes (take n dat) (bb_buffer b, nat (bb_size b)) = Some (buf, nat (bb_size b) + n)"
        "length buf = length (bb_buffer b)" "take (nat (bb_size b) + n) buf = bb_content b @ take n dat"
        "drop (nat (bb_maxSize b)) buf = drop (nat (bb_maxSize b)) (bb_buffer b)"
      using put_content [OF assms(1), of "take n dat"] assms(2) by auto
    then show ?thesis
      using True s assms(1) range rd by (auto simp: ByteBuffer_append_def bb_ok_def bb_content_def nat_add_distrib)
  next
    case False
    then show ?thesis using range by (simp add: ByteBuffer_append_def)
  qed
  show "if bb_size b < bb_maxSize b
      then \<exists>b'. ByteBuffer_appendByte b c = Some (1, b') \<and> bb_ok b' \<and> bb_content b' = bb_content b @ [c] \<and>
        drop (nat (bb_maxSize b)) (bb_buffer b') = drop (nat (bb_maxSize b)) (bb_buffer b)
      else ByteBuffer_appendByte b c = Some (0, b)"
  proof (cases "bb_size b < bb_maxSize b")
    case True
    then obtain buf where "put c (bb_buffer b, nat (bb_size b)) = Some (buf, nat (bb_size b) + 1)"
        "length buf = length (bb_buffer b)" "take (nat (bb_size b) + 1) buf = bb_content b @ [c]"
        "drop (nat (bb_maxSize b)) buf = drop (nat (bb_maxSize b)) (bb_buffer b)"
      using put_content [OF assms(1), of "[c]"] by (auto simp: put_fun)
    then show ?thesis
      using True s assms(1) by (auto simp: ByteBuffer_appendByte_def bb_ok_def bb_content_def nat_add_distrib)
  next
    case False
    then show ?thesis by (simp add: ByteBuffer_appendByte_def)
  qed
  show "bb_ok (ByteBuffer_create k)" "bb_content (ByteBuffer_create k) = []"
    using assms(5,6) by (simp_all add: ByteBuffer_create_def bb_ok_def bb_content_def)
qed

text \<open>Lists whose nodes are in an allocator: a node is appended when there is room for it.\<close>

lemma memalloc_add:
  assumes l: "is_list h self xs" and p: "p = base + nat (ma_currentPtr ma)" "h p = None" and room: "ma_currentPtr ma + 16 \<le> ma_size ma"
  shows "\<exists>h'. MemAllocLinkedList_add base h ma self d = Some (Some p, h', ma\<lparr>ma_currentPtr := ma_currentPtr ma + 16\<rparr>) \<and>
    is_list h' self (xs @ [(p, d)])"
proof -
  have "MemoryAllocator_getAlignedSize 16 = 16" using aligned_size [of 16] by simp
  then have a: "MemoryAllocator_allocate ma 16 = (Some (ma_currentPtr ma), ma\<lparr>ma_currentPtr := ma_currentPtr ma + 16\<rparr>)"
    using room by (simp add: MemoryAllocator_allocate_def)
  have new: "p \<notin> footprint self xs" using l p(2) chain_defined by (fastforce simp: is_list_def split: option.splits)
  let ?h = "h(p \<mapsto> \<lparr>ll_data = d, ll_next = None\<rparr>)"
  have "is_list ?h self xs" by (rule is_list_frame [OF l]) (use new in auto)
  then show ?thesis
    using append_node [of ?h self xs p d] new getLastElement_last [of ?h self xs] a p(1)
    by (auto simp: MemAllocLinkedList_add_def Let_def)
qed

theorem allocations_disjoint_witness:
  "serve MemoryAllocator_allocate (MemoryAllocator_init 32) [3, 10, 20] = ([Some 0, Some 8, None], \<lparr>ma_currentPtr = 24, ma_size = 32\<rparr>) \<and>
   blocks_within 0 (granted [Some 0, Some 8, None] [3, 10, 20]) 32"
proof -
  have r: "serve MemoryAllocator_allocate (MemoryAllocator_init 32) [3, 10, 20] = ([Some 0, Some 8, None], \<lparr>ma_currentPtr = 24, ma_size = 32\<rparr>)"
    by code_simp
  then show ?thesis using allocations_disjoint [of "[3, 10, 20]" "MemoryAllocator_init 32"] unfolding r
    by (simp add: MemoryAllocator_init_def)
qed

theorem byte_buffer_refines_witness:
  "\<exists>b'. ByteBuffer_append (ByteBuffer_create 3) [1, 2, 9] 2 = Some (2, b') \<and> bb_ok b' \<and> bb_content b' = [1, 2]"
proof -
  have ok: "bb_ok (ByteBuffer_create 3)" by (simp add: ByteBuffer_create_def bb_ok_def)
  show ?thesis
    using byte_buffer_refines [OF ok, of 2 "[1, 2, 9]" 3] by (auto simp: ByteBuffer_create_def bb_content_def)
qed

end
