(* ===== verification/Spec2Isabelle.thy ===== *)
theory Spec2Isabelle
  imports Goose_App_Link Sv_App_Link String_Order Ipv6_Text Mms_Print Pointer_Map Memory_Areas
begin

text \<open>
  A model of GridGooseSV, the ns-3 port of the GOOSE and sampled values parts of libiec61850, and the
  theorems that make it correct. All paths are under \<open>src/model/libiec61850/\<close> unless they start with
  \<open>src/model/\<close>.

  \<^bold>\<open>The program.\<close> A GOOSE publisher encodes a data set of MMS values into an Ethernet frame and hands it
  to the ns-3 Ethernet layer; a GOOSE receiver parses the frames it is given, looks for the subscriber that
  matches, updates its copy of the data set and calls its listener. A sampled values publisher lays out a
  frame once, then writes samples through pointers into it and sends it; a sampled values receiver parses
  the frame in place and calls the listener with pointers into its own buffer. Both use the BER encoder and
  decoder; GOOSE also uses the MMS values and their encoding. Four ns-3 applications, two publishers driven
  by timers and two subscribers driven by packets, use these parts on the devices of a simulated network.

  \<^bold>\<open>Theories.\<close>
  \<^item> \<open>Prelude\<close>: machine words, byte arrays with checked access, write cursors, byte order, C strings.
  \<^item> \<open>Ber_Encoder\<close>, \<open>Ber_Decode\<close>, \<open>Ber_Integer\<close>: \<open>src/mms/asn1/\<close>. What each encoder writes, what the
    size functions predict, that the decoder never leaves its buffer, and the round trips; which numbers the
    setters of an integer store and which they refuse.
  \<^item> \<open>Ber_Tlv\<close>: elements as a whole and sequences of them, shared by both protocols.
  \<^item> \<open>String_Utilities\<close>, \<open>String_Text\<close>, \<open>String_Order\<close>: \<open>src/common/string_utilities.cc\<close>, the functions
    that copy and build text inside a buffer, numbers and hexadecimal octets in text, the weights of
    characters, the comparison and the sorting of names. \<open>Ipv6_Text\<close>: the IPv6 addresses of the same file.
  \<^item> \<open>Linked_List\<close>: \<open>src/common/linked_list.cc\<close> on a heap of nodes. Every operation implements the one on
    lists that the other theories use in its place, and leaves disjoint lists alone.
  \<^item> \<open>Pointer_Map\<close>: \<open>src/common/map.cc\<close> and \<open>src/common/string_map.cc\<close> on top of it. The operations on the heap
    implement those of an association list, with keys that are pointers and with keys that are texts.
  \<^item> \<open>Memory_Areas\<close>: \<open>src/common/byte_buffer.cc\<close>, \<open>src/common/buffer_chain.cc\<close>, \<open>src/common/simple_allocator.cc\<close>,
    \<open>src/common/mem_alloc_linked_list.cc\<close>. The blocks that are granted are disjoint, and a buffer keeps its octets.
  \<^item> \<open>Conversions\<close>: \<open>src/common/conversions.cc\<close>, times as text. The calendar, and the round trip of a time. The parser
    takes the \<open>timegm\<close> of the platform as an argument; the \<open>timegm\<close> of the source, for Windows, is modelled in 32 bit
    arithmetic, in which it counts until January 2038.
  \<^item> \<open>Mms_Value\<close>, \<open>Mms_Access_Result\<close>: \<open>src/mms/iso_mms/common/mms_value.cc\<close> and
    \<open>src/mms/iso_mms/server/mms_access_result.cc\<close>. The values, their setters and getters, the size pass
    and the encoding pass of \<open>MmsValue_encodeMmsData\<close>. \<open>Mms_Print\<close>: \<open>MmsValue_printToBuffer\<close>, against the
    text of a value.
  \<^item> \<open>Ethernet_Hal\<close>: \<open>hal/ethernet/ns3/ethernet.cc\<close>.
  \<^item> \<open>Goose_Publisher\<close>: \<open>src/goose/goose_publisher.cc\<close>. The publisher invariant \<open>gp_inv\<close>, kept by
    every operation, and the run of packets a sequence of publish calls sends.
  \<^item> \<open>Goose_Subscriber\<close>, \<open>Goose_Receiver\<close>: \<open>src/goose/goose_subscriber.cc\<close> and
    \<open>src/goose/goose_receiver.cc\<close>, with the two data set parsers, the APDU and the frame parser.
  \<^item> \<open>Goose_Data\<close>, \<open>Goose_Update\<close>: the parser for a data set of unknown type and the parser that
    updates an existing one, on what the encoding loop of the publisher writes (round trips) and on arbitrary octets
    (memory safety up to the one octet that an empty Boolean reads behind its message, the errors that are reported).
  \<^item> \<open>Goose_Link\<close>: from the publisher to the listener of a subscriber.
  \<^item> \<open>Iec61850_Common\<close>: \<open>src/iec61850/common/iec61850_common.cc\<close>, qualities, positions, functional
    constraints, time stamps.
  \<^item> \<open>Object_Reference\<close>: the object references of the same file, their MMS names and access specifications,
    and the round trip between them.
  \<^item> \<open>Sv_Publisher\<close>, \<open>Sv_Layout\<close>, \<open>Sv_Update\<close>, \<open>Sv_Publication\<close>: \<open>src/sampled_values/sv_publisher.cc\<close>,
    its operations, the layout of the frame, the refinement of the operations by updates of the abstract
    ASDU \<open>sv_asdu\<close>, and the properties of the publisher.
  \<^item> \<open>Sv_Subscriber\<close>, \<open>Sv_Safety\<close>: \<open>src/sampled_values/sv_subscriber.cc\<close> and its parsers on arbitrary
    octets.
  \<^item> \<open>Sv_Link\<close>: from the sampled values publisher to the listener, and from the setters of the publisher to the
    getters that the listener calls.
  \<^item> \<open>Device_Util\<close>: \<open>src/util/device-util.cc\<close> and \<open>src/util/address-util.cc\<close>, the paths by which the
    applications name a device, and hardware addresses as text.
  \<^item> \<open>Ns3_Simulator\<close>: the operations of the ns-3 simulator as arguments, their documented behaviour as the
    predicate \<open>simulates\<close>, a queue that has it, and the clock of \<open>hal/time/ns3/time.cc\<close>.
  \<^item> \<open>Goose_App\<close>, \<open>Goose_App_Run\<close>, \<open>Goose_App_Link\<close>: \<open>src/model/goose-publisher-app.cc\<close> and
    \<open>src/model/goose-receiver-app.cc\<close>: the handlers, the step relation and the invariant of the publisher
    application (its counters, its message and its timers), and what the receiver application gets of a run.
  \<^item> \<open>Sv_App\<close>, \<open>Sv_App_Run\<close>, \<open>Sv_App_Link\<close>: \<open>src/model/sv-publisher-app.cc\<close> and
    \<open>src/model/sv-subscriber-app.cc\<close>: the handlers, the exact messages of a run, and the samples the
    subscriber application keeps.

  \<^bold>\<open>Conventions.\<close> A C++ function is a HOL function of the same name. Integers keep their width as words
  where they can wrap; positions and lengths that the source keeps in \<open>int\<close> are \<open>int\<close> or \<open>nat\<close>: the buffers
  are far smaller than what 32 bits count. The length decoder, which adds a length from the message before it checks it, is
  also given with every sum checked (\<open>decode_length_step_checked\<close>), and the two agree on messages of up to 4 MiB
  (\<open>decode_length_no_overflow\<close>). Floats
  are the words of their octets. A pointer into a byte array is the list of the octets from that address on
  in the GOOSE parts, and a position in the frame buffer in the sampled values parts, where functions write
  through it. A C string includes its terminating zero. \<open>None\<close> is undefined behaviour of the source: an
  access outside an allocation, a null pointer that is followed, a division by zero, an overflow where it is checked. A result \<open>Some\<close> of a
  function therefore says that the code did none of these. Error codes and early returns are values inside
  the \<open>Some\<close>. The target is little endian (\<open>ORDER_LITTLE_ENDIAN\<close>), the \<open>DEBUG\<close> macros are 0 as in
  \<open>config/stack_config.h\<close>, and allocation succeeds; the content of fresh memory is an argument.
  What ns-3 provides is a parameter: the device lookup, the packet that arrives, the simulator with its
  clock and its events; so are the power function and the floating point operations of the applications,
  and the text of a floating point number.

  \<^bold>\<open>Loops.\<close> Loops over lists are structural; the parser loops are total functions whose measure is the
  rest of the input (\<open>decodeLength_progress\<close>: decoding a length always moves forward), so every theorem
  about them is about runs that end. The nesting of indefinite lengths is bounded by 50, as in the source.
  The frame buffers have the 1518 octets of the source.

  \<^bold>\<open>Interfaces.\<close> \<open>ber_writer\<close> and \<open>sized_writer\<close> (what an encoder writes and the size it predicts),
  \<open>timestamp_flag\<close> (a flag of a time stamp), \<open>asdu_op\<close> (an operation on an ASDU in a frame),
  \<open>asdu_pointer\<close> (a field of a received ASDU), \<open>element_walk\<close> (a loop over elements), \<open>list_update\<close> (a change
  of one list in a heap), \<open>compares_keys\<close> (an order by keys), \<open>key_comparison\<close> (the comparison of a map) and
  \<open>bump_allocator\<close> (an allocator that moves a position) are locales, interpreted on the operations of the model.

  \<^bold>\<open>Not modelled.\<close> The ASN.1 runtime and generated code (\<open>src/mms/iso_mms/asn1c\<close>), the headers of the MMS
  client and server whose sources are not part of the module, the file system layer, logging, the memory
  layer below \<open>malloc\<close>, the helpers that install the applications, examples and tests. The time zone of the host is a
  parameter. The identifiers that the sampled values application passes on after their strings are destroyed are arguments.
\<close>

section \<open>Properties that span components\<close>

text \<open>C8. Every message is delivered, in order and unchanged: for a publisher and a receiver that are
  linked, publishing a list of data sets hands one packet per data set to the network, and when the
  receiver is polled once per packet, the listener is called once per message; at each call the
  subscriber is valid and holds the state number, the next sequence number, the time stamp, the
  configuration revision and the data set of that message.\<close>

theorem goose_stream_delivered:
  assumes "linked p mac self" and "list_all (\<lambda>ds. goose_values ds \<and> dataset_ok ds) dss"
    and "\<forall>ds \<in> set dss. \<forall>n. length (goose_apdu (at_sqNum self n) ds) \<le> 1518 - gp_payloadStart self"
    and "awaits self dss i r" and "unat (gp_sqNum self) + length dss < 2 ^ 32" and "length nows = length dss"
  shows "\<exists>self' packets ss r'. publish_all self dss = Some self' \<and>
    es_sent (gp_ethernetSocket self') = es_sent (gp_ethernetSocket self) @ packets \<and>
    tick_all (zip nows packets) r = Some (map Some ss, r') \<and> length packets = length dss \<and>
    length ss = length dss \<and>
    (\<forall>k < length dss. sees (nows ! k) self (gp_sqNum self + of_nat k) (dss ! k) (ss ! k))"
  by (rule stream_run [OF assms])

theorem goose_stream_delivered_witness:
  "\<exists>self r self' packets ss r'. publish_all self [[Some (MmsBoolean True)], [Some (MmsBoolean False)]] = Some self' \<and>
    es_sent (gp_ethernetSocket self') = packets \<and>
    tick_all (zip [10, 20] packets) r = Some (map Some ss, r') \<and> length ss = 2 \<and>
    sees 10 self 1 [Some (MmsBoolean True)] (ss ! 0) \<and> sees 20 self 2 [Some (MmsBoolean False)] (ss ! 1)"
proof -
  let ?dss = "[[Some (MmsBoolean True)], [Some (MmsBoolean False)]]"
  obtain self0 where s0: "gp_inv (goose_header default_comm_parameters [2, 0, 0, 0, 0, 1] True) self0"
      "\<forall>n ds. length (goose_apdu (at_sqNum self0 n) ds) \<le> 100 + length (elements_bytes ds)"
      "gp_payloadStart self0 \<le> 26" "es_sent (gp_ethernetSocket self0) = []" "gp_sqNum self0 = 0"
      "gp_stNum self0 = 1" "gp_goCBRef self0 = None" "gp_dataSetRef self0 = None" "gp_goID self0 = None"
    by (rule example_publisher)
  define self where "self = GoosePublisher_setSqNum self0 1"
  have s: "gp_inv (goose_header default_comm_parameters [2, 0, 0, 0, 0, 1] True) self"
      "gp_payloadStart self \<le> 26" "es_sent (gp_ethernetSocket self) = []" "gp_sqNum self = 1"
      "gp_stNum self = 1" "gp_goCBRef self = None" "gp_dataSetRef self = None" "gp_goID self = None"
    using s0 setters_inv(4) [OF s0(1), of 1] by (simp_all add: self_def GoosePublisher_setSqNum_def)
  have at: "at_sqNum self n = at_sqNum self0 n" for n
    by (simp add: self_def GoosePublisher_setSqNum_def at_sqNum_def)
  have link: "linked default_comm_parameters [2, 0, 0, 0, 0, 1] self"
    using s by (simp add: linked_def default_comm_parameters_def goose_id_def)
  obtain sub0 where sub0: "GooseSubscriber_create (c_str []) (Some (MmsArray [Some (MmsBoolean False)])) = Some sub0"
      "gs_ok sub0" "gs_goCBRefLen sub0 = 0" "gs_isObserver sub0 = False"
      "gs_dataSetValues sub0 = Some (MmsArray [Some (MmsBoolean False)])"
      "gs_stNum sub0 = 0" "gs_dataSetValuesSelfAllocated sub0 = False"
    by (rule create_ok [of "[]" "Some (MmsArray [Some (MmsBoolean False)])"]) simp_all
  define sub where "sub = GooseSubscriber_setListener sub0 True"
  define r where "r = GooseReceiver_addSubscriber (GooseReceiver_create (replicate 1518 0)) sub"
  have aw: "awaits self ?dss 0 r"
    using sub0 s
    by (simp add: awaits_def Let_def r_def sub_def GooseReceiver_addSubscriber_def GooseReceiver_create_def
        GooseReceiver_createEx_def GooseSubscriber_setListener_def selects_def gs_matches_def gs_ok_def
        accepts_scalar_def)
  have fits: "\<forall>ds \<in> set ?dss. \<forall>n. length (goose_apdu (at_sqNum self n) ds) \<le> 1518 - gp_payloadStart self"
  proof (intro ballI allI)
    fix ds n assume "ds \<in> set ?dss"
    then have "length (elements_bytes ds) \<le> 3" by auto
    then show "length (goose_apdu (at_sqNum self n) ds) \<le> 1518 - gp_payloadStart self"
      unfolding at using s0(2) [rule_format, of n ds] s(2) by linarith
  qed
  have "\<exists>self' packets ss r'. publish_all self ?dss = Some self' \<and>
      es_sent (gp_ethernetSocket self') = es_sent (gp_ethernetSocket self) @ packets \<and>
      tick_all (zip [10, 20] packets) r = Some (map Some ss, r') \<and> length packets = length ?dss \<and>
      length ss = length ?dss \<and>
      (\<forall>k < length ?dss. sees ([10, 20] ! k) self (gp_sqNum self + of_nat k) (?dss ! k) (ss ! k))"
    by (rule goose_stream_delivered [OF link _ fits aw]) (simp_all add: s)
  then obtain self' packets ss r' where run: "publish_all self ?dss = Some self'"
      "es_sent (gp_ethernetSocket self') = packets"
      "tick_all (zip [10, 20] packets) r = Some (map Some ss, r')" "length ss = length ?dss"
      "\<forall>k < length ?dss. sees ([10, 20] ! k) self (gp_sqNum self + of_nat k) (?dss ! k) (ss ! k)"
    by (auto simp: s)
  have "sees 10 self 1 [Some (MmsBoolean True)] (ss ! 0)" "sees 20 self 2 [Some (MmsBoolean False)] (ss ! 1)"
    using run(5) [rule_format, of 0] run(5) [rule_format, of 1] by (simp_all add: s)
  moreover have "length ss = 2" using run(4) by simp
  ultimately show ?thesis using run(1-3) by blast
qed

text \<open>C1. The GOOSE applications work together: when the publisher application runs for k steps and the
  receiver application is given the packets in the order they were sent, the receiver application
  counts every message. As long as messages were left, its last state number is that of the last
  message (k + 1, cut to 16 bits) and its last time is the time, in milliseconds, at which that message was
  sent.\<close>

theorem goose_apps_deliver:
  assumes sim: "simulates S view" and pub: "app_configured devices mac nodeId self" and heap: "length heap = 1518"
    and idle: "in_time (view sim)" "v_pending (view sim) = Map.empty"
    and rcv: "devices' (c_str (device_path nodeId' (gra_deviceIndex r))) = Some mac'" "length heap' = 1518"
  shows "\<exists>s r0. GOOSEPublisher_StartApplication S devices heap nodeId sim self = Some s \<and>
    GOOSEReceiver_StartApplication devices' heap' nodeId' r = Some r0 \<and>
    (\<forall>k s' pub nows. (timed_step S view backoff ^^ k) s s' \<longrightarrow> ga_publisher (snd s') = Some pub \<longrightarrow>
      length nows = length (es_sent (gp_ethernetSocket pub)) \<longrightarrow>
      (\<exists>r'. receive_all (zip nows (es_sent (gp_ethernetSocket pub))) r0 = Some r' \<and>
        gra_received r' = ga_sent (snd s') \<and>
        (0 < k \<longrightarrow> k \<le> unat (max_packets self) \<longrightarrow> k + 1 < 2 ^ 32 \<longrightarrow>
          gra_lastStNum r' = of_nat (k + 1) \<and>
          gra_lastReceivedTime r' = word_of_int (v_now (view (fst s')) div 1000000))))"
proof -
  obtain sim' self' p where s: "GOOSEPublisher_StartApplication S devices heap nodeId sim self = Some (sim', self')"
      "app_inv view (ga_appId self) mac (max_packets self) (sim', self')" "ga_sent self' = 0"
      "ga_publisher self' = Some p" "gp_stNum p = 1" "v_now (view sim') = v_now (view sim)"
    by (rule start_inv [OF sim pub heap idle])
  have msgs: "sent_messages (ga_appId self) mac (snd (sim', self')) []" "ga_sent (snd (sim', self')) = 0"
    using started_messages [OF s(2-5)] s(3) by simp_all
  obtain r0 where r0: "GOOSEReceiver_StartApplication devices' heap' nodeId' r = Some r0" "rcv_ok r0" "gra_received r0 = 0"
    using receiver_started [of devices' nodeId' r mac' heap'] rcv by blast
  show ?thesis
    using s(1) r0(1) run_received [OF sim s(2) msgs(2,1) r0(2,3), where backoff = backoff]
    by (intro exI [of _ "(sim', self')"] exI [of _ r0]) blast
qed

theorem goose_apps_deliver_witness:
  "\<exists>s r0. GOOSEPublisher_StartApplication queue_simulator example_devices (replicate 1518 0) 3 example_queue example_app
      = Some s \<and>
    GOOSEReceiver_StartApplication example_devices (replicate 1518 0) 3 \<lparr>gra_receiver = None, gra_deviceIndex = 0,
      gra_lastReceivedTime = 0, gra_lastStNum = 0, gra_received = 0\<rparr> = Some r0 \<and>
    (\<forall>s' pub. timed_step queue_simulator queue_view (\<lambda>_ _ _ _. 1) s s' \<longrightarrow> ga_publisher (snd s') = Some pub \<longrightarrow>
      (\<exists>r'. receive_all (zip (replicate (length (es_sent (gp_ethernetSocket pub))) 7) (es_sent (gp_ethernetSocket pub))) r0
          = Some r' \<and> gra_received r' = ga_sent (snd s') \<and> gra_lastStNum r' = 2))"
proof -
  let ?r = "\<lparr>gra_receiver = None, gra_deviceIndex = 0, gra_lastReceivedTime = 0, gra_lastStNum = 0, gra_received = 0\<rparr>"
  have dev: "example_devices (c_str (device_path 3 (gra_deviceIndex ?r))) = Some [2, 0, 0, 0, 0, 1]"
    by (simp add: example_devices_def devices_of_path)
  have len: "length (replicate 1518 (0 :: byte)) = 1518" by simp
  obtain s r0 where d: "GOOSEPublisher_StartApplication queue_simulator example_devices (replicate 1518 0) 3
        example_queue example_app = Some s"
      "GOOSEReceiver_StartApplication example_devices (replicate 1518 0) 3 ?r = Some r0"
      "\<forall>k s' pub nows. (timed_step queue_simulator queue_view (\<lambda>_ _ _ _. 1) ^^ k) s s' \<longrightarrow>
        ga_publisher (snd s') = Some pub \<longrightarrow> length nows = length (es_sent (gp_ethernetSocket pub)) \<longrightarrow>
        (\<exists>r'. receive_all (zip nows (es_sent (gp_ethernetSocket pub))) r0 = Some r' \<and>
          gra_received r' = ga_sent (snd s') \<and>
          (0 < k \<longrightarrow> k \<le> unat (max_packets example_app) \<longrightarrow> k + 1 < 2 ^ 32 \<longrightarrow>
            gra_lastStNum r' = of_nat (k + 1) \<and>
            gra_lastReceivedTime r' = word_of_int (v_now (queue_view (fst s')) div 1000000)))"
    using goose_apps_deliver [where devices' = example_devices and nodeId' = 3 and r = ?r and backoff = "\<lambda>_ _ _ _. 1",
        OF queue_simulates example_started(1) len example_started(2,3) dev len]
    by blast
  have "\<exists>r'. receive_all (zip (replicate (length (es_sent (gp_ethernetSocket pub))) 7) (es_sent (gp_ethernetSocket pub))) r0
        = Some r' \<and> gra_received r' = ga_sent (snd s') \<and> gra_lastStNum r' = 2"
    if "timed_step queue_simulator queue_view (\<lambda>_ _ _ _. 1) s s'" "ga_publisher (snd s') = Some pub" for s' pub
    using d(3) [rule_format, of 1 s' pub "replicate (length (es_sent (gp_ethernetSocket pub))) 7"] that
    by (auto simp: example_started(4) relcompp_apply)
  then show ?thesis using d(1,2) by blast
qed

text \<open>C2. The sampled values applications work together: when the publisher application runs for k steps
  and the subscriber application is given the packets in the order they were sent, the subscriber
  application counts every sample of the m messages that were sent, and its last sample is the last one that was
  measured for them: the three currents at the time t of that sample as double precision numbers, the counter
  m mod 65535, the time at which the last packet came, and a time stamp that is at most 60 nanoseconds before t.\<close>

theorem sv_apps_deliver:
  assumes sim: "simulates S view" and pub: "sv_configured devices mac nodeId n svIDs self" and heap: "length heap = 1518"
    and idle: "v_pending (view sim) = Map.empty"
    and sub: "devices' (c_str (device_path nodeId' (ssa_deviceIndex r))) = Some mac'" "length heap' = 1518"
  shows "\<exists>s r0. SVPublisher_StartApplication S devices heap svIDs nodeId sim self = Some s \<and>
    SVSubscriber_StartApplication devices' heap' address nodeId' r = Some r0 \<and>
    (\<forall>k s' pub nows. (sv_step S view fp ^^ k) s s' \<longrightarrow> sva_svPublisher (snd s') = Some pub \<longrightarrow>
      length nows = length (es_sent (sp_ethernetSocket pub)) \<longrightarrow>
      (let m = min (k div n) (unat (sv_messages self));
           t = v_now (view sim) + int (m * n - 1) * interval_of self in
       \<exists>r'. receive_packets (zip nows (es_sent (sp_ethernetSocket pub))) r0 = Some r' \<and>
        ssa_received r' = of_nat (m * n) \<and>
        (let sample = SVSubscriber_GetLastSample r' in
         0 < m \<longrightarrow> smp_ia sample = f32_to_f64 (phase_value fp t (sva_frequency self) 0) \<and>
          smp_ib sample = f32_to_f64 (phase_value fp t (sva_frequency self) 1) \<and>
          smp_ic sample = f32_to_f64 (phase_value fp t (sva_frequency self) 2) \<and>
          smp_smpCnt sample = of_nat (m mod 65535) \<and> smp_receivedTimestamp sample = last nows \<and>
          (0 \<le> t \<longrightarrow> t < 1000000000 * 2 ^ 32 \<longrightarrow>
            int (unat (smp_sampleTimestamp sample)) \<le> t \<and> t \<le> int (unat (smp_sampleTimestamp sample)) + 60))))"
proof -
  obtain s base where s: "SVPublisher_StartApplication S devices heap svIDs nodeId sim self = Some s" "length base = n"
      "app_layout n svIDs base" "sva_frequency (snd s) = sva_frequency self" "sva_interval (snd s) = interval_of self"
      "sv_app_inv view fp mac base (sv_messages self) (v_now (view sim)) 0 s"
    by (rule sv_started [OF sim pub heap idle])
  obtain r0 where r0: "SVSubscriber_StartApplication devices' heap' address nodeId' r = Some r0" "subscribed r0"
      "ssa_received r0 = 0"
    by (rule subscriber_started [of devices' nodeId' r mac' heap' address]) (use sub in auto)
  have mac: "length mac = 6" using pub by (simp add: sv_configured_def)
  have zero: "list_all (\<lambda>v. v_smpCnt v = 0) base" using app_layout_zero [OF s(3)] by blast
  show ?thesis
  proof (intro exI [of _ s] exI [of _ r0] conjI s(1) r0(1) allI impI, goal_cases)
    case (1 k s' pub nows)
    define m where "m = min (k div n) (unat (sv_messages self))"
    define t where "t = v_now (view sim) + int (m * n - 1) * interval_of self"
    from run_sampled [OF sim s(6) 1(1) zero mac r0(2,3) 1(2,3), unfolded s(2,4,5), folded m_def, folded t_def]
    obtain r' where r': "receive_packets (zip nows (es_sent (sp_ethernetSocket pub))) r0 = Some r'"
        "ssa_received r' = of_nat (m * n)"
        "0 < m \<longrightarrow> ssa_lastSample r'
          = sample_of (last nows) (of_nat (m mod 65535)) (sample_row fp (sva_frequency self) t) (sample_stamp t)"
      by (elim exE conjE)
    show ?case
      unfolding m_def [symmetric] t_def [symmetric] Let_def
      by (intro exI [of _ r'] conjI r'(1,2)) (use r'(3) stamp_time [of t] in
          \<open>simp add: SVSubscriber_GetLastSample_def sample_of_def sample_row_def nth_append numeral_2_eq_2\<close>)
  qed
qed

theorem sv_apps_deliver_witness:
  "\<exists>s r0. SVPublisher_StartApplication queue_simulator example_devices (replicate 1518 0) (\<lambda>_. c_str [0x73]) 3
      example_sv_queue example_sv_app = Some s \<and>
    SVSubscriber_StartApplication example_devices (replicate 1518 0) 7 3 SVSubscriber_GetTypeId = Some r0 \<and>
    (\<forall>s' pub. (sv_step queue_simulator queue_view example_fp ^^ 2) s s' \<longrightarrow> sva_svPublisher (snd s') = Some pub \<longrightarrow>
      (\<exists>r'. receive_packets (zip (replicate (length (es_sent (sp_ethernetSocket pub))) 5) (es_sent (sp_ethernetSocket pub))) r0
          = Some r' \<and> ssa_received r' = 2 \<and> smp_ib (SVSubscriber_GetLastSample r') = f32_to_f64 (phase_value example_fp 16666000 60 1)))"
proof -
  have dev: "example_devices (c_str (device_path 3 (ssa_deviceIndex SVSubscriber_GetTypeId))) = Some [2, 0, 0, 0, 0, 1]"
    by (simp add: SVSubscriber_GetTypeId_def example_devices_def devices_of_path)
  have len: "length (replicate 1518 (0 :: byte)) = 1518" by simp
  obtain s r0 where d: "SVPublisher_StartApplication queue_simulator example_devices (replicate 1518 0) (\<lambda>_. c_str [0x73]) 3
        example_sv_queue example_sv_app = Some s"
      "SVSubscriber_StartApplication example_devices (replicate 1518 0) 7 3 SVSubscriber_GetTypeId = Some r0"
      "\<forall>k s' pub nows. (sv_step queue_simulator queue_view example_fp ^^ k) s s' \<longrightarrow>
        sva_svPublisher (snd s') = Some pub \<longrightarrow> length nows = length (es_sent (sp_ethernetSocket pub)) \<longrightarrow>
        (let m = min (k div 2) (unat (2 :: uint64)); t = 0 + int (m * 2 - 1) * 16666000 in
         \<exists>r'. receive_packets (zip nows (es_sent (sp_ethernetSocket pub))) r0 = Some r' \<and> ssa_received r' = of_nat (m * 2) \<and>
          (let sample = SVSubscriber_GetLastSample r' in 0 < m \<longrightarrow> smp_ia sample = f32_to_f64 (phase_value example_fp t 60 0) \<and>
            smp_ib sample = f32_to_f64 (phase_value example_fp t 60 1) \<and> smp_ic sample = f32_to_f64 (phase_value example_fp t 60 2) \<and>
            smp_smpCnt sample = of_nat (m mod 65535) \<and> smp_receivedTimestamp sample = last nows \<and>
            (0 \<le> t \<longrightarrow> t < 1000000000 * 2 ^ 32 \<longrightarrow>
              int (unat (smp_sampleTimestamp sample)) \<le> t \<and> t \<le> int (unat (smp_sampleTimestamp sample)) + 60)))"
    using sv_apps_deliver [where devices' = example_devices and nodeId' = 3 and r = SVSubscriber_GetTypeId and address = 7
        and fp = example_fp, OF queue_simulates example_sv_configured(1) len example_sv_configured(2) dev len]
    unfolding example_sv_configured(3-6) by (elim exE conjE)
  have "\<exists>r'. receive_packets (zip (replicate (length (es_sent (sp_ethernetSocket pub))) 5) (es_sent (sp_ethernetSocket pub))) r0
        = Some r' \<and> ssa_received r' = 2 \<and> smp_ib (SVSubscriber_GetLastSample r') = f32_to_f64 (phase_value example_fp 16666000 60 1)"
    if "(sv_step queue_simulator queue_view example_fp ^^ 2) s s'" "sva_svPublisher (snd s') = Some pub" for s' pub
    using d(3) [rule_format, OF that, of "replicate (length (es_sent (sp_ethernetSocket pub))) 5"] by (auto simp: Let_def)
  then show ?thesis using d(1,2) by blast
qed

end
